(* ===== verification/Cups_Prelude.thy ===== *)
theory Cups_Prelude
  imports Main "HOL-Library.Word"
begin

unbundle bit_operations_syntax

text \<open>
  The shared vocabulary of the development: octets and Go strings, the outcome of Go code that may
  return an error or panic, reads and writes on byte slices, and the big-endian integers of
  \<^verbatim>\<open>encoding/binary\<close>. Every index, slice and \<^verbatim>\<open>copy\<close> of the sources goes through the checked
  operations below, so that a run-time panic of the Go code is the value \<open>Panic\<close> of the model and
  the absence of panics is something to prove.
\<close>

named_theorems outcome_simps "evaluation rules for outcomes and byte buffers"
named_theorems codec_simps "round-trip rules of big-endian integers"

section \<open>Types\<close>

type_synonym byte = "8 word"
type_synonym gostring = "byte list"

text \<open>A Go string literal of ASCII characters, as the octets Go stores.\<close>

definition str :: "string \<Rightarrow> gostring" where
  "str s = map (\<lambda>c. of_nat (of_char c)) s"

text \<open>
  What a call of a Go function with an error result does: it returns a value, it returns an error
  (the sentinel the error wraps; the text of the message is not modelled), or it panics.
\<close>

datatype ('e, 'a) outcome = Ok 'a | Err 'e | Panic

primrec andThen :: "('e, 'a) outcome \<Rightarrow> ('a \<Rightarrow> ('e, 'b) outcome) \<Rightarrow> ('e, 'b) outcome" where
  "andThen (Ok a) f = f a"
| "andThen (Err e) f = Err e"
| "andThen Panic f = Panic"

lemma andThen_eq_Ok_iff [simp]: "andThen m f = Ok b \<longleftrightarrow> (\<exists>a. m = Ok a \<and> f a = Ok b)"
  by (cases m) auto

lemma andThen_eq_Err_iff [simp]:
  "andThen m f = Err e \<longleftrightarrow> m = Err e \<or> (\<exists>a. m = Ok a \<and> f a = Err e)"
  by (cases m) auto

lemma andThen_eq_Panic_iff [simp]:
  "andThen m f = Panic \<longleftrightarrow> m = Panic \<or> (\<exists>a. m = Ok a \<and> f a = Panic)"
  by (cases m) auto

lemma andThen_assoc: "andThen (andThen m f) g = andThen m (\<lambda>a. andThen (f a) g)"
  by (cases m) auto

lemma andThen_cong [fundef_cong]:
  "m = m' \<Longrightarrow> (\<And>a. m' = Ok a \<Longrightarrow> f a = f' a) \<Longrightarrow> andThen m f = andThen m' f'"
  by (cases m') auto

definition is_Ok :: "('e, 'a) outcome \<Rightarrow> bool" where
  "is_Ok m = (case m of Ok _ \<Rightarrow> True | _ \<Rightarrow> False)"

lemma is_Ok_simps [simp]: "is_Ok (Ok a)" "\<not> is_Ok (Err e)" "\<not> is_Ok Panic"
  by (simp_all add: is_Ok_def)

section \<open>Byte slices\<close>

text \<open>
  \<open>byte_at p i\<close> is the Go expression \<^verbatim>\<open>p[i]\<close>, \<open>slice p a b\<close> is \<^verbatim>\<open>p[a:b]\<close> (also refused beyond the
  length, where Go would allow a read up to the capacity), \<open>buf_write\<close> stores octets at an offset
  (\<^verbatim>\<open>p[i] = b\<close>, \<^verbatim>\<open>PutUint16(p[i:i+2], v)\<close>, ...) and \<open>buf_copy\<close> is \<^verbatim>\<open>copy(p[i:], src)\<close>, which stops at
  the end of the destination.
\<close>

definition byte_at :: "byte list \<Rightarrow> nat \<Rightarrow> ('e, byte) outcome" where
  "byte_at p i = (if i < length p then Ok (p ! i) else Panic)"

definition slice :: "byte list \<Rightarrow> nat \<Rightarrow> nat \<Rightarrow> ('e, byte list) outcome" where
  "slice p a b = (if a \<le> b \<and> b \<le> length p then Ok (take (b - a) (drop a p)) else Panic)"

definition buf_write :: "byte list \<Rightarrow> nat \<Rightarrow> byte list \<Rightarrow> ('e, byte list) outcome" where
  "buf_write p i bs =
     (if i + length bs \<le> length p then Ok (take i p @ bs @ drop (i + length bs) p) else Panic)"

definition buf_copy :: "byte list \<Rightarrow> nat \<Rightarrow> byte list \<Rightarrow> ('e, byte list) outcome" where
  "buf_copy p i src =
     (if i \<le> length p then Ok (take i p @ take (length p - i) src @ drop (i + length src) p)
      else Panic)"

lemma byte_at_in [outcome_simps]: "i < length p \<Longrightarrow> byte_at p i = Ok (p ! i)"
  by (simp add: byte_at_def)

lemma slice_in [outcome_simps]:
  "a \<le> b \<Longrightarrow> b \<le> length p \<Longrightarrow> slice p a b = Ok (take (b - a) (drop a p))"
  by (simp add: slice_def)

lemma slice_append: "length pre = a \<Longrightarrow> b = a + length mid \<Longrightarrow> slice (pre @ mid @ post) a b = Ok mid"
  by (simp add: slice_def)

lemma byte_at_append: "length pre = i \<Longrightarrow> byte_at (pre @ b # post) i = Ok b"
  by (auto simp: byte_at_def)

lemma buf_write_length: "buf_write p i bs = Ok q \<Longrightarrow> length q = length p"
  by (auto simp: buf_write_def split: if_splits)

lemma buf_copy_length: "buf_copy p i src = Ok q \<Longrightarrow> length q = length p"
  by (auto simp: buf_copy_def min_def split: if_splits)

lemma buf_write_at:
  "length pre = i \<Longrightarrow> length bs \<le> length rest \<Longrightarrow>
   buf_write (pre @ rest) i bs = Ok (pre @ bs @ drop (length bs) rest)"
  by (simp add: buf_write_def)

lemma buf_copy_at:
  "length pre = i \<Longrightarrow> length src \<le> length rest \<Longrightarrow>
   buf_copy (pre @ rest) i src = Ok (pre @ src @ drop (length src) rest)"
  by (simp add: buf_copy_def)

text \<open>Fixed-size prefixes of a buffer, spelled out.\<close>

lemma replicate_octets:
  "replicate (8 + n) (0::byte) = [0, 0, 0, 0, 0, 0, 0, 0] @ replicate n 0"
  "replicate (12 + n) (0::byte) = [0, 0, 0, 0, 0, 0, 0, 0, 0, 0, 0, 0] @ replicate n 0"
  "replicate (16 + n) (0::byte) =
     [0, 0, 0, 0, 0, 0, 0, 0, 0, 0, 0, 0, 0, 0, 0, 0] @ replicate n 0"
  by (simp_all add: numeral_eq_Suc)

lemma take_eq_map_nth: "n \<le> length p \<Longrightarrow> take n p = map ((!) p) [0..<n]"
  by (rule nth_equalityI) simp_all

lemma take_octets:
  "8 \<le> length p \<Longrightarrow> take 8 p = [p ! 0, p ! 1, p ! 2, p ! 3, p ! 4, p ! 5, p ! 6, p ! 7]"
  "12 \<le> length p \<Longrightarrow> take 12 p = [p ! 0, p ! 1, p ! 2, p ! 3, p ! 4, p ! 5, p ! 6, p ! 7, p ! 8,
     p ! 9, p ! 10, p ! 11]"
  by (simp_all add: take_eq_map_nth upt_rec numeral_eq_Suc)

section \<open>Big-endian integers\<close>

text \<open>\<^verbatim>\<open>binary.BigEndian\<close> on two, four and eight octets, and the three- and five-octet fields.\<close>

definition be16 :: "byte \<Rightarrow> byte \<Rightarrow> 16 word" where
  "be16 a b = push_bit 8 (ucast a) OR ucast b"

definition put16 :: "16 word \<Rightarrow> byte list" where
  "put16 w = [ucast (drop_bit 8 w), ucast w]"

definition be24 :: "byte \<Rightarrow> byte \<Rightarrow> byte \<Rightarrow> 32 word" where
  "be24 a b c = push_bit 16 (ucast a) OR push_bit 8 (ucast b) OR ucast c"

definition put24 :: "32 word \<Rightarrow> byte list" where
  "put24 w = [ucast (drop_bit 16 w), ucast (drop_bit 8 w), ucast w]"

definition be32 :: "byte \<Rightarrow> byte \<Rightarrow> byte \<Rightarrow> byte \<Rightarrow> 32 word" where
  "be32 a b c d = push_bit 24 (ucast a) OR push_bit 16 (ucast b) OR push_bit 8 (ucast c) OR ucast d"

definition put32 :: "32 word \<Rightarrow> byte list" where
  "put32 w = [ucast (drop_bit 24 w), ucast (drop_bit 16 w), ucast (drop_bit 8 w), ucast w]"

text \<open>\<open>be_fold\<close> is the loop \<^verbatim>\<open>out = out<<8 | uint64(octet)\<close>, for the 40- and 64-bit fields.\<close>

definition be_fold :: "byte list \<Rightarrow> 64 word" where
  "be_fold bs = foldl (\<lambda>out octet. push_bit 8 out OR ucast octet) 0 bs"

definition put40 :: "64 word \<Rightarrow> byte list" where
  "put40 w = [ucast (drop_bit 32 w), ucast (drop_bit 24 w), ucast (drop_bit 16 w),
     ucast (drop_bit 8 w), ucast w]"

definition put64 :: "64 word \<Rightarrow> byte list" where
  "put64 w = [ucast (drop_bit 56 w), ucast (drop_bit 48 w), ucast (drop_bit 40 w)] @ put40 w"

lemma length_put [simp]:
  "length (put16 w) = 2" "length (put24 v) = 3" "length (put32 v) = 4" "length (put40 x) = 5"
  "length (put64 x) = 8"
  by (simp_all add: put16_def put24_def put32_def put40_def put64_def)

lemma be16_put16 [codec_simps]: "be16 (ucast (drop_bit 8 w)) (ucast w) = w"
  unfolding be16_def by (rule bit_word_eqI) (auto simp: bit_simps)

lemma be32_put32 [codec_simps]:
  "be32 (ucast (drop_bit 24 w)) (ucast (drop_bit 16 w)) (ucast (drop_bit 8 w)) (ucast w) = w"
proof (rule bit_word_eqI)
  fix n
  assume "n < LENGTH(32)"
  then consider "n < 8" | "8 \<le> n" "n < 16" | "16 \<le> n" "n < 24" | "24 \<le> n" "n < 32"
    by fastforce
  then show "bit (be32 (ucast (drop_bit 24 w)) (ucast (drop_bit 16 w)) (ucast (drop_bit 8 w))
      (ucast w)) n = bit w n"
    by cases (auto simp: be32_def bit_simps)
qed

lemma word_take_bit_self_iff: "take_bit n w = w \<longleftrightarrow> unat w < 2 ^ n" for w :: "'a::len word"
  by (metis take_bit_nat_eq_self_iff unsigned_take_bit_eq unsigned_word_eqI)

lemma word_bit_bound: "unat w < 2 ^ n \<Longrightarrow> bit w k \<Longrightarrow> k < n" for w :: "'a::len word"
  by (metis bit_take_bit_iff word_take_bit_self_iff)

lemma be24_put24 [codec_simps]:
  assumes "w \<le> 0xffffff"
  shows "be24 (ucast (drop_bit 16 w)) (ucast (drop_bit 8 w)) (ucast w) = w"
proof (rule bit_word_eqI)
  fix n
  assume "n < LENGTH(32)"
  then consider "n < 8" | "8 \<le> n" "n < 16" | "16 \<le> n" "n < 24" | "24 \<le> n" "n < 32"
    by fastforce
  moreover have "unat w < 2 ^ 24" using assms by (simp add: word_le_nat_alt)
  then have "bit w n \<Longrightarrow> n < 24" by (rule word_bit_bound)
  ultimately show "bit (be24 (ucast (drop_bit 16 w)) (ucast (drop_bit 8 w)) (ucast w)) n = bit w n"
    by cases (auto simp: be24_def bit_simps)
qed

lemma be24_le: "be24 a b c \<le> 0xffffff"
proof -
  have "take_bit 24 (be24 a b c) = be24 a b c"
    unfolding be24_def by (rule bit_word_eqI) (auto simp: bit_simps dest: bit_imp_le_length)
  then have "unat (be24 a b c) < 2 ^ 24" by (simp only: word_take_bit_self_iff)
  then show ?thesis by (simp add: word_le_nat_alt)
qed

lemma be_fold_flat5:
  "be_fold [a, b, c, d, e] = push_bit 32 (ucast a) OR push_bit 24 (ucast b) OR
     push_bit 16 (ucast c) OR push_bit 8 (ucast d) OR ucast e"
  by (simp add: be_fold_def push_bit_or or.assoc)

lemma be_fold_flat8:
  "be_fold [f, g, h, a, b, c, d, e] = push_bit 56 (ucast f) OR push_bit 48 (ucast g) OR
     push_bit 40 (ucast h) OR push_bit 32 (ucast a) OR push_bit 24 (ucast b) OR
     push_bit 16 (ucast c) OR push_bit 8 (ucast d) OR ucast e"
  by (simp add: be_fold_def push_bit_or or.assoc)

lemma bit_octet_at:
  "bit (push_bit k (ucast (ucast (drop_bit k w) :: byte)) :: 64 word) n \<longleftrightarrow>
     k \<le> n \<and> n < k + 8 \<and> n < 64 \<and> bit w n" for w :: "64 word"
  by (auto simp: bit_simps)

lemma bit_octet_0:
  "bit (ucast (ucast w :: byte) :: 64 word) n \<longleftrightarrow> n < 8 \<and> bit w n" for w :: "64 word"
  by (auto simp: bit_simps)

lemma be_fold_put40 [codec_simps]:
  assumes "w \<le> 0xffffffffff"
  shows "be_fold (put40 w) = w"
proof (rule bit_word_eqI)
  fix n
  have "unat w < 2 ^ 40" using assms by (simp add: word_le_nat_alt)
  then have "bit w n \<Longrightarrow> n < 40" by (rule word_bit_bound)
  then show "bit (be_fold (put40 w)) n = bit w n"
    by (auto simp: put40_def be_fold_flat5 bit_or_iff bit_octet_at bit_octet_0)
qed

lemma be_fold_put64 [codec_simps]: "be_fold (put64 w) = w"
proof (rule bit_word_eqI)
  fix n
  assume "n < LENGTH(64)"
  then show "bit (be_fold (put64 w)) n = bit w n"
    by (auto simp: put64_def put40_def be_fold_flat8 bit_or_iff bit_octet_at bit_octet_0)
qed

lemma be_fold_append: "be_fold (as @ [b]) = push_bit 8 (be_fold as) OR ucast b"
  by (simp add: be_fold_def)

lemma byte_bit_high: "\<not> bit b (8 + n)" "\<not> bit b (16 + n)" "\<not> bit b (24 + n)" for b :: byte
  by (auto dest: bit_imp_le_length)

lemma put_be [codec_simps]:
  "put16 (be16 a b) = [a, b]" "put32 (be32 a b c d) = [a, b, c, d]" "put24 (be24 a b c) = [a, b, c]"
  unfolding put16_def put24_def put32_def be16_def be24_def be32_def
  by (auto intro!: bit_word_eqI simp: bit_simps byte_bit_high)

text \<open>Testing one bit of an octet.\<close>

lemma byte_mask_bit:
  "(b AND 0x01 \<noteq> 0) = bit b 0" "(b AND 0x02 \<noteq> 0) = bit b 1" "(b AND 0x04 \<noteq> 0) = bit b 2"
  "(b AND 0x08 \<noteq> 0) = bit b 3" "(b AND 0x10 \<noteq> 0) = bit b 4" "(b AND 0x20 \<noteq> 0) = bit b 5"
  "(b AND 0x40 \<noteq> 0) = bit b 6" "(b AND 0x80 \<noteq> 0) = bit b 7" for b :: byte
  using and_exp_eq_0_iff_not_bit[of b 0] and_exp_eq_0_iff_not_bit[of b 1]
    and_exp_eq_0_iff_not_bit[of b 2] and_exp_eq_0_iff_not_bit[of b 3]
    and_exp_eq_0_iff_not_bit[of b 4] and_exp_eq_0_iff_not_bit[of b 5]
    and_exp_eq_0_iff_not_bit[of b 6] and_exp_eq_0_iff_not_bit[of b 7]
  by simp_all

text \<open>
  Reads of big-endian integers at an offset: \<^verbatim>\<open>binary.BigEndian.Uint16(p[i:i+2])\<close> and so on;
  \<open>read24\<close> is \<^verbatim>\<open>uint32(p[i])<<16 | uint32(p[i+1])<<8 | uint32(p[i+2])\<close>.
\<close>

definition read16 :: "byte list \<Rightarrow> nat \<Rightarrow> ('e, 16 word) outcome" where
  "read16 p i = (if i + 2 \<le> length p then Ok (be16 (p ! i) (p ! (i + 1))) else Panic)"

definition read24 :: "byte list \<Rightarrow> nat \<Rightarrow> ('e, 32 word) outcome" where
  "read24 p i =
     (if i + 3 \<le> length p then Ok (be24 (p ! i) (p ! (i + 1)) (p ! (i + 2))) else Panic)"

definition read32 :: "byte list \<Rightarrow> nat \<Rightarrow> ('e, 32 word) outcome" where
  "read32 p i =
     (if i + 4 \<le> length p then Ok (be32 (p ! i) (p ! (i + 1)) (p ! (i + 2)) (p ! (i + 3)))
      else Panic)"

definition read64 :: "byte list \<Rightarrow> nat \<Rightarrow> ('e, 64 word) outcome" where
  "read64 p i = (if i + 8 \<le> length p then Ok (be_fold (take 8 (drop i p))) else Panic)"

lemma read_in [outcome_simps]:
  "i + 2 \<le> length p \<Longrightarrow> read16 p i = Ok (be16 (p ! i) (p ! (i + 1)))"
  "i + 3 \<le> length p \<Longrightarrow> read24 p i = Ok (be24 (p ! i) (p ! (i + 1)) (p ! (i + 2)))"
  "i + 4 \<le> length p \<Longrightarrow>
     read32 p i = Ok (be32 (p ! i) (p ! (i + 1)) (p ! (i + 2)) (p ! (i + 3)))"
  "i + 8 \<le> length p \<Longrightarrow> read64 p i = Ok (be_fold (take 8 (drop i p)))"
  by (simp_all add: read16_def read24_def read32_def read64_def)

lemmas read_defs = byte_at_def slice_def read16_def read24_def read32_def read64_def

text \<open>A length field that fits is written and read back as the same number.\<close>

lemma unat_of_nat16 [codec_simps]: "n \<le> 0xffff \<Longrightarrow> unat (of_nat n :: 16 word) = n"
  by (simp add: unat_of_nat take_bit_nat_eq_self_iff)

end
