(* ===== verification/Gtpu_Header.thy ===== *)
theory Gtpu_Header
  imports Cups_Prelude
begin

unbundle bit_operations_syntax

text \<open>
  The GTP-U frame codec of \<^verbatim>\<open>pkg/gtpu/header.go\<close>: \<open>Parse_gtpu\<close> (the defensive decoder with its loop
  over extension headers), \<open>Marshal_gtpu\<close> and \<open>MarshalTo_gtpu\<close> (the encoders, over \<open>marshalPlan_gtpu\<close>
  and \<open>marshalPlanned_gtpu\<close>). The encoders write into a buffer octet by octet as the code does, so
  that what a caller-owned buffer held before the call is part of the model.
\<close>

section \<open>Data\<close>

definition Version_gtpu :: byte where "Version_gtpu = 1"

datatype gtpu_error = ErrTooShort_gtpu | ErrUnsupportedVersion_gtpu | ErrInvalidLength_gtpu
  | ErrInvalidHeader_gtpu | ErrInvalidExtension_gtpu | ErrBufferTooSmall_gtpu

record ExtensionHeader =
  ext_Type :: byte
  ext_Content :: "byte list"

record gtpu_header =
  u_Version :: byte
  u_ProtocolType :: bool
  u_Extension :: bool
  u_Sequence :: bool
  u_NPDU :: bool
  u_MessageType :: byte
  u_Length :: "16 word"
  u_TEID :: "32 word"
  u_SequenceNumber :: "16 word"
  u_NPDUNumber :: byte
  u_ExtensionHeaders :: "ExtensionHeader list"
  u_FrameLength :: nat

definition optional_gtpu :: "gtpu_header \<Rightarrow> bool" where
  "optional_gtpu h \<longleftrightarrow> u_Extension h \<or> u_Sequence h \<or> u_NPDU h"

section \<open>Parse\<close>

text \<open>The loop \<^verbatim>\<open>for nextExtension != 0\<close>: the extensions read so far and the next offset.\<close>

function parse_extensions ::
  "byte list \<Rightarrow> nat \<Rightarrow> byte \<Rightarrow> nat \<Rightarrow> ExtensionHeader list \<Rightarrow>
     (gtpu_error, ExtensionHeader list \<times> nat) outcome" where
  "parse_extensions packet frameLength nextExtension offset exts =
     (if nextExtension = 0 then Ok (exts, offset)
      else if offset \<ge> frameLength then Err ErrTooShort_gtpu
      else andThen (byte_at packet offset) (\<lambda>u.
        let units = unat u; extensionLength = units * 4 in
        if units = 0 then Err ErrInvalidExtension_gtpu
        else if offset + extensionLength > frameLength \<or> extensionLength < 2
          then Err ErrInvalidExtension_gtpu
        else andThen (slice packet (offset + 1) (offset + extensionLength - 1)) (\<lambda>content.
          andThen (byte_at packet (offset + extensionLength - 1)) (\<lambda>next.
            parse_extensions packet frameLength next (offset + extensionLength)
              (exts @ [\<lparr>ext_Type = nextExtension, ext_Content = content\<rparr>])))))"
  by pat_completeness auto
termination
  by (relation "measure (\<lambda>(packet, frameLength, nextExtension, offset, exts). frameLength - offset)")
    (auto simp: Let_def)

declare parse_extensions.simps [simp del]

definition Parse_gtpu :: "byte list \<Rightarrow> (gtpu_error, gtpu_header \<times> byte list) outcome" where
  "Parse_gtpu packet =
     (if length packet < 8 then Err ErrTooShort_gtpu
      else andThen (byte_at packet 0) (\<lambda>b0. andThen (byte_at packet 1) (\<lambda>b1.
        andThen (read16 packet 2) (\<lambda>len. andThen (read32 packet 4) (\<lambda>teid.
        let h = \<lparr>u_Version = drop_bit 5 b0, u_ProtocolType = (b0 AND 0x10 \<noteq> 0),
                 u_Extension = (b0 AND 0x04 \<noteq> 0), u_Sequence = (b0 AND 0x02 \<noteq> 0),
                 u_NPDU = (b0 AND 0x01 \<noteq> 0), u_MessageType = b1, u_Length = len, u_TEID = teid,
                 u_SequenceNumber = 0, u_NPDUNumber = 0, u_ExtensionHeaders = [],
                 u_FrameLength = 8 + unat len\<rparr> in
        if u_Version h \<noteq> Version_gtpu then Err ErrUnsupportedVersion_gtpu
        else if \<not> u_ProtocolType h then Err ErrInvalidHeader_gtpu
        else if u_FrameLength h < 8 \<or> u_FrameLength h > length packet
          then Err ErrInvalidLength_gtpu
        else andThen
          (if optional_gtpu h
           then if u_FrameLength h < 12 then Err ErrTooShort_gtpu
             else andThen (read16 packet 8) (\<lambda>seq. andThen (byte_at packet 10) (\<lambda>npdu.
               andThen (byte_at packet 11) (\<lambda>next.
                 Ok (h\<lparr>u_SequenceNumber := seq, u_NPDUNumber := npdu\<rparr>, next, 12))))
           else Ok (h, 0, 8)) (\<lambda>(h, nextExtension, offset).
        if u_Extension h \<and> nextExtension = 0 then Err ErrInvalidExtension_gtpu
        else if \<not> u_Extension h \<and> nextExtension \<noteq> 0 then Err ErrInvalidExtension_gtpu
        else andThen (parse_extensions packet (u_FrameLength h) nextExtension offset [])
          (\<lambda>(exts, offset).
            andThen (slice packet offset (u_FrameLength h)) (\<lambda>payload.
              Ok (h\<lparr>u_ExtensionHeaders := exts\<rparr>, payload)))))))))"

section \<open>Marshal\<close>

text \<open>The validation loop of \<^verbatim>\<open>marshalPlan\<close>, summing the lengths of the extension headers.\<close>

definition ext_ok :: "ExtensionHeader \<Rightarrow> bool" where
  "ext_ok e \<longleftrightarrow> \<not> (ext_Type e = 0 \<or> (length (ext_Content e) + 2) mod 4 \<noteq> 0
     \<or> (length (ext_Content e) + 2) div 4 > 255)"

fun plan_extensions :: "ExtensionHeader list \<Rightarrow> nat \<Rightarrow> (gtpu_error, nat) outcome" where
  "plan_extensions [] extensionLength = Ok extensionLength"
| "plan_extensions (e # es) extensionLength =
     (if \<not> ext_ok e then Err ErrInvalidExtension_gtpu
      else plan_extensions es (extensionLength + length (ext_Content e) + 2))"

definition marshalPlan_gtpu ::
  "gtpu_header \<Rightarrow> nat \<Rightarrow> (gtpu_error, gtpu_header \<times> nat) outcome" where
  "marshalPlan_gtpu header payloadLength =
     (let header = (if u_Version header = 0 then header\<lparr>u_Version := Version_gtpu\<rparr> else header) in
      if u_Version header \<noteq> Version_gtpu then Err ErrUnsupportedVersion_gtpu
      else
        let header = header\<lparr>u_ProtocolType := True\<rparr>;
            header = (if u_ExtensionHeaders header \<noteq> [] then header\<lparr>u_Extension := True\<rparr> else header)
        in andThen (plan_extensions (u_ExtensionHeaders header) 0) (\<lambda>extensionLength.
          let total = (if optional_gtpu header then 12 else 8) + extensionLength + payloadLength in
          if total - 8 > 0xffff then Err ErrInvalidLength_gtpu else Ok (header, total)))"

text \<open>The loop of \<^verbatim>\<open>marshalPlanned\<close> that writes the extension headers.\<close>

fun write_extensions ::
  "byte list \<Rightarrow> nat \<Rightarrow> ExtensionHeader list \<Rightarrow> (gtpu_error, byte list \<times> nat) outcome" where
  "write_extensions packet offset [] = Ok (packet, offset)"
| "write_extensions packet offset (e # es) =
     (let len = length (ext_Content e) + 2 in
      andThen (buf_write packet offset [of_nat (len div 4)]) (\<lambda>packet.
      andThen (buf_copy packet (offset + 1) (ext_Content e)) (\<lambda>packet.
      andThen (case es of [] \<Rightarrow> Ok packet
               | e' # _ \<Rightarrow> buf_write packet (offset + len - 1) [ext_Type e']) (\<lambda>packet.
      write_extensions packet (offset + len) es))))"

definition flags_gtpu :: "gtpu_header \<Rightarrow> byte" where
  "flags_gtpu h = push_bit 5 Version_gtpu OR 0x10 OR (if u_Extension h then 0x04 else 0)
     OR (if u_Sequence h then 0x02 else 0) OR (if u_NPDU h then 0x01 else 0)"

definition marshalPlanned_gtpu ::
  "byte list \<Rightarrow> gtpu_header \<Rightarrow> byte list \<Rightarrow> (gtpu_error, byte list) outcome" where
  "marshalPlanned_gtpu packet header payload =
     (let total = length packet in
      andThen (buf_write packet 0 [flags_gtpu header]) (\<lambda>packet.
      andThen (buf_write packet 1 [u_MessageType header]) (\<lambda>packet.
      andThen (buf_write packet 2 (put16 (of_nat (total - 8)))) (\<lambda>packet.
      andThen (buf_write packet 4 (put32 (u_TEID header))) (\<lambda>packet.
      andThen
        (if optional_gtpu header
         then andThen (buf_write packet 8 (put16 (u_SequenceNumber header))) (\<lambda>packet.
           andThen (buf_write packet 10 [u_NPDUNumber header]) (\<lambda>packet.
           andThen (case u_ExtensionHeaders header of [] \<Rightarrow> Ok packet
                    | e # _ \<Rightarrow> buf_write packet 11 [ext_Type e]) (\<lambda>packet.
           Ok (packet, 12))))
         else Ok (packet, 8)) (\<lambda>(packet, offset).
      andThen (write_extensions packet offset (u_ExtensionHeaders header)) (\<lambda>(packet, offset).
      buf_copy packet offset payload)))))))"

definition Marshal_gtpu :: "gtpu_header \<Rightarrow> byte list \<Rightarrow> (gtpu_error, byte list) outcome" where
  "Marshal_gtpu header payload =
     andThen (marshalPlan_gtpu header (length payload)) (\<lambda>(header, total).
       marshalPlanned_gtpu (replicate total 0) header payload)"

text \<open>
  \<^verbatim>\<open>MarshalTo\<close> writes into the first \<open>total\<close> octets of the caller's buffer: the count it returns and
  the buffer after the call.
\<close>

definition MarshalTo_gtpu ::
  "byte list \<Rightarrow> gtpu_header \<Rightarrow> byte list \<Rightarrow> (gtpu_error, nat \<times> byte list) outcome" where
  "MarshalTo_gtpu destination header payload =
     andThen (marshalPlan_gtpu header (length payload)) (\<lambda>(header, total).
       if length destination < total then Err ErrBufferTooSmall_gtpu
       else andThen (marshalPlanned_gtpu (take total destination) header payload) (\<lambda>packet.
         Ok (total, packet @ drop total destination)))"

section \<open>The frame layout\<close>

text \<open>
  The octets of a frame as one expression (TS 29.281 clause 5.1): the reference the encoder is
  compared with and the decoder inverts.
\<close>

definition first_type :: "ExtensionHeader list \<Rightarrow> byte" where
  "first_type exts = (case exts of [] \<Rightarrow> 0 | e # _ \<Rightarrow> ext_Type e)"

fun enc_extensions :: "ExtensionHeader list \<Rightarrow> byte list" where
  "enc_extensions [] = []"
| "enc_extensions (e # es) =
     of_nat ((length (ext_Content e) + 2) div 4) # ext_Content e @ first_type es # enc_extensions es"

definition frame_gtpu :: "gtpu_header \<Rightarrow> byte list \<Rightarrow> byte list" where
  "frame_gtpu h payload =
     (let rest = (if optional_gtpu h
           then put16 (u_SequenceNumber h) @ [u_NPDUNumber h, first_type (u_ExtensionHeaders h)]
           else []) @ enc_extensions (u_ExtensionHeaders h) @ payload
      in [flags_gtpu h, u_MessageType h] @ put16 (of_nat (length rest)) @ put32 (u_TEID h) @ rest)"

text \<open>The header \<^verbatim>\<open>marshalPlan\<close> works with, and what a receiver sees of it.\<close>

definition planned_gtpu :: "gtpu_header \<Rightarrow> gtpu_header" where
  "planned_gtpu h = h\<lparr>u_Version := Version_gtpu, u_ProtocolType := True,
     u_Extension := (u_Extension h \<or> u_ExtensionHeaders h \<noteq> [])\<rparr>"

definition received_gtpu :: "gtpu_header \<Rightarrow> nat \<Rightarrow> gtpu_header" where
  "received_gtpu h n = (let h = planned_gtpu h in
     h\<lparr>u_Length := of_nat (n - 8), u_FrameLength := n,
       u_SequenceNumber := (if optional_gtpu h then u_SequenceNumber h else 0),
       u_NPDUNumber := (if optional_gtpu h then u_NPDUNumber h else 0)\<rparr>)"

lemma ExtensionHeader_eta [simp]: "\<lparr>ext_Type = ext_Type e, ext_Content = ext_Content e\<rparr> = e"
  by (cases e) simp

lemma enc_extensions_length:
  "length (enc_extensions es) = (\<Sum>e\<leftarrow>es. length (ext_Content e) + 2)"
  by (induction es) simp_all

lemma plan_extensions_eq:
  "plan_extensions es n =
     (if \<forall>e\<in>set es. ext_ok e then Ok (n + length (enc_extensions es))
      else Err ErrInvalidExtension_gtpu)"
  by (induction es arbitrary: n) (auto simp: algebra_simps)

lemma ext_ok_units:
  assumes "ext_ok e"
  shows "unat (of_nat ((length (ext_Content e) + 2) div 4) :: byte) * 4 = length (ext_Content e) + 2"
    and "ext_Type e \<noteq> 0"
proof -
  let ?n = "length (ext_Content e) + 2"
  from assms have "?n div 4 \<le> 255" and m: "?n mod 4 = 0" and "ext_Type e \<noteq> 0"
    by (auto simp: ext_ok_def)
  then have "unat (of_nat (?n div 4) :: byte) = ?n div 4"
    by (simp add: unat_of_nat take_bit_nat_eq_self_iff)
  with m show "unat (of_nat (?n div 4) :: byte) * 4 = ?n"
    by (metis add.right_neutral div_mult_mod_eq)
  show "ext_Type e \<noteq> 0" by fact
qed

lemma parse_extensions_step:
  assumes "nextExtension \<noteq> 0" "unat (p ! off) * 4 = n" "0 < n"
    and "off + n \<le> frameLength" "off + n \<le> length p"
  shows "parse_extensions p frameLength nextExtension off acc =
    parse_extensions p frameLength (p ! (off + n - 1)) (off + n)
      (acc @ [\<lparr>ext_Type = nextExtension, ext_Content = take (n - 2) (drop (off + 1) p)\<rparr>])"
proof -
  from assms(2,3) have "unat (p ! off) \<noteq> 0" "2 \<le> n" by auto
  with assms show ?thesis
    by (auto simp: parse_extensions.simps[of p frameLength nextExtension off acc] Let_def
        byte_at_def slice_def)
qed

text \<open>The decoder's loop inverts the layout of the extension headers.\<close>

lemma parse_extensions_enc:
  assumes "\<forall>e\<in>set exts. ext_ok e" and "off = length pre"
    and "off + length (enc_extensions exts) \<le> frameLength"
  shows "parse_extensions (pre @ enc_extensions exts @ payload) frameLength (first_type exts) off acc
    = Ok (acc @ exts, off + length (enc_extensions exts))"
  using assms
proof (induction exts arbitrary: pre off acc)
  case Nil
  then show ?case by (simp add: parse_extensions.simps first_type_def)
next
  case (Cons e es)
  let ?u = "of_nat ((length (ext_Content e) + 2) div 4) :: byte"
  let ?p = "pre @ enc_extensions (e # es) @ payload"
  let ?n = "length (ext_Content e) + 2"
  have u: "unat (?p ! off) * 4 = ?n" and ty: "ext_Type e \<noteq> 0"
    using Cons.prems(1,2) ext_ok_units[of e] by auto
  have c: "take (?n - 2) (drop (off + 1) ?p) = ext_Content e"
    using Cons.prems(2) by simp
  have nx: "?p ! (off + ?n - 1) = first_type es"
    using Cons.prems(2) nth_append_length[of "pre @ ?u # ext_Content e"] by simp
  have rec: "parse_extensions ((pre @ ?u # ext_Content e @ [first_type es]) @ enc_extensions es @ payload)
      frameLength (first_type es) (off + ?n) (acc @ [e])
    = Ok ((acc @ [e]) @ es, (off + ?n) + length (enc_extensions es))"
    using Cons.prems by (intro Cons.IH) auto
  have "parse_extensions ?p frameLength (ext_Type e) off acc =
      parse_extensions ?p frameLength (?p ! (off + ?n - 1)) (off + ?n)
        (acc @ [\<lparr>ext_Type = ext_Type e, ext_Content = take (?n - 2) (drop (off + 1) ?p)\<rparr>])"
    using Cons.prems by (intro parse_extensions_step[OF ty u]) auto
  with rec show ?case
    unfolding c nx by (simp add: first_type_def[of "e # es"] add.assoc)
qed

lemma parse_extensions_no_panic:
  "frameLength \<le> length packet \<Longrightarrow>
   parse_extensions packet frameLength nextExtension offset exts \<noteq> Panic"
proof (induction packet frameLength nextExtension offset exts rule: parse_extensions.induct)
  case (1 packet frameLength nextExtension offset exts)
  show ?case
    by (subst parse_extensions.simps)
      (use 1 in \<open>auto simp: Let_def byte_at_def slice_def split: if_splits\<close>)
qed

section \<open>The encoders write the layout\<close>

lemma write_extensions_zeroed:
  assumes "off = length pre" and "length (enc_extensions es) \<le> n"
  shows "write_extensions (pre @ replicate n 0) off es =
    Ok (pre @ enc_extensions es @ replicate (n - length (enc_extensions es)) 0,
      off + length (enc_extensions es))"
  using assms
proof (induction es arbitrary: pre off n)
  case Nil
  then show ?case by simp
next
  case (Cons e es)
  let ?l = "length (ext_Content e)"
  let ?u = "of_nat ((?l + 2) div 4) :: byte"
  define m where "m = n - (?l + 2)"
  have n: "n = ?l + 2 + m" and m: "length (enc_extensions es) \<le> m"
    using Cons.prems(2) by (simp_all add: m_def)
  have split: "replicate n (0::byte) = 0 # replicate ?l 0 @ 0 # replicate m 0"
    by (simp add: n replicate_add replicate_app_Cons_same)
  have w1: "(buf_write (pre @ replicate n 0) off [?u] :: (gtpu_error, byte list) outcome)
      = Ok (pre @ ?u # replicate ?l 0 @ 0 # replicate m 0)"
    using Cons.prems(1) by (simp add: split buf_write_def)
  have w2: "(buf_copy (pre @ ?u # replicate ?l 0 @ 0 # replicate m 0) (off + 1) (ext_Content e)
      :: (gtpu_error, byte list) outcome) = Ok (pre @ ?u # ext_Content e @ 0 # replicate m 0)"
    using Cons.prems(1) by (simp add: buf_copy_def)
  have w3: "((case es of [] \<Rightarrow> Ok (pre @ ?u # ext_Content e @ 0 # replicate m 0)
      | e' # _ \<Rightarrow> buf_write (pre @ ?u # ext_Content e @ 0 # replicate m 0) (off + (?l + 2) - 1) [ext_Type e'])
      :: (gtpu_error, byte list) outcome)
      = Ok (pre @ ?u # ext_Content e @ first_type es # replicate m 0)"
    using Cons.prems(1) by (auto simp: first_type_def buf_write_def split: list.splits)
  have "write_extensions ((pre @ ?u # ext_Content e @ [first_type es]) @ replicate m 0) (off + (?l + 2)) es =
     Ok ((pre @ ?u # ext_Content e @ [first_type es]) @ enc_extensions es
       @ replicate (m - length (enc_extensions es)) 0, off + (?l + 2) + length (enc_extensions es))"
    using Cons.prems(1) m by (intro Cons.IH) auto
  moreover have "n - length (enc_extensions (e # es)) = m - length (enc_extensions es)"
    by (simp add: n)
  ultimately show ?case
    by (simp only: write_extensions.simps Let_def w1 w2 w3 andThen.simps) simp
qed

lemma marshalPlan_eq:
  "marshalPlan_gtpu h n =
     (if u_Version h \<noteq> 0 \<and> u_Version h \<noteq> Version_gtpu then Err ErrUnsupportedVersion_gtpu
      else if \<not> (\<forall>e\<in>set (u_ExtensionHeaders h). ext_ok e) then Err ErrInvalidExtension_gtpu
      else let m = (if optional_gtpu (planned_gtpu h) then 12 else 8)
             + length (enc_extensions (u_ExtensionHeaders h)) + n in
        if m - 8 > 0xffff then Err ErrInvalidLength_gtpu else Ok (planned_gtpu h, m))"
  by (auto simp: marshalPlan_gtpu_def planned_gtpu_def plan_extensions_eq Version_gtpu_def
      optional_gtpu_def Let_def)

lemma frame_gtpu_length:
  "length (frame_gtpu h payload) = (if optional_gtpu h then 12 else 8)
     + length (enc_extensions (u_ExtensionHeaders h)) + length payload"
  by (simp add: frame_gtpu_def Let_def)

lemma write_first_type:
  "(case exts of [] \<Rightarrow> Ok (a0 # a1 # a2 # a3 # a4 # a5 # a6 # a7 # a8 # a9 # a10 # 0 # rest)
    | e # _ \<Rightarrow> buf_write (a0 # a1 # a2 # a3 # a4 # a5 # a6 # a7 # a8 # a9 # a10 # 0 # rest) 11
        [ext_Type e])
   = Ok (a0 # a1 # a2 # a3 # a4 # a5 # a6 # a7 # a8 # a9 # a10 # first_type exts # rest)"
  by (cases exts) (simp_all add: first_type_def buf_write_def)

lemma marshalPlanned_zeroed:
  assumes "\<not> optional_gtpu h \<Longrightarrow> u_ExtensionHeaders h = []"
  shows "marshalPlanned_gtpu (replicate (length (frame_gtpu h payload)) 0) h payload
    = Ok (frame_gtpu h payload)"
proof (cases "optional_gtpu h")
  case True
  let ?x = "enc_extensions (u_ExtensionHeaders h)"
  define n where "n = length ?x + length payload"
  have len: "length (frame_gtpu h payload) = 12 + n"
    by (simp add: frame_gtpu_length True n_def)
  define pre where "pre = [flags_gtpu h, u_MessageType h] @ put16 (of_nat (4 + n)) @ put32 (u_TEID h)
    @ put16 (u_SequenceNumber h) @ [u_NPDUNumber h, first_type (u_ExtensionHeaders h)]"
  have "length pre = 12" by (simp add: pre_def)
  then have "write_extensions (pre @ replicate n 0) 12 (u_ExtensionHeaders h)
      = Ok (pre @ ?x @ replicate (length payload) 0, 12 + length ?x)"
    by (simp add: write_extensions_zeroed n_def)
  moreover have "(buf_copy (pre @ ?x @ replicate (length payload) 0) (12 + length ?x) payload
      :: (gtpu_error, byte list) outcome) = Ok (pre @ ?x @ payload)"
    using \<open>length pre = 12\<close> by (simp add: buf_copy_def)
  moreover have "pre @ ?x @ payload = frame_gtpu h payload"
    by (simp add: pre_def frame_gtpu_def True n_def Let_def)
  ultimately show ?thesis
    by (simp add: marshalPlanned_gtpu_def len replicate_octets(2) buf_write_def True put16_def
        put32_def pre_def write_first_type Let_def)
next
  case False
  with assms have x: "u_ExtensionHeaders h = []" by simp
  have len: "length (frame_gtpu h payload) = 8 + length payload"
    by (simp add: frame_gtpu_length False x)
  show ?thesis
    by (simp add: marshalPlanned_gtpu_def len replicate_octets(1) buf_write_def buf_copy_def False x
        put16_def put32_def frame_gtpu_def Let_def)
qed

lemma planned_extensions: "\<not> optional_gtpu (planned_gtpu h) \<Longrightarrow> u_ExtensionHeaders h = []"
  by (simp add: optional_gtpu_def planned_gtpu_def)

lemma planned_ExtensionHeaders [simp]: "u_ExtensionHeaders (planned_gtpu h) = u_ExtensionHeaders h"
  by (simp add: planned_gtpu_def)

lemma Marshal_gtpu_eq:
  "Marshal_gtpu h payload =
     (if u_Version h \<noteq> 0 \<and> u_Version h \<noteq> Version_gtpu then Err ErrUnsupportedVersion_gtpu
      else if \<not> (\<forall>e\<in>set (u_ExtensionHeaders h). ext_ok e) then Err ErrInvalidExtension_gtpu
      else if length (frame_gtpu (planned_gtpu h) payload) - 8 > 0xffff then Err ErrInvalidLength_gtpu
      else Ok (frame_gtpu (planned_gtpu h) payload))"
  using marshalPlanned_zeroed[of "planned_gtpu h" payload] planned_extensions[of h]
  by (auto simp: Marshal_gtpu_def marshalPlan_eq frame_gtpu_length Let_def)

section \<open>The decoder inverts the layout\<close>

lemma flags_gtpu_bits:
  "drop_bit 5 (flags_gtpu h) = Version_gtpu" "flags_gtpu h AND 0x10 \<noteq> 0"
  "(flags_gtpu h AND 0x04 \<noteq> 0) = u_Extension h" "(flags_gtpu h AND 0x02 \<noteq> 0) = u_Sequence h"
  "(flags_gtpu h AND 0x01 \<noteq> 0) = u_NPDU h"
  by (simp_all add: flags_gtpu_def Version_gtpu_def)

text \<open>What a successful \<^verbatim>\<open>Parse\<close> has checked and what it returns, on one line each.\<close>

definition frame_end :: "byte list \<Rightarrow> nat" where
  "frame_end p = 8 + unat (be16 (p ! 2) (p ! 3))"

definition has_optional :: "byte list \<Rightarrow> bool" where
  "has_optional p \<longleftrightarrow> p ! 0 AND 0x04 \<noteq> 0 \<or> p ! 0 AND 0x02 \<noteq> 0 \<or> p ! 0 AND 0x01 \<noteq> 0"

definition next_type :: "byte list \<Rightarrow> byte" where
  "next_type p = (if has_optional p then p ! 11 else 0)"

definition header_end :: "byte list \<Rightarrow> nat" where
  "header_end p = (if has_optional p then 12 else 8)"

definition header_of :: "byte list \<Rightarrow> ExtensionHeader list \<Rightarrow> gtpu_header" where
  "header_of p exts =
     \<lparr>u_Version = drop_bit 5 (p ! 0), u_ProtocolType = (p ! 0 AND 0x10 \<noteq> 0),
      u_Extension = (p ! 0 AND 0x04 \<noteq> 0), u_Sequence = (p ! 0 AND 0x02 \<noteq> 0),
      u_NPDU = (p ! 0 AND 0x01 \<noteq> 0), u_MessageType = p ! 1, u_Length = be16 (p ! 2) (p ! 3),
      u_TEID = be32 (p ! 4) (p ! 5) (p ! 6) (p ! 7),
      u_SequenceNumber = (if has_optional p then be16 (p ! 8) (p ! 9) else 0),
      u_NPDUNumber = (if has_optional p then p ! 10 else 0), u_ExtensionHeaders = exts,
      u_FrameLength = frame_end p\<rparr>"

definition well_framed :: "byte list \<Rightarrow> bool" where
  "well_framed p \<longleftrightarrow> 8 \<le> length p \<and> drop_bit 5 (p ! 0) = Version_gtpu \<and> p ! 0 AND 0x10 \<noteq> 0
     \<and> frame_end p \<le> length p \<and> header_end p \<le> frame_end p
     \<and> (p ! 0 AND 0x04 \<noteq> 0) = (next_type p \<noteq> 0)"

lemmas frame_defs = frame_end_def has_optional_def next_type_def header_end_def header_of_def
  well_framed_def

lemma Parse_gtpu_eval:
  assumes "well_framed p"
  shows "Parse_gtpu p = andThen (parse_extensions p (frame_end p) (next_type p) (header_end p) [])
    (\<lambda>(exts, off). andThen (slice p off (frame_end p)) (\<lambda>payload. Ok (header_of p exts, payload)))"
proof (cases "has_optional p")
  case True
  with assms show ?thesis
    by (auto simp: Parse_gtpu_def frame_defs read_defs optional_gtpu_def Let_def
        intro!: andThen_cong)
next
  case False
  with assms show ?thesis
    by (auto simp: Parse_gtpu_def frame_defs read_defs optional_gtpu_def Let_def
        intro!: andThen_cong)
qed

lemma Parse_gtpu_Ok_framed: "Parse_gtpu p = Ok (h, payload) \<Longrightarrow> well_framed p"
  by (auto simp: Parse_gtpu_def frame_defs read_defs optional_gtpu_def Let_def split: if_splits)

lemma Parse_gtpu_Ok_iff:
  "Parse_gtpu p = Ok (h, payload) \<longleftrightarrow> well_framed p \<and> (\<exists>exts off.
     parse_extensions p (frame_end p) (next_type p) (header_end p) [] = Ok (exts, off) \<and>
     off \<le> frame_end p \<and> payload = take (frame_end p - off) (drop off p) \<and> h = header_of p exts)"
proof (cases "well_framed p")
  case True
  then have "frame_end p \<le> length p" by (simp add: well_framed_def)
  with True show ?thesis by (auto simp: Parse_gtpu_eval slice_def)
next
  case False
  then show ?thesis using Parse_gtpu_Ok_framed by blast
qed

text \<open>Whatever the loop accepts is the layout of the extension headers it returns.\<close>

lemma take_ends:
  assumes "off + n \<le> length p" and "2 \<le> n"
  shows "take n (drop off p) = p ! off # take (n - 2) (drop (off + 1) p) @ [p ! (off + n - 1)]"
proof -
  obtain m where n: "n = Suc (Suc m)"
    using assms(2) by (metis add_2_eq_Suc le_Suc_ex)
  have "drop off p = p ! off # drop (Suc off) p"
    using assms by (simp add: n Cons_nth_drop_Suc)
  moreover have "take (Suc m) (drop (Suc off) p) = take m (drop (Suc off) p) @ [drop (Suc off) p ! m]"
    using assms by (intro take_Suc_conv_app_nth) (simp add: n)
  ultimately show ?thesis using assms by (simp add: n)
qed

lemma parse_extensions_sound:
  assumes "parse_extensions p frameLength nextExtension off acc = Ok (exts, off')"
    and "off \<le> frameLength" "frameLength \<le> length p"
  shows "\<exists>es. exts = acc @ es \<and> (\<forall>e\<in>set es. ext_ok e) \<and> first_type es = nextExtension
    \<and> off \<le> off' \<and> off' \<le> frameLength \<and> take (off' - off) (drop off p) = enc_extensions es"
  using assms
proof (induction p frameLength nextExtension off acc rule: parse_extensions.induct)
  case (1 p frameLength nextExtension off acc)
  show ?case
  proof (cases "nextExtension = 0")
    case True
    with 1 show ?thesis by (intro exI[of _ "[]"]) (auto simp: parse_extensions.simps first_type_def)
  next
    case False
    define n where "n = unat (p ! off) * 4"
    let ?e = "\<lparr>ext_Type = nextExtension, ext_Content = take (n - 2) (drop (off + 1) p)\<rparr>"
    from 1(2-4) False have n: "0 < n" "off + n \<le> frameLength"
      by (auto simp: parse_extensions.simps[of p frameLength nextExtension off acc] Let_def
          byte_at_def n_def split: if_splits)
    have "unat (p ! off) \<le> 255" using unsigned_less[of "p ! off", where ?'a = nat] by simp
    moreover have len: "length (ext_Content ?e) + 2 = unat (p ! off) * 4"
      using n 1(4) by (auto simp: n_def)
    ultimately have ok: "ext_ok ?e" and u: "of_nat ((length (ext_Content ?e) + 2) div 4) = p ! off"
      using False unfolding ext_ok_def len by simp_all
    have reads: "(byte_at p off :: (gtpu_error, byte) outcome) = Ok (p ! off)"
        "(slice p (off + 1) (off + n - 1) :: (gtpu_error, byte list) outcome) = Ok (ext_Content ?e)"
        "(byte_at p (off + n - 1) :: (gtpu_error, byte) outcome) = Ok (p ! (off + n - 1))"
      using n 1(4) by (auto simp: byte_at_def slice_def n_def)
    have rec: "parse_extensions p frameLength (p ! (off + n - 1)) (off + n) (acc @ [?e]) = Ok (exts, off')"
      using 1(2-4) False n parse_extensions_step[OF False n_def[symmetric] n] by simp
    have "\<not> frameLength \<le> off" "unat (p ! off) \<noteq> 0" "\<not> (frameLength < off + n \<or> n < 2)"
      using n by (auto simp: n_def)
    then obtain es where es: "exts = (acc @ [?e]) @ es" "\<forall>e\<in>set es. ext_ok e"
        "first_type es = p ! (off + n - 1)" "off + n \<le> off'" "off' \<le> frameLength"
        "take (off' - (off + n)) (drop (off + n) p) = enc_extensions es"
      using 1(1)[OF False _ reads(1) refl n_def _ _ reads(2,3)] rec n(2) 1(4) by auto
    have "take (off' - off) (drop off p) = take n (drop off p) @ take (off' - (off + n)) (drop (off + n) p)"
      using es(4) take_add[of n "off' - (off + n)" "drop off p"] by (simp add: add.commute)
    also have "\<dots> = enc_extensions (?e # es)"
      using n 1(4) es u by (simp add: take_ends n_def)
    finally show ?thesis
      using es ok n by (intro exI[of _ "?e # es"]) (auto simp: first_type_def)
  qed
qed

lemma header_end_le: "well_framed p \<Longrightarrow> header_end p \<le> frame_end p \<and> frame_end p \<le> length p"
  by (simp add: well_framed_def)

lemma Parse_gtpu_no_panic: "Parse_gtpu p \<noteq> Panic"
proof (cases "well_framed p")
  case True
  let ?loop = "parse_extensions p (frame_end p) (next_type p) (header_end p) []"
  have "?loop \<noteq> Panic" using True header_end_le parse_extensions_no_panic by blast
  moreover have "off \<le> frame_end p" if "?loop = Ok (exts, off)" for exts off
    using parse_extensions_sound[OF that] header_end_le[OF True] by blast
  ultimately show ?thesis
    using True header_end_le[OF True] by (cases ?loop) (auto simp: Parse_gtpu_eval slice_def)
next
  case False
  then show ?thesis
    by (auto simp: Parse_gtpu_def frame_defs read_defs optional_gtpu_def Let_def split: if_splits)
qed

lemma Parse_frame_gtpu:
  assumes "\<forall>e\<in>set (u_ExtensionHeaders h). ext_ok e"
    and "length (frame_gtpu (planned_gtpu h) payload) - 8 \<le> 0xffff"
    and "u_Extension h \<longrightarrow> u_ExtensionHeaders h \<noteq> []"
  shows "Parse_gtpu (frame_gtpu (planned_gtpu h) payload @ trailing) =
    Ok (received_gtpu h (length (frame_gtpu (planned_gtpu h) payload)), payload)"
proof -
  let ?h = "planned_gtpu h"
  let ?x = "enc_extensions (u_ExtensionHeaders h)"
  define p where "p = frame_gtpu ?h payload @ trailing"
  define n where "n = length (frame_gtpu ?h payload)"
  have n: "n = (if optional_gtpu ?h then 12 else 8) + length ?x + length payload"
    by (simp add: n_def frame_gtpu_length)
  have le: "unat (of_nat (n - 8) :: 16 word) = n - 8"
    using assms(2) by (simp add: n_def codec_simps)
  define pre where "pre = [flags_gtpu ?h, u_MessageType h] @ put16 (of_nat (n - 8)) @ put32 (u_TEID h)
    @ (if optional_gtpu ?h then put16 (u_SequenceNumber h)
         @ [u_NPDUNumber h, first_type (u_ExtensionHeaders h)] else [])"
  have frame: "p = pre @ ?x @ payload @ trailing"
    by (simp add: p_def frame_gtpu_def pre_def n Let_def planned_gtpu_def)
  have opt: "has_optional p = optional_gtpu ?h"
    by (simp add: frame pre_def has_optional_def flags_gtpu_bits optional_gtpu_def)
  have fe: "frame_end p = n"
    using n le by (simp add: frame pre_def frame_end_def put16_def codec_simps)
  have pre_len: "length pre = header_end p"
    by (simp add: header_end_def opt) (simp add: pre_def)
  have ext: "u_Extension ?h = (u_ExtensionHeaders h \<noteq> [])"
    using assms(3) by (auto simp: planned_gtpu_def)
  have nxt: "next_type p = first_type (u_ExtensionHeaders h)"
    using ext by (auto simp: next_type_def opt)
       (auto simp: frame pre_def put16_def put32_def first_type_def optional_gtpu_def)
  have flags: "p ! 0 = flags_gtpu ?h" by (simp add: frame pre_def)
  have first: "(first_type (u_ExtensionHeaders h) = 0) = (u_ExtensionHeaders h = [])"
    using assms(1) by (cases "u_ExtensionHeaders h") (auto simp: first_type_def ext_ok_def)
  have "header_end p \<le> n" using n by (simp add: header_end_def opt)
  moreover have "n \<le> length p" "8 \<le> n" by (simp_all add: n_def p_def) (simp add: frame_gtpu_length)
  ultimately have wf: "well_framed p"
    by (simp add: well_framed_def flags flags_gtpu_bits nxt first ext fe)
  have fields: "p ! 1 = u_MessageType h" "be16 (p ! 2) (p ! 3) = of_nat (n - 8)"
      "be32 (p ! 4) (p ! 5) (p ! 6) (p ! 7) = u_TEID h"
      "optional_gtpu ?h \<Longrightarrow> be16 (p ! 8) (p ! 9) = u_SequenceNumber h"
      "optional_gtpu ?h \<Longrightarrow> p ! 10 = u_NPDUNumber h"
    by (simp_all add: frame pre_def put16_def put32_def codec_simps)
  have "u_Version ?h = Version_gtpu" "u_ProtocolType ?h" "u_MessageType ?h = u_MessageType h"
      "u_TEID ?h = u_TEID h" "u_SequenceNumber ?h = u_SequenceNumber h" "u_NPDUNumber ?h = u_NPDUNumber h"
    by (simp_all add: planned_gtpu_def)
  then have hdr: "header_of p (u_ExtensionHeaders h) = received_gtpu h n"
    by (intro gtpu_header.equality)
      (simp_all add: header_of_def received_gtpu_def Let_def opt fe flags fields fields(1)[unfolded One_nat_def]
        flags_gtpu_bits)
  have "header_end p + length ?x \<le> n" using n by (simp add: header_end_def opt)
  then have "parse_extensions p n (next_type p) (header_end p) [] =
      Ok (u_ExtensionHeaders h, header_end p + length ?x)"
    using parse_extensions_enc[OF assms(1) refl, of pre n "payload @ trailing" "[]"]
    unfolding nxt frame[symmetric] pre_len by simp
  moreover have "drop (length (pre @ ?x)) p = payload @ trailing" by (simp add: frame)
  then have "drop (header_end p + length ?x) p = payload @ trailing" by (simp add: pre_len)
  moreover have "n - (header_end p + length ?x) = length payload"
    using n by (simp add: header_end_def opt)
  moreover have "header_end p + length ?x \<le> n" by fact
  ultimately show ?thesis
    unfolding p_def[symmetric] n_def[symmetric] Parse_gtpu_Ok_iff using wf hdr by (simp add: fe)
qed

text \<open>The flag and the next-extension octet must agree: a frame in which they do not is refused.\<close>

lemma Parse_gtpu_flag_mismatch:
  assumes "drop_bit 5 (p ! 0) = Version_gtpu" "p ! 0 AND 0x10 \<noteq> 0"
    and "has_optional p" "12 \<le> frame_end p" "frame_end p \<le> length p"
    and "(p ! 0 AND 0x04 \<noteq> 0) \<noteq> (p ! 11 \<noteq> 0)"
  shows "Parse_gtpu p = Err ErrInvalidExtension_gtpu"
  using assms by (auto simp: Parse_gtpu_def frame_defs read_defs optional_gtpu_def Let_def)

lemma frame_without_headers:
  assumes "optional_gtpu h" "u_ExtensionHeaders h = []"
  shows "frame_gtpu h payload = [flags_gtpu h, u_MessageType h]
    @ put16 (of_nat (4 + length payload)) @ put32 (u_TEID h) @ put16 (u_SequenceNumber h)
    @ [u_NPDUNumber h, 0] @ payload"
  using assms by (simp add: frame_gtpu_def first_type_def Let_def)

lemma Parse_frame_mismatch:
  assumes "optional_gtpu h" "u_ExtensionHeaders h = []" "length (frame_gtpu h payload) - 8 \<le> 0xffff"
    and "u_Extension h \<noteq> (c \<noteq> 0)"
  shows "Parse_gtpu ((frame_gtpu h payload)[11 := c] @ trailing) = Err ErrInvalidExtension_gtpu"
proof -
  let ?p = "(frame_gtpu h payload)[11 := c] @ trailing"
  have p: "?p = [flags_gtpu h, u_MessageType h] @ put16 (of_nat (4 + length payload))
      @ put32 (u_TEID h) @ put16 (u_SequenceNumber h) @ [u_NPDUNumber h, c] @ payload @ trailing"
    by (simp add: frame_without_headers[OF assms(1,2)] put16_def put32_def)
  have "length payload + 4 \<le> 0xffff"
    using assms by (simp add: frame_without_headers)
  then have "unat (of_nat (4 + length payload) :: 16 word) = 4 + length payload"
    by (simp add: unat_of_nat take_bit_nat_eq_self_iff del: of_nat_add)
  then have e: "frame_end ?p = 12 + length payload"
    unfolding p by (simp add: frame_end_def put16_def put32_def codec_simps)
  have f: "?p ! 0 = flags_gtpu h" "?p ! 11 = c" "length ?p = 12 + length payload + length trailing"
    unfolding p by (simp_all add: put16_def put32_def)
  show ?thesis
    using assms(1,4) e f
    by (intro Parse_gtpu_flag_mismatch) (simp_all add: flags_gtpu_bits has_optional_def optional_gtpu_def)
qed

lemma Parse_frame_without_headers:
  assumes "u_Extension h" "u_ExtensionHeaders h = []"
    and "length (frame_gtpu (planned_gtpu h) payload) - 8 \<le> 0xffff"
  shows "Parse_gtpu (frame_gtpu (planned_gtpu h) payload @ trailing) = Err ErrInvalidExtension_gtpu"
proof -
  have opt: "optional_gtpu (planned_gtpu h)" "u_Extension (planned_gtpu h)"
    using assms(1) by (simp_all add: optional_gtpu_def planned_gtpu_def)
  have "(frame_gtpu (planned_gtpu h) payload)[11 := 0] = frame_gtpu (planned_gtpu h) payload"
    using opt assms(2) by (simp add: frame_without_headers put16_def put32_def)
  then show ?thesis
    using Parse_frame_mismatch[of "planned_gtpu h" payload 0 trailing] opt assms by simp
qed

section \<open>Re-encoding what was decoded\<close>

lemma flags_header_of:
  assumes "drop_bit 5 (p ! 0) = Version_gtpu" and "p ! 0 AND 0x10 \<noteq> 0"
  shows "flags_gtpu (header_of p exts) = p ! 0 AND 0xf7"
proof -
  let ?b = "p ! 0"
  have b: "bit ?b (5 + k) = (k = 0)" for k
    using arg_cong[OF assms(1), of "\<lambda>w. bit w k"]
    by (auto simp: bit_drop_bit_eq Version_gtpu_def bit_1_iff)
  have "bit ?b 5" "\<not> bit ?b 6" "\<not> bit ?b 7"
    using b[of 0] b[of 1] b[of 2] by simp_all
  moreover have "bit ?b 4" using assms(2) by (simp add: byte_mask_bit)
  ultimately show ?thesis
    by (intro bit_word_eqI) (auto simp: flags_gtpu_def header_of_def Version_gtpu_def byte_mask_bit
        bit_simps less_Suc_eq numeral_eq_Suc)
qed

lemma header_of_sel [simp]:
  "u_Version (header_of p exts) = drop_bit 5 (p ! 0)"
  "u_ProtocolType (header_of p exts) = (p ! 0 AND 0x10 \<noteq> 0)"
  "u_Extension (header_of p exts) = (p ! 0 AND 0x04 \<noteq> 0)"
  "u_MessageType (header_of p exts) = p ! 1" "u_TEID (header_of p exts) = be32 (p ! 4) (p ! 5) (p ! 6) (p ! 7)"
  "u_SequenceNumber (header_of p exts) = (if has_optional p then be16 (p ! 8) (p ! 9) else 0)"
  "u_NPDUNumber (header_of p exts) = (if has_optional p then p ! 10 else 0)"
  "u_ExtensionHeaders (header_of p exts) = exts" "u_FrameLength (header_of p exts) = frame_end p"
  "optional_gtpu (header_of p exts) = has_optional p"
  by (simp_all add: header_of_def has_optional_def optional_gtpu_def)

lemma frame_header_of:
  assumes wf: "well_framed p" and first: "first_type exts = next_type p"
    and tail: "enc_extensions exts @ payload = drop (header_end p) (take (frame_end p) p)"
  shows "frame_gtpu (header_of p exts) payload = (take (frame_end p) p)[0 := p ! 0 AND 0xf7]"
proof -
  let ?n = "frame_end p" and ?s = "header_end p"
  let ?r = "drop ?s (take ?n p)"
  have b: "8 \<le> length p" "?n \<le> length p" "?s \<le> ?n"
    and flags: "flags_gtpu (header_of p exts) = p ! 0 AND 0xf7"
    using wf flags_header_of by (simp_all add: well_framed_def)
  have split: "take ?n p = take ?s p @ ?r"
    using b(3) by (metis append_take_drop_id min.absorb1 take_take)
  then have upd: "(take ?n p)[0 := c] = (take ?s p @ ?r)[0 := c]" for c by (rule arg_cong)
  have size: "(of_nat (?n - 8) :: 16 word) = be16 (p ! 2) (p ! 3)" by (simp add: frame_end_def)
  show ?thesis
  proof (cases "has_optional p")
    case True
    then have s: "?s = 12" by (simp add: header_end_def)
    have "length (put16 (be16 (p ! 8) (p ! 9)) @ [p ! 10, p ! 11] @ ?r) = ?n - 8" using b s by simp
    then have sz: "(of_nat (length (put16 (be16 (p ! 8) (p ! 9)) @ [p ! 10, p ! 11] @ ?r)) :: 16 word)
        = be16 (p ! 2) (p ! 3)"
      using size by (simp only:)
    define r where "r = ?r"
    have "frame_gtpu (header_of p exts) payload =
       [p ! 0 AND 0xf7, p ! 1, p ! 2, p ! 3, p ! 4, p ! 5, p ! 6, p ! 7, p ! 8, p ! 9, p ! 10, p ! 11] @ ?r"
      using True first sz unfolding r_def[symmetric]
      by (simp add: frame_gtpu_def Let_def tail[folded r_def] flags next_type_def codec_simps)
    moreover have "12 \<le> length p" using b s by simp
    ultimately show ?thesis
      by (simp only: upd s take_octets) simp
  next
    case False
    then have s: "?s = 8" by (simp add: header_end_def)
    have "length ?r = ?n - 8" using b s by simp
    then have sz: "(of_nat (length ?r) :: 16 word) = be16 (p ! 2) (p ! 3)" using size by simp
    have "frame_gtpu (header_of p exts) payload =
       [p ! 0 AND 0xf7, p ! 1, p ! 2, p ! 3, p ! 4, p ! 5, p ! 6, p ! 7] @ ?r"
      using False sz by (simp add: frame_gtpu_def Let_def tail flags codec_simps del: length_drop)
    then show ?thesis
      using b(1) by (simp only: upd s take_octets) simp
  qed
qed

lemma Parse_gtpu_reencode:
  assumes "Parse_gtpu p = Ok (h, payload)"
  shows "Marshal_gtpu h payload = Ok ((take (u_FrameLength h) p)[0 := p ! 0 AND 0xf7])"
proof -
  let ?n = "frame_end p" and ?s = "header_end p"
  obtain exts off where wf: "well_framed p"
    and loop: "parse_extensions p ?n (next_type p) ?s [] = Ok (exts, off)"
    and pl: "payload = take (?n - off) (drop off p)" and h: "h = header_of p exts"
    using assms unfolding Parse_gtpu_Ok_iff by blast
  have b: "?n \<le> length p" "?s \<le> ?n" and v: "drop_bit 5 (p ! 0) = Version_gtpu"
      and e: "p ! 0 AND 0x10 \<noteq> 0" "(p ! 0 AND 0x04 \<noteq> 0) = (next_type p \<noteq> 0)"
    using wf by (simp_all add: well_framed_def)
  have ok: "\<forall>e\<in>set exts. ext_ok e" and first: "first_type exts = next_type p"
    and off: "?s \<le> off" "off \<le> ?n" and x: "enc_extensions exts = take (off - ?s) (drop ?s p)"
    using parse_extensions_sound[OF loop b(2,1)] by auto
  have "(next_type p \<noteq> 0) = (exts \<noteq> [])"
    using ok first by (cases exts) (auto simp: first_type_def ext_ok_def)
  then have plan: "planned_gtpu h = h"
    using v e by (intro gtpu_header.equality) (auto simp: h planned_gtpu_def)
  have "enc_extensions exts @ payload = drop ?s (take ?n p)"
    using off take_add[of "off - ?s" "?n - off" "drop ?s p"] by (simp add: x pl drop_take)
  with wf first have frame: "frame_gtpu h payload = (take ?n p)[0 := p ! 0 AND 0xf7]"
    unfolding h by (rule frame_header_of)
  have "?n - 8 \<le> 0xffff"
    using unsigned_less[of "be16 (p ! 2) (p ! 3)", where ?'a = nat] by (simp add: frame_end_def)
  then show ?thesis
    using v ok frame b by (simp add: Marshal_gtpu_eq plan frame, simp add: h)
qed

section \<open>Writing into a caller-owned buffer\<close>

lemma split_octets:
  assumes "8 \<le> length p"
  shows "p = [p ! 0, p ! 1, p ! 2, p ! 3, p ! 4, p ! 5, p ! 6, p ! 7] @ drop 8 p"
  using take_octets(1)[OF assms] append_take_drop_id[of 8 p] by simp

lemma marshalPlanned_plain:
  assumes "\<not> optional_gtpu h" "u_ExtensionHeaders h = []" "length packet = 8 + length payload"
  shows "marshalPlanned_gtpu packet h payload = Ok (frame_gtpu h payload)"
proof -
  obtain a0 a1 a2 a3 a4 a5 a6 a7 r where p: "packet = [a0, a1, a2, a3, a4, a5, a6, a7] @ r"
    using split_octets[of packet] assms(3) by auto
  with assms(3) have "length r = length payload" by simp
  with assms(1,2) show ?thesis
    by (simp add: marshalPlanned_gtpu_def p buf_write_def buf_copy_def put16_def put32_def
        frame_gtpu_def Let_def)
qed

lemma split_octets_12:
  assumes "12 \<le> length p"
  shows "p = [p ! 0, p ! 1, p ! 2, p ! 3, p ! 4, p ! 5, p ! 6, p ! 7, p ! 8, p ! 9, p ! 10, p ! 11]
    @ drop 12 p"
  using take_octets(2)[OF assms] append_take_drop_id[of 12 p] by simp

lemma marshalPlanned_optional:
  assumes "optional_gtpu h" "u_ExtensionHeaders h = []" "length packet = 12 + length payload"
  shows "marshalPlanned_gtpu packet h payload = Ok ((frame_gtpu h payload)[11 := packet ! 11])"
proof -
  obtain a0 a1 a2 a3 a4 a5 a6 a7 a8 a9 a10 a11 r
    where p: "packet = [a0, a1, a2, a3, a4, a5, a6, a7, a8, a9, a10, a11] @ r"
    using split_octets_12[of packet] assms(3) by auto
  with assms(3) have "length r = length payload" by simp
  with assms(1,2) show ?thesis
    by (simp add: marshalPlanned_gtpu_def p buf_write_def buf_copy_def put16_def put32_def
        frame_without_headers Let_def)
qed

lemma MarshalTo_gtpu_optional:
  assumes "optional_gtpu h" "u_ExtensionHeaders h = []" "Marshal_gtpu h payload = Ok p"
    and "length p \<le> length destination"
  shows "MarshalTo_gtpu destination h payload =
    Ok (length p, p[11 := destination ! 11] @ drop (length p) destination)"
proof -
  have opt: "optional_gtpu (planned_gtpu h)"
    using assms(1,2) by (simp add: optional_gtpu_def planned_gtpu_def)
  have p: "p = frame_gtpu (planned_gtpu h) payload" and le: "length p - 8 \<le> 0xffff"
      and v: "u_Version h = 0 \<or> u_Version h = Version_gtpu"
    using assms(3) by (auto simp: Marshal_gtpu_eq split: if_splits)
  have len: "length p = 12 + length payload" by (simp add: p frame_gtpu_length opt assms(2))
  then have "marshalPlanned_gtpu (take (length p) destination) (planned_gtpu h) payload =
      Ok (p[11 := destination ! 11])"
    using assms(2,4) opt by (subst marshalPlanned_optional) (simp_all add: p)
  moreover have "marshalPlan_gtpu h (length payload) = Ok (planned_gtpu h, length p)"
    using v le len assms(2) opt by (auto simp: marshalPlan_eq)
  ultimately show ?thesis using assms(4) by (simp add: MarshalTo_gtpu_def)
qed

section \<open>Properties\<close>

text \<open>C1: The GTP-U decoder is total on untrusted input: for no datagram does \<^verbatim>\<open>Parse\<close> read outside
  the slice it is given (every index and slice expression of the code stays in range), and a frame it
  accepts lies inside the datagram.\<close>

theorem Parse_gtpu_safe:
  "Parse_gtpu p \<noteq> Panic \<and> (Parse_gtpu p = Ok (h, payload) \<longrightarrow> u_FrameLength h \<le> length p)"
  using Parse_gtpu_no_panic by (auto simp: Parse_gtpu_Ok_iff well_framed_def)

theorem Parse_gtpu_safe_witness: "Parse_gtpu [1, 2, 3] \<noteq> Panic"
  using Parse_gtpu_safe[of "[1, 2, 3]"] by simp

text \<open>C29: Decoding inverts encoding, for every header \<^verbatim>\<open>Marshal\<close> accepts: its output is parsed back to the
  same header (with the length fields filled in, the version and protocol bits set, and the optional
  fields as transmitted) and the same payload, whatever octets follow the frame. The one exception is
  a header with \<^verbatim>\<open>Extension\<close> set and no extension header: \<^verbatim>\<open>Marshal\<close> accepts it, and \<^verbatim>\<open>Parse\<close> refuses what
  it writes with \<^verbatim>\<open>ErrInvalidExtension\<close>.\<close>

theorem Parse_Marshal_gtpu:
  assumes "Marshal_gtpu h payload = Ok p"
  shows "Parse_gtpu (p @ trailing) =
    (if u_Extension h \<and> u_ExtensionHeaders h = [] then Err ErrInvalidExtension_gtpu
     else Ok (received_gtpu h (length p), payload))"
  using assms Parse_frame_gtpu[of h payload trailing] Parse_frame_without_headers[of h payload trailing]
  by (auto simp: Marshal_gtpu_eq split: if_splits)

definition sample_gtpu :: gtpu_header where
  "sample_gtpu = \<lparr>u_Version = 0, u_ProtocolType = False, u_Extension = False, u_Sequence = True,
     u_NPDU = False, u_MessageType = 255, u_Length = 0, u_TEID = 0x01020304,
     u_SequenceNumber = 0x1234, u_NPDUNumber = 7,
     u_ExtensionHeaders = [\<lparr>ext_Type = 0x85, ext_Content = [9, 9]\<rparr>], u_FrameLength = 0\<rparr>"

lemmas eval_gtpu = Marshal_gtpu_eq sample_gtpu_def planned_gtpu_def frame_gtpu_def ext_ok_def
  optional_gtpu_def flags_gtpu_def first_type_def put16_def put32_def Version_gtpu_def Let_def

theorem Parse_Marshal_gtpu_witness:
  "Parse_gtpu ([54, 255, 0, 9, 1, 2, 3, 4, 18, 52, 7, 133, 1, 9, 9, 0, 42] @ [1, 2])
     = Ok (received_gtpu sample_gtpu 17, [42])"
proof -
  let ?p = "[54, 255, 0, 9, 1, 2, 3, 4, 18, 52, 7, 133, 1, 9, 9, 0, 42] :: byte list"
  have *: "Marshal_gtpu sample_gtpu [42] = Ok ?p" by (simp add: eval_gtpu)
  have "u_ExtensionHeaders sample_gtpu \<noteq> []" by (simp add: sample_gtpu_def)
  moreover have "length ?p = 17" by simp
  ultimately show ?thesis using Parse_Marshal_gtpu[OF *, of "[1, 2]"] by metis
qed

text \<open>Decoding loses nothing: encoding a decoded header and payload gives back the frame octet for
  octet, except for the spare bit of the first octet, which the encoder clears.\<close>

theorem Marshal_Parse_gtpu:
  assumes "Parse_gtpu p = Ok (h, payload)"
  shows "Marshal_gtpu h payload = Ok ((take (u_FrameLength h) p)[0 := p ! 0 AND 0xf7])"
  using assms by (rule Parse_gtpu_reencode)

text \<open>On the forwarding path's plain G-PDU header (no optional field), \<^verbatim>\<open>MarshalTo\<close> writes exactly the
  frame \<^verbatim>\<open>Marshal\<close> allocates, into any caller buffer that is long enough, whatever it held before, and
  leaves the rest of the buffer alone.\<close>

theorem MarshalTo_gtpu_plain:
  assumes "\<not> optional_gtpu h" "u_ExtensionHeaders h = []" "Marshal_gtpu h payload = Ok p"
    and "length p \<le> length destination"
  shows "MarshalTo_gtpu destination h payload = Ok (length p, p @ drop (length p) destination)"
proof -
  have opt: "\<not> optional_gtpu (planned_gtpu h)"
    using assms(1,2) by (simp add: optional_gtpu_def planned_gtpu_def)
  have p: "p = frame_gtpu (planned_gtpu h) payload" and le: "length p - 8 \<le> 0xffff"
      and v: "u_Version h = 0 \<or> u_Version h = Version_gtpu"
    using assms(3) by (auto simp: Marshal_gtpu_eq split: if_splits)
  have len: "length p = 8 + length payload" by (simp add: p frame_gtpu_length opt assms(2))
  then have "marshalPlanned_gtpu (take (length p) destination) (planned_gtpu h) payload = Ok p"
    using assms(2,4) opt p by (intro marshalPlanned_plain[THEN trans]) simp_all
  moreover have "marshalPlan_gtpu h (length payload) = Ok (planned_gtpu h, length p)"
    using v le len assms(2) opt by (auto simp: marshalPlan_eq)
  ultimately show ?thesis using assms(4) by (simp add: MarshalTo_gtpu_def)
qed

text \<open>C40: What \<^verbatim>\<open>MarshalTo\<close> leaves of the caller's buffer: for every header without extension headers but
  with an optional field, it writes the frame of \<^verbatim>\<open>Marshal\<close> in all octets but one, the next-extension
  octet (octet 11), which keeps whatever the caller's buffer held, and touches nothing behind the frame.
  When the extension flag is clear, the decoder therefore takes the frame back exactly when that stale
  octet was zero and refuses it with \<^verbatim>\<open>ErrInvalidExtension\<close> otherwise.\<close>

theorem MarshalTo_gtpu_stale_octet:
  assumes "optional_gtpu h" "u_ExtensionHeaders h = []" "Marshal_gtpu h payload = Ok p"
    and "length p \<le> length destination"
  shows "MarshalTo_gtpu destination h payload =
      Ok (length p, p[11 := destination ! 11] @ drop (length p) destination)
    \<and> p ! 11 = 0 \<and> 12 \<le> length p
    \<and> (\<not> u_Extension h \<longrightarrow> Parse_gtpu (p[11 := destination ! 11]) =
         (if destination ! 11 = 0 then Ok (received_gtpu h (length p), payload)
          else Err ErrInvalidExtension_gtpu))"
proof -
  let ?h = "planned_gtpu h"
  have opt: "optional_gtpu ?h" and ext: "u_Extension ?h = u_Extension h"
    using assms(1,2) by (simp_all add: optional_gtpu_def planned_gtpu_def)
  have p: "p = frame_gtpu ?h payload" and le: "length p - 8 \<le> 0xffff"
    using assms(3) by (auto simp: Marshal_gtpu_eq split: if_splits)
  have 0: "p ! 11 = 0" and len: "length p = 12 + length payload"
    using opt assms(2) by (simp_all add: p frame_without_headers put16_def put32_def)
  have keep: "p[11 := 0] = p" using 0 by (metis list_update_id)
  have "Parse_gtpu (p[11 := destination ! 11]) = Err ErrInvalidExtension_gtpu"
    if "\<not> u_Extension h" "destination ! 11 \<noteq> 0"
    using Parse_frame_mismatch[of ?h payload "destination ! 11" "[]"] opt ext that le assms(2)
    by (simp add: p)
  moreover have "Parse_gtpu p = Ok (received_gtpu h (length p), payload)" if "\<not> u_Extension h"
    using Parse_frame_gtpu[of h payload "[]"] that assms(2) le by (simp add: p)
  ultimately show ?thesis
    using MarshalTo_gtpu_optional[OF assms] 0 len keep by auto
qed

theorem MarshalTo_gtpu_stale_octet_witness:
  "MarshalTo_gtpu (replicate 14 255) (sample_gtpu\<lparr>u_ExtensionHeaders := []\<rparr>) [42] =
     Ok (13, [50, 255, 0, 5, 1, 2, 3, 4, 18, 52, 7, 255, 42, 255])
   \<and> Parse_gtpu [50, 255, 0, 5, 1, 2, 3, 4, 18, 52, 7, 255, 42] = Err ErrInvalidExtension_gtpu"
proof -
  let ?h = "sample_gtpu\<lparr>u_ExtensionHeaders := []\<rparr>"
  let ?b = "[50, 255, 0, 5, 1, 2, 3, 4, 18, 52, 7, 0, 42] :: byte list"
  have "optional_gtpu ?h" "u_ExtensionHeaders ?h = []" "\<not> u_Extension ?h"
      "Marshal_gtpu ?h [42] = Ok ?b" "length ?b \<le> length (replicate 14 (255 :: byte))"
    by (simp_all add: eval_gtpu)
  moreover have "replicate 14 (255 :: byte) ! 11 = 255"
      "drop (length ?b) (replicate 14 (255 :: byte)) = [255]"
    by simp_all
  ultimately show ?thesis
    using MarshalTo_gtpu_stale_octet[of ?h "[42]" ?b "replicate 14 255"] by simp
qed

end
