(* ===== verification/Gtpv2_Header.thy ===== *)
theory Gtpv2_Header
  imports Cups_Prelude
begin

unbundle bit_operations_syntax

text \<open>
  The GTPv2-C message header of \<^verbatim>\<open>pkg/gtpv2/header.go\<close>: \<open>Parse_gtpv2\<close>, \<open>Marshal_gtpv2\<close> and
  \<open>ValidateScope_gtpv2\<close>, with the layout of a frame as the reference both are compared with.
\<close>

section \<open>Data\<close>

definition Version_gtpv2 :: byte where "Version_gtpv2 = 2"

definition MessageEchoRequest :: byte where "MessageEchoRequest = 1"
definition MessageEchoResponse :: byte where "MessageEchoResponse = 2"
definition MessageVersionNotSupported :: byte where "MessageVersionNotSupported = 3"

text \<open>The sentinel errors of package gtpv2 (header and information elements).\<close>

datatype gtpv2_error = ErrTooShort_gtpv2 | ErrUnsupportedVersion_gtpv2 | ErrInvalidLength_gtpv2
  | ErrInvalidHeader_gtpv2 | ErrMalformedIE_gtpv2 | ErrTooManyIEs_gtpv2 | ErrGroupedDepth_gtpv2
  | ErrMissingIE_gtpv2

record gtpv2_header =
  c_Version :: byte
  c_Piggybacked :: bool
  c_HasTEID :: bool
  c_HasPriority :: bool
  c_MessageType :: byte
  c_Length :: "16 word"
  c_TEID :: "32 word"
  c_SequenceNumber :: "32 word"
  c_MessagePriority :: byte
  c_FrameLength :: nat

section \<open>Operations\<close>

definition Parse_gtpv2 :: "byte list \<Rightarrow> (gtpv2_error, gtpv2_header \<times> byte list) outcome" where
  "Parse_gtpv2 packet =
     (if length packet < 8 then Err ErrTooShort_gtpv2
      else andThen (byte_at packet 0) (\<lambda>b0. andThen (byte_at packet 1) (\<lambda>b1.
        andThen (read16 packet 2) (\<lambda>len.
        let h = \<lparr>c_Version = drop_bit 5 b0, c_Piggybacked = (b0 AND 0x10 \<noteq> 0),
                 c_HasTEID = (b0 AND 0x08 \<noteq> 0), c_HasPriority = False, c_MessageType = b1,
                 c_Length = len, c_TEID = 0, c_SequenceNumber = 0, c_MessagePriority = 0,
                 c_FrameLength = 0\<rparr> in
        if c_Version h \<noteq> Version_gtpv2 then Err ErrUnsupportedVersion_gtpv2
        else
          let headerLength = (if c_HasTEID h then 12 else 8);
              h = (if c_HasTEID h then h\<lparr>c_HasPriority := (b0 AND 0x04 \<noteq> 0)\<rparr> else h) in
          if length packet < headerLength then Err ErrTooShort_gtpv2
          else
            let h = h\<lparr>c_FrameLength := 4 + unat len\<rparr> in
            if c_FrameLength h < headerLength \<or> c_FrameLength h > length packet
            then Err ErrInvalidLength_gtpv2
            else andThen
              (if c_HasTEID h
               then andThen (read32 packet 4) (\<lambda>teid. andThen (read24 packet 8) (\<lambda>seq.
                 let h = h\<lparr>c_TEID := teid, c_SequenceNumber := seq\<rparr> in
                 if c_HasPriority h
                 then andThen (byte_at packet 11) (\<lambda>b. Ok (h\<lparr>c_MessagePriority := drop_bit 4 b\<rparr>))
                 else Ok h))
               else andThen (read24 packet 4) (\<lambda>seq. Ok (h\<lparr>c_SequenceNumber := seq\<rparr>))) (\<lambda>h.
              if c_SequenceNumber h > 0xffffff then Err ErrInvalidHeader_gtpv2
              else andThen (slice packet headerLength (c_FrameLength h)) (\<lambda>payload.
                Ok (h, payload)))))))"

definition flags_gtpv2 :: "gtpv2_header \<Rightarrow> byte" where
  "flags_gtpv2 h = push_bit 5 Version_gtpv2 OR (if c_Piggybacked h then 0x10 else 0)
     OR (if c_HasTEID h then 0x08 OR (if c_HasPriority h then 0x04 else 0) else 0)"

definition Marshal_gtpv2 :: "gtpv2_header \<Rightarrow> byte list \<Rightarrow> (gtpv2_error, byte list) outcome" where
  "Marshal_gtpv2 header payload =
     (let header = (if c_Version header = 0 then header\<lparr>c_Version := Version_gtpv2\<rparr> else header) in
      if c_Version header \<noteq> Version_gtpv2 then Err ErrUnsupportedVersion_gtpv2
      else if c_SequenceNumber header > 0xffffff then Err ErrInvalidHeader_gtpv2
      else if c_MessagePriority header > 15 \<or> (c_HasPriority header \<and> \<not> c_HasTEID header)
        then Err ErrInvalidHeader_gtpv2
      else
        let headerLength = (if c_HasTEID header then 12 else 8);
            total = headerLength + length payload in
        if total - 4 > 0xffff then Err ErrInvalidLength_gtpv2
        else
          andThen (buf_write (replicate total 0) 0 [flags_gtpv2 header]) (\<lambda>packet.
          andThen (buf_write packet 1 [c_MessageType header]) (\<lambda>packet.
          andThen (buf_write packet 2 (put16 (of_nat (total - 4)))) (\<lambda>packet.
          andThen
            (if c_HasTEID header
             then andThen (buf_write packet 4 (put32 (c_TEID header))) (\<lambda>packet.
               andThen (buf_write packet 8 (put24 (c_SequenceNumber header))) (\<lambda>packet.
               if c_HasPriority header
               then buf_write packet 11 [push_bit 4 (c_MessagePriority header)] else Ok packet))
             else buf_write packet 4 (put24 (c_SequenceNumber header))) (\<lambda>packet.
          buf_copy packet headerLength payload)))))"

definition ValidateScope_gtpv2 :: "gtpv2_header \<Rightarrow> (gtpv2_error, unit) outcome" where
  "ValidateScope_gtpv2 header =
     (if c_MessageType header \<in> {MessageEchoRequest, MessageEchoResponse, MessageVersionNotSupported}
      then if c_HasTEID header then Err ErrInvalidHeader_gtpv2 else Ok ()
      else if \<not> c_HasTEID header then Err ErrInvalidHeader_gtpv2 else Ok ())"

section \<open>The frame layout\<close>

definition frame_gtpv2 :: "gtpv2_header \<Rightarrow> byte list \<Rightarrow> byte list" where
  "frame_gtpv2 h payload =
     (let rest = (if c_HasTEID h
           then put32 (c_TEID h) @ put24 (c_SequenceNumber h)
             @ [if c_HasPriority h then push_bit 4 (c_MessagePriority h) else 0]
           else put24 (c_SequenceNumber h) @ [0]) @ payload
      in [flags_gtpv2 h, c_MessageType h] @ put16 (of_nat (length rest)) @ rest)"

text \<open>What the encoder accepts, and the header a receiver reconstructs.\<close>

definition sendable_gtpv2 :: "gtpv2_header \<Rightarrow> byte list \<Rightarrow> bool" where
  "sendable_gtpv2 h payload \<longleftrightarrow> c_Version h \<in> {0, Version_gtpv2} \<and> c_SequenceNumber h \<le> 0xffffff
     \<and> c_MessagePriority h \<le> 15 \<and> (c_HasPriority h \<longrightarrow> c_HasTEID h)
     \<and> length (frame_gtpv2 h payload) - 4 \<le> 0xffff"

definition received_gtpv2 :: "gtpv2_header \<Rightarrow> nat \<Rightarrow> gtpv2_header" where
  "received_gtpv2 h n = h\<lparr>c_Version := Version_gtpv2, c_Length := of_nat (n - 4), c_FrameLength := n,
     c_TEID := (if c_HasTEID h then c_TEID h else 0),
     c_MessagePriority := (if c_HasPriority h then c_MessagePriority h else 0)\<rparr>"

lemma frame_gtpv2_length:
  "length (frame_gtpv2 h payload) = (if c_HasTEID h then 12 else 8) + length payload"
  by (simp add: frame_gtpv2_def Let_def)

lemma frame_gtpv2_version [simp]: "frame_gtpv2 (h\<lparr>c_Version := v\<rparr>) payload = frame_gtpv2 h payload"
  by (simp add: frame_gtpv2_def flags_gtpv2_def)

lemma Marshal_gtpv2_Ok: "sendable_gtpv2 h payload \<Longrightarrow> Marshal_gtpv2 h payload = Ok (frame_gtpv2 h payload)"
  by (auto simp: Marshal_gtpv2_def sendable_gtpv2_def frame_gtpv2_length Let_def not_less not_le
      replicate_octets buf_write_def buf_copy_def)
    (auto simp: frame_gtpv2_def put16_def put24_def put32_def flags_gtpv2_def Let_def)

lemma Marshal_gtpv2_refuses: "\<not> sendable_gtpv2 h payload \<Longrightarrow> \<exists>e. Marshal_gtpv2 h payload = Err e"
  by (auto simp: Marshal_gtpv2_def sendable_gtpv2_def frame_gtpv2_length Let_def not_less not_le)

lemma Marshal_gtpv2_Ok_iff:
  "Marshal_gtpv2 h payload = Ok p \<longleftrightarrow> sendable_gtpv2 h payload \<and> p = frame_gtpv2 h payload"
  using Marshal_gtpv2_Ok[of h payload] Marshal_gtpv2_refuses[of h payload]
  by (cases "sendable_gtpv2 h payload") auto

section \<open>The decoder\<close>

text \<open>What a successful \<^verbatim>\<open>Parse\<close> has checked, and what it returns.\<close>

definition has_teid :: "byte list \<Rightarrow> bool" where
  "has_teid p \<longleftrightarrow> p ! 0 AND 0x08 \<noteq> 0"

definition end_gtpv2 :: "byte list \<Rightarrow> nat" where
  "end_gtpv2 p = 4 + unat (be16 (p ! 2) (p ! 3))"

definition start_gtpv2 :: "byte list \<Rightarrow> nat" where
  "start_gtpv2 p = (if has_teid p then 12 else 8)"

definition framed_gtpv2 :: "byte list \<Rightarrow> bool" where
  "framed_gtpv2 p \<longleftrightarrow> 8 \<le> length p \<and> drop_bit 5 (p ! 0) = Version_gtpv2
     \<and> start_gtpv2 p \<le> end_gtpv2 p \<and> end_gtpv2 p \<le> length p"

definition header_gtpv2 :: "byte list \<Rightarrow> gtpv2_header" where
  "header_gtpv2 p =
     \<lparr>c_Version = drop_bit 5 (p ! 0), c_Piggybacked = (p ! 0 AND 0x10 \<noteq> 0), c_HasTEID = has_teid p,
      c_HasPriority = (has_teid p \<and> p ! 0 AND 0x04 \<noteq> 0), c_MessageType = p ! 1,
      c_Length = be16 (p ! 2) (p ! 3),
      c_TEID = (if has_teid p then be32 (p ! 4) (p ! 5) (p ! 6) (p ! 7) else 0),
      c_SequenceNumber = (if has_teid p then be24 (p ! 8) (p ! 9) (p ! 10)
        else be24 (p ! 4) (p ! 5) (p ! 6)),
      c_MessagePriority = (if has_teid p \<and> p ! 0 AND 0x04 \<noteq> 0 then drop_bit 4 (p ! 11) else 0),
      c_FrameLength = end_gtpv2 p\<rparr>"

lemmas framed_defs_gtpv2 = has_teid_def end_gtpv2_def start_gtpv2_def framed_gtpv2_def header_gtpv2_def

lemma Parse_gtpv2_framed:
  assumes "framed_gtpv2 p"
  shows "Parse_gtpv2 p = Ok (header_gtpv2 p,
    take (end_gtpv2 p - start_gtpv2 p) (drop (start_gtpv2 p) p))"
proof -
  have "\<not> be24 a b c > 0xffffff" for a b c using be24_le by (simp add: not_less)
  with assms show ?thesis
    by (cases "p ! 0 AND 0x08 = 0") (auto simp: Parse_gtpv2_def framed_defs_gtpv2 read_defs Let_def)
qed

lemma Parse_gtpv2_unframed:
  assumes "\<not> framed_gtpv2 p"
  shows "Parse_gtpv2 p \<in> Err ` {ErrTooShort_gtpv2, ErrUnsupportedVersion_gtpv2, ErrInvalidLength_gtpv2}"
  using assms by (auto simp: Parse_gtpv2_def framed_defs_gtpv2 read_defs Let_def)

lemma Parse_gtpv2_Ok_iff:
  "Parse_gtpv2 p = Ok (h, payload) \<longleftrightarrow> framed_gtpv2 p \<and> h = header_gtpv2 p \<and>
     payload = take (end_gtpv2 p - start_gtpv2 p) (drop (start_gtpv2 p) p)"
  using Parse_gtpv2_framed[of p] Parse_gtpv2_unframed[of p] by (cases "framed_gtpv2 p") auto

lemma flags_gtpv2_bits:
  "drop_bit 5 (flags_gtpv2 h) = Version_gtpv2" "(flags_gtpv2 h AND 0x10 \<noteq> 0) = c_Piggybacked h"
  "(flags_gtpv2 h AND 0x08 \<noteq> 0) = c_HasTEID h"
  "(flags_gtpv2 h AND 0x04 \<noteq> 0) = (c_HasTEID h \<and> c_HasPriority h)"
  by (simp_all add: flags_gtpv2_def Version_gtpv2_def)

lemma priority_nibble [codec_simps]: "b \<le> 15 \<Longrightarrow> drop_bit 4 (push_bit 4 b) = b" for b :: byte
proof (rule bit_word_eqI)
  fix n
  assume "b \<le> 15"
  then have "unat b < 2 ^ 4" by (simp add: word_le_nat_alt)
  then have "bit b n \<Longrightarrow> n < 4" by (rule word_bit_bound)
  then show "bit (drop_bit 4 (push_bit 4 b)) n = bit b n" by (auto simp: bit_simps)
qed

lemma Parse_frame_gtpv2:
  assumes "sendable_gtpv2 h payload"
  shows "Parse_gtpv2 (frame_gtpv2 h payload @ trailing) =
    Ok (received_gtpv2 h (length (frame_gtpv2 h payload)), payload)"
proof -
  define n where "n = length (frame_gtpv2 h payload)"
  define p where "p = frame_gtpv2 h payload @ trailing"
  have n: "n = (if c_HasTEID h then 12 else 8) + length payload"
    by (simp add: n_def frame_gtpv2_length)
  have snd: "c_SequenceNumber h \<le> 0xffffff" "c_MessagePriority h \<le> 15" "c_HasPriority h \<Longrightarrow> c_HasTEID h"
      "n - 4 \<le> 0xffff"
    using assms by (auto simp: sendable_gtpv2_def n_def)
  have flags: "p ! 0 = flags_gtpv2 h" "p ! 1 = c_MessageType h"
    by (simp_all add: p_def frame_gtpv2_def Let_def)
  have len: "be16 (p ! 2) (p ! 3) = of_nat (n - 4)"
    using n by (simp add: p_def frame_gtpv2_def put16_def codec_simps Let_def)
  have "4 \<le> n" using n by simp
  then have e: "end_gtpv2 p = n" unfolding end_gtpv2_def len unat_of_nat16[OF snd(4)] by simp
  have t: "has_teid p = c_HasTEID h" by (simp add: has_teid_def flags flags_gtpv2_bits)
  have "n \<le> length p" by (simp add: p_def n_def)
  with n have fr: "framed_gtpv2 p"
    by (auto simp: framed_gtpv2_def e start_gtpv2_def t flags flags_gtpv2_bits split: if_splits)
  have hd: "header_gtpv2 p = received_gtpv2 h n"
    using snd
    by (intro gtpv2_header.equality)
      (auto simp: header_gtpv2_def received_gtpv2_def e t len flags flags[unfolded One_nat_def]
        flags_gtpv2_bits, auto simp: p_def frame_gtpv2_def put16_def put24_def put32_def codec_simps Let_def)
  have "drop (start_gtpv2 p) p = payload @ trailing"
    by (simp add: start_gtpv2_def t) (simp add: p_def frame_gtpv2_def put16_def put24_def put32_def Let_def)
  moreover have "n - start_gtpv2 p = length payload" using n by (simp add: start_gtpv2_def t)
  ultimately show ?thesis
    using Parse_gtpv2_framed[OF fr] hd e by (simp flip: p_def n_def)
qed

section \<open>Properties\<close>

text \<open>The GTPv2-C header decoder is defensive: for every datagram it returns a header and payload or
  one of the errors too short, unsupported version, invalid length; it never panics, and its guard on
  a sequence number above 24 bits can never fire. An accepted frame lies inside the datagram.\<close>

theorem Parse_gtpv2_safe:
  "(\<exists>h payload. Parse_gtpv2 p = Ok (h, payload) \<and> c_FrameLength h \<le> length p
      \<and> c_SequenceNumber h \<le> 0xffffff
      \<and> c_FrameLength h = (if c_HasTEID h then 12 else 8) + length payload)
   \<or> Parse_gtpv2 p \<in> Err ` {ErrTooShort_gtpv2, ErrUnsupportedVersion_gtpv2, ErrInvalidLength_gtpv2}"
proof (cases "framed_gtpv2 p")
  case True
  then show ?thesis
    by (auto simp: Parse_gtpv2_framed framed_gtpv2_def header_gtpv2_def start_gtpv2_def be24_le)
next
  case False
  then show ?thesis by (intro disjI2 Parse_gtpv2_unframed)
qed

text \<open>Decoding inverts encoding for GTPv2-C headers: for a header and payload the encoder accepts, the
  octets it writes are parsed back to the same header (version and length fields filled in, unsent
  fields zero) and payload, whatever follows the frame in the datagram.\<close>

theorem Parse_Marshal_gtpv2:
  assumes "Marshal_gtpv2 h payload = Ok p"
  shows "Parse_gtpv2 (p @ trailing) = Ok (received_gtpv2 h (length p), payload)"
  using assms Parse_frame_gtpv2 by (auto simp: Marshal_gtpv2_Ok_iff)

definition sample_gtpv2 :: gtpv2_header where
  "sample_gtpv2 = \<lparr>c_Version = 2, c_Piggybacked = False, c_HasTEID = True, c_HasPriority = True,
     c_MessageType = 32, c_Length = 0, c_TEID = 0x0a0b0c0d, c_SequenceNumber = 0x123456,
     c_MessagePriority = 5, c_FrameLength = 0\<rparr>"

end
