(* ===== verification/Tlv_Framing.thy ===== *)
theory Tlv_Framing
  imports Cups_Prelude
begin

text \<open>
  The interface between a sequence-of-elements codec and its clients. GTPv2-C and PFCP both carry
  lists of type-length-value information elements, decoded by a loop over an offset and encoded by
  a loop of writes into an allocated buffer. The locales state what one turn of each loop does; the
  theorems about whole lists (round trips in both directions, no panic, the bound on the number of
  elements) are proved here once and are used by both protocols through interpretations.
\<close>

section \<open>Decoding\<close>

locale tlv_reader =
  fixes loop :: "byte list \<Rightarrow> nat \<Rightarrow> 'ie list \<Rightarrow> ('e, 'ie list) outcome"
    and emit :: "'ie \<Rightarrow> byte list"
    and wf :: "'ie \<Rightarrow> bool"
    and maxn :: nat
  assumes emit_nonempty: "emit ie \<noteq> []"
    and loop_done: "length p \<le> off \<Longrightarrow> loop p off acc = Ok acc"
    and loop_step: "wf ie \<Longrightarrow> length acc < maxn \<Longrightarrow>
      loop (pre @ emit ie @ post) (length pre) acc =
      loop (pre @ emit ie @ post) (length pre + length (emit ie)) (acc @ [ie])"
    and loop_cases: "off < length p \<Longrightarrow> (\<exists>e. loop p off acc = Err e) \<or>
      (\<exists>ie post. wf ie \<and> length acc < maxn \<and> drop off p = emit ie @ post \<and>
        loop p off acc = loop p (off + length (emit ie)) (acc @ [ie]))"
begin

lemma loop_complete:
  assumes "\<forall>ie\<in>set ies. wf ie" and "length acc + length ies \<le> maxn"
  shows "loop (pre @ concat (map emit ies)) (length pre) acc = Ok (acc @ ies)"
  using assms
proof (induction ies arbitrary: pre acc)
  case Nil
  then show ?case by (simp add: loop_done)
next
  case (Cons ie ies)
  have "loop ((pre @ emit ie) @ concat (map emit ies)) (length (pre @ emit ie)) (acc @ [ie])
      = Ok ((acc @ [ie]) @ ies)"
    using Cons.prems by (intro Cons.IH) simp_all
  moreover have "loop (pre @ emit ie @ concat (map emit ies)) (length pre) acc
      = loop (pre @ emit ie @ concat (map emit ies)) (length pre + length (emit ie)) (acc @ [ie])"
    using Cons.prems by (intro loop_step) simp_all
  ultimately show ?case by simp
qed

lemma loop_cases_progress:
  assumes "off < length p"
  obtains (err) e where "loop p off acc = Err e"
  | (step) ie post where "wf ie" "length acc < maxn" "drop off p = emit ie @ post"
      "loop p off acc = loop p (off + length (emit ie)) (acc @ [ie])"
      "off + length (emit ie) \<le> length p" "length p - (off + length (emit ie)) < length p - off"
proof -
  from loop_cases[OF assms, of acc] show thesis
  proof (elim disjE exE conjE)
    fix ie post
    assume *: "wf ie" "length acc < maxn" "drop off p = emit ie @ post"
      "loop p off acc = loop p (off + length (emit ie)) (acc @ [ie])"
    have "length p - off = length (emit ie) + length post"
      using arg_cong[OF *(3), of length] by simp
    moreover have "0 < length (emit ie)" using emit_nonempty by simp
    ultimately have "off + length (emit ie) \<le> length p"
      "length p - (off + length (emit ie)) < length p - off" using assms by arith+
    with * show thesis by (rule step)
  qed (rule err)
qed

lemma loop_no_panic: "loop p off acc \<noteq> Panic"
proof (induction "length p - off" arbitrary: off acc rule: less_induct)
  case less
  show ?case
  proof (cases "off < length p")
    case True
    then show ?thesis using less by (cases rule: loop_cases_progress[of off p acc]) auto
  qed (simp add: loop_done)
qed

lemma loop_sound:
  assumes "loop p off acc = Ok res" and "off \<le> length p"
  shows "\<exists>ies. res = acc @ ies \<and> drop off p = concat (map emit ies) \<and> (\<forall>ie\<in>set ies. wf ie)
    \<and> (length acc \<le> maxn \<longrightarrow> length res \<le> maxn)"
  using assms
proof (induction "length p - off" arbitrary: off acc rule: less_induct)
  case less
  show ?case
  proof (cases "off < length p")
    case True
    then show ?thesis
    proof (cases rule: loop_cases_progress[of off p acc])
      case (err e)
      then show ?thesis using less.prems by simp
    next
      case (step ie post)
      with less.prems obtain ies where ies: "res = (acc @ [ie]) @ ies"
          "drop (off + length (emit ie)) p = concat (map emit ies)" "\<forall>ie\<in>set ies. wf ie"
          "length (acc @ [ie]) \<le> maxn \<longrightarrow> length res \<le> maxn"
        using less.hyps[of "off + length (emit ie)" "acc @ [ie]"] by auto
      have "drop (length (emit ie)) (drop off p) = post" using step(3) by simp
      then have "post = concat (map emit ies)" using ies(2) by (simp add: add.commute)
      then show ?thesis using ies step by (intro exI[of _ "ie # ies"]) auto
    qed
  qed (use less.prems in \<open>simp add: loop_done\<close>)
qed

end

section \<open>Encoding\<close>

locale tlv_writer =
  fixes wr :: "byte list \<Rightarrow> nat \<Rightarrow> 'ie list \<Rightarrow> ('e, byte list) outcome"
    and put :: "byte list \<Rightarrow> nat \<Rightarrow> 'ie \<Rightarrow> ('e, byte list) outcome"
    and emit :: "'ie \<Rightarrow> byte list"
  assumes write_Nil: "wr out off [] = Ok out"
    and write_Cons: "wr out off (ie # ies) =
      andThen (put out off ie) (\<lambda>out. wr out (off + length (emit ie)) ies)"
    and put_at: "length (emit ie) \<le> length rest \<Longrightarrow>
      put (pre @ rest) (length pre) ie = Ok (pre @ emit ie @ drop (length (emit ie)) rest)"
begin

lemma write_all:
  assumes "length (concat (map emit ies)) \<le> length rest"
  shows "wr (pre @ rest) (length pre) ies =
    Ok (pre @ concat (map emit ies) @ drop (length (concat (map emit ies))) rest)"
  using assms
proof (induction ies arbitrary: pre rest)
  case Nil
  then show ?case by (simp add: write_Nil)
next
  case (Cons ie ies)
  have "wr ((pre @ emit ie) @ drop (length (emit ie)) rest) (length (pre @ emit ie)) ies =
      Ok ((pre @ emit ie) @ concat (map emit ies)
        @ drop (length (concat (map emit ies))) (drop (length (emit ie)) rest))"
    using Cons.prems by (intro Cons.IH) simp
  moreover have "put (pre @ rest) (length pre) ie = Ok (pre @ emit ie @ drop (length (emit ie)) rest)"
    using Cons.prems by (intro put_at) simp
  ultimately show ?case by (simp add: write_Cons add.commute)
qed

lemma write_allocated:
  "wr (replicate (length (concat (map emit ies))) 0) 0 ies = Ok (concat (map emit ies))"
  using write_all[of ies "replicate (length (concat (map emit ies))) 0" "[]"] by simp

end

section \<open>The codec of a list of elements\<close>

locale tlv_codec = tlv_reader loop emit wf maxn + tlv_writer wr put emit
  for loop :: "byte list \<Rightarrow> nat \<Rightarrow> 'ie list \<Rightarrow> ('e, 'ie list) outcome"
    and emit wf maxn wr put +
  fixes parse :: "byte list \<Rightarrow> ('e, 'ie list) outcome"
    and marshal :: "'ie list \<Rightarrow> ('e, byte list) outcome"
    and limit :: nat
  assumes parse_loop: "parse p = loop p 0 []"
    and marshal_write: "length ies \<le> maxn \<Longrightarrow> \<forall>ie\<in>set ies. wf ie \<Longrightarrow>
      length (concat (map emit ies)) \<le> limit \<Longrightarrow>
      marshal ies = wr (replicate (length (concat (map emit ies))) 0) 0 ies"
    and marshal_refuses: "\<not> (length ies \<le> maxn \<and> (\<forall>ie\<in>set ies. wf ie) \<and>
      length (concat (map emit ies)) \<le> limit) \<Longrightarrow> \<exists>e. marshal ies = Err e"
begin

lemma marshal_Ok_iff:
  "marshal ies = Ok bs \<longleftrightarrow> length ies \<le> maxn \<and> (\<forall>ie\<in>set ies. wf ie) \<and>
     length (concat (map emit ies)) \<le> limit \<and> bs = concat (map emit ies)"
proof (cases "length ies \<le> maxn \<and> (\<forall>ie\<in>set ies. wf ie) \<and> length (concat (map emit ies)) \<le> limit")
  case True
  then show ?thesis using marshal_write[of ies] write_allocated[of ies] by auto
next
  case False
  with marshal_refuses show ?thesis by fastforce
qed

lemma marshal_no_panic: "marshal ies \<noteq> Panic"
  using marshal_write[of ies] marshal_refuses[of ies] write_allocated[of ies]
  by (metis outcome.distinct(3) outcome.distinct(5))

lemma parse_no_panic: "parse p \<noteq> Panic"
  by (simp add: parse_loop loop_no_panic)

lemma parse_marshal: "marshal ies = Ok bs \<Longrightarrow> parse bs = Ok ies"
  using loop_complete[of ies "[]" "[]"] by (auto simp: marshal_Ok_iff parse_loop)

lemma parse_Ok_iff:
  "parse p = Ok ies \<longleftrightarrow> length ies \<le> maxn \<and> (\<forall>ie\<in>set ies. wf ie) \<and> p = concat (map emit ies)"
  using loop_sound[of p 0 "[]" ies] loop_complete[of ies "[]" "[]"] by (auto simp: parse_loop)

lemma marshal_parse: "parse p = Ok ies \<Longrightarrow> length p \<le> limit \<Longrightarrow> marshal ies = Ok p"
  by (auto simp: parse_Ok_iff marshal_Ok_iff)

lemma parse_inj: "parse p = Ok ies \<Longrightarrow> parse q = Ok ies \<Longrightarrow> p = q"
  by (simp add: parse_Ok_iff)

end

end
