(* ===== verification/Gtpv2_IE.thy ===== *)
theory Gtpv2_IE
  imports Gtpv2_Header Tlv_Framing
begin

unbundle bit_operations_syntax

text \<open>
  Lists of GTPv2-C information elements (\<^verbatim>\<open>pkg/gtpv2/ie.go\<close>): the TLIV decoder and encoder, grouped
  elements, and the lookup, upsert and remove operations the gateways use to rewrite messages.
  The interpretation \<open>v2\<close> of \<open>tlv_codec\<close> gives the round trips.
\<close>

section \<open>Data\<close>

record IE =
  ie_Type :: byte
  ie_Instance :: byte
  ie_Value :: "byte list"

definition maxIEsPerScope :: nat where "maxIEsPerScope = 256"
definition maxGroupedDepth :: nat where "maxGroupedDepth = 8"

definition IEBearerContext :: byte where "IEBearerContext = 93"

section \<open>Decoding and encoding lists of elements\<close>

function parseIEs_loop :: "byte list \<Rightarrow> nat \<Rightarrow> IE list \<Rightarrow> (gtpv2_error, IE list) outcome" where
  "parseIEs_loop payload offset ies =
     (if \<not> offset < length payload then Ok ies
      else if length ies \<ge> maxIEsPerScope then Err ErrTooManyIEs_gtpv2
      else if length payload - offset < 4 then Err ErrMalformedIE_gtpv2
      else andThen (read16 payload (offset + 1)) (\<lambda>len.
        let total = 4 + unat len in
        andThen (byte_at payload offset) (\<lambda>typ. andThen (byte_at payload (offset + 3)) (\<lambda>inst.
        if typ = 0 \<or> inst AND 0xf0 \<noteq> 0 \<or> total < 4 \<or> total > length payload - offset
        then Err ErrMalformedIE_gtpv2
        else andThen (slice payload (offset + 4) (offset + total)) (\<lambda>value.
          parseIEs_loop payload (offset + total)
            (ies @ [\<lparr>ie_Type = typ, ie_Instance = inst AND 0x0f, ie_Value = value\<rparr>]))))))"
  by pat_completeness auto
termination
  by (relation "measure (\<lambda>(payload, offset, ies). length payload - offset)") auto

declare parseIEs_loop.simps [simp del]

definition parseIEs :: "byte list \<Rightarrow> nat \<Rightarrow> (gtpv2_error, IE list) outcome" where
  "parseIEs payload depth =
     (if depth > maxGroupedDepth then Err ErrGroupedDepth_gtpv2 else parseIEs_loop payload 0 [])"

definition ParseIEs :: "byte list \<Rightarrow> (gtpv2_error, IE list) outcome" where
  "ParseIEs payload = parseIEs payload 0"

text \<open>The first loop of \<^verbatim>\<open>MarshalIEs\<close>, over Go integers: the guard \<open>total > 0xffff-(4+len)\<close> is an \<open>int\<close>
  comparison.\<close>

fun marshal_total :: "IE list \<Rightarrow> int \<Rightarrow> (gtpv2_error, int) outcome" where
  "marshal_total [] sz = Ok sz"
| "marshal_total (ie # ies) sz =
     (if ie_Type ie = 0 \<or> ie_Instance ie > 15 \<or> length (ie_Value ie) > 0xffff
      then Err ErrMalformedIE_gtpv2
      else if sz > 0xffff - (4 + int (length (ie_Value ie))) then Err ErrMalformedIE_gtpv2
      else marshal_total ies (sz + (4 + int (length (ie_Value ie)))))"

definition put_IE :: "byte list \<Rightarrow> nat \<Rightarrow> IE \<Rightarrow> (gtpv2_error, byte list) outcome" where
  "put_IE out offset ie =
     andThen (buf_write out offset [ie_Type ie]) (\<lambda>out.
     andThen (buf_write out (offset + 1) (put16 (of_nat (length (ie_Value ie))))) (\<lambda>out.
     andThen (buf_write out (offset + 3) [ie_Instance ie]) (\<lambda>out.
     buf_copy out (offset + 4) (ie_Value ie))))"

fun marshal_write :: "byte list \<Rightarrow> nat \<Rightarrow> IE list \<Rightarrow> (gtpv2_error, byte list) outcome" where
  "marshal_write out offset [] = Ok out"
| "marshal_write out offset (ie # ies) =
     andThen (put_IE out offset ie) (\<lambda>out. marshal_write out (offset + (4 + length (ie_Value ie))) ies)"

definition MarshalIEs :: "IE list \<Rightarrow> (gtpv2_error, byte list) outcome" where
  "MarshalIEs ies =
     (if length ies > maxIEsPerScope then Err ErrTooManyIEs_gtpv2
      else andThen (marshal_total ies 0) (\<lambda>total.
        marshal_write (replicate (nat total) 0) 0 ies))"

section \<open>Grouped elements, lookup and rewriting\<close>

text \<open>Values are copied (\<^verbatim>\<open>Clone\<close>) by the code so that no two messages share storage; in the model an
  element is a value.\<close>

definition Clone_IE :: "IE \<Rightarrow> IE" where
  "Clone_IE ie = \<lparr>ie_Type = ie_Type ie, ie_Instance = ie_Instance ie, ie_Value = ie_Value ie\<rparr>"

definition Children_IE :: "IE \<Rightarrow> (gtpv2_error, IE list) outcome" where
  "Children_IE ie =
     (if ie_Type ie \<noteq> IEBearerContext then Err ErrMalformedIE_gtpv2 else parseIEs (ie_Value ie) 1)"

definition NewGroupedIE :: "byte \<Rightarrow> byte \<Rightarrow> IE list \<Rightarrow> (gtpv2_error, IE) outcome" where
  "NewGroupedIE typ inst children =
     (if typ \<noteq> IEBearerContext then Err ErrMalformedIE_gtpv2
      else andThen (MarshalIEs children) (\<lambda>value.
        Ok \<lparr>ie_Type = typ, ie_Instance = inst, ie_Value = value\<rparr>))"

fun FindIE :: "IE list \<Rightarrow> byte \<Rightarrow> byte \<Rightarrow> IE option" where
  "FindIE [] typ inst = None"
| "FindIE (ie # ies) typ inst =
     (if ie_Type ie = typ \<and> ie_Instance ie = inst then Some (Clone_IE ie) else FindIE ies typ inst)"

fun FindAllIEs :: "IE list \<Rightarrow> byte \<Rightarrow> byte \<Rightarrow> IE list" where
  "FindAllIEs [] typ inst = []"
| "FindAllIEs (ie # ies) typ inst =
     (if ie_Type ie = typ \<and> ie_Instance ie = inst then Clone_IE ie # FindAllIEs ies typ inst
      else FindAllIEs ies typ inst)"

fun upsert_loop :: "IE list \<Rightarrow> IE \<Rightarrow> bool \<Rightarrow> IE list \<times> bool" where
  "upsert_loop [] replacement replaced = ([], replaced)"
| "upsert_loop (ie # ies) replacement replaced =
     (if ie_Type ie = ie_Type replacement \<and> ie_Instance ie = ie_Instance replacement
      then if \<not> replaced
        then let (out, r) = upsert_loop ies replacement True in (Clone_IE replacement # out, r)
        else upsert_loop ies replacement replaced
      else let (out, r) = upsert_loop ies replacement replaced in (Clone_IE ie # out, r))"

definition UpsertIE :: "IE list \<Rightarrow> IE \<Rightarrow> IE list" where
  "UpsertIE ies replacement =
     (let (out, replaced) = upsert_loop ies replacement False in
      if \<not> replaced then out @ [Clone_IE replacement] else out)"

fun RemoveIE :: "IE list \<Rightarrow> byte \<Rightarrow> byte \<Rightarrow> IE list" where
  "RemoveIE [] typ inst = []"
| "RemoveIE (ie # ies) typ inst =
     (if ie_Type ie = typ \<and> ie_Instance ie = inst then RemoveIE ies typ inst
      else Clone_IE ie # RemoveIE ies typ inst)"

section \<open>The codec meets its interface\<close>

definition emit_IE :: "IE \<Rightarrow> byte list" where
  "emit_IE ie = ie_Type ie # put16 (of_nat (length (ie_Value ie))) @ ie_Instance ie # ie_Value ie"

definition wf_IE :: "IE \<Rightarrow> bool" where
  "wf_IE ie \<longleftrightarrow> ie_Type ie \<noteq> 0 \<and> ie_Instance ie \<le> 15 \<and> length (ie_Value ie) \<le> 0xffff"

lemma Clone_IE_id [simp]: "Clone_IE ie = ie"
  by (cases ie) (simp add: Clone_IE_def)

lemma IE_eta [simp]: "\<lparr>ie_Type = ie_Type ie, ie_Instance = ie_Instance ie, ie_Value = ie_Value ie\<rparr> = ie"
  by (cases ie) simp

lemma emit_IE_length [simp]: "length (emit_IE ie) = 4 + length (ie_Value ie)"
  by (simp add: emit_IE_def)

lemma nibble_high: "(b AND 0xf0 = 0) = (b \<le> 15)" and nibble_low: "b AND 0xf0 = 0 \<Longrightarrow> b AND 0x0f = b"
  for b :: byte
proof -
  have m: "(0xf0::byte) = NOT (mask 4)" "(0x0f::byte) = mask 4" by (simp_all add: mask_numeral)
  have "(b AND 0xf0 = 0) = (take_bit 4 b = b)"
    unfolding m by (auto simp: bit_eq_iff bit_simps)
  moreover have "b AND 0x0f = take_bit 4 b" unfolding m by (simp add: take_bit_eq_mask)
  ultimately show "(b AND 0xf0 = 0) = (b \<le> 15)" and "b AND 0xf0 = 0 \<Longrightarrow> b AND 0x0f = b"
    by (auto simp: word_take_bit_self_iff word_le_nat_alt)
qed

lemma parseIEs_loop_eval:
  assumes "offset + 4 \<le> length p" "length acc < maxIEsPerScope" "p ! offset \<noteq> 0"
    and "p ! (offset + 3) AND 0xf0 = 0" "n = unat (be16 (p ! (offset + 1)) (p ! (offset + 2)))"
    and "offset + (4 + n) \<le> length p"
  shows "parseIEs_loop p offset acc = parseIEs_loop p (offset + (4 + n))
    (acc @ [\<lparr>ie_Type = p ! offset, ie_Instance = p ! (offset + 3),
             ie_Value = take n (drop (offset + 4) p)\<rparr>])"
  using assms nibble_low[of "p ! (offset + 3)"]
  by (subst parseIEs_loop.simps) (auto simp: read_defs Let_def add.assoc)

lemma parseIEs_loop_step:
  assumes "wf_IE ie" "length acc < maxIEsPerScope"
  shows "parseIEs_loop (pre @ emit_IE ie @ post) (length pre) acc =
    parseIEs_loop (pre @ emit_IE ie @ post) (length pre + length (emit_IE ie)) (acc @ [ie])"
proof -
  let ?p = "pre @ emit_IE ie @ post"
  have nth: "?p ! length pre = ie_Type ie" "?p ! (length pre + 3) = ie_Instance ie"
    "be16 (?p ! (length pre + 1)) (?p ! (length pre + 2)) = of_nat (length (ie_Value ie))"
    by (simp_all add: emit_IE_def nth_append put16_def codec_simps)
  have v: "take (length (ie_Value ie)) (drop (length pre + 4) ?p) = ie_Value ie"
    by (simp add: emit_IE_def put16_def)
  have "parseIEs_loop ?p (length pre) acc = parseIEs_loop ?p (length pre + (4 + length (ie_Value ie)))
      (acc @ [\<lparr>ie_Type = ?p ! length pre, ie_Instance = ?p ! (length pre + 3),
        ie_Value = take (length (ie_Value ie)) (drop (length pre + 4) ?p)\<rparr>])"
    using assms by (intro parseIEs_loop_eval) (simp_all only: nth, auto simp: wf_IE_def nibble_high codec_simps)
  then show ?thesis unfolding nth v by simp
qed

lemma drop_IE:
  assumes "offset + 4 \<le> length p" "n = unat (be16 (p ! (offset + 1)) (p ! (offset + 2)))"
    and "offset + (4 + n) \<le> length p"
  shows "drop offset p = emit_IE \<lparr>ie_Type = p ! offset, ie_Instance = p ! (offset + 3),
      ie_Value = take n (drop (offset + 4) p)\<rparr> @ drop (offset + (4 + n)) p"
proof -
  have "drop offset p = take 4 (drop offset p) @ drop 4 (drop offset p)"
    by (rule append_take_drop_id[symmetric])
  also have "take 4 (drop offset p) = [p ! offset, p ! (offset + 1), p ! (offset + 2), p ! (offset + 3)]"
    using assms(1) by (simp add: take_eq_map_nth upt_rec numeral_eq_Suc)
  also have "drop 4 (drop offset p) = take n (drop (offset + 4) p) @ drop (offset + (4 + n)) p"
    using append_take_drop_id[of n "drop (offset + 4) p"] by (simp add: add.commute add.left_commute)
  finally show ?thesis
    using assms by (simp add: emit_IE_def codec_simps)
qed

lemma parseIEs_loop_cases:
  assumes "offset < length p"
  shows "(\<exists>e. parseIEs_loop p offset acc = Err e) \<or>
    (\<exists>ie post. wf_IE ie \<and> length acc < maxIEsPerScope \<and> drop offset p = emit_IE ie @ post \<and>
      parseIEs_loop p offset acc = parseIEs_loop p (offset + length (emit_IE ie)) (acc @ [ie]))"
proof -
  define n where "n = unat (be16 (p ! (offset + 1)) (p ! (offset + 2)))"
  let ?ie = "\<lparr>ie_Type = p ! offset, ie_Instance = p ! (offset + 3), ie_Value = take n (drop (offset + 4) p)\<rparr>"
  show ?thesis
  proof (cases "offset + 4 \<le> length p \<and> length acc < maxIEsPerScope \<and> p ! offset \<noteq> 0
      \<and> p ! (offset + 3) AND 0xf0 = 0 \<and> offset + (4 + n) \<le> length p")
    case True
    then have "parseIEs_loop p offset acc = parseIEs_loop p (offset + (4 + n)) (acc @ [?ie])"
      by (intro parseIEs_loop_eval) (auto simp: n_def)
    moreover have "n \<le> 0xffff" using unsigned_less[of "be16 (p ! (offset + 1)) (p ! (offset + 2))", where ?'a = nat]
      by (simp add: n_def)
    ultimately show ?thesis
      using True drop_IE[OF _ n_def] nibble_high
      by (intro disjI2 exI[of _ ?ie] exI[of _ "drop (offset + (4 + n)) p"]) (auto simp: wf_IE_def)
  next
    case False
    with assms show ?thesis
      by (intro disjI1, subst parseIEs_loop.simps) (auto simp: read_defs Let_def n_def)
  qed
qed

lemma marshal_total_eq:
  assumes "0 \<le> sz" "sz \<le> 0xffff"
  shows "marshal_total ies sz =
    (if (\<forall>ie\<in>set ies. wf_IE ie) \<and> sz + int (length (concat (map emit_IE ies))) \<le> 0xffff
     then Ok (sz + int (length (concat (map emit_IE ies)))) else Err ErrMalformedIE_gtpv2)"
  using assms by (induction ies arbitrary: sz) (auto simp: wf_IE_def not_less not_le)

lemma put_IE_at:
  assumes "length (emit_IE ie) \<le> length rest"
  shows "put_IE (pre @ rest) (length pre) ie = Ok (pre @ emit_IE ie @ drop (length (emit_IE ie)) rest)"
proof -
  obtain a b c d r where rest: "rest = a # b # c # d # r"
    using assms by (auto simp: Suc_le_length_iff numeral_eq_Suc)
  with assms show ?thesis
    by (simp add: put_IE_def buf_write_def buf_copy_def put16_def emit_IE_def numeral_eq_Suc)
qed

interpretation v2: tlv_codec parseIEs_loop emit_IE wf_IE maxIEsPerScope marshal_write put_IE
  ParseIEs MarshalIEs "0xffff"
proof unfold_locales
  show "emit_IE ie \<noteq> []" for ie by (simp add: emit_IE_def)
  show "length p \<le> off \<Longrightarrow> parseIEs_loop p off acc = Ok acc" for p off acc
    by (simp add: parseIEs_loop.simps)
  show "marshal_write out off (ie # ies) =
      andThen (put_IE out off ie) (\<lambda>out. marshal_write out (off + length (emit_IE ie)) ies)" for out off ie ies
    by simp
  show "ParseIEs p = parseIEs_loop p 0 []" for p
    by (simp add: ParseIEs_def parseIEs_def)
  show "MarshalIEs ies = marshal_write (replicate (length (concat (map emit_IE ies))) 0) 0 ies"
    if "length ies \<le> maxIEsPerScope" "\<forall>ie\<in>set ies. wf_IE ie" "length (concat (map emit_IE ies)) \<le> 0xffff"
    for ies using that by (simp add: MarshalIEs_def marshal_total_eq)
  show "\<exists>e. MarshalIEs ies = Err e"
    if "\<not> (length ies \<le> maxIEsPerScope \<and> (\<forall>ie\<in>set ies. wf_IE ie) \<and> length (concat (map emit_IE ies)) \<le> 0xffff)"
    for ies using that by (auto simp: MarshalIEs_def marshal_total_eq)
qed (use parseIEs_loop_step parseIEs_loop_cases put_IE_at in auto)

section \<open>Lookup after rewriting\<close>

definition same_key :: "byte \<Rightarrow> byte \<Rightarrow> IE \<Rightarrow> bool" where
  "same_key typ inst ie \<longleftrightarrow> ie_Type ie = typ \<and> ie_Instance ie = inst"

lemma FindIE_eq: "FindIE ies typ inst = find (same_key typ inst) ies"
  by (induction ies) (auto simp: same_key_def)

lemma FindAllIEs_eq: "FindAllIEs ies typ inst = filter (same_key typ inst) ies"
  by (induction ies) (auto simp: same_key_def)

lemma RemoveIE_eq: "RemoveIE ies typ inst = filter (\<lambda>ie. \<not> same_key typ inst ie) ies"
  by (induction ies) (auto simp: same_key_def)

lemma find_filter: "find P xs = (case filter P xs of [] \<Rightarrow> None | x # _ \<Rightarrow> Some x)"
  by (induction xs) auto

lemma upsert_loop_replaced:
  "upsert_loop ies r True = (filter (\<lambda>ie. \<not> same_key (ie_Type r) (ie_Instance r) ie) ies, True)"
  by (induction ies) (auto simp: same_key_def)

lemma upsert_loop_filters:
  assumes "upsert_loop ies r False = (out, b)"
  shows "filter (\<lambda>ie. \<not> same_key (ie_Type r) (ie_Instance r) ie) out =
      filter (\<lambda>ie. \<not> same_key (ie_Type r) (ie_Instance r) ie) ies
    \<and> filter (same_key (ie_Type r) (ie_Instance r)) out = (if b then [r] else [])"
  using assms
proof (induction ies arbitrary: out b)
  case (Cons ie ies)
  then show ?case
    by (cases "upsert_loop ies r False")
      (auto simp: upsert_loop_replaced same_key_def comp_def split: if_splits)
qed simp

section \<open>Properties\<close>

text \<open>C32: For lists of information elements decoding and encoding are inverse to each other: a list is
  encoded to exactly those octet strings of at most 65535 octets that decode to it. In particular a
  decoded message is re-encoded octet for octet, unknown elements included, and encoding never
  produces octets the decoder rejects.\<close>

theorem MarshalIEs_iff_ParseIEs: "MarshalIEs ies = Ok bs \<longleftrightarrow> ParseIEs bs = Ok ies \<and> length bs \<le> 0xffff"
  using v2.parse_marshal[of ies bs] v2.marshal_parse[of bs ies] by (auto simp: v2.marshal_Ok_iff)

text \<open>\<^verbatim>\<open>UpsertIE\<close> leaves exactly one element with the replacement's type and instance, the
  replacement itself, whether the key was absent, present once or duplicated; every other element is
  kept, in order.\<close>

theorem UpsertIE_spec:
  "FindAllIEs (UpsertIE ies r) (ie_Type r) (ie_Instance r) = [r]
   \<and> FindIE (UpsertIE ies r) (ie_Type r) (ie_Instance r) = Some r
   \<and> RemoveIE (UpsertIE ies r) (ie_Type r) (ie_Instance r) = RemoveIE ies (ie_Type r) (ie_Instance r)"
proof -
  let ?k = "same_key (ie_Type r) (ie_Instance r)"
  obtain out b where u: "upsert_loop ies r False = (out, b)" by force
  have k_r: "?k r" by (simp add: same_key_def)
  note f = upsert_loop_filters[OF u]
  have all: "filter ?k (UpsertIE ies r) = [r]" using f k_r by (auto simp: UpsertIE_def u)
  then have "find ?k (UpsertIE ies r) = Some r" by (simp add: find_filter)
  moreover have "filter (\<lambda>ie. \<not> ?k ie) (UpsertIE ies r) = filter (\<lambda>ie. \<not> ?k ie) ies"
    using f k_r by (auto simp: UpsertIE_def u)
  ultimately show ?thesis using all by (simp add: FindAllIEs_eq FindIE_eq RemoveIE_eq)
qed

text \<open>A grouped bearer-context element opens to the children it was built from, and building and
  opening groups never panics.\<close>

theorem Children_NewGroupedIE:
  "NewGroupedIE typ inst children \<noteq> Panic \<and> Children_IE ie \<noteq> Panic
   \<and> (NewGroupedIE typ inst children = Ok g \<longrightarrow> Children_IE g = Ok children)"
proof -
  have "Children_IE ie = (if ie_Type ie \<noteq> IEBearerContext then Err ErrMalformedIE_gtpv2
      else ParseIEs (ie_Value ie))" for ie
    by (simp add: Children_IE_def ParseIEs_def parseIEs_def maxGroupedDepth_def)
  then show ?thesis
    using v2.parse_no_panic v2.marshal_no_panic v2.parse_marshal
    by (auto simp: NewGroupedIE_def)
qed

theorem Children_NewGroupedIE_witness:
  "Children_IE \<lparr>ie_Type = 93, ie_Instance = 0, ie_Value = [73, 0, 1, 0, 5]\<rparr>
     = Ok [\<lparr>ie_Type = 73, ie_Instance = 0, ie_Value = [5]\<rparr>]"
proof -
  have "NewGroupedIE 93 0 [\<lparr>ie_Type = 73, ie_Instance = 0, ie_Value = [5]\<rparr>]
      = Ok \<lparr>ie_Type = 93, ie_Instance = 0, ie_Value = [73, 0, 1, 0, 5]\<rparr>"
    by (simp add: NewGroupedIE_def IEBearerContext_def v2.marshal_Ok_iff wf_IE_def emit_IE_def put16_def
        maxIEsPerScope_def)
  then show ?thesis using Children_NewGroupedIE by blast
qed

end
