(* ===== verification/Gtpv2_Message.thy ===== *)
theory Gtpv2_Message
  imports Gtpv2_IE
begin

text \<open>
  Whole GTPv2-C messages (\<^verbatim>\<open>pkg/gtpv2/message.go\<close>): header and information elements together, and the
  loop that splits a datagram into its piggybacked messages.
\<close>

section \<open>Data and operations\<close>

record gtpv2_message =
  msg_Header :: gtpv2_header
  msg_IEs :: "IE list"

definition ParseMessage_gtpv2 :: "byte list \<Rightarrow> (gtpv2_error, gtpv2_message) outcome" where
  "ParseMessage_gtpv2 packet =
     andThen (Parse_gtpv2 packet) (\<lambda>(header, payload).
       if c_Piggybacked header \<or> c_FrameLength header \<noteq> length packet then Err ErrInvalidHeader_gtpv2
       else andThen (ValidateScope_gtpv2 header) (\<lambda>_.
         andThen (ParseIEs payload) (\<lambda>ies. Ok \<lparr>msg_Header = header, msg_IEs = ies\<rparr>)))"

text \<open>The loop of \<^verbatim>\<open>ParseMessages\<close>: the rest of the datagram and the messages decoded so far.\<close>

function parseMessages_loop ::
  "byte list \<Rightarrow> gtpv2_message list \<Rightarrow> (gtpv2_error, gtpv2_message list) outcome" where
  "parseMessages_loop packet messages =
     (if packet = [] then Ok messages
      else andThen (Parse_gtpv2 packet) (\<lambda>(header, payload).
        andThen (ValidateScope_gtpv2 header) (\<lambda>_.
        andThen (ParseIEs payload) (\<lambda>ies.
        let messages = messages @ [\<lparr>msg_Header = header, msg_IEs = ies\<rparr>] in
        andThen (slice packet (c_FrameLength header) (length packet)) (\<lambda>rest.
        if rest \<noteq> [] \<and> \<not> c_Piggybacked header then Err ErrInvalidHeader_gtpv2
        else if rest = [] \<and> c_Piggybacked header then Err ErrInvalidHeader_gtpv2
        else if length messages > 2 then Err ErrInvalidHeader_gtpv2
        else parseMessages_loop rest messages)))))"
  by pat_completeness auto
termination
  by (relation "measure (\<lambda>(packet, messages). length packet)")
    (auto simp: Parse_gtpv2_Ok_iff framed_gtpv2_def start_gtpv2_def header_gtpv2_def slice_def
      split: if_splits)

declare parseMessages_loop.simps [simp del]

definition ParseMessages_gtpv2 :: "byte list \<Rightarrow> (gtpv2_error, gtpv2_message list) outcome" where
  "ParseMessages_gtpv2 packet = parseMessages_loop packet []"

definition MarshalBinary_gtpv2 :: "gtpv2_message \<Rightarrow> (gtpv2_error, byte list) outcome" where
  "MarshalBinary_gtpv2 m =
     andThen (MarshalIEs (msg_IEs m)) (\<lambda>payload. Marshal_gtpv2 (msg_Header m) payload)"

definition Clone_gtpv2 :: "gtpv2_message \<Rightarrow> gtpv2_message" where
  "Clone_gtpv2 m = \<lparr>msg_Header = msg_Header m, msg_IEs = map Clone_IE (msg_IEs m)\<rparr>"

definition Find_gtpv2 :: "gtpv2_message \<Rightarrow> byte \<Rightarrow> byte \<Rightarrow> IE option" where
  "Find_gtpv2 m typ inst = FindIE (msg_IEs m) typ inst"

definition Upsert_gtpv2 :: "gtpv2_message \<Rightarrow> IE \<Rightarrow> gtpv2_message" where
  "Upsert_gtpv2 m ie = m\<lparr>msg_IEs := UpsertIE (msg_IEs m) ie\<rparr>"

definition Remove_gtpv2 :: "gtpv2_message \<Rightarrow> byte \<Rightarrow> byte \<Rightarrow> gtpv2_message" where
  "Remove_gtpv2 m typ inst = m\<lparr>msg_IEs := RemoveIE (msg_IEs m) typ inst\<rparr>"

section \<open>One frame\<close>

definition received_message :: "gtpv2_message \<Rightarrow> nat \<Rightarrow> gtpv2_message" where
  "received_message m n = m\<lparr>msg_Header := received_gtpv2 (msg_Header m) n\<rparr>"

lemma received_message_eq:
  "received_message m n = \<lparr>msg_Header = received_gtpv2 (msg_Header m) n, msg_IEs = msg_IEs m\<rparr>"
  by (simp add: received_message_def)

lemma ValidateScope_received [simp]:
  "ValidateScope_gtpv2 (received_gtpv2 h n) = ValidateScope_gtpv2 h"
  "c_Piggybacked (received_gtpv2 h n) = c_Piggybacked h" "c_FrameLength (received_gtpv2 h n) = n"
  by (simp_all add: ValidateScope_gtpv2_def received_gtpv2_def)

lemma ValidateScope_no_panic: "ValidateScope_gtpv2 h \<noteq> Panic"
  by (simp add: ValidateScope_gtpv2_def)

lemma MarshalBinary_frame:
  assumes "MarshalBinary_gtpv2 m = Ok p"
  shows "\<exists>payload. Parse_gtpv2 (p @ rest) = Ok (received_gtpv2 (msg_Header m) (length p), payload)
    \<and> ParseIEs payload = Ok (msg_IEs m) \<and> p \<noteq> []"
proof -
  from assms obtain payload where 1: "MarshalIEs (msg_IEs m) = Ok payload"
      and 2: "Marshal_gtpv2 (msg_Header m) payload = Ok p"
    by (auto simp: MarshalBinary_gtpv2_def)
  have "Parse_gtpv2 (p @ rest) = Ok (received_gtpv2 (msg_Header m) (length p), payload)"
    using 2 Parse_frame_gtpv2 by (auto simp: Marshal_gtpv2_Ok_iff)
  moreover have "p \<noteq> []" using 2 by (auto simp: Marshal_gtpv2_Ok_iff frame_gtpv2_def Let_def)
  ultimately show ?thesis using 1 v2.parse_marshal by blast
qed

lemma parseMessages_step:
  assumes "MarshalBinary_gtpv2 m = Ok p" "ValidateScope_gtpv2 (msg_Header m) = Ok ()"
    and "c_Piggybacked (msg_Header m) = (rest \<noteq> [])" "length acc < 2"
  shows "parseMessages_loop (p @ rest) acc =
    parseMessages_loop rest (acc @ [received_message m (length p)])"
proof -
  obtain payload where "Parse_gtpv2 (p @ rest) = Ok (received_gtpv2 (msg_Header m) (length p), payload)"
      "ParseIEs payload = Ok (msg_IEs m)" "p \<noteq> []"
    using MarshalBinary_frame[OF assms(1)] by blast
  then show ?thesis
    using assms(2-4)
    by (subst parseMessages_loop.simps) (auto simp: slice_def received_message_eq Let_def)
qed

text \<open>A sequence of messages is chained when every message but the last, and only those, has the
  piggyback flag.\<close>

fun chained :: "gtpv2_message list \<Rightarrow> bool" where
  "chained [] = True"
| "chained (m # ms) = (c_Piggybacked (msg_Header m) = (ms \<noteq> []) \<and> chained ms)"

lemma parseMessages_loop_sound:
  "parseMessages_loop packet acc = Ok ms \<Longrightarrow> length acc \<le> 2 \<Longrightarrow>
     length ms \<le> 2 \<and> (\<exists>new. ms = acc @ new \<and> chained new \<and> (new = []) = (packet = [])
       \<and> (\<Sum>m\<leftarrow>new. c_FrameLength (msg_Header m)) = length packet)"
proof (induction packet acc rule: parseMessages_loop.induct)
  case (1 packet acc)
  show ?case
  proof (cases "packet = []")
    case True
    with 1 show ?thesis by (simp add: parseMessages_loop.simps)
  next
    case False
    then obtain header payload ies rest where st: "Parse_gtpv2 packet = Ok (header, payload)"
        "ValidateScope_gtpv2 header = Ok ()" "ParseIEs payload = Ok ies"
        "(slice packet (c_FrameLength header) (length packet) :: (gtpv2_error, byte list) outcome) = Ok rest"
        "(rest \<noteq> []) = c_Piggybacked header" "length acc < 2"
        "parseMessages_loop rest (acc @ [\<lparr>msg_Header = header, msg_IEs = ies\<rparr>]) = Ok ms"
      using "1.prems" by (auto simp: parseMessages_loop.simps[of packet] Let_def split: if_splits)
    then obtain new where new: "length ms \<le> 2" "ms = (acc @ [\<lparr>msg_Header = header, msg_IEs = ies\<rparr>]) @ new"
        "chained new" "(new = []) = (rest = [])"
        "(\<Sum>m\<leftarrow>new. c_FrameLength (msg_Header m)) = length rest"
      using "1.IH"[OF False st(1) refl st(2,3) refl st(4)] by auto
    have "c_FrameLength header + length rest = length packet"
      using st(4) by (auto simp: slice_def split: if_splits)
    with new st(5) False show ?thesis
      by (intro conjI exI[of _ "\<lparr>msg_Header = header, msg_IEs = ies\<rparr> # new"]) auto
  qed
qed

lemma parseMessages_loop_no_panic: "parseMessages_loop packet acc \<noteq> Panic"
proof (induction packet acc rule: parseMessages_loop.induct)
  case (1 packet acc)
  have "Parse_gtpv2 packet \<noteq> Panic" using Parse_gtpv2_unframed[of packet] Parse_gtpv2_framed[of packet]
    by (cases "framed_gtpv2 packet") auto
  moreover have "c_FrameLength header \<le> length packet" if "Parse_gtpv2 packet = Ok (header, payload)"
    for header payload
    using that by (simp add: Parse_gtpv2_Ok_iff framed_gtpv2_def header_gtpv2_def)
  ultimately show ?case
    using 1 ValidateScope_no_panic v2.parse_no_panic
    by (subst parseMessages_loop.simps) (fastforce simp: Let_def slice_def split: if_splits)
qed

section \<open>Properties\<close>

text \<open>A GTPv2-C message that is encoded and is sent alone is decoded to the same message: same
  information elements in the same order, header as transmitted.\<close>

theorem ParseMessage_MarshalBinary:
  assumes "MarshalBinary_gtpv2 m = Ok p" "ValidateScope_gtpv2 (msg_Header m) = Ok ()"
    and "\<not> c_Piggybacked (msg_Header m)"
  shows "ParseMessage_gtpv2 p = Ok (received_message m (length p))"
proof -
  obtain payload where "Parse_gtpv2 p = Ok (received_gtpv2 (msg_Header m) (length p), payload)"
      "ParseIEs payload = Ok (msg_IEs m)"
    using MarshalBinary_frame[OF assms(1), of "[]"] by auto
  with assms(2,3) show ?thesis by (simp add: ParseMessage_gtpv2_def received_message_eq)
qed

definition sample_message :: gtpv2_message where
  "sample_message = \<lparr>msg_Header = sample_gtpv2,
     msg_IEs = [\<lparr>ie_Type = 3, ie_Instance = 0, ie_Value = [9]\<rparr>]\<rparr>"

lemmas eval_message = MarshalBinary_gtpv2_def sample_message_def v2.marshal_Ok_iff wf_IE_def emit_IE_def
  maxIEsPerScope_def Marshal_gtpv2_Ok_iff sendable_gtpv2_def frame_gtpv2_def sample_gtpv2_def
  flags_gtpv2_def put16_def put24_def put32_def Version_gtpv2_def Let_def

lemma sample_message_wire:
  "MarshalBinary_gtpv2 sample_message =
     Ok [0x4c, 32, 0, 13, 0x0a, 0x0b, 0x0c, 0x0d, 0x12, 0x34, 0x56, 0x50, 3, 0, 1, 0, 9]"
  by (simp add: eval_message)

text \<open>C35: Two messages sent in one datagram, the first with the piggyback flag, are split into exactly
  those two messages.\<close>

theorem ParseMessages_piggybacked:
  assumes "MarshalBinary_gtpv2 m1 = Ok p1" "MarshalBinary_gtpv2 m2 = Ok p2"
    and "ValidateScope_gtpv2 (msg_Header m1) = Ok ()" "ValidateScope_gtpv2 (msg_Header m2) = Ok ()"
    and "c_Piggybacked (msg_Header m1)" "\<not> c_Piggybacked (msg_Header m2)"
  shows "ParseMessages_gtpv2 (p1 @ p2) =
    Ok [received_message m1 (length p1), received_message m2 (length p2)]"
proof -
  have "p2 \<noteq> []" using MarshalBinary_frame[OF assms(2)] by blast
  then have "ParseMessages_gtpv2 (p1 @ p2) =
      parseMessages_loop (p2 @ []) [received_message m1 (length p1)]"
    using assms parseMessages_step[of m1 p1 p2 "[]"] by (simp add: ParseMessages_gtpv2_def)
  also have "\<dots> = parseMessages_loop []
      ([received_message m1 (length p1)] @ [received_message m2 (length p2)])"
    using assms by (intro parseMessages_step) simp_all
  finally show ?thesis by (simp add: parseMessages_loop.simps)
qed

theorem ParseMessages_piggybacked_witness:
  "ParseMessages_gtpv2
     ([0x5c, 32, 0, 13, 0x0a, 0x0b, 0x0c, 0x0d, 0x12, 0x34, 0x56, 0x50, 3, 0, 1, 0, 9]
      @ [0x4c, 32, 0, 13, 0x0a, 0x0b, 0x0c, 0x0d, 0x12, 0x34, 0x56, 0x50, 3, 0, 1, 0, 9])
   = Ok [received_message (sample_message\<lparr>msg_Header := sample_gtpv2\<lparr>c_Piggybacked := True\<rparr>\<rparr>) 17,
         received_message sample_message 17]"
proof -
  let ?m = "sample_message\<lparr>msg_Header := sample_gtpv2\<lparr>c_Piggybacked := True\<rparr>\<rparr>"
  have w: "MarshalBinary_gtpv2 ?m =
     Ok [0x5c, 32, 0, 13, 0x0a, 0x0b, 0x0c, 0x0d, 0x12, 0x34, 0x56, 0x50, 3, 0, 1, 0, 9]"
    by (simp add: eval_message)
  have "ValidateScope_gtpv2 (msg_Header ?m) = Ok ()" "ValidateScope_gtpv2 (msg_Header sample_message) = Ok ()"
      "c_Piggybacked (msg_Header ?m)" "\<not> c_Piggybacked (msg_Header sample_message)"
    by (simp_all add: eval_message ValidateScope_gtpv2_def MessageEchoRequest_def
        MessageEchoResponse_def MessageVersionNotSupported_def)
  from ParseMessages_piggybacked[OF w sample_message_wire this] show ?thesis
    by (simp add: numeral_eq_Suc)
qed

text \<open>Whatever \<^verbatim>\<open>ParseMessages\<close> accepts from the wire is at most two messages whose frames cover
  the datagram exactly, chained by the piggyback flag; on no datagram does it panic or loop.\<close>

theorem ParseMessages_sound:
  "ParseMessages_gtpv2 packet \<noteq> Panic \<and> (ParseMessages_gtpv2 packet = Ok ms \<longrightarrow>
     length ms \<le> 2 \<and> chained ms \<and> (\<Sum>m\<leftarrow>ms. c_FrameLength (msg_Header m)) = length packet)"
  using parseMessages_loop_no_panic parseMessages_loop_sound[of packet "[]" ms]
  by (auto simp: ParseMessages_gtpv2_def)

end
