(* ===== verification/Netip.thy ===== *)
theory Netip
  imports Cups_Prelude "HOL-Library.List_Lexorder" "HOL-Library.Product_Lexorder"
begin

unbundle bit_operations_syntax

text \<open>
  The part of Go's standard package \<^verbatim>\<open>net/netip\<close> the sources use: addresses (the zero address, an IPv4
  address, an IPv6 address as the two 64-bit halves Go stores, with its zone), their octets, IPv4-mapped
  addresses, the order of \<^verbatim>\<open>Addr.Compare\<close> (as an instance of class \<open>linorder\<close>), and IPv4 prefixes.
\<close>

datatype Addr = AddrZero | Addr4 "32 word" | Addr6 "64 word" "64 word" gostring

section \<open>Predicates and conversions\<close>

fun Is4 :: "Addr \<Rightarrow> bool" where
  "Is4 (Addr4 _) = True" | "Is4 _ = False"

fun Is6 :: "Addr \<Rightarrow> bool" where
  "Is6 (Addr6 _ _ _) = True" | "Is6 _ = False"

definition IsValid :: "Addr \<Rightarrow> bool" where
  "IsValid a \<longleftrightarrow> a \<noteq> AddrZero"

fun Is4In6 :: "Addr \<Rightarrow> bool" where
  "Is4In6 (Addr6 hi lo _) = (hi = 0 \<and> drop_bit 32 lo = 0xffff)" | "Is4In6 _ = False"

fun Unmap :: "Addr \<Rightarrow> Addr" where
  "Unmap (Addr6 hi lo z) = (if hi = 0 \<and> drop_bit 32 lo = 0xffff then Addr4 (ucast lo) else Addr6 hi lo z)"
| "Unmap a = a"

text \<open>\<^verbatim>\<open>As4\<close> panics on the zero address and on an IPv6 address that is not IPv4-mapped; \<^verbatim>\<open>As16\<close> drops the
  zone and gives the mapped form of an IPv4 address.\<close>

fun As4 :: "Addr \<Rightarrow> ('e, byte list) outcome" where
  "As4 (Addr4 w) = Ok (put32 w)"
| "As4 (Addr6 hi lo z) = (if Is4In6 (Addr6 hi lo z) then Ok (put32 (ucast lo)) else Panic)"
| "As4 AddrZero = Panic"

fun As16 :: "Addr \<Rightarrow> byte list" where
  "As16 AddrZero = replicate 16 0"
| "As16 (Addr4 w) = replicate 10 0 @ [0xff, 0xff] @ put32 w"
| "As16 (Addr6 hi lo z) = put64 hi @ put64 lo"

definition AddrFrom4 :: "byte list \<Rightarrow> Addr" where
  "AddrFrom4 raw = Addr4 (be32 (raw ! 0) (raw ! 1) (raw ! 2) (raw ! 3))"

definition AddrFrom16 :: "byte list \<Rightarrow> Addr" where
  "AddrFrom16 raw = Addr6 (be_fold (take 8 raw)) (be_fold (drop 8 raw)) []"

definition IsUnspecified :: "Addr \<Rightarrow> bool" where
  "IsUnspecified a \<longleftrightarrow> a = Addr4 0 \<or> a = Addr6 0 0 []"

definition IsMulticast :: "Addr \<Rightarrow> bool" where
  "IsMulticast a = (case Unmap a of Addr4 w \<Rightarrow> drop_bit 28 w = 0xe
     | Addr6 hi _ _ \<Rightarrow> drop_bit 56 hi = 0xff | AddrZero \<Rightarrow> False)"

fun BitLen :: "Addr \<Rightarrow> nat" where
  "BitLen AddrZero = 0" | "BitLen (Addr4 _) = 32" | "BitLen (Addr6 _ _ _) = 128"

lemma Unmap_Is4 [simp]: "Is4 a \<Longrightarrow> Unmap a = a"
  by (cases a) auto

lemma Unmap_idem [simp]: "Unmap (Unmap a) = Unmap a"
  by (cases a) auto

lemma IsValid_Unmap [simp]: "IsValid (Unmap a) = IsValid a"
  by (cases a) (auto simp: IsValid_def)

lemma As4_Is4: "Is4 a \<Longrightarrow> \<exists>w. a = Addr4 w \<and> As4 a = Ok (put32 w)"
  by (cases a) auto

lemma AddrFrom4_put32 [codec_simps]: "AddrFrom4 (put32 w) = Addr4 w"
  by (simp add: AddrFrom4_def put32_def codec_simps)

lemma AddrFrom16_As16 [codec_simps]: "AddrFrom16 (put64 hi @ put64 lo) = Addr6 hi lo []"
  by (simp add: AddrFrom16_def codec_simps)

section \<open>The order of Addr.Compare\<close>

definition addr_key :: "Addr \<Rightarrow> nat \<times> 64 word \<times> 64 word \<times> gostring" where
  "addr_key a = (case a of AddrZero \<Rightarrow> (0, 0, 0, []) | Addr4 w \<Rightarrow> (32, 0, ucast w, [])
     | Addr6 hi lo z \<Rightarrow> (128, hi, lo, z))"

lemma ucast_32_64_inject: "(ucast v :: 64 word) = ucast w \<longleftrightarrow> v = w" for v w :: "32 word"
proof -
  have "ucast (ucast w :: 64 word) = w" for w :: "32 word"
    by (rule bit_word_eqI) (simp add: bit_simps)
  then show ?thesis by metis
qed

lemma addr_key_inject: "addr_key a = addr_key b \<longleftrightarrow> a = b"
  by (cases a; cases b) (auto simp: addr_key_def ucast_32_64_inject)

instantiation Addr :: linorder
begin

definition less_eq_Addr :: "Addr \<Rightarrow> Addr \<Rightarrow> bool" where
  "less_eq_Addr a b \<longleftrightarrow> addr_key a \<le> addr_key b"

definition less_Addr :: "Addr \<Rightarrow> Addr \<Rightarrow> bool" where
  "less_Addr a b \<longleftrightarrow> addr_key a < addr_key b"

instance
  by standard (auto simp: less_eq_Addr_def less_Addr_def addr_key_inject[symmetric] less_le_not_le)

end

section \<open>Prefixes\<close>

text \<open>A prefix is an address (without zone) and a length; \<open>-1\<close> is Go's invalid length.\<close>

record Prefix =
  pfx_Addr :: Addr
  pfx_Bits :: int

definition prefix_IsValid :: "Prefix \<Rightarrow> bool" where
  "prefix_IsValid p \<longleftrightarrow> IsValid (pfx_Addr p) \<and> 0 \<le> pfx_Bits p \<and> pfx_Bits p \<le> int (BitLen (pfx_Addr p))"

text \<open>\<^verbatim>\<open>Masked\<close> and \<^verbatim>\<open>Contains\<close> for IPv4 prefixes; the IPv6 cases are not used by the modelled code.\<close>

definition masked4 :: "nat \<Rightarrow> 32 word \<Rightarrow> 32 word" where
  "masked4 bits w = w AND push_bit (32 - bits) (-1)"

definition contains4 :: "nat \<Rightarrow> 32 word \<Rightarrow> 32 word \<Rightarrow> bool" where
  "contains4 bits p w \<longleftrightarrow> drop_bit (32 - bits) (p XOR w) = 0"

end
