(* ===== verification/Gtpv2_Values.thy ===== *)
theory Gtpv2_Values
  imports Gtpv2_IE Netip
begin

unbundle bit_operations_syntax

text \<open>
  The typed information elements of \<^verbatim>\<open>pkg/gtpv2/ie.go\<close> with a fixed layout: Cause, Recovery, PDN Type, PAA,
  APN-AMBR, F-TEID, EBI, ARP and Bearer QoS. Each constructor \<open>New...\<close> is paired with its accessor.
\<close>

section \<open>Element types and values\<close>

definition IECause :: byte where "IECause = 2"
definition IERecovery :: byte where "IERecovery = 3"
definition IEAMBR :: byte where "IEAMBR = 72"
definition IEEBI :: byte where "IEEBI = 73"
definition IEPAA :: byte where "IEPAA = 79"
definition IEBearerQoS :: byte where "IEBearerQoS = 80"
definition IEFTEID :: byte where "IEFTEID = 87"
definition IEPDNType :: byte where "IEPDNType = 99"
definition IEARP :: byte where "IEARP = 155"

lemmas ie_type_defs = IECause_def IERecovery_def IEAMBR_def IEEBI_def IEPAA_def IEBearerQoS_def
  IEFTEID_def IEPDNType_def IEARP_def

definition PDNTypeIPv4 :: byte where "PDNTypeIPv4 = 1"
definition PDNTypeIPv4v6 :: byte where "PDNTypeIPv4v6 = 3"
definition maxAMBRKbps :: "64 word" where "maxAMBRKbps = 0xffffffff"

record FTEID =
  f_InterfaceType :: byte
  f_TEID :: "32 word"
  f_IPv4 :: Addr
  f_IPv6 :: Addr

record Cause =
  cause_Value :: byte
  cause_PCE :: bool
  cause_BCE :: bool
  cause_CS :: bool

record BearerQoS =
  qos_QCI :: byte
  qos_Priority :: byte
  qos_PreemptionCapable :: bool
  qos_PreemptionVulnerable :: bool
  qos_UplinkMBR :: "64 word"
  qos_DownlinkMBR :: "64 word"
  qos_UplinkGBR :: "64 word"
  qos_DownlinkGBR :: "64 word"

record AllocationRetentionPriority =
  arp_Priority :: byte
  arp_PreemptionCapable :: bool
  arp_PreemptionVulnerable :: bool

section \<open>Cause, Recovery and PDN Type\<close>

definition NewCauseIE :: "byte \<Rightarrow> byte \<Rightarrow> IE" where
  "NewCauseIE value inst = \<lparr>ie_Type = IECause, ie_Instance = inst, ie_Value = [value, 0]\<rparr>"

definition Cause_IE :: "IE \<Rightarrow> (gtpv2_error, Cause) outcome" where
  "Cause_IE ie =
     (if ie_Type ie \<noteq> IECause \<or> length (ie_Value ie) < 2 then Err ErrMalformedIE_gtpv2
      else andThen (byte_at (ie_Value ie) 0) (\<lambda>v. andThen (byte_at (ie_Value ie) 1) (\<lambda>f.
        Ok \<lparr>cause_Value = v, cause_PCE = (f AND 0x04 \<noteq> 0), cause_BCE = (f AND 0x02 \<noteq> 0),
            cause_CS = (f AND 0x01 \<noteq> 0)\<rparr>)))"

definition NewRecoveryIE :: "byte \<Rightarrow> IE" where
  "NewRecoveryIE counter = \<lparr>ie_Type = IERecovery, ie_Instance = 0, ie_Value = [counter]\<rparr>"

definition Recovery_IE :: "IE \<Rightarrow> (gtpv2_error, byte) outcome" where
  "Recovery_IE ie =
     (if ie_Type ie \<noteq> IERecovery \<or> length (ie_Value ie) < 1 then Err ErrMalformedIE_gtpv2
      else byte_at (ie_Value ie) 0)"

definition NewPDNTypeIE :: "byte \<Rightarrow> byte \<Rightarrow> (gtpv2_error, IE) outcome" where
  "NewPDNTypeIE inst pdnType =
     (if inst > 15 \<or> pdnType < PDNTypeIPv4 \<or> pdnType > PDNTypeIPv4v6 then Err ErrMalformedIE_gtpv2
      else Ok \<lparr>ie_Type = IEPDNType, ie_Instance = inst, ie_Value = [pdnType]\<rparr>)"

definition PDNType_IE :: "IE \<Rightarrow> (gtpv2_error, byte) outcome" where
  "PDNType_IE ie =
     (if ie_Type ie \<noteq> IEPDNType \<or> length (ie_Value ie) \<noteq> 1 then Err ErrMalformedIE_gtpv2
      else andThen (byte_at (ie_Value ie) 0) (\<lambda>v.
        if v AND 0xf8 \<noteq> 0 then Err ErrMalformedIE_gtpv2
        else let pdnType = v AND 0x07 in
          if pdnType < PDNTypeIPv4 \<or> pdnType > PDNTypeIPv4v6 then Err ErrMalformedIE_gtpv2
          else Ok pdnType))"

section \<open>PAA and APN-AMBR\<close>

definition NewPAAIPv4IE :: "byte \<Rightarrow> Addr \<Rightarrow> (gtpv2_error, IE) outcome" where
  "NewPAAIPv4IE inst addr =
     (if inst > 15 \<or> \<not> Is4 addr then Err ErrMalformedIE_gtpv2
      else andThen (As4 (Unmap addr)) (\<lambda>raw.
        Ok \<lparr>ie_Type = IEPAA, ie_Instance = inst, ie_Value = PDNTypeIPv4 # raw\<rparr>))"

definition PAAIPv4_IE :: "IE \<Rightarrow> (gtpv2_error, Addr) outcome" where
  "PAAIPv4_IE ie =
     (if ie_Type ie \<noteq> IEPAA \<or> length (ie_Value ie) \<noteq> 5 then Err ErrMalformedIE_gtpv2
      else andThen (byte_at (ie_Value ie) 0) (\<lambda>v.
        if v AND 0xf8 \<noteq> 0 \<or> v AND 0x07 \<noteq> PDNTypeIPv4 then Err ErrMalformedIE_gtpv2
        else andThen (slice (ie_Value ie) 1 5) (\<lambda>raw.
          let addr = AddrFrom4 raw in
          if IsUnspecified addr \<or> IsMulticast addr then Err ErrMalformedIE_gtpv2 else Ok addr)))"

definition NewAMBRIE :: "byte \<Rightarrow> 64 word \<Rightarrow> 64 word \<Rightarrow> (gtpv2_error, IE) outcome" where
  "NewAMBRIE inst uplinkBPS downlinkBPS =
     (if inst > 15 \<or> uplinkBPS = 0 \<or> downlinkBPS = 0 then Err ErrMalformedIE_gtpv2
      else if uplinkBPS mod 1000 \<noteq> 0 \<or> downlinkBPS mod 1000 \<noteq> 0 then Err ErrMalformedIE_gtpv2
      else let uplinkKbps = uplinkBPS div 1000; downlinkKbps = downlinkBPS div 1000 in
        if uplinkKbps > maxAMBRKbps \<or> downlinkKbps > maxAMBRKbps then Err ErrMalformedIE_gtpv2
        else Ok \<lparr>ie_Type = IEAMBR, ie_Instance = inst,
                 ie_Value = put32 (ucast uplinkKbps) @ put32 (ucast downlinkKbps)\<rparr>)"

definition AMBR_IE :: "IE \<Rightarrow> (gtpv2_error, 64 word \<times> 64 word) outcome" where
  "AMBR_IE ie =
     (if ie_Type ie \<noteq> IEAMBR \<or> length (ie_Value ie) \<noteq> 8 then Err ErrMalformedIE_gtpv2
      else andThen (read32 (ie_Value ie) 0) (\<lambda>u. andThen (read32 (ie_Value ie) 4) (\<lambda>d.
        let uplinkBPS = ucast u * 1000; downlinkBPS = ucast d * 1000 in
        if uplinkBPS = 0 \<or> downlinkBPS = 0 then Err ErrMalformedIE_gtpv2
        else Ok (uplinkBPS, downlinkBPS))))"

section \<open>F-TEID\<close>

definition NewFTEIDIE :: "byte \<Rightarrow> FTEID \<Rightarrow> (gtpv2_error, IE) outcome" where
  "NewFTEIDIE inst f =
     (if f_InterfaceType f > 63 \<or> f_TEID f = 0 then Err ErrMalformedIE_gtpv2
      else if IsValid (f_IPv4 f) \<and> \<not> Is4 (f_IPv4 f) then Err ErrMalformedIE_gtpv2
      else if IsValid (f_IPv6 f) \<and> \<not> Is6 (f_IPv6 f) then Err ErrMalformedIE_gtpv2
      else
        let flags = f_InterfaceType f OR (if IsValid (f_IPv4 f) then 0x80 else 0)
              OR (if IsValid (f_IPv6 f) then 0x40 else 0) in
        if flags AND 0xc0 = 0 then Err ErrMalformedIE_gtpv2
        else andThen (if IsValid (f_IPv4 f) then As4 (f_IPv4 f) else Ok []) (\<lambda>v4.
          let v6 = (if IsValid (f_IPv6 f) then As16 (f_IPv6 f) else []) in
          Ok \<lparr>ie_Type = IEFTEID, ie_Instance = inst,
              ie_Value = flags # put32 (f_TEID f) @ v4 @ v6\<rparr>))"

definition FTEID_IE :: "IE \<Rightarrow> (gtpv2_error, FTEID) outcome" where
  "FTEID_IE ie =
     (if ie_Type ie \<noteq> IEFTEID \<or> length (ie_Value ie) < 5 then Err ErrMalformedIE_gtpv2
      else andThen (byte_at (ie_Value ie) 0) (\<lambda>flags.
        if flags AND 0xc0 = 0 then Err ErrMalformedIE_gtpv2
        else
          let has4 = (flags AND 0x80 \<noteq> 0); has6 = (flags AND 0x40 \<noteq> 0);
              need = 5 + (if has4 then 4 else 0) + (if has6 then 16 else 0) in
          if length (ie_Value ie) < need then Err ErrMalformedIE_gtpv2
          else andThen (read32 (ie_Value ie) 1) (\<lambda>teid.
            if teid = 0 then Err ErrMalformedIE_gtpv2
            else
              andThen (if has4 then andThen (slice (ie_Value ie) 5 9) (\<lambda>raw. Ok (AddrFrom4 raw, 9))
                       else Ok (AddrZero, 5)) (\<lambda>(v4, offset).
              andThen (if has6 then andThen (slice (ie_Value ie) offset (offset + 16)) (\<lambda>raw.
                         Ok (AddrFrom16 raw)) else Ok AddrZero) (\<lambda>v6.
              Ok \<lparr>f_InterfaceType = flags AND 0x3f, f_TEID = teid, f_IPv4 = v4, f_IPv6 = v6\<rparr>)))))"

section \<open>EBI, ARP and Bearer QoS\<close>

definition NewEBIIE :: "byte \<Rightarrow> byte \<Rightarrow> (gtpv2_error, IE) outcome" where
  "NewEBIIE ebi inst =
     (if ebi < 5 \<or> ebi > 15 then Err ErrMalformedIE_gtpv2
      else Ok \<lparr>ie_Type = IEEBI, ie_Instance = inst, ie_Value = [ebi AND 0x0f]\<rparr>)"

definition EBIOrZero_IE :: "IE \<Rightarrow> (gtpv2_error, byte) outcome" where
  "EBIOrZero_IE ie =
     (if ie_Type ie \<noteq> IEEBI \<or> length (ie_Value ie) < 1 then Err ErrMalformedIE_gtpv2
      else andThen (byte_at (ie_Value ie) 0) (\<lambda>v.
        let ebi = v AND 0x0f in
        if ebi \<noteq> 0 \<and> ebi < 5 \<or> ebi > 15 then Err ErrMalformedIE_gtpv2 else Ok ebi))"

definition EBI_IE :: "IE \<Rightarrow> (gtpv2_error, byte) outcome" where
  "EBI_IE ie =
     andThen (EBIOrZero_IE ie) (\<lambda>ebi. if ebi < 5 then Err ErrMalformedIE_gtpv2 else Ok ebi)"

definition NewARPIE :: "byte \<Rightarrow> byte \<Rightarrow> bool \<Rightarrow> bool \<Rightarrow> (gtpv2_error, IE) outcome" where
  "NewARPIE inst priority preemptionCapable preemptionVulnerable =
     (if inst > 15 \<or> priority = 0 \<or> priority > 15 then Err ErrMalformedIE_gtpv2
      else
        let value = push_bit 2 priority OR (if preemptionCapable then push_bit 6 1 else 0)
              OR (if preemptionVulnerable then 1 else 0) in
        Ok \<lparr>ie_Type = IEARP, ie_Instance = inst, ie_Value = [value]\<rparr>)"

definition AllocationRetentionPriority_IE :: "IE \<Rightarrow> (gtpv2_error, AllocationRetentionPriority) outcome" where
  "AllocationRetentionPriority_IE ie =
     (if ie_Type ie \<noteq> IEARP \<or> length (ie_Value ie) < 1 then Err ErrMalformedIE_gtpv2
      else andThen (byte_at (ie_Value ie) 0) (\<lambda>v.
        let arp = \<lparr>arp_Priority = drop_bit 2 v AND 0x0f, arp_PreemptionCapable = (v AND push_bit 6 1 \<noteq> 0),
                   arp_PreemptionVulnerable = (v AND 1 \<noteq> 0)\<rparr> in
        if arp_Priority arp = 0 then Err ErrMalformedIE_gtpv2 else Ok arp))"

definition uint40 :: "byte list \<Rightarrow> nat \<Rightarrow> (gtpv2_error, 64 word) outcome" where
  "uint40 value offset = andThen (slice value offset (offset + 5)) (\<lambda>octets. Ok (be_fold octets))"

definition BearerQoSDetails_IE :: "IE \<Rightarrow> (gtpv2_error, BearerQoS) outcome" where
  "BearerQoSDetails_IE ie =
     (if ie_Type ie \<noteq> IEBearerQoS \<or> length (ie_Value ie) < 22 then Err ErrMalformedIE_gtpv2
      else andThen (byte_at (ie_Value ie) 0) (\<lambda>v. andThen (byte_at (ie_Value ie) 1) (\<lambda>qci.
        andThen (uint40 (ie_Value ie) 2) (\<lambda>umbr. andThen (uint40 (ie_Value ie) 7) (\<lambda>dmbr.
        andThen (uint40 (ie_Value ie) 12) (\<lambda>ugbr. andThen (uint40 (ie_Value ie) 17) (\<lambda>dgbr.
        let out = \<lparr>qos_QCI = qci, qos_Priority = drop_bit 2 v AND 0x0f,
                   qos_PreemptionCapable = (v AND 0x40 \<noteq> 0),
                   qos_PreemptionVulnerable = (v AND 0x01 \<noteq> 0),
                   qos_UplinkMBR = umbr * 1000, qos_DownlinkMBR = dmbr * 1000,
                   qos_UplinkGBR = ugbr * 1000, qos_DownlinkGBR = dgbr * 1000\<rparr> in
        if qos_QCI out = 0 \<or> qos_Priority out = 0 then Err ErrMalformedIE_gtpv2 else Ok out)))))))"

definition BearerQoS_IE :: "IE \<Rightarrow> (gtpv2_error, byte \<times> byte) outcome" where
  "BearerQoS_IE ie =
     andThen (BearerQoSDetails_IE ie) (\<lambda>details. Ok (qos_QCI details, qos_Priority details))"

text \<open>The loop over the four rates: the first one that does not fit its 40-bit field is refused.\<close>

fun put_rates :: "64 word list \<Rightarrow> (gtpv2_error, byte list) outcome" where
  "put_rates [] = Ok []"
| "put_rates (rate # rates) =
     (if rate div 1000 > 0xffffffffff then Err ErrMalformedIE_gtpv2
      else andThen (put_rates rates) (\<lambda>rest. Ok (put40 (rate div 1000) @ rest)))"

definition NewBearerQoSIEWithBitrates ::
  "byte \<Rightarrow> byte \<Rightarrow> byte \<Rightarrow> 64 word \<Rightarrow> 64 word \<Rightarrow> 64 word \<Rightarrow> 64 word \<Rightarrow> (gtpv2_error, IE) outcome" where
  "NewBearerQoSIEWithBitrates inst qci priority uplinkMBR downlinkMBR uplinkGBR downlinkGBR =
     (if inst > 15 \<or> qci = 0 \<or> priority = 0 \<or> priority > 15 then Err ErrMalformedIE_gtpv2
      else andThen (put_rates [uplinkMBR, downlinkMBR, uplinkGBR, downlinkGBR]) (\<lambda>rates.
        Ok \<lparr>ie_Type = IEBearerQoS, ie_Instance = inst, ie_Value = [push_bit 2 priority, qci] @ rates\<rparr>))"

definition NewBearerQoSIE :: "byte \<Rightarrow> byte \<Rightarrow> byte \<Rightarrow> (gtpv2_error, IE) outcome" where
  "NewBearerQoSIE inst qci priority = NewBearerQoSIEWithBitrates inst qci priority 0 0 0 0"

section \<open>No accessor panics\<close>

lemma accessors_no_panic:
  "Cause_IE ie \<noteq> Panic" "Recovery_IE ie \<noteq> Panic" "PDNType_IE ie \<noteq> Panic" "PAAIPv4_IE ie \<noteq> Panic"
  "AMBR_IE ie \<noteq> Panic" "EBIOrZero_IE ie \<noteq> Panic" "EBI_IE ie \<noteq> Panic"
  "AllocationRetentionPriority_IE ie \<noteq> Panic"
  by (auto simp: Cause_IE_def Recovery_IE_def PDNType_IE_def PAAIPv4_IE_def AMBR_IE_def EBIOrZero_IE_def
      EBI_IE_def AllocationRetentionPriority_IE_def read_defs Let_def split: if_splits)

lemma BearerQoS_no_panic: "BearerQoSDetails_IE ie \<noteq> Panic"
  by (auto simp: BearerQoSDetails_IE_def uint40_def read_defs Let_def split: if_splits)

lemma FTEID_no_panic: "FTEID_IE ie \<noteq> Panic"
  by (auto simp: FTEID_IE_def read_defs Let_def split: if_splits)

section \<open>Round trips\<close>

lemma FTEID_flags:
  fixes t :: byte
  assumes "t \<le> 63"
  assumes flags_def: "flags = t OR (if a then 0x80 else 0) OR (if b then 0x40 else 0)"
  shows "flags AND 0x3f = t" "bit flags 7 = a" "bit flags 6 = b" "(flags AND 0xc0 = 0) = (\<not> a \<and> \<not> b)"
proof -
  have "unat t < 2 ^ 6" using assms(1) by (simp add: word_le_nat_alt)
  then have t: "\<not> bit t 6" "\<not> bit t 7" "take_bit 6 t = t"
    using word_bit_bound[of t 6 6] word_bit_bound[of t 6 7] word_take_bit_self_iff[of 6 t] by auto
  have m: "(0x3f :: byte) = mask 6" by (simp add: mask_eq_exp_minus_1)
  have hi: "take_bit 6 (0x80 :: byte) = 0" "take_bit 6 (0x40 :: byte) = 0" by (simp_all add: take_bit_eq_mod)
  show "flags AND 0x3f = t"
    unfolding m take_bit_eq_mask[symmetric] flags_def using t hi by (auto simp: take_bit_or)
  show f7: "bit flags 7 = a" and f6: "bit flags 6 = b"
    using t by (auto simp: flags_def bit_simps)
  have "flags AND 0xc0 = (flags AND 0x80) OR (flags AND 0x40)"
    by (simp flip: bit.conj_disj_distrib)
  then show "(flags AND 0xc0 = 0) = (\<not> a \<and> \<not> b)"
    using f6 f7 byte_mask_bit[of flags] by (auto simp: or_eq_0_iff)
qed

definition without_zone :: "Addr \<Rightarrow> Addr" where
  "without_zone a = (case a of Addr6 hi lo _ \<Rightarrow> Addr6 hi lo [] | _ \<Rightarrow> a)"

lemma take_append_put [simp]:
  "take 4 (put32 w @ xs) = put32 w" "take 16 (put64 hi @ put64 lo) = put64 hi @ put64 lo"
  by simp_all

lemma NewFTEIDIE_value:
  assumes "NewFTEIDIE inst f = Ok ie"
  obtains flags where "f_InterfaceType f \<le> 63" "f_TEID f \<noteq> 0" "IsValid (f_IPv4 f) \<or> IsValid (f_IPv6 f)"
    "flags = f_InterfaceType f OR (if IsValid (f_IPv4 f) then 0x80 else 0)
       OR (if IsValid (f_IPv6 f) then 0x40 else 0)"
    "f_IPv4 f = AddrZero \<or> (\<exists>w. f_IPv4 f = Addr4 w)" "f_IPv6 f = AddrZero \<or> (\<exists>hi lo z. f_IPv6 f = Addr6 hi lo z)"
    "ie = \<lparr>ie_Type = IEFTEID, ie_Instance = inst, ie_Value = flags # put32 (f_TEID f) @
       (case f_IPv4 f of Addr4 w \<Rightarrow> put32 w | _ \<Rightarrow> []) @
       (case f_IPv6 f of Addr6 hi lo z \<Rightarrow> put64 hi @ put64 lo | _ \<Rightarrow> [])\<rparr>"
proof -
  have "f_InterfaceType f \<le> 63" using assms by (auto simp: NewFTEIDIE_def not_less split: if_splits)
  note fl = FTEID_flags(4)[OF this refl, of "IsValid (f_IPv4 f)" "IsValid (f_IPv6 f)"]
  show thesis
    using assms fl by (intro that[OF _ _ _ refl])
      (cases "f_IPv4 f"; cases "f_IPv6 f"; auto simp: NewFTEIDIE_def Let_def IsValid_def not_less split: if_splits)+
qed

text \<open>An F-TEID built by NewFTEIDIE is read back by FTEID with the same interface type, TEID and
  addresses (an F-TEID carries no IPv6 zone).\<close>

theorem FTEID_NewFTEIDIE:
  assumes "NewFTEIDIE inst f = Ok ie"
  shows "FTEID_IE ie = Ok (f\<lparr>f_IPv6 := without_zone (f_IPv6 f)\<rparr>) \<and> ie_Type ie = IEFTEID \<and>
    ie_Instance ie = inst"
proof -
  from assms obtain flags where g: "f_InterfaceType f \<le> 63" "f_TEID f \<noteq> 0" "IsValid (f_IPv4 f) \<or> IsValid (f_IPv6 f)"
    and fl: "flags = f_InterfaceType f OR (if IsValid (f_IPv4 f) then 0x80 else 0)
       OR (if IsValid (f_IPv6 f) then 0x40 else 0)"
    and a: "f_IPv4 f = AddrZero \<or> (\<exists>w. f_IPv4 f = Addr4 w)" 
           "f_IPv6 f = AddrZero \<or> (\<exists>hi lo z. f_IPv6 f = Addr6 hi lo z)"
    and ie: "ie = \<lparr>ie_Type = IEFTEID, ie_Instance = inst, ie_Value = flags # put32 (f_TEID f) @
       (case f_IPv4 f of Addr4 w \<Rightarrow> put32 w | _ \<Rightarrow> []) @
       (case f_IPv6 f of Addr6 hi lo z \<Rightarrow> put64 hi @ put64 lo | _ \<Rightarrow> [])\<rparr>"
    by (rule NewFTEIDIE_value)
  have teid: "read32 (flags # put32 (f_TEID f) @ xs) (Suc 0) = (Ok (f_TEID f) :: (gtpv2_error, 32 word) outcome)" for xs
    by (simp add: read32_def put32_def codec_simps)
  note F = FTEID_flags[OF g(1) fl]
  have "FTEID_IE ie = Ok \<lparr>f_InterfaceType = f_InterfaceType f, f_TEID = f_TEID f, f_IPv4 = f_IPv4 f,
      f_IPv6 = without_zone (f_IPv6 f)\<rparr>"
    using a g(2,3) by (elim disjE exE) (simp_all add: ie FTEID_IE_def Let_def F byte_mask_bit IsValid_def
      without_zone_def byte_at_def teid slice_def codec_simps del: take_append)
  then show ?thesis by (cases f) (simp add: ie)
qed

text \<open>Bitrates: an IE of whole kilobits per second gives back the rates in bits per second.\<close>

lemma kbps_roundtrip: "w div 1000 * 1000 = w - w mod 1000" for w :: "64 word"
  by (simp add: minus_mod_eq_div_mult)

lemma ucast32_kbps: "w \<le> maxAMBRKbps \<Longrightarrow> ucast (ucast w :: 32 word) = w" for w :: "64 word"
proof -
  assume "w \<le> maxAMBRKbps"
  then have "unat w < 2 ^ 32" by (simp add: maxAMBRKbps_def word_le_nat_alt)
  then have "bit w n \<Longrightarrow> n < 32" for n by (rule word_bit_bound)
  then show ?thesis by (auto intro!: bit_word_eqI simp: bit_simps)
qed

lemma AMBR_NewAMBRIE:
  assumes "NewAMBRIE inst uplink downlink = Ok ie"
  shows "AMBR_IE ie = Ok (uplink, downlink)"
proof -
  from assms have g: "uplink \<noteq> 0" "downlink \<noteq> 0" "uplink mod 1000 = 0" "downlink mod 1000 = 0"
      "uplink div 1000 \<le> maxAMBRKbps" "downlink div 1000 \<le> maxAMBRKbps"
    and ie: "ie = \<lparr>ie_Type = IEAMBR, ie_Instance = inst,
       ie_Value = put32 (ucast (uplink div 1000)) @ put32 (ucast (downlink div 1000))\<rparr>"
    by (auto simp: NewAMBRIE_def Let_def not_less split: if_splits)
  have r: "read32 (put32 a @ put32 b) 0 = (Ok a :: (gtpv2_error, 32 word) outcome)"
    "read32 (put32 a @ put32 b) 4 = (Ok b :: (gtpv2_error, 32 word) outcome)" for a b
    by (simp_all add: read32_def put32_def codec_simps)
  show ?thesis
    using g by (simp add: ie AMBR_IE_def r ucast32_kbps kbps_roundtrip)
qed

lemma put_rates_Ok_iff:
  "put_rates rs = Ok bs \<longleftrightarrow>
     (\<forall>r \<in> set rs. r div 1000 \<le> 0xffffffffff) \<and> bs = concat (map (\<lambda>r. put40 (r div 1000)) rs)"
  by (induction rs arbitrary: bs) (auto simp: not_less)

lemma arp_octet:
  fixes p :: byte
  assumes "p \<le> 15"
  assumes v: "v = push_bit 2 p OR (if a then push_bit 6 1 else 0) OR (if b then 1 else 0)"
  shows "drop_bit 2 v AND 0x0f = p" "bit v 6 = a" "bit v 0 = b"
proof -
  have m: "(0x0f :: byte) = mask 4" by (simp add: mask_eq_exp_minus_1)
  have "unat p < 2 ^ 4" using assms by (simp add: word_le_nat_alt)
  then have p: "bit p n \<Longrightarrow> n < 4" for n by (rule word_bit_bound)
  have v': "bit v n \<longleftrightarrow> n < 8 \<and> (2 \<le> n \<and> bit p (n - 2) \<or> a \<and> n = 6 \<or> b \<and> n = 0)" for n
    using assms(1) by (cases a; cases b) (auto simp: v bit_or_iff bit_push_bit_iff bit_1_iff
      simp del: push_bit_numeral push_bit_of_1)
  show "drop_bit 2 v AND 0x0f = p"
    unfolding m by (rule bit_word_eqI) (auto simp: bit_simps v' intro: p less_trans[OF p, of _ 6])
  show "bit v 6 = a" "bit v 0 = b"
    using p[of 4] by (auto simp: v')
qed

lemma AllocationRetentionPriority_NewARPIE:
  assumes "NewARPIE inst priority capable vulnerable = Ok ie"
  shows "AllocationRetentionPriority_IE ie =
    Ok \<lparr>arp_Priority = priority, arp_PreemptionCapable = capable, arp_PreemptionVulnerable = vulnerable\<rparr>"
proof -
  from assms obtain v where g: "priority \<noteq> 0" "priority \<le> 15"
    and v: "v = push_bit 2 priority OR (if capable then push_bit 6 1 else 0) OR (if vulnerable then 1 else 0)"
    and ie: "ie = \<lparr>ie_Type = IEARP, ie_Instance = inst, ie_Value = [v]\<rparr>"
    by (auto simp: NewARPIE_def not_less Let_def split: if_splits)
  from arp_octet[OF g(2) v] show ?thesis
    using g byte_mask_bit[of v] by (simp add: ie AllocationRetentionPriority_IE_def byte_at_def)
qed

text \<open>A Bearer QoS IE built from a QCI, a priority and four bitrates is read back with the same QCI and
  priority, pre-emption flags clear, and each rate rounded down to whole kilobits per second.\<close>

theorem BearerQoSDetails_NewBearerQoSIE:
  assumes "NewBearerQoSIEWithBitrates inst qci priority umbr dmbr ugbr dgbr = Ok ie"
  shows "BearerQoSDetails_IE ie =
    Ok \<lparr>qos_QCI = qci, qos_Priority = priority, qos_PreemptionCapable = False,
        qos_PreemptionVulnerable = False, qos_UplinkMBR = umbr - umbr mod 1000,
        qos_DownlinkMBR = dmbr - dmbr mod 1000, qos_UplinkGBR = ugbr - ugbr mod 1000,
        qos_DownlinkGBR = dgbr - dgbr mod 1000\<rparr>"
proof -
  from assms have g: "qci \<noteq> 0" "priority \<noteq> 0" "priority \<le> 15" "umbr div 1000 \<le> 0xffffffffff"
      "dmbr div 1000 \<le> 0xffffffffff" "ugbr div 1000 \<le> 0xffffffffff" "dgbr div 1000 \<le> 0xffffffffff"
    and ie: "ie = \<lparr>ie_Type = IEBearerQoS, ie_Instance = inst, ie_Value = push_bit 2 priority # qci #
       put40 (umbr div 1000) @ put40 (dmbr div 1000) @ put40 (ugbr div 1000) @ put40 (dgbr div 1000)\<rparr>"
    unfolding NewBearerQoSIEWithBitrates_def
    by (auto simp del: put_rates.simps simp: put_rates_Ok_iff not_less split: if_splits)
  have u: "uint40 (x # y # put40 a @ put40 b @ put40 c @ put40 d) 2 = Ok (be_fold (put40 a))"
    "uint40 (x # y # put40 a @ put40 b @ put40 c @ put40 d) 7 = Ok (be_fold (put40 b))"
    "uint40 (x # y # put40 a @ put40 b @ put40 c @ put40 d) 12 = Ok (be_fold (put40 c))"
    "uint40 (x # y # put40 a @ put40 b @ put40 c @ put40 d) 17 = Ok (be_fold (put40 d))" for x y a b c d
    by (simp_all add: uint40_def slice_def)
  show ?thesis
    using g byte_mask_bit[of "push_bit 2 priority"] arp_octet[OF g(3), of _ False False, simplified, OF refl]
    by (simp add: ie BearerQoSDetails_IE_def byte_at_def u Let_def be_fold_put40 kbps_roundtrip)
qed

end
