(* ===== verification/Go_Strings.thy ===== *)
theory Go_Strings
  imports Cups_Prelude
begin

text \<open>
  The functions of Go's package \<^verbatim>\<open>strings\<close> the sources use, for ASCII strings: lower-casing \<^verbatim>\<open>A-Z\<close>,
  case-insensitive comparison, trimming ASCII white space, splitting at dots. For other strings Go consults
  Unicode tables (which, for instance, lower-case the Kelvin sign to \<^verbatim>\<open>k\<close>); the model covers ASCII strings only.
\<close>

definition ascii :: "gostring \<Rightarrow> bool" where
  "ascii s \<longleftrightarrow> list_all (\<lambda>c. c < 0x80) s"

definition to_lower :: "byte \<Rightarrow> byte" where
  "to_lower c = (if 0x41 \<le> c \<and> c \<le> 0x5a then c + 0x20 else c)"

definition ToLower :: "gostring \<Rightarrow> gostring" where
  "ToLower s = map to_lower s"

definition EqualFold :: "gostring \<Rightarrow> gostring \<Rightarrow> bool" where
  "EqualFold s t \<longleftrightarrow> ToLower s = ToLower t"

definition is_space :: "byte \<Rightarrow> bool" where
  "is_space c \<longleftrightarrow> c = 0x20 \<or> 0x09 \<le> c \<and> c \<le> 0x0d"

definition TrimSpace :: "gostring \<Rightarrow> gostring" where
  "TrimSpace s = rev (dropWhile is_space (rev (dropWhile is_space s)))"

definition dot :: byte where "dot = 0x2e"

text \<open>\<^verbatim>\<open>strings.TrimSuffix(s, ".")\<close> removes one trailing dot.\<close>

definition TrimDot :: "gostring \<Rightarrow> gostring" where
  "TrimDot s = (if s \<noteq> [] \<and> last s = dot then butlast s else s)"

text \<open>\<^verbatim>\<open>strings.Split(s, ".")\<close>: one more piece than there are dots.\<close>

fun Split :: "gostring \<Rightarrow> gostring list" where
  "Split [] = [[]]"
| "Split (c # s) = (if c = dot then [] # Split s
     else (case Split s of piece # pieces \<Rightarrow> (c # piece) # pieces | [] \<Rightarrow> [[c]]))"

fun Join :: "gostring list \<Rightarrow> gostring" where
  "Join [] = []"
| "Join [l] = l"
| "Join (l # ls) = l @ dot # Join ls"

end
