(* ===== verification/Gtpv2_Strings.thy ===== *)
theory Gtpv2_Strings
  imports Gtpv2_IE Go_Strings
begin

unbundle bit_operations_syntax

text \<open>
  The two textual information elements of \<^verbatim>\<open>pkg/gtpv2/ie.go\<close>: the IMSI in TBCD and the APN as length-prefixed
  labels. Names are treated with the ASCII string library of \<open>Go_Strings\<close>; the theorems on encoded names
  assume \<open>ascii\<close>, which holds of every decoded name.
\<close>

section \<open>TBCD\<close>

definition IEIMSI :: byte where "IEIMSI = 1"
definition IEAPN :: byte where "IEAPN = 71"

text \<open>The nibbles in the order the two loops visit them; the filler 15 is skipped in the very last place only.\<close>

definition nibbles :: "byte list \<Rightarrow> byte list" where
  "nibbles value = concat (map (\<lambda>octet. [octet AND 0x0f, drop_bit 4 octet]) value)"

fun decodeTBCD_loop :: "nat \<Rightarrow> byte list \<Rightarrow> gostring \<Rightarrow> (gtpv2_error, gostring) outcome" where
  "decodeTBCD_loop maxDigits [] b = Ok b"
| "decodeTBCD_loop maxDigits (nibble # rest) b =
     (if nibble = 0x0f \<and> rest = [] then decodeTBCD_loop maxDigits rest b
      else if nibble > 9 \<or> length b \<ge> maxDigits then Err ErrMalformedIE_gtpv2
      else decodeTBCD_loop maxDigits rest (b @ [0x30 + nibble]))"

definition decodeTBCD :: "byte list \<Rightarrow> nat \<Rightarrow> (gtpv2_error, gostring) outcome" where
  "decodeTBCD value maxDigits =
     andThen (decodeTBCD_loop maxDigits (nibbles value) []) (\<lambda>b.
       if b = [] then Err ErrMalformedIE_gtpv2 else Ok b)"

text \<open>The encoder's loop; \<open>index\<close> counts the digits already consumed, \<open>out\<close> is the zeroed buffer being filled.\<close>

fun encodeTBCD_loop :: "nat \<Rightarrow> gostring \<Rightarrow> byte list \<Rightarrow> (gtpv2_error, byte list) outcome" where
  "encodeTBCD_loop index [] out = Ok out"
| "encodeTBCD_loop index (digit # digits) out =
     (if digit < 0x30 \<or> digit > 0x39 then Err ErrMalformedIE_gtpv2
      else let value = digit - 0x30 in
        andThen (byte_at out (index div 2)) (\<lambda>old.
        andThen (buf_write out (index div 2) [if index mod 2 = 0 then value else old OR push_bit 4 value])
          (encodeTBCD_loop (Suc index) digits)))"

definition encodeTBCD :: "gostring \<Rightarrow> nat \<Rightarrow> (gtpv2_error, byte list) outcome" where
  "encodeTBCD digits maxDigits =
     (if length digits = 0 \<or> length digits > maxDigits then Err ErrMalformedIE_gtpv2
      else andThen (encodeTBCD_loop 0 digits (replicate ((length digits + 1) div 2) 0)) (\<lambda>out.
        if length digits mod 2 = 1 then
          andThen (byte_at out (length out - 1)) (\<lambda>old. buf_write out (length out - 1) [old OR 0xf0])
        else Ok out))"

definition IMSI_IE :: "IE \<Rightarrow> (gtpv2_error, gostring) outcome" where
  "IMSI_IE ie =
     (if ie_Type ie \<noteq> IEIMSI \<or> length (ie_Value ie) = 0 \<or> length (ie_Value ie) > 8 then Err ErrMalformedIE_gtpv2
      else decodeTBCD (ie_Value ie) 15)"

definition NewIMSIIE :: "gostring \<Rightarrow> (gtpv2_error, IE) outcome" where
  "NewIMSIIE imsi = andThen (encodeTBCD imsi 15) (\<lambda>value.
     Ok \<lparr>ie_Type = IEIMSI, ie_Instance = 0, ie_Value = value\<rparr>)"

section \<open>APN labels\<close>

definition apn_char :: "byte \<Rightarrow> bool" where
  "apn_char c \<longleftrightarrow> c = 0x2d \<or> 0x30 \<le> c \<and> c \<le> 0x39 \<or> 0x61 \<le> c \<and> c \<le> 0x7a"

definition apn_char_any :: "byte \<Rightarrow> bool" where
  "apn_char_any c \<longleftrightarrow> c = 0x2d \<or> 0x30 \<le> c \<and> c \<le> 0x39 \<or> 0x41 \<le> c \<and> c \<le> 0x5a \<or> 0x61 \<le> c \<and> c \<le> 0x7a"

text \<open>The decoder's loop on the octets from \<open>offset\<close> on; every round consumes at least the length octet.\<close>

function decodeLabels_loop :: "byte list \<Rightarrow> nat \<Rightarrow> gostring list \<Rightarrow> (gtpv2_error, gostring list) outcome" where
  "decodeLabels_loop value offset labels =
     (if offset < length value then
        andThen (byte_at value offset) (\<lambda>l.
          if unat l = 0 \<or> unat l > 63 \<or> unat l > length value - (offset + 1) then Err ErrMalformedIE_gtpv2
          else andThen (slice value (offset + 1) (offset + 1 + unat l)) (\<lambda>label.
            if \<not> list_all apn_char_any label then Err ErrMalformedIE_gtpv2
            else decodeLabels_loop value (offset + 1 + unat l) (labels @ [ToLower label])))
      else Ok labels)"
  by pat_completeness auto
termination
  by (relation "measure (\<lambda>(value, offset, labels). length value - offset)") auto

declare decodeLabels_loop.simps [simp del]

definition decodeLabels :: "byte list \<Rightarrow> (gtpv2_error, gostring) outcome" where
  "decodeLabels value =
     (if length value = 0 \<or> length value > 100 then Err ErrMalformedIE_gtpv2
      else andThen (decodeLabels_loop value 0 []) (\<lambda>labels. Ok (Join labels)))"

fun encodeLabels_loop :: "gostring list \<Rightarrow> byte list \<Rightarrow> (gtpv2_error, byte list) outcome" where
  "encodeLabels_loop [] out = Ok out"
| "encodeLabels_loop (label # labels) out =
     (if length label = 0 \<or> length label > 63 then Err ErrMalformedIE_gtpv2
      else if \<not> list_all apn_char label then Err ErrMalformedIE_gtpv2
      else encodeLabels_loop labels (out @ [of_nat (length label)] @ label))"

definition encodeLabels :: "gostring \<Rightarrow> (gtpv2_error, byte list) outcome" where
  "encodeLabels name0 =
     (let name = TrimDot (ToLower (TrimSpace name0)) in
      if name = [] \<or> length name > 100 then Err ErrMalformedIE_gtpv2
      else encodeLabels_loop (Split name) [])"

definition APN_IE :: "IE \<Rightarrow> (gtpv2_error, gostring) outcome" where
  "APN_IE ie = (if ie_Type ie \<noteq> IEAPN then Err ErrMalformedIE_gtpv2 else decodeLabels (ie_Value ie))"

definition NewAPNIE :: "gostring \<Rightarrow> (gtpv2_error, IE) outcome" where
  "NewAPNIE apn = andThen (encodeLabels apn) (\<lambda>value.
     Ok \<lparr>ie_Type = IEAPN, ie_Instance = 0, ie_Value = value\<rparr>)"

section \<open>TBCD is a bijection on digit strings\<close>

definition digit :: "byte \<Rightarrow> bool" where
  "digit c \<longleftrightarrow> 0x30 \<le> c \<and> c \<le> 0x39"

text \<open>The reference encoding, two digits at a time.\<close>

fun tbcd :: "gostring \<Rightarrow> byte list" where
  "tbcd [] = []"
| "tbcd [a] = [(a - 0x30) OR 0xf0]"
| "tbcd (a # b # s) = ((a - 0x30) OR push_bit 4 (b - 0x30)) # tbcd s"

fun tbcd_open :: "gostring \<Rightarrow> byte list" where
  "tbcd_open [] = []"
| "tbcd_open [a] = [a - 0x30]"
| "tbcd_open (a # b # s) = ((a - 0x30) OR push_bit 4 (b - 0x30)) # tbcd_open s"

lemma digit_value:
  assumes "digit c"
  shows "unat (c - 0x30) \<le> 9" "c - 0x30 \<le> 9" "0x30 + (c - 0x30) = c"
proof -
  have "0x30 \<le> c" and c: "c \<le> 0x39" using assms by (simp_all add: digit_def)
  then have "unat (c - 0x30) = unat c - 0x30" by (subst unat_sub) simp_all
  then show "unat (c - 0x30) \<le> 9" using c by (simp add: word_le_nat_alt)
  then show "c - 0x30 \<le> 9" by (simp add: word_le_nat_alt)
  show "0x30 + (c - 0x30) = c" by simp
qed

lemma digit_of_nibble: "n \<le> 9 \<Longrightarrow> digit (0x30 + n)"
proof -
  assume n: "n \<le> 9"
  then have "unat (0x30 + n) = 0x30 + unat n"
    by (subst unat_add_lem[THEN iffD1]) (simp_all add: word_le_nat_alt)
  with n show ?thesis by (simp add: digit_def word_le_nat_alt)
qed

lemma nibbles_pack:
  assumes "a \<le> 9" "b \<le> 0x0f"
  shows "(a OR push_bit 4 b) AND 0x0f = a" "drop_bit 4 (a OR push_bit 4 b) = (b :: byte)"
proof -
  have m: "(0x0f :: byte) = mask 4" by (simp add: mask_eq_exp_minus_1)
  have "unat a < 2 ^ 4" "unat b < 2 ^ 4" using assms by (simp_all add: word_le_nat_alt)
  then have ab: "bit a n \<Longrightarrow> n < 4" "bit b n \<Longrightarrow> n < 4" for n by (auto intro: word_bit_bound)
  show "(a OR push_bit 4 b) AND 0x0f = a"
    unfolding m by (rule bit_word_eqI) (auto simp: bit_simps intro: ab)
  have "bit b n \<Longrightarrow> n + 4 < 8" for n using ab(2)[of n] by simp
  moreover have "bit a (4 + n) \<Longrightarrow> False" for n using ab(1)[of "4 + n"] by simp
  ultimately show "drop_bit 4 (a OR push_bit 4 b) = b"
    by (intro bit_word_eqI) (auto simp: bit_simps)
qed

lemma pack_nibbles: "(v AND 0x0f) OR push_bit 4 (drop_bit 4 v) = (v :: byte)"
proof -
  have m: "(0x0f :: byte) = mask 4" by (simp add: mask_eq_exp_minus_1)
  show ?thesis unfolding m
  proof (rule bit_word_eqI)
    fix n
    show "bit ((v AND mask 4) OR push_bit 4 (drop_bit 4 v)) n = bit v n" if "n < LENGTH(8)"
      using that by (cases "n < 4") (auto simp: bit_simps)
  qed
qed

lemma push_bit_filler: "push_bit 4 0x0f = (0xf0 :: byte)"
  by (simp add: push_bit_eq_mult)

lemma half_up: "n \<le> 2 * ((n + 1) div 2)" for n :: nat
  by linarith

lemma encodeTBCD_loop_eq:
  assumes "list_all digit s" "length rest = (length s + 1) div 2" "\<forall>b \<in> set rest. b = 0"
  shows "encodeTBCD_loop (2 * length pre) s (pre @ rest) = Ok (pre @ tbcd_open s)"
  using assms
proof (induction s arbitrary: pre rest rule: tbcd_open.induct)
  case (2 a)
  then obtain r where "rest = [r]" by (cases rest) auto
  with 2 show ?case by (simp add: digit_def not_less byte_at_def buf_write_def nth_append)
next
  case (3 a b s)
  then obtain rest' where rest: "rest = 0 # rest'" by (cases rest) auto
  have "encodeTBCD_loop (2 * length pre) (a # b # s) (pre @ rest) =
      encodeTBCD_loop (2 * length (pre @ [(a - 0x30) OR push_bit 4 (b - 0x30)])) s
        ((pre @ [(a - 0x30) OR push_bit 4 (b - 0x30)]) @ rest')"
    using 3(2) by (auto simp: rest digit_def not_less[symmetric] byte_at_def buf_write_def nth_append Let_def)
  also have "\<dots> = Ok ((pre @ [(a - 0x30) OR push_bit 4 (b - 0x30)]) @ tbcd_open s)"
    using 3(2-4) by (intro 3(1)) (auto simp: rest)
  finally show ?case by simp
qed simp

lemma encodeTBCD_loop_Err:
  "\<not> list_all digit s \<Longrightarrow> index + length s \<le> 2 * length out \<Longrightarrow>
    encodeTBCD_loop index s out = Err ErrMalformedIE_gtpv2"
  by (induction s arbitrary: index out)
    (auto simp: digit_def not_le byte_at_def buf_write_def Let_def)

lemma tbcd_open_eq_Nil [simp]: "tbcd_open s = [] \<longleftrightarrow> s = []" "tbcd s = [] \<longleftrightarrow> s = []"
  by (cases s rule: tbcd_open.cases; simp)+

lemma tbcd_open_filler:
  "s \<noteq> [] \<Longrightarrow> length (tbcd_open s) = (length s + 1) div 2 \<and>
     (if length s mod 2 = 1 then butlast (tbcd_open s) @ [last (tbcd_open s) OR 0xf0] else tbcd_open s) = tbcd s"
  by (induction s rule: tbcd.induct) (auto split: if_splits)

lemma encodeTBCD_eq:
  "encodeTBCD s m = (if s = [] \<or> length s > m \<or> \<not> list_all digit s then Err ErrMalformedIE_gtpv2 else Ok (tbcd s))"
proof (cases "s = [] \<or> length s > m \<or> \<not> list_all digit s")
  case True
  then show ?thesis using encodeTBCD_loop_Err[of s 0 "replicate ((length s + 1) div 2) 0"] half_up[of "length s"]
    by (auto simp: encodeTBCD_def)
next
  case False
  then have "encodeTBCD_loop 0 s (replicate ((length s + 1) div 2) 0) = Ok (tbcd_open s)"
    using encodeTBCD_loop_eq[of s "replicate ((length s + 1) div 2) 0" "[]"] by simp
  moreover have "tbcd_open s \<noteq> []" using False tbcd_open_filler[of s] by (cases "tbcd_open s") auto
  ultimately show ?thesis
    using False tbcd_open_filler[of s]
    by (auto simp: encodeTBCD_def byte_at_def buf_write_def last_conv_nth butlast_conv_take)
qed

lemma nibbles_Cons [simp]: "nibbles (v # vs) = (v AND 0x0f) # drop_bit 4 v # nibbles vs" "nibbles [] = []"
  by (simp_all add: nibbles_def)

lemma nibbles_eq_Nil [simp]: "nibbles vs = [] \<longleftrightarrow> vs = []"
  by (cases vs) auto

lemma decodeTBCD_loop_tbcd:
  "list_all digit s \<Longrightarrow> length b + length s \<le> m \<Longrightarrow>
     decodeTBCD_loop m (nibbles (tbcd s)) b = Ok (b @ s)"
proof (induction s arbitrary: b rule: tbcd.induct)
  case (2 a)
  then show ?case using nibbles_pack[of "a - 0x30" "0x0f"] digit_value[of a]
    by (auto simp: push_bit_filler)
next
  case (3 x y s)
  have "y - 0x30 \<le> 0x0f" using 3(2) digit_value(2)[of y] by (auto intro: order_trans)
  with 3 show ?case
    using nibbles_pack[of "x - 0x30" "y - 0x30"] digit_value[of x] digit_value[of y] by (auto simp: not_less)
qed simp

lemma decodeTBCD_loop_Ok:
  "decodeTBCD_loop m (nibbles vs) b = Ok s \<Longrightarrow>
     \<exists>d. s = b @ d \<and> list_all digit d \<and> tbcd d = vs \<and> (d = [] \<or> length s \<le> m)"
proof (induction vs arbitrary: b)
  case (Cons v vs)
  let ?lo = "0x30 + (v AND 0x0f)" and ?hi = "0x30 + drop_bit 4 v"
  from Cons.prems have lo: "v AND 0x0f \<le> 9" "length b < m"
    by (auto simp: not_less not_le split: if_splits)
  show ?case
  proof (cases "drop_bit 4 v = 0x0f \<and> vs = []")
    case True
    then have "tbcd [?lo] = [v]" using pack_nibbles[of v] push_bit_filler by simp
    then show ?thesis
      using Cons.prems True lo by (intro exI[of _ "[?lo]"]) (auto simp: digit_of_nibble not_less not_le split: if_splits)
  next
    case False
    with Cons.prems have hi: "drop_bit 4 v \<le> 9" "length b + 1 < m"
      and "decodeTBCD_loop m (nibbles vs) (b @ [?lo, ?hi]) = Ok s"
      by (auto simp: not_less not_le split: if_splits)
    from Cons.IH[OF this(3)] obtain d where "s = (b @ [?lo, ?hi]) @ d" "list_all digit d" "tbcd d = vs"
      "d = [] \<or> length s \<le> m" by blast
    then show ?thesis
      using lo hi pack_nibbles[of v] by (intro exI[of _ "?lo # ?hi # d"]) (auto simp: digit_of_nibble)
  qed
qed simp

text \<open>TBCD is one encoding: a digit string is what decodeTBCD reads from an octet string exactly if that
  octet string is what encodeTBCD writes for it, with the same bound on the digits.\<close>

theorem decodeTBCD_iff_encodeTBCD: "decodeTBCD v m = Ok s \<longleftrightarrow> encodeTBCD s m = Ok v"
proof
  assume "decodeTBCD v m = Ok s"
  then have "decodeTBCD_loop m (nibbles v) [] = Ok s" "s \<noteq> []"
    by (auto simp: decodeTBCD_def split: if_splits)
  from decodeTBCD_loop_Ok[OF this(1)] this(2) show "encodeTBCD s m = Ok v"
    by (auto simp: encodeTBCD_eq)
next
  assume "encodeTBCD s m = Ok v"
  then show "decodeTBCD v m = Ok s"
    using decodeTBCD_loop_tbcd[of s "[]" m] by (auto simp: encodeTBCD_eq decodeTBCD_def split: if_splits)
qed

section \<open>APN names\<close>

definition emit_label :: "gostring \<Rightarrow> byte list" where
  "emit_label l = of_nat (length l) # l"

definition wf_label :: "(byte \<Rightarrow> bool) \<Rightarrow> gostring \<Rightarrow> bool" where
  "wf_label P l \<longleftrightarrow> 0 < length l \<and> length l \<le> 63 \<and> list_all P l"

lemma Split_ne [simp]: "Split s \<noteq> []"
  by (induction s) (auto split: list.splits)

lemma Join_Cons: "ls \<noteq> [] \<Longrightarrow> Join (l # ls) = l @ dot # Join ls"
  by (cases ls) auto

lemma Join_Split: "Join (Split s) = s"
proof (induction s)
  case (Cons c s)
  then show ?case
    by (cases "Split s" rule: Join.cases) (auto simp: Join_Cons dest: arg_cong[of _ _ "\<lambda>xs. xs = []"])
qed simp

lemma Split_append: "dot \<notin> set l \<Longrightarrow> Split (l @ dot # s) = l # Split s"
  by (induction l) auto

lemma Split_no_dot: "dot \<notin> set l \<Longrightarrow> Split l = [l]"
  by (induction l) auto

lemma Split_Join: "ls \<noteq> [] \<Longrightarrow> \<forall>l \<in> set ls. dot \<notin> set l \<Longrightarrow> Split (Join ls) = ls"
  by (induction ls rule: Join.induct) (auto simp: Split_no_dot Split_append)

lemma length_Join: "ls \<noteq> [] \<Longrightarrow> length (concat (map emit_label ls)) = Suc (length (Join ls))"
  by (induction ls rule: Join.induct) (auto simp: emit_label_def)

lemma encodeLabels_loop_Ok_iff:
  "encodeLabels_loop ls out = Ok v \<longleftrightarrow>
     (\<forall>l \<in> set ls. wf_label apn_char l) \<and> v = out @ concat (map emit_label ls)"
  by (induction ls arbitrary: out) (auto simp: wf_label_def emit_label_def not_less)

lemma decodeLabels_loop_step:
  assumes "wf_label apn_char_any l"
  shows "decodeLabels_loop (pre @ emit_label l @ post) (length pre) acc =
    decodeLabels_loop (pre @ emit_label l @ post) (length pre + length (emit_label l)) (acc @ [ToLower l])"
proof -
  have "unat (of_nat (length l) :: byte) = length l"
    using assms by (simp add: wf_label_def unat_of_nat take_bit_nat_eq_self_iff)
  then show ?thesis
    using assms by (subst decodeLabels_loop.simps) (auto simp: emit_label_def read_defs wf_label_def nth_append)
qed

lemma decodeLabels_loop_labels:
  assumes "\<forall>l \<in> set ls. wf_label apn_char_any l"
  shows "decodeLabels_loop (pre @ concat (map emit_label ls)) (length pre) acc = Ok (acc @ map ToLower ls)"
  using assms
proof (induction ls arbitrary: pre acc)
  case (Cons l ls)
  then show ?case
    using decodeLabels_loop_step[of l pre "concat (map emit_label ls)" acc]
      Cons.IH[of "pre @ emit_label l" "acc @ [ToLower l]"] by simp
qed (simp add: decodeLabels_loop.simps)

lemma decodeLabels_loop_Ok:
  "decodeLabels_loop v offset acc = Ok out \<Longrightarrow> offset \<le> length v \<Longrightarrow>
     \<exists>ls. drop offset v = concat (map emit_label ls) \<and> (\<forall>l \<in> set ls. wf_label apn_char_any l) \<and>
       out = acc @ map ToLower ls"
proof (induction v offset acc rule: decodeLabels_loop.induct)
  case (1 v offset acc)
  show ?case
  proof (cases "offset < length v")
    case True
    let ?n = "unat (v ! offset)" and ?l = "take (unat (v ! offset)) (drop (offset + 1) v)"
    from 1(2) True have n: "?n \<noteq> 0" "?n \<le> 63" "?n \<le> length v - (offset + 1)" "list_all apn_char_any ?l"
      and rec: "decodeLabels_loop v (offset + 1 + ?n) (acc @ [ToLower ?l]) = Ok out"
      by (auto simp: decodeLabels_loop.simps[of v offset] read_defs not_less not_le split: if_splits)
    have "offset + 1 + ?n \<le> length v" using True n by simp
    with 1(1)[OF True, of "v ! offset" ?l] n rec obtain ls where ls: "drop (offset + 1 + ?n) v = concat (map emit_label ls)"
      "\<forall>l \<in> set ls. wf_label apn_char_any l" "out = (acc @ [ToLower ?l]) @ map ToLower ls"
      using True by (auto simp: read_defs)
    have "drop offset v = v ! offset # ?l @ drop (offset + 1 + ?n) v"
      using True append_take_drop_id[of ?n "drop (offset + 1) v"]
      by (simp add: Cons_nth_drop_Suc[symmetric] add.commute)
    moreover have "emit_label ?l = v ! offset # ?l"
      using True n by (simp add: emit_label_def min_def)
    ultimately show ?thesis
      using ls n True by (intro exI[of _ "?l # ls"]) (simp add: wf_label_def)
  next
    case False
    with 1(2,3) show ?thesis by (intro exI[of _ "[]"]) (auto simp: decodeLabels_loop.simps[of v offset])
  qed
qed

text \<open>Which names are canonical, and what the string library does to them.\<close>

lemma apn_char_facts:
  "apn_char c \<Longrightarrow> to_lower c = c" "apn_char c \<Longrightarrow> apn_char_any c" "apn_char_any c \<Longrightarrow> apn_char (to_lower c)"
  "apn_char c \<Longrightarrow> c \<noteq> dot" "apn_char c \<Longrightarrow> \<not> is_space c" "to_lower dot = dot" "\<not> is_space dot"
proof -
  have up: "0x61 \<le> c + 0x20 \<and> c + 0x20 \<le> 0x7a" if "0x41 \<le> c" "c \<le> 0x5a"
  proof -
    have "unat (c + 0x20) = unat c + 0x20"
      using that by (subst unat_add_lem[THEN iffD1]) (simp_all add: word_le_nat_alt)
    with that show ?thesis by (simp add: word_le_nat_alt)
  qed
  show "apn_char c \<Longrightarrow> to_lower c = c" "apn_char c \<Longrightarrow> apn_char_any c" "apn_char c \<Longrightarrow> c \<noteq> dot"
    "apn_char c \<Longrightarrow> \<not> is_space c" "to_lower dot = dot" "\<not> is_space dot"
    by (auto simp: apn_char_def apn_char_any_def to_lower_def is_space_def dot_def word_le_nat_alt)
  show "apn_char_any c \<Longrightarrow> apn_char (to_lower c)"
    using up by (auto simp: apn_char_def apn_char_any_def to_lower_def)
qed

lemma ToLower_label: "list_all apn_char l \<Longrightarrow> ToLower l = l"
  by (induction l) (auto simp: ToLower_def apn_char_facts)

lemma no_dropWhile: "(\<And>c. c \<in> set s \<Longrightarrow> \<not> P c) \<Longrightarrow> dropWhile P s = s"
  by (cases s) auto

lemma encode_Join:
  assumes ls: "ls \<noteq> []" "\<forall>l \<in> set ls. wf_label apn_char l"
  shows "TrimDot (ToLower (TrimSpace (Join ls))) = Join ls"
proof -
  have chars: "c \<in> set (Join ls) \<Longrightarrow> apn_char c \<or> c = dot" for c
    using ls by (induction ls rule: Join.induct) (auto simp: wf_label_def list_all_iff)
  have last: "Join ls \<noteq> [] \<and> last (Join ls) \<noteq> dot"
    using ls by (induction ls rule: Join.induct) (auto simp: wf_label_def list_all_iff apn_char_facts)
  have "\<not> is_space c" if "c \<in> set (Join ls)" for c
    using chars[OF that] apn_char_facts(5,7) by auto
  then have "dropWhile is_space (Join ls) = Join ls" "dropWhile is_space (rev (Join ls)) = rev (Join ls)"
    by (intro no_dropWhile; simp)+
  then have "TrimSpace (Join ls) = Join ls" by (simp add: TrimSpace_def del: dropWhile_eq_self_iff)
  moreover have "ToLower (Join ls) = Join ls"
    unfolding ToLower_def using chars apn_char_facts by (intro map_idI) auto
  ultimately show ?thesis using last by (simp add: TrimDot_def)
qed


lemma decodeLabels_Ok_iff:
  "decodeLabels v = Ok s \<longleftrightarrow> (\<exists>ls. ls \<noteq> [] \<and> (\<forall>l \<in> set ls. wf_label apn_char_any l) \<and>
     v = concat (map emit_label ls) \<and> length v \<le> 100 \<and> s = Join (map ToLower ls))"
proof
  assume "decodeLabels v = Ok s"
  then obtain ls where "decodeLabels_loop v 0 [] = Ok ls" "v \<noteq> []" "length v \<le> 100" "s = Join ls"
    by (auto simp: decodeLabels_def not_less split: if_splits)
  moreover from decodeLabels_loop_Ok[OF this(1)] obtain ls' where "v = concat (map emit_label ls')"
    "\<forall>l \<in> set ls'. wf_label apn_char_any l" "ls = map ToLower ls'" by auto
  ultimately show "\<exists>ls. ls \<noteq> [] \<and> (\<forall>l \<in> set ls. wf_label apn_char_any l) \<and>
     v = concat (map emit_label ls) \<and> length v \<le> 100 \<and> s = Join (map ToLower ls)"
    by (intro exI[of _ ls']) auto
next
  assume "\<exists>ls. ls \<noteq> [] \<and> (\<forall>l \<in> set ls. wf_label apn_char_any l) \<and>
     v = concat (map emit_label ls) \<and> length v \<le> 100 \<and> s = Join (map ToLower ls)"
  then show "decodeLabels v = Ok s"
    using decodeLabels_loop_labels[where pre = "[]" and acc = "[]"] by (auto simp: decodeLabels_def emit_label_def)
qed

lemma ToLower_emit_label: "length l \<le> 63 \<Longrightarrow> map to_lower (emit_label l) = emit_label (ToLower l)"
proof -
  assume "length l \<le> 63"
  then have "\<not> 0x41 \<le> (of_nat (length l) :: byte)"
    by (simp add: word_le_nat_alt unat_of_nat take_bit_nat_eq_self_iff)
  then show ?thesis by (simp add: emit_label_def ToLower_def to_lower_def)
qed

lemma wf_label_ToLower: "wf_label apn_char_any l \<Longrightarrow> wf_label apn_char (ToLower l)"
  by (auto simp: wf_label_def ToLower_def list_all_iff apn_char_facts)

lemma encodeLabels_Join:
  assumes "ls \<noteq> []" "\<forall>l \<in> set ls. wf_label apn_char l" "length (Join ls) \<le> 100"
  shows "encodeLabels (Join ls) = Ok (concat (map emit_label ls))"
proof -
  have "\<forall>l \<in> set ls. dot \<notin> set l" using assms(2) apn_char_facts(4) by (auto simp: wf_label_def list_all_iff)
  then have "Split (Join ls) = ls" using assms(1) by (intro Split_Join)
  moreover have "Join ls \<noteq> []" using assms(1,2) by (cases ls rule: Join.cases) (auto simp: wf_label_def)
  ultimately show ?thesis
    using assms by (simp add: encodeLabels_def encode_Join encodeLabels_loop_Ok_iff)
qed

text \<open>An access point name read from an APN element is written back as the same octets in lower case.\<close>

theorem encodeLabels_decodeLabels:
  assumes "decodeLabels v = Ok s"
  shows "encodeLabels s = Ok (ToLower v) \<and> ascii s"
proof -
  from assms obtain ls where ls: "ls \<noteq> []" "\<forall>l \<in> set ls. wf_label apn_char_any l"
    "v = concat (map emit_label ls)" "length v \<le> 100" "s = Join (map ToLower ls)"
    by (auto simp: decodeLabels_Ok_iff)
  have low: "map to_lower v = concat (map emit_label (map ToLower ls))"
    using ls(2) by (auto simp: ls(3) map_concat wf_label_def ToLower_emit_label intro!: arg_cong[of _ _ concat])
  have "length s \<le> 100" using length_Join[of "map ToLower ls"] ls(1,4,5) low[THEN arg_cong[of _ _ length]] by simp
  then have "encodeLabels s = Ok (ToLower v)"
    using ls(1,2) wf_label_ToLower by (simp add: encodeLabels_Join ls(5) ToLower_def low)
  moreover have "c < 0x80" if "c \<in> set s" for c
  proof -
    have "apn_char c \<or> c = dot"
      using that ls(1,2) unfolding ls(5)
      by (induction ls rule: Join.induct) (auto simp: wf_label_def list_all_iff ToLower_def apn_char_facts)
    then show ?thesis by (auto simp: apn_char_def dot_def word_le_nat_alt word_less_nat_alt)
  qed
  ultimately show ?thesis by (simp add: ascii_def list_all_iff)
qed

text \<open>An APN element built from an ASCII name is read back as the trimmed name in lower case, provided its
  encoding has at most 100 octets.\<close>

theorem decodeLabels_encodeLabels:
  assumes "ascii name" "encodeLabels name = Ok v" "length v \<le> 100"
  shows "decodeLabels v = Ok (TrimDot (ToLower (TrimSpace name)))"
proof -
  let ?n = "TrimDot (ToLower (TrimSpace name))"
  from assms(2) have ls: "\<forall>l \<in> set (Split ?n). wf_label apn_char l" "v = concat (map emit_label (Split ?n))"
    by (auto simp: encodeLabels_def Let_def encodeLabels_loop_Ok_iff split: if_splits)
  then have "map ToLower (Split ?n) = Split ?n"
    by (auto intro!: map_idI ToLower_label simp: wf_label_def)
  then show ?thesis
    using ls assms(3) apn_char_facts(2) unfolding decodeLabels_Ok_iff
    by (intro exI[of _ "Split ?n"]) (auto simp: Join_Split wf_label_def list_all_iff)
qed

text \<open>The two length limits do not agree: a name of exactly 100 octets is encoded (in 101 octets) and its
  encoding is refused by the decoder.\<close>

theorem encodeLabels_limit:
  assumes "length name = 100" "encodeLabels name = Ok v" "TrimDot (ToLower (TrimSpace name)) = name"
  shows "length v = 101 \<and> decodeLabels v = Err ErrMalformedIE_gtpv2"
proof -
  from assms have "v = concat (map emit_label (Split name))"
    by (auto simp: encodeLabels_def encodeLabels_loop_Ok_iff split: if_splits)
  then have "length v = 101" using length_Join[of "Split name"] by (simp add: Join_Split assms(1))
  then show ?thesis by (simp add: decodeLabels_def)
qed

end
