(* ===== verification/Index_Maps.thy ===== *)
theory Index_Maps
  imports Main
begin

text \<open>
  Maps that index each other. The stores of the program keep a table and one or more maps that lead back into it;
  this theory states when a map is the exact inverse of another and what insertion and deletion keep of that.
\<close>

definition inverse_maps :: "('k \<rightharpoonup> 'v) \<Rightarrow> ('v \<rightharpoonup> 'k) \<Rightarrow> bool" where
  "inverse_maps m m' \<longleftrightarrow> (\<forall>k v. m k = Some v \<longleftrightarrow> m' v = Some k)"

lemma inverse_mapsD: "inverse_maps m m' \<Longrightarrow> m k = Some v \<Longrightarrow> m' v = Some k"
  "inverse_maps m m' \<Longrightarrow> m' v = Some k \<Longrightarrow> m k = Some v"
  by (auto simp: inverse_maps_def)

lemma inverse_maps_empty [simp]: "inverse_maps Map.empty Map.empty"
  by (simp add: inverse_maps_def)

lemma inverse_maps_insert:
  "inverse_maps m m' \<Longrightarrow> m k = None \<Longrightarrow> m' v = None \<Longrightarrow> inverse_maps (m(k \<mapsto> v)) (m'(v \<mapsto> k))"
  unfolding inverse_maps_def by (auto simp: fun_upd_def) (metis option.simps(3))+

lemma inverse_maps_delete:
  "inverse_maps m m' \<Longrightarrow> m k = Some v \<Longrightarrow> inverse_maps (m(k := None)) (m'(v := None))"
  unfolding inverse_maps_def by (auto simp: fun_upd_def) (metis option.inject)+

lemma inverse_maps_inj: "inverse_maps m m' \<Longrightarrow> m k = Some v \<Longrightarrow> m k' = Some v \<Longrightarrow> k = k'"
  unfolding inverse_maps_def by (metis option.inject)

lemma inverse_maps_unique: "inverse_maps m m' \<Longrightarrow> inverse_maps n m' \<Longrightarrow> m = n"
  unfolding inverse_maps_def by (intro ext) (metis not_None_eq)

section \<open>An index of a table\<close>

text \<open>
  \<open>ix\<close> leads from the keys of the entries of table \<open>t\<close> to their identifiers, where an entry \<open>s\<close> has the
  keys \<open>keys s\<close>: it has an entry for exactly the keys that occur, and a key belongs to one identifier only.
\<close>

definition index_ok :: "('s \<Rightarrow> 'k set) \<Rightarrow> ('i \<rightharpoonup> 's) \<Rightarrow> ('k \<rightharpoonup> 'i) \<Rightarrow> bool" where
  "index_ok keys t ix \<longleftrightarrow> (\<forall>k i. ix k = Some i \<longleftrightarrow> (\<exists>s. t i = Some s \<and> k \<in> keys s))"

text \<open>The loops that write and delete index entries for a set of keys.\<close>

definition index_put :: "'k set \<Rightarrow> 'i \<Rightarrow> ('k \<rightharpoonup> 'i) \<Rightarrow> ('k \<rightharpoonup> 'i)" where
  "index_put ks i ix = (\<lambda>k. if k \<in> ks then Some i else ix k)"

definition index_drop :: "'k set \<Rightarrow> ('k \<rightharpoonup> 'i) \<Rightarrow> ('k \<rightharpoonup> 'i)" where
  "index_drop ks ix = (\<lambda>k. if k \<in> ks then None else ix k)"

lemma index_put_singleton: "index_put {k} i ix = ix(k \<mapsto> i)"
  by (auto simp: index_put_def)

lemma index_drop_singleton: "index_drop {k} ix = ix(k := None)"
  by (auto simp: index_drop_def)

lemma index_ok_empty [simp]: "index_ok keys Map.empty Map.empty"
  by (simp add: index_ok_def)

lemma index_okD: "index_ok keys t ix \<Longrightarrow> ix k = Some i \<Longrightarrow> \<exists>s. t i = Some s \<and> k \<in> keys s"
  by (simp add: index_ok_def)

lemma index_okI: "index_ok keys t ix \<Longrightarrow> t i = Some s \<Longrightarrow> k \<in> keys s \<Longrightarrow> ix k = Some i"
  by (auto simp: index_ok_def)

lemma index_ok_unique:
  "index_ok keys t ix \<Longrightarrow> t i = Some s \<Longrightarrow> t j = Some s' \<Longrightarrow> k \<in> keys s \<Longrightarrow> k \<in> keys s' \<Longrightarrow> i = j"
  by (metis index_okI option.inject)

lemma index_ok_insert:
  assumes "index_ok keys t ix" "t i = None" "\<And>k. k \<in> keys s \<Longrightarrow> ix k = None"
  shows "index_ok keys (t(i \<mapsto> s)) (index_put (keys s) i ix)"
  using assms unfolding index_ok_def index_put_def by (auto split: if_splits) (metis option.distinct(1))+

lemma index_ok_delete:
  assumes "index_ok keys t ix" "t i = Some s"
  shows "index_ok keys (t(i := None)) (index_drop (keys s) ix)"
  using assms unfolding index_ok_def index_drop_def by (auto split: if_splits) (metis option.inject)+

lemma index_ok_update:
  assumes "index_ok keys t ix" "t i = Some s" "\<And>k j. k \<in> keys s' \<Longrightarrow> ix k = Some j \<Longrightarrow> j = i"
  shows "index_ok keys (t(i \<mapsto> s')) (index_put (keys s') i (index_drop (keys s) ix))"
proof -
  have "index_drop (keys s) ix k = None" if "k \<in> keys s'" for k
    using assms(3)[OF that] index_okD[OF assms(1), of k] assms(2)
    by (cases "ix k") (fastforce simp: index_drop_def)+
  with index_ok_insert[OF index_ok_delete[OF assms(1,2)], of i s'] show ?thesis by simp
qed

lemma index_ok_update_same:
  assumes "index_ok keys t ix" "t i = Some s" "keys s' = keys s"
  shows "index_ok keys (t(i \<mapsto> s')) ix"
  using assms unfolding index_ok_def by (auto split: if_splits)

lemma index_ok_rebuild: "index_ok keys t ix \<Longrightarrow> index_ok keys t ix' \<Longrightarrow> ix = ix'"
  unfolding index_ok_def by (intro ext) (metis not_None_eq)

end
