(* ===== verification/Ipam.thy ===== *)
theory Ipam
  imports Netip Index_Maps
begin

unbundle bit_operations_syntax

text \<open>
  The IPv4 address pool of the packet gateway control plane, \<^verbatim>\<open>internal/pgwc/ipam/pool.go\<close>: a bitmap of
  occupied offsets, the two lease maps and a roving cursor. Every operation runs under the pool's mutex, so the
  model composes them one after the other; an operation returns its outcome and the pool it leaves behind. The
  bitmap is kept as the slice of 64-bit words the code has, with the index panics.
\<close>

section \<open>State\<close>

text \<open>The errors with a sentinel, and one value for each of the others.\<close>

datatype ipam_error = ErrExhausted_ipam | ErrNotFound_ipam | ErrConflict_ipam
  | PrefixRequired | GatewayOutside | PoolTooLarge | GatewayReserved | NegativeLimit | OwnerRequired

definition maxPoolAddresses :: "64 word" where "maxPoolAddresses = push_bit 24 1"

record Lease =
  lease_Owner :: gostring
  lease_Addr :: Addr

record Pool =
  p_prefix :: Prefix
  p_base :: "32 word"
  p_size :: "32 word"
  p_gateway :: "32 word"
  p_limit :: int
  p_used :: int
  p_cursor :: "32 word"
  p_bitmap :: "64 word list"
  p_byOwner :: "gostring \<rightharpoonup> 32 word"
  p_ownerBy :: "32 word \<rightharpoonup> gostring"

section \<open>Bitmap and addresses\<close>

definition bitmap_marked :: "64 word list \<Rightarrow> 32 word \<Rightarrow> ('e, bool) outcome" where
  "bitmap_marked bm offset =
     (if unat (offset div 64) < length bm
      then Ok (bm ! unat (offset div 64) AND push_bit (unat (offset mod 64)) 1 \<noteq> 0) else Panic)"

definition bitmap_mark :: "64 word list \<Rightarrow> 32 word \<Rightarrow> bool \<Rightarrow> ('e, 64 word list) outcome" where
  "bitmap_mark bm offset value =
     (let i = unat (offset div 64); mask = push_bit (unat (offset mod 64)) 1 in
      if i < length bm then Ok (bm[i := if value then bm ! i OR mask else bm ! i AND NOT mask]) else Panic)"

definition marked :: "Pool \<Rightarrow> 32 word \<Rightarrow> (ipam_error, bool) outcome" where
  "marked p offset = bitmap_marked (p_bitmap p) offset"

definition mark :: "Pool \<Rightarrow> 32 word \<Rightarrow> bool \<Rightarrow> (ipam_error, Pool) outcome" where
  "mark p offset value = andThen (bitmap_mark (p_bitmap p) offset value) (\<lambda>bm. Ok (p\<lparr>p_bitmap := bm\<rparr>))"

definition addr :: "Pool \<Rightarrow> 32 word \<Rightarrow> Addr" where
  "addr p offset = AddrFrom4 (put32 (p_base p + offset))"

definition ipv4Uint32 :: "Addr \<Rightarrow> ('e, 32 word) outcome" where
  "ipv4Uint32 a = andThen (As4 (Unmap a)) (\<lambda>raw. read32 raw 0)"

text \<open>\<^verbatim>\<open>Prefix.Masked\<close> and \<^verbatim>\<open>Prefix.Contains\<close> on the IPv4 prefixes \<open>New\<close> lets through.\<close>

definition Masked :: "Prefix \<Rightarrow> Prefix" where
  "Masked pfx = (case pfx_Addr pfx of Addr4 w \<Rightarrow> pfx\<lparr>pfx_Addr := Addr4 (masked4 (nat (pfx_Bits pfx)) w)\<rparr> | _ \<Rightarrow> pfx)"

definition Contains :: "Prefix \<Rightarrow> Addr \<Rightarrow> bool" where
  "Contains pfx a = (case (pfx_Addr pfx, a) of
     (Addr4 w, Addr4 v) \<Rightarrow> prefix_IsValid pfx \<and> contains4 (nat (pfx_Bits pfx)) w v | _ \<Rightarrow> False)"

section \<open>New\<close>

definition New_pool :: "Prefix \<Rightarrow> Addr \<Rightarrow> int \<Rightarrow> (ipam_error, Pool) outcome" where
  "New_pool prefix0 gateway maxLeases0 =
     (if \<not> prefix_IsValid prefix0 \<or> \<not> Is4 (pfx_Addr prefix0) \<or> pfx_Bits prefix0 < 8 \<or> pfx_Bits prefix0 > 30
      then Err PrefixRequired
      else
        let prefix = Masked \<lparr>pfx_Addr = Unmap (pfx_Addr prefix0), pfx_Bits = pfx_Bits prefix0\<rparr> in
        if \<not> Is4 gateway \<or> \<not> Contains prefix (Unmap gateway) then Err GatewayOutside
        else
          let size64 = push_bit (nat (32 - pfx_Bits prefix)) (1 :: 64 word) in
          if size64 > maxPoolAddresses then Err PoolTooLarge
          else
            let size = ucast size64 :: 32 word in
            andThen (ipv4Uint32 (pfx_Addr prefix)) (\<lambda>base.
            andThen (ipv4Uint32 (Unmap gateway)) (\<lambda>gw.
              let gatewayOffset = gw - base in
              if gatewayOffset = 0 \<or> gatewayOffset = size - 1 then Err GatewayReserved
              else
                let capacity = int (unat size) - 3 in
                if maxLeases0 < 0 then Err NegativeLimit
                else
                  let maxLeases = (if maxLeases0 = 0 \<or> maxLeases0 > capacity then capacity else maxLeases0);
                      p = \<lparr>p_prefix = prefix, p_base = base, p_size = size, p_gateway = gatewayOffset,
                           p_limit = maxLeases, p_used = 0, p_cursor = 1,
                           p_bitmap = replicate (unat ((size + 63) div 64)) 0,
                           p_byOwner = Map.empty, p_ownerBy = Map.empty\<rparr> in
                  andThen (mark p 0 True) (\<lambda>p.
                  andThen (mark p (size - 1) True) (\<lambda>p. mark p gatewayOffset True)))))"

section \<open>Acquire, Release and Find\<close>

text \<open>The cursor after one probe, and the probing loop with the number of rounds left.\<close>

definition advance_cursor :: "Pool \<Rightarrow> Pool" where
  "advance_cursor p =
     (let c = p_cursor p + 1 in p\<lparr>p_cursor := if c \<ge> p_size p - 1 then 1 else c\<rparr>)"

fun acquire_loop :: "nat \<Rightarrow> Pool \<Rightarrow> gostring \<Rightarrow> (ipam_error, Lease) outcome \<times> Pool" where
  "acquire_loop 0 p owner = (Err ErrExhausted_ipam, p)"
| "acquire_loop (Suc rounds) p owner =
     (let offset = p_cursor p; p1 = advance_cursor p in
      case marked p1 offset of
        Panic \<Rightarrow> (Panic, p1)
      | Err e \<Rightarrow> (Err e, p1)
      | Ok True \<Rightarrow> acquire_loop rounds p1 owner
      | Ok False \<Rightarrow>
          (case mark p1 offset True of
             Ok p2 \<Rightarrow>
               let p3 = p2\<lparr>p_byOwner := (p_byOwner p2)(owner \<mapsto> offset),
                           p_ownerBy := (p_ownerBy p2)(offset \<mapsto> owner), p_used := p_used p2 + 1\<rparr> in
               (Ok \<lparr>lease_Owner = owner, lease_Addr = addr p3 offset\<rparr>, p3)
           | Err e \<Rightarrow> (Err e, p1)
           | Panic \<Rightarrow> (Panic, p1)))"

definition Acquire :: "Pool \<Rightarrow> gostring \<Rightarrow> (ipam_error, Lease) outcome \<times> Pool" where
  "Acquire p owner =
     (if owner = [] then (Err OwnerRequired, p)
      else case p_byOwner p owner of
        Some offset \<Rightarrow> (Ok \<lparr>lease_Owner = owner, lease_Addr = addr p offset\<rparr>, p)
      | None \<Rightarrow>
          if p_used p \<ge> p_limit p then (Err ErrExhausted_ipam, p)
          else acquire_loop (unat (p_size p)) p owner)"

definition Release :: "Pool \<Rightarrow> gostring \<Rightarrow> Addr \<Rightarrow> (ipam_error, unit) outcome \<times> Pool" where
  "Release p owner a =
     (if owner = [] \<or> \<not> Is4 a then (Err ErrNotFound_ipam, p)
      else case p_byOwner p owner of
        None \<Rightarrow> (Err ErrNotFound_ipam, p)
      | Some offset \<Rightarrow>
          if addr p offset \<noteq> Unmap a then (Err ErrNotFound_ipam, p)
          else
            let p1 = p\<lparr>p_byOwner := (p_byOwner p)(owner := None), p_ownerBy := (p_ownerBy p)(offset := None)\<rparr> in
            (case mark p1 offset False of
               Ok p2 \<Rightarrow>
                 let p3 = p2\<lparr>p_used := p_used p2 - 1\<rparr> in
                 (Ok (), if offset < p_cursor p3 then p3\<lparr>p_cursor := offset\<rparr> else p3)
             | Err e \<Rightarrow> (Err e, p1)
             | Panic \<Rightarrow> (Panic, p1)))"

definition Find_lease :: "Pool \<Rightarrow> gostring \<Rightarrow> Lease option" where
  "Find_lease p owner =
     (case p_byOwner p owner of None \<Rightarrow> None
      | Some offset \<Rightarrow> Some \<lparr>lease_Owner = owner, lease_Addr = addr p offset\<rparr>)"

section \<open>Snapshot and Restore\<close>

text \<open>The loop \<^verbatim>\<open>for offset := 1; offset < p.size-1; offset++\<close>.\<close>

definition offsets :: "Pool \<Rightarrow> 32 word list" where
  "offsets p = map of_nat [1..<unat (p_size p - 1)]"

definition Snapshot_pool :: "Pool \<Rightarrow> Lease list" where
  "Snapshot_pool p = concat (map (\<lambda>offset. case p_ownerBy p offset of None \<Rightarrow> []
     | Some owner \<Rightarrow> [\<lparr>lease_Owner = owner, lease_Addr = addr p offset\<rparr>]) (offsets p))"

record restore_state =
  r_bitmap :: "64 word list"
  r_byOwner :: "gostring \<rightharpoonup> 32 word"
  r_ownerBy :: "32 word \<rightharpoonup> gostring"

fun restore_loop :: "Pool \<Rightarrow> Lease list \<Rightarrow> restore_state \<Rightarrow> (ipam_error, restore_state) outcome" where
  "restore_loop p [] r = Ok r"
| "restore_loop p (lease # leases) r =
     (let address = Unmap (lease_Addr lease) in
      if lease_Owner lease = [] \<or> \<not> Is4 address \<or> \<not> Contains (p_prefix p) address then Err ErrConflict_ipam
      else andThen (ipv4Uint32 address) (\<lambda>raw.
        let offset = raw - p_base p in
        if offset \<ge> p_size p then Err ErrConflict_ipam
        else andThen (bitmap_marked (r_bitmap r) offset) (\<lambda>taken.
          if taken then Err ErrConflict_ipam
          else if r_byOwner r (lease_Owner lease) \<noteq> None then Err ErrConflict_ipam
          else andThen (bitmap_mark (r_bitmap r) offset True) (\<lambda>bm.
            restore_loop p leases
              \<lparr>r_bitmap = bm, r_byOwner = (r_byOwner r)(lease_Owner lease \<mapsto> offset),
               r_ownerBy = (r_ownerBy r)(offset \<mapsto> lease_Owner lease)\<rparr>))))"

text \<open>The loop \<^verbatim>\<open>for cursor < p.size-1 && marked(cursor)\<close>; it stops at the last offset at the latest.\<close>

lemma unat_add_1_less: "c < s \<Longrightarrow> unat (c + 1) = Suc (unat c)" for c s :: "'a::len word"
  by (metis add.commute not_less_iff_gr_or_eq unatSuc word_n1_ge word_order.extremum_strict
      add_eq_0_iff minus_minus less_le_not_le)

function restore_cursor :: "Pool \<Rightarrow> 64 word list \<Rightarrow> 32 word \<Rightarrow> (ipam_error, 32 word) outcome" where
  "restore_cursor p bm cursor =
     (if cursor < p_size p - 1
      then andThen (bitmap_marked bm cursor) (\<lambda>taken.
        if taken then restore_cursor p bm (cursor + 1) else Ok cursor)
      else Ok cursor)"
  by pat_completeness auto
termination
  by (relation "measure (\<lambda>(p, bm, cursor). unat (p_size p - 1) - unat cursor)")
    (auto simp: unat_add_1_less word_less_nat_alt)

declare restore_cursor.simps [simp del]

definition map_len :: "('k \<rightharpoonup> 'v) \<Rightarrow> nat" where
  "map_len m = card (dom m)"

definition Restore_pool :: "Pool \<Rightarrow> Lease list \<Rightarrow> (ipam_error, unit) outcome \<times> Pool" where
  "Restore_pool p leases =
     (if p_used p \<noteq> 0 \<or> map_len (p_byOwner p) \<noteq> 0 \<or> map_len (p_ownerBy p) \<noteq> 0 then (Err ErrConflict_ipam, p)
      else if int (length leases) > p_limit p then (Err ErrExhausted_ipam, p)
      else
        case (andThen (bitmap_mark (replicate (length (p_bitmap p)) 0) 0 True) (\<lambda>bm.
              andThen (bitmap_mark bm (p_size p - 1) True) (\<lambda>bm.
              andThen (bitmap_mark bm (p_gateway p) True) (\<lambda>bm.
              andThen (restore_loop p leases \<lparr>r_bitmap = bm, r_byOwner = Map.empty, r_ownerBy = Map.empty\<rparr>) (\<lambda>r.
              andThen (restore_cursor p (r_bitmap r) 1) (\<lambda>c.
                Ok (r, if c \<ge> p_size p - 1 then 1 else c))))))) of
          Ok (r, cursor) \<Rightarrow>
            (Ok (), p\<lparr>p_bitmap := r_bitmap r, p_byOwner := r_byOwner r, p_ownerBy := r_ownerBy r,
                     p_used := int (length leases), p_cursor := cursor\<rparr>)
        | Err e \<Rightarrow> (Err e, p)
        | Panic \<Rightarrow> (Panic, p))"

definition Capacity_pool :: "Pool \<Rightarrow> int" where "Capacity_pool p = p_limit p"
definition Used_pool :: "Pool \<Rightarrow> int" where "Used_pool p = p_used p"

section \<open>The bitmap as a set of offsets\<close>

definition occ :: "64 word list \<Rightarrow> nat \<Rightarrow> bool" where
  "occ bm n \<longleftrightarrow> bit (bm ! (n div 64)) (n mod 64)"

lemma unat_div_mod_64 [simp]: "unat (off div 64) = unat off div 64" "unat (off mod 64) = unat off mod 64"
  for off :: "32 word"
  by (simp_all add: unat_div unat_mod)

lemma bitmap_marked_eq:
  "unat off < 64 * length bm \<Longrightarrow> bitmap_marked bm off = Ok (occ bm (unat off))"
  by (auto simp: bitmap_marked_def and_exp_eq_0_iff_not_bit occ_def less_mult_imp_div_less mult.commute)

lemma bitmap_mark_Ok:
  assumes "unat off < 64 * length bm"
  obtains bm' where "bitmap_mark bm off v = Ok bm'" "length bm' = length bm"
    "\<And>n. n < 64 * length bm \<Longrightarrow> occ bm' n = (if n = unat off then v else occ bm n)"
proof
  let ?i = "unat off div 64" and ?m = "push_bit (unat off mod 64) 1 :: 64 word"
  let ?bm = "bm[?i := if v then bm ! ?i OR ?m else bm ! ?i AND NOT ?m]"
  have i: "?i < length bm" using assms by (simp add: less_mult_imp_div_less mult.commute)
  then show "bitmap_mark bm off v = Ok ?bm" by (simp add: bitmap_mark_def Let_def)
  fix n
  assume "n < 64 * length bm"
  then have n: "n div 64 < length bm" "n mod 64 < 64" by (simp_all add: less_mult_imp_div_less mult.commute)
  have "n = unat off \<longleftrightarrow> n div 64 = ?i \<and> n mod 64 = unat off mod 64"
    by (metis div_mod_decomp)
  then show "occ ?bm n = (if n = unat off then v else occ bm n)"
    using i n by (auto simp: occ_def nth_list_update bit_simps)
qed simp

section \<open>Offsets and addresses\<close>

lemma contains4_offset:
  assumes "k < 32" "take_bit k b = 0"
  shows "contains4 (32 - k) b v \<longleftrightarrow> unat (v - b) < 2 ^ k"
proof -
  have xor0: "x XOR y = 0 \<longleftrightarrow> x = y" for x y :: "32 word"
    by (metis xor.assoc xor.left_neutral xor_self_eq xor.right_neutral)
  have "contains4 (32 - k) b v \<longleftrightarrow> drop_bit k v = drop_bit k b"
    using assms(1) xor0[of "drop_bit k b" "drop_bit k v"] by (auto simp: contains4_def)
  also have "\<dots> \<longleftrightarrow> unat (v - b) < 2 ^ k"
  proof
    assume eq: "drop_bit k v = drop_bit k b"
    have b: "push_bit k (drop_bit k b) = b" using bits_ident[of k b] assms(2) by simp
    have "b + take_bit k v = v" using bits_ident[of k v] unfolding eq b .
    then have "v - b = take_bit k v" by (metis add_diff_cancel_left')
    then show "unat (v - b) < 2 ^ k" using word_take_bit_self_iff[of k "v - b"] by simp
  next
    assume "unat (v - b) < 2 ^ k"
    then have hi: "bit (v - b) n \<Longrightarrow> n < k" for n by (rule word_bit_bound)
    have lo: "n < k \<Longrightarrow> \<not> bit b n" for n
      using arg_cong[OF assms(2), of "\<lambda>w. bit w n"] by (simp add: bit_take_bit_iff)
    have dis: "b AND (v - b) = 0"
      using hi lo by (auto intro!: bit_word_eqI simp: bit_and_iff)
    have "v = b OR (v - b)" using disjunctive_add_eq_or[OF dis] by simp
    then have "drop_bit k v = drop_bit k b OR drop_bit k (v - b)" by (metis drop_bit_or)
    moreover have "drop_bit k (v - b) = 0"
    proof (rule bit_word_eqI)
      show "bit (drop_bit k (v - b)) n = bit 0 n" for n using hi[of "k + n"] by (auto simp: bit_drop_bit_eq)
    qed
    ultimately show "drop_bit k v = drop_bit k b" by simp
  qed
  finally show ?thesis .
qed


section \<open>The pool invariant\<close>

definition pool_config :: "Pool \<Rightarrow> bool" where
  "pool_config p \<longleftrightarrow> (\<exists>k. 2 \<le> k \<and> k \<le> 24 \<and> unat (p_size p) = 2 ^ k \<and> take_bit k (p_base p) = 0 \<and>
     p_prefix p = \<lparr>pfx_Addr = Addr4 (p_base p), pfx_Bits = 32 - int k\<rparr>) \<and>
   0 < unat (p_gateway p) \<and> unat (p_gateway p) < unat (p_size p) - 1 \<and>
   0 < p_limit p \<and> p_limit p \<le> int (unat (p_size p)) - 3 \<and>
   length (p_bitmap p) = (unat (p_size p) + 63) div 64"

text \<open>The offsets that can be leased.\<close>

definition leasable :: "Pool \<Rightarrow> nat set" where
  "leasable p = {1..<unat (p_size p) - 1} - {unat (p_gateway p)}"

definition pool_inv :: "Pool \<Rightarrow> bool" where
  "pool_inv p \<longleftrightarrow> pool_config p \<and>
     1 \<le> unat (p_cursor p) \<and> unat (p_cursor p) < unat (p_size p) - 1 \<and>
     p_used p = int (card (dom (p_ownerBy p))) \<and> p_used p \<le> p_limit p \<and>
     (\<forall>n < unat (p_size p). occ (p_bitmap p) n \<longleftrightarrow> n \<notin> leasable p \<or> of_nat n \<in> dom (p_ownerBy p)) \<and>
     inverse_maps (p_byOwner p) (p_ownerBy p) \<and>
     [] \<notin> dom (p_byOwner p) \<and> unat ` dom (p_ownerBy p) \<subseteq> leasable p"

lemma pool_configD:
  assumes "pool_config p"
  obtains k where "2 \<le> k" "k \<le> 24" "unat (p_size p) = 2 ^ k" "take_bit k (p_base p) = 0"
     "p_prefix p = \<lparr>pfx_Addr = Addr4 (p_base p), pfx_Bits = 32 - int k\<rparr>"
  using assms by (auto simp: pool_config_def)

lemma pool_config_size:
  assumes "pool_config p"
  shows "4 \<le> unat (p_size p)" "unat (p_size p - 1) = unat (p_size p) - 1"
    "unat (p_size p) \<le> 64 * length (p_bitmap p)" "unat (p_size p) \<le> 2 ^ 24"
proof -
  from assms obtain k where k: "2 \<le> k" "k \<le> 24" "unat (p_size p) = 2 ^ k" by (rule pool_configD)
  have "(2::nat) ^ 2 \<le> 2 ^ k" using k(1) by (rule power_increasing) simp
  then show s: "4 \<le> unat (p_size p)" by (simp add: k(3))
  have "(2::nat) ^ k \<le> 2 ^ 24" using k(2) by (rule power_increasing) simp
  then show "unat (p_size p) \<le> 2 ^ 24" by (simp add: k(3))
  show "unat (p_size p - 1) = unat (p_size p) - 1"
    using s by (subst unat_sub) (simp_all add: word_le_nat_alt)
  have "length (p_bitmap p) = (unat (p_size p) + 63) div 64" using assms by (simp add: pool_config_def)
  then show "unat (p_size p) \<le> 64 * length (p_bitmap p)" by presburger
qed

lemma offset_of_nat:
  assumes "pool_config p" "n < unat (p_size p)"
  shows "unat (of_nat n :: 32 word) = n"
  using assms pool_config_size(4)[of p] by (simp add: unat_of_nat take_bit_nat_eq_self_iff)

lemma card_leasable: "pool_config p \<Longrightarrow> int (card (leasable p)) = int (unat (p_size p)) - 3"
proof -
  assume c: "pool_config p"
  have g: "unat (p_gateway p) \<in> {1..<unat (p_size p) - 1}" using c by (auto simp: pool_config_def)
  have "card (leasable p) = card {1..<unat (p_size p) - 1} - 1"
    unfolding leasable_def by (rule card_Diff_singleton[OF g])
  then show ?thesis using pool_config_size(1)[OF c] by simp
qed

lemma Contains_offset:
  assumes "pool_config p"
  shows "Contains (p_prefix p) (Addr4 v) \<longleftrightarrow> unat (v - p_base p) < unat (p_size p)"
proof -
  from assms obtain k where k: "2 \<le> k" "k \<le> 24" "unat (p_size p) = 2 ^ k" "take_bit k (p_base p) = 0"
     "p_prefix p = \<lparr>pfx_Addr = Addr4 (p_base p), pfx_Bits = 32 - int k\<rparr>" by (rule pool_configD)
  have "nat (32 - int k) = 32 - k" by simp
  with k contains4_offset[of k "p_base p" v] show ?thesis
    by (auto simp: Contains_def prefix_IsValid_def IsValid_def)
qed

lemma addr_eq [simp]: "addr p off = Addr4 (p_base p + off)"
  by (simp add: addr_def codec_simps)

lemma ipv4Uint32_Addr4 [simp]: "ipv4Uint32 (Addr4 v) = Ok v"
  by (simp add: ipv4Uint32_def read32_def put32_def codec_simps)

section \<open>Acquire finds a free address\<close>

text \<open>How many probes it takes from the cursor to reach an offset.\<close>

definition probes :: "Pool \<Rightarrow> nat \<Rightarrow> nat" where
  "probes p x = (if unat (p_cursor p) \<le> x then x - unat (p_cursor p)
     else unat (p_size p) - 2 - unat (p_cursor p) + x)"

lemma advance_cursor_eq:
  assumes "pool_config p" "1 \<le> unat (p_cursor p)" "unat (p_cursor p) < unat (p_size p) - 1"
  obtains c where "advance_cursor p = p\<lparr>p_cursor := c\<rparr>" "1 \<le> unat c" "unat c < unat (p_size p) - 1"
    "\<And>x. 1 \<le> x \<Longrightarrow> x < unat (p_size p) - 1 \<Longrightarrow> x \<noteq> unat (p_cursor p) \<Longrightarrow>
       probes p x = Suc (probes (p\<lparr>p_cursor := c\<rparr>) x)"
proof -
  note sz = pool_config_size[OF assms(1)]
  have "unat (p_cursor p + 1) = Suc (unat (p_cursor p))"
    using assms(3) unat_add_1_less[of "p_cursor p" "p_size p"] by (simp add: word_less_nat_alt)
  then show thesis
    using assms sz by (intro that[of "if p_cursor p + 1 \<ge> p_size p - 1 then 1 else p_cursor p + 1"])
      (auto simp: advance_cursor_def Let_def word_le_nat_alt probes_def)
qed

lemma acquire_loop_finds:
  assumes "pool_config p" "1 \<le> unat (p_cursor p)" "unat (p_cursor p) < unat (p_size p) - 1"
    and "1 \<le> x" "x < unat (p_size p) - 1" "\<not> occ (p_bitmap p) x" "probes p x < rounds"
  shows "\<exists>off c bm. acquire_loop rounds p owner =
      (Ok \<lparr>lease_Owner = owner, lease_Addr = addr p off\<rparr>,
       p\<lparr>p_cursor := c, p_bitmap := bm, p_byOwner := (p_byOwner p)(owner \<mapsto> off),
         p_ownerBy := (p_ownerBy p)(off \<mapsto> owner), p_used := p_used p + 1\<rparr>) \<and>
      1 \<le> unat c \<and> unat c < unat (p_size p) - 1 \<and> 1 \<le> unat off \<and> unat off < unat (p_size p) - 1 \<and>
      \<not> occ (p_bitmap p) (unat off) \<and> bitmap_mark (p_bitmap p) off True = (Ok bm :: (ipam_error, 64 word list) outcome)"
  using assms
proof (induction rounds arbitrary: p)
  case (Suc rounds)
  note sz = pool_config_size[OF Suc.prems(1)]
  obtain c where c: "advance_cursor p = p\<lparr>p_cursor := c\<rparr>" "1 \<le> unat c" "unat c < unat (p_size p) - 1"
    and pr: "\<And>x. 1 \<le> x \<Longrightarrow> x < unat (p_size p) - 1 \<Longrightarrow> x \<noteq> unat (p_cursor p) \<Longrightarrow>
       probes p x = Suc (probes (p\<lparr>p_cursor := c\<rparr>) x)"
    using advance_cursor_eq[OF Suc.prems(1-3)] by metis
  have in_bm: "unat (p_cursor p) < 64 * length (p_bitmap p)" using Suc.prems(3) sz by linarith
  show ?case
  proof (cases "occ (p_bitmap p) (unat (p_cursor p))")
    case True
    then have "x \<noteq> unat (p_cursor p)" using Suc.prems(6) by auto
    then have "probes (p\<lparr>p_cursor := c\<rparr>) x < rounds" using pr[of x] Suc.prems by simp
    with Suc.IH[of "p\<lparr>p_cursor := c\<rparr>"] Suc.prems c(2,3) True show ?thesis
      by (simp add: pool_config_def marked_def bitmap_marked_eq[OF in_bm] c(1))
  next
    case False
    obtain bm where bm: "bitmap_mark (p_bitmap p) (p_cursor p) True = (Ok bm :: (ipam_error, 64 word list) outcome)"
      by (rule bitmap_mark_Ok[OF in_bm])
    then show ?thesis
      using False c Suc.prems(1-3)
      by - (rule exI[of _ "p_cursor p"], rule exI[of _ c], rule exI[of _ bm],
        simp add: marked_def mark_def bitmap_marked_eq[OF in_bm] Let_def fun_upd_def)
  qed
qed simp


lemma pool_inv_free:
  assumes "pool_inv p" "p_used p < p_limit p"
  obtains x where "1 \<le> x" "x < unat (p_size p) - 1" "\<not> occ (p_bitmap p) x"
proof -
  have c: "pool_config p" using assms(1) by (simp add: pool_inv_def)
  have "card (unat ` dom (p_ownerBy p)) \<le> card (dom (p_ownerBy p))" by (rule card_image_le) simp
  moreover have "card (dom (p_ownerBy p)) < card (leasable p)"
    using assms c card_leasable[OF c] by (auto simp: pool_inv_def pool_config_def)
  ultimately have "\<not> leasable p \<subseteq> unat ` dom (p_ownerBy p)"
    using card_mono[of "unat ` dom (p_ownerBy p)" "leasable p"] by fastforce
  then obtain x where x: "x \<in> leasable p" "x \<notin> unat ` dom (p_ownerBy p)" by auto
  have "x = unat (of_nat x :: 32 word)" using x(1) offset_of_nat[OF c, of x] by (auto simp: leasable_def)
  then have "(of_nat x :: 32 word) \<notin> dom (p_ownerBy p)" using x(2) by (metis image_eqI)
  then show thesis
    using assms(1) x(1) by (intro that[of x]) (auto simp: pool_inv_def leasable_def)
qed

lemma probes_less: "pool_config p \<Longrightarrow> 1 \<le> unat (p_cursor p) \<Longrightarrow> x < unat (p_size p) - 1 \<Longrightarrow>
   probes p x < unat (p_size p)"
  using pool_config_size(1)[of p] by (auto simp: probes_def)

lemma occ_leasable:
  assumes "pool_inv p" "unat off < unat (p_size p)" "\<not> occ (p_bitmap p) (unat off)"
  shows "unat off \<in> leasable p" "p_ownerBy p off = None"
  using assms by (auto simp: pool_inv_def)

text \<open>The state after a lease: the invariant is kept whenever the offset was free.\<close>

lemma pool_inv_lease:
  assumes inv: "pool_inv p" and free: "unat off < unat (p_size p)" "\<not> occ (p_bitmap p) (unat off)"
    and own: "owner \<noteq> []" "p_byOwner p owner = None" and room: "p_used p < p_limit p"
    and c: "1 \<le> unat c" "unat c < unat (p_size p) - 1"
    and bm: "bitmap_mark (p_bitmap p) off True = (Ok bm :: (ipam_error, 64 word list) outcome)"
  shows "pool_inv (p\<lparr>p_cursor := c, p_bitmap := bm, p_byOwner := (p_byOwner p)(owner \<mapsto> off),
     p_ownerBy := (p_ownerBy p)(off \<mapsto> owner), p_used := p_used p + 1\<rparr>)"
proof -
  have cf: "pool_config p" using inv by (simp add: pool_inv_def)
  note sz = pool_config_size[OF cf] and ol = occ_leasable[OF inv free]
  have lt: "unat off < 64 * length (p_bitmap p)" using free sz by linarith
  obtain bm' where "bitmap_mark (p_bitmap p) off True = (Ok bm' :: (ipam_error, 64 word list) outcome)"
    "length bm' = length (p_bitmap p)"
    "\<And>n. n < 64 * length (p_bitmap p) \<Longrightarrow> occ bm' n = (if n = unat off then True else occ (p_bitmap p) n)"
    by (rule bitmap_mark_Ok[OF lt, where v = True]) auto
  with bm have b: "length bm = length (p_bitmap p)"
    "\<And>n. n < unat (p_size p) \<Longrightarrow> occ bm n = (n = unat off \<or> occ (p_bitmap p) n)" using sz by auto
  have w: "n < unat (p_size p) \<Longrightarrow> (of_nat n = off) = (n = unat off)" for n
    using offset_of_nat[OF cf, of n] by auto
  let ?p = "p\<lparr>p_cursor := c, p_bitmap := bm, p_byOwner := (p_byOwner p)(owner \<mapsto> off),
     p_ownerBy := (p_ownerBy p)(off \<mapsto> owner), p_used := p_used p + 1\<rparr>"
  have l: "leasable ?p = leasable p" by (simp add: leasable_def)
  have cf': "pool_config ?p" using cf b(1) by (simp add: pool_config_def)
  have "card (insert off (dom (p_ownerBy p))) = Suc (card (dom (p_ownerBy p)))" using ol(2) by (simp add: domIff)
  moreover have "inverse_maps ((p_byOwner p)(owner \<mapsto> off)) ((p_ownerBy p)(off \<mapsto> owner))"
    using inv own(2) ol(2) by (intro inverse_maps_insert) (simp_all add: pool_inv_def)
  ultimately show ?thesis
    unfolding pool_inv_def l using inv b w ol own room c cf' by (auto simp: pool_inv_def)
qed

lemma Acquire_new:
  assumes inv: "pool_inv p" and own: "owner \<noteq> []" "p_byOwner p owner = None" and room: "p_used p < p_limit p"
  obtains off c bm where "Acquire p owner = (Ok \<lparr>lease_Owner = owner, lease_Addr = addr p off\<rparr>,
       p\<lparr>p_cursor := c, p_bitmap := bm, p_byOwner := (p_byOwner p)(owner \<mapsto> off),
         p_ownerBy := (p_ownerBy p)(off \<mapsto> owner), p_used := p_used p + 1\<rparr>)"
    "unat off \<in> leasable p" "p_ownerBy p off = None"
    "pool_inv (p\<lparr>p_cursor := c, p_bitmap := bm, p_byOwner := (p_byOwner p)(owner \<mapsto> off),
         p_ownerBy := (p_ownerBy p)(off \<mapsto> owner), p_used := p_used p + 1\<rparr>)"
proof -
  have cf: "pool_config p" and cur: "1 \<le> unat (p_cursor p)" "unat (p_cursor p) < unat (p_size p) - 1"
    using inv by (simp_all add: pool_inv_def)
  obtain x where x: "1 \<le> x" "x < unat (p_size p) - 1" "\<not> occ (p_bitmap p) x"
    using pool_inv_free[OF inv room] by blast
  from acquire_loop_finds[OF cf cur x probes_less[OF cf cur(1) x(2)], of owner]
  obtain off c bm where l: "acquire_loop (unat (p_size p)) p owner =
      (Ok \<lparr>lease_Owner = owner, lease_Addr = addr p off\<rparr>,
       p\<lparr>p_cursor := c, p_bitmap := bm, p_byOwner := (p_byOwner p)(owner \<mapsto> off),
         p_ownerBy := (p_ownerBy p)(off \<mapsto> owner), p_used := p_used p + 1\<rparr>)"
    and c: "1 \<le> unat c" "unat c < unat (p_size p) - 1" and off: "unat off < unat (p_size p) - 1"
      "\<not> occ (p_bitmap p) (unat off)"
    and bm: "bitmap_mark (p_bitmap p) off True = (Ok bm :: (ipam_error, 64 word list) outcome)" by blast
  have lt: "unat off < unat (p_size p)" using off by simp
  have "Acquire p owner = acquire_loop (unat (p_size p)) p owner"
    using own room by (simp add: Acquire_def)
  then show thesis
    by (rule that[OF trans[OF _ l] occ_leasable[OF inv lt off(2)] pool_inv_lease[OF inv lt off(2) own room c bm]])
qed

text \<open>An offset that can be leased is an address of the prefix other than network, broadcast and gateway.\<close>

lemma leasable_addr:
  assumes "pool_config p" "unat off \<in> leasable p"
  shows "Contains (p_prefix p) (addr p off)" "addr p off \<noteq> addr p (p_gateway p)"
    "addr p off \<noteq> addr p 0" "addr p off \<noteq> addr p (p_size p - 1)"
  using assms Contains_offset[OF assms(1)] pool_config_size[OF assms(1)] by (auto simp: leasable_def)

lemma pool_inv_offset:
  assumes "pool_inv p" "p_byOwner p owner = Some off"
  shows "p_ownerBy p off = Some owner" "unat off \<in> leasable p"
proof -
  show "p_ownerBy p off = Some owner" using assms by (auto simp: pool_inv_def dest: inverse_mapsD)
  then have "off \<in> dom (p_ownerBy p)" by blast
  moreover have "unat ` dom (p_ownerBy p) \<subseteq> leasable p" using assms(1) by (simp add: pool_inv_def)
  ultimately show "unat off \<in> leasable p" by blast
qed

lemma pool_inv_Release:
  assumes inv: "pool_inv p" and own: "p_byOwner p owner = Some off"
    and bm: "bitmap_mark (p_bitmap p) off False = (Ok bm :: (ipam_error, 64 word list) outcome)"
    and c: "c = p_cursor p \<or> c = off"
  shows "pool_inv (p\<lparr>p_byOwner := (p_byOwner p)(owner := None), p_ownerBy := (p_ownerBy p)(off := None),
     p_bitmap := bm, p_used := p_used p - 1, p_cursor := c\<rparr>)" (is "pool_inv ?p")
proof -
  have cf: "pool_config p" using inv by (simp add: pool_inv_def)
  note sz = pool_config_size[OF cf]
  note o = pool_inv_offset(1)[OF inv own] and off = pool_inv_offset(2)[OF inv own]
  have lt: "unat off < 64 * length (p_bitmap p)" using off sz by (auto simp: leasable_def)
  obtain bm' where "bitmap_mark (p_bitmap p) off False = (Ok bm' :: (ipam_error, 64 word list) outcome)"
    "length bm' = length (p_bitmap p)"
    "\<And>n. n < 64 * length (p_bitmap p) \<Longrightarrow> occ bm' n = (if n = unat off then False else occ (p_bitmap p) n)"
    by (rule bitmap_mark_Ok[OF lt, where v = False]) auto
  with bm have b: "length bm = length (p_bitmap p)"
    "\<And>n. n < unat (p_size p) \<Longrightarrow> occ bm n = (n \<noteq> unat off \<and> occ (p_bitmap p) n)" using sz by auto
  have w: "n < unat (p_size p) \<Longrightarrow> (of_nat n = off) = (n = unat off)" for n
    using offset_of_nat[OF cf, of n] by auto
  have l: "leasable ?p = leasable p" by (simp add: leasable_def)
  have cf': "pool_config ?p" using cf b(1) by (simp add: pool_config_def)
  have "card (dom (p_ownerBy p) - {off}) = card (dom (p_ownerBy p)) - 1" "0 < card (dom (p_ownerBy p))"
    using card_Diff_singleton[OF domI[of "p_ownerBy p", OF o]] o by (auto simp: card_gt_0_iff)
  moreover have "inverse_maps ((p_byOwner p)(owner := None)) ((p_ownerBy p)(off := None))"
    using inv own by (intro inverse_maps_delete) (simp_all add: pool_inv_def)
  moreover have "1 \<le> unat c" "unat c < unat (p_size p) - 1"
    using c off inv by (auto simp: pool_inv_def leasable_def)
  moreover have "unat ` (dom (p_ownerBy p) - {off}) \<subseteq> leasable p" using inv unfolding pool_inv_def by blast
  ultimately show ?thesis
    unfolding pool_inv_def l using inv b w cf' off by (auto simp: pool_inv_def)
qed

lemma Release_Ok:
  assumes inv: "pool_inv p" and own: "owner \<noteq> []" "p_byOwner p owner = Some off"
  obtains bm c where "Release p owner (addr p off) = (Ok (), p\<lparr>p_byOwner := (p_byOwner p)(owner := None),
      p_ownerBy := (p_ownerBy p)(off := None), p_bitmap := bm, p_used := p_used p - 1, p_cursor := c\<rparr>)"
    "pool_inv (p\<lparr>p_byOwner := (p_byOwner p)(owner := None), p_ownerBy := (p_ownerBy p)(off := None),
     p_bitmap := bm, p_used := p_used p - 1, p_cursor := c\<rparr>)"
proof -
  have cf: "pool_config p" using inv by (simp add: pool_inv_def)
  have lt: "unat off < 64 * length (p_bitmap p)"
    using pool_inv_offset(2)[OF inv own(2)] pool_config_size[OF cf] by (auto simp: leasable_def)
  obtain bm where bm: "bitmap_mark (p_bitmap p) off False = (Ok bm :: (ipam_error, 64 word list) outcome)"
    by (rule bitmap_mark_Ok[OF lt])
  let ?c = "if off < p_cursor p then off else p_cursor p"
  have "Release p owner (addr p off) = (Ok (), p\<lparr>p_byOwner := (p_byOwner p)(owner := None),
      p_ownerBy := (p_ownerBy p)(off := None), p_bitmap := bm, p_used := p_used p - 1, p_cursor := ?c\<rparr>)"
    using own bm by (simp add: Release_def mark_def Let_def)
  then show thesis by (rule that) (rule pool_inv_Release[OF inv own(2) bm], simp)
qed

lemma Release_cases:
  assumes "pool_inv p"
  shows "Release p owner a = (Err ErrNotFound_ipam, p) \<or>
    (\<exists>off. owner \<noteq> [] \<and> p_byOwner p owner = Some off \<and> a = addr p off)"
  using assms by (cases a) (auto simp: Release_def split: option.splits)


section \<open>New\<close>

lemma reserve_offsets:
  fixes bm :: "64 word list" and s g :: "32 word"
  assumes "unat s \<le> 64 * length bm" "\<And>n. n < unat s \<Longrightarrow> \<not> occ bm n" "0 < unat s" "g < s"
  obtains bm1 bm2 bm3 where "bitmap_mark bm 0 True = (Ok bm1 :: (ipam_error, 64 word list) outcome)"
    "bitmap_mark bm1 (s - 1) True = (Ok bm2 :: (ipam_error, 64 word list) outcome)"
    "bitmap_mark bm2 g True = (Ok bm3 :: (ipam_error, 64 word list) outcome)" "length bm3 = length bm"
    "\<And>n. n < unat s \<Longrightarrow> occ bm3 n \<longleftrightarrow> n = 0 \<or> n = unat s - 1 \<or> n = unat g"
proof -
  have s1: "unat (s - 1) = unat s - 1" using assms(3) by (subst unat_sub) (simp_all add: word_le_nat_alt)
  obtain bm1 where b1: "bitmap_mark bm 0 True = (Ok bm1 :: (ipam_error, 64 word list) outcome)" "length bm1 = length bm"
    "\<And>n. n < 64 * length bm \<Longrightarrow> occ bm1 n = (if n = unat (0 :: 32 word) then True else occ bm n)"
    using assms(1,3) by (elim bitmap_mark_Ok[of 0 bm, where v = True, rotated]) auto
  obtain bm2 where b2: "bitmap_mark bm1 (s - 1) True = (Ok bm2 :: (ipam_error, 64 word list) outcome)" "length bm2 = length bm1"
    "\<And>n. n < 64 * length bm1 \<Longrightarrow> occ bm2 n = (if n = unat (s - 1) then True else occ bm1 n)"
    using assms(1,3) b1(2) s1 by (elim bitmap_mark_Ok[of "s - 1" bm1, where v = True, rotated]) auto
  obtain bm3 where b3: "bitmap_mark bm2 g True = (Ok bm3 :: (ipam_error, 64 word list) outcome)" "length bm3 = length bm2"
    "\<And>n. n < 64 * length bm2 \<Longrightarrow> occ bm3 n = (if n = unat g then True else occ bm2 n)"
    using assms(1,4) b1(2) b2(2)
    by (elim bitmap_mark_Ok[of g bm2, where v = True, rotated]) (auto simp: word_less_nat_alt)
  show thesis
    using assms(1,2) b1(2,3) b2(2,3) b3(2,3) s1 by (intro that[OF b1(1) b2(1) b3(1)]) auto
qed

lemma occ_replicate [simp]: "n < 64 * k \<Longrightarrow> \<not> occ (replicate k 0) n"
  by (simp add: occ_def less_mult_imp_div_less mult.commute)

lemma take_bit_masked4: "k \<le> 32 \<Longrightarrow> take_bit k (masked4 (32 - k) w) = 0"
  by (auto intro!: bit_word_eqI simp: masked4_def bit_simps)

lemma unat_pool_size:
  assumes "k \<le> 24"
  shows "unat (ucast (2 ^ k :: 64 word) :: 32 word) = 2 ^ k" "(2 ^ k :: 64 word) \<le> maxPoolAddresses"
proof -
  have "(2::nat) ^ k < 2 ^ 32" using assms by (intro power_strict_increasing) simp_all
  have "unat (push_bit k 1 :: 64 word) = take_bit 64 (push_bit k 1)"
    unfolding unsigned_push_bit_eq by (simp only: unsigned_1) simp
  also have "\<dots> = 2 ^ k" using assms by (simp add: push_bit_eq_mult)
  finally have u: "unat (2 ^ k :: 64 word) = 2 ^ k" by (simp add: push_bit_eq_mult)
  then show "unat (ucast (2 ^ k :: 64 word) :: 32 word) = 2 ^ k"
    using assms by (simp add: unsigned_ucast_eq)
  have "(2::nat) ^ k \<le> 2 ^ 24" using assms by (intro power_increasing) simp_all
  then show "(2 ^ k :: 64 word) \<le> maxPoolAddresses"
    using u by (simp add: maxPoolAddresses_def word_le_nat_alt)
qed

text \<open>The pool \<open>New\<close> builds from a prefix, before the reserved offsets are marked.\<close>

lemma New_pool_eq:
  assumes k: "2 \<le> k" "k \<le> 24" and pfx: "prefix = \<lparr>pfx_Addr = Addr4 w, pfx_Bits = 32 - int k\<rparr>"
  defines "base \<equiv> masked4 (32 - k) w" and "sz \<equiv> ucast (2 ^ k :: 64 word) :: 32 word"
  defines "pfx' \<equiv> \<lparr>pfx_Addr = Addr4 base, pfx_Bits = 32 - int k\<rparr>" and "cap \<equiv> int (2 ^ k) - 3"
  shows "New_pool prefix (Addr4 g) maxLeases =
    (if \<not> Contains pfx' (Addr4 g) then Err GatewayOutside
     else if g - base = 0 \<or> g - base = sz - 1 then Err GatewayReserved
     else if maxLeases < 0 then Err NegativeLimit
     else andThen (mark \<lparr>p_prefix = pfx', p_base = base, p_size = sz, p_gateway = g - base,
        p_limit = (if maxLeases = 0 \<or> maxLeases > cap then cap else maxLeases), p_used = 0, p_cursor = 1,
        p_bitmap = replicate (unat ((sz + 63) div 64)) 0,
        p_byOwner = Map.empty, p_ownerBy = Map.empty\<rparr> 0 True) (\<lambda>p.
       andThen (mark p (sz - 1) True) (\<lambda>p. mark p (g - base) True)))"
proof -
  have "nat (32 - int k) = 32 - k" "nat (32 - (32 - int k)) = k" by auto
  then have "Masked prefix = pfx'" using k by (simp add: Masked_def pfx pfx'_def base_def)
  moreover have "prefix_IsValid prefix" using k by (simp add: pfx prefix_IsValid_def IsValid_def)
  ultimately show ?thesis
    using k unat_pool_size[OF k(2)] unfolding New_pool_def
    by (simp add: pfx pfx'_def sz_def cap_def Let_def not_less[symmetric])
qed

lemma bitmap_length:
  "k \<le> 24 \<Longrightarrow> unat ((ucast (2 ^ k :: 64 word) + 63 :: 32 word) div 64) = (2 ^ k + 63) div 64"
proof -
  assume k: "k \<le> 24"
  have "(2::nat) ^ k \<le> 2 ^ 24" using k by (intro power_increasing) simp_all
  then have "unat (ucast (2 ^ k :: 64 word) + 63 :: 32 word) = 2 ^ k + 63"
    using unat_pool_size(1)[OF k] by (subst unat_add_lem[THEN iffD1]) simp_all
  then show ?thesis by simp
qed

lemma New_pool_inv:
  assumes "New_pool prefix gateway maxLeases = Ok p"
  shows "pool_inv p" "p_byOwner p = Map.empty" "p_ownerBy p = Map.empty" "p_used p = 0"
proof -
  from assms obtain w where w: "pfx_Addr prefix = Addr4 w" by (cases "pfx_Addr prefix") (auto simp: New_pool_def)
  from assms obtain g where g: "gateway = Addr4 g" by (cases gateway) (auto simp: New_pool_def Let_def split: if_splits)
  define k where "k = nat (32 - pfx_Bits prefix)"
  have "8 \<le> pfx_Bits prefix" "pfx_Bits prefix \<le> 30" using assms by (auto simp: New_pool_def split: if_splits)
  then have k: "2 \<le> k" "k \<le> 24" and pfx: "prefix = \<lparr>pfx_Addr = Addr4 w, pfx_Bits = 32 - int k\<rparr>"
    using w by (auto simp: k_def)
  define base where "base = masked4 (32 - k) w"
  define s where "s = (ucast (2 ^ k :: 64 word) :: 32 word)"
  have s: "unat s = 2 ^ k" and four: "4 \<le> unat s"
    using unat_pool_size(1)[OF k(2)] power_increasing[OF k(1), of "2::nat"] by (simp_all add: s_def)
  define lim where "lim = (if maxLeases = 0 \<or> maxLeases > int (2 ^ k) - 3 then int (2 ^ k) - 3 else maxLeases)"
  let ?p = "\<lambda>bm. \<lparr>p_prefix = \<lparr>pfx_Addr = Addr4 base, pfx_Bits = 32 - int k\<rparr>, p_base = base, p_size = s,
    p_gateway = g - base, p_limit = lim, p_used = 0, p_cursor = 1, p_bitmap = bm,
    p_byOwner = Map.empty, p_ownerBy = Map.empty\<rparr>"
  let ?bm = "replicate ((2 ^ k + 63) div 64) 0 :: 64 word list"
  from assms have con: "Contains \<lparr>pfx_Addr = Addr4 base, pfx_Bits = 32 - int k\<rparr> (Addr4 g)"
    and gw: "g - base \<noteq> 0" "g - base \<noteq> s - 1" and "0 \<le> maxLeases"
    and p: "andThen (mark (?p ?bm) 0 True) (\<lambda>p. andThen (mark p (s - 1) True) (\<lambda>p. mark p (g - base) True)) = Ok p"
    unfolding g New_pool_eq[OF k pfx] bitmap_length[OF k(2)] base_def s_def lim_def by (auto split: if_splits)
  have tb: "take_bit k base = 0" using k by (simp add: base_def take_bit_masked4)
  have "nat (32 - int k) = 32 - k" by simp
  then have glt: "unat (g - base) < unat s"
    using con contains4_offset[OF _ tb, of g] k s by (auto simp: Contains_def)
  then have gs: "g - base < s" by (simp add: word_less_nat_alt)
  have lim: "0 < lim" "lim \<le> int (unat s) - 3" using \<open>0 \<le> maxLeases\<close> power_increasing[OF k(1), of "2::int"]
    by (auto simp: lim_def s)
  have "2 ^ k \<le> 64 * ((2 ^ k + 63) div 64 :: nat)" by presburger
  then have bits: "unat s \<le> 64 * length ?bm" "\<And>n. n < unat s \<Longrightarrow> \<not> occ ?bm n" "0 < unat s" by (simp_all add: s)
  obtain bm1 bm2 bm3 where bm: "bitmap_mark ?bm 0 True = (Ok bm1 :: (ipam_error, 64 word list) outcome)"
    "bitmap_mark bm1 (s - 1) True = (Ok bm2 :: (ipam_error, 64 word list) outcome)"
    "bitmap_mark bm2 (g - base) True = (Ok bm3 :: (ipam_error, 64 word list) outcome)" "length bm3 = length ?bm"
    "\<And>n. n < unat s \<Longrightarrow> occ bm3 n \<longleftrightarrow> n = 0 \<or> n = unat s - 1 \<or> n = unat (g - base)"
    by (rule reserve_offsets[OF bits gs]) auto
  then have p3: "p = ?p bm3" using p by (simp add: mark_def)
  have s1: "unat (s - 1) = unat s - 1" using four by (subst unat_sub) (simp_all add: word_le_nat_alt)
  have gpos: "0 < unat (g - base)" "unat (g - base) \<noteq> unat s - 1"
    using gw unsigned_word_eqI[of "g - base" "s - 1", where 'a = nat] by (auto simp: s1 unat_gt_0 simp del: right_minus_eq)
  then have "pool_config p"
    unfolding pool_config_def p3 using k tb glt lim bm(4) s by auto
  moreover have "leasable p = {1..<unat s - 1} - {unat (g - base)}" by (simp add: leasable_def p3)
  moreover have "1 < unat s - 1" using four by simp
  ultimately show "pool_inv p"
    unfolding pool_inv_def using bm(5) gpos lim by (auto simp: p3)
  show "p_byOwner p = Map.empty" "p_ownerBy p = Map.empty" "p_used p = 0" by (simp_all add: p3)
qed


section \<open>Restore and Snapshot\<close>

text \<open>A restore in progress, seen as the pool it is going to become.\<close>

definition as_pool :: "Pool \<Rightarrow> restore_state \<Rightarrow> Pool" where
  "as_pool p r = p\<lparr>p_cursor := 1, p_bitmap := r_bitmap r, p_byOwner := r_byOwner r, p_ownerBy := r_ownerBy r,
     p_used := int (card (dom (r_ownerBy r)))\<rparr>"

lemma as_pool_simps [simp]:
  "p_prefix (as_pool p r) = p_prefix p" "p_base (as_pool p r) = p_base p" "p_size (as_pool p r) = p_size p"
  "p_gateway (as_pool p r) = p_gateway p" "p_limit (as_pool p r) = p_limit p" "p_cursor (as_pool p r) = 1"
  "p_bitmap (as_pool p r) = r_bitmap r" "p_byOwner (as_pool p r) = r_byOwner r"
  "p_ownerBy (as_pool p r) = r_ownerBy r" "p_used (as_pool p r) = int (card (dom (r_ownerBy r)))"
  "leasable (as_pool p r) = leasable p" "addr (as_pool p r) off = addr p off"
  by (simp_all add: as_pool_def leasable_def)

lemma restore_step:
  assumes inv: "pool_inv (as_pool p r)" and off: "unat off \<in> leasable p" "r_ownerBy r off = None"
    and own: "owner \<noteq> []" "r_byOwner r owner = None" and room: "int (card (dom (r_ownerBy r))) < p_limit p"
    and a: "Unmap (lease_Addr l) = addr p off" "lease_Owner l = owner"
  obtains r' where "restore_loop p (l # ls) r = restore_loop p ls r'" "pool_inv (as_pool p r')"
    "r_byOwner r' = (r_byOwner r)(owner \<mapsto> off)" "r_ownerBy r' = (r_ownerBy r)(off \<mapsto> owner)"
proof -
  let ?q = "as_pool p r"
  have cf: "pool_config ?q" using inv by (simp add: pool_inv_def)
  note sz = pool_config_size[OF cf, simplified]
  have lt: "unat off < unat (p_size p)" using off(1) by (auto simp: leasable_def)
  then have lt': "unat off < 64 * length (r_bitmap r)" using sz by linarith
  have "occ (r_bitmap r) (unat off) \<longleftrightarrow> unat off \<notin> leasable p \<or> of_nat (unat off) \<in> dom (r_ownerBy r)"
    using inv lt unfolding pool_inv_def by simp
  then have free: "\<not> occ (r_bitmap r) (unat off)" using off by (simp add: domIff)
  obtain bm where bm: "bitmap_mark (r_bitmap r) off True = (Ok bm :: (ipam_error, 64 word list) outcome)"
    by (rule bitmap_mark_Ok[OF lt'])
  let ?r = "\<lparr>r_bitmap = bm, r_byOwner = (r_byOwner r)(owner \<mapsto> off), r_ownerBy = (r_ownerBy r)(off \<mapsto> owner)\<rparr>"
  have con: "Contains (p_prefix p) (addr p off)" "\<not> p_size p \<le> off"
    using lt Contains_offset[OF cf] by (simp_all add: word_le_nat_alt)
  have step: "restore_loop p (l # ls) r = restore_loop p ls ?r"
    using con own bm free by (simp add: a bitmap_marked_eq[OF lt'] Let_def fun_upd_def)
  have "card (dom ((r_ownerBy r)(off \<mapsto> owner))) = Suc (card (dom (r_ownerBy r)))" using off(2) by (simp add: domIff)
  then have "as_pool p ?r = ?q\<lparr>p_cursor := 1, p_bitmap := bm, p_byOwner := (p_byOwner ?q)(owner \<mapsto> off),
      p_ownerBy := (p_ownerBy ?q)(off \<mapsto> owner), p_used := p_used ?q + 1\<rparr>"
    by (simp add: as_pool_def)
  then have "pool_inv (as_pool p ?r)"
    using pool_inv_lease[OF inv, of off owner 1 bm] lt free own room bm sz(1) by simp
  with step show thesis by (rule that) simp_all
qed

text \<open>What a lease must satisfy to be taken over by the loop.\<close>

lemma restore_loop_cases:
  assumes inv: "pool_inv (as_pool p r)"
  shows "restore_loop p (l # ls) r = Err ErrConflict_ipam \<or>
    (\<exists>off. Unmap (lease_Addr l) = addr p off \<and> unat off \<in> leasable p \<and> r_ownerBy r off = None \<and>
      lease_Owner l \<noteq> [] \<and> r_byOwner r (lease_Owner l) = None)"
proof -
  let ?q = "as_pool p r"
  have cf: "pool_config ?q" using inv by (simp add: pool_inv_def)
  note sz = pool_config_size[OF cf, simplified]
  show ?thesis
  proof (cases "Unmap (lease_Addr l)")
    case (Addr4 v)
    let ?off = "v - p_base p"
    show ?thesis
    proof (cases "unat ?off < unat (p_size p)")
      case True
      then have "unat ?off < 64 * length (r_bitmap r)" using sz by linarith
      note m = bitmap_marked_eq[OF this, where 'a = ipam_error]
      show ?thesis
      proof (cases "occ (r_bitmap r) (unat ?off)")
        case occ: True
        then show ?thesis by (simp add: Addr4 m Let_def)
      next
        case False
        with occ_leasable[OF inv, of ?off] True have off: "unat ?off \<in> leasable p" "r_ownerBy r ?off = None" by simp_all
        show ?thesis
        proof (cases "lease_Owner l = [] \<or> r_byOwner r (lease_Owner l) \<noteq> None")
          case True
          then show ?thesis using False by (auto simp: Addr4 m Let_def)
        next
          case False
          then show ?thesis using off by (intro disjI2 exI[of _ ?off]) (simp add: Addr4)
        qed
      qed
    next
      case False
      then show ?thesis by (simp add: Addr4 word_le_nat_alt Let_def)
    qed
  qed auto
qed


lemma restore_loop_inv:
  assumes "pool_inv (as_pool p r)" "int (card (dom (r_ownerBy r))) + int (length ls) \<le> p_limit p"
  shows "restore_loop p ls r = Err ErrConflict_ipam \<or>
    (\<exists>r'. restore_loop p ls r = Ok r' \<and> pool_inv (as_pool p r') \<and>
       card (dom (r_ownerBy r')) = card (dom (r_ownerBy r)) + length ls)"
  using assms
proof (induction ls arbitrary: r)
  case (Cons l ls)
  show ?case
  proof (cases "restore_loop p (l # ls) r = Err ErrConflict_ipam")
    case False
    with restore_loop_cases[OF Cons.prems(1)] obtain off where off: "Unmap (lease_Addr l) = addr p off"
      "unat off \<in> leasable p" "r_ownerBy r off = None" "lease_Owner l \<noteq> []" "r_byOwner r (lease_Owner l) = None"
      by blast
    have room: "int (card (dom (r_ownerBy r))) < p_limit p" using Cons.prems(2) by simp
    obtain r' where r': "restore_loop p (l # ls) r = restore_loop p ls r'" "pool_inv (as_pool p r')"
      "r_ownerBy r' = (r_ownerBy r)(off \<mapsto> lease_Owner l)"
      using restore_step[OF Cons.prems(1) off(2-5) room off(1) refl] by metis
    then have "card (dom (r_ownerBy r')) = Suc (card (dom (r_ownerBy r)))" using off(3) by (simp add: domIff)
    with Cons.IH[OF r'(2)] Cons.prems(2) show ?thesis unfolding r'(1) by auto
  qed simp
qed simp

lemma restore_cursor_Ok:
  assumes "unat (p_size p) \<le> 64 * length bm" "1 \<le> unat c" "unat c < unat (p_size p)"
  shows "\<exists>c'. restore_cursor p bm c = Ok c' \<and> 1 \<le> unat c'"
  using assms
proof (induction p bm c rule: restore_cursor.induct)
  case (1 p bm c)
  have lt: "unat c < 64 * length bm" using 1(2,4) by simp
  show ?case
  proof (cases "c < p_size p - 1 \<and> occ bm (unat c)")
    case True
    then have "unat (c + 1) = Suc (unat c)" using unat_add_1_less by blast
    moreover have "unat (p_size p - 1) < unat (p_size p)"
      using 1(4) by (subst unat_sub) (simp_all add: word_le_nat_alt)
    ultimately have "\<exists>c'. restore_cursor p bm (c + 1) = Ok c' \<and> 1 \<le> unat c'"
      using 1 True by (intro 1(1)[OF _ bitmap_marked_eq[OF lt]]) (auto simp: word_less_nat_alt)
    then show ?thesis using True by (subst restore_cursor.simps) (simp add: bitmap_marked_eq[OF lt])
  next
    case False
    then show ?thesis using 1(3) by (subst restore_cursor.simps) (auto simp: bitmap_marked_eq[OF lt])
  qed
qed

definition empty_restore :: "64 word list \<Rightarrow> restore_state" where
  "empty_restore bm = \<lparr>r_bitmap = bm, r_byOwner = Map.empty, r_ownerBy = Map.empty\<rparr>"

text \<open>On an empty pool, \<open>Restore\<close> is the loop followed by the choice of the cursor.\<close>

lemma Restore_pool_eq:
  assumes inv: "pool_inv p" and emp: "p_byOwner p = Map.empty" and len: "int (length leases) \<le> p_limit p"
  obtains bm where "pool_inv (as_pool p (empty_restore bm))"
    "Restore_pool p leases = (case restore_loop p leases (empty_restore bm) of
        Ok r \<Rightarrow> (case restore_cursor p (r_bitmap r) 1 of
            Ok c \<Rightarrow> (Ok (), (as_pool p r)\<lparr>p_used := int (length leases),
              p_cursor := if c \<ge> p_size p - 1 then 1 else c\<rparr>)
          | Err e \<Rightarrow> (Err e, p) | Panic \<Rightarrow> (Panic, p))
      | Err e \<Rightarrow> (Err e, p) | Panic \<Rightarrow> (Panic, p))"
proof -
  have cf: "pool_config p" using inv by (simp add: pool_inv_def)
  note sz = pool_config_size[OF cf]
  have "p_ownerBy p v \<noteq> Some k" for v k using inv emp by (auto simp: pool_inv_def inverse_maps_def)
  then have emp': "p_ownerBy p = Map.empty" by (intro ext) (metis not_None_eq)
  then have used: "p_used p = 0" using inv by (simp add: pool_inv_def)
  let ?z = "replicate (length (p_bitmap p)) 0 :: 64 word list"
  have z: "unat (p_size p) \<le> 64 * length ?z" "\<And>n. n < unat (p_size p) \<Longrightarrow> \<not> occ ?z n" "0 < unat (p_size p)"
    using sz by auto
  have g: "p_gateway p < p_size p" using cf by (auto simp: pool_config_def word_less_nat_alt)
  obtain bm1 bm2 bm3 where bm: "bitmap_mark ?z 0 True = (Ok bm1 :: (ipam_error, 64 word list) outcome)"
    "bitmap_mark bm1 (p_size p - 1) True = (Ok bm2 :: (ipam_error, 64 word list) outcome)"
    "bitmap_mark bm2 (p_gateway p) True = (Ok bm3 :: (ipam_error, 64 word list) outcome)" "length bm3 = length ?z"
    "\<And>n. n < unat (p_size p) \<Longrightarrow> occ bm3 n \<longleftrightarrow> n = 0 \<or> n = unat (p_size p) - 1 \<or> n = unat (p_gateway p)"
    by (rule reserve_offsets[OF z g]) auto
  have cf': "pool_config (as_pool p (empty_restore bm3))" using cf bm(4) by (simp add: pool_config_def empty_restore_def)
  have "pool_inv (as_pool p (empty_restore bm3))"
    unfolding pool_inv_def using cf' bm(5) sz cf by (auto simp: empty_restore_def leasable_def pool_config_def)
  then show thesis
    by (rule that) (use emp emp' used len bm(1-3) in \<open>simp add: Restore_pool_def map_len_def empty_restore_def
      as_pool_def not_less split: outcome.split\<close>)
qed


lemma restore_finish:
  assumes inv: "pool_inv (as_pool p r)" and n: "card (dom (r_ownerBy r)) = n"
  shows "\<exists>c. restore_cursor p (r_bitmap r) 1 = Ok c \<and>
    pool_inv ((as_pool p r)\<lparr>p_used := int n, p_cursor := if c \<ge> p_size p - 1 then 1 else c\<rparr>)"
proof -
  have cf: "pool_config (as_pool p r)" using inv by (simp add: pool_inv_def)
  note sz = pool_config_size[OF cf, simplified]
  obtain c where c: "restore_cursor p (r_bitmap r) 1 = Ok c" "1 \<le> unat c"
    using restore_cursor_Ok[of p "r_bitmap r" 1] sz by auto
  let ?c = "if c \<ge> p_size p - 1 then 1 else c"
  have "1 \<le> unat ?c" "unat ?c < unat (p_size p) - 1"
    using c(2) sz by (auto simp: word_le_nat_alt not_le)
  then have "pool_inv ((as_pool p r)\<lparr>p_used := int n, p_cursor := ?c\<rparr>)"
    using inv n by (simp add: pool_inv_def pool_config_def leasable_def)
  with c(1) show ?thesis by blast
qed

lemma Restore_pool_cases:
  assumes inv: "pool_inv p" and emp: "p_byOwner p = Map.empty"
  shows "(\<exists>e. Restore_pool p leases = (Err e, p)) \<or>
    (\<exists>q. Restore_pool p leases = (Ok (), q) \<and> pool_inv q \<and> p_used q = int (length leases))"
proof (cases "int (length leases) \<le> p_limit p")
  case True
  obtain bm where bm: "pool_inv (as_pool p (empty_restore bm))"
    "Restore_pool p leases = (case restore_loop p leases (empty_restore bm) of
        Ok r \<Rightarrow> (case restore_cursor p (r_bitmap r) 1 of
            Ok c \<Rightarrow> (Ok (), (as_pool p r)\<lparr>p_used := int (length leases),
              p_cursor := if c \<ge> p_size p - 1 then 1 else c\<rparr>)
          | Err e \<Rightarrow> (Err e, p) | Panic \<Rightarrow> (Panic, p))
      | Err e \<Rightarrow> (Err e, p) | Panic \<Rightarrow> (Panic, p))"
    by (rule Restore_pool_eq[OF inv emp True])
  have "restore_loop p leases (empty_restore bm) = Err ErrConflict_ipam \<or>
    (\<exists>r'. restore_loop p leases (empty_restore bm) = Ok r' \<and> pool_inv (as_pool p r') \<and>
       card (dom (r_ownerBy r')) = length leases)"
    using restore_loop_inv[OF bm(1), of leases] True by (simp add: empty_restore_def)
  then show ?thesis
  proof (elim disjE exE conjE)
    fix r assume r: "restore_loop p leases (empty_restore bm) = Ok r" "pool_inv (as_pool p r)"
      "card (dom (r_ownerBy r)) = length leases"
    from restore_finish[OF r(2,3)] show ?thesis using bm(2) r(1) by auto
  qed (simp add: bm(2))
qed (auto simp: Restore_pool_def)

text \<open>Restoring a snapshot: the loop takes over the leases at a list of offsets.\<close>

definition lease_at :: "Pool \<Rightarrow> 32 word \<Rightarrow> Lease list" where
  "lease_at p offset = (case p_ownerBy p offset of None \<Rightarrow> []
     | Some owner \<Rightarrow> [\<lparr>lease_Owner = owner, lease_Addr = addr p offset\<rparr>])"

lemma restore_loop_snapshot:
  assumes inv: "pool_inv p" and same: "p_base q = p_base p" "p_limit q = p_limit p" "leasable q = leasable p"
  assumes "pool_inv (as_pool q r)" "distinct offs"
    "r_ownerBy r = p_ownerBy p |` S" "S \<inter> set offs = {}" 
  shows "\<exists>r'. restore_loop q (concat (map (lease_at p) offs)) r = Ok r' \<and> pool_inv (as_pool q r') \<and>
    r_ownerBy r' = p_ownerBy p |` (S \<union> set offs)"
  using assms(5-)
proof (induction offs arbitrary: r S)
  case (Cons off offs)
  show ?case
  proof (cases "p_ownerBy p off")
    case None
    then have "p_ownerBy p |` insert off S = p_ownerBy p |` S" by (auto simp: restrict_map_def)
    with Cons.IH[of r "insert off S"] Cons.prems None show ?thesis by (simp add: lease_at_def)
  next
    case (Some owner)
    have cf: "pool_config p" using inv by (simp add: pool_inv_def)
    have by': "p_byOwner p owner = Some off" using inv Some by (auto simp: pool_inv_def dest: inverse_mapsD)
    have own: "owner \<noteq> []" using inv by' by (auto simp: pool_inv_def)
    have none: "r_ownerBy r off = None" using Cons.prems by (auto simp: restrict_map_def)
    have sub: "r_byOwner r owner' = Some o' \<Longrightarrow> p_byOwner p owner' = Some o' \<and> o' \<in> S" for owner' o'
    proof -
      assume "r_byOwner r owner' = Some o'"
      moreover have "inverse_maps (r_byOwner r) (r_ownerBy r)" using Cons.prems(1) by (simp add: pool_inv_def)
      ultimately have "r_ownerBy r o' = Some owner'" by (auto dest: inverse_mapsD)
      then have "p_ownerBy p o' = Some owner'" "o' \<in> S" using Cons.prems(3) by (auto simp: restrict_map_def split: if_splits)
      moreover have "inverse_maps (p_byOwner p) (p_ownerBy p)" using inv by (simp add: pool_inv_def)
      ultimately show ?thesis by (auto dest: inverse_mapsD)
    qed
    have bynone: "r_byOwner r owner = None"
    proof (cases "r_byOwner r owner")
      case (Some o')
      with sub by' have "off \<in> S" by fastforce
      with Cons.prems(4) show ?thesis by simp
    qed
    have "dom (r_ownerBy r) \<subset> dom (p_ownerBy p)" using Cons.prems(3,4) Some by (auto simp: restrict_map_def dom_def split: if_splits)
    then have "card (dom (r_ownerBy r)) < card (dom (p_ownerBy p))" by (intro psubset_card_mono) simp_all
    then have room: "int (card (dom (r_ownerBy r))) < p_limit q" using inv same(2) by (simp add: pool_inv_def)
    have off: "unat off \<in> leasable q" using pool_inv_offset(2)[OF inv by'] same(3) by simp
    let ?l = "\<lparr>lease_Owner = owner, lease_Addr = addr p off\<rparr>"
    obtain r' where r': "restore_loop q (?l # concat (map (lease_at p) offs)) r = restore_loop q (concat (map (lease_at p) offs)) r'"
      "pool_inv (as_pool q r')" "r_ownerBy r' = (r_ownerBy r)(off \<mapsto> owner)"
      using restore_step[OF Cons.prems(1) off none own bynone room, of ?l "concat (map (lease_at p) offs)"] same(1) by auto
    have "r_ownerBy r' = p_ownerBy p |` insert off S" using Some Cons.prems(3) by (auto simp: r'(3) restrict_map_def)
    note IH = Cons.IH[OF r'(2) _ this]
    have eq: "concat (map (lease_at p) (off # offs)) = ?l # concat (map (lease_at p) offs)"
      by (simp add: lease_at_def[of p off] Some)
    show ?thesis unfolding eq r'(1) using IH Cons.prems(2,4) by simp
  qed
qed auto


lemma Snapshot_pool_eq: "Snapshot_pool p = concat (map (lease_at p) (offsets p))"
  by (simp add: Snapshot_pool_def lease_at_def[abs_def])

lemma offsets_facts:
  assumes "pool_config p"
  shows "distinct (offsets p)" "unat off \<in> leasable p \<Longrightarrow> off \<in> set (offsets p)"
proof -
  note sz = pool_config_size[OF assms]
  have "inj_on (of_nat :: nat \<Rightarrow> 32 word) {1..<unat (p_size p) - 1}"
    by (rule inj_onI) (metis assms offset_of_nat atLeastLessThan_iff diff_le_self order_less_le_trans)
  then show "distinct (offsets p)" by (simp add: offsets_def distinct_map sz(2))
  assume "unat off \<in> leasable p"
  then have "unat off \<in> {1..<unat (p_size p) - 1}" by (simp add: leasable_def)
  then show "off \<in> set (offsets p)" unfolding offsets_def sz(2) by (auto intro!: image_eqI[of _ _ "unat off"])
qed

lemma snapshot_length:
  assumes "pool_inv p"
  shows "int (length (Snapshot_pool p)) = p_used p"
proof -
  have cf: "pool_config p" using assms by (simp add: pool_inv_def)
  note of = offsets_facts[OF cf]
  have "length (concat (map (lease_at p) offs)) = card (dom (p_ownerBy p) \<inter> set offs)" if "distinct offs" for offs
    using that by (induction offs) (auto simp: lease_at_def domIff split: option.splits)
  from this[OF of(1)] have "length (Snapshot_pool p) = card (dom (p_ownerBy p) \<inter> set (offsets p))"
    by (simp add: Snapshot_pool_eq)
  moreover have "dom (p_ownerBy p) \<subseteq> set (offsets p)"
    using assms of(2) unfolding pool_inv_def by blast
  ultimately show ?thesis using assms by (simp add: pool_inv_def Int_absorb2)
qed


lemma Find_lease_cong: "p_byOwner r = p_byOwner p \<Longrightarrow> p_base r = p_base p \<Longrightarrow> Find_lease r = Find_lease p"
  by (auto simp: fun_eq_iff Find_lease_def split: option.split)

text \<open>C28: A snapshot of a pool restored into a fresh pool of the same configuration gives every session back
  exactly the address it had: the restore succeeds and the lease tables are equal.\<close>

theorem Restore_Snapshot_pool:
  assumes inv: "pool_inv p" "pool_inv q" and emp: "p_byOwner q = Map.empty"
    and same: "p_base q = p_base p" "p_size q = p_size p" "p_gateway q = p_gateway p" "p_limit q = p_limit p"
  shows "\<exists>r. Restore_pool q (Snapshot_pool p) = (Ok (), r) \<and> pool_inv r \<and> p_byOwner r = p_byOwner p \<and>
    p_ownerBy r = p_ownerBy p \<and> p_used r = p_used p \<and> Find_lease r = Find_lease p"
proof -
  have l: "leasable q = leasable p" by (simp add: leasable_def same)
  have cf: "pool_config p" using inv by (simp add: pool_inv_def)
  have len: "int (length (Snapshot_pool p)) \<le> p_limit q"
    using inv(1) same(4) by (simp add: snapshot_length pool_inv_def)
  obtain bm where bm: "pool_inv (as_pool q (empty_restore bm))"
    "Restore_pool q (Snapshot_pool p) = (case restore_loop q (Snapshot_pool p) (empty_restore bm) of
        Ok r \<Rightarrow> (case restore_cursor q (r_bitmap r) 1 of
            Ok c \<Rightarrow> (Ok (), (as_pool q r)\<lparr>p_used := int (length (Snapshot_pool p)),
              p_cursor := if c \<ge> p_size q - 1 then 1 else c\<rparr>)
          | Err e \<Rightarrow> (Err e, q) | Panic \<Rightarrow> (Panic, q))
      | Err e \<Rightarrow> (Err e, q) | Panic \<Rightarrow> (Panic, q))"
    by (rule Restore_pool_eq[OF inv(2) emp len])
  obtain r where r: "restore_loop q (Snapshot_pool p) (empty_restore bm) = Ok r"
    "pool_inv (as_pool q r)"
    "r_ownerBy r = p_ownerBy p |` set (offsets p)"
    using restore_loop_snapshot[OF inv(1) same(1,4) l bm(1) offsets_facts(1)[OF cf], of "{}"]
    by (auto simp: empty_restore_def Snapshot_pool_eq)
  have "dom (p_ownerBy p) \<subseteq> set (offsets p)"
    using inv(1) offsets_facts(2)[OF cf] unfolding pool_inv_def by blast
  then have "r_ownerBy r x = p_ownerBy p x" for x by (cases "p_ownerBy p x") (auto simp: r(3) restrict_map_def)
  then have o: "r_ownerBy r = p_ownerBy p" by blast
  have "inverse_maps (r_byOwner r) (p_ownerBy p)" "inverse_maps (p_byOwner p) (p_ownerBy p)"
    using r(2) inv(1) o by (simp_all add: pool_inv_def)
  then have b: "r_byOwner r = p_byOwner p" by (rule inverse_maps_unique)
  have n: "card (dom (r_ownerBy r)) = length (Snapshot_pool p)"
    using snapshot_length[OF inv(1)] inv(1) by (simp add: o pool_inv_def)
  from restore_finish[OF r(2) n] obtain c where c: "restore_cursor q (r_bitmap r) 1 = Ok c"
    "pool_inv ((as_pool q r)\<lparr>p_used := int (length (Snapshot_pool p)),
       p_cursor := if c \<ge> p_size q - 1 then 1 else c\<rparr>)" by blast
  let ?s = "(as_pool q r)\<lparr>p_used := int (length (Snapshot_pool p)),
       p_cursor := if c \<ge> p_size q - 1 then 1 else c\<rparr>"
  have "Find_lease ?s = Find_lease p" by (rule Find_lease_cong) (simp_all add: b same)
  moreover have "Restore_pool q (Snapshot_pool p) = (Ok (), ?s)" using bm(2) r(1) c(1) by simp
  ultimately show ?thesis using c(2) o b snapshot_length[OF inv(1)] by auto
qed

section \<open>Every reachable pool\<close>

inductive pool_reach :: "Pool \<Rightarrow> bool" where
  reach_New: "New_pool prefix gateway maxLeases = Ok p \<Longrightarrow> pool_reach p"
| reach_Acquire: "pool_reach p \<Longrightarrow> pool_reach (snd (Acquire p owner))"
| reach_Release: "pool_reach p \<Longrightarrow> pool_reach (snd (Release p owner a))"
| reach_Restore: "pool_reach p \<Longrightarrow> pool_reach (snd (Restore_pool p leases))"

lemma Restore_pool_nonempty:
  assumes "pool_inv p" "p_byOwner p \<noteq> Map.empty"
  shows "Restore_pool p leases = (Err ErrConflict_ipam, p)"
proof -
  from assms(2) obtain k v where "p_byOwner p k = Some v" by (metis not_None_eq ext)
  then have "v \<in> dom (p_ownerBy p)" using pool_inv_offset(1)[OF assms(1)] by blast
  then have "p_used p \<noteq> 0" using assms(1) by (auto simp: pool_inv_def)
  then show ?thesis by (simp add: Restore_pool_def)
qed

lemma Acquire_cases:
  assumes "pool_inv p"
  shows "pool_inv (snd (Acquire p owner)) \<and> fst (Acquire p owner) \<noteq> Panic"
proof (cases "owner = [] \<or> p_byOwner p owner \<noteq> None \<or> p_used p \<ge> p_limit p")
  case True
  then show ?thesis using assms by (auto simp: Acquire_def split: option.split)
next
  case False
  show ?thesis by (rule Acquire_new[OF assms, of owner]) (use False in simp_all)
qed

lemma Release_inv:
  assumes "pool_inv p"
  shows "pool_inv (snd (Release p owner a)) \<and> fst (Release p owner a) \<noteq> Panic"
proof (cases "Release p owner a = (Err ErrNotFound_ipam, p)")
  case False
  with Release_cases[OF assms] obtain off where off: "owner \<noteq> []" "p_byOwner p owner = Some off" "a = addr p off" by blast
  show ?thesis by (rule Release_Ok[OF assms off(1,2)]) (simp add: off(3))
qed (use assms in simp)

lemma Restore_inv:
  assumes "pool_inv p"
  shows "pool_inv (snd (Restore_pool p leases)) \<and> fst (Restore_pool p leases) \<noteq> Panic"
proof (cases "p_byOwner p = Map.empty")
  case True
  from Restore_pool_cases[OF assms True, of leases] show ?thesis using assms by auto
qed (use assms Restore_pool_nonempty[OF assms] in simp)

lemma pool_reach_pool_inv: "pool_reach p \<Longrightarrow> pool_inv p"
  by (induction rule: pool_reach.induct) (auto simp: New_pool_inv Acquire_cases Release_inv Restore_inv)

text \<open>C24: Whatever sequence of New, Acquire, Release and Restore calls led to a pool, its bitmap, lease maps,
  counter and cursor agree, and none of the operations indexes the bitmap out of range.\<close>

theorem pool_reach_inv:
  assumes "pool_reach p"
  shows "pool_inv p \<and> fst (Acquire p owner) \<noteq> Panic \<and> fst (Release p owner a) \<noteq> Panic \<and>
    fst (Restore_pool p leases) \<noteq> Panic"
proof -
  have "pool_inv p" using assms by (rule pool_reach_pool_inv)
  then show ?thesis by (simp add: Acquire_cases Release_inv Restore_inv)
qed


text \<open>C21: Every leased address, also the only one of a pool, is an address of the pool's prefix that is neither its
  network address, nor its broadcast address, nor the gateway; and no other session holds it.\<close>

theorem pool_no_double_allocation:
  assumes "pool_reach p" "Find_lease p o1 = Some l1"
  shows "Contains (p_prefix p) (lease_Addr l1) \<and>
    lease_Addr l1 \<notin> {addr p 0, addr p (p_gateway p), addr p (p_size p - 1)} \<and>
    (\<forall>o2 l2. o2 \<noteq> o1 \<longrightarrow> Find_lease p o2 = Some l2 \<longrightarrow> lease_Addr l2 \<noteq> lease_Addr l1)"
proof -
  have inv: "pool_inv p" using assms(1) by (rule pool_reach_pool_inv)
  from assms(2) obtain x where x: "p_byOwner p o1 = Some x" "lease_Addr l1 = addr p x"
    by (auto simp: Find_lease_def split: option.splits)
  have cfg: "pool_config p" using inv by (simp add: pool_inv_def)
  note ok = leasable_addr[OF cfg pool_inv_offset(2)[OF inv x(1)]]
  have "lease_Addr l2 \<noteq> lease_Addr l1" if o: "o2 \<noteq> o1" and l: "Find_lease p o2 = Some l2" for o2 l2
  proof -
    from l obtain y where y: "p_byOwner p o2 = Some y" "lease_Addr l2 = addr p y"
      by (auto simp: Find_lease_def split: option.splits)
    have "x \<noteq> y" using inverse_maps_inj[of "p_byOwner p" "p_ownerBy p" o1 y o2] inv x(1) y(1) o
      by (auto simp: pool_inv_def)
    then show ?thesis using ok by (simp add: x y)
  qed
  then show ?thesis using ok by (simp add: x)
qed

text \<open>C12: Acquire is idempotent for an owner that holds a lease, reports exhaustion exactly when the limit is
  reached, and otherwise always finds an address nobody holds and leaves every other lease alone.\<close>

theorem Acquire_spec:
  assumes "pool_reach p" "owner \<noteq> []"
  shows "case p_byOwner p owner of
      Some off \<Rightarrow> Acquire p owner = (Ok \<lparr>lease_Owner = owner, lease_Addr = addr p off\<rparr>, p)
    | None \<Rightarrow> if p_used p \<ge> p_limit p then Acquire p owner = (Err ErrExhausted_ipam, p)
        else \<exists>lease q. Acquire p owner = (Ok lease, q) \<and> Find_lease p = (Find_lease q)(owner := None) \<and>
          Find_lease q owner = Some lease \<and> (\<forall>o2 l2. Find_lease p o2 = Some l2 \<longrightarrow> lease_Addr l2 \<noteq> lease_Addr lease) \<and>
          p_used q = p_used p + 1"
proof -
  have inv: "pool_inv p" using assms(1) by (rule pool_reach_pool_inv)
  show ?thesis
  proof (cases "p_byOwner p owner = None \<and> p_used p < p_limit p")
    case True
    obtain off c bm where a: "Acquire p owner = (Ok \<lparr>lease_Owner = owner, lease_Addr = addr p off\<rparr>,
       p\<lparr>p_cursor := c, p_bitmap := bm, p_byOwner := (p_byOwner p)(owner \<mapsto> off),
         p_ownerBy := (p_ownerBy p)(off \<mapsto> owner), p_used := p_used p + 1\<rparr>)" and off: "p_ownerBy p off = None"
      using Acquire_new[OF inv assms(2)] True by metis
    have "lease_Addr l2 \<noteq> addr p off" if "Find_lease p o2 = Some l2" for o2 l2
      using that off pool_inv_offset(1)[OF inv, of o2] by (auto simp: Find_lease_def split: option.splits)
    with a True show ?thesis by (auto simp: fun_eq_iff Find_lease_def split: option.split)
  next
    case False
    then show ?thesis using assms(2) by (auto simp: Acquire_def split: option.splits)
  qed
qed

text \<open>Releasing a lease frees exactly that lease, and an address that was released can be leased again.\<close>

theorem Release_spec:
  assumes "pool_reach p" "Find_lease p owner = Some l"
  shows "\<exists>q. Release p owner (lease_Addr l) = (Ok (), q) \<and> Find_lease q = (Find_lease p)(owner := None) \<and>
    p_used q = p_used p - 1 \<and> (\<forall>other. other \<noteq> [] \<longrightarrow> (\<exists>lease. fst (Acquire q other) = Ok lease))"
proof -
  have inv: "pool_inv p" using assms(1) by (rule pool_reach_pool_inv)
  from assms(2) obtain off where off: "p_byOwner p owner = Some off" "lease_Addr l = addr p off"
    by (auto simp: Find_lease_def split: option.splits)
  have "owner \<noteq> []" using inv off(1) by (auto simp: pool_inv_def)
  then obtain bm c where r: "Release p owner (addr p off) = (Ok (), p\<lparr>p_byOwner := (p_byOwner p)(owner := None),
      p_ownerBy := (p_ownerBy p)(off := None), p_bitmap := bm, p_used := p_used p - 1, p_cursor := c\<rparr>)"
    and q: "pool_inv (p\<lparr>p_byOwner := (p_byOwner p)(owner := None), p_ownerBy := (p_ownerBy p)(off := None),
     p_bitmap := bm, p_used := p_used p - 1, p_cursor := c\<rparr>)" (is "pool_inv ?q")
    using Release_Ok[OF inv _ off(1)] by metis
  have room: "p_used ?q < p_limit ?q" using inv by (simp add: pool_inv_def)
  have "\<exists>lease. fst (Acquire ?q other) = Ok lease" if "other \<noteq> []" for other
  proof (cases "p_byOwner ?q other")
    case None
    show ?thesis by (rule Acquire_new[OF q that None room]) simp
  qed (use that in \<open>simp add: Acquire_def\<close>)
  moreover have "Find_lease ?q = (Find_lease p)(owner := None)" by (auto simp: fun_eq_iff Find_lease_def split: option.split)
  ultimately show ?thesis using r off(2) by simp
qed

section \<open>A concrete pool\<close>

text \<open>The pool 10.0.0.0/29 with gateway 10.0.0.1, empty and with one lease.\<close>

definition sample_pool :: Pool where
  "sample_pool = \<lparr>p_prefix = \<lparr>pfx_Addr = Addr4 0x0a000000, pfx_Bits = 29\<rparr>, p_base = 0x0a000000, p_size = 8,
     p_gateway = 1, p_limit = 5, p_used = 0, p_cursor = 1, p_bitmap = [0x83],
     p_byOwner = Map.empty, p_ownerBy = Map.empty\<rparr>"

lemma New_sample_pool:
  "New_pool \<lparr>pfx_Addr = Addr4 0x0a000005, pfx_Bits = 29\<rparr> (Addr4 0x0a000001) 0 = Ok sample_pool"
proof -
  have m: "(0x0a000005 :: 32 word) AND NOT (mask 3) = 0x0a000000" by (simp add: mask_eq_exp_minus_1)
  show ?thesis
  by (simp add: m New_pool_def sample_pool_def prefix_IsValid_def IsValid_def Masked_def masked4_def Contains_def
      contains4_def Let_def maxPoolAddresses_def mark_def bitmap_mark_def drop_bit_eq_div)
qed

definition sample_owner :: gostring where "sample_owner = [0x61]"

definition sample_leased :: Pool where
  "sample_leased = sample_pool\<lparr>p_used := 1, p_cursor := 3, p_bitmap := [0x87],
     p_byOwner := [sample_owner \<mapsto> 2], p_ownerBy := [2 \<mapsto> sample_owner]\<rparr>"

lemma Acquire_sample:
  "Acquire sample_pool sample_owner =
     (Ok \<lparr>lease_Owner = sample_owner, lease_Addr = Addr4 0x0a000002\<rparr>, sample_leased)"
proof -
  note loop = acquire_loop.simps(2)[of "pred_numeral n" for n, folded numeral_eq_Suc]
  show ?thesis
    unfolding Acquire_def
    by (simp add: loop sample_pool_def sample_leased_def sample_owner_def advance_cursor_def marked_def mark_def bitmap_marked_def
      bitmap_mark_def Let_def)
qed

lemma sample_reach: "pool_reach sample_pool" "pool_reach sample_leased"
proof -
  show "pool_reach sample_pool" using New_sample_pool by (rule reach_New)
  then have "pool_reach (snd (Acquire sample_pool sample_owner))" by (rule reach_Acquire)
  then show "pool_reach sample_leased" by (simp add: Acquire_sample)
qed


theorem pool_reach_inv_witness: "fst (Release sample_leased sample_owner (Addr4 7)) \<noteq> Panic"
  using pool_reach_inv[OF sample_reach(2)] by blast

theorem pool_no_double_allocation_witness:
  "Find_lease (snd (Acquire sample_leased [0x62])) [0x62] = Some \<lparr>lease_Owner = [0x62], lease_Addr = Addr4 0x0a000003\<rparr> \<and>
   Addr4 0x0a000003 \<noteq> Addr4 0x0a000002"
proof -
  note loop = acquire_loop.simps(2)[of "pred_numeral n" for n, folded numeral_eq_Suc]
  let ?p = "snd (Acquire sample_leased [0x62])"
  have r: "pool_reach ?p" using sample_reach(2) by (rule reach_Acquire)
  have l: "Find_lease ?p [0x62] = Some \<lparr>lease_Owner = [0x62], lease_Addr = Addr4 0x0a000003\<rparr>"
    "Find_lease ?p sample_owner = Some \<lparr>lease_Owner = sample_owner, lease_Addr = Addr4 0x0a000002\<rparr>"
    unfolding Acquire_def
    by (simp_all add: loop sample_pool_def sample_leased_def sample_owner_def advance_cursor_def marked_def mark_def
      bitmap_marked_def bitmap_mark_def Let_def Find_lease_def)
  have o: "sample_owner \<noteq> [0x62]" by (simp add: sample_owner_def)
  from pool_no_double_allocation[OF r l(1)] o l show ?thesis by fastforce
qed

theorem Acquire_spec_witness:
  "\<exists>lease q. Acquire sample_leased [0x62] = (Ok lease, q) \<and> lease_Addr lease \<noteq> Addr4 0x0a000002"
proof -
  have "Find_lease sample_leased sample_owner = Some \<lparr>lease_Owner = sample_owner, lease_Addr = Addr4 0x0a000002\<rparr>"
    by (simp add: Find_lease_def sample_leased_def sample_pool_def)
  moreover have "p_byOwner sample_leased [0x62] = None" "\<not> p_limit sample_leased \<le> p_used sample_leased"
    by (simp_all add: sample_leased_def sample_pool_def sample_owner_def)
  ultimately show ?thesis using Acquire_spec[OF sample_reach(2), of "[0x62]"] by fastforce
qed

theorem Restore_Snapshot_pool_witness:
  "\<exists>r. Restore_pool sample_pool (Snapshot_pool sample_leased) = (Ok (), r) \<and> Find_lease r sample_owner =
     Some \<lparr>lease_Owner = sample_owner, lease_Addr = Addr4 0x0a000002\<rparr>"
proof -
  have "Find_lease sample_leased sample_owner = Some \<lparr>lease_Owner = sample_owner, lease_Addr = Addr4 0x0a000002\<rparr>"
    by (simp add: Find_lease_def sample_leased_def sample_pool_def)
  moreover have "p_byOwner sample_pool = Map.empty" "p_base sample_pool = p_base sample_leased"
    "p_size sample_pool = p_size sample_leased" "p_gateway sample_pool = p_gateway sample_leased"
    "p_limit sample_pool = p_limit sample_leased" by (simp_all add: sample_leased_def sample_pool_def)
  note Restore_Snapshot_pool[OF pool_reach_pool_inv[OF sample_reach(2)] pool_reach_pool_inv[OF sample_reach(1)] this]
  ultimately show ?thesis by auto
qed

end
