(* ===== verification/Sgwc_Session.thy ===== *)
theory Sgwc_Session
  imports Netip Go_Strings Index_Maps
begin

text \<open>
  The session store of the serving gateway control plane, \<^verbatim>\<open>internal/sgwc/session/store.go\<close>: the table of
  sessions, its five indexes (S11 TEID, S5 TEID, PFCP control SEID, owner, subscriber and bearer), revisions for
  optimistic concurrency and the write-ahead persister, whose failure poisons the store. Every operation holds
  the store's lock, so operations are atomic steps. The persister is an interface of the code: its state is the
  type parameter \<open>'w\<close> and its \<^verbatim>\<open>Commit\<close> an argument of the operations. Stored sessions are values (the code clones
  at every boundary). A dereference of a missing table entry is a panic.
\<close>

section \<open>Data\<close>

datatype sgwc_error = ErrNotFound_sgwc | ErrConflict_sgwc | ErrDuplicate_sgwc | ErrCapacity_sgwc
  | ErrInvalidSession_sgwc | ErrPersistence_sgwc | ErrPoisoned_sgwc | ErrTEIDSpaceExhausted_sgwc | MutationError

definition DefaultMaxSessions_sgwc :: int where "DefaultMaxSessions_sgwc = 1000000"

text \<open>Instants, as nanoseconds since the zero value of \<^verbatim>\<open>time.Time\<close>.\<close>

type_synonym time = int

record FTEID_sgwc =
  ft_TEID :: "32 word"
  ft_IP :: Addr

record RuleIDs_sgwc =
  ri_UplinkPDR :: "16 word"
  ri_DownlinkPDR :: "16 word"
  ri_UplinkFAR :: "32 word"
  ri_DownlinkFAR :: "32 word"
  ri_QER :: "32 word"
  ri_URR :: "32 word"

record Bearer_sgwc =
  b_EBI :: byte
  b_QCI :: byte
  b_ARP :: byte
  b_PreemptionCapable :: bool
  b_PreemptionVulnerable :: bool
  b_UplinkMBR :: "64 word"
  b_DownlinkMBR :: "64 word"
  b_UplinkGBR :: "64 word"
  b_DownlinkGBR :: "64 word"
  b_Default :: bool
  b_State :: gostring
  b_ENBUser :: FTEID_sgwc
  b_SGWUAccess :: FTEID_sgwc
  b_SGWUCore :: FTEID_sgwc
  b_PGWUser :: FTEID_sgwc
  b_Rules :: RuleIDs_sgwc

record Session_sgwc =
  ss_ID :: "64 word"
  ss_Revision :: "64 word"
  ss_SubscriberKey :: gostring
  ss_APN :: gostring
  ss_State :: gostring
  ss_MMEControl :: FTEID_sgwc
  ss_S11Control :: FTEID_sgwc
  ss_S5Control :: FTEID_sgwc
  ss_PGWControl :: FTEID_sgwc
  ss_PFCPControlSEID :: "64 word"
  ss_PFCPUserSEID :: "64 word"
  ss_Bearers :: "byte \<rightharpoonup> Bearer_sgwc"
  ss_CreatedAt :: time
  ss_UpdatedAt :: time

text \<open>A successful commit and the persister's state after it.\<close>

type_synonym 'w commit_sgwc = "Session_sgwc option \<Rightarrow> Session_sgwc option \<Rightarrow> 'w \<Rightarrow> bool \<times> 'w"

record 'w Store_sgwc =
  st_byID :: "64 word \<rightharpoonup> Session_sgwc"
  st_byS11 :: "32 word \<rightharpoonup> 64 word set"
  st_byS5 :: "32 word \<rightharpoonup> 64 word"
  st_byPFCP :: "64 word \<rightharpoonup> 64 word"
  st_byOwner :: "gostring \<rightharpoonup> 64 word"
  st_byBearer :: "gostring \<times> byte \<rightharpoonup> 64 word"
  st_nextID :: "64 word"
  st_max :: int
  st_persister :: "'w option"
  st_poisoned :: bool

definition NewStoreWithPersister_sgwc :: "int \<Rightarrow> 'w option \<Rightarrow> 'w Store_sgwc" where
  "NewStoreWithPersister_sgwc maxSessions persister =
     \<lparr>st_byID = Map.empty, st_byS11 = Map.empty, st_byS5 = Map.empty, st_byPFCP = Map.empty,
      st_byOwner = Map.empty, st_byBearer = Map.empty, st_nextID = 0,
      st_max = (if maxSessions \<le> 0 then DefaultMaxSessions_sgwc else maxSessions),
      st_persister = persister, st_poisoned = False\<rparr>"

section \<open>Keys and validation\<close>

definition ownerKey_sgwc :: "gostring \<Rightarrow> gostring \<Rightarrow> gostring" where
  "ownerKey_sgwc subscriberKey apn = subscriberKey @ [0] @ ToLower apn"

definition bearerOwnerKey_sgwc :: "gostring \<Rightarrow> byte \<Rightarrow> gostring \<times> byte" where
  "bearerOwnerKey_sgwc subscriberKey ebi = (subscriberKey, ebi)"

definition sameS11Owner_sgwc :: "Session_sgwc \<Rightarrow> Session_sgwc \<Rightarrow> bool" where
  "sameS11Owner_sgwc left right \<longleftrightarrow> ss_SubscriberKey left = ss_SubscriberKey right \<and>
     ss_MMEControl left = ss_MMEControl right \<and> ss_S11Control left = ss_S11Control right"

definition bearersOverlap_sgwc :: "Session_sgwc \<Rightarrow> Session_sgwc \<Rightarrow> bool" where
  "bearersOverlap_sgwc left right \<longleftrightarrow> (\<exists>ebi \<in> dom (ss_Bearers left). ss_Bearers right ebi \<noteq> None)"

definition blank :: "byte \<Rightarrow> bool" where
  "blank c \<longleftrightarrow> c = 0x20 \<or> c = 0x09 \<or> c = 0x0d \<or> c = 0x0a"

text \<open>The loop over the bearers: whether it stops with an error, and the number of default bearers it counts.\<close>

definition invalid_bearers :: "(byte \<rightharpoonup> Bearer_sgwc) \<Rightarrow> bool" where
  "invalid_bearers bearers \<longleftrightarrow> (\<exists>key \<in> dom bearers. let bearer = the (bearers key) in
     key \<noteq> b_EBI bearer \<or> b_EBI bearer < 5 \<or> b_EBI bearer > 15 \<or> b_QCI bearer = 0)"

definition defaultBearers :: "(byte \<rightharpoonup> Bearer_sgwc) \<Rightarrow> nat" where
  "defaultBearers bearers = (\<Sum>key \<in> dom bearers. if b_Default (the (bearers key)) then 1 else 0)"

definition validate_sgwc :: "Session_sgwc \<Rightarrow> (sgwc_error, unit) outcome" where
  "validate_sgwc candidate =
     (if ss_SubscriberKey candidate = [] \<or> ss_APN candidate = [] \<or> ft_TEID (ss_S11Control candidate) = 0 \<or>
         ft_TEID (ss_S5Control candidate) = 0 \<or> ss_PFCPControlSEID candidate = 0 \<or> ss_PFCPUserSEID candidate = 0
      then Err ErrInvalidSession_sgwc
      else if length (ss_APN candidate) > 100 \<or> list_ex blank (ss_APN candidate) then Err ErrInvalidSession_sgwc
      else if invalid_bearers (ss_Bearers candidate) then Err ErrInvalidSession_sgwc
      else if defaultBearers (ss_Bearers candidate) \<noteq> 1 then Err ErrInvalidSession_sgwc
      else Ok ())"

text \<open>The index keys of a session's bearers.\<close>

definition bearer_keys :: "Session_sgwc \<Rightarrow> (gostring \<times> byte) set" where
  "bearer_keys s = bearerOwnerKey_sgwc (ss_SubscriberKey s) ` dom (ss_Bearers s)"

section \<open>Persistence\<close>

definition persist_sgwc ::
  "'w commit_sgwc \<Rightarrow> Session_sgwc option \<Rightarrow> Session_sgwc option \<Rightarrow> 'w Store_sgwc \<Rightarrow>
   (sgwc_error, unit) outcome \<times> 'w Store_sgwc" where
  "persist_sgwc commit previous nxt s =
     (case st_persister s of
        None \<Rightarrow> (Ok (), s)
      | Some w \<Rightarrow>
          (case commit previous nxt w of
             (True, w') \<Rightarrow> (Ok (), s\<lparr>st_persister := Some w'\<rparr>)
           | (False, w') \<Rightarrow> (Err ErrPersistence_sgwc, s\<lparr>st_persister := Some w', st_poisoned := True\<rparr>)))"

section \<open>Create\<close>

text \<open>The check of the sessions that already use the S11 tunnel; \<^verbatim>\<open>*existing\<close> panics on a dangling identifier.\<close>

definition s11_conflict :: "'w Store_sgwc \<Rightarrow> Session_sgwc \<Rightarrow> 64 word set \<Rightarrow> (sgwc_error, bool) outcome" where
  "s11_conflict s candidate ids =
     (if \<exists>sid \<in> ids. st_byID s sid = None then Panic
      else Ok (\<exists>sid \<in> ids. let existing = the (st_byID s sid) in
        \<not> sameS11Owner_sgwc existing candidate \<or> bearersOverlap_sgwc existing candidate))"

definition ids_of :: "64 word set option \<Rightarrow> 64 word set" where
  "ids_of ids = (case ids of None \<Rightarrow> {} | Some S \<Rightarrow> S)"

definition insert_sgwc :: "Session_sgwc \<Rightarrow> 'w Store_sgwc \<Rightarrow> 'w Store_sgwc" where
  "insert_sgwc candidate s =
     (let sid = ss_ID candidate; s11 = ft_TEID (ss_S11Control candidate) in
      s\<lparr>st_byID := (st_byID s)(sid \<mapsto> candidate),
        st_byS11 := (st_byS11 s)(s11 \<mapsto> insert sid (ids_of (st_byS11 s s11))),
        st_byS5 := (st_byS5 s)(ft_TEID (ss_S5Control candidate) \<mapsto> sid),
        st_byPFCP := (st_byPFCP s)(ss_PFCPControlSEID candidate \<mapsto> sid),
        st_byOwner := (st_byOwner s)(ownerKey_sgwc (ss_SubscriberKey candidate) (ss_APN candidate) \<mapsto> sid),
        st_byBearer := index_put (bearer_keys candidate) sid (st_byBearer s)\<rparr>)"

definition Create_sgwc ::
  "'w commit_sgwc \<Rightarrow> time \<Rightarrow> Session_sgwc \<Rightarrow> 'w Store_sgwc \<Rightarrow>
   (sgwc_error, Session_sgwc) outcome \<times> 'w Store_sgwc" where
  "Create_sgwc commit now candidate s =
     (case validate_sgwc candidate of
        Err e \<Rightarrow> (Err e, s) | Panic \<Rightarrow> (Panic, s)
      | Ok _ \<Rightarrow>
          if st_poisoned s then (Err ErrPoisoned_sgwc, s)
          else if st_byOwner s (ownerKey_sgwc (ss_SubscriberKey candidate) (ss_APN candidate)) \<noteq> None
          then (Err ErrDuplicate_sgwc, s)
          else if \<exists>ebi \<in> dom (ss_Bearers candidate).
              st_byBearer s (bearerOwnerKey_sgwc (ss_SubscriberKey candidate) ebi) \<noteq> None
          then (Err ErrDuplicate_sgwc, s)
          else case s11_conflict s candidate (ids_of (st_byS11 s (ft_TEID (ss_S11Control candidate)))) of
              Panic \<Rightarrow> (Panic, s) | Err e \<Rightarrow> (Err e, s) | Ok True \<Rightarrow> (Err ErrDuplicate_sgwc, s)
            | Ok False \<Rightarrow>
                if st_byS5 s (ft_TEID (ss_S5Control candidate)) \<noteq> None then (Err ErrDuplicate_sgwc, s)
                else if st_byPFCP s (ss_PFCPControlSEID candidate) \<noteq> None then (Err ErrDuplicate_sgwc, s)
                else if int (card (dom (st_byID s))) \<ge> st_max s then (Err ErrCapacity_sgwc, s)
                else
                  let s1 = s\<lparr>st_nextID := st_nextID s + 1\<rparr>;
                      candidate = candidate\<lparr>ss_ID := st_nextID s1, ss_Revision := 1,
                        ss_CreatedAt := now, ss_UpdatedAt := now\<rparr> in
                  (case persist_sgwc commit None (Some candidate) s1 of
                     (Ok _, s2) \<Rightarrow> (Ok candidate, insert_sgwc candidate s2)
                   | (Err e, s2) \<Rightarrow> (Err e, s2)
                   | (Panic, s2) \<Rightarrow> (Panic, s2)))"

section \<open>Lookups\<close>

definition deref :: "'w Store_sgwc \<Rightarrow> 64 word \<Rightarrow> (sgwc_error, Session_sgwc option) outcome" where
  "deref s sid = (case st_byID s sid of None \<Rightarrow> Panic | Some stored \<Rightarrow> Ok (Some stored))"

definition Find_sgwc :: "'w Store_sgwc \<Rightarrow> 64 word \<Rightarrow> Session_sgwc option" where
  "Find_sgwc s sid = st_byID s sid"

definition newestID_sgwc :: "64 word set \<Rightarrow> 64 word \<times> bool" where
  "newestID_sgwc ids = (let newest = Max (insert 0 ids) in (newest, newest \<noteq> 0))"

definition sortedIDs_sgwc :: "64 word set \<Rightarrow> 64 word list" where
  "sortedIDs_sgwc ids = sorted_list_of_set ids"

definition FindByS11TEID_sgwc :: "'w Store_sgwc \<Rightarrow> 32 word \<Rightarrow> (sgwc_error, Session_sgwc option) outcome" where
  "FindByS11TEID_sgwc s teid =
     (case newestID_sgwc (ids_of (st_byS11 s teid)) of (sid, ok) \<Rightarrow> if \<not> ok then Ok None else deref s sid)"

fun find_bearer :: "'w Store_sgwc \<Rightarrow> byte \<Rightarrow> 64 word list \<Rightarrow> (sgwc_error, Session_sgwc option) outcome" where
  "find_bearer s ebi [] = Ok None"
| "find_bearer s ebi (sid # ids) =
     (case st_byID s sid of None \<Rightarrow> Panic
      | Some stored \<Rightarrow> if ss_Bearers stored ebi \<noteq> None then Ok (Some stored) else find_bearer s ebi ids)"

definition FindByS11TEIDAndEBI_sgwc ::
  "'w Store_sgwc \<Rightarrow> 32 word \<Rightarrow> byte \<Rightarrow> (sgwc_error, Session_sgwc option) outcome" where
  "FindByS11TEIDAndEBI_sgwc s teid ebi = find_bearer s ebi (rev (sortedIDs_sgwc (ids_of (st_byS11 s teid))))"

definition FindAllByS11TEID_sgwc :: "'w Store_sgwc \<Rightarrow> 32 word \<Rightarrow> Session_sgwc list" where
  "FindAllByS11TEID_sgwc s teid = List.map_filter (st_byID s) (sortedIDs_sgwc (ids_of (st_byS11 s teid)))"

definition by_index :: "'w Store_sgwc \<Rightarrow> 64 word option \<Rightarrow> (sgwc_error, Session_sgwc option) outcome" where
  "by_index s found = (case found of None \<Rightarrow> Ok None | Some sid \<Rightarrow> deref s sid)"

definition FindByS5TEID_sgwc :: "'w Store_sgwc \<Rightarrow> 32 word \<Rightarrow> (sgwc_error, Session_sgwc option) outcome" where
  "FindByS5TEID_sgwc s teid = by_index s (st_byS5 s teid)"

definition FindByPFCPControlSEID_sgwc :: "'w Store_sgwc \<Rightarrow> 64 word \<Rightarrow> (sgwc_error, Session_sgwc option) outcome" where
  "FindByPFCPControlSEID_sgwc s seid = by_index s (st_byPFCP s seid)"

definition FindByOwner_sgwc :: "'w Store_sgwc \<Rightarrow> gostring \<Rightarrow> gostring \<Rightarrow> (sgwc_error, Session_sgwc option) outcome" where
  "FindByOwner_sgwc s subscriberKey apn = by_index s (st_byOwner s (ownerKey_sgwc subscriberKey apn))"

definition FindBySubscriberAndEBI_sgwc ::
  "'w Store_sgwc \<Rightarrow> gostring \<Rightarrow> byte \<Rightarrow> (sgwc_error, Session_sgwc option) outcome" where
  "FindBySubscriberAndEBI_sgwc s subscriberKey ebi =
     by_index s (st_byBearer s (bearerOwnerKey_sgwc subscriberKey ebi))"

section \<open>Update, Reconcile and Delete\<close>

text \<open>\<open>mutate\<close> is the caller's callback on a copy of the session; it may fail with an error of its own.\<close>

definition Update_sgwc ::
  "'w commit_sgwc \<Rightarrow> time \<Rightarrow> 64 word \<Rightarrow> 64 word \<Rightarrow> (Session_sgwc \<Rightarrow> (sgwc_error, Session_sgwc) outcome) option \<Rightarrow>
   'w Store_sgwc \<Rightarrow> (sgwc_error, Session_sgwc) outcome \<times> 'w Store_sgwc" where
  "Update_sgwc commit now sid expectedRevision mutate s =
     (case mutate of None \<Rightarrow> (Err ErrInvalidSession_sgwc, s)
      | Some mutate \<Rightarrow>
      if st_poisoned s then (Err ErrPoisoned_sgwc, s)
      else case st_byID s sid of None \<Rightarrow> (Err ErrNotFound_sgwc, s)
      | Some current \<Rightarrow>
      if ss_Revision current \<noteq> expectedRevision then (Err ErrConflict_sgwc, s)
      else case mutate current of Err e \<Rightarrow> (Err e, s) | Panic \<Rightarrow> (Panic, s)
      | Ok nxt \<Rightarrow>
      if ss_ID nxt \<noteq> ss_ID current \<or> ss_SubscriberKey nxt \<noteq> ss_SubscriberKey current \<or>
         \<not> EqualFold (ss_APN nxt) (ss_APN current) then (Err ErrInvalidSession_sgwc, s)
      else if ss_PFCPControlSEID nxt \<noteq> ss_PFCPControlSEID current \<or> ss_PFCPUserSEID nxt \<noteq> ss_PFCPUserSEID current
      then (Err ErrInvalidSession_sgwc, s)
      else case validate_sgwc nxt of Err e \<Rightarrow> (Err e, s) | Panic \<Rightarrow> (Panic, s)
      | Ok _ \<Rightarrow>
      if \<exists>siblingID \<in> ids_of (st_byS11 s (ft_TEID (ss_S11Control nxt))). siblingID \<noteq> sid \<and>
          (case st_byID s siblingID of None \<Rightarrow> False | Some sibling \<Rightarrow> bearersOverlap_sgwc sibling nxt)
      then (Err ErrDuplicate_sgwc, s)
      else if \<exists>ebi \<in> dom (ss_Bearers nxt).
          (case st_byBearer s (bearerOwnerKey_sgwc (ss_SubscriberKey nxt) ebi) of None \<Rightarrow> False
           | Some ownerID \<Rightarrow> ownerID \<noteq> sid)
      then (Err ErrDuplicate_sgwc, s)
      else if ss_S11Control nxt \<noteq> ss_S11Control current \<or> ss_MMEControl nxt \<noteq> ss_MMEControl current
      then (Err ErrInvalidSession_sgwc, s)
      else if ft_TEID (ss_S5Control nxt) \<noteq> ft_TEID (ss_S5Control current) \<and>
          st_byS5 s (ft_TEID (ss_S5Control nxt)) \<noteq> None
      then (Err ErrDuplicate_sgwc, s)
      else
        let nxt = nxt\<lparr>ss_Revision := ss_Revision nxt + 1, ss_UpdatedAt := now\<rparr> in
        (case persist_sgwc commit (Some current) (Some nxt) s of
           (Err e, s1) \<Rightarrow> (Err e, s1) | (Panic, s1) \<Rightarrow> (Panic, s1)
         | (Ok _, s1) \<Rightarrow>
             (Ok nxt,
              s1\<lparr>st_byS5 := (if ft_TEID (ss_S5Control nxt) \<noteq> ft_TEID (ss_S5Control current)
                   then (st_byS5 s1)(ft_TEID (ss_S5Control current) := None, ft_TEID (ss_S5Control nxt) \<mapsto> sid)
                   else st_byS5 s1),
                 st_byBearer := index_put (bearer_keys nxt) sid
                   (index_drop (bearerOwnerKey_sgwc (ss_SubscriberKey current) `
                      {ebi \<in> dom (ss_Bearers current). ss_Bearers nxt ebi = None}) (st_byBearer s1)),
                 st_byID := (st_byID s1)(sid \<mapsto> nxt)\<rparr>)))"

definition ReconcilePFCPUserSEID_sgwc ::
  "'w commit_sgwc \<Rightarrow> time \<Rightarrow> 64 word \<Rightarrow> 64 word \<Rightarrow> 64 word \<Rightarrow>
   'w Store_sgwc \<Rightarrow> (sgwc_error, Session_sgwc) outcome \<times> 'w Store_sgwc" where
  "ReconcilePFCPUserSEID_sgwc commit now sid expectedRevision upSEID s =
     (if upSEID = 0 then (Err ErrInvalidSession_sgwc, s)
      else if st_poisoned s then (Err ErrPoisoned_sgwc, s)
      else case st_byID s sid of None \<Rightarrow> (Err ErrNotFound_sgwc, s)
      | Some current \<Rightarrow>
      if ss_Revision current \<noteq> expectedRevision then (Err ErrConflict_sgwc, s)
      else if ss_PFCPUserSEID current = upSEID then (Ok current, s)
      else
        let nxt = current\<lparr>ss_PFCPUserSEID := upSEID, ss_Revision := ss_Revision current + 1, ss_UpdatedAt := now\<rparr> in
        (case persist_sgwc commit (Some current) (Some nxt) s of
           (Err e, s1) \<Rightarrow> (Err e, s1) | (Panic, s1) \<Rightarrow> (Panic, s1)
         | (Ok _, s1) \<Rightarrow> (Ok nxt, s1\<lparr>st_byID := (st_byID s1)(sid \<mapsto> nxt)\<rparr>)))"

definition remove_sgwc :: "64 word \<Rightarrow> Session_sgwc \<Rightarrow> 'w Store_sgwc \<Rightarrow> 'w Store_sgwc" where
  "remove_sgwc sid current s =
     (let s11 = ft_TEID (ss_S11Control current) in
      s\<lparr>st_byID := (st_byID s)(sid := None),
        st_byS11 := (case st_byS11 s s11 of None \<Rightarrow> st_byS11 s
           | Some ids \<Rightarrow> if ids - {sid} = {} then (st_byS11 s)(s11 := None) else (st_byS11 s)(s11 \<mapsto> ids - {sid})),
        st_byS5 := (st_byS5 s)(ft_TEID (ss_S5Control current) := None),
        st_byPFCP := (st_byPFCP s)(ss_PFCPControlSEID current := None),
        st_byOwner := (st_byOwner s)(ownerKey_sgwc (ss_SubscriberKey current) (ss_APN current) := None),
        st_byBearer := index_drop (bearer_keys current) (st_byBearer s)\<rparr>)"

definition Delete_sgwc ::
  "'w commit_sgwc \<Rightarrow> 64 word \<Rightarrow> 64 word \<Rightarrow> 'w Store_sgwc \<Rightarrow> (sgwc_error, unit) outcome \<times> 'w Store_sgwc" where
  "Delete_sgwc commit sid expectedRevision s =
     (if st_poisoned s then (Err ErrPoisoned_sgwc, s)
      else case st_byID s sid of None \<Rightarrow> (Err ErrNotFound_sgwc, s)
      | Some current \<Rightarrow>
      if ss_Revision current \<noteq> expectedRevision then (Err ErrConflict_sgwc, s)
      else (case persist_sgwc commit (Some current) None s of
           (Err e, s1) \<Rightarrow> (Err e, s1) | (Panic, s1) \<Rightarrow> (Panic, s1)
         | (Ok _, s1) \<Rightarrow> (Ok (), remove_sgwc sid current s1)))"

section \<open>Snapshot and Restore\<close>

definition Snapshot_sgwc :: "'w Store_sgwc \<Rightarrow> Session_sgwc list" where
  "Snapshot_sgwc s = map (\<lambda>sid. the (st_byID s sid)) (sorted_list_of_set (dom (st_byID s)))"

definition Count_sgwc :: "'w Store_sgwc \<Rightarrow> nat" where "Count_sgwc s = card (dom (st_byID s))"
definition Capacity_sgwc :: "'w Store_sgwc \<Rightarrow> int" where "Capacity_sgwc s = st_max s"

text \<open>\<^verbatim>\<open>validateWALSession\<close> of \<^verbatim>\<open>wal.go\<close>.\<close>

definition validateWALSession_sgwc :: "Session_sgwc \<Rightarrow> (sgwc_error, unit) outcome" where
  "validateWALSession_sgwc candidate =
     (if ss_ID candidate = 0 \<or> ss_Revision candidate = 0 \<or> ss_CreatedAt candidate = 0 \<or> ss_UpdatedAt candidate = 0
      then Err ErrInvalidSession_sgwc
      else if ss_UpdatedAt candidate < ss_CreatedAt candidate then Err ErrInvalidSession_sgwc
      else validate_sgwc candidate)"

text \<open>
  One round of the restore loop, on a store whose tables are the local ones of the function; the table of
  bearers is filled before the remaining checks, as in the code.
\<close>

definition restore_one :: "Session_sgwc \<Rightarrow> 'w Store_sgwc \<Rightarrow> (sgwc_error, 'w Store_sgwc) outcome" where
  "restore_one candidate s =
     andThen (validateWALSession_sgwc candidate) (\<lambda>_.
     if st_byID s (ss_ID candidate) \<noteq> None then Err ErrDuplicate_sgwc
     else if st_byOwner s (ownerKey_sgwc (ss_SubscriberKey candidate) (ss_APN candidate)) \<noteq> None
     then Err ErrDuplicate_sgwc
     else if \<exists>key \<in> bearer_keys candidate. st_byBearer s key \<noteq> None then Err ErrDuplicate_sgwc
     else if st_byS5 s (ft_TEID (ss_S5Control candidate)) \<noteq> None then Err ErrDuplicate_sgwc
     else if st_byPFCP s (ss_PFCPControlSEID candidate) \<noteq> None then Err ErrDuplicate_sgwc
     else andThen (s11_conflict s candidate (ids_of (st_byS11 s (ft_TEID (ss_S11Control candidate))))) (\<lambda>conflict.
       if conflict then Err ErrDuplicate_sgwc
       else Ok ((insert_sgwc candidate s)\<lparr>st_nextID := max (st_nextID s) (ss_ID candidate)\<rparr>)))"

fun restore_all :: "Session_sgwc list \<Rightarrow> 'w Store_sgwc \<Rightarrow> (sgwc_error, 'w Store_sgwc) outcome" where
  "restore_all [] s = Ok s"
| "restore_all (candidate # recovered) s = andThen (restore_one candidate s) (restore_all recovered)"

definition Restore_sgwc :: "Session_sgwc list \<Rightarrow> 'w Store_sgwc \<Rightarrow> (sgwc_error, unit) outcome \<times> 'w Store_sgwc" where
  "Restore_sgwc recovered s =
     (if st_poisoned s then (Err ErrPoisoned_sgwc, s)
      else if card (dom (st_byID s)) \<noteq> 0 then (Err ErrConflict_sgwc, s)
      else if int (length recovered) > st_max s then (Err ErrCapacity_sgwc, s)
      else case restore_all recovered (s\<lparr>st_byID := Map.empty, st_byS11 := Map.empty, st_byS5 := Map.empty,
          st_byPFCP := Map.empty, st_byOwner := Map.empty, st_byBearer := Map.empty, st_nextID := 0\<rparr>) of
        Ok s' \<Rightarrow> (Ok (), s') | Err e \<Rightarrow> (Err e, s) | Panic \<Rightarrow> (Panic, s))"

text \<open>
  \<^verbatim>\<open>AllocateControlTEID\<close> on the random words the generator delivers (\<^verbatim>\<open>None\<close> is a failed read); at most 256
  are drawn.
\<close>

fun allocate_loop :: "nat \<Rightarrow> 32 word option list \<Rightarrow> 'w Store_sgwc \<Rightarrow> (sgwc_error + unit, 32 word) outcome" where
  "allocate_loop 0 draws s = Err (Inl ErrTEIDSpaceExhausted_sgwc)"
| "allocate_loop (Suc n) [] s = Err (Inr ())"
| "allocate_loop (Suc n) (None # draws) s = Err (Inr ())"
| "allocate_loop (Suc n) (Some candidate # draws) s =
     (if candidate = 0 then allocate_loop n draws s
      else if st_byS11 s candidate = None \<and> st_byS5 s candidate = None then Ok candidate
      else allocate_loop n draws s)"

definition AllocateControlTEID_sgwc :: "32 word option list \<Rightarrow> 'w Store_sgwc \<Rightarrow> (sgwc_error + unit, 32 word) outcome" where
  "AllocateControlTEID_sgwc draws s = allocate_loop 256 draws s"

section \<open>The indexes agree with the table\<close>

definition s5_keys :: "Session_sgwc \<Rightarrow> 32 word set" where "s5_keys x = {ft_TEID (ss_S5Control x)}"
definition pfcp_keys :: "Session_sgwc \<Rightarrow> 64 word set" where "pfcp_keys x = {ss_PFCPControlSEID x}"
definition owner_keys :: "Session_sgwc \<Rightarrow> gostring set" where
  "owner_keys x = {ownerKey_sgwc (ss_SubscriberKey x) (ss_APN x)}"

lemmas key_defs = s5_keys_def pfcp_keys_def owner_keys_def

definition s11_ok :: "(64 word \<rightharpoonup> Session_sgwc) \<Rightarrow> (32 word \<rightharpoonup> 64 word set) \<Rightarrow> bool" where
  "s11_ok t ix \<longleftrightarrow> (\<forall>teid. ix teid \<noteq> Some {} \<and>
     ids_of (ix teid) = {i. \<exists>x. t i = Some x \<and> ft_TEID (ss_S11Control x) = teid})"

definition store_ok :: "'w Store_sgwc \<Rightarrow> bool" where
  "store_ok s \<longleftrightarrow>
     index_ok s5_keys (st_byID s) (st_byS5 s) \<and> index_ok pfcp_keys (st_byID s) (st_byPFCP s) \<and>
     index_ok owner_keys (st_byID s) (st_byOwner s) \<and> index_ok bearer_keys (st_byID s) (st_byBearer s) \<and>
     s11_ok (st_byID s) (st_byS11 s) \<and>
     (\<forall>i x. st_byID s i = Some x \<longrightarrow> ss_ID x = i \<and> i \<noteq> 0 \<and> i \<le> st_nextID s \<and> validate_sgwc x = Ok ()) \<and>
     (\<forall>i x j y. st_byID s i = Some x \<longrightarrow> st_byID s j = Some y \<longrightarrow>
        ft_TEID (ss_S11Control x) = ft_TEID (ss_S11Control y) \<longrightarrow> sameS11Owner_sgwc x y)"

lemma store_okD:
  assumes "store_ok s"
  shows "index_ok s5_keys (st_byID s) (st_byS5 s)" "index_ok pfcp_keys (st_byID s) (st_byPFCP s)"
    "index_ok owner_keys (st_byID s) (st_byOwner s)" "index_ok bearer_keys (st_byID s) (st_byBearer s)"
    "s11_ok (st_byID s) (st_byS11 s)"
    "st_byID s i = Some x \<Longrightarrow> ss_ID x = i \<and> i \<noteq> 0 \<and> i \<le> st_nextID s \<and> validate_sgwc x = Ok ()"
    "st_byID s i = Some x \<Longrightarrow> st_byID s j = Some y \<Longrightarrow>
       ft_TEID (ss_S11Control x) = ft_TEID (ss_S11Control y) \<Longrightarrow> sameS11Owner_sgwc x y"
  using assms unfolding store_ok_def by blast+

lemma ids_of_simps [simp]: "ids_of None = {}" "ids_of (Some S) = S"
  by (simp_all add: ids_of_def)

lemma sameS11Owner_sym: "sameS11Owner_sgwc x y \<Longrightarrow> sameS11Owner_sgwc y x"
  by (simp add: sameS11Owner_sgwc_def)

lemma sameS11Owner_refl [simp]: "sameS11Owner_sgwc x x"
  by (simp add: sameS11Owner_sgwc_def)

lemma s11_ok_ids: "s11_ok t ix \<Longrightarrow> ids_of (ix teid) = {i. \<exists>x. t i = Some x \<and> ft_TEID (ss_S11Control x) = teid}"
  by (simp add: s11_ok_def)

lemma s11_ok_insert:
  assumes "s11_ok t ix" "t i = None" "teid = ft_TEID (ss_S11Control x)"
  shows "s11_ok (t(i \<mapsto> x)) (ix(teid \<mapsto> insert i (ids_of (ix teid))))"
  using assms unfolding s11_ok_def by (auto simp: fun_upd_def)

lemma s11_ok_update:
  assumes "s11_ok t ix" "t i = Some x" "ft_TEID (ss_S11Control y) = ft_TEID (ss_S11Control x)"
  shows "s11_ok (t(i \<mapsto> y)) ix"
proof -
  have "{j. \<exists>z. (t(i \<mapsto> y)) j = Some z \<and> ft_TEID (ss_S11Control z) = teid} =
      {j. \<exists>z. t j = Some z \<and> ft_TEID (ss_S11Control z) = teid}" for teid
    using assms(2,3) by auto
  with assms(1) show ?thesis by (simp add: s11_ok_def)
qed

lemma s11_ok_delete:
  assumes ok: "s11_ok t ix" and t: "t i = Some x" and teid: "teid = ft_TEID (ss_S11Control x)"
  shows "s11_ok (t(i := None)) (case ix teid of None \<Rightarrow> ix
     | Some ids \<Rightarrow> if ids - {i} = {} then ix(teid := None) else ix(teid \<mapsto> ids - {i}))"
proof -
  have "i \<in> ids_of (ix teid)" using s11_ok_ids[OF ok] t teid by auto
  then obtain ids where ids: "ix teid = Some ids" by (cases "ix teid") auto
  have eq: "{j. \<exists>z. (t(i := None)) j = Some z \<and> ft_TEID (ss_S11Control z) = u} = ids_of (ix u) - {i}" for u
    using s11_ok_ids[OF ok, of u] by auto
  have out: "ids_of (ix u) - {i} = ids_of (ix u)" if "u \<noteq> teid" for u
    using s11_ok_ids[OF ok, of u] t teid that by auto
  have "ix u \<noteq> Some {}" for u using ok by (simp add: s11_ok_def)
  then show ?thesis
    unfolding s11_ok_def eq using ids out by (auto simp: fun_upd_def)
qed

lemma store_ok_insert:
  assumes ok: "store_ok s" and new: "st_byID s (ss_ID c) = None" "ss_ID c \<noteq> 0" "ss_ID c \<le> n" "st_nextID s \<le> n"
    and val: "validate_sgwc c = Ok ()"
    and keys: "st_byOwner s (ownerKey_sgwc (ss_SubscriberKey c) (ss_APN c)) = None"
      "\<forall>k \<in> bearer_keys c. st_byBearer s k = None" "st_byS5 s (ft_TEID (ss_S5Control c)) = None"
      "st_byPFCP s (ss_PFCPControlSEID c) = None"
    and s11: "s11_conflict s c (ids_of (st_byS11 s (ft_TEID (ss_S11Control c)))) = Ok False"
  shows "store_ok ((insert_sgwc c s)\<lparr>st_nextID := n\<rparr>)"
proof -
  let ?t = "(st_byID s)(ss_ID c \<mapsto> c)"
  note D = store_okD[OF ok]
  have own: "sameS11Owner_sgwc x c" if "st_byID s i = Some x" "ft_TEID (ss_S11Control x) = ft_TEID (ss_S11Control c)" for i x
  proof -
    have "i \<in> ids_of (st_byS11 s (ft_TEID (ss_S11Control c)))" using that s11_ok_ids[OF D(5)] by auto
    then show ?thesis using s11 that(1) by (auto simp: s11_conflict_def Let_def split: if_splits)
  qed
  have ix: "index_ok s5_keys ?t ((st_byS5 s)(ft_TEID (ss_S5Control c) \<mapsto> ss_ID c))"
    "index_ok pfcp_keys ?t ((st_byPFCP s)(ss_PFCPControlSEID c \<mapsto> ss_ID c))"
    "index_ok owner_keys ?t ((st_byOwner s)(ownerKey_sgwc (ss_SubscriberKey c) (ss_APN c) \<mapsto> ss_ID c))"
    "index_ok bearer_keys ?t (index_put (bearer_keys c) (ss_ID c) (st_byBearer s))"
    using index_ok_insert[OF D(1) new(1), of c] index_ok_insert[OF D(2) new(1), of c]
      index_ok_insert[OF D(3) new(1), of c] index_ok_insert[OF D(4) new(1), of c] keys
    by (simp_all add: key_defs index_put_singleton)
  have "s11_ok ?t ((st_byS11 s)(ft_TEID (ss_S11Control c) \<mapsto>
      insert (ss_ID c) (ids_of (st_byS11 s (ft_TEID (ss_S11Control c))))))"
    using D(5) new(1) by (rule s11_ok_insert) simp
  with ix show ?thesis
    unfolding store_ok_def insert_sgwc_def Let_def
    using D(6,7) new(2-4) val own by (auto intro: order_trans sameS11Owner_sym)
qed

lemma store_ok_remove:
  assumes ok: "store_ok s" and x: "st_byID s sid = Some x"
  shows "store_ok (remove_sgwc sid x s)"
proof -
  note D = store_okD[OF ok]
  have ix: "index_ok s5_keys ((st_byID s)(sid := None)) ((st_byS5 s)(ft_TEID (ss_S5Control x) := None))"
    "index_ok pfcp_keys ((st_byID s)(sid := None)) ((st_byPFCP s)(ss_PFCPControlSEID x := None))"
    "index_ok owner_keys ((st_byID s)(sid := None)) ((st_byOwner s)(ownerKey_sgwc (ss_SubscriberKey x) (ss_APN x) := None))"
    "index_ok bearer_keys ((st_byID s)(sid := None)) (index_drop (bearer_keys x) (st_byBearer s))"
    using index_ok_delete[OF D(1) x] index_ok_delete[OF D(2) x] index_ok_delete[OF D(3) x] index_ok_delete[OF D(4) x]
    by (simp_all add: key_defs index_drop_singleton)
  with s11_ok_delete[OF D(5) x refl] show ?thesis
    unfolding store_ok_def remove_sgwc_def Let_def using D(6,7) by (auto split: if_splits)
qed

section \<open>Every operation keeps the store consistent\<close>

lemma store_ok_persister [simp]:
  "store_ok (s\<lparr>st_persister := w\<rparr>) = store_ok s" "store_ok (s\<lparr>st_poisoned := b\<rparr>) = store_ok s"
  "store_ok (s\<lparr>st_persister := w, st_poisoned := b\<rparr>) = store_ok s"
  by (simp_all add: store_ok_def)

lemma store_ok_nextID: "store_ok s \<Longrightarrow> st_nextID s \<le> n \<Longrightarrow> store_ok (s\<lparr>st_nextID := n\<rparr>)"
  unfolding store_ok_def by (auto intro: order_trans)

lemma persist_cases:
  obtains (saved) w where "persist_sgwc commit previous nxt s = (Ok (), s\<lparr>st_persister := w\<rparr>)"
  | (failed) w where "persist_sgwc commit previous nxt s =
      (Err ErrPersistence_sgwc, s\<lparr>st_persister := w, st_poisoned := True\<rparr>)"
proof (cases "st_persister s")
  case None
  then have "persist_sgwc commit previous nxt s = (Ok (), s\<lparr>st_persister := None\<rparr>)"
    by (cases s) (simp add: persist_sgwc_def)
  then show thesis by (rule saved)
next
  case (Some w)
  obtain b w' where "commit previous nxt w = (b, w')" by (cases "commit previous nxt w")
  with Some saved[of "Some w'"] failed[of "Some w'"] show thesis by (cases b) (auto simp: persist_sgwc_def)
qed

lemma s11_conflict_no_panic:
  assumes "store_ok s"
  shows "s11_conflict s c (ids_of (st_byS11 s teid)) \<noteq> Panic"
proof -
  have "\<not> (\<exists>i \<in> ids_of (st_byS11 s teid). st_byID s i = None)"
    unfolding s11_ok_ids[OF store_okD(5)[OF assms], of teid] by fastforce
  then show ?thesis unfolding s11_conflict_def by (simp only: if_False outcome.distinct not_False_eq_True)
qed

lemma s11_conflict_cong: "st_byID s' = st_byID s \<Longrightarrow> s11_conflict s' = s11_conflict s"
  by (intro ext) (simp only: s11_conflict_def)

lemma s11_conflict_no_Err: "s11_conflict s c ids \<noteq> Err e"
  unfolding s11_conflict_def by (simp only: outcome.distinct not_False_eq_True split: if_split) blast

lemma validate_cases: "validate_sgwc c = Ok () \<or> validate_sgwc c = Err ErrInvalidSession_sgwc"
  by (simp add: validate_sgwc_def)

text \<open>What a successful Create has checked, and what every other outcome leaves unchanged.\<close>

definition creatable :: "'w Store_sgwc \<Rightarrow> Session_sgwc \<Rightarrow> bool" where
  "creatable s c \<longleftrightarrow> validate_sgwc c = Ok () \<and> \<not> st_poisoned s \<and>
     st_byOwner s (ownerKey_sgwc (ss_SubscriberKey c) (ss_APN c)) = None \<and>
     (\<forall>k \<in> bearer_keys c. st_byBearer s k = None) \<and>
     s11_conflict s c (ids_of (st_byS11 s (ft_TEID (ss_S11Control c)))) = Ok False \<and>
     st_byS5 s (ft_TEID (ss_S5Control c)) = None \<and> st_byPFCP s (ss_PFCPControlSEID c) = None \<and>
     int (card (dom (st_byID s))) < st_max s"

definition stamped :: "time \<Rightarrow> 'w Store_sgwc \<Rightarrow> Session_sgwc \<Rightarrow> Session_sgwc" where
  "stamped now s c = c\<lparr>ss_ID := st_nextID s + 1, ss_Revision := 1, ss_CreatedAt := now, ss_UpdatedAt := now\<rparr>"

lemma bearer_keys_free:
  "(\<forall>k \<in> bearer_keys c. ix k = None) \<longleftrightarrow>
     \<not> (\<exists>ebi \<in> dom (ss_Bearers c). ix (bearerOwnerKey_sgwc (ss_SubscriberKey c) ebi) \<noteq> None)"
  unfolding bearer_keys_def by (simp only: ball_simps bex_simps not_not)

lemma Create_creatable:
  "creatable s c \<Longrightarrow> Create_sgwc commit now c s =
     (case persist_sgwc commit None (Some (stamped now s c)) (s\<lparr>st_nextID := st_nextID s + 1\<rparr>) of
        (Ok _, s2) \<Rightarrow> (Ok (stamped now s c), insert_sgwc (stamped now s c) s2)
      | (Err e, s2) \<Rightarrow> (Err e, s2) | (Panic, s2) \<Rightarrow> (Panic, s2))"
  unfolding creatable_def Create_sgwc_def stamped_def bearer_keys_free Let_def
  by (simp add: not_le split: prod.splits outcome.splits)

lemma Create_not_creatable:
  assumes "store_ok s" "\<not> creatable s c"
  shows "\<exists>e. Create_sgwc commit now c s = (Err e, s) \<and> e \<noteq> ErrPersistence_sgwc"
proof (cases "s11_conflict s c (ids_of (st_byS11 s (ft_TEID (ss_S11Control c))))")
  case (Ok b)
  define dup where "dup \<longleftrightarrow> (\<exists>ebi \<in> dom (ss_Bearers c). st_byBearer s (bearerOwnerKey_sgwc (ss_SubscriberKey c) ebi) \<noteq> None)"
  show ?thesis
    using validate_cases[of c] assms(2)
    unfolding creatable_def Create_sgwc_def bearer_keys_free dup_def[symmetric] Ok
    by (cases b; cases "validate_sgwc c") (auto simp: not_less)
next
  case (Err e)
  then show ?thesis by (simp add: s11_conflict_no_Err)
next
  case Panic
  with s11_conflict_no_panic[OF assms(1)] show ?thesis by blast
qed

lemma stamped_fields [simp]:
  "ss_ID (stamped now s c) = st_nextID s + 1" "ss_Revision (stamped now s c) = 1"
  "ss_SubscriberKey (stamped now s c) = ss_SubscriberKey c" "ss_APN (stamped now s c) = ss_APN c"
  "ss_S5Control (stamped now s c) = ss_S5Control c" "ss_S11Control (stamped now s c) = ss_S11Control c"
  "ss_PFCPControlSEID (stamped now s c) = ss_PFCPControlSEID c" "ss_PFCPUserSEID (stamped now s c) = ss_PFCPUserSEID c"
  "ss_MMEControl (stamped now s c) = ss_MMEControl c" "ss_Bearers (stamped now s c) = ss_Bearers c"
  by (simp_all add: stamped_def)

lemma stamped_checks [simp]:
  "validate_sgwc (stamped now s c) = validate_sgwc c" "bearer_keys (stamped now s c) = bearer_keys c"
  "s11_conflict s' (stamped now s c) ids = s11_conflict s' c ids"
  by (simp_all only: validate_sgwc_def bearer_keys_def s11_conflict_def sameS11Owner_sgwc_def
      bearersOverlap_sgwc_def stamped_fields)

lemma fresh_ID:
  assumes "store_ok s" "st_nextID s \<noteq> - 1"
  shows "st_byID s (st_nextID s + 1) = None" "st_nextID s + 1 \<noteq> 0" "st_nextID s \<le> st_nextID s + 1"
proof -
  have "st_nextID s < - 1" using assms(2) by (metis word_order.not_eq_extremum)
  then have u: "unat (st_nextID s + 1) = Suc (unat (st_nextID s))" by (metis Suc_eq_plus1 add.commute unatSuc add_eq_0_iff assms(2))
  then show "st_nextID s \<le> st_nextID s + 1" by (simp add: word_le_nat_alt)
  show "st_nextID s + 1 \<noteq> 0" using u by (metis nat.distinct(1) unat_0)
  have "\<not> st_nextID s + 1 \<le> st_nextID s" using u by (simp add: word_le_nat_alt)
  then show "st_byID s (st_nextID s + 1) = None"
    using store_okD(6)[OF assms(1), of "st_nextID s + 1"] by (cases "st_byID s (st_nextID s + 1)") auto
qed

lemma store_ok_Create:
  assumes ok: "store_ok s" and id: "st_nextID s \<noteq> - 1"
  shows "store_ok (snd (Create_sgwc commit now c s))"
proof (cases "creatable s c")
  case True
  let ?c = "stamped now s c" and ?s = "s\<lparr>st_nextID := st_nextID s + 1\<rparr>"
  note f = fresh_ID[OF ok id]
  have s1: "store_ok ?s" using ok f(3) by (rule store_ok_nextID)
  show ?thesis
  proof (cases rule: persist_cases[of commit None "Some ?c" ?s])
    case (saved w)
    have "s11_conflict (?s\<lparr>st_persister := w\<rparr>) = s11_conflict s" by (rule s11_conflict_cong) simp
    then have "store_ok ((insert_sgwc ?c (?s\<lparr>st_persister := w\<rparr>))\<lparr>st_nextID := st_nextID s + 1\<rparr>)"
      using s1 f True by (intro store_ok_insert) (simp_all add: creatable_def)
    moreover have "(insert_sgwc ?c (?s\<lparr>st_persister := w\<rparr>))\<lparr>st_nextID := st_nextID s + 1\<rparr> = insert_sgwc ?c (?s\<lparr>st_persister := w\<rparr>)"
      by (simp add: insert_sgwc_def Let_def)
    ultimately show ?thesis by (simp add: Create_creatable[OF True] saved)
  next
    case (failed w)
    then show ?thesis using s1 by (simp add: Create_creatable[OF True])
  qed
next
  case False
  then show ?thesis using Create_not_creatable[OF ok False, of commit now] ok by auto
qed


text \<open>What a successful Update has checked, and the store it leaves.\<close>

definition updatable :: "'w Store_sgwc \<Rightarrow> 64 word \<Rightarrow> Session_sgwc \<Rightarrow> Session_sgwc \<Rightarrow> bool" where
  "updatable s sid current nxt \<longleftrightarrow>
     ss_ID nxt = ss_ID current \<and> ss_SubscriberKey nxt = ss_SubscriberKey current \<and>
     EqualFold (ss_APN nxt) (ss_APN current) \<and>
     ss_PFCPControlSEID nxt = ss_PFCPControlSEID current \<and> ss_PFCPUserSEID nxt = ss_PFCPUserSEID current \<and>
     validate_sgwc nxt = Ok () \<and> (\<forall>k \<in> bearer_keys nxt. st_byBearer s k \<in> {None, Some sid}) \<and>
     ss_S11Control nxt = ss_S11Control current \<and> ss_MMEControl nxt = ss_MMEControl current \<and>
     st_byS5 s (ft_TEID (ss_S5Control nxt)) \<in> {None, Some sid}"

definition touched :: "time \<Rightarrow> Session_sgwc \<Rightarrow> Session_sgwc" where
  "touched now nxt = nxt\<lparr>ss_Revision := ss_Revision nxt + 1, ss_UpdatedAt := now\<rparr>"

definition replaced :: "64 word \<Rightarrow> Session_sgwc \<Rightarrow> Session_sgwc \<Rightarrow> 'w Store_sgwc \<Rightarrow> 'w Store_sgwc" where
  "replaced sid current nxt s =
     s\<lparr>st_byS5 := (if ft_TEID (ss_S5Control nxt) \<noteq> ft_TEID (ss_S5Control current)
          then (st_byS5 s)(ft_TEID (ss_S5Control current) := None, ft_TEID (ss_S5Control nxt) \<mapsto> sid) else st_byS5 s),
        st_byBearer := index_put (bearer_keys nxt) sid
          (index_drop (bearerOwnerKey_sgwc (ss_SubscriberKey current) `
             {ebi \<in> dom (ss_Bearers current). ss_Bearers nxt ebi = None}) (st_byBearer s)),
        st_byID := (st_byID s)(sid \<mapsto> nxt)\<rparr>"

lemma bearer_keys_owned:
  "(\<forall>k \<in> bearer_keys n. ix k \<in> {None, Some sid}) \<longleftrightarrow>
     \<not> (\<exists>ebi \<in> dom (ss_Bearers n). case ix (bearerOwnerKey_sgwc (ss_SubscriberKey n) ebi) of None \<Rightarrow> False
        | Some ownerID \<Rightarrow> ownerID \<noteq> sid)"
proof -
  have "ix k \<in> {None, Some sid} \<longleftrightarrow> \<not> (case ix k of None \<Rightarrow> False | Some ownerID \<Rightarrow> ownerID \<noteq> sid)" for k
    by (cases "ix k") auto
  then show ?thesis unfolding bearer_keys_def by (simp only: ball_simps bex_simps)
qed

lemma s5_owned:
  assumes "store_ok s" "st_byID s sid = Some current"
  shows "st_byS5 s t \<in> {None, Some sid} \<longleftrightarrow> \<not> (t \<noteq> ft_TEID (ss_S5Control current) \<and> st_byS5 s t \<noteq> None)"
  using index_okI[OF store_okD(1)[OF assms(1)] assms(2), of t] index_okD[OF store_okD(1)[OF assms(1)], of t sid] assms(2)
  by (cases "st_byS5 s t") (auto simp: s5_keys_def)

text \<open>
  An update that passes the checks asks the persister to commit and installs the session when that succeeds; the
  checks do not depend on the persister.
\<close>

lemma Update_split:
  assumes ok: "store_ok s"
  shows "(\<forall>commit. \<exists>r. Update_sgwc commit now sid rv mutate s = (r, s) \<and> \<not> is_Ok r) \<or>
    (\<exists>current m nxt. st_byID s sid = Some current \<and> ss_Revision current = rv \<and> mutate = Some m \<and>
       m current = Ok nxt \<and> \<not> st_poisoned s \<and> updatable s sid current nxt \<and>
       (\<forall>commit. Update_sgwc commit now sid rv mutate s =
         (case persist_sgwc commit (Some current) (Some (touched now nxt)) s of
            (Err e, s1) \<Rightarrow> (Err e, s1) | (Panic, s1) \<Rightarrow> (Panic, s1)
          | (Ok _, s1) \<Rightarrow> (Ok (touched now nxt), replaced sid current (touched now nxt) s1))))"
proof (cases "\<not> st_poisoned s")
  case np: True
  show ?thesis
  proof (cases "mutate = None \<or> st_byID s sid = None")
    case True
    then show ?thesis using np by (auto simp: Update_sgwc_def split: option.split)
  next
    case False
    then obtain m current where m: "mutate = Some m" and cur: "st_byID s sid = Some current" by auto
    show ?thesis
    proof (cases "ss_Revision current = rv \<and> is_Ok (m current)")
      case True
      then obtain nxt where nxt: "m current = Ok nxt" and rv: "ss_Revision current = rv" by (cases "m current") auto
      define sib where "sib \<longleftrightarrow> (\<exists>siblingID \<in> ids_of (st_byS11 s (ft_TEID (ss_S11Control nxt))). siblingID \<noteq> sid \<and>
          (case st_byID s siblingID of None \<Rightarrow> False | Some sibling \<Rightarrow> bearersOverlap_sgwc sibling nxt))"
      define dup where "dup \<longleftrightarrow> (\<exists>ebi \<in> dom (ss_Bearers nxt).
          case st_byBearer s (bearerOwnerKey_sgwc (ss_SubscriberKey nxt) ebi) of None \<Rightarrow> False | Some ownerID \<Rightarrow> ownerID \<noteq> sid)"
      have upd: "updatable s sid current nxt \<longleftrightarrow>
          ss_ID nxt = ss_ID current \<and> ss_SubscriberKey nxt = ss_SubscriberKey current \<and>
          EqualFold (ss_APN nxt) (ss_APN current) \<and>
          ss_PFCPControlSEID nxt = ss_PFCPControlSEID current \<and> ss_PFCPUserSEID nxt = ss_PFCPUserSEID current \<and>
          validate_sgwc nxt = Ok () \<and> \<not> dup \<and>
          ss_S11Control nxt = ss_S11Control current \<and> ss_MMEControl nxt = ss_MMEControl current \<and>
          \<not> (ft_TEID (ss_S5Control nxt) \<noteq> ft_TEID (ss_S5Control current) \<and> st_byS5 s (ft_TEID (ss_S5Control nxt)) \<noteq> None)"
        unfolding updatable_def bearer_keys_owned s5_owned[OF ok cur] dup_def ..
      show ?thesis
      proof (cases "updatable s sid current nxt \<and> \<not> sib")
        case True
        then have "Update_sgwc commit now sid rv mutate s =
         (case persist_sgwc commit (Some current) (Some (touched now nxt)) s of
            (Err e, s1) \<Rightarrow> (Err e, s1) | (Panic, s1) \<Rightarrow> (Panic, s1)
          | (Ok _, s1) \<Rightarrow> (Ok (touched now nxt), replaced sid current (touched now nxt) s1))" for commit
          unfolding Update_sgwc_def m cur nxt rv upd option.case outcome.case sib_def[symmetric] dup_def[symmetric]
          using np by (auto simp: touched_def replaced_def Let_def split: prod.split outcome.split)
        with True np rv cur m nxt show ?thesis by blast
      next
        case False
        then have "\<exists>r. Update_sgwc commit now sid rv mutate s = (r, s) \<and> \<not> is_Ok r" for commit
          unfolding Update_sgwc_def m cur nxt rv upd option.case outcome.case sib_def[symmetric] dup_def[symmetric]
          using np validate_cases[of nxt] by - (elim disjE; cases sib; cases dup; auto)
        then show ?thesis by blast
      qed
    next
      case False
      then show ?thesis using np m cur by (cases "m current") (auto simp: Update_sgwc_def)
    qed
  qed
qed (auto simp: Update_sgwc_def split: option.split)

lemma Update_cases:
  assumes ok: "store_ok s"
  shows "(\<exists>r. Update_sgwc commit now sid rv mutate s = (r, s) \<and> \<not> is_Ok r) \<or>
    (\<exists>current m nxt. st_byID s sid = Some current \<and> ss_Revision current = rv \<and> mutate = Some m \<and>
       m current = Ok nxt \<and> \<not> st_poisoned s \<and> updatable s sid current nxt \<and>
       Update_sgwc commit now sid rv mutate s =
         (case persist_sgwc commit (Some current) (Some (touched now nxt)) s of
            (Err e, s1) \<Rightarrow> (Err e, s1) | (Panic, s1) \<Rightarrow> (Panic, s1)
          | (Ok _, s1) \<Rightarrow> (Ok (touched now nxt), replaced sid current (touched now nxt) s1)))"
  using Update_split[OF ok, of now sid rv mutate] by blast

lemma touched_fields [simp]:
  "ss_ID (touched now x) = ss_ID x" "ss_Revision (touched now x) = ss_Revision x + 1"
  "ss_SubscriberKey (touched now x) = ss_SubscriberKey x" "ss_APN (touched now x) = ss_APN x"
  "ss_S5Control (touched now x) = ss_S5Control x" "ss_S11Control (touched now x) = ss_S11Control x"
  "ss_PFCPControlSEID (touched now x) = ss_PFCPControlSEID x" "ss_PFCPUserSEID (touched now x) = ss_PFCPUserSEID x"
  "ss_MMEControl (touched now x) = ss_MMEControl x" "ss_Bearers (touched now x) = ss_Bearers x"
  "ss_CreatedAt (touched now x) = ss_CreatedAt x" "ss_UpdatedAt (touched now x) = now"
  by (simp_all add: touched_def)

lemma touched_checks [simp]:
  "validate_sgwc (touched now x) = validate_sgwc x" "bearer_keys (touched now x) = bearer_keys x"
  by (simp_all only: validate_sgwc_def bearer_keys_def touched_fields)

lemma replaced_fields:
  "st_byID (replaced sid x y s) = (st_byID s)(sid \<mapsto> y)"
  "st_byS5 (replaced sid x y s) = (if ft_TEID (ss_S5Control y) \<noteq> ft_TEID (ss_S5Control x)
     then (st_byS5 s)(ft_TEID (ss_S5Control x) := None, ft_TEID (ss_S5Control y) \<mapsto> sid) else st_byS5 s)"
  "st_byBearer (replaced sid x y s) = index_put (bearer_keys y) sid
     (index_drop (bearerOwnerKey_sgwc (ss_SubscriberKey x) ` {ebi \<in> dom (ss_Bearers x). ss_Bearers y ebi = None}) (st_byBearer s))"
  "st_byS11 (replaced sid x y s) = st_byS11 s" "st_byPFCP (replaced sid x y s) = st_byPFCP s"
  "st_byOwner (replaced sid x y s) = st_byOwner s" "st_nextID (replaced sid x y s) = st_nextID s"
  "st_max (replaced sid x y s) = st_max s" "st_persister (replaced sid x y s) = st_persister s"
  "st_poisoned (replaced sid x y s) = st_poisoned s"
  by (simp_all add: replaced_def)

text \<open>
  Replacing a session by one with the same identity, owner, S11 and PFCP context, whose other keys are free or
  its own, keeps the store consistent.
\<close>

lemma store_ok_replace:
  assumes ok: "store_ok s" and cur: "st_byID s sid = Some x"
    and same: "ss_ID y = ss_ID x" "ss_SubscriberKey y = ss_SubscriberKey x" "EqualFold (ss_APN y) (ss_APN x)"
      "ss_PFCPControlSEID y = ss_PFCPControlSEID x" "ss_S11Control y = ss_S11Control x"
      "ss_MMEControl y = ss_MMEControl x"
    and val: "validate_sgwc y = Ok ()"
    and free: "\<forall>k \<in> bearer_keys y. st_byBearer s k \<in> {None, Some sid}"
      "st_byS5 s (ft_TEID (ss_S5Control y)) \<in> {None, Some sid}"
  shows "store_ok (replaced sid x y s)"
proof -
  let ?t = "(st_byID s)(sid \<mapsto> y)"
  note D = store_okD[OF ok]
  have i1: "index_ok s5_keys ?t (if ft_TEID (ss_S5Control y) \<noteq> ft_TEID (ss_S5Control x)
      then (st_byS5 s)(ft_TEID (ss_S5Control x) := None, ft_TEID (ss_S5Control y) \<mapsto> sid) else st_byS5 s)"
  proof (cases "ft_TEID (ss_S5Control y) = ft_TEID (ss_S5Control x)")
    case True
    then show ?thesis using index_ok_update_same[OF D(1) cur, of y] by (simp add: s5_keys_def)
  next
    case False
    have "index_ok s5_keys ?t (index_put (s5_keys y) sid (index_drop (s5_keys x) (st_byS5 s)))"
      using free(2) by (intro index_ok_update[OF D(1) cur]) (auto simp: s5_keys_def)
    with False show ?thesis by (simp add: s5_keys_def index_put_singleton index_drop_singleton)
  qed
  have beq: "index_put (bearer_keys y) sid (index_drop (bearerOwnerKey_sgwc (ss_SubscriberKey x) `
      {ebi \<in> dom (ss_Bearers x). ss_Bearers y ebi = None}) (st_byBearer s)) =
      index_put (bearer_keys y) sid (index_drop (bearer_keys x) (st_byBearer s))"
    by (rule ext) (auto simp: index_put_def index_drop_def bearer_keys_def same(2) domIff)
  have i4: "index_ok bearer_keys ?t (index_put (bearer_keys y) sid (index_drop (bearer_keys x) (st_byBearer s)))"
    using free(1) by (intro index_ok_update[OF D(4) cur]) fastforce
  have i2: "index_ok pfcp_keys ?t (st_byPFCP s)"
    using same by (intro index_ok_update_same[OF D(2) cur]) (simp add: pfcp_keys_def)
  have i3: "index_ok owner_keys ?t (st_byOwner s)"
    using same by (intro index_ok_update_same[OF D(3) cur]) (simp add: owner_keys_def ownerKey_sgwc_def EqualFold_def)
  have i5: "s11_ok ?t (st_byS11 s)" using same by (intro s11_ok_update[OF D(5) cur]) simp
  have i6: "\<forall>i z. ?t i = Some z \<longrightarrow> ss_ID z = i \<and> i \<noteq> 0 \<and> i \<le> st_nextID s \<and> validate_sgwc z = Ok ()"
    using D(6) cur same(1) val by (auto split: if_splits)
  have "sameS11Owner_sgwc z z'"
    if "?t i = Some z" "?t j = Some z'" "ft_TEID (ss_S11Control z) = ft_TEID (ss_S11Control z')" for i z j z'
  proof -
    have "sameS11Owner_sgwc y z = sameS11Owner_sgwc x z" "sameS11Owner_sgwc z y = sameS11Owner_sgwc z x" for z
      using same by (simp_all add: sameS11Owner_sgwc_def)
    then show ?thesis using that D(7) cur same(5) by (auto split: if_splits)
  qed
  then have i7: "\<forall>i z j z'. ?t i = Some z \<longrightarrow> ?t j = Some z' \<longrightarrow>
      ft_TEID (ss_S11Control z) = ft_TEID (ss_S11Control z') \<longrightarrow> sameS11Owner_sgwc z z'" by blast
  show ?thesis
    unfolding store_ok_def replaced_fields beq using i1 i2 i3 i4 i5 i6 i7 by (intro conjI)
qed

lemma updatable_replace:
  "store_ok s \<Longrightarrow> st_byID s sid = Some current \<Longrightarrow> updatable s sid current nxt \<Longrightarrow>
     store_ok (replaced sid current (touched now nxt) s)"
  by (rule store_ok_replace) (simp_all add: updatable_def)

lemma replaced_persister [simp]:
  "replaced sid x y (s\<lparr>st_persister := w\<rparr>) = (replaced sid x y s)\<lparr>st_persister := w\<rparr>"
  by (simp add: replaced_def)

lemma store_ok_Update:
  assumes ok: "store_ok s"
  shows "store_ok (snd (Update_sgwc commit now sid rv mutate s))"
  using Update_cases[OF ok, of commit now sid rv mutate]
proof (elim disjE exE conjE)
  fix current m nxt
  assume cur: "st_byID s sid = Some current" and upd: "updatable s sid current nxt"
    and eq: "Update_sgwc commit now sid rv mutate s =
         (case persist_sgwc commit (Some current) (Some (touched now nxt)) s of
            (Err e, s1) \<Rightarrow> (Err e, s1) | (Panic, s1) \<Rightarrow> (Panic, s1)
          | (Ok _, s1) \<Rightarrow> (Ok (touched now nxt), replaced sid current (touched now nxt) s1))"
  show ?thesis
    by (cases rule: persist_cases[of commit "Some current" "Some (touched now nxt)" s])
      (simp_all add: eq ok updatable_replace[OF ok cur upd])
qed (simp add: ok)

text \<open>Reconciling changes the user-plane SEID only.\<close>

definition reseid :: "64 word \<Rightarrow> Session_sgwc \<Rightarrow> Session_sgwc" where
  "reseid up x = x\<lparr>ss_PFCPUserSEID := up\<rparr>"

lemma reseid_fields [simp]:
  "ss_ID (reseid u x) = ss_ID x" "ss_Revision (reseid u x) = ss_Revision x"
  "ss_SubscriberKey (reseid u x) = ss_SubscriberKey x" "ss_APN (reseid u x) = ss_APN x"
  "ss_S5Control (reseid u x) = ss_S5Control x" "ss_S11Control (reseid u x) = ss_S11Control x"
  "ss_PFCPControlSEID (reseid u x) = ss_PFCPControlSEID x" "ss_PFCPUserSEID (reseid u x) = u"
  "ss_MMEControl (reseid u x) = ss_MMEControl x" "ss_Bearers (reseid u x) = ss_Bearers x"
  "ss_CreatedAt (reseid u x) = ss_CreatedAt x"
  by (simp_all add: reseid_def)

lemma reseid_checks:
  "u \<noteq> 0 \<Longrightarrow> validate_sgwc x = Ok () \<Longrightarrow> validate_sgwc (reseid u x) = Ok ()"
  "bearer_keys (reseid u x) = bearer_keys x"
  by (simp_all add: validate_sgwc_def bearer_keys_def split: if_splits)

lemma replaced_same_keys:
  assumes "store_ok s" "st_byID s sid = Some x" "bearer_keys y = bearer_keys x" "ss_Bearers y = ss_Bearers x"
    "ss_S5Control y = ss_S5Control x"
  shows "replaced sid x y s = s\<lparr>st_byID := (st_byID s)(sid \<mapsto> y)\<rparr>"
proof -
  have "index_put (bearer_keys x) sid (index_drop {} (st_byBearer s)) = st_byBearer s"
    using index_okI[OF store_okD(4)[OF assms(1)] assms(2)] by (auto simp: index_put_def index_drop_def)
  moreover have none: "{ebi \<in> dom (ss_Bearers x). ss_Bearers x ebi = None} = {}" by auto
  ultimately show ?thesis unfolding replaced_def assms(3-5) none by simp
qed

lemma Reconcile_split:
  assumes ok: "store_ok s"
  shows "(\<forall>commit. \<exists>r. ReconcilePFCPUserSEID_sgwc commit now sid rv up s = (r, s)) \<or>
    (\<exists>current. st_byID s sid = Some current \<and> ss_Revision current = rv \<and> up \<noteq> 0 \<and> \<not> st_poisoned s \<and>
       (\<forall>commit. ReconcilePFCPUserSEID_sgwc commit now sid rv up s =
         (case persist_sgwc commit (Some current) (Some (touched now (reseid up current))) s of
            (Err e, s1) \<Rightarrow> (Err e, s1) | (Panic, s1) \<Rightarrow> (Panic, s1)
          | (Ok _, s1) \<Rightarrow> (Ok (touched now (reseid up current)), replaced sid current (touched now (reseid up current)) s1))))"
proof (cases "up \<noteq> 0 \<and> \<not> st_poisoned s \<and> (\<exists>x. st_byID s sid = Some x \<and> ss_Revision x = rv \<and> ss_PFCPUserSEID x \<noteq> up)")
  case True
  then obtain x where x: "st_byID s sid = Some x" "rv = ss_Revision x" "ss_PFCPUserSEID x \<noteq> up" by blast
  have y: "x\<lparr>ss_PFCPUserSEID := up, ss_Revision := ss_Revision x + 1, ss_UpdatedAt := now\<rparr> = touched now (reseid up x)"
    by (simp add: touched_def reseid_def)
  have same: "replaced sid x (touched now (reseid up x)) (s\<lparr>st_persister := w\<rparr>) =
      s\<lparr>st_persister := w, st_byID := (st_byID s)(sid \<mapsto> touched now (reseid up x))\<rparr>" for w
    using ok x(1) replaced_same_keys[of "s\<lparr>st_persister := w\<rparr>" sid x "touched now (reseid up x)"]
    by (simp add: reseid_checks(2))
  have "ReconcilePFCPUserSEID_sgwc commit now sid rv up s =
     (case persist_sgwc commit (Some x) (Some (touched now (reseid up x))) s of
        (Err e, s1) \<Rightarrow> (Err e, s1) | (Panic, s1) \<Rightarrow> (Panic, s1)
      | (Ok _, s1) \<Rightarrow> (Ok (touched now (reseid up x)), s1\<lparr>st_byID := (st_byID s1)(sid \<mapsto> touched now (reseid up x))\<rparr>))" for commit
    using True x unfolding ReconcilePFCPUserSEID_sgwc_def y[symmetric] by (simp add: Let_def)
  then have "ReconcilePFCPUserSEID_sgwc commit now sid rv up s =
     (case persist_sgwc commit (Some x) (Some (touched now (reseid up x))) s of
        (Err e, s1) \<Rightarrow> (Err e, s1) | (Panic, s1) \<Rightarrow> (Panic, s1)
      | (Ok _, s1) \<Rightarrow> (Ok (touched now (reseid up x)), replaced sid x (touched now (reseid up x)) s1))" for commit
    using same by (cases rule: persist_cases[of commit "Some x" "Some (touched now (reseid up x))" s]) auto
  with x True show ?thesis by auto
next
  case False
  then have "\<exists>r. ReconcilePFCPUserSEID_sgwc commit now sid rv up s = (r, s)" for commit
    by (auto simp: ReconcilePFCPUserSEID_sgwc_def split: option.split)
  then show ?thesis by blast
qed

lemma Reconcile_cases:
  assumes ok: "store_ok s"
  shows "(\<exists>r. ReconcilePFCPUserSEID_sgwc commit now sid rv up s = (r, s)) \<or>
    (\<exists>current. st_byID s sid = Some current \<and> ss_Revision current = rv \<and> up \<noteq> 0 \<and> \<not> st_poisoned s \<and>
       ReconcilePFCPUserSEID_sgwc commit now sid rv up s =
         (case persist_sgwc commit (Some current) (Some (touched now (reseid up current))) s of
            (Err e, s1) \<Rightarrow> (Err e, s1) | (Panic, s1) \<Rightarrow> (Panic, s1)
          | (Ok _, s1) \<Rightarrow> (Ok (touched now (reseid up current)), replaced sid current (touched now (reseid up current)) s1)))"
  using Reconcile_split[OF ok, of now sid rv up] by blast

lemma store_ok_Reconcile:
  assumes ok: "store_ok s"
  shows "store_ok (snd (ReconcilePFCPUserSEID_sgwc commit now sid rv up s))"
  using Reconcile_cases[OF ok, of commit now sid rv up]
proof (elim disjE exE conjE)
  fix x
  let ?y = "touched now (reseid up x)"
  assume x: "st_byID s sid = Some x" "up \<noteq> 0" and eq: "ReconcilePFCPUserSEID_sgwc commit now sid rv up s =
         (case persist_sgwc commit (Some x) (Some ?y) s of (Err e, s1) \<Rightarrow> (Err e, s1) | (Panic, s1) \<Rightarrow> (Panic, s1)
          | (Ok _, s1) \<Rightarrow> (Ok ?y, replaced sid x ?y s1))"
  have "\<forall>k \<in> bearer_keys x. st_byBearer s k \<in> {None, Some sid}" "st_byS5 s (ft_TEID (ss_S5Control x)) \<in> {None, Some sid}"
    using index_okI[OF store_okD(4)[OF ok] x(1)] index_okI[OF store_okD(1)[OF ok] x(1)] by (auto simp: s5_keys_def)
  then have "store_ok (replaced sid x ?y s)"
    using ok x store_okD(6)[OF ok x(1)] by (intro store_ok_replace) (simp_all add: EqualFold_def reseid_checks)
  then show ?thesis
    by (cases rule: persist_cases[of commit "Some x" "Some ?y" s]) (simp_all add: eq ok)
qed (simp add: ok)

lemma store_ok_Delete:
  assumes ok: "store_ok s"
  shows "store_ok (snd (Delete_sgwc commit sid rv s))"
proof (cases "st_byID s sid")
  case (Some x)
  show ?thesis
    by (cases rule: persist_cases[of commit "Some x" None s])
      (use Some ok store_ok_remove[of "s\<lparr>st_persister := w\<rparr>" sid x for w] in \<open>simp_all add: Delete_sgwc_def\<close>)
qed (simp add: Delete_sgwc_def ok)

lemma insert_fields [simp]:
  "st_byID (insert_sgwc c s) = (st_byID s)(ss_ID c \<mapsto> c)" "st_max (insert_sgwc c s) = st_max s"
  "st_nextID (insert_sgwc c s) = st_nextID s" "st_persister (insert_sgwc c s) = st_persister s"
  "st_poisoned (insert_sgwc c s) = st_poisoned s"
  by (simp_all add: insert_sgwc_def Let_def)

lemma validateWAL_Ok:
  "validateWALSession_sgwc c = Ok () \<longleftrightarrow> ss_ID c \<noteq> 0 \<and> ss_Revision c \<noteq> 0 \<and> ss_CreatedAt c \<noteq> 0 \<and> ss_UpdatedAt c \<noteq> 0 \<and>
     ss_CreatedAt c \<le> ss_UpdatedAt c \<and> validate_sgwc c = Ok ()"
  by (auto simp: validateWALSession_sgwc_def)

lemma validateWAL_cases:
  "validateWALSession_sgwc c = Ok () \<or> validateWALSession_sgwc c = Err ErrInvalidSession_sgwc"
  using validate_cases[of c] by (auto simp: validateWALSession_sgwc_def)

text \<open>When a round of the restore loop takes a session over.\<close>

definition restorable :: "'w Store_sgwc \<Rightarrow> Session_sgwc \<Rightarrow> bool" where
  "restorable s c \<longleftrightarrow> validateWALSession_sgwc c = Ok () \<and> st_byID s (ss_ID c) = None \<and>
     st_byOwner s (ownerKey_sgwc (ss_SubscriberKey c) (ss_APN c)) = None \<and>
     (\<forall>k \<in> bearer_keys c. st_byBearer s k = None) \<and> st_byS5 s (ft_TEID (ss_S5Control c)) = None \<and>
     st_byPFCP s (ss_PFCPControlSEID c) = None \<and>
     s11_conflict s c (ids_of (st_byS11 s (ft_TEID (ss_S11Control c)))) = Ok False"

lemma restore_one_restorable:
  "restorable s c \<Longrightarrow> restore_one c s = Ok ((insert_sgwc c s)\<lparr>st_nextID := max (st_nextID s) (ss_ID c)\<rparr>)"
  unfolding restorable_def restore_one_def by simp

lemma restore_one_not_restorable:
  assumes "store_ok s" "\<not> restorable s c"
  shows "\<exists>e. restore_one c s = Err e"
proof (cases "s11_conflict s c (ids_of (st_byS11 s (ft_TEID (ss_S11Control c))))")
  case (Ok b)
  define dup where "dup \<longleftrightarrow> (\<exists>k \<in> bearer_keys c. st_byBearer s k \<noteq> None)"
  have "(\<forall>k \<in> bearer_keys c. st_byBearer s k = None) \<longleftrightarrow> \<not> dup" by (auto simp: dup_def)
  then show ?thesis
    using validateWAL_cases[of c] assms(2)
    unfolding restorable_def restore_one_def dup_def[symmetric] Ok by (cases dup; cases b; auto)
qed (use s11_conflict_no_Err s11_conflict_no_panic[OF assms(1)] in blast)+

lemma store_ok_restore_one:
  assumes "store_ok s" "restore_one c s = Ok s'"
  shows "store_ok s' \<and> st_byID s (ss_ID c) = None \<and> st_byID s' = (st_byID s)(ss_ID c \<mapsto> c) \<and> st_max s' = st_max s \<and>
    st_poisoned s' = st_poisoned s \<and> st_persister s' = st_persister s"
proof -
  have r: "restorable s c" using restore_one_not_restorable[OF assms(1), of c] assms(2) by fastforce
  then have s': "s' = (insert_sgwc c s)\<lparr>st_nextID := max (st_nextID s) (ss_ID c)\<rparr>"
    using restore_one_restorable[OF r] assms(2) by simp
  have "store_ok s'"
    unfolding s' using r assms(1) by (intro store_ok_insert) (simp_all add: restorable_def validateWAL_Ok)
  then show ?thesis using r by (simp add: s' restorable_def)
qed

lemma restore_all_inv:
  assumes "store_ok s"
  shows "(\<exists>e. restore_all cs s = Err e) \<or> (\<exists>s'. restore_all cs s = Ok s' \<and> store_ok s' \<and> st_max s' = st_max s \<and>
    st_poisoned s' = st_poisoned s \<and> card (dom (st_byID s')) = card (dom (st_byID s)) + length cs)"
  using assms
proof (induction cs arbitrary: s)
  case (Cons c cs)
  show ?case
  proof (cases "\<exists>e. restore_one c s = Err e")
    case False
    then obtain s1 where s1: "restore_one c s = Ok s1"
      using restore_one_not_restorable[OF Cons.prems, of c] restore_one_restorable[of s c] by blast
    note f = store_ok_restore_one[OF Cons.prems s1]
    then have n: "card (dom (st_byID s1)) = Suc (card (dom (st_byID s)))" by (auto simp: domIff)
    have "store_ok s1" "st_max s1 = st_max s" "st_poisoned s1 = st_poisoned s" using f by simp_all
    then show ?thesis using Cons.IH[of s1] n s1 by auto
  qed auto
qed auto

definition cleared :: "'w Store_sgwc \<Rightarrow> 'w Store_sgwc" where
  "cleared s = s\<lparr>st_byID := Map.empty, st_byS11 := Map.empty, st_byS5 := Map.empty,
     st_byPFCP := Map.empty, st_byOwner := Map.empty, st_byBearer := Map.empty, st_nextID := 0\<rparr>"

lemma store_ok_empty: "st_byID s = Map.empty \<Longrightarrow> st_byS11 s = Map.empty \<Longrightarrow> st_byS5 s = Map.empty \<Longrightarrow>
  st_byPFCP s = Map.empty \<Longrightarrow> st_byOwner s = Map.empty \<Longrightarrow> st_byBearer s = Map.empty \<Longrightarrow> store_ok s"
  by (simp add: store_ok_def s11_ok_def)

lemma cleared_ok [simp]: "store_ok (cleared s)"
  by (rule store_ok_empty) (simp_all add: cleared_def)

definition store_inv :: "'w Store_sgwc \<Rightarrow> bool" where
  "store_inv s \<longleftrightarrow> store_ok s \<and> int (card (dom (st_byID s))) \<le> st_max s"

lemma Restore_inv_sgwc:
  assumes "store_inv s"
  shows "store_inv (snd (Restore_sgwc cs s)) \<and> fst (Restore_sgwc cs s) \<noteq> Panic"
proof (cases "st_poisoned s \<or> card (dom (st_byID s)) \<noteq> 0 \<or> int (length cs) > st_max s")
  case False
  then have eq: "Restore_sgwc cs s = (case restore_all cs (cleared s) of
      Ok s' \<Rightarrow> (Ok (), s') | Err e \<Rightarrow> (Err e, s) | Panic \<Rightarrow> (Panic, s))"
    by (simp add: Restore_sgwc_def cleared_def)
  show ?thesis
    using restore_all_inv[OF cleared_ok, of cs s] False assms unfolding eq store_inv_def
    by (auto simp: cleared_def)
qed (use assms in \<open>auto simp: Restore_sgwc_def\<close>)

text \<open>
  The states of a store: operations in any order, with any clock readings, mutations and outcomes of the
  persister. A session identifier is never reused as long as fewer than \<open>2 ^ 64 - 1\<close> have been given out.
\<close>

inductive sgwc_reach :: "'w commit_sgwc \<Rightarrow> 'w Store_sgwc \<Rightarrow> bool" for commit :: "'w commit_sgwc" where
  reach_new: "sgwc_reach commit (NewStoreWithPersister_sgwc maxSessions persister)"
| reach_create: "sgwc_reach commit s \<Longrightarrow> st_nextID s \<noteq> - 1 \<Longrightarrow> sgwc_reach commit (snd (Create_sgwc commit now c s))"
| reach_update: "sgwc_reach commit s \<Longrightarrow> sgwc_reach commit (snd (Update_sgwc commit now sid rv mutate s))"
| reach_reconcile: "sgwc_reach commit s \<Longrightarrow> sgwc_reach commit (snd (ReconcilePFCPUserSEID_sgwc commit now sid rv up s))"
| reach_delete: "sgwc_reach commit s \<Longrightarrow> sgwc_reach commit (snd (Delete_sgwc commit sid rv s))"
| reach_restore: "sgwc_reach commit s \<Longrightarrow> sgwc_reach commit (snd (Restore_sgwc cs s))"

text \<open>
  The case functions of package \<^verbatim>\<open>strings\<close> are modelled on ASCII, where lower-casing and case-insensitive comparison
  agree; on other strings they do not in Go (\<^verbatim>\<open>EqualFold\<close> takes the long s, U+017F, for an s, \<^verbatim>\<open>ToLower\<close> does not), so the
  statements about the owner index are about the histories in which all sessions that reach the store, from a request,
  a callback or a log, have an ASCII subscriber key and access point name.
\<close>

definition ascii_session :: "Session_sgwc \<Rightarrow> bool" where
  "ascii_session c \<longleftrightarrow> ascii (ss_SubscriberKey c) \<and> ascii (ss_APN c)"

definition ascii_callback :: "(Session_sgwc \<Rightarrow> (sgwc_error, Session_sgwc) outcome) option \<Rightarrow> bool" where
  "ascii_callback mutate \<longleftrightarrow> (\<forall>f x y. mutate = Some f \<longrightarrow> ascii_session x \<longrightarrow> f x = Ok y \<longrightarrow> ascii_session y)"

inductive sgwc_ascii_reach :: "'w commit_sgwc \<Rightarrow> 'w Store_sgwc \<Rightarrow> bool" for commit :: "'w commit_sgwc" where
  ascii_new: "sgwc_ascii_reach commit (NewStoreWithPersister_sgwc maxSessions persister)"
| ascii_create: "sgwc_ascii_reach commit s \<Longrightarrow> st_nextID s \<noteq> - 1 \<Longrightarrow> ascii_session c \<Longrightarrow>
    sgwc_ascii_reach commit (snd (Create_sgwc commit now c s))"
| ascii_update: "sgwc_ascii_reach commit s \<Longrightarrow> ascii_callback mutate \<Longrightarrow>
    sgwc_ascii_reach commit (snd (Update_sgwc commit now sid rv mutate s))"
| ascii_reconcile: "sgwc_ascii_reach commit s \<Longrightarrow>
    sgwc_ascii_reach commit (snd (ReconcilePFCPUserSEID_sgwc commit now sid rv up s))"
| ascii_delete: "sgwc_ascii_reach commit s \<Longrightarrow> sgwc_ascii_reach commit (snd (Delete_sgwc commit sid rv s))"
| ascii_restore: "sgwc_ascii_reach commit s \<Longrightarrow> \<forall>c \<in> set cs. ascii_session c \<Longrightarrow>
    sgwc_ascii_reach commit (snd (Restore_sgwc cs s))"

lemma sgwc_ascii_reach_reach: "sgwc_ascii_reach commit s \<Longrightarrow> sgwc_reach commit s"
  by (induction rule: sgwc_ascii_reach.induct) (auto intro: sgwc_reach.intros)

lemma count_Create:
  assumes ok: "store_ok s" and id: "st_nextID s \<noteq> - 1" and n: "int (card (dom (st_byID s))) \<le> st_max s"
  shows "int (card (dom (st_byID (snd (Create_sgwc commit now c s))))) \<le> st_max (snd (Create_sgwc commit now c s))"
proof (cases "creatable s c")
  case True
  then have "int (card (dom (st_byID s))) < st_max s" by (simp add: creatable_def)
  with fresh_ID[OF ok id] show ?thesis
    by (cases rule: persist_cases[of commit None "Some (stamped now s c)" "s\<lparr>st_nextID := st_nextID s + 1\<rparr>"])
      (simp_all add: Create_creatable[OF True] domIff)
next
  case False
  then show ?thesis using Create_not_creatable[OF ok False, of commit now] n by auto
qed

lemma count_Update:
  assumes "store_ok s"
  shows "dom (st_byID (snd (Update_sgwc commit now sid rv mutate s))) = dom (st_byID s) \<and>
    st_max (snd (Update_sgwc commit now sid rv mutate s)) = st_max s"
  using Update_cases[OF assms, of commit now sid rv mutate]
proof (elim disjE exE conjE)
  fix x m y
  assume x: "st_byID s sid = Some x" and eq: "Update_sgwc commit now sid rv mutate s =
      (case persist_sgwc commit (Some x) (Some (touched now y)) s of
         (Err e, s1) \<Rightarrow> (Err e, s1) | (Panic, s1) \<Rightarrow> (Panic, s1)
       | (Ok _, s1) \<Rightarrow> (Ok (touched now y), replaced sid x (touched now y) s1))"
  show ?thesis
    by (cases rule: persist_cases[of commit "Some x" "Some (touched now y)" s])
      (use x in \<open>auto simp: eq replaced_fields\<close>)
qed auto

lemma count_Reconcile:
  assumes "store_ok s"
  shows "dom (st_byID (snd (ReconcilePFCPUserSEID_sgwc commit now sid rv up s))) = dom (st_byID s) \<and>
    st_max (snd (ReconcilePFCPUserSEID_sgwc commit now sid rv up s)) = st_max s"
  using Reconcile_cases[OF assms, of commit now sid rv up]
proof (elim disjE exE conjE)
  fix x
  let ?y = "touched now (reseid up x)"
  assume x: "st_byID s sid = Some x" and eq: "ReconcilePFCPUserSEID_sgwc commit now sid rv up s =
         (case persist_sgwc commit (Some x) (Some ?y) s of (Err e, s1) \<Rightarrow> (Err e, s1) | (Panic, s1) \<Rightarrow> (Panic, s1)
          | (Ok _, s1) \<Rightarrow> (Ok ?y, replaced sid x ?y s1))"
  show ?thesis
    by (cases rule: persist_cases[of commit "Some x" "Some ?y" s]) (use x in \<open>auto simp: eq replaced_fields\<close>)
qed auto

lemma Delete_cases:
  "(\<exists>e. Delete_sgwc commit sid rv s = (Err e, s)) \<or>
   (\<exists>x w. st_byID s sid = Some x \<and> ss_Revision x = rv \<and> \<not> st_poisoned s \<and>
      (Delete_sgwc commit sid rv s = (Ok (), remove_sgwc sid x (s\<lparr>st_persister := w\<rparr>)) \<or>
       Delete_sgwc commit sid rv s = (Err ErrPersistence_sgwc, s\<lparr>st_persister := w, st_poisoned := True\<rparr>)))"
proof (cases "\<not> st_poisoned s \<and> (\<exists>x. st_byID s sid = Some x \<and> ss_Revision x = rv)")
  case True
  then obtain x where x: "st_byID s sid = Some x" "ss_Revision x = rv" by blast
  show ?thesis
    by (cases rule: persist_cases[of commit "Some x" None s]) (use True x in \<open>auto simp: Delete_sgwc_def\<close>)
qed (auto simp: Delete_sgwc_def split: option.split)

lemma remove_fields [simp]:
  "st_byID (remove_sgwc sid x s) = (st_byID s)(sid := None)" "st_max (remove_sgwc sid x s) = st_max s"
  "st_poisoned (remove_sgwc sid x s) = st_poisoned s" "st_nextID (remove_sgwc sid x s) = st_nextID s"
  "st_persister (remove_sgwc sid x s) = st_persister s"
  by (simp_all add: remove_sgwc_def Let_def)

lemma count_Delete:
  "int (card (dom (st_byID s))) \<le> st_max s \<Longrightarrow>
    int (card (dom (st_byID (snd (Delete_sgwc commit sid rv s))))) \<le> st_max (snd (Delete_sgwc commit sid rv s))"
  using Delete_cases[of commit sid rv s] card_mono[of "dom (st_byID s)" "dom (st_byID s) - {sid}"] by auto

lemma sgwc_reach_store_inv: "sgwc_reach commit s \<Longrightarrow> store_inv s"
proof (induction rule: sgwc_reach.induct)
  case (reach_new maxSessions persister)
  have "store_ok (NewStoreWithPersister_sgwc maxSessions persister)"
    by (rule store_ok_empty) (simp_all add: NewStoreWithPersister_sgwc_def)
  then show ?case by (simp add: store_inv_def NewStoreWithPersister_sgwc_def DefaultMaxSessions_sgwc_def)
next
  case (reach_create s now c)
  then have "store_ok s" "int (card (dom (st_byID s))) \<le> st_max s" by (simp_all add: store_inv_def)
  with reach_create.hyps(2) show ?case unfolding store_inv_def by (intro conjI store_ok_Create count_Create)
next
  case (reach_update s now sid rv mutate)
  then show ?case by (simp add: store_inv_def store_ok_Update count_Update)
next
  case (reach_reconcile s now sid rv up)
  then show ?case by (simp add: store_inv_def store_ok_Reconcile count_Reconcile)
next
  case (reach_delete s sid rv)
  then show ?case by (simp add: store_inv_def store_ok_Delete count_Delete)
next
  case (reach_restore s cs)
  then show ?case using Restore_inv_sgwc by blast
qed


section \<open>The committing operations\<close>

text \<open>
  The four operations that change the store through the persister, as data. The result of a successful one is the
  session as it is now stored, nothing for a deletion: this is what the persister was asked to commit as the successor
  of \<open>op_previous\<close>. \<open>op_check\<close> is the check of the arguments that comes before the lock is taken.
\<close>

datatype store_op =
  OpCreate time Session_sgwc
| OpUpdate time "64 word" "64 word" "(Session_sgwc \<Rightarrow> (sgwc_error, Session_sgwc) outcome) option"
| OpReconcile time "64 word" "64 word" "64 word"
| OpDelete "64 word" "64 word"

fun stored_result :: "(sgwc_error, Session_sgwc) outcome \<times> 'w Store_sgwc \<Rightarrow> (sgwc_error, Session_sgwc option) outcome \<times> 'w Store_sgwc" where
  "stored_result (Ok x, s) = (Ok (Some x), s)"
| "stored_result (Err e, s) = (Err e, s)"
| "stored_result (Panic, s) = (Panic, s)"

fun deleted_result :: "(sgwc_error, unit) outcome \<times> 'w Store_sgwc \<Rightarrow> (sgwc_error, Session_sgwc option) outcome \<times> 'w Store_sgwc" where
  "deleted_result (Ok u, s) = (Ok None, s)"
| "deleted_result (Err e, s) = (Err e, s)"
| "deleted_result (Panic, s) = (Panic, s)"

fun run_op :: "'w commit_sgwc \<Rightarrow> store_op \<Rightarrow> 'w Store_sgwc \<Rightarrow> (sgwc_error, Session_sgwc option) outcome \<times> 'w Store_sgwc" where
  "run_op commit (OpCreate now c) s = stored_result (Create_sgwc commit now c s)"
| "run_op commit (OpUpdate now sid rv mutate) s = stored_result (Update_sgwc commit now sid rv mutate s)"
| "run_op commit (OpReconcile now sid rv up) s = stored_result (ReconcilePFCPUserSEID_sgwc commit now sid rv up s)"
| "run_op commit (OpDelete sid rv) s = deleted_result (Delete_sgwc commit sid rv s)"

fun op_previous :: "store_op \<Rightarrow> 'w Store_sgwc \<Rightarrow> Session_sgwc option" where
  "op_previous (OpCreate now c) s = None"
| "op_previous (OpUpdate now sid rv mutate) s = st_byID s sid"
| "op_previous (OpReconcile now sid rv up) s = st_byID s sid"
| "op_previous (OpDelete sid rv) s = st_byID s sid"

fun op_check :: "store_op \<Rightarrow> (sgwc_error, unit) outcome" where
  "op_check (OpCreate now c) = validate_sgwc c"
| "op_check (OpUpdate now sid rv mutate) = (if mutate = None then Err ErrInvalidSession_sgwc else Ok ())"
| "op_check (OpReconcile now sid rv up) = (if up = 0 then Err ErrInvalidSession_sgwc else Ok ())"
| "op_check (OpDelete sid rv) = Ok ()"

definition working_commit :: "'w commit_sgwc" where
  "working_commit previous nxt w = (True, w)"

definition same_sessions :: "'w Store_sgwc \<Rightarrow> 'w Store_sgwc \<Rightarrow> bool" where
  "same_sessions s s' \<longleftrightarrow> st_byID s' = st_byID s \<and> st_byS11 s' = st_byS11 s \<and> st_byS5 s' = st_byS5 s \<and>
     st_byPFCP s' = st_byPFCP s \<and> st_byOwner s' = st_byOwner s \<and> st_byBearer s' = st_byBearer s"

lemma stored_result_eq [simp]: "stored_result (r, s) = (map_outcome id Some r, s)" "snd (stored_result p) = snd p"
  by (cases r; simp) (cases p; cases "fst p"; auto)

lemma deleted_result_snd [simp]: "snd (deleted_result p) = snd p"
  by (cases p; cases "fst p"; auto)

lemma run_op_split:
  assumes ok: "store_ok s"
  shows "(\<forall>commit. \<exists>r. run_op commit op s = (r, s)) \<or> (\<not> st_poisoned s \<and> (\<exists>n nxt next_store. \<forall>commit.
    run_op commit op s = (case persist_sgwc commit (op_previous op s) nxt (s\<lparr>st_nextID := n\<rparr>) of
        (Ok u, s1) \<Rightarrow> (Ok nxt, next_store s1) | (Err e, s1) \<Rightarrow> (Err e, s1) | (Panic, s1) \<Rightarrow> (Panic, s1))))"
    (is "?same \<or> ?commits")
proof -
  have commits: ?commits if "\<not> st_poisoned s" "\<forall>commit. run_op commit op s =
      (case persist_sgwc commit (op_previous op s) nxt (s\<lparr>st_nextID := n\<rparr>) of
        (Ok u, s1) \<Rightarrow> (Ok nxt, next_store s1) | (Err e, s1) \<Rightarrow> (Err e, s1) | (Panic, s1) \<Rightarrow> (Panic, s1))" for n nxt next_store
    using that by blast
  show ?thesis
  proof (cases op)
    case (OpCreate now c)
    show ?thesis
    proof (cases "creatable s c")
      case True
      have "\<forall>commit. run_op commit op s =
        (case persist_sgwc commit (op_previous op s) (Some (stamped now s c)) (s\<lparr>st_nextID := st_nextID s + 1\<rparr>) of
          (Ok u, s1) \<Rightarrow> (Ok (Some (stamped now s c)), insert_sgwc (stamped now s c) s1)
        | (Err e, s1) \<Rightarrow> (Err e, s1) | (Panic, s1) \<Rightarrow> (Panic, s1))"
        by (simp add: OpCreate Create_creatable[OF True] split: prod.split outcome.split)
      from commits[OF _ this] show ?thesis using True by (simp add: creatable_def)
    next
      case False
      then have ?same using Create_not_creatable[OF ok] by (simp add: OpCreate) (metis stored_result.simps(2))
      then show ?thesis ..
    qed
  next
    case (OpUpdate now sid rv mutate)
    from Update_split[OF ok, of now sid rv mutate] show ?thesis
    proof (elim disjE exE conjE)
      fix current m nxt
      assume cur: "st_byID s sid = Some current" "\<not> st_poisoned s" and
        eq: "\<forall>commit. Update_sgwc commit now sid rv mutate s =
           (case persist_sgwc commit (Some current) (Some (touched now nxt)) s of
              (Err e, s1) \<Rightarrow> (Err e, s1) | (Panic, s1) \<Rightarrow> (Panic, s1)
            | (Ok _, s1) \<Rightarrow> (Ok (touched now nxt), replaced sid current (touched now nxt) s1))"
      have "\<forall>commit. run_op commit op s =
        (case persist_sgwc commit (op_previous op s) (Some (touched now nxt)) (s\<lparr>st_nextID := st_nextID s\<rparr>) of
          (Ok u, s1) \<Rightarrow> (Ok (Some (touched now nxt)), replaced sid current (touched now nxt) s1)
        | (Err e, s1) \<Rightarrow> (Err e, s1) | (Panic, s1) \<Rightarrow> (Panic, s1))"
        by (simp add: OpUpdate cur eq split: prod.split outcome.split)
      from commits[OF cur(2) this] show ?thesis ..
    next
      assume a: "\<forall>commit. \<exists>r. Update_sgwc commit now sid rv mutate s = (r, s) \<and> \<not> is_Ok r"
      have ?same
      proof
        fix commit
        from a obtain r where "Update_sgwc commit now sid rv mutate s = (r, s)" by blast
        then show "\<exists>r. run_op commit op s = (r, s)" by (simp add: OpUpdate)
      qed
      then show ?thesis ..
    qed
  next
    case (OpReconcile now sid rv up)
    show ?thesis
    proof (cases "up \<noteq> 0 \<and> \<not> st_poisoned s \<and> (\<exists>x. st_byID s sid = Some x \<and> ss_Revision x = rv \<and> ss_PFCPUserSEID x \<noteq> up)")
      case True
      then obtain x where x: "st_byID s sid = Some x" "rv = ss_Revision x" "ss_PFCPUserSEID x \<noteq> up" by blast
      let ?y = "x\<lparr>ss_PFCPUserSEID := up, ss_Revision := ss_Revision x + 1, ss_UpdatedAt := now\<rparr>"
      have "\<forall>commit. run_op commit op s =
        (case persist_sgwc commit (op_previous op s) (Some ?y) (s\<lparr>st_nextID := st_nextID s\<rparr>) of
          (Ok u, s1) \<Rightarrow> (Ok (Some ?y), s1\<lparr>st_byID := (st_byID s1)(sid \<mapsto> ?y)\<rparr>)
        | (Err e, s1) \<Rightarrow> (Err e, s1) | (Panic, s1) \<Rightarrow> (Panic, s1))"
        using True x by (simp add: OpReconcile ReconcilePFCPUserSEID_sgwc_def Let_def split: prod.split outcome.split)
      from commits[OF _ this] show ?thesis using True by blast
    next
      case False
      then have ?same by (auto simp: OpReconcile ReconcilePFCPUserSEID_sgwc_def split: option.split)
      then show ?thesis ..
    qed
  next
    case (OpDelete sid rv)
    show ?thesis
    proof (cases "\<not> st_poisoned s \<and> (\<exists>x. st_byID s sid = Some x \<and> ss_Revision x = rv)")
      case True
      then obtain x where x: "st_byID s sid = Some x" "rv = ss_Revision x" by blast
      have "\<forall>commit. run_op commit op s =
        (case persist_sgwc commit (op_previous op s) None (s\<lparr>st_nextID := st_nextID s\<rparr>) of
          (Ok u, s1) \<Rightarrow> (Ok None, remove_sgwc sid x s1) | (Err e, s1) \<Rightarrow> (Err e, s1) | (Panic, s1) \<Rightarrow> (Panic, s1))"
        using True x by (simp add: OpDelete Delete_sgwc_def split: prod.split outcome.split)
      from commits[OF _ this] show ?thesis using True by blast
    next
      case False
      then have ?same by (auto simp: OpDelete Delete_sgwc_def split: option.split)
      then show ?thesis ..
    qed
  qed
qed

lemma run_op_poisoned:
  assumes "st_poisoned s"
  shows "run_op commit op s = (case op_check op of Ok u \<Rightarrow> Err ErrPoisoned_sgwc | Err e \<Rightarrow> Err e | Panic \<Rightarrow> Panic, s)"
proof (cases op)
  case (OpCreate now c)
  then show ?thesis using assms validate_cases[of c] by (auto simp: Create_sgwc_def)
next
  case (OpUpdate now sid rv mutate)
  then show ?thesis using assms by (cases mutate) (simp_all add: Update_sgwc_def)
qed (use assms in \<open>simp_all add: ReconcilePFCPUserSEID_sgwc_def Delete_sgwc_def\<close>)


section \<open>Lookups\<close>

lemma by_index_exact:
  assumes "index_ok keys (st_byID s) ix"
  shows "\<exists>r. by_index s (ix k) = Ok r \<and> (\<forall>x. r = Some x \<longleftrightarrow> (\<exists>i. st_byID s i = Some x \<and> k \<in> keys x))"
proof (cases "ix k")
  case None
  then have "\<not> (\<exists>i x. st_byID s i = Some x \<and> k \<in> keys x)" using index_okI[OF assms] by fastforce
  then show ?thesis by (auto simp: by_index_def None)
next
  case (Some i)
  from index_okD[OF assms Some] obtain x where x: "st_byID s i = Some x" "k \<in> keys x" by blast
  have "y = x" if "st_byID s j = Some y" "k \<in> keys y" for j y
    using index_ok_unique[OF assms x(1) that(1) x(2) that(2)] x(1) that(1) by simp
  with x have "Some x = Some y \<longleftrightarrow> (\<exists>j. st_byID s j = Some y \<and> k \<in> keys y)" for y by blast
  moreover have "by_index s (ix k) = Ok (Some x)" by (simp add: by_index_def deref_def Some x(1))
  ultimately show ?thesis by blast
qed

text \<open>C8: In every store reached through sessions with ASCII names each lookup by index returns exactly what a search of the
  whole session table for the key would: the session with that S5 TEID, PFCP SEID, owner (for an ASCII subscriber key
  and access point name) or bearer, or nothing; it never follows a dangling index entry, and such a session is unique.\<close>

theorem sgwc_lookup_exact:
  assumes "sgwc_ascii_reach commit s" "ascii sub" "ascii apn"
  shows "(\<exists>r. FindByS5TEID_sgwc s teid = Ok r \<and>
      (\<forall>x. r = Some x \<longleftrightarrow> (\<exists>i. Find_sgwc s i = Some x \<and> ft_TEID (ss_S5Control x) = teid))) \<and>
    (\<exists>r. FindByPFCPControlSEID_sgwc s seid = Ok r \<and>
      (\<forall>x. r = Some x \<longleftrightarrow> (\<exists>i. Find_sgwc s i = Some x \<and> ss_PFCPControlSEID x = seid))) \<and>
    (\<exists>r. FindByOwner_sgwc s sub apn = Ok r \<and>
      (\<forall>x. r = Some x \<longleftrightarrow> (\<exists>i. Find_sgwc s i = Some x \<and>
         ownerKey_sgwc (ss_SubscriberKey x) (ss_APN x) = ownerKey_sgwc sub apn))) \<and>
    (\<exists>r. FindBySubscriberAndEBI_sgwc s sub ebi = Ok r \<and>
      (\<forall>x. r = Some x \<longleftrightarrow> (\<exists>i. Find_sgwc s i = Some x \<and> ss_SubscriberKey x = sub \<and> ss_Bearers x ebi \<noteq> None)))"
proof -
  have "store_ok s" using sgwc_reach_store_inv[OF sgwc_ascii_reach_reach[OF assms(1)]] by (simp add: store_inv_def)
  note D = store_okD(1-4)[OF this]
  have "bearerOwnerKey_sgwc sub ebi \<in> bearer_keys x \<longleftrightarrow> ss_SubscriberKey x = sub \<and> ss_Bearers x ebi \<noteq> None" for x
    by (auto simp: bearer_keys_def bearerOwnerKey_sgwc_def)
  with by_index_exact[OF D(1), of teid] by_index_exact[OF D(2), of seid]
    by_index_exact[OF D(3), of "ownerKey_sgwc sub apn"] by_index_exact[OF D(4), of "bearerOwnerKey_sgwc sub ebi"]
  show ?thesis
    unfolding FindByS5TEID_sgwc_def FindByPFCPControlSEID_sgwc_def FindByOwner_sgwc_def FindBySubscriberAndEBI_sgwc_def
      Find_sgwc_def by (simp add: key_defs eq_commute)
qed

lemma find_bearer_found:
  assumes "\<forall>i \<in> set ids. st_byID s i \<noteq> None"
  shows "\<exists>r. find_bearer s ebi ids = Ok r \<and>
    (case r of None \<Rightarrow> \<forall>i \<in> set ids. \<forall>x. st_byID s i = Some x \<longrightarrow> ss_Bearers x ebi = None
     | Some x \<Rightarrow> \<exists>i \<in> set ids. st_byID s i = Some x \<and> ss_Bearers x ebi \<noteq> None)"
  using assms
proof (induction ids)
  case (Cons i ids)
  then obtain x where x: "st_byID s i = Some x" by auto
  from Cons obtain r where r: "find_bearer s ebi ids = Ok r"
    "case r of None \<Rightarrow> \<forall>i \<in> set ids. \<forall>x. st_byID s i = Some x \<longrightarrow> ss_Bearers x ebi = None
     | Some x \<Rightarrow> \<exists>i \<in> set ids. st_byID s i = Some x \<and> ss_Bearers x ebi \<noteq> None" by auto
  show ?case
  proof (cases "ss_Bearers x ebi = None")
    case True
    then show ?thesis using r x by (intro exI[of _ r]) (auto split: option.splits)
  qed (use x in auto)
qed simp

lemma no_overlap:
  assumes ok: "store_ok s" and xy: "st_byID s i = Some x" "st_byID s j = Some y" "i \<noteq> j"
    and same: "ss_SubscriberKey x = ss_SubscriberKey y"
  shows "\<not> bearersOverlap_sgwc x y"
proof
  assume "bearersOverlap_sgwc x y"
  then obtain ebi where "ss_Bearers x ebi \<noteq> None" "ss_Bearers y ebi \<noteq> None" by (auto simp: bearersOverlap_sgwc_def)
  then have "bearerOwnerKey_sgwc (ss_SubscriberKey x) ebi \<in> bearer_keys x \<inter> bearer_keys y"
    using same by (auto simp: bearer_keys_def)
  then show False using index_ok_unique[OF store_okD(4)[OF ok] xy(1,2)] xy(3) by blast
qed

text \<open>C9: In every reachable store the sessions that share an S11 control tunnel belong to one subscriber behind one
  MME tunnel and have disjoint bearers, and a lookup by S11 TEID and bearer finds exactly the session that owns the
  bearer on that tunnel.\<close>

theorem sgwc_s11_lookup:
  assumes "sgwc_reach commit s"
  shows "(\<forall>i x j y. Find_sgwc s i = Some x \<longrightarrow> Find_sgwc s j = Some y \<longrightarrow> i \<noteq> j \<longrightarrow>
      ft_TEID (ss_S11Control x) = ft_TEID (ss_S11Control y) \<longrightarrow>
      sameS11Owner_sgwc x y \<and> \<not> bearersOverlap_sgwc x y) \<and>
    (\<exists>r. FindByS11TEIDAndEBI_sgwc s teid ebi = Ok r \<and> (\<forall>x. r = Some x \<longleftrightarrow>
      (\<exists>i. Find_sgwc s i = Some x \<and> ft_TEID (ss_S11Control x) = teid \<and> ss_Bearers x ebi \<noteq> None)))"
proof -
  have ok: "store_ok s" using sgwc_reach_store_inv[OF assms] by (simp add: store_inv_def)
  have sib: "sameS11Owner_sgwc x y \<and> \<not> bearersOverlap_sgwc x y"
    if "st_byID s i = Some x" "st_byID s j = Some y" "i \<noteq> j" "ft_TEID (ss_S11Control x) = ft_TEID (ss_S11Control y)" for i x j y
    using store_okD(7)[OF ok that(1,2,4)] no_overlap[OF ok that(1-3)] by (simp add: sameS11Owner_sgwc_def)
  let ?ids = "rev (sortedIDs_sgwc (ids_of (st_byS11 s teid)))"
  have ids: "set ?ids = {i. \<exists>x. st_byID s i = Some x \<and> ft_TEID (ss_S11Control x) = teid}"
    unfolding sortedIDs_sgwc_def set_rev by (simp add: s11_ok_ids[OF store_okD(5)[OF ok]])
  then have "\<forall>i \<in> set ?ids. st_byID s i \<noteq> None" by auto
  from find_bearer_found[OF this, of ebi] obtain r where r: "FindByS11TEIDAndEBI_sgwc s teid ebi = Ok r"
    "case r of None \<Rightarrow> \<forall>i \<in> set ?ids. \<forall>x. st_byID s i = Some x \<longrightarrow> ss_Bearers x ebi = None
     | Some x \<Rightarrow> \<exists>i \<in> set ?ids. st_byID s i = Some x \<and> ss_Bearers x ebi \<noteq> None"
    by (auto simp: FindByS11TEIDAndEBI_sgwc_def)
  have "r = Some x \<longleftrightarrow> (\<exists>i. st_byID s i = Some x \<and> ft_TEID (ss_S11Control x) = teid \<and> ss_Bearers x ebi \<noteq> None)" for x
  proof
    assume "r = Some x"
    then show "\<exists>i. st_byID s i = Some x \<and> ft_TEID (ss_S11Control x) = teid \<and> ss_Bearers x ebi \<noteq> None"
      using r(2) unfolding ids by auto
  next
    assume "\<exists>i. st_byID s i = Some x \<and> ft_TEID (ss_S11Control x) = teid \<and> ss_Bearers x ebi \<noteq> None"
    then obtain i where x: "st_byID s i = Some x" "ft_TEID (ss_S11Control x) = teid" "ss_Bearers x ebi \<noteq> None" by blast
    then have "r \<noteq> None" using r(2) unfolding ids by (cases r) auto
    then obtain j y where y: "r = Some y" "st_byID s j = Some y" "ft_TEID (ss_S11Control y) = teid" "ss_Bearers y ebi \<noteq> None"
      using r(2) unfolding ids by auto
    have "bearersOverlap_sgwc x y" using x(3) y(4) by (auto simp: bearersOverlap_sgwc_def)
    then have "i = j" using sib[OF x(1) y(2)] x(2) y(3) by auto
    then show "r = Some x" using x(1) y(1,2) by simp
  qed
  with r(1) sib show ?thesis unfolding Find_sgwc_def by blast
qed


section \<open>Properties of the store\<close>

text \<open>C7: Whatever sequence of operations led to a store, with any clock, callback and outcome of the persister, as long as
  the sessions given to it by requests, callbacks and restored logs have ASCII subscriber keys and access point names: the
  five indexes agree with the session table, every stored session is valid and filed under its own identifier, and the
  capacity is respected.\<close>

theorem sgwc_reach_consistent:
  assumes "sgwc_ascii_reach commit s"
  shows "index_ok s5_keys (st_byID s) (st_byS5 s) \<and> index_ok pfcp_keys (st_byID s) (st_byPFCP s) \<and>
    index_ok owner_keys (st_byID s) (st_byOwner s) \<and> index_ok bearer_keys (st_byID s) (st_byBearer s) \<and>
    s11_ok (st_byID s) (st_byS11 s) \<and>
    (\<forall>i x. st_byID s i = Some x \<longrightarrow> ss_ID x = i \<and> validate_sgwc x = Ok ()) \<and>
    int (Count_sgwc s) \<le> Capacity_sgwc s"
proof -
  have inv: "store_inv s" by (rule sgwc_reach_store_inv[OF sgwc_ascii_reach_reach[OF assms]])
  then have "store_ok s" by (simp add: store_inv_def)
  note D = store_okD[OF this]
  from D(1-5) D(6) inv show ?thesis by (simp add: store_inv_def Count_sgwc_def Capacity_sgwc_def)
qed

text \<open>C10: Optimistic concurrency: when an update of a session succeeds, the session was stored with the expected revision and
  is now stored with a revision one higher than the one the callback left in it; from then on any update, deletion or
  reconciliation that expects another revision is refused with a conflict and changes nothing. So, when the callback does
  not touch the revision, the new revision is one above the expected one, and whoever still expects the old one is
  refused.\<close>

theorem sgwc_update_conflict:
  assumes "sgwc_reach commit s" "Update_sgwc commit now sid rv (Some m) s = (Ok x, s')"
  shows "\<exists>current nxt. Find_sgwc s sid = Some current \<and> ss_Revision current = rv \<and> m current = Ok nxt \<and>
      x = nxt\<lparr>ss_Revision := ss_Revision nxt + 1, ss_UpdatedAt := now\<rparr> \<and> Find_sgwc s' sid = Some x \<and>
      (\<forall>old. old \<noteq> ss_Revision x \<longrightarrow>
        Update_sgwc commit' now' sid old (Some m') s' = (Err ErrConflict_sgwc, s') \<and>
        Delete_sgwc commit' sid old s' = (Err ErrConflict_sgwc, s') \<and>
        (up \<noteq> 0 \<longrightarrow> ReconcilePFCPUserSEID_sgwc commit' now' sid old up s' = (Err ErrConflict_sgwc, s'))) \<and>
      (ss_Revision nxt = rv \<longrightarrow> ss_Revision x = rv + 1 \<and> rv \<noteq> ss_Revision x)"
proof -
  have ok: "store_ok s" using sgwc_reach_store_inv[OF assms(1)] by (simp add: store_inv_def)
  from Update_cases[OF ok, of commit now sid rv "Some m"] obtain cur nxt where
    cur: "st_byID s sid = Some cur" "ss_Revision cur = rv" "m cur = Ok nxt" "\<not> st_poisoned s"
    and eq: "Update_sgwc commit now sid rv (Some m) s =
         (case persist_sgwc commit (Some cur) (Some (touched now nxt)) s of
            (Err e, s1) \<Rightarrow> (Err e, s1) | (Panic, s1) \<Rightarrow> (Panic, s1)
          | (Ok _, s1) \<Rightarrow> (Ok (touched now nxt), replaced sid cur (touched now nxt) s1))"
    using assms(2) by auto
  have x: "x = touched now nxt" "st_byID s' sid = Some x" "\<not> st_poisoned s'"
    using assms(2) cur(4) unfolding eq
    by (cases rule: persist_cases[of commit "Some cur" "Some (touched now nxt)" s]; auto simp: replaced_fields)+
  then have refused: "Update_sgwc commit' now' sid old (Some m') s' = (Err ErrConflict_sgwc, s')"
    "Delete_sgwc commit' sid old s' = (Err ErrConflict_sgwc, s')"
    "up \<noteq> 0 \<Longrightarrow> ReconcilePFCPUserSEID_sgwc commit' now' sid old up s' = (Err ErrConflict_sgwc, s')"
    if "old \<noteq> ss_Revision x" for old
    using that by (auto simp: Update_sgwc_def Delete_sgwc_def ReconcilePFCPUserSEID_sgwc_def)
  show ?thesis
    using cur x refused by (intro exI[of _ cur] exI[of _ nxt]) (simp add: Find_sgwc_def touched_def)
qed

text \<open>C11: A failed durable commit poisons the store, for each of Create, Update, ReconcilePFCPUserSEID and Delete: when the
  operation would change a session and the persister refuses to commit that change, the operation returns the persistence
  error, the store is poisoned and the session table and all its indexes are as before; more generally an operation that
  does not succeed changes no session. A poisoned store refuses every such operation with the error \<^verbatim>\<open>ErrPoisoned\<close> (or, where
  the arguments are refused before the store is looked at, with their error), refuses to be restored, and stays as it is.\<close>

theorem sgwc_poisoned_is_final:
  assumes "sgwc_reach commit s"
  shows "(fst (run_op working_commit op s) = Ok nxt \<and> st_byID (snd (run_op working_commit op s)) \<noteq> st_byID s \<and>
      st_persister s = Some w \<and> \<not> fst (commit (op_previous op s) nxt w) \<longrightarrow>
        fst (run_op commit op s) = Err ErrPersistence_sgwc \<and> st_poisoned (snd (run_op commit op s)) \<and>
        same_sessions s (snd (run_op commit op s))) \<and>
    (\<not> is_Ok (fst (run_op commit op s)) \<longrightarrow> same_sessions s (snd (run_op commit op s))) \<and>
    (st_poisoned s \<longrightarrow> run_op commit op s =
        (case op_check op of Ok u \<Rightarrow> Err ErrPoisoned_sgwc | Err e \<Rightarrow> Err e | Panic \<Rightarrow> Panic, s) \<and>
      Restore_sgwc cs s = (Err ErrPoisoned_sgwc, s))"
proof -
  have ok: "store_ok s" using sgwc_reach_store_inv[OF assms] by (simp add: store_inv_def)
  have failed: "(fst (run_op working_commit op s) = Ok nxt \<and> st_byID (snd (run_op working_commit op s)) \<noteq> st_byID s \<and>
      st_persister s = Some w \<and> \<not> fst (commit (op_previous op s) nxt w) \<longrightarrow>
        fst (run_op commit op s) = Err ErrPersistence_sgwc \<and> st_poisoned (snd (run_op commit op s)) \<and>
        same_sessions s (snd (run_op commit op s))) \<and>
    (\<not> is_Ok (fst (run_op commit op s)) \<longrightarrow> same_sessions s (snd (run_op commit op s)))"
    using run_op_split[OF ok, of op]
  proof (elim disjE conjE exE)
    assume same: "\<forall>commit. \<exists>r. run_op commit op s = (r, s)"
    then obtain r r' where "run_op commit op s = (r, s)" "run_op working_commit op s = (r', s)" by blast
    then show ?thesis by (simp add: same_sessions_def)
  next
    fix n nx next_store
    assume eq: "\<forall>commit. run_op commit op s = (case persist_sgwc commit (op_previous op s) nx (s\<lparr>st_nextID := n\<rparr>) of
        (Ok u, s1) \<Rightarrow> (Ok nx, next_store s1) | (Err e, s1) \<Rightarrow> (Err e, s1) | (Panic, s1) \<Rightarrow> (Panic, s1))"
    have nx: "fst (run_op working_commit op s) = Ok nx"
      by (simp add: eq persist_sgwc_def working_commit_def split: option.split)
    show ?thesis
      unfolding nx
      by (cases "st_persister s"; cases "commit (op_previous op s) nx (the (st_persister s))")
        (auto simp: eq persist_sgwc_def same_sessions_def split: bool.splits)
  qed
  then show ?thesis using run_op_poisoned[of s commit op] by (simp add: Restore_sgwc_def)
qed

section \<open>A concrete store\<close>

definition sample_fteid :: "32 word \<Rightarrow> FTEID_sgwc" where
  "sample_fteid t = \<lparr>ft_TEID = t, ft_IP = Addr4 0x0a000001\<rparr>"

definition sample_bearer :: Bearer_sgwc where
  "sample_bearer = \<lparr>b_EBI = 5, b_QCI = 9, b_ARP = 8, b_PreemptionCapable = False, b_PreemptionVulnerable = False,
     b_UplinkMBR = 0, b_DownlinkMBR = 0, b_UplinkGBR = 0, b_DownlinkGBR = 0, b_Default = True, b_State = [],
     b_ENBUser = sample_fteid 1, b_SGWUAccess = sample_fteid 2, b_SGWUCore = sample_fteid 3, b_PGWUser = sample_fteid 4,
     b_Rules = \<lparr>ri_UplinkPDR = 1, ri_DownlinkPDR = 2, ri_UplinkFAR = 1, ri_DownlinkFAR = 2, ri_QER = 1, ri_URR = 1\<rparr>\<rparr>"

definition sample_session :: Session_sgwc where
  "sample_session = \<lparr>ss_ID = 0, ss_Revision = 0, ss_SubscriberKey = [1], ss_APN = [0x61], ss_State = [],
     ss_MMEControl = sample_fteid 5, ss_S11Control = sample_fteid 6, ss_S5Control = sample_fteid 7,
     ss_PGWControl = sample_fteid 8, ss_PFCPControlSEID = 11, ss_PFCPUserSEID = 12, ss_Bearers = [5 \<mapsto> sample_bearer],
     ss_CreatedAt = 0, ss_UpdatedAt = 0\<rparr>"

definition no_commit :: "unit commit_sgwc" where "no_commit previous nxt w = (True, w)"
definition full_disk :: "unit commit_sgwc" where "full_disk previous nxt w = (False, w)"

definition sample_store :: "unit Store_sgwc" where
  "sample_store = snd (Create_sgwc no_commit 7 sample_session (NewStoreWithPersister_sgwc 10 None))"

lemma sample_valid: "validate_sgwc sample_session = Ok ()"
  by (simp add: validate_sgwc_def sample_session_def sample_fteid_def blank_def invalid_bearers_def defaultBearers_def
      sample_bearer_def)

lemma sample_creatable: "creatable (NewStoreWithPersister_sgwc 10 w) sample_session"
  using sample_valid by (simp add: creatable_def NewStoreWithPersister_sgwc_def s11_conflict_def)

abbreviation stored_sample :: Session_sgwc where
  "stored_sample \<equiv> sample_session\<lparr>ss_ID := 1, ss_Revision := 1, ss_CreatedAt := 7, ss_UpdatedAt := 7\<rparr>"

lemma stamped_sample: "stamped 7 (NewStoreWithPersister_sgwc 10 w) sample_session = stored_sample"
  by (simp add: stamped_def NewStoreWithPersister_sgwc_def)

lemma sgwc_sample_ascii: "sgwc_ascii_reach no_commit sample_store"
  unfolding sample_store_def
  by (rule ascii_create[OF ascii_new])
    (simp_all add: NewStoreWithPersister_sgwc_def ascii_session_def ascii_def sample_session_def)

lemma sgwc_sample_reach: "sgwc_reach no_commit sample_store"
  using sgwc_sample_ascii by (rule sgwc_ascii_reach_reach)

lemma sample_find: "st_byID sample_store = [1 \<mapsto> stored_sample]" "st_poisoned sample_store = False"
  unfolding sample_store_def Create_creatable[OF sample_creatable] stamped_sample
  by (simp_all add: persist_sgwc_def NewStoreWithPersister_sgwc_def)

theorem sgwc_lookup_exact_witness: "FindByS5TEID_sgwc sample_store 7 = Ok (Some stored_sample)"
proof -
  have "ascii []" by (simp add: ascii_def)
  from sgwc_lookup_exact[OF sgwc_sample_ascii this this, of 7 0 0] obtain r where
    r: "FindByS5TEID_sgwc sample_store 7 = Ok r" "\<forall>x. r = Some x \<longleftrightarrow>
      (\<exists>i. Find_sgwc sample_store i = Some x \<and> ft_TEID (ss_S5Control x) = 7)" by blast
  have "Find_sgwc sample_store 1 = Some stored_sample" "ft_TEID (ss_S5Control stored_sample) = 7"
    by (simp_all add: Find_sgwc_def sample_find sample_session_def sample_fteid_def)
  with r(2) have "r = Some stored_sample" by metis
  with r(1) show ?thesis by simp
qed

theorem sgwc_s11_lookup_witness: "FindByS11TEIDAndEBI_sgwc sample_store 6 5 = Ok (Some stored_sample)"
proof -
  from sgwc_s11_lookup[OF sgwc_sample_reach, of 6 5] obtain r where
    r: "FindByS11TEIDAndEBI_sgwc sample_store 6 5 = Ok r" "\<forall>x. r = Some x \<longleftrightarrow>
      (\<exists>i. Find_sgwc sample_store i = Some x \<and> ft_TEID (ss_S11Control x) = 6 \<and> ss_Bearers x 5 \<noteq> None)" by blast
  have "Find_sgwc sample_store 1 = Some stored_sample" "ft_TEID (ss_S11Control stored_sample) = 6"
    "ss_Bearers stored_sample 5 \<noteq> None"
    by (simp_all add: Find_sgwc_def sample_find sample_session_def sample_fteid_def)
  with r(2) have "r = Some stored_sample" by metis
  with r(1) show ?thesis by simp
qed

theorem sgwc_reach_consistent_witness: "st_byS5 sample_store 7 = Some 1"
proof -
  have "index_ok s5_keys (st_byID sample_store) (st_byS5 sample_store)" using sgwc_reach_consistent[OF sgwc_sample_ascii] by blast
  then show ?thesis by (rule index_okI) (auto simp: sample_find s5_keys_def sample_session_def sample_fteid_def)
qed

theorem sgwc_update_conflict_witness:
  "fst (Update_sgwc no_commit 9 1 1 (Some Ok) (snd (Update_sgwc no_commit 8 1 1 (Some Ok) sample_store))) =
     Err ErrConflict_sgwc"
proof -
  have v: "validate_sgwc stored_sample = Ok ()"
    by (simp add: validate_sgwc_def sample_session_def sample_fteid_def blank_def invalid_bearers_def defaultBearers_def
      sample_bearer_def)
  have "\<not> st_poisoned sample_store" "st_byS11 sample_store = [6 \<mapsto> {1}]" "st_byS5 sample_store = [7 \<mapsto> 1]"
    "st_byBearer sample_store = index_put {([1], 5)} 1 Map.empty" "st_persister sample_store = None"
    unfolding sample_store_def Create_creatable[OF sample_creatable] stamped_sample
    by (simp_all add: persist_sgwc_def NewStoreWithPersister_sgwc_def insert_sgwc_def Let_def sample_session_def
      sample_fteid_def bearer_keys_def bearerOwnerKey_sgwc_def)
  with v obtain x where "fst (Update_sgwc no_commit 8 1 1 (Some Ok) sample_store) = Ok x"
    by (simp add: Update_sgwc_def sample_find EqualFold_def persist_sgwc_def Let_def sample_session_def sample_fteid_def
      bearerOwnerKey_sgwc_def index_put_def)
  then have u: "Update_sgwc no_commit 8 1 1 (Some Ok) sample_store =
      (Ok x, snd (Update_sgwc no_commit 8 1 1 (Some Ok) sample_store))" by (simp add: prod_eq_iff)
  from sgwc_update_conflict[OF sgwc_sample_reach u, of no_commit 9 Ok 0] obtain current nxt where
    c: "Find_sgwc sample_store 1 = Some current" "ss_Revision current = 1" "Ok current = (Ok nxt :: (sgwc_error, Session_sgwc) outcome)"
    and old: "\<forall>old. old \<noteq> ss_Revision x \<longrightarrow> Update_sgwc no_commit 9 1 old (Some Ok)
        (snd (Update_sgwc no_commit 8 1 1 (Some Ok) sample_store)) =
        (Err ErrConflict_sgwc, snd (Update_sgwc no_commit 8 1 1 (Some Ok) sample_store))"
    and rv: "ss_Revision nxt = 1 \<longrightarrow> ss_Revision x = 1 + 1 \<and> 1 \<noteq> ss_Revision x" by blast
  from c have "ss_Revision nxt = 1" by simp
  with rv have "1 \<noteq> ss_Revision x" by blast
  with old show ?thesis by simp
qed

theorem sgwc_poisoned_is_final_witness:
  "fst (Create_sgwc full_disk 7 sample_session (NewStoreWithPersister_sgwc 10 (Some ()))) = Err ErrPersistence_sgwc \<and>
   st_poisoned (snd (Create_sgwc full_disk 7 sample_session (NewStoreWithPersister_sgwc 10 (Some ()))))"
proof -
  let ?s = "NewStoreWithPersister_sgwc 10 (Some ()) :: unit Store_sgwc" and ?op = "OpCreate 7 sample_session"
  have w: "run_op working_commit ?op ?s = (Ok (Some stored_sample), insert_sgwc stored_sample (?s\<lparr>st_nextID := 1\<rparr>))"
    unfolding run_op.simps Create_creatable[OF sample_creatable] stamped_sample
    by (simp add: persist_sgwc_def NewStoreWithPersister_sgwc_def working_commit_def)
  have "st_byID (snd (run_op working_commit ?op ?s)) \<noteq> st_byID ?s"
    unfolding w by (simp add: NewStoreWithPersister_sgwc_def)
  moreover have "st_persister ?s = Some ()" "\<not> fst (full_disk (op_previous ?op ?s) (Some stored_sample) ())"
    by (simp_all add: NewStoreWithPersister_sgwc_def full_disk_def)
  ultimately have "fst (run_op full_disk ?op ?s) = Err ErrPersistence_sgwc \<and> st_poisoned (snd (run_op full_disk ?op ?s))"
    using sgwc_poisoned_is_final[OF reach_new, where op = ?op and nxt = "Some stored_sample" and w = "()"
        and commit = full_disk] w by simp
  moreover have "fst (stored_result p) = Err e \<longleftrightarrow> fst p = Err e" for p :: "(sgwc_error, Session_sgwc) outcome \<times> unit Store_sgwc" and e
    by (cases p; cases "fst p") auto
  ultimately show ?thesis by simp
qed

end
