(* ===== verification/Pfcp_Header.thy ===== *)
theory Pfcp_Header
  imports Gtpv2_Header
begin

unbundle bit_operations_syntax

text \<open>
  The PFCP message header of \<^verbatim>\<open>pkg/pfcp/header.go\<close>: \<open>Parse_pfcp\<close>, \<open>Marshal_pfcp\<close> and
  \<open>ValidateScope_pfcp\<close>, against the layout of a frame. The theory of the GTPv2-C header is imported
  for its lemma on the priority nibble only.
\<close>

section \<open>Data\<close>

definition Version_pfcp :: byte where "Version_pfcp = 1"

definition MessageSessionEstablishmentRequest :: byte where "MessageSessionEstablishmentRequest = 50"
definition MessageSessionReportResponse :: byte where "MessageSessionReportResponse = 57"

text \<open>The sentinel errors of package pfcp (header and information elements).\<close>

datatype pfcp_error = ErrTooShort_pfcp | ErrUnsupportedVersion_pfcp | ErrInvalidLength_pfcp
  | ErrInvalidHeader_pfcp | ErrMalformedIE_pfcp | ErrTooManyIEs_pfcp | ErrGroupedDepth_pfcp
  | ErrMissingIE_pfcp

record pfcp_header =
  x_Version :: byte
  x_FollowOn :: bool
  x_HasSEID :: bool
  x_HasPriority :: bool
  x_MessageType :: byte
  x_Length :: "16 word"
  x_SEID :: "64 word"
  x_SequenceNumber :: "32 word"
  x_MessagePriority :: byte
  x_FrameLength :: nat

section \<open>Operations\<close>

definition Parse_pfcp :: "byte list \<Rightarrow> (pfcp_error, pfcp_header \<times> byte list) outcome" where
  "Parse_pfcp packet =
     (if length packet < 8 then Err ErrTooShort_pfcp
      else andThen (byte_at packet 0) (\<lambda>b0. andThen (byte_at packet 1) (\<lambda>b1.
        andThen (read16 packet 2) (\<lambda>len.
        let h = \<lparr>x_Version = drop_bit 5 b0, x_FollowOn = (b0 AND 0x04 \<noteq> 0),
                 x_HasSEID = (b0 AND 0x01 \<noteq> 0), x_HasPriority = (b0 AND 0x02 \<noteq> 0),
                 x_MessageType = b1, x_Length = len, x_SEID = 0, x_SequenceNumber = 0,
                 x_MessagePriority = 0, x_FrameLength = 0\<rparr> in
        if x_Version h \<noteq> Version_pfcp then Err ErrUnsupportedVersion_pfcp
        else
          let headerLength = (if x_HasSEID h then 16 else 8) in
          if length packet < headerLength then Err ErrTooShort_pfcp
          else
            let h = h\<lparr>x_FrameLength := 4 + unat len\<rparr> in
            if x_FrameLength h < headerLength \<or> x_FrameLength h > length packet
            then Err ErrInvalidLength_pfcp
            else andThen
              (if x_HasSEID h
               then andThen (read64 packet 4) (\<lambda>seid. andThen (read24 packet 12) (\<lambda>seq.
                 let h = h\<lparr>x_SEID := seid, x_SequenceNumber := seq\<rparr> in
                 if x_HasPriority h
                 then andThen (byte_at packet 15) (\<lambda>b. Ok (h\<lparr>x_MessagePriority := drop_bit 4 b\<rparr>))
                 else Ok h))
               else andThen (read24 packet 4) (\<lambda>seq.
                 let h = h\<lparr>x_SequenceNumber := seq\<rparr> in
                 if x_HasPriority h
                 then andThen (byte_at packet 7) (\<lambda>b. Ok (h\<lparr>x_MessagePriority := drop_bit 4 b\<rparr>))
                 else Ok h)) (\<lambda>h.
              andThen (slice packet headerLength (x_FrameLength h)) (\<lambda>payload.
                Ok (h, payload)))))))"

definition flags_pfcp :: "pfcp_header \<Rightarrow> byte" where
  "flags_pfcp h = push_bit 5 Version_pfcp OR (if x_FollowOn h then 0x04 else 0)
     OR (if x_HasPriority h then 0x02 else 0) OR (if x_HasSEID h then 0x01 else 0)"

definition Marshal_pfcp :: "pfcp_header \<Rightarrow> byte list \<Rightarrow> (pfcp_error, byte list) outcome" where
  "Marshal_pfcp header payload =
     (let header = (if x_Version header = 0 then header\<lparr>x_Version := Version_pfcp\<rparr> else header) in
      if x_Version header \<noteq> Version_pfcp then Err ErrUnsupportedVersion_pfcp
      else if x_SequenceNumber header > 0xffffff \<or> x_MessagePriority header > 15
        then Err ErrInvalidHeader_pfcp
      else
        let headerLength = (if x_HasSEID header then 16 else 8);
            total = headerLength + length payload in
        if total - 4 > 0xffff then Err ErrInvalidLength_pfcp
        else
          andThen (buf_write (replicate total 0) 0 [flags_pfcp header]) (\<lambda>packet.
          andThen (buf_write packet 1 [x_MessageType header]) (\<lambda>packet.
          andThen (buf_write packet 2 (put16 (of_nat (total - 4)))) (\<lambda>packet.
          andThen
            (if x_HasSEID header
             then andThen (buf_write packet 4 (put64 (x_SEID header))) (\<lambda>packet.
               andThen (buf_write packet 12 (put24 (x_SequenceNumber header))) (\<lambda>packet.
               if x_HasPriority header
               then buf_write packet 15 [push_bit 4 (x_MessagePriority header)] else Ok packet))
             else andThen (buf_write packet 4 (put24 (x_SequenceNumber header))) (\<lambda>packet.
               if x_HasPriority header
               then buf_write packet 7 [push_bit 4 (x_MessagePriority header)] else Ok packet)) (\<lambda>packet.
          buf_copy packet headerLength payload)))))"

definition ValidateScope_pfcp :: "pfcp_header \<Rightarrow> (pfcp_error, unit) outcome" where
  "ValidateScope_pfcp header =
     (let sessionMessage = (x_MessageType header \<ge> MessageSessionEstablishmentRequest
            \<and> x_MessageType header \<le> MessageSessionReportResponse) in
      if sessionMessage \<noteq> x_HasSEID header then Err ErrInvalidHeader_pfcp else Ok ())"

section \<open>The frame layout\<close>

definition frame_pfcp :: "pfcp_header \<Rightarrow> byte list \<Rightarrow> byte list" where
  "frame_pfcp h payload =
     (let rest = (if x_HasSEID h then put64 (x_SEID h) else []) @ put24 (x_SequenceNumber h)
           @ [if x_HasPriority h then push_bit 4 (x_MessagePriority h) else 0] @ payload
      in [flags_pfcp h, x_MessageType h] @ put16 (of_nat (length rest)) @ rest)"

definition sendable_pfcp :: "pfcp_header \<Rightarrow> byte list \<Rightarrow> bool" where
  "sendable_pfcp h payload \<longleftrightarrow> x_Version h \<in> {0, Version_pfcp} \<and> x_SequenceNumber h \<le> 0xffffff
     \<and> x_MessagePriority h \<le> 15 \<and> length (frame_pfcp h payload) - 4 \<le> 0xffff"

definition received_pfcp :: "pfcp_header \<Rightarrow> nat \<Rightarrow> pfcp_header" where
  "received_pfcp h n = h\<lparr>x_Version := Version_pfcp, x_Length := of_nat (n - 4), x_FrameLength := n,
     x_SEID := (if x_HasSEID h then x_SEID h else 0),
     x_MessagePriority := (if x_HasPriority h then x_MessagePriority h else 0)\<rparr>"

lemma frame_pfcp_length:
  "length (frame_pfcp h payload) = (if x_HasSEID h then 16 else 8) + length payload"
  by (simp add: frame_pfcp_def Let_def)

lemma frame_pfcp_version [simp]: "frame_pfcp (h\<lparr>x_Version := v\<rparr>) payload = frame_pfcp h payload"
  by (simp add: frame_pfcp_def flags_pfcp_def)

lemma Marshal_pfcp_Ok: "sendable_pfcp h payload \<Longrightarrow> Marshal_pfcp h payload = Ok (frame_pfcp h payload)"
  by (auto simp: Marshal_pfcp_def sendable_pfcp_def frame_pfcp_length Let_def not_less not_le
      replicate_octets buf_write_def buf_copy_def)
    (auto simp: frame_pfcp_def put16_def put24_def put64_def put40_def flags_pfcp_def Let_def)

lemma Marshal_pfcp_refuses: "\<not> sendable_pfcp h payload \<Longrightarrow> \<exists>e. Marshal_pfcp h payload = Err e"
  by (auto simp: Marshal_pfcp_def sendable_pfcp_def frame_pfcp_length Let_def not_less not_le)

lemma Marshal_pfcp_Ok_iff:
  "Marshal_pfcp h payload = Ok p \<longleftrightarrow> sendable_pfcp h payload \<and> p = frame_pfcp h payload"
  using Marshal_pfcp_Ok[of h payload] Marshal_pfcp_refuses[of h payload]
  by (cases "sendable_pfcp h payload") auto

section \<open>The decoder\<close>

definition has_seid :: "byte list \<Rightarrow> bool" where
  "has_seid p \<longleftrightarrow> p ! 0 AND 0x01 \<noteq> 0"

definition end_pfcp :: "byte list \<Rightarrow> nat" where
  "end_pfcp p = 4 + unat (be16 (p ! 2) (p ! 3))"

definition start_pfcp :: "byte list \<Rightarrow> nat" where
  "start_pfcp p = (if has_seid p then 16 else 8)"

definition framed_pfcp :: "byte list \<Rightarrow> bool" where
  "framed_pfcp p \<longleftrightarrow> 8 \<le> length p \<and> drop_bit 5 (p ! 0) = Version_pfcp
     \<and> start_pfcp p \<le> end_pfcp p \<and> end_pfcp p \<le> length p"

definition header_pfcp :: "byte list \<Rightarrow> pfcp_header" where
  "header_pfcp p =
     \<lparr>x_Version = drop_bit 5 (p ! 0), x_FollowOn = (p ! 0 AND 0x04 \<noteq> 0), x_HasSEID = has_seid p,
      x_HasPriority = (p ! 0 AND 0x02 \<noteq> 0), x_MessageType = p ! 1,
      x_Length = be16 (p ! 2) (p ! 3),
      x_SEID = (if has_seid p then be_fold (take 8 (drop 4 p)) else 0),
      x_SequenceNumber = (if has_seid p then be24 (p ! 12) (p ! 13) (p ! 14)
        else be24 (p ! 4) (p ! 5) (p ! 6)),
      x_MessagePriority = (if p ! 0 AND 0x02 \<noteq> 0
        then drop_bit 4 (if has_seid p then p ! 15 else p ! 7) else 0),
      x_FrameLength = end_pfcp p\<rparr>"

lemmas framed_defs_pfcp = has_seid_def end_pfcp_def start_pfcp_def framed_pfcp_def header_pfcp_def

lemma Parse_pfcp_framed:
  assumes "framed_pfcp p"
  shows "Parse_pfcp p = Ok (header_pfcp p,
    take (end_pfcp p - start_pfcp p) (drop (start_pfcp p) p))"
  using assms
  by (cases "p ! 0 AND 0x01 = 0") (auto simp: Parse_pfcp_def framed_defs_pfcp read_defs Let_def)

lemma Parse_pfcp_unframed:
  assumes "\<not> framed_pfcp p"
  shows "Parse_pfcp p \<in> Err ` {ErrTooShort_pfcp, ErrUnsupportedVersion_pfcp, ErrInvalidLength_pfcp}"
  using assms by (auto simp: Parse_pfcp_def framed_defs_pfcp read_defs Let_def)

lemma Parse_pfcp_Ok_iff:
  "Parse_pfcp p = Ok (h, payload) \<longleftrightarrow> framed_pfcp p \<and> h = header_pfcp p \<and>
     payload = take (end_pfcp p - start_pfcp p) (drop (start_pfcp p) p)"
  using Parse_pfcp_framed[of p] Parse_pfcp_unframed[of p] by (cases "framed_pfcp p") auto

lemma flags_pfcp_bits:
  "drop_bit 5 (flags_pfcp h) = Version_pfcp" "(flags_pfcp h AND 0x04 \<noteq> 0) = x_FollowOn h"
  "(flags_pfcp h AND 0x02 \<noteq> 0) = x_HasPriority h" "(flags_pfcp h AND 0x01 \<noteq> 0) = x_HasSEID h"
  by (simp_all add: flags_pfcp_def Version_pfcp_def)

lemma Parse_frame_pfcp:
  assumes "sendable_pfcp h payload"
  shows "Parse_pfcp (frame_pfcp h payload @ trailing) =
    Ok (received_pfcp h (length (frame_pfcp h payload)), payload)"
proof -
  define n where "n = length (frame_pfcp h payload)"
  define p where "p = frame_pfcp h payload @ trailing"
  have n: "n = (if x_HasSEID h then 16 else 8) + length payload"
    by (simp add: n_def frame_pfcp_length)
  have snd: "x_SequenceNumber h \<le> 0xffffff" "x_MessagePriority h \<le> 15" "n - 4 \<le> 0xffff"
    using assms by (auto simp: sendable_pfcp_def n_def)
  have flags: "p ! 0 = flags_pfcp h" "p ! 1 = x_MessageType h"
    by (simp_all add: p_def frame_pfcp_def Let_def)
  have len: "be16 (p ! 2) (p ! 3) = of_nat (n - 4)"
    using n by (simp add: p_def frame_pfcp_def put16_def codec_simps Let_def)
  have "4 \<le> n" using n by simp
  then have e: "end_pfcp p = n" unfolding end_pfcp_def len unat_of_nat16[OF snd(3)] by simp
  have t: "has_seid p = x_HasSEID h" by (simp add: has_seid_def flags flags_pfcp_bits)
  have "n \<le> length p" by (simp add: p_def n_def)
  with n have fr: "framed_pfcp p"
    by (auto simp: framed_pfcp_def e start_pfcp_def t flags flags_pfcp_bits split: if_splits)
  have seid: "x_HasSEID h \<Longrightarrow> take 8 (drop 4 p) = put64 (x_SEID h)"
    by (simp add: p_def frame_pfcp_def put16_def Let_def)
  have hd: "header_pfcp p = received_pfcp h n"
    using snd
    by (intro pfcp_header.equality)
      (auto simp: header_pfcp_def received_pfcp_def e t len flags flags[unfolded One_nat_def]
        flags_pfcp_bits seid be_fold_put64,
       auto simp: p_def frame_pfcp_def put16_def put24_def put64_def put40_def codec_simps Let_def)
  have "drop (start_pfcp p) p = payload @ trailing"
    by (simp add: start_pfcp_def t)
      (simp add: p_def frame_pfcp_def put16_def put24_def put64_def put40_def Let_def)
  moreover have "n - start_pfcp p = length payload" using n by (simp add: start_pfcp_def t)
  ultimately show ?thesis
    using Parse_pfcp_framed[OF fr] hd e by (simp flip: p_def n_def)
qed

section \<open>Properties\<close>

text \<open>The PFCP header codec is total and its two directions agree: whatever datagram arrives, the
  decoder returns a frame that lies inside the datagram or one of the errors too short, unsupported
  version, invalid length, and it never panics; and whatever the encoder accepts is parsed back to the
  same header (version and length filled in, unsent fields zero) and payload, whatever follows it.\<close>

theorem Parse_Marshal_pfcp:
  "((\<exists>h payload. Parse_pfcp q = Ok (h, payload) \<and> x_FrameLength h \<le> length q
      \<and> x_FrameLength h = (if x_HasSEID h then 16 else 8) + length payload)
    \<or> Parse_pfcp q \<in> Err ` {ErrTooShort_pfcp, ErrUnsupportedVersion_pfcp, ErrInvalidLength_pfcp})
   \<and> (Marshal_pfcp h payload = Ok p \<longrightarrow>
      Parse_pfcp (p @ trailing) = Ok (received_pfcp h (length p), payload))"
proof
  show "(\<exists>h payload. Parse_pfcp q = Ok (h, payload) \<and> x_FrameLength h \<le> length q
      \<and> x_FrameLength h = (if x_HasSEID h then 16 else 8) + length payload)
    \<or> Parse_pfcp q \<in> Err ` {ErrTooShort_pfcp, ErrUnsupportedVersion_pfcp, ErrInvalidLength_pfcp}"
  proof (cases "framed_pfcp q")
    case True
    then show ?thesis
      by (auto simp: Parse_pfcp_framed framed_pfcp_def header_pfcp_def start_pfcp_def)
  next
    case False
    then show ?thesis by (intro disjI2 Parse_pfcp_unframed)
  qed
  show "Marshal_pfcp h payload = Ok p \<longrightarrow>
      Parse_pfcp (p @ trailing) = Ok (received_pfcp h (length p), payload)"
    using Parse_frame_pfcp by (auto simp: Marshal_pfcp_Ok_iff)
qed

definition sample_pfcp :: pfcp_header where
  "sample_pfcp = \<lparr>x_Version = 0, x_FollowOn = False, x_HasSEID = True, x_HasPriority = True,
     x_MessageType = 50, x_Length = 0, x_SEID = 0x0102030405060708, x_SequenceNumber = 0x123456,
     x_MessagePriority = 5, x_FrameLength = 0\<rparr>"

end
