(* ===== verification/Pfcp_IE.thy ===== *)
theory Pfcp_IE
  imports Pfcp_Header Tlv_Framing
begin

unbundle bit_operations_syntax

text \<open>
  Lists of PFCP information elements (\<^verbatim>\<open>pkg/pfcp/ie.go\<close>): the TLV decoder and encoder with 16-bit
  types, grouped elements and lookup. The interpretation \<open>px\<close> of \<open>tlv_codec\<close> gives the round trips.
\<close>

section \<open>Data\<close>

record IE_pfcp =
  pie_Type :: "16 word"
  pie_Value :: "byte list"

definition maxIEsPerScope_pfcp :: nat where "maxIEsPerScope_pfcp = 512"
definition maxGroupedDepth_pfcp :: nat where "maxGroupedDepth_pfcp = 8"

section \<open>Element types\<close>

definition IECreatePDR :: "16 word" where "IECreatePDR = 1"
definition IEPDI :: "16 word" where "IEPDI = 2"
definition IECreateFAR :: "16 word" where "IECreateFAR = 3"
definition IEForwardingParameters :: "16 word" where "IEForwardingParameters = 4"
definition IECreateURR :: "16 word" where "IECreateURR = 6"
definition IECreateQER :: "16 word" where "IECreateQER = 7"
definition IECreatedPDR :: "16 word" where "IECreatedPDR = 8"
definition IEUpdatePDR :: "16 word" where "IEUpdatePDR = 9"
definition IEUpdateFAR :: "16 word" where "IEUpdateFAR = 10"
definition IEUpdateForwardingParameters :: "16 word" where "IEUpdateForwardingParameters = 11"
definition IEUpdateURR :: "16 word" where "IEUpdateURR = 13"
definition IEUpdateQER :: "16 word" where "IEUpdateQER = 14"
definition IERemovePDR :: "16 word" where "IERemovePDR = 15"
definition IERemoveFAR :: "16 word" where "IERemoveFAR = 16"
definition IERemoveURR :: "16 word" where "IERemoveURR = 17"
definition IERemoveQER :: "16 word" where "IERemoveQER = 18"
definition IECause_pfcp :: "16 word" where "IECause_pfcp = 19"
definition IESourceInterface :: "16 word" where "IESourceInterface = 20"
definition IEFTEID_pfcp :: "16 word" where "IEFTEID_pfcp = 21"
definition IENetworkInstance :: "16 word" where "IENetworkInstance = 22"
definition IESDFFilter :: "16 word" where "IESDFFilter = 23"
definition IEGateStatus :: "16 word" where "IEGateStatus = 25"
definition IEMBR :: "16 word" where "IEMBR = 26"
definition IEGBR :: "16 word" where "IEGBR = 27"
definition IEPrecedence :: "16 word" where "IEPrecedence = 29"
definition IEVolumeThreshold :: "16 word" where "IEVolumeThreshold = 31"
definition IEReportingTriggers :: "16 word" where "IEReportingTriggers = 37"
definition IEReportType :: "16 word" where "IEReportType = 39"
definition IEDestinationInterface :: "16 word" where "IEDestinationInterface = 42"
definition IEUPFunctionFeatures :: "16 word" where "IEUPFunctionFeatures = 43"
definition IEApplyAction :: "16 word" where "IEApplyAction = 44"
definition IEDownlinkDataServiceInfo :: "16 word" where "IEDownlinkDataServiceInfo = 45"
definition IEDownlinkDataNotifyDelay :: "16 word" where "IEDownlinkDataNotifyDelay = 46"
definition IEPDRID :: "16 word" where "IEPDRID = 56"
definition IEFSEID :: "16 word" where "IEFSEID = 57"
definition IENodeID :: "16 word" where "IENodeID = 60"
definition IEMeasurementMethod :: "16 word" where "IEMeasurementMethod = 62"
definition IEUsageReportTrigger :: "16 word" where "IEUsageReportTrigger = 63"
definition IEVolumeMeasurement :: "16 word" where "IEVolumeMeasurement = 66"
definition IEDurationMeasurement :: "16 word" where "IEDurationMeasurement = 67"
definition IETimeOfFirstPacket :: "16 word" where "IETimeOfFirstPacket = 69"
definition IETimeOfLastPacket :: "16 word" where "IETimeOfLastPacket = 70"
definition IEStartTime :: "16 word" where "IEStartTime = 75"
definition IEEndTime :: "16 word" where "IEEndTime = 76"
definition IEUsageReportSessionReport :: "16 word" where "IEUsageReportSessionReport = 80"
definition IEURRID :: "16 word" where "IEURRID = 81"
definition IEDownlinkDataReport :: "16 word" where "IEDownlinkDataReport = 83"
definition IEOuterHeaderCreation :: "16 word" where "IEOuterHeaderCreation = 84"
definition IECreateBAR :: "16 word" where "IECreateBAR = 85"
definition IEUpdateBAR :: "16 word" where "IEUpdateBAR = 86"
definition IERemoveBAR :: "16 word" where "IERemoveBAR = 87"
definition IEBARID :: "16 word" where "IEBARID = 88"
definition IECPFunctionFeatures :: "16 word" where "IECPFunctionFeatures = 89"
definition IEUEIPAddress :: "16 word" where "IEUEIPAddress = 93"
definition IEOuterHeaderRemoval :: "16 word" where "IEOuterHeaderRemoval = 95"
definition IERecoveryTimeStamp :: "16 word" where "IERecoveryTimeStamp = 96"
definition IEURSEQN :: "16 word" where "IEURSEQN = 104"
definition IEFARID :: "16 word" where "IEFARID = 108"
definition IEQERID :: "16 word" where "IEQERID = 109"
definition IEPDNType_pfcp :: "16 word" where "IEPDNType_pfcp = 113"
definition IEAPNDNN :: "16 word" where "IEAPNDNN = 159"
definition IEVendorBearerQoS :: "16 word" where "IEVendorBearerQoS = 0x8000"

lemmas pfcp_types = IECreatePDR_def IEPDI_def IECreateFAR_def IEForwardingParameters_def IECreateURR_def
  IECreateQER_def IECreatedPDR_def IEUpdatePDR_def IEUpdateFAR_def IEUpdateForwardingParameters_def
  IEUpdateURR_def IEUpdateQER_def IERemovePDR_def IERemoveFAR_def IERemoveURR_def IERemoveQER_def
  IECause_pfcp_def IESourceInterface_def IEFTEID_pfcp_def IENetworkInstance_def IESDFFilter_def
  IEGateStatus_def IEMBR_def IEGBR_def IEPrecedence_def IEVolumeThreshold_def IEReportingTriggers_def
  IEReportType_def IEDestinationInterface_def IEUPFunctionFeatures_def IEApplyAction_def
  IEDownlinkDataServiceInfo_def IEDownlinkDataNotifyDelay_def IEPDRID_def IEFSEID_def IENodeID_def
  IEMeasurementMethod_def IEUsageReportTrigger_def IEVolumeMeasurement_def IEDurationMeasurement_def
  IETimeOfFirstPacket_def IETimeOfLastPacket_def IEStartTime_def IEEndTime_def
  IEUsageReportSessionReport_def IEURRID_def IEDownlinkDataReport_def IEOuterHeaderCreation_def
  IECreateBAR_def IEUpdateBAR_def IERemoveBAR_def IEBARID_def IECPFunctionFeatures_def IEUEIPAddress_def
  IEOuterHeaderRemoval_def IERecoveryTimeStamp_def IEURSEQN_def IEFARID_def IEQERID_def
  IEPDNType_pfcp_def IEAPNDNN_def IEVendorBearerQoS_def

text \<open>Cause values, interfaces and the bits of the flag fields.\<close>

definition CauseRequestAccepted :: byte where "CauseRequestAccepted = 1"
definition CauseRequestRejected :: byte where "CauseRequestRejected = 64"
definition CauseSessionNotFound :: byte where "CauseSessionNotFound = 65"
definition CauseMandatoryIEMissing :: byte where "CauseMandatoryIEMissing = 66"
definition CauseConditionalIEMissing :: byte where "CauseConditionalIEMissing = 67"
definition CauseInvalidLength :: byte where "CauseInvalidLength = 68"
definition CauseMandatoryIEIncorrect :: byte where "CauseMandatoryIEIncorrect = 69"
definition CauseNoAssociation :: byte where "CauseNoAssociation = 72"
definition CauseRuleCreationFailure :: byte where "CauseRuleCreationFailure = 73"
definition CauseNoResources :: byte where "CauseNoResources = 75"
definition CauseServiceNotSupported :: byte where "CauseServiceNotSupported = 76"
definition CauseSystemFailure :: byte where "CauseSystemFailure = 77"
definition InterfaceAccess :: byte where "InterfaceAccess = 0"
definition InterfaceCore :: byte where "InterfaceCore = 1"
definition ApplyDrop :: byte where "ApplyDrop = 1"
definition ApplyForward :: byte where "ApplyForward = 2"
definition ApplyBuffer :: byte where "ApplyBuffer = 4"
definition ApplyNotifyControlPlane :: byte where "ApplyNotifyControlPlane = 8"
definition ReportDownlinkData :: byte where "ReportDownlinkData = 1"
definition ReportUsage :: byte where "ReportUsage = 2"
definition UsageReportTriggerPeriodic :: "32 word" where "UsageReportTriggerPeriodic = 1"
definition UsageReportTriggerVolumeThreshold :: "32 word" where "UsageReportTriggerVolumeThreshold = 2"
definition UsageReportTriggerTimeThreshold :: "32 word" where "UsageReportTriggerTimeThreshold = 4"
definition UsageReportTriggerImmediate :: "32 word" where "UsageReportTriggerImmediate = 128"
definition UsageReportTriggerTermination :: "32 word" where "UsageReportTriggerTermination = 2048"
definition MeasurementDuration :: byte where "MeasurementDuration = 1"
definition MeasurementVolume :: byte where "MeasurementVolume = 2"
definition ReportingTriggerPeriodic :: "32 word" where "ReportingTriggerPeriodic = 1"
definition ReportingTriggerVolumeThreshold :: "32 word" where "ReportingTriggerVolumeThreshold = 2"
definition ReportingTriggerTimeThreshold :: "32 word" where "ReportingTriggerTimeThreshold = 4"
definition OuterHeaderGTPUUDPIPv4 :: "16 word" where "OuterHeaderGTPUUDPIPv4 = 0x0100"
definition OuterHeaderGTPUUDPIPv6 :: "16 word" where "OuterHeaderGTPUUDPIPv6 = 0x0200"
definition OuterHeaderRemovalGTPUUDPIPv4 :: byte where "OuterHeaderRemovalGTPUUDPIPv4 = 0"
definition OuterHeaderRemovalGTPUUDPIPv6 :: byte where "OuterHeaderRemovalGTPUUDPIPv6 = 1"
definition OuterHeaderRemovalGTPUUDPIP :: byte where "OuterHeaderRemovalGTPUUDPIP = 6"

lemmas pfcp_flags = CauseRequestAccepted_def CauseRequestRejected_def CauseSessionNotFound_def
  CauseMandatoryIEMissing_def CauseConditionalIEMissing_def CauseInvalidLength_def
  CauseMandatoryIEIncorrect_def CauseNoAssociation_def CauseRuleCreationFailure_def CauseNoResources_def
  CauseServiceNotSupported_def CauseSystemFailure_def InterfaceAccess_def InterfaceCore_def ApplyDrop_def
  ApplyForward_def ApplyBuffer_def ApplyNotifyControlPlane_def ReportDownlinkData_def ReportUsage_def
  UsageReportTriggerPeriodic_def UsageReportTriggerVolumeThreshold_def
  UsageReportTriggerTimeThreshold_def UsageReportTriggerImmediate_def UsageReportTriggerTermination_def
  MeasurementDuration_def MeasurementVolume_def ReportingTriggerPeriodic_def
  ReportingTriggerVolumeThreshold_def ReportingTriggerTimeThreshold_def OuterHeaderGTPUUDPIPv4_def
  OuterHeaderGTPUUDPIPv6_def OuterHeaderRemovalGTPUUDPIPv4_def OuterHeaderRemovalGTPUUDPIPv6_def
  OuterHeaderRemovalGTPUUDPIP_def

section \<open>Decoding and encoding lists of elements\<close>

function parseIEs_loop_pfcp :: "byte list \<Rightarrow> nat \<Rightarrow> IE_pfcp list \<Rightarrow> (pfcp_error, IE_pfcp list) outcome" where
  "parseIEs_loop_pfcp payload offset ies =
     (if \<not> offset < length payload then Ok ies
      else if length ies \<ge> maxIEsPerScope_pfcp then Err ErrTooManyIEs_pfcp
      else if length payload - offset < 4 then Err ErrMalformedIE_pfcp
      else andThen (read16 payload offset) (\<lambda>typ. andThen (read16 payload (offset + 2)) (\<lambda>len.
        let total = 4 + unat len in
        if typ = 0 \<or> total < 4 \<or> total > length payload - offset then Err ErrMalformedIE_pfcp
        else andThen (slice payload (offset + 4) (offset + total)) (\<lambda>value.
          parseIEs_loop_pfcp payload (offset + total) (ies @ [\<lparr>pie_Type = typ, pie_Value = value\<rparr>])))))"
  by pat_completeness auto
termination
  by (relation "measure (\<lambda>(payload, offset, ies). length payload - offset)") auto

declare parseIEs_loop_pfcp.simps [simp del]

definition parseIEs_pfcp :: "byte list \<Rightarrow> nat \<Rightarrow> (pfcp_error, IE_pfcp list) outcome" where
  "parseIEs_pfcp payload depth =
     (if depth > maxGroupedDepth_pfcp then Err ErrGroupedDepth_pfcp else parseIEs_loop_pfcp payload 0 [])"

definition ParseIEs_pfcp :: "byte list \<Rightarrow> (pfcp_error, IE_pfcp list) outcome" where
  "ParseIEs_pfcp payload = parseIEs_pfcp payload 0"

fun marshal_total_pfcp :: "IE_pfcp list \<Rightarrow> int \<Rightarrow> (pfcp_error, int) outcome" where
  "marshal_total_pfcp [] sz = Ok sz"
| "marshal_total_pfcp (ie # ies) sz =
     (if pie_Type ie = 0 \<or> length (pie_Value ie) > 0xffff then Err ErrMalformedIE_pfcp
      else if sz > 0xffff - (4 + int (length (pie_Value ie))) then Err ErrMalformedIE_pfcp
      else marshal_total_pfcp ies (sz + (4 + int (length (pie_Value ie)))))"

definition put_IE_pfcp :: "byte list \<Rightarrow> nat \<Rightarrow> IE_pfcp \<Rightarrow> (pfcp_error, byte list) outcome" where
  "put_IE_pfcp out offset ie =
     andThen (buf_write out offset (put16 (pie_Type ie))) (\<lambda>out.
     andThen (buf_write out (offset + 2) (put16 (of_nat (length (pie_Value ie))))) (\<lambda>out.
     buf_copy out (offset + 4) (pie_Value ie)))"

fun marshal_write_pfcp :: "byte list \<Rightarrow> nat \<Rightarrow> IE_pfcp list \<Rightarrow> (pfcp_error, byte list) outcome" where
  "marshal_write_pfcp out offset [] = Ok out"
| "marshal_write_pfcp out offset (ie # ies) =
     andThen (put_IE_pfcp out offset ie) (\<lambda>out.
       marshal_write_pfcp out (offset + (4 + length (pie_Value ie))) ies)"

definition MarshalIEs_pfcp :: "IE_pfcp list \<Rightarrow> (pfcp_error, byte list) outcome" where
  "MarshalIEs_pfcp ies =
     (if length ies > maxIEsPerScope_pfcp then Err ErrTooManyIEs_pfcp
      else andThen (marshal_total_pfcp ies 0) (\<lambda>total.
        marshal_write_pfcp (replicate (nat total) 0) 0 ies))"

section \<open>Grouped elements and lookup\<close>

definition Clone_IE_pfcp :: "IE_pfcp \<Rightarrow> IE_pfcp" where
  "Clone_IE_pfcp ie = \<lparr>pie_Type = pie_Type ie, pie_Value = pie_Value ie\<rparr>"

text \<open>The grouped types: Create/Update/Remove of PDR, FAR, URR, QER and BAR, PDI, (Update) Forwarding
  Parameters, Created PDR, Downlink Data Report and the usage report of a session report.\<close>

definition IsGroupedType :: "16 word \<Rightarrow> bool" where
  "IsGroupedType typ \<longleftrightarrow> typ \<in> {IECreatePDR, IEPDI, IECreateFAR, IEForwardingParameters, IECreateURR,
     IECreateQER, IECreatedPDR, IEUpdatePDR, IEUpdateFAR, IEUpdateForwardingParameters, IEUpdateURR,
     IEUpdateQER, IERemovePDR, IERemoveFAR, IERemoveURR, IERemoveQER, IEDownlinkDataReport, IECreateBAR,
     IEUpdateBAR, IERemoveBAR, IEUsageReportSessionReport}"

definition Children_IE_pfcp :: "IE_pfcp \<Rightarrow> (pfcp_error, IE_pfcp list) outcome" where
  "Children_IE_pfcp ie =
     (if \<not> IsGroupedType (pie_Type ie) then Err ErrMalformedIE_pfcp else parseIEs_pfcp (pie_Value ie) 1)"

definition NewGroupedIE_pfcp :: "16 word \<Rightarrow> IE_pfcp list \<Rightarrow> (pfcp_error, IE_pfcp) outcome" where
  "NewGroupedIE_pfcp typ children =
     (if \<not> IsGroupedType typ then Err ErrMalformedIE_pfcp
      else andThen (MarshalIEs_pfcp children) (\<lambda>value. Ok \<lparr>pie_Type = typ, pie_Value = value\<rparr>))"

fun FindIE_pfcp :: "IE_pfcp list \<Rightarrow> 16 word \<Rightarrow> IE_pfcp option" where
  "FindIE_pfcp [] typ = None"
| "FindIE_pfcp (ie # ies) typ = (if pie_Type ie = typ then Some (Clone_IE_pfcp ie) else FindIE_pfcp ies typ)"

fun FindAllIEs_pfcp :: "IE_pfcp list \<Rightarrow> 16 word \<Rightarrow> IE_pfcp list" where
  "FindAllIEs_pfcp [] typ = []"
| "FindAllIEs_pfcp (ie # ies) typ =
     (if pie_Type ie = typ then Clone_IE_pfcp ie # FindAllIEs_pfcp ies typ else FindAllIEs_pfcp ies typ)"

section \<open>The codec meets its interface\<close>

definition emit_IE_pfcp :: "IE_pfcp \<Rightarrow> byte list" where
  "emit_IE_pfcp ie = put16 (pie_Type ie) @ put16 (of_nat (length (pie_Value ie))) @ pie_Value ie"

definition wf_IE_pfcp :: "IE_pfcp \<Rightarrow> bool" where
  "wf_IE_pfcp ie \<longleftrightarrow> pie_Type ie \<noteq> 0 \<and> length (pie_Value ie) \<le> 0xffff"

lemma Clone_IE_pfcp_id [simp]: "Clone_IE_pfcp ie = ie"
  by (cases ie) (simp add: Clone_IE_pfcp_def)

lemma IE_pfcp_eta [simp]: "\<lparr>pie_Type = pie_Type ie, pie_Value = pie_Value ie\<rparr> = ie"
  by (cases ie) simp

lemma emit_IE_pfcp_length [simp]: "length (emit_IE_pfcp ie) = 4 + length (pie_Value ie)"
  by (simp add: emit_IE_pfcp_def)

lemma parseIEs_loop_pfcp_eval:
  assumes "offset + 4 \<le> length p" "length acc < maxIEsPerScope_pfcp"
    and "be16 (p ! offset) (p ! (offset + 1)) \<noteq> 0"
    and "n = unat (be16 (p ! (offset + 2)) (p ! (offset + 3)))" "offset + (4 + n) \<le> length p"
  shows "parseIEs_loop_pfcp p offset acc = parseIEs_loop_pfcp p (offset + (4 + n))
    (acc @ [\<lparr>pie_Type = be16 (p ! offset) (p ! (offset + 1)), pie_Value = take n (drop (offset + 4) p)\<rparr>])"
  using assms by (subst parseIEs_loop_pfcp.simps) (auto simp: read_defs Let_def add.assoc numeral_3_eq_3)

lemma parseIEs_loop_pfcp_step:
  assumes "wf_IE_pfcp ie" "length acc < maxIEsPerScope_pfcp"
  shows "parseIEs_loop_pfcp (pre @ emit_IE_pfcp ie @ post) (length pre) acc =
    parseIEs_loop_pfcp (pre @ emit_IE_pfcp ie @ post) (length pre + length (emit_IE_pfcp ie)) (acc @ [ie])"
proof -
  let ?p = "pre @ emit_IE_pfcp ie @ post"
  have nth: "be16 (?p ! length pre) (?p ! (length pre + 1)) = pie_Type ie"
    "be16 (?p ! (length pre + 2)) (?p ! (length pre + 3)) = of_nat (length (pie_Value ie))"
    by (simp_all add: emit_IE_pfcp_def nth_append put16_def codec_simps)
  have v: "take (length (pie_Value ie)) (drop (length pre + 4) ?p) = pie_Value ie"
    by (simp add: emit_IE_pfcp_def put16_def)
  have "parseIEs_loop_pfcp ?p (length pre) acc =
      parseIEs_loop_pfcp ?p (length pre + (4 + length (pie_Value ie)))
      (acc @ [\<lparr>pie_Type = be16 (?p ! length pre) (?p ! (length pre + 1)),
        pie_Value = take (length (pie_Value ie)) (drop (length pre + 4) ?p)\<rparr>])"
    using assms by (intro parseIEs_loop_pfcp_eval) (simp_all only: nth, auto simp: wf_IE_pfcp_def codec_simps)
  then show ?thesis unfolding nth v by simp
qed

lemma drop_IE_pfcp:
  assumes "offset + 4 \<le> length p" "n = unat (be16 (p ! (offset + 2)) (p ! (offset + 3)))"
    and "offset + (4 + n) \<le> length p"
  shows "drop offset p = emit_IE_pfcp \<lparr>pie_Type = be16 (p ! offset) (p ! (offset + 1)),
      pie_Value = take n (drop (offset + 4) p)\<rparr> @ drop (offset + (4 + n)) p"
proof -
  have "drop offset p = take 4 (drop offset p) @ drop 4 (drop offset p)"
    by (rule append_take_drop_id[symmetric])
  also have "take 4 (drop offset p) = [p ! offset, p ! (offset + 1), p ! (offset + 2), p ! (offset + 3)]"
    using assms(1) by (simp add: take_eq_map_nth upt_rec numeral_eq_Suc)
  also have "drop 4 (drop offset p) = take n (drop (offset + 4) p) @ drop (offset + (4 + n)) p"
    using append_take_drop_id[of n "drop (offset + 4) p"] by (simp add: add.commute add.left_commute)
  finally show ?thesis
    using assms by (simp add: emit_IE_pfcp_def codec_simps)
qed

lemma parseIEs_loop_pfcp_cases:
  assumes "offset < length p"
  shows "(\<exists>e. parseIEs_loop_pfcp p offset acc = Err e) \<or>
    (\<exists>ie post. wf_IE_pfcp ie \<and> length acc < maxIEsPerScope_pfcp \<and> drop offset p = emit_IE_pfcp ie @ post \<and>
      parseIEs_loop_pfcp p offset acc =
        parseIEs_loop_pfcp p (offset + length (emit_IE_pfcp ie)) (acc @ [ie]))"
proof -
  define n where "n = unat (be16 (p ! (offset + 2)) (p ! (offset + 3)))"
  let ?ie = "\<lparr>pie_Type = be16 (p ! offset) (p ! (offset + 1)), pie_Value = take n (drop (offset + 4) p)\<rparr>"
  show ?thesis
  proof (cases "offset + 4 \<le> length p \<and> length acc < maxIEsPerScope_pfcp
      \<and> be16 (p ! offset) (p ! (offset + 1)) \<noteq> 0 \<and> offset + (4 + n) \<le> length p")
    case True
    then have "parseIEs_loop_pfcp p offset acc = parseIEs_loop_pfcp p (offset + (4 + n)) (acc @ [?ie])"
      by (intro parseIEs_loop_pfcp_eval) (auto simp: n_def)
    moreover have "n \<le> 0xffff" using unsigned_less[of "be16 (p ! (offset + 2)) (p ! (offset + 3))", where ?'a = nat]
      by (simp add: n_def)
    ultimately show ?thesis
      using True drop_IE_pfcp[OF _ n_def]
      by (intro disjI2 exI[of _ ?ie] exI[of _ "drop (offset + (4 + n)) p"]) (auto simp: wf_IE_pfcp_def)
  next
    case False
    with assms show ?thesis
      by (intro disjI1, subst parseIEs_loop_pfcp.simps) (auto simp: read_defs Let_def n_def numeral_3_eq_3)
  qed
qed

lemma marshal_total_pfcp_eq:
  assumes "0 \<le> sz" "sz \<le> 0xffff"
  shows "marshal_total_pfcp ies sz =
    (if (\<forall>ie\<in>set ies. wf_IE_pfcp ie) \<and> sz + int (length (concat (map emit_IE_pfcp ies))) \<le> 0xffff
     then Ok (sz + int (length (concat (map emit_IE_pfcp ies)))) else Err ErrMalformedIE_pfcp)"
  using assms by (induction ies arbitrary: sz) (auto simp: wf_IE_pfcp_def not_less not_le)

lemma put_IE_pfcp_at:
  assumes "length (emit_IE_pfcp ie) \<le> length rest"
  shows "put_IE_pfcp (pre @ rest) (length pre) ie =
    Ok (pre @ emit_IE_pfcp ie @ drop (length (emit_IE_pfcp ie)) rest)"
proof -
  obtain a b c d r where rest: "rest = a # b # c # d # r"
    using assms by (auto simp: Suc_le_length_iff numeral_eq_Suc)
  with assms show ?thesis
    by (simp add: put_IE_pfcp_def buf_write_def buf_copy_def put16_def emit_IE_pfcp_def numeral_eq_Suc)
qed

interpretation px: tlv_codec parseIEs_loop_pfcp emit_IE_pfcp wf_IE_pfcp maxIEsPerScope_pfcp
  marshal_write_pfcp put_IE_pfcp ParseIEs_pfcp MarshalIEs_pfcp "0xffff"
proof unfold_locales
  show "emit_IE_pfcp ie \<noteq> []" for ie by (simp add: emit_IE_pfcp_def put16_def)
  show "length p \<le> off \<Longrightarrow> parseIEs_loop_pfcp p off acc = Ok acc" for p off acc
    by (simp add: parseIEs_loop_pfcp.simps)
  show "marshal_write_pfcp out off (ie # ies) = andThen (put_IE_pfcp out off ie)
      (\<lambda>out. marshal_write_pfcp out (off + length (emit_IE_pfcp ie)) ies)" for out off ie ies
    by simp
  show "ParseIEs_pfcp p = parseIEs_loop_pfcp p 0 []" for p
    by (simp add: ParseIEs_pfcp_def parseIEs_pfcp_def)
  show "MarshalIEs_pfcp ies = marshal_write_pfcp (replicate (length (concat (map emit_IE_pfcp ies))) 0) 0 ies"
    if "length ies \<le> maxIEsPerScope_pfcp" "\<forall>ie\<in>set ies. wf_IE_pfcp ie"
      "length (concat (map emit_IE_pfcp ies)) \<le> 0xffff"
    for ies using that by (simp add: MarshalIEs_pfcp_def marshal_total_pfcp_eq)
  show "\<exists>e. MarshalIEs_pfcp ies = Err e"
    if "\<not> (length ies \<le> maxIEsPerScope_pfcp \<and> (\<forall>ie\<in>set ies. wf_IE_pfcp ie) \<and>
      length (concat (map emit_IE_pfcp ies)) \<le> 0xffff)"
    for ies using that by (auto simp: MarshalIEs_pfcp_def marshal_total_pfcp_eq)
qed (use parseIEs_loop_pfcp_step parseIEs_loop_pfcp_cases put_IE_pfcp_at in auto)

lemma FindIE_pfcp_eq: "FindIE_pfcp ies typ = find (\<lambda>ie. pie_Type ie = typ) ies"
  by (induction ies) auto

lemma FindAllIEs_pfcp_eq: "FindAllIEs_pfcp ies typ = filter (\<lambda>ie. pie_Type ie = typ) ies"
  by (induction ies) auto

lemma Children_IE_pfcp_eq: "Children_IE_pfcp ie =
    (if \<not> IsGroupedType (pie_Type ie) then Err ErrMalformedIE_pfcp else ParseIEs_pfcp (pie_Value ie))"
  by (simp add: Children_IE_pfcp_def ParseIEs_pfcp_def parseIEs_pfcp_def maxGroupedDepth_pfcp_def)

lemma Children_NewGroupedIE_pfcp:
  "NewGroupedIE_pfcp typ children = Ok g \<Longrightarrow> Children_IE_pfcp g = Ok children \<and> pie_Type g = typ"
  using px.parse_marshal by (auto simp: NewGroupedIE_pfcp_def Children_IE_pfcp_eq split: if_splits)

section \<open>Properties\<close>

text \<open>C33: The PFCP element codec is exact: a list of elements is encoded to precisely those octet strings
  of at most 65535 octets that decode to it, so a rule set is read back as it was sent and nothing the
  encoder writes is rejected; and a grouped element (a PDR with its PDI, a FAR with its forwarding
  parameters) opens to exactly the children of which it was built.\<close>

theorem MarshalIEs_iff_ParseIEs_pfcp:
  "(MarshalIEs_pfcp ies = Ok bs \<longleftrightarrow> ParseIEs_pfcp bs = Ok ies \<and> length bs \<le> 0xffff)
   \<and> (NewGroupedIE_pfcp typ children = Ok g \<longleftrightarrow>
      pie_Type g = typ \<and> Children_IE_pfcp g = Ok children \<and> length (pie_Value g) \<le> 0xffff)"
proof -
  have 1: "MarshalIEs_pfcp ies = Ok bs \<longleftrightarrow> ParseIEs_pfcp bs = Ok ies \<and> length bs \<le> 0xffff" for ies bs
    using px.parse_marshal[of ies bs] px.marshal_parse[of bs ies] by (auto simp: px.marshal_Ok_iff)
  have "NewGroupedIE_pfcp typ children = Ok g \<longleftrightarrow>
      pie_Type g = typ \<and> Children_IE_pfcp g = Ok children \<and> length (pie_Value g) \<le> 0xffff"
    by (cases g) (auto simp: NewGroupedIE_pfcp_def Children_IE_pfcp_eq 1)
  with 1 show ?thesis by blast
qed

end
