(* ===== verification/Pfcp_Message.thy ===== *)
theory Pfcp_Message
  imports Pfcp_IE
begin

text \<open>
  Whole PFCP messages (\<^verbatim>\<open>pkg/pfcp/message.go\<close>): header and information elements together, and the loop
  that splits a datagram into its bundled messages.
\<close>

section \<open>Data and operations\<close>

record pfcp_message =
  pmsg_Header :: pfcp_header
  pmsg_IEs :: "IE_pfcp list"

definition ParseMessage_pfcp :: "byte list \<Rightarrow> (pfcp_error, pfcp_message) outcome" where
  "ParseMessage_pfcp packet =
     andThen (Parse_pfcp packet) (\<lambda>(header, payload).
       if x_FollowOn header \<or> x_FrameLength header \<noteq> length packet then Err ErrInvalidHeader_pfcp
       else andThen (ValidateScope_pfcp header) (\<lambda>_.
         andThen (ParseIEs_pfcp payload) (\<lambda>ies. Ok \<lparr>pmsg_Header = header, pmsg_IEs = ies\<rparr>)))"

text \<open>The loop of \<^verbatim>\<open>ParseMessages\<close>: the rest of the datagram and the messages decoded so far.\<close>

function parseMessages_loop_pfcp ::
  "byte list \<Rightarrow> pfcp_message list \<Rightarrow> (pfcp_error, pfcp_message list) outcome" where
  "parseMessages_loop_pfcp packet messages =
     (if packet = [] then Ok messages
      else andThen (Parse_pfcp packet) (\<lambda>(header, payload).
        andThen (ValidateScope_pfcp header) (\<lambda>_.
        andThen (ParseIEs_pfcp payload) (\<lambda>ies.
        let messages = messages @ [\<lparr>pmsg_Header = header, pmsg_IEs = ies\<rparr>] in
        andThen (slice packet (x_FrameLength header) (length packet)) (\<lambda>rest.
        if rest \<noteq> [] \<and> \<not> x_FollowOn header then Err ErrInvalidHeader_pfcp
        else if rest = [] \<and> x_FollowOn header then Err ErrInvalidHeader_pfcp
        else if length messages > 16 then Err ErrInvalidHeader_pfcp
        else parseMessages_loop_pfcp rest messages)))))"
  by pat_completeness auto
termination
  by (relation "measure (\<lambda>(packet, messages). length packet)")
    (auto simp: Parse_pfcp_Ok_iff framed_pfcp_def start_pfcp_def header_pfcp_def slice_def
      split: if_splits)

declare parseMessages_loop_pfcp.simps [simp del]

definition ParseMessages_pfcp :: "byte list \<Rightarrow> (pfcp_error, pfcp_message list) outcome" where
  "ParseMessages_pfcp packet = parseMessages_loop_pfcp packet []"

definition MarshalBinary_pfcp :: "pfcp_message \<Rightarrow> (pfcp_error, byte list) outcome" where
  "MarshalBinary_pfcp m =
     andThen (MarshalIEs_pfcp (pmsg_IEs m)) (\<lambda>payload. Marshal_pfcp (pmsg_Header m) payload)"

definition Clone_pfcp :: "pfcp_message \<Rightarrow> pfcp_message" where
  "Clone_pfcp m = \<lparr>pmsg_Header = pmsg_Header m, pmsg_IEs = map Clone_IE_pfcp (pmsg_IEs m)\<rparr>"

definition Find_pfcp :: "pfcp_message \<Rightarrow> 16 word \<Rightarrow> IE_pfcp option" where
  "Find_pfcp m typ = FindIE_pfcp (pmsg_IEs m) typ"

section \<open>One frame\<close>

definition received_message_pfcp :: "pfcp_message \<Rightarrow> nat \<Rightarrow> pfcp_message" where
  "received_message_pfcp m n =
     \<lparr>pmsg_Header = received_pfcp (pmsg_Header m) n, pmsg_IEs = pmsg_IEs m\<rparr>"

lemma ValidateScope_received_pfcp [simp]:
  "ValidateScope_pfcp (received_pfcp h n) = ValidateScope_pfcp h"
  "x_FollowOn (received_pfcp h n) = x_FollowOn h" "x_FrameLength (received_pfcp h n) = n"
  by (simp_all add: ValidateScope_pfcp_def received_pfcp_def)

lemma ValidateScope_pfcp_no_panic: "ValidateScope_pfcp h \<noteq> Panic"
  by (simp add: ValidateScope_pfcp_def Let_def)

lemma MarshalBinary_pfcp_frame:
  assumes "MarshalBinary_pfcp m = Ok p"
  shows "\<exists>payload. Parse_pfcp (p @ rest) = Ok (received_pfcp (pmsg_Header m) (length p), payload)
    \<and> ParseIEs_pfcp payload = Ok (pmsg_IEs m) \<and> p \<noteq> []"
proof -
  from assms obtain payload where 1: "MarshalIEs_pfcp (pmsg_IEs m) = Ok payload"
      and 2: "Marshal_pfcp (pmsg_Header m) payload = Ok p"
    by (auto simp: MarshalBinary_pfcp_def)
  have "Parse_pfcp (p @ rest) = Ok (received_pfcp (pmsg_Header m) (length p), payload)"
    using 2 Parse_frame_pfcp by (auto simp: Marshal_pfcp_Ok_iff)
  moreover have "p \<noteq> []" using 2 by (auto simp: Marshal_pfcp_Ok_iff frame_pfcp_def Let_def)
  ultimately show ?thesis using 1 px.parse_marshal by blast
qed

text \<open>A message that may be sent: it encodes, and its S flag fits its type.\<close>

definition valid_message_pfcp :: "pfcp_message \<Rightarrow> byte list \<Rightarrow> bool" where
  "valid_message_pfcp m p \<longleftrightarrow> MarshalBinary_pfcp m = Ok p \<and> ValidateScope_pfcp (pmsg_Header m) = Ok ()"

text \<open>A bundle: every message but the last, and only those, has the Follow On flag.\<close>

fun chained_pfcp :: "pfcp_message list \<Rightarrow> bool" where
  "chained_pfcp [] = True"
| "chained_pfcp (m # ms) = (x_FollowOn (pmsg_Header m) = (ms \<noteq> []) \<and> chained_pfcp ms)"

lemma parseMessages_pfcp_step:
  assumes "valid_message_pfcp m p" "x_FollowOn (pmsg_Header m) = (rest \<noteq> [])" "length acc < 16"
  shows "parseMessages_loop_pfcp (p @ rest) acc =
    parseMessages_loop_pfcp rest (acc @ [received_message_pfcp m (length p)])"
proof -
  obtain payload where "Parse_pfcp (p @ rest) = Ok (received_pfcp (pmsg_Header m) (length p), payload)"
      "ParseIEs_pfcp payload = Ok (pmsg_IEs m)" "p \<noteq> []"
    using assms(1) MarshalBinary_pfcp_frame unfolding valid_message_pfcp_def by blast
  then show ?thesis
    using assms
    by (subst parseMessages_loop_pfcp.simps)
      (auto simp: slice_def received_message_pfcp_def valid_message_pfcp_def Let_def)
qed

lemma valid_message_pfcp_nonempty: "valid_message_pfcp m p \<Longrightarrow> p \<noteq> []"
  using MarshalBinary_pfcp_frame by (auto simp: valid_message_pfcp_def)

lemma parseMessages_pfcp_bundle:
  assumes "list_all2 valid_message_pfcp ms ps" "chained_pfcp ms" "length acc + length ms \<le> 16"
  shows "parseMessages_loop_pfcp (concat ps) acc =
    Ok (acc @ map2 received_message_pfcp ms (map length ps))"
  using assms
proof (induction ms ps arbitrary: acc rule: list_all2_induct)
  case Nil
  then show ?case by (simp add: parseMessages_loop_pfcp.simps)
next
  case (Cons m ms p ps)
  have "(concat ps \<noteq> []) = (ms \<noteq> [])"
    using Cons.hyps(2) valid_message_pfcp_nonempty by (cases ms; cases ps) auto
  with Cons show ?case by (simp add: parseMessages_pfcp_step)
qed

lemma Parse_pfcp_no_panic: "Parse_pfcp p \<noteq> Panic"
  using Parse_pfcp_unframed[of p] Parse_pfcp_framed[of p] by (cases "framed_pfcp p") auto

lemma parseMessages_loop_pfcp_sound:
  "parseMessages_loop_pfcp packet acc = Ok ms \<Longrightarrow> length acc \<le> 16 \<Longrightarrow>
     length ms \<le> 16 \<and> (\<exists>new. ms = acc @ new \<and> chained_pfcp new \<and> (new = []) = (packet = [])
       \<and> (\<Sum>m\<leftarrow>new. x_FrameLength (pmsg_Header m)) = length packet)"
proof (induction packet acc rule: parseMessages_loop_pfcp.induct)
  case (1 packet acc)
  show ?case
  proof (cases "packet = []")
    case True
    with 1 show ?thesis by (simp add: parseMessages_loop_pfcp.simps)
  next
    case False
    then obtain header payload ies rest where st: "Parse_pfcp packet = Ok (header, payload)"
        "ValidateScope_pfcp header = Ok ()" "ParseIEs_pfcp payload = Ok ies"
        "(slice packet (x_FrameLength header) (length packet) :: (pfcp_error, byte list) outcome) = Ok rest"
        "(rest \<noteq> []) = x_FollowOn header" "length acc < 16"
        "parseMessages_loop_pfcp rest (acc @ [\<lparr>pmsg_Header = header, pmsg_IEs = ies\<rparr>]) = Ok ms"
      using "1.prems" by (auto simp: parseMessages_loop_pfcp.simps[of packet] Let_def split: if_splits)
    then obtain new where new: "length ms \<le> 16" "ms = (acc @ [\<lparr>pmsg_Header = header, pmsg_IEs = ies\<rparr>]) @ new"
        "chained_pfcp new" "(new = []) = (rest = [])"
        "(\<Sum>m\<leftarrow>new. x_FrameLength (pmsg_Header m)) = length rest"
      using "1.IH"[OF False st(1) refl st(2,3) refl st(4)] by auto
    have "x_FrameLength header + length rest = length packet"
      using st(4) by (auto simp: slice_def split: if_splits)
    with new st(5) False show ?thesis
      by (intro conjI exI[of _ "\<lparr>pmsg_Header = header, pmsg_IEs = ies\<rparr> # new"]) auto
  qed
qed

lemma parseMessages_loop_pfcp_no_panic: "parseMessages_loop_pfcp packet acc \<noteq> Panic"
proof (induction packet acc rule: parseMessages_loop_pfcp.induct)
  case (1 packet acc)
  have "x_FrameLength header \<le> length packet" if "Parse_pfcp packet = Ok (header, payload)"
    for header payload
    using that by (simp add: Parse_pfcp_Ok_iff framed_pfcp_def header_pfcp_def)
  then show ?case
    using 1 ValidateScope_pfcp_no_panic px.parse_no_panic Parse_pfcp_no_panic[of packet]
    by (subst parseMessages_loop_pfcp.simps) (fastforce simp: Let_def slice_def split: if_splits)
qed

section \<open>Properties\<close>

text \<open>C36: A bundle of up to sixteen PFCP messages, chained by the Follow On flag, is split by
  \<^verbatim>\<open>ParseMessages\<close> into exactly these messages, in order; a single message is decoded alike by
  \<^verbatim>\<open>ParseMessage\<close>. On any datagram at all, \<^verbatim>\<open>ParseMessages\<close> ends without a panic, and what it accepts
  is at most sixteen messages, chained, whose frames cover the datagram.\<close>

theorem ParseMessages_pfcp_bundle:
  "(list_all2 valid_message_pfcp ms ps \<and> chained_pfcp ms \<and> length ms \<le> 16 \<longrightarrow>
      ParseMessages_pfcp (concat ps) = Ok (map2 received_message_pfcp ms (map length ps)))
   \<and> (valid_message_pfcp m p \<and> \<not> x_FollowOn (pmsg_Header m) \<longrightarrow>
      ParseMessage_pfcp p = Ok (received_message_pfcp m (length p)))
   \<and> ParseMessages_pfcp packet \<noteq> Panic
   \<and> (ParseMessages_pfcp packet = Ok out \<longrightarrow> length out \<le> 16 \<and> chained_pfcp out
      \<and> (\<Sum>m\<leftarrow>out. x_FrameLength (pmsg_Header m)) = length packet)"
proof (intro conjI impI)
  assume "list_all2 valid_message_pfcp ms ps \<and> chained_pfcp ms \<and> length ms \<le> 16"
  then show "ParseMessages_pfcp (concat ps) = Ok (map2 received_message_pfcp ms (map length ps))"
    using parseMessages_pfcp_bundle[of ms ps "[]"] by (simp add: ParseMessages_pfcp_def)
next
  assume v: "valid_message_pfcp m p \<and> \<not> x_FollowOn (pmsg_Header m)"
  then obtain payload where "Parse_pfcp p = Ok (received_pfcp (pmsg_Header m) (length p), payload)"
      "ParseIEs_pfcp payload = Ok (pmsg_IEs m)"
    using MarshalBinary_pfcp_frame[of m p "[]"] by (auto simp: valid_message_pfcp_def)
  with v show "ParseMessage_pfcp p = Ok (received_message_pfcp m (length p))"
    by (simp add: ParseMessage_pfcp_def received_message_pfcp_def valid_message_pfcp_def)
next
  show "ParseMessages_pfcp packet \<noteq> Panic"
    by (simp add: ParseMessages_pfcp_def parseMessages_loop_pfcp_no_panic)
qed (use parseMessages_loop_pfcp_sound[of packet "[]" out] in \<open>auto simp: ParseMessages_pfcp_def\<close>)

definition sample_message_pfcp :: "bool \<Rightarrow> pfcp_message" where
  "sample_message_pfcp followOn = \<lparr>pmsg_Header = sample_pfcp\<lparr>x_FollowOn := followOn\<rparr>,
     pmsg_IEs = [\<lparr>pie_Type = 19, pie_Value = [1]\<rparr>]\<rparr>"

definition sample_wire_pfcp :: "byte \<Rightarrow> byte list" where
  "sample_wire_pfcp flags =
     [flags, 50, 0, 17, 1, 2, 3, 4, 5, 6, 7, 8, 0x12, 0x34, 0x56, 0x50, 0, 19, 0, 1, 1]"

lemma sample_message_pfcp_valid:
  "valid_message_pfcp (sample_message_pfcp True) (sample_wire_pfcp 0x27)"
  "valid_message_pfcp (sample_message_pfcp False) (sample_wire_pfcp 0x23)"
  by (simp_all add: valid_message_pfcp_def MarshalBinary_pfcp_def px.marshal_Ok_iff wf_IE_pfcp_def
      emit_IE_pfcp_def maxIEsPerScope_pfcp_def Marshal_pfcp_Ok_iff sendable_pfcp_def frame_pfcp_def
      flags_pfcp_def sample_pfcp_def sample_message_pfcp_def sample_wire_pfcp_def Version_pfcp_def
      put16_def put24_def put64_def put40_def Let_def ValidateScope_pfcp_def
      MessageSessionEstablishmentRequest_def MessageSessionReportResponse_def)

theorem ParseMessages_pfcp_bundle_witness:
  "ParseMessages_pfcp (concat [sample_wire_pfcp 0x27, sample_wire_pfcp 0x23]) =
     Ok [received_message_pfcp (sample_message_pfcp True) 21,
         received_message_pfcp (sample_message_pfcp False) 21]
   \<and> ParseMessage_pfcp (sample_wire_pfcp 0x23) = Ok (received_message_pfcp (sample_message_pfcp False) 21)
   \<and> chained_pfcp [received_message_pfcp (sample_message_pfcp True) 21,
        received_message_pfcp (sample_message_pfcp False) 21]"
proof -
  have len: "length (sample_wire_pfcp b) = 21" for b by (simp add: sample_wire_pfcp_def)
  have f: "x_FollowOn (pmsg_Header (sample_message_pfcp b)) = b" for b
    by (simp add: sample_message_pfcp_def)
  let ?ms = "[sample_message_pfcp True, sample_message_pfcp False]"
  let ?ps = "[sample_wire_pfcp 0x27, sample_wire_pfcp 0x23]"
  have "list_all2 valid_message_pfcp ?ms ?ps \<and> chained_pfcp ?ms \<and> length ?ms \<le> 16"
    using sample_message_pfcp_valid by (simp add: f)
  then have 1: "ParseMessages_pfcp (concat ?ps) = Ok (map2 received_message_pfcp ?ms (map length ?ps))"
    using ParseMessages_pfcp_bundle by blast
  have 2: "ParseMessage_pfcp (sample_wire_pfcp 0x23)
      = Ok (received_message_pfcp (sample_message_pfcp False) (length (sample_wire_pfcp 0x23)))"
    using ParseMessages_pfcp_bundle sample_message_pfcp_valid(2) f by blast
  have "chained_pfcp (map2 received_message_pfcp ?ms (map length ?ps))"
    using 1 ParseMessages_pfcp_bundle by blast
  with 1 2 show ?thesis by (simp add: len)
qed

end
