(* ===== verification/Pfcp_Values.thy ===== *)
theory Pfcp_Values
  imports Pfcp_IE
begin

unbundle bit_operations_syntax

text \<open>
  The typed PFCP elements of \<^verbatim>\<open>pkg/pfcp/ie.go\<close> that carry no address or name: causes, report types and
  triggers, volume and duration measurements, timestamps, rule identifiers, apply actions, gates and bit
  rates. Instants (\<^verbatim>\<open>time.Time\<close>) are nanoseconds since Go's zero time and durations are nanoseconds.
\<close>

section \<open>Cause and report type\<close>

definition NewCauseIE_pfcp :: "byte \<Rightarrow> IE_pfcp" where
  "NewCauseIE_pfcp cause = \<lparr>pie_Type = IECause_pfcp, pie_Value = [cause]\<rparr>"

definition Cause_IE_pfcp :: "IE_pfcp \<Rightarrow> (pfcp_error, byte) outcome" where
  "Cause_IE_pfcp ie =
     (if pie_Type ie \<noteq> IECause_pfcp \<or> length (pie_Value ie) < 1 then Err ErrMalformedIE_pfcp
      else andThen (byte_at (pie_Value ie) 0) (\<lambda>c. if c = 0 then Err ErrMalformedIE_pfcp else Ok c))"

definition NewReportTypeIE :: "byte \<Rightarrow> (pfcp_error, IE_pfcp) outcome" where
  "NewReportTypeIE flags =
     (if flags = 0 \<or> flags AND NOT (ReportDownlinkData OR ReportUsage) \<noteq> 0 then Err ErrMalformedIE_pfcp
      else Ok \<lparr>pie_Type = IEReportType, pie_Value = [flags]\<rparr>)"

definition ReportType_IE :: "IE_pfcp \<Rightarrow> (pfcp_error, byte) outcome" where
  "ReportType_IE ie =
     (if pie_Type ie \<noteq> IEReportType \<or> length (pie_Value ie) < 1 then Err ErrMalformedIE_pfcp
      else andThen (byte_at (pie_Value ie) 0) (\<lambda>v. andThen (NewReportTypeIE v) (\<lambda>_. Ok v)))"

section \<open>Usage reports\<close>

definition NewURSEQNIE :: "32 word \<Rightarrow> IE_pfcp" where
  "NewURSEQNIE sequence = \<lparr>pie_Type = IEURSEQN, pie_Value = put32 sequence\<rparr>"

definition URSEQN_IE :: "IE_pfcp \<Rightarrow> (pfcp_error, 32 word) outcome" where
  "URSEQN_IE ie =
     (if pie_Type ie \<noteq> IEURSEQN \<or> length (pie_Value ie) \<noteq> 4 then Err ErrMalformedIE_pfcp
      else read32 (pie_Value ie) 0)"

definition supportedUsageTriggers :: "32 word" where
  "supportedUsageTriggers = UsageReportTriggerPeriodic OR UsageReportTriggerVolumeThreshold
     OR UsageReportTriggerTimeThreshold OR UsageReportTriggerImmediate OR UsageReportTriggerTermination"

definition NewUsageReportTriggerIE :: "32 word \<Rightarrow> (pfcp_error, IE_pfcp) outcome" where
  "NewUsageReportTriggerIE flags =
     (if flags = 0 \<or> flags AND NOT supportedUsageTriggers \<noteq> 0 then Err ErrMalformedIE_pfcp
      else let len = (if flags > 0xffff then 3 else if flags > 0xff then 2 else 1) in
        Ok \<lparr>pie_Type = IEUsageReportTrigger,
            pie_Value = map (\<lambda>index. ucast (drop_bit (8 * index) flags)) [0..<len]\<rparr>)"

text \<open>The decoder's loop: octet \<open>index\<close> holds the bits from \<open>8 * index\<close> on.\<close>

fun le_fold :: "byte list \<Rightarrow> nat \<Rightarrow> 32 word \<Rightarrow> 32 word" where
  "le_fold [] index flags = flags"
| "le_fold (value # rest) index flags = le_fold rest (Suc index) (flags OR push_bit (8 * index) (ucast value))"

definition UsageReportTrigger_IE :: "IE_pfcp \<Rightarrow> (pfcp_error, 32 word) outcome" where
  "UsageReportTrigger_IE ie =
     (if pie_Type ie \<noteq> IEUsageReportTrigger \<or> length (pie_Value ie) < 1 \<or> length (pie_Value ie) > 3
      then Err ErrMalformedIE_pfcp
      else let flags = le_fold (pie_Value ie) 0 0 in
        andThen (NewUsageReportTriggerIE flags) (\<lambda>_. Ok flags))"

record VolumeMeasurement =
  vm_HasTotalPackets :: bool
  vm_HasUplinkPackets :: bool
  vm_HasDownlinkPackets :: bool
  vm_HasTotalBytes :: bool
  vm_HasUplinkBytes :: bool
  vm_HasDownlinkBytes :: bool
  vm_TotalPackets :: "64 word"
  vm_UplinkPackets :: "64 word"
  vm_DownlinkPackets :: "64 word"
  vm_TotalBytes :: "64 word"
  vm_UplinkBytes :: "64 word"
  vm_DownlinkBytes :: "64 word"

text \<open>The optional 64-bit fields of a measurement or threshold, in wire order: the flag loop, the write
  loop, and the read loop (which, for thresholds, refuses a zero value).\<close>

fun field_flags :: "(bool \<times> 64 word) list \<Rightarrow> nat \<Rightarrow> byte \<Rightarrow> byte" where
  "field_flags [] index flags = flags"
| "field_flags ((present, value) # fs) index flags =
     field_flags fs (Suc index) (if present then flags OR push_bit index 1 else flags)"

fun put_fields :: "(bool \<times> 64 word) list \<Rightarrow> byte list" where
  "put_fields [] = []"
| "put_fields ((present, value) # fs) = (if present then put64 value else []) @ put_fields fs"

fun read_fields :: "bool \<Rightarrow> bool list \<Rightarrow> byte list \<Rightarrow> nat \<Rightarrow> (pfcp_error, 64 word list) outcome" where
  "read_fields zero_ok [] value offset = Ok []"
| "read_fields zero_ok (present # fs) value offset =
     (if present
      then andThen (read64 value offset) (\<lambda>x.
        if \<not> zero_ok \<and> x = 0 then Err ErrMalformedIE_pfcp
        else andThen (read_fields zero_ok fs value (offset + 8)) (\<lambda>xs. Ok (x # xs)))
      else andThen (read_fields zero_ok fs value offset) (\<lambda>xs. Ok (0 # xs)))"

definition volume_fields :: "VolumeMeasurement \<Rightarrow> (bool \<times> 64 word) list" where
  "volume_fields m = [(vm_HasTotalBytes m, vm_TotalBytes m), (vm_HasUplinkBytes m, vm_UplinkBytes m),
     (vm_HasDownlinkBytes m, vm_DownlinkBytes m), (vm_HasTotalPackets m, vm_TotalPackets m),
     (vm_HasUplinkPackets m, vm_UplinkPackets m), (vm_HasDownlinkPackets m, vm_DownlinkPackets m)]"

definition NewVolumeMeasurementIE :: "VolumeMeasurement \<Rightarrow> (pfcp_error, IE_pfcp) outcome" where
  "NewVolumeMeasurementIE measurement =
     (let flags = field_flags (volume_fields measurement) 0 0 in
      if flags = 0 then Err ErrMalformedIE_pfcp
      else Ok \<lparr>pie_Type = IEVolumeMeasurement, pie_Value = flags # put_fields (volume_fields measurement)\<rparr>)"

definition flag_list :: "byte \<Rightarrow> nat \<Rightarrow> bool list" where
  "flag_list flags n = map (\<lambda>i. flags AND push_bit i 1 \<noteq> 0) [0..<n]"

definition VolumeMeasurement_IE :: "IE_pfcp \<Rightarrow> (pfcp_error, VolumeMeasurement) outcome" where
  "VolumeMeasurement_IE ie =
     (if pie_Type ie \<noteq> IEVolumeMeasurement \<or> length (pie_Value ie) < 9 then Err ErrMalformedIE_pfcp
      else andThen (byte_at (pie_Value ie) 0) (\<lambda>flags.
        if flags = 0 \<or> flags AND NOT 0x3f \<noteq> 0 then Err ErrMalformedIE_pfcp
        else
          let bits = flag_list flags 6; count = length (filter (\<lambda>b. b) bits) in
          if length (pie_Value ie) \<noteq> 1 + count * 8 then Err ErrMalformedIE_pfcp
          else andThen (read_fields True bits (pie_Value ie) 1) (\<lambda>xs.
            Ok \<lparr>vm_HasTotalPackets = bits ! 3, vm_HasUplinkPackets = bits ! 4,
                vm_HasDownlinkPackets = bits ! 5, vm_HasTotalBytes = bits ! 0,
                vm_HasUplinkBytes = bits ! 1, vm_HasDownlinkBytes = bits ! 2,
                vm_TotalPackets = xs ! 3, vm_UplinkPackets = xs ! 4, vm_DownlinkPackets = xs ! 5,
                vm_TotalBytes = xs ! 0, vm_UplinkBytes = xs ! 1, vm_DownlinkBytes = xs ! 2\<rparr>)))"

section \<open>Durations and instants\<close>

type_synonym duration = int

definition Second :: duration where "Second = 1000000000"
definition Millisecond :: duration where "Millisecond = 1000000"
definition ntpUnixOffset :: int where "ntpUnixOffset = 2208988800"

text \<open>\<^verbatim>\<open>t.Unix()\<close> and \<^verbatim>\<open>time.Unix(s, 0)\<close>: the Unix epoch is 62135596800 seconds after Go's zero time.\<close>

definition Unix :: "int \<Rightarrow> int" where "Unix t = t div Second - 62135596800"
definition UnixTime :: "int \<Rightarrow> int" where "UnixTime s = (s + 62135596800) * Second"

text \<open>\<^verbatim>\<open>uint32(seconds+ntpUnixOffset)\<close>: NTP seconds, modulo \<open>2 ^ 32\<close>.\<close>

definition ntp32 :: "int \<Rightarrow> 32 word" where "ntp32 seconds = of_int (seconds + ntpUnixOffset)"

definition NewDurationMeasurementIE :: "duration \<Rightarrow> (pfcp_error, IE_pfcp) outcome" where
  "NewDurationMeasurementIE d =
     (if d < 0 \<or> d div Second > 0xffffffff then Err ErrMalformedIE_pfcp
      else Ok \<lparr>pie_Type = IEDurationMeasurement, pie_Value = put32 (of_int (d div Second))\<rparr>)"

definition DurationMeasurement_IE :: "IE_pfcp \<Rightarrow> (pfcp_error, duration) outcome" where
  "DurationMeasurement_IE ie =
     (if pie_Type ie \<noteq> IEDurationMeasurement \<or> length (pie_Value ie) \<noteq> 4 then Err ErrMalformedIE_pfcp
      else andThen (read32 (pie_Value ie) 0) (\<lambda>w. Ok (uint w * Second)))"

definition usageTimeType :: "16 word \<Rightarrow> bool" where
  "usageTimeType typ \<longleftrightarrow> typ \<in> {IEStartTime, IEEndTime, IETimeOfFirstPacket, IETimeOfLastPacket}"

definition NewUsageTimeIE :: "16 word \<Rightarrow> int \<Rightarrow> (pfcp_error, IE_pfcp) outcome" where
  "NewUsageTimeIE typ value =
     (if \<not> usageTimeType typ then Err ErrMalformedIE_pfcp
      else let seconds = Unix value in
        if value = 0 \<or> seconds < - ntpUnixOffset \<or> seconds > 0xffffffff - ntpUnixOffset
        then Err ErrMalformedIE_pfcp
        else Ok \<lparr>pie_Type = typ, pie_Value = put32 (ntp32 seconds)\<rparr>)"

definition UsageTime_IE :: "IE_pfcp \<Rightarrow> (pfcp_error, int) outcome" where
  "UsageTime_IE ie =
     (if \<not> usageTimeType (pie_Type ie) then Err ErrMalformedIE_pfcp
      else if length (pie_Value ie) \<noteq> 4 then Err ErrMalformedIE_pfcp
      else andThen (read32 (pie_Value ie) 0) (\<lambda>w. Ok (UnixTime (uint w - ntpUnixOffset))))"

definition NewRecoveryTimeStampIE :: "int \<Rightarrow> (pfcp_error, IE_pfcp) outcome" where
  "NewRecoveryTimeStampIE started =
     (let seconds = Unix started in
      if seconds < - ntpUnixOffset \<or> seconds > 0xffffffff - ntpUnixOffset then Err ErrMalformedIE_pfcp
      else Ok \<lparr>pie_Type = IERecoveryTimeStamp, pie_Value = put32 (ntp32 seconds)\<rparr>)"

definition RecoveryTimeStamp_IE :: "IE_pfcp \<Rightarrow> (pfcp_error, int) outcome" where
  "RecoveryTimeStamp_IE ie =
     (if pie_Type ie \<noteq> IERecoveryTimeStamp \<or> length (pie_Value ie) < 4 then Err ErrMalformedIE_pfcp
      else andThen (read32 (pie_Value ie) 0) (\<lambda>w. Ok (UnixTime (uint w - ntpUnixOffset))))"

section \<open>Buffering action rules\<close>

definition NewBARIDIE :: "byte \<Rightarrow> (pfcp_error, IE_pfcp) outcome" where
  "NewBARIDIE i =
     (if i = 0 then Err ErrMalformedIE_pfcp else Ok \<lparr>pie_Type = IEBARID, pie_Value = [i]\<rparr>)"

definition BARID_IE :: "IE_pfcp \<Rightarrow> (pfcp_error, byte) outcome" where
  "BARID_IE ie =
     (if pie_Type ie \<noteq> IEBARID \<or> length (pie_Value ie) < 1 then Err ErrMalformedIE_pfcp
      else andThen (byte_at (pie_Value ie) 0) (\<lambda>v. if v = 0 then Err ErrMalformedIE_pfcp else Ok v))"

definition delayUnit :: duration where "delayUnit = 50 * Millisecond"

definition NewDownlinkDataNotificationDelayIE :: "duration \<Rightarrow> (pfcp_error, IE_pfcp) outcome" where
  "NewDownlinkDataNotificationDelayIE delay =
     (if delay < 0 \<or> delay mod delayUnit \<noteq> 0 \<or> delay div delayUnit > 255 then Err ErrMalformedIE_pfcp
      else Ok \<lparr>pie_Type = IEDownlinkDataNotifyDelay, pie_Value = [of_int (delay div delayUnit)]\<rparr>)"

definition DownlinkDataNotificationDelay_IE :: "IE_pfcp \<Rightarrow> (pfcp_error, duration) outcome" where
  "DownlinkDataNotificationDelay_IE ie =
     (if pie_Type ie \<noteq> IEDownlinkDataNotifyDelay \<or> length (pie_Value ie) < 1 then Err ErrMalformedIE_pfcp
      else andThen (byte_at (pie_Value ie) 0) (\<lambda>v. Ok (uint v * 50 * Millisecond)))"

section \<open>Vendor bearer QoS\<close>

record BearerQoSMetadata =
  bq_EnterpriseID :: "16 word"
  bq_QCI :: byte
  bq_ARP :: byte
  bq_PreemptionCapable :: bool
  bq_PreemptionVulnerable :: bool

definition badBearerQoS :: "BearerQoSMetadata \<Rightarrow> bool" where
  "badBearerQoS b \<longleftrightarrow> bq_EnterpriseID b = 0 \<or> bq_EnterpriseID b = 10415 \<or> bq_QCI b = 0 \<or> bq_ARP b = 0
     \<or> bq_ARP b > 15"

definition NewVendorBearerQoSIE :: "BearerQoSMetadata \<Rightarrow> (pfcp_error, IE_pfcp) outcome" where
  "NewVendorBearerQoSIE metadata =
     (if badBearerQoS metadata then Err ErrMalformedIE_pfcp
      else let flags = (if bq_PreemptionCapable metadata then 1 else 0)
             OR (if bq_PreemptionVulnerable metadata then 2 else 0) in
        Ok \<lparr>pie_Type = IEVendorBearerQoS,
            pie_Value = put16 (bq_EnterpriseID metadata) @ [1, bq_QCI metadata, bq_ARP metadata, flags]\<rparr>)"

definition VendorBearerQoS_IE :: "IE_pfcp \<Rightarrow> (pfcp_error, BearerQoSMetadata) outcome" where
  "VendorBearerQoS_IE ie =
     (if pie_Type ie \<noteq> IEVendorBearerQoS \<or> length (pie_Value ie) < 6 then Err ErrMalformedIE_pfcp
      else andThen (byte_at (pie_Value ie) 2) (\<lambda>version. andThen (byte_at (pie_Value ie) 5) (\<lambda>flags.
        if version \<noteq> 1 \<or> flags AND NOT 0x03 \<noteq> 0 then Err ErrMalformedIE_pfcp
        else andThen (read16 (pie_Value ie) 0) (\<lambda>enterprise. andThen (byte_at (pie_Value ie) 3) (\<lambda>qci.
          andThen (byte_at (pie_Value ie) 4) (\<lambda>arp.
          let metadata = \<lparr>bq_EnterpriseID = enterprise, bq_QCI = qci, bq_ARP = arp,
                bq_PreemptionCapable = (flags AND 1 \<noteq> 0), bq_PreemptionVulnerable = (flags AND 2 \<noteq> 0)\<rparr> in
          if badBearerQoS metadata then Err ErrMalformedIE_pfcp else Ok metadata))))))"

section \<open>Usage reporting rules\<close>

definition NewMeasurementMethodIE :: "bool \<Rightarrow> bool \<Rightarrow> (pfcp_error, IE_pfcp) outcome" where
  "NewMeasurementMethodIE volume duration =
     (let flags = (if duration then MeasurementDuration else 0) OR (if volume then MeasurementVolume else 0) in
      if flags = 0 then Err ErrMalformedIE_pfcp
      else Ok \<lparr>pie_Type = IEMeasurementMethod, pie_Value = [flags]\<rparr>)"

definition MeasurementMethod_IE :: "IE_pfcp \<Rightarrow> (pfcp_error, bool \<times> bool) outcome" where
  "MeasurementMethod_IE ie =
     (if pie_Type ie \<noteq> IEMeasurementMethod \<or> length (pie_Value ie) < 1 then Err ErrMalformedIE_pfcp
      else andThen (byte_at (pie_Value ie) 0) (\<lambda>v.
        if v AND NOT (MeasurementDuration OR MeasurementVolume) \<noteq> 0 \<or> v = 0 then Err ErrMalformedIE_pfcp
        else Ok (v AND MeasurementVolume \<noteq> 0, v AND MeasurementDuration \<noteq> 0)))"

definition supportedReportingTriggers :: "32 word" where
  "supportedReportingTriggers =
     ReportingTriggerPeriodic OR ReportingTriggerVolumeThreshold OR ReportingTriggerTimeThreshold"

definition NewReportingTriggersIE :: "32 word \<Rightarrow> (pfcp_error, IE_pfcp) outcome" where
  "NewReportingTriggersIE flags =
     (if flags = 0 \<or> flags AND NOT supportedReportingTriggers \<noteq> 0 then Err ErrMalformedIE_pfcp
      else Ok \<lparr>pie_Type = IEReportingTriggers,
               pie_Value = [ucast flags, ucast (drop_bit 8 flags), ucast (drop_bit 16 flags)]\<rparr>)"

definition ReportingTriggers_IE :: "IE_pfcp \<Rightarrow> (pfcp_error, 32 word) outcome" where
  "ReportingTriggers_IE ie =
     (if pie_Type ie \<noteq> IEReportingTriggers \<or> length (pie_Value ie) < 1 \<or> length (pie_Value ie) > 3
      then Err ErrMalformedIE_pfcp
      else andThen (byte_at (pie_Value ie) 0) (\<lambda>b0.
        andThen (if length (pie_Value ie) > 1 then byte_at (pie_Value ie) 1 else Ok 0) (\<lambda>b1.
        andThen (if length (pie_Value ie) > 2 then byte_at (pie_Value ie) 2 else Ok 0) (\<lambda>b2.
        let flags = ucast b0 OR push_bit 8 (ucast b1) OR push_bit 16 (ucast b2) in
        andThen (NewReportingTriggersIE flags) (\<lambda>_. Ok flags)))))"

record VolumeThreshold =
  vt_HasTotal :: bool
  vt_HasUplink :: bool
  vt_HasDownlink :: bool
  vt_Total :: "64 word"
  vt_Uplink :: "64 word"
  vt_Downlink :: "64 word"

definition threshold_fields :: "VolumeThreshold \<Rightarrow> (bool \<times> 64 word) list" where
  "threshold_fields t = [(vt_HasTotal t, vt_Total t), (vt_HasUplink t, vt_Uplink t),
     (vt_HasDownlink t, vt_Downlink t)]"

definition NewVolumeThresholdIE :: "VolumeThreshold \<Rightarrow> (pfcp_error, IE_pfcp) outcome" where
  "NewVolumeThresholdIE threshold =
     (let flags = field_flags (threshold_fields threshold) 0 0 in
      if flags = 0 \<or> vt_HasTotal threshold \<and> vt_Total threshold = 0
        \<or> vt_HasUplink threshold \<and> vt_Uplink threshold = 0
        \<or> vt_HasDownlink threshold \<and> vt_Downlink threshold = 0
      then Err ErrMalformedIE_pfcp
      else Ok \<lparr>pie_Type = IEVolumeThreshold, pie_Value = flags # put_fields (threshold_fields threshold)\<rparr>)"

definition NewTotalVolumeThresholdIE :: "64 word \<Rightarrow> (pfcp_error, IE_pfcp) outcome" where
  "NewTotalVolumeThresholdIE bytes = NewVolumeThresholdIE \<lparr>vt_HasTotal = True, vt_HasUplink = False,
     vt_HasDownlink = False, vt_Total = bytes, vt_Uplink = 0, vt_Downlink = 0\<rparr>"

definition VolumeThreshold_IE :: "IE_pfcp \<Rightarrow> (pfcp_error, VolumeThreshold) outcome" where
  "VolumeThreshold_IE ie =
     (if pie_Type ie \<noteq> IEVolumeThreshold \<or> length (pie_Value ie) < 1 then Err ErrMalformedIE_pfcp
      else andThen (byte_at (pie_Value ie) 0) (\<lambda>flags.
        if flags AND NOT 0x07 \<noteq> 0 \<or> flags = 0 then Err ErrMalformedIE_pfcp
        else
          let want = 1 + 8 * unat (flags AND 1) + 4 * unat (flags AND 2) + 2 * unat (flags AND 4);
              bits = flag_list flags 3 in
          if length (pie_Value ie) \<noteq> want then Err ErrMalformedIE_pfcp
          else andThen (read_fields False bits (pie_Value ie) 1) (\<lambda>xs.
            Ok \<lparr>vt_HasTotal = bits ! 0, vt_HasUplink = bits ! 1, vt_HasDownlink = bits ! 2,
                vt_Total = xs ! 0, vt_Uplink = xs ! 1, vt_Downlink = xs ! 2\<rparr>)))"

section \<open>Rules\<close>

definition NewInterfaceIE :: "16 word \<Rightarrow> byte \<Rightarrow> (pfcp_error, IE_pfcp) outcome" where
  "NewInterfaceIE typ value =
     (if typ \<noteq> IESourceInterface \<and> typ \<noteq> IEDestinationInterface \<or> value > 15 then Err ErrMalformedIE_pfcp
      else Ok \<lparr>pie_Type = typ, pie_Value = [value AND 0x0f]\<rparr>)"

definition Interface_IE :: "IE_pfcp \<Rightarrow> (pfcp_error, byte) outcome" where
  "Interface_IE ie =
     (if pie_Type ie \<noteq> IESourceInterface \<and> pie_Type ie \<noteq> IEDestinationInterface
        \<or> length (pie_Value ie) < 1 then Err ErrMalformedIE_pfcp
      else andThen (byte_at (pie_Value ie) 0) (\<lambda>v.
        let value = v AND 0x0f in if value > 5 then Err ErrMalformedIE_pfcp else Ok value))"

definition NewPDRIDIE :: "16 word \<Rightarrow> (pfcp_error, IE_pfcp) outcome" where
  "NewPDRIDIE i =
     (if i = 0 then Err ErrMalformedIE_pfcp else Ok \<lparr>pie_Type = IEPDRID, pie_Value = put16 i\<rparr>)"

definition PDRID_IE :: "IE_pfcp \<Rightarrow> (pfcp_error, 16 word) outcome" where
  "PDRID_IE ie =
     (if pie_Type ie \<noteq> IEPDRID \<or> length (pie_Value ie) < 2 then Err ErrMalformedIE_pfcp
      else andThen (read16 (pie_Value ie) 0) (\<lambda>i. if i = 0 then Err ErrMalformedIE_pfcp else Ok i))"

definition uint32Type :: "16 word \<Rightarrow> bool" where
  "uint32Type typ \<longleftrightarrow> typ \<in> {IEPrecedence, IEFARID, IEQERID, IEURRID}"

definition NewUint32IE :: "16 word \<Rightarrow> 32 word \<Rightarrow> (pfcp_error, IE_pfcp) outcome" where
  "NewUint32IE typ value =
     (if \<not> uint32Type typ then Err ErrMalformedIE_pfcp
      else if value = 0 \<and> typ \<noteq> IEPrecedence then Err ErrMalformedIE_pfcp
      else Ok \<lparr>pie_Type = typ, pie_Value = put32 value\<rparr>)"

definition Uint32_IE :: "IE_pfcp \<Rightarrow> (pfcp_error, 32 word) outcome" where
  "Uint32_IE ie =
     (if length (pie_Value ie) < 4 then Err ErrMalformedIE_pfcp
      else if uint32Type (pie_Type ie) then read32 (pie_Value ie) 0
      else Err ErrMalformedIE_pfcp)"

definition NewApplyActionIE :: "byte \<Rightarrow> (pfcp_error, IE_pfcp) outcome" where
  "NewApplyActionIE action =
     (let primary = action AND (ApplyDrop OR ApplyForward OR ApplyBuffer) in
      if primary = 0 \<or> primary AND (primary - 1) \<noteq> 0
        \<or> action AND NOT (ApplyDrop OR ApplyForward OR ApplyBuffer OR ApplyNotifyControlPlane) \<noteq> 0
      then Err ErrMalformedIE_pfcp
      else if action AND ApplyNotifyControlPlane \<noteq> 0 \<and> action AND ApplyBuffer = 0
      then Err ErrMalformedIE_pfcp
      else Ok \<lparr>pie_Type = IEApplyAction, pie_Value = [action]\<rparr>)"

definition ApplyAction_IE :: "IE_pfcp \<Rightarrow> (pfcp_error, byte) outcome" where
  "ApplyAction_IE ie =
     (if pie_Type ie \<noteq> IEApplyAction \<or> length (pie_Value ie) < 1 then Err ErrMalformedIE_pfcp
      else andThen (byte_at (pie_Value ie) 0) (\<lambda>v. andThen (NewApplyActionIE v) (\<lambda>_. Ok v)))"

definition NewOuterHeaderRemovalIE :: "byte \<Rightarrow> (pfcp_error, IE_pfcp) outcome" where
  "NewOuterHeaderRemovalIE description =
     (if description \<noteq> OuterHeaderRemovalGTPUUDPIPv4 \<and> description \<noteq> OuterHeaderRemovalGTPUUDPIPv6
        \<and> description \<noteq> OuterHeaderRemovalGTPUUDPIP then Err ErrMalformedIE_pfcp
      else Ok \<lparr>pie_Type = IEOuterHeaderRemoval, pie_Value = [description]\<rparr>)"

definition OuterHeaderRemoval_IE :: "IE_pfcp \<Rightarrow> (pfcp_error, byte) outcome" where
  "OuterHeaderRemoval_IE ie =
     (if pie_Type ie \<noteq> IEOuterHeaderRemoval \<or> length (pie_Value ie) < 1 then Err ErrMalformedIE_pfcp
      else andThen (byte_at (pie_Value ie) 0) (\<lambda>v. andThen (NewOuterHeaderRemovalIE v) (\<lambda>_. Ok v)))"

definition NewGateStatusIE :: "bool \<Rightarrow> bool \<Rightarrow> IE_pfcp" where
  "NewGateStatusIE uplinkOpen downlinkOpen =
     \<lparr>pie_Type = IEGateStatus,
      pie_Value = [(if \<not> downlinkOpen then 0x01 else 0) OR (if \<not> uplinkOpen then 0x04 else 0)]\<rparr>"

definition GateStatus_IE :: "IE_pfcp \<Rightarrow> (pfcp_error, bool \<times> bool) outcome" where
  "GateStatus_IE ie =
     (if pie_Type ie \<noteq> IEGateStatus \<or> length (pie_Value ie) < 1 then Err ErrMalformedIE_pfcp
      else andThen (byte_at (pie_Value ie) 0) (\<lambda>v.
        let dl = v AND 0x03; ul = drop_bit 2 v AND 0x03 in Ok (ul = 0, dl = 0)))"

definition putUint40 :: "64 word \<Rightarrow> byte list" where
  "putUint40 value = ucast (drop_bit 32 value) # put32 (ucast value)"

definition readUint40 :: "byte list \<Rightarrow> (pfcp_error, 64 word) outcome" where
  "readUint40 src = andThen (byte_at src 0) (\<lambda>b. andThen (read32 src 1) (\<lambda>w.
     Ok (push_bit 32 (ucast b) OR ucast w)))"

definition NewBitRateIE :: "16 word \<Rightarrow> 64 word \<Rightarrow> 64 word \<Rightarrow> (pfcp_error, IE_pfcp) outcome" where
  "NewBitRateIE typ uplinkKbps downlinkKbps =
     (if typ \<noteq> IEMBR \<and> typ \<noteq> IEGBR \<or> uplinkKbps > 0xffffffffff \<or> downlinkKbps > 0xffffffffff
      then Err ErrMalformedIE_pfcp
      else Ok \<lparr>pie_Type = typ, pie_Value = putUint40 uplinkKbps @ putUint40 downlinkKbps\<rparr>)"

definition BitRate_IE :: "IE_pfcp \<Rightarrow> (pfcp_error, 64 word \<times> 64 word) outcome" where
  "BitRate_IE ie =
     (if pie_Type ie \<noteq> IEMBR \<and> pie_Type ie \<noteq> IEGBR \<or> length (pie_Value ie) < 10
      then Err ErrMalformedIE_pfcp
      else andThen (slice (pie_Value ie) 0 5) (\<lambda>u. andThen (slice (pie_Value ie) 5 10) (\<lambda>d.
        andThen (readUint40 u) (\<lambda>u. andThen (readUint40 d) (\<lambda>d. Ok (u, d))))))"

section \<open>What a typed element promises\<close>

text \<open>The contract of a constructor and its accessor: the element has its type, the accessor gives back the
  value (up to \<open>norm\<close>, what the wire does not carry), and neither panics on any argument. A field of a
  grouped element is then read back by whoever opens the group.\<close>

locale ie_codec =
  fixes new :: "'a \<Rightarrow> (pfcp_error, IE_pfcp) outcome"
    and get :: "IE_pfcp \<Rightarrow> (pfcp_error, 'a) outcome"
    and ty :: "16 word"
    and norm :: "'a \<Rightarrow> 'a"
  assumes new_typ: "new a = Ok ie \<Longrightarrow> pie_Type ie = ty"
    and get_new: "new a = Ok ie \<Longrightarrow> get ie = Ok (norm a)"
    and new_total: "new a \<noteq> Panic"
    and get_total: "get ie \<noteq> Panic"
begin

lemma new_inj: "new a = Ok ie \<Longrightarrow> new b = Ok ie \<Longrightarrow> norm a = norm b"
  by (metis get_new outcome.inject(1))

lemma find_new:
  assumes "new a = Ok ie" "\<forall>x\<in>set pre. pie_Type x \<noteq> ty"
  shows "FindIE_pfcp (pre @ ie # post) ty = Some ie"
  using assms new_typ by (induction pre) auto

lemma get_from_group:
  assumes "new a = Ok ie" "\<forall>x\<in>set pre. pie_Type x \<noteq> ty"
    and "NewGroupedIE_pfcp t (pre @ ie # post) = Ok g"
  shows "andThen (Children_IE_pfcp g) (\<lambda>cs. case FindIE_pfcp cs ty of
      None \<Rightarrow> Err ErrMissingIE_pfcp | Some x \<Rightarrow> get x) = Ok (norm a)"
  using Children_NewGroupedIE_pfcp[OF assms(3)] find_new[OF assms(1,2)] get_new[OF assms(1)] by simp

end

lemma read32_put32 [simp]: "read32 (put32 w) 0 = Ok w"
  by (simp add: read32_def put32_def codec_simps)

lemma byte_at_Cons [simp]: "byte_at (b # bs) 0 = Ok b" "byte_at (b # bs) (Suc n) = byte_at bs n"
  by (simp_all add: byte_at_def)

lemma read32_total: "4 + i \<le> length v \<Longrightarrow> \<exists>w. read32 v i = Ok w"
  by (simp add: read32_def)

lemma byte_at_total: "i < length v \<Longrightarrow> \<exists>w. byte_at v i = Ok w"
  by (simp add: byte_at_def)

interpretation cause: ie_codec "\<lambda>c. if c = 0 then Err ErrMalformedIE_pfcp else Ok (NewCauseIE_pfcp c)" Cause_IE_pfcp
  IECause_pfcp "\<lambda>c. c"
  by unfold_locales (auto simp: NewCauseIE_pfcp_def Cause_IE_pfcp_def byte_at_def split: if_splits)

interpretation reportType: ie_codec NewReportTypeIE ReportType_IE IEReportType "\<lambda>c. c"
  by unfold_locales (auto simp: NewReportTypeIE_def ReportType_IE_def byte_at_def split: if_splits)

interpretation urseqn: ie_codec "\<lambda>s. Ok (NewURSEQNIE s)" URSEQN_IE IEURSEQN "\<lambda>s. s"
  by unfold_locales (auto simp: NewURSEQNIE_def URSEQN_IE_def read32_def put32_def codec_simps)

lemma and_0x0f:
  fixes v :: byte
  assumes "v \<le> 15"
  shows "v AND 0x0f = v"
proof -
  have "unat v < 2 ^ 4" using assms by (simp add: word_le_nat_alt)
  then have "take_bit 4 v = v" by (simp only: word_take_bit_self_iff)
  moreover have "(0x0f :: byte) = mask 4" by (simp add: mask_eq_exp_minus_1)
  ultimately show ?thesis by (simp add: take_bit_eq_mask)
qed

lemma uint_of_int32: "0 \<le> i \<Longrightarrow> i \<le> 0xffffffff \<Longrightarrow> uint (of_int i :: 32 word) = i"
  by (simp add: uint_word_of_int)

interpretation durationMeasurement: ie_codec NewDurationMeasurementIE DurationMeasurement_IE
  IEDurationMeasurement "\<lambda>d. d div Second * Second"
  by unfold_locales (auto simp: NewDurationMeasurementIE_def DurationMeasurement_IE_def read32_def
      uint_of_int32 Second_def not_less put32_def codec_simps split: if_splits)

definition whole_seconds :: "int \<Rightarrow> int" where
  "whole_seconds t = t div Second * Second"

lemma uint_ntp32: "- ntpUnixOffset \<le> s \<Longrightarrow> s \<le> 0xffffffff - ntpUnixOffset \<Longrightarrow> uint (ntp32 s) = s + ntpUnixOffset"
  unfolding ntp32_def by (rule uint_of_int32) simp_all

lemma UnixTime_Unix: "UnixTime (Unix t) = whole_seconds t"
  by (simp add: UnixTime_def Unix_def whole_seconds_def)

interpretation usageTime: ie_codec "NewUsageTimeIE ty" UsageTime_IE ty whole_seconds for ty
  by unfold_locales (auto simp: NewUsageTimeIE_def UsageTime_IE_def Let_def read32_def put32_def codec_simps
      uint_ntp32 UnixTime_Unix split: if_splits)

interpretation recoveryTimeStamp: ie_codec NewRecoveryTimeStampIE RecoveryTimeStamp_IE IERecoveryTimeStamp
  whole_seconds
  by unfold_locales (auto simp: NewRecoveryTimeStampIE_def RecoveryTimeStamp_IE_def UnixTime_Unix
      uint_ntp32 Let_def read32_def put32_def codec_simps split: if_splits)

interpretation barID: ie_codec NewBARIDIE BARID_IE IEBARID "\<lambda>i. i"
  by unfold_locales (auto simp: NewBARIDIE_def BARID_IE_def byte_at_def split: if_splits)

lemma uint_of_int8: "0 \<le> i \<Longrightarrow> i \<le> 255 \<Longrightarrow> uint (of_int i :: byte) = i"
  by (simp add: uint_word_of_int)

interpretation notificationDelay: ie_codec NewDownlinkDataNotificationDelayIE DownlinkDataNotificationDelay_IE
  IEDownlinkDataNotifyDelay "\<lambda>d. d"
proof unfold_locales
  fix d ie
  assume "NewDownlinkDataNotificationDelayIE d = Ok ie"
  then have "0 \<le> d div delayUnit" "d div delayUnit \<le> 255" "d mod delayUnit = 0"
    and ie: "ie = \<lparr>pie_Type = IEDownlinkDataNotifyDelay, pie_Value = [of_int (d div delayUnit)]\<rparr>"
    by (auto simp: NewDownlinkDataNotificationDelayIE_def delayUnit_def Millisecond_def not_less split: if_splits)
  then have "uint (of_int (d div delayUnit) :: byte) * 50 * Millisecond = d"
    using uint_of_int8[of "d div delayUnit"] div_mult_mod_eq[of d delayUnit] by (simp add: delayUnit_def mult.assoc)
  with ie show "DownlinkDataNotificationDelay_IE ie = Ok d"
    by (simp add: DownlinkDataNotificationDelay_IE_def)
qed (auto simp: NewDownlinkDataNotificationDelayIE_def DownlinkDataNotificationDelay_IE_def byte_at_def
    split: if_splits)

interpretation vendorBearerQoS: ie_codec NewVendorBearerQoSIE VendorBearerQoS_IE IEVendorBearerQoS "\<lambda>b. b"
proof unfold_locales
  show "VendorBearerQoS_IE ie = Ok b" if "NewVendorBearerQoSIE b = Ok ie" for b ie
    using that by (cases b) (auto simp: NewVendorBearerQoSIE_def VendorBearerQoS_IE_def Let_def
        byte_at_def read16_def put16_def codec_simps split: if_splits)
qed (auto simp: NewVendorBearerQoSIE_def VendorBearerQoS_IE_def Let_def read_defs split: if_splits)

interpretation measurementMethod: ie_codec "\<lambda>(v, d). NewMeasurementMethodIE v d" MeasurementMethod_IE
  IEMeasurementMethod "\<lambda>m. m"
  by unfold_locales (auto simp: NewMeasurementMethodIE_def MeasurementMethod_IE_def Let_def
      MeasurementDuration_def MeasurementVolume_def byte_at_def split: if_splits)

interpretation interface: ie_codec "\<lambda>v. if v > 5 then Err ErrMalformedIE_pfcp else NewInterfaceIE ty v" Interface_IE ty
  "\<lambda>v. v" for ty
proof unfold_locales
  fix v ie
  assume a: "(if v > 5 then Err ErrMalformedIE_pfcp else NewInterfaceIE ty v) = Ok ie"
  then have "v \<le> 15" by (auto simp: not_less intro: order_trans split: if_splits)
  then have "v AND 0x0f = v" by (rule and_0x0f)
  with a show "Interface_IE ie = Ok v" "pie_Type ie = ty"
    by (auto simp: NewInterfaceIE_def Interface_IE_def Let_def byte_at_def split: if_splits)
qed (auto simp: NewInterfaceIE_def Interface_IE_def Let_def byte_at_def split: if_splits)

interpretation pdrID: ie_codec NewPDRIDIE PDRID_IE IEPDRID "\<lambda>i. i"
  by unfold_locales (auto simp: NewPDRIDIE_def PDRID_IE_def read16_def put16_def codec_simps split: if_splits)

interpretation uint32: ie_codec "NewUint32IE ty" Uint32_IE ty "\<lambda>i. i" for ty
  by unfold_locales (auto simp: NewUint32IE_def Uint32_IE_def read32_def put32_def codec_simps split: if_splits)

interpretation applyAction: ie_codec NewApplyActionIE ApplyAction_IE IEApplyAction "\<lambda>i. i"
  by unfold_locales (auto simp: NewApplyActionIE_def ApplyAction_IE_def Let_def byte_at_def split: if_splits)

interpretation outerHeaderRemoval: ie_codec NewOuterHeaderRemovalIE OuterHeaderRemoval_IE
  IEOuterHeaderRemoval "\<lambda>i. i"
  by unfold_locales (auto simp: NewOuterHeaderRemovalIE_def OuterHeaderRemoval_IE_def byte_at_def split: if_splits)

interpretation gateStatus: ie_codec "\<lambda>(u, d). Ok (NewGateStatusIE u d)" GateStatus_IE IEGateStatus "\<lambda>i. i"
  by unfold_locales (auto simp: NewGateStatusIE_def GateStatus_IE_def Let_def byte_at_def split: if_splits)

lemma word_and_not_0: "w AND NOT m = 0 \<Longrightarrow> bit w k \<Longrightarrow> bit m k" for w m :: "'a::len word"
proof (rule ccontr)
  assume a: "w AND NOT m = 0" and b: "bit w k" "\<not> bit m k"
  have "bit (w AND NOT m) k" using b bit_imp_le_length[OF b(1)] by (simp add: bit_simps)
  with a show False by simp
qed

lemma submask_bound:
  fixes w m :: "'a::len word"
  assumes "w AND NOT m = 0" "unat m < 2 ^ n"
  shows "unat w < 2 ^ n"
proof -
  have "take_bit n w = w"
    using word_and_not_0[OF assms(1)] word_bit_bound[OF assms(2)]
    by (intro bit_word_eqI) (auto simp: bit_simps)
  then show ?thesis by (simp only: word_take_bit_self_iff)
qed

lemma le_fold_octets:
  "le_fold [ucast w] 0 0 = take_bit 8 w"
  "le_fold [ucast w, ucast (drop_bit 8 w)] 0 0 = take_bit 16 w"
  by (intro bit_word_eqI; simp add: bit_simps; fastforce)+

lemma usage_trigger_bound:
  assumes "w AND NOT supportedUsageTriggers = 0"
  shows "unat w < 2 ^ 12"
  using assms by (rule submask_bound) (simp add: supportedUsageTriggers_def pfcp_flags)

interpretation usageReportTrigger: ie_codec NewUsageReportTriggerIE UsageReportTrigger_IE
  IEUsageReportTrigger "\<lambda>w. w"
proof unfold_locales
  fix w ie
  assume a: "NewUsageReportTriggerIE w = Ok ie"
  then have w: "w \<noteq> 0" "w AND NOT supportedUsageTriggers = 0"
    by (auto simp: NewUsageReportTriggerIE_def split: if_splits)
  have b: "unat w < 2 ^ 12" using w(2) by (rule usage_trigger_bound)
  then have t: "take_bit 16 w = w" "take_bit 24 w = w" "\<not> 0xffff < w"
    by (simp_all add: word_take_bit_self_iff word_less_nat_alt)
  have t8: "take_bit 8 w = w" if "\<not> 0xff < w"
    using that by (simp add: word_take_bit_self_iff word_less_nat_alt)
  have "le_fold (pie_Value ie) 0 0 = w \<and> length (pie_Value ie) \<in> {1, 2, 3} \<and> pie_Type ie = IEUsageReportTrigger"
    using a w t t8 by (auto simp: NewUsageReportTriggerIE_def Let_def le_fold_octets upt_rec simp del: le_fold.simps
        split: if_splits)
  with a show "UsageReportTrigger_IE ie = Ok w"
    by (auto simp: UsageReportTrigger_IE_def)
qed (auto simp: NewUsageReportTriggerIE_def UsageReportTrigger_IE_def Let_def split: if_splits)

lemma reporting_trigger_octets:
  "ucast (ucast w :: byte) OR push_bit 8 (ucast (ucast (drop_bit 8 w) :: byte))
     OR push_bit 16 (ucast (ucast (drop_bit 16 w) :: byte)) = take_bit 24 w" for w :: "32 word"
proof (rule bit_word_eqI)
  fix n
  assume "n < LENGTH(32)"
  then consider "n < 8" | "8 \<le> n" "n < 16" | "16 \<le> n" "n < 24" | "24 \<le> n" "n < 32"
    by fastforce
  then show "bit (ucast (ucast w :: byte) OR push_bit 8 (ucast (ucast (drop_bit 8 w) :: byte))
     OR push_bit 16 (ucast (ucast (drop_bit 16 w) :: byte)) :: 32 word) n = bit (take_bit 24 w) n"
    by cases (auto simp: bit_simps)
qed

interpretation reportingTriggers: ie_codec NewReportingTriggersIE ReportingTriggers_IE IEReportingTriggers
  "\<lambda>w. w"
proof unfold_locales
  fix w ie
  assume a: "NewReportingTriggersIE w = Ok ie"
  then have w: "w \<noteq> 0" "w AND NOT supportedReportingTriggers = 0"
    and ie: "ie = \<lparr>pie_Type = IEReportingTriggers,
      pie_Value = [ucast w, ucast (drop_bit 8 w), ucast (drop_bit 16 w)]\<rparr>"
    by (auto simp: NewReportingTriggersIE_def split: if_splits)
  have "unat w < 2 ^ 24"
    using w(2) by (rule submask_bound) (simp add: supportedReportingTriggers_def pfcp_flags)
  then have "take_bit 24 w = w" by (simp only: word_take_bit_self_iff)
  then have "ucast (ucast w :: byte) OR push_bit 8 (ucast (ucast (drop_bit 8 w) :: byte))
     OR push_bit 16 (ucast (ucast (drop_bit 16 w) :: byte)) = (w :: 32 word)"
    by (simp add: reporting_trigger_octets)
  with a show "ReportingTriggers_IE ie = Ok w"
    by (simp add: ReportingTriggers_IE_def ie Let_def byte_at_def)
qed (auto simp: NewReportingTriggersIE_def ReportingTriggers_IE_def Let_def byte_at_def split: if_splits)

lemma putUint40_eq: "putUint40 w = put40 w"
proof -
  have "ucast (drop_bit n (ucast w :: 32 word)) = (ucast (drop_bit n w) :: byte)" if "n \<le> 24" for n
    using that by (intro bit_word_eqI) (auto simp: bit_simps)
  from this[of 8] this[of 16] this[of 24] this[of 0] show ?thesis
    by (simp add: putUint40_def put40_def put32_def)
qed

lemma readUint40_eq: "readUint40 [a, b, c, d, e] = Ok (be_fold [a, b, c, d, e])"
proof -
  have "ucast (be32 b c d e) = push_bit 24 (ucast b) OR push_bit 16 (ucast c) OR
     push_bit 8 (ucast d) OR (ucast e :: 64 word)"
    unfolding be32_def by (intro bit_word_eqI) (auto simp: bit_simps dest: bit_imp_le_length)
  then show ?thesis
    by (simp add: readUint40_def read32_def be_fold_flat5 or.assoc numeral_3_eq_3)
qed

lemma readUint40_put40: "w \<le> 0xffffffffff \<Longrightarrow> readUint40 (put40 w) = Ok w"
  using be_fold_put40[of w] by (simp add: put40_def readUint40_eq)

lemma readUint40_total: "length v = 5 \<Longrightarrow> readUint40 v \<noteq> Panic"
  by (simp add: readUint40_def read_defs)

interpretation bitRate: ie_codec "\<lambda>(u, d). NewBitRateIE ty u d" BitRate_IE ty "\<lambda>r. r" for ty
  by unfold_locales (auto simp: NewBitRateIE_def BitRate_IE_def slice_def putUint40_eq readUint40_put40
      readUint40_total not_less split: if_splits)

section \<open>Volume fields\<close>

text \<open>What the wire keeps of the optional fields: an absent field reads as zero.\<close>

definition sent_fields :: "(bool \<times> 64 word) list \<Rightarrow> 64 word list" where
  "sent_fields fs = map (\<lambda>(present, value). if present then value else 0) fs"

lemma read64_at: "read64 (pre @ put64 w @ post) (length pre) = Ok w"
  by (simp add: read64_def be_fold_put64)

lemma read_fields_put_fields:
  assumes "zero_ok \<or> (\<forall>(present, value)\<in>set fs. present \<longrightarrow> value \<noteq> 0)"
  shows "read_fields zero_ok (map fst fs) (pre @ put_fields fs) (length pre) = Ok (sent_fields fs)"
  using assms
proof (induction fs arbitrary: pre)
  case (Cons f fs)
  obtain present v where f: "f = (present, v)" by force
  have IH: "read_fields zero_ok (map fst fs) (pre' @ put_fields fs) (length pre') = Ok (sent_fields fs)" for pre'
    using Cons by auto
  from IH[of "pre @ put64 v"] IH[of pre] Cons.prems show ?case
    by (auto simp: f sent_fields_def read64_at)
qed (simp add: sent_fields_def)

lemma length_put_fields: "length (put_fields fs) = 8 * length (filter fst fs)"
  by (induction fs rule: put_fields.induct) auto

lemma read_fields_total: "offset + 8 * length (filter (\<lambda>b. b) bits) \<le> length value \<Longrightarrow>
    read_fields zero_ok bits value offset \<noteq> Panic"
  by (induction bits arbitrary: offset) (auto simp: read64_def split: if_splits)

lemma read_fields_length: "read_fields zero_ok bits value offset = Ok xs \<Longrightarrow> length xs = length bits"
  by (induction bits arbitrary: offset xs) (auto split: if_splits)

lemma flag_list_6: "flag_list (field_flags [(a, v1), (b, v2), (c, v3), (d, v4), (e, v5), (f, v6)] 0 0) 6
    = [a, b, c, d, e, f] \<and> field_flags [(a, v1), (b, v2), (c, v3), (d, v4), (e, v5), (f, v6)] 0 0 AND NOT 0x3f = 0"
  by (cases a; cases b; cases c; cases d; cases e; cases f) (simp_all add: flag_list_def upt_rec)

lemma flag_list_3: "flag_list (field_flags [(a, v1), (b, v2), (c, v3)] 0 0) 3 = [a, b, c]
    \<and> field_flags [(a, v1), (b, v2), (c, v3)] 0 0 AND NOT 0x07 = 0
    \<and> 1 + 8 * unat (field_flags [(a, v1), (b, v2), (c, v3)] 0 0 AND 1)
      + 4 * unat (field_flags [(a, v1), (b, v2), (c, v3)] 0 0 AND 2)
      + 2 * unat (field_flags [(a, v1), (b, v2), (c, v3)] 0 0 AND 4)
      = 1 + 8 * length (filter (\<lambda>b. b) [a, b, c])"
  by (cases a; cases b; cases c) (simp_all add: flag_list_def upt_rec)

definition sent_volume :: "VolumeMeasurement \<Rightarrow> VolumeMeasurement" where
  "sent_volume m = m\<lparr>vm_TotalPackets := (if vm_HasTotalPackets m then vm_TotalPackets m else 0),
     vm_UplinkPackets := (if vm_HasUplinkPackets m then vm_UplinkPackets m else 0),
     vm_DownlinkPackets := (if vm_HasDownlinkPackets m then vm_DownlinkPackets m else 0),
     vm_TotalBytes := (if vm_HasTotalBytes m then vm_TotalBytes m else 0),
     vm_UplinkBytes := (if vm_HasUplinkBytes m then vm_UplinkBytes m else 0),
     vm_DownlinkBytes := (if vm_HasDownlinkBytes m then vm_DownlinkBytes m else 0)\<rparr>"

definition sent_threshold :: "VolumeThreshold \<Rightarrow> VolumeThreshold" where
  "sent_threshold t = t\<lparr>vt_Total := (if vt_HasTotal t then vt_Total t else 0),
     vt_Uplink := (if vt_HasUplink t then vt_Uplink t else 0),
     vt_Downlink := (if vt_HasDownlink t then vt_Downlink t else 0)\<rparr>"

lemma field_flags_none: "filter fst fs = [] \<Longrightarrow> field_flags fs index flags = flags"
  by (induction fs index flags rule: field_flags.induct) (auto split: if_splits)

lemma VolumeMeasurement_NewVolumeMeasurementIE:
  assumes "NewVolumeMeasurementIE m = Ok ie"
  shows "VolumeMeasurement_IE ie = Ok (sent_volume m)"
proof -
  define fs where "fs = volume_fields m"
  define flags where "flags = field_flags fs 0 0"
  have ie: "ie = \<lparr>pie_Type = IEVolumeMeasurement, pie_Value = flags # put_fields fs\<rparr>" and nz: "flags \<noteq> 0"
    using assms by (auto simp: NewVolumeMeasurementIE_def flags_def fs_def Let_def split: if_splits)
  have bits: "flag_list flags 6 = map fst fs" "flags AND NOT 0x3f = 0"
    unfolding flags_def fs_def volume_fields_def using flag_list_6 by simp_all
  have cnt: "length (filter (\<lambda>b. b) (map fst fs)) = length (filter fst fs)"
    by (simp add: filter_map comp_def)
  have ne: "filter fst fs \<noteq> []" using nz field_flags_none[of fs 0 0] by (auto simp: flags_def)
  then have pos: "\<not> 8 * length (filter fst fs) < 8" by (cases "filter fst fs") auto
  have rd: "read_fields True (map fst fs) (flags # put_fields fs) (Suc 0) = Ok (sent_fields fs)"
    using read_fields_put_fields[of True fs "[flags]"] by simp
  show ?thesis
    unfolding VolumeMeasurement_IE_def ie
    by (simp add: bits[simplified] nz rd cnt ne pos length_put_fields Let_def)
      (simp add: fs_def volume_fields_def sent_fields_def sent_volume_def)
qed

lemma VolumeThreshold_NewVolumeThresholdIE:
  assumes "NewVolumeThresholdIE t = Ok ie"
  shows "VolumeThreshold_IE ie = Ok (sent_threshold t)"
proof -
  define fs where "fs = threshold_fields t"
  define flags where "flags = field_flags fs 0 0"
  have ie: "ie = \<lparr>pie_Type = IEVolumeThreshold, pie_Value = flags # put_fields fs\<rparr>" and nz: "flags \<noteq> 0"
    and pos: "\<forall>(present, value)\<in>set fs. present \<longrightarrow> value \<noteq> 0"
    using assms by (auto simp: NewVolumeThresholdIE_def flags_def fs_def threshold_fields_def Let_def
        simp del: field_flags.simps split: if_splits)
  have bits: "flag_list flags 3 = map fst fs" "flags AND NOT 0x07 = 0"
    "1 + 8 * unat (flags AND 1) + 4 * unat (flags AND 2) + 2 * unat (flags AND 4)
       = 1 + 8 * length (filter (\<lambda>b. b) (map fst fs))"
    unfolding flags_def fs_def threshold_fields_def using flag_list_3 by simp_all
  have cnt: "length (filter (\<lambda>b. b) (map fst fs)) = length (filter fst fs)"
    by (simp add: filter_map comp_def)
  have rd: "read_fields False (map fst fs) (flags # put_fields fs) (Suc 0) = Ok (sent_fields fs)"
    using read_fields_put_fields[of False fs "[flags]"] pos by simp
  show ?thesis
    unfolding VolumeThreshold_IE_def ie
    by (simp add: bits[simplified] nz rd cnt length_put_fields Let_def)
      (simp add: fs_def threshold_fields_def sent_fields_def sent_threshold_def)
qed

interpretation volumeMeasurement: ie_codec NewVolumeMeasurementIE VolumeMeasurement_IE IEVolumeMeasurement
  sent_volume
proof unfold_locales
  show "VolumeMeasurement_IE ie \<noteq> Panic" for ie
    using read_fields_total[of 1 "flag_list (pie_Value ie ! 0) 6" "pie_Value ie" True]
    by (auto simp: VolumeMeasurement_IE_def byte_at_def Let_def)
qed (auto simp: VolumeMeasurement_NewVolumeMeasurementIE NewVolumeMeasurementIE_def Let_def split: if_splits)

lemma and_exp_bit: "w AND 2 ^ k = (if bit w k then 2 ^ k else 0)" for w :: "'a::len word"
  by (rule bit_word_eqI) (auto simp: bit_simps)

lemma threshold_want:
  fixes flags :: byte
  shows "8 * unat (flags AND 1) + 4 * unat (flags AND 2) + 2 * unat (flags AND 4)
    = 8 * length (filter (\<lambda>b. b) (flag_list flags 3))"
  using and_exp_bit[of flags 0] and_exp_bit[of flags 1] and_exp_bit[of flags 2]
  by (auto simp: flag_list_def upt_rec)

interpretation volumeThreshold: ie_codec NewVolumeThresholdIE VolumeThreshold_IE IEVolumeThreshold
  sent_threshold
proof unfold_locales
  show "VolumeThreshold_IE ie \<noteq> Panic" for ie
    using read_fields_total[of 1 "flag_list (pie_Value ie ! 0) 3" "pie_Value ie" False]
      threshold_want[of "pie_Value ie ! 0"]
    by (auto simp: VolumeThreshold_IE_def byte_at_def Let_def)
qed (auto simp: VolumeThreshold_NewVolumeThresholdIE NewVolumeThresholdIE_def Let_def split: if_splits)

lemma low_nibble_cases:
  fixes a :: byte
  assumes "a AND NOT 0x0f = 0"
  shows "a \<in> {0, 1, 2, 3, 4, 5, 6, 7, 8, 9, 10, 11, 12, 13, 14, 15}"
proof -
  have "unat a < 2 ^ 4" using assms by (rule submask_bound) simp
  then have "unat a \<in> set [0..<16]" by simp
  moreover have "set [0..<16] = {0 :: nat, 1, 2, 3, 4, 5, 6, 7, 8, 9, 10, 11, 12, 13, 14, 15}"
    by code_simp
  ultimately have "unat a \<in> {0, 1, 2, 3, 4, 5, 6, 7, 8, 9, 10, 11, 12, 13, 14, 15}" by (simp only:)
  then have "of_nat (unat a) \<in> (of_nat ` {0, 1, 2, 3, 4, 5, 6, 7, 8, 9, 10, 11, 12, 13, 14, 15} :: byte set)"
    by (rule imageI)
  then show ?thesis by simp
qed

section \<open>Properties\<close>

text \<open>C37: The Apply Action of a forwarding rule is one of four: drop, forward, buffer, or buffer and notify
  the control plane. Constructor and accessor accept exactly these octets, so a rule never both
  drops and forwards, and notification always comes with buffering.\<close>

theorem ApplyAction_exact:
  "((\<exists>ie. NewApplyActionIE a = Ok ie) \<longleftrightarrow>
     a \<in> {ApplyDrop, ApplyForward, ApplyBuffer, ApplyBuffer OR ApplyNotifyControlPlane})
   \<and> (ApplyAction_IE ie = Ok a \<longleftrightarrow>
     pie_Type ie = IEApplyAction \<and> pie_Value ie \<noteq> [] \<and> a = pie_Value ie ! 0 \<and>
     a \<in> {ApplyDrop, ApplyForward, ApplyBuffer, ApplyBuffer OR ApplyNotifyControlPlane})"
proof -
  have 1: "(\<exists>ie. NewApplyActionIE a = Ok ie) \<longleftrightarrow>
     a \<in> {ApplyDrop, ApplyForward, ApplyBuffer, ApplyBuffer OR ApplyNotifyControlPlane}" for a
  proof (cases "a AND NOT 0x0f = 0")
    case True
    from low_nibble_cases[OF this] show ?thesis
      by (elim insertE emptyE) (simp_all add: NewApplyActionIE_def pfcp_flags Let_def)
  next
    case False
    then have "a \<notin> {1, 2, 4, 12}" by auto
    with False show ?thesis by (simp add: NewApplyActionIE_def pfcp_flags Let_def)
  qed
  have "ApplyAction_IE ie = Ok a \<longleftrightarrow>
     pie_Type ie = IEApplyAction \<and> pie_Value ie \<noteq> [] \<and> a = pie_Value ie ! 0 \<and>
     (\<exists>ie. NewApplyActionIE a = Ok ie)"
    unfolding ApplyAction_IE_def by (auto simp: byte_at_def Suc_le_eq)
  with 1 show ?thesis by blast
qed

text \<open>Usage is reported without loss: a volume measurement and a volume threshold that are sent are
  read back with the same presence flags and values (absent counters as zero), for every
  combination of the optional counters; on elements from the wire the accessors never panic.\<close>

theorem VolumeMeasurement_roundtrip:
  "(NewVolumeMeasurementIE m = Ok ie \<longrightarrow> VolumeMeasurement_IE ie = Ok (sent_volume m))
   \<and> (NewVolumeThresholdIE t = Ok ie' \<longrightarrow> VolumeThreshold_IE ie' = Ok (sent_threshold t))
   \<and> VolumeMeasurement_IE x \<noteq> Panic \<and> VolumeThreshold_IE x \<noteq> Panic"
  using volumeMeasurement.get_new volumeThreshold.get_new volumeMeasurement.get_total
    volumeThreshold.get_total by blast

end
