(* ===== verification/Pfcp_Addresses.thy ===== *)
theory Pfcp_Addresses
  imports Pfcp_Values Gtpv2_Strings Gtpv2_Values
begin

unbundle bit_operations_syntax

text \<open>
  The typed PFCP elements of \<^verbatim>\<open>pkg/pfcp/ie.go\<close> that carry addresses or domain names: Node ID, F-SEID,
  UE IP Address, F-TEID and Outer Header Creation. Names are treated with the ASCII string functions.
\<close>

section \<open>Domain names\<close>

function decodeLabels_loop_pfcp :: "byte list \<Rightarrow> nat \<Rightarrow> gostring list \<Rightarrow> (pfcp_error, gostring list) outcome" where
  "decodeLabels_loop_pfcp value offset labels =
     (if offset < length value then
        andThen (byte_at value offset) (\<lambda>l.
          if unat l = 0 \<or> unat l > 63 \<or> unat l > length value - (offset + 1) then Err ErrMalformedIE_pfcp
          else andThen (slice value (offset + 1) (offset + 1 + unat l)) (\<lambda>label.
            decodeLabels_loop_pfcp value (offset + 1 + unat l) (labels @ [ToLower label])))
      else Ok labels)"
  by pat_completeness auto
termination
  by (relation "measure (\<lambda>(value, offset, labels). length value - offset)") auto

declare decodeLabels_loop_pfcp.simps [simp del]

definition decodeLabels_pfcp :: "byte list \<Rightarrow> (pfcp_error, gostring) outcome" where
  "decodeLabels_pfcp value =
     andThen (decodeLabels_loop_pfcp value 0 []) (\<lambda>labels.
       if length labels = 0 then Err ErrMalformedIE_pfcp else Ok (Join labels))"

fun encodeLabels_loop_pfcp :: "gostring list \<Rightarrow> byte list \<Rightarrow> (pfcp_error, byte list) outcome" where
  "encodeLabels_loop_pfcp [] out = Ok out"
| "encodeLabels_loop_pfcp (label # labels) out =
     (if length label = 0 \<or> length label > 63 then Err ErrMalformedIE_pfcp
      else encodeLabels_loop_pfcp labels (out @ [of_nat (length label)] @ label))"

definition encodeLabels_pfcp :: "gostring \<Rightarrow> (pfcp_error, byte list) outcome" where
  "encodeLabels_pfcp name0 =
     (let name = TrimDot (ToLower (TrimSpace name0)) in
      if name = [] \<or> length name > 253 then Err ErrMalformedIE_pfcp
      else encodeLabels_loop_pfcp (Split name) [])"

section \<open>Node ID\<close>

definition NewNodeIDIE :: "Addr \<Rightarrow> gostring \<Rightarrow> (pfcp_error, IE_pfcp) outcome" where
  "NewNodeIDIE addr fqdn =
     (if Is4 addr then andThen (As4 addr) (\<lambda>raw. Ok \<lparr>pie_Type = IENodeID, pie_Value = 0 # raw\<rparr>)
      else if Is6 addr then Ok \<lparr>pie_Type = IENodeID, pie_Value = 1 # As16 addr\<rparr>
      else if fqdn \<noteq> [] then andThen (encodeLabels_pfcp fqdn) (\<lambda>labels.
        Ok \<lparr>pie_Type = IENodeID, pie_Value = 2 # labels\<rparr>)
      else Err ErrMalformedIE_pfcp)"

definition NodeID_IE :: "IE_pfcp \<Rightarrow> (pfcp_error, Addr \<times> gostring) outcome" where
  "NodeID_IE ie =
     (if pie_Type ie \<noteq> IENodeID \<or> length (pie_Value ie) < 2 then Err ErrMalformedIE_pfcp
      else andThen (byte_at (pie_Value ie) 0) (\<lambda>v.
        let typ = v AND 0x0f in
        if typ = 0 then
          (if length (pie_Value ie) < 5 then Err ErrMalformedIE_pfcp
           else andThen (slice (pie_Value ie) 1 5) (\<lambda>raw. Ok (AddrFrom4 raw, [])))
        else if typ = 1 then
          (if length (pie_Value ie) < 17 then Err ErrMalformedIE_pfcp
           else andThen (slice (pie_Value ie) 1 17) (\<lambda>raw. Ok (AddrFrom16 raw, [])))
        else if typ = 2 then
          andThen (slice (pie_Value ie) 1 (length (pie_Value ie))) (\<lambda>raw.
          andThen (decodeLabels_pfcp raw) (\<lambda>fqdn. Ok (AddrZero, fqdn)))
        else Err ErrMalformedIE_pfcp))"

section \<open>F-SEID, F-TEID and UE IP address\<close>

record FSEID =
  fs_SEID :: "64 word"
  fs_IPv4 :: Addr
  fs_IPv6 :: Addr

record FTEID_pfcp =
  pft_TEID :: "32 word"
  pft_IPv4 :: Addr
  pft_IPv6 :: Addr

record UEIPAddress =
  ue_IPv4 :: Addr
  ue_Destination :: bool

text \<open>The octets of the two optional addresses, IPv4 first.\<close>

definition put_addrs :: "Addr \<Rightarrow> Addr \<Rightarrow> (pfcp_error, byte list) outcome" where
  "put_addrs v4 v6 =
     andThen (if IsValid v4 then As4 v4 else Ok []) (\<lambda>raw4.
     Ok (raw4 @ (if IsValid v6 then As16 v6 else [])))"

definition read_addrs :: "bool \<Rightarrow> bool \<Rightarrow> byte list \<Rightarrow> nat \<Rightarrow> (pfcp_error, Addr \<times> Addr) outcome" where
  "read_addrs has4 has6 value offset =
     andThen (if has4 then andThen (slice value offset (offset + 4)) (\<lambda>raw. Ok (AddrFrom4 raw, offset + 4))
              else Ok (AddrZero, offset)) (\<lambda>(v4, offset).
     andThen (if has6 then andThen (slice value offset (offset + 16)) (\<lambda>raw. Ok (AddrFrom16 raw))
              else Ok AddrZero) (\<lambda>v6. Ok (v4, v6)))"

definition NewFSEIDIE :: "FSEID \<Rightarrow> (pfcp_error, IE_pfcp) outcome" where
  "NewFSEIDIE f =
     (if fs_SEID f = 0 then Err ErrMalformedIE_pfcp
      else if IsValid (fs_IPv4 f) \<and> \<not> Is4 (fs_IPv4 f) then Err ErrMalformedIE_pfcp
      else if IsValid (fs_IPv6 f) \<and> \<not> Is6 (fs_IPv6 f) then Err ErrMalformedIE_pfcp
      else let flags = (if IsValid (fs_IPv4 f) then 0x02 else 0) OR (if IsValid (fs_IPv6 f) then 0x01 else 0) in
        if flags = 0 then Err ErrMalformedIE_pfcp
        else andThen (put_addrs (fs_IPv4 f) (fs_IPv6 f)) (\<lambda>addrs.
          Ok \<lparr>pie_Type = IEFSEID, pie_Value = flags # put64 (fs_SEID f) @ addrs\<rparr>))"

definition FSEID_IE :: "IE_pfcp \<Rightarrow> (pfcp_error, FSEID) outcome" where
  "FSEID_IE ie =
     (if pie_Type ie \<noteq> IEFSEID \<or> length (pie_Value ie) < 9 then Err ErrMalformedIE_pfcp
      else andThen (byte_at (pie_Value ie) 0) (\<lambda>flags.
        let need = 9 + (if flags AND 0x02 \<noteq> 0 then 4 else 0) + (if flags AND 0x01 \<noteq> 0 then 16 else 0) in
        if flags AND 0x03 = 0 \<or> length (pie_Value ie) < need then Err ErrMalformedIE_pfcp
        else andThen (read64 (pie_Value ie) 1) (\<lambda>seid.
          if seid = 0 then Err ErrMalformedIE_pfcp
          else andThen (read_addrs (flags AND 0x02 \<noteq> 0) (flags AND 0x01 \<noteq> 0) (pie_Value ie) 9) (\<lambda>(v4, v6).
            Ok \<lparr>fs_SEID = seid, fs_IPv4 = v4, fs_IPv6 = v6\<rparr>))))"

definition NewUEIPAddressIE :: "Addr \<Rightarrow> bool \<Rightarrow> (pfcp_error, IE_pfcp) outcome" where
  "NewUEIPAddressIE addr destination =
     (if \<not> Is4 addr then Err ErrMalformedIE_pfcp
      else andThen (As4 (Unmap addr)) (\<lambda>raw.
        Ok \<lparr>pie_Type = IEUEIPAddress, pie_Value = (0x02 OR (if destination then 0x04 else 0)) # raw\<rparr>))"

definition UEIPAddress_IE :: "IE_pfcp \<Rightarrow> (pfcp_error, UEIPAddress) outcome" where
  "UEIPAddress_IE ie =
     (if pie_Type ie \<noteq> IEUEIPAddress \<or> length (pie_Value ie) \<noteq> 5 then Err ErrMalformedIE_pfcp
      else andThen (byte_at (pie_Value ie) 0) (\<lambda>flags.
        if flags AND 0x02 = 0 \<or> flags AND 0x01 \<noteq> 0 \<or> flags AND NOT 0x06 \<noteq> 0 then Err ErrMalformedIE_pfcp
        else andThen (slice (pie_Value ie) 1 5) (\<lambda>raw.
          let addr = AddrFrom4 raw in
          if IsUnspecified addr \<or> IsMulticast addr then Err ErrMalformedIE_pfcp
          else Ok \<lparr>ue_IPv4 = addr, ue_Destination = (flags AND 0x04 \<noteq> 0)\<rparr>)))"

definition NewFTEIDIE_pfcp :: "FTEID_pfcp \<Rightarrow> (pfcp_error, IE_pfcp) outcome" where
  "NewFTEIDIE_pfcp f =
     (if pft_TEID f = 0 then Err ErrMalformedIE_pfcp
      else if IsValid (pft_IPv4 f) \<and> \<not> Is4 (pft_IPv4 f) then Err ErrMalformedIE_pfcp
      else if IsValid (pft_IPv6 f) \<and> \<not> Is6 (pft_IPv6 f) then Err ErrMalformedIE_pfcp
      else let flags = (if IsValid (pft_IPv4 f) then 0x01 else 0) OR (if IsValid (pft_IPv6 f) then 0x02 else 0) in
        if flags = 0 then Err ErrMalformedIE_pfcp
        else andThen (put_addrs (pft_IPv4 f) (pft_IPv6 f)) (\<lambda>addrs.
          Ok \<lparr>pie_Type = IEFTEID_pfcp, pie_Value = flags # put32 (pft_TEID f) @ addrs\<rparr>))"

definition FTEID_IE_pfcp :: "IE_pfcp \<Rightarrow> (pfcp_error, FTEID_pfcp) outcome" where
  "FTEID_IE_pfcp ie =
     (if pie_Type ie \<noteq> IEFTEID_pfcp \<or> length (pie_Value ie) < 5 then Err ErrMalformedIE_pfcp
      else andThen (byte_at (pie_Value ie) 0) (\<lambda>flags.
        if flags AND 0x04 \<noteq> 0 then Err ErrMalformedIE_pfcp
        else
        let need = 5 + (if flags AND 0x01 \<noteq> 0 then 4 else 0) + (if flags AND 0x02 \<noteq> 0 then 16 else 0) in
        if flags AND 0x03 = 0 \<or> length (pie_Value ie) < need then Err ErrMalformedIE_pfcp
        else andThen (read32 (pie_Value ie) 1) (\<lambda>teid.
          if teid = 0 then Err ErrMalformedIE_pfcp
          else andThen (read_addrs (flags AND 0x01 \<noteq> 0) (flags AND 0x02 \<noteq> 0) (pie_Value ie) 5) (\<lambda>(v4, v6).
            Ok \<lparr>pft_TEID = teid, pft_IPv4 = v4, pft_IPv6 = v6\<rparr>))))"

section \<open>Outer header creation\<close>

record OuterHeader =
  oh_Description :: "16 word"
  oh_TEID :: "32 word"
  oh_IPv4 :: Addr
  oh_IPv6 :: Addr
  oh_Port :: "16 word"

definition NewOuterHeaderCreationIE :: "OuterHeader \<Rightarrow> (pfcp_error, IE_pfcp) outcome" where
  "NewOuterHeaderCreationIE header =
     (if oh_Description header \<noteq> OuterHeaderGTPUUDPIPv4 \<and> oh_Description header \<noteq> OuterHeaderGTPUUDPIPv6
      then Err ErrMalformedIE_pfcp
      else if oh_TEID header = 0 then Err ErrMalformedIE_pfcp
      else if oh_Description header = OuterHeaderGTPUUDPIPv4 \<and> \<not> Is4 (oh_IPv4 header) then Err ErrMalformedIE_pfcp
      else if oh_Description header \<noteq> OuterHeaderGTPUUDPIPv4 \<and> \<not> Is6 (oh_IPv6 header) then Err ErrMalformedIE_pfcp
      else andThen (if oh_Description header = OuterHeaderGTPUUDPIPv4 then As4 (oh_IPv4 header)
                    else Ok (As16 (oh_IPv6 header))) (\<lambda>raw.
        Ok \<lparr>pie_Type = IEOuterHeaderCreation,
            pie_Value = put16 (oh_Description header) @ put32 (oh_TEID header) @ raw\<rparr>))"

definition OuterHeaderCreation_IE :: "IE_pfcp \<Rightarrow> (pfcp_error, OuterHeader) outcome" where
  "OuterHeaderCreation_IE ie =
     (if pie_Type ie \<noteq> IEOuterHeaderCreation \<or> length (pie_Value ie) < 6 then Err ErrMalformedIE_pfcp
      else andThen (read16 (pie_Value ie) 0) (\<lambda>description. andThen (read32 (pie_Value ie) 2) (\<lambda>teid.
        let out = \<lparr>oh_Description = description, oh_TEID = teid, oh_IPv4 = AddrZero, oh_IPv6 = AddrZero,
              oh_Port = 0\<rparr> in
        andThen
          (if description = OuterHeaderGTPUUDPIPv4 then
             (if length (pie_Value ie) < 10 then Err ErrMalformedIE_pfcp
              else andThen (slice (pie_Value ie) 6 10) (\<lambda>raw. Ok (out\<lparr>oh_IPv4 := AddrFrom4 raw\<rparr>)))
           else if description = OuterHeaderGTPUUDPIPv6 then
             (if length (pie_Value ie) < 22 then Err ErrMalformedIE_pfcp
              else andThen (slice (pie_Value ie) 6 22) (\<lambda>raw. Ok (out\<lparr>oh_IPv6 := AddrFrom16 raw\<rparr>)))
           else Err ErrMalformedIE_pfcp) (\<lambda>out.
        if oh_TEID out = 0 then Err ErrMalformedIE_pfcp else Ok out))))"

section \<open>Round trips\<close>

definition v4_or_none :: "Addr \<Rightarrow> bool" where "v4_or_none a \<longleftrightarrow> \<not> (IsValid a \<and> \<not> Is4 a)"
definition v6_or_none :: "Addr \<Rightarrow> bool" where "v6_or_none a \<longleftrightarrow> \<not> (IsValid a \<and> \<not> Is6 a)"

lemma put_addrs_cases:
  assumes "v4_or_none v4" "v6_or_none v6"
  obtains raw where "put_addrs v4 v6 = Ok raw"
    "length raw = (if IsValid v4 then 4 else 0) + (if IsValid v6 then 16 else 0)"
    "\<And>pre. read_addrs (IsValid v4) (IsValid v6) (pre @ raw) (length pre) = Ok (v4, without_zone v6)"
  using assms
  by (cases v4; cases v6)
    (auto simp: v4_or_none_def v6_or_none_def IsValid_def put_addrs_def read_addrs_def without_zone_def
      slice_def codec_simps)

lemma FSEID_NewFSEIDIE:
  assumes "NewFSEIDIE f = Ok ie"
  shows "FSEID_IE ie = Ok (f\<lparr>fs_IPv6 := without_zone (fs_IPv6 f)\<rparr>)" "pie_Type ie = IEFSEID"
proof -
  have v: "v4_or_none (fs_IPv4 f)" "v6_or_none (fs_IPv6 f)" and s: "fs_SEID f \<noteq> 0"
    and ne: "IsValid (fs_IPv4 f) \<or> IsValid (fs_IPv6 f)"
    using assms by (auto simp: NewFSEIDIE_def v4_or_none_def v6_or_none_def Let_def split: if_splits)
  from put_addrs_cases[OF v] obtain raw where raw: "put_addrs (fs_IPv4 f) (fs_IPv6 f) = Ok raw"
    "length raw = (if IsValid (fs_IPv4 f) then 4 else 0) + (if IsValid (fs_IPv6 f) then 16 else 0)"
    "\<And>pre. read_addrs (IsValid (fs_IPv4 f)) (IsValid (fs_IPv6 f)) (pre @ raw) (length pre)
       = Ok (fs_IPv4 f, without_zone (fs_IPv6 f))" by blast
  let ?flags = "(if IsValid (fs_IPv4 f) then 0x02 else 0) OR (if IsValid (fs_IPv6 f) then 0x01 else 0) :: byte"
  have ie: "ie = \<lparr>pie_Type = IEFSEID, pie_Value = ?flags # put64 (fs_SEID f) @ raw\<rparr>"
    using assms raw(1) by (auto simp: NewFSEIDIE_def Let_def split: if_splits)
  have rs: "read64 (?flags # put64 (fs_SEID f) @ raw) (Suc 0) = (Ok (fs_SEID f) :: (pfcp_error, _) outcome)"
    using read64_at[of "[?flags]" "fs_SEID f" raw] by simp
  have ra: "read_addrs (IsValid (fs_IPv4 f)) (IsValid (fs_IPv6 f)) (?flags # put64 (fs_SEID f) @ raw) 9
      = Ok (fs_IPv4 f, without_zone (fs_IPv6 f))"
    using raw(3)[of "?flags # put64 (fs_SEID f)"] by simp
  show "FSEID_IE ie = Ok (f\<lparr>fs_IPv6 := without_zone (fs_IPv6 f)\<rparr>)"
    using ne ra rs raw(2) s unfolding ie FSEID_IE_def
    by (cases "IsValid (fs_IPv4 f)"; cases "IsValid (fs_IPv6 f)"; cases f) simp_all
  show "pie_Type ie = IEFSEID" by (simp add: ie)
qed

lemma FTEID_NewFTEIDIE_pfcp:
  assumes "NewFTEIDIE_pfcp f = Ok ie"
  shows "FTEID_IE_pfcp ie = Ok (f\<lparr>pft_IPv6 := without_zone (pft_IPv6 f)\<rparr>)" "pie_Type ie = IEFTEID_pfcp"
proof -
  have v: "v4_or_none (pft_IPv4 f)" "v6_or_none (pft_IPv6 f)" and s: "pft_TEID f \<noteq> 0"
    and ne: "IsValid (pft_IPv4 f) \<or> IsValid (pft_IPv6 f)"
    using assms by (auto simp: NewFTEIDIE_pfcp_def v4_or_none_def v6_or_none_def Let_def split: if_splits)
  from put_addrs_cases[OF v] obtain raw where raw: "put_addrs (pft_IPv4 f) (pft_IPv6 f) = Ok raw"
    "length raw = (if IsValid (pft_IPv4 f) then 4 else 0) + (if IsValid (pft_IPv6 f) then 16 else 0)"
    "\<And>pre. read_addrs (IsValid (pft_IPv4 f)) (IsValid (pft_IPv6 f)) (pre @ raw) (length pre)
       = Ok (pft_IPv4 f, without_zone (pft_IPv6 f))" by blast
  let ?flags = "(if IsValid (pft_IPv4 f) then 0x01 else 0) OR (if IsValid (pft_IPv6 f) then 0x02 else 0) :: byte"
  have ie: "ie = \<lparr>pie_Type = IEFTEID_pfcp, pie_Value = ?flags # put32 (pft_TEID f) @ raw\<rparr>"
    using assms raw(1) by (auto simp: NewFTEIDIE_pfcp_def Let_def split: if_splits)
  have rs: "read32 (?flags # put32 (pft_TEID f) @ raw) (Suc 0) = (Ok (pft_TEID f) :: (pfcp_error, _) outcome)"
    by (simp add: read32_def put32_def codec_simps)
  have ra: "read_addrs (IsValid (pft_IPv4 f)) (IsValid (pft_IPv6 f)) (?flags # put32 (pft_TEID f) @ raw) 5
      = Ok (pft_IPv4 f, without_zone (pft_IPv6 f))"
    using raw(3)[of "?flags # put32 (pft_TEID f)"] by simp
  show "FTEID_IE_pfcp ie = Ok (f\<lparr>pft_IPv6 := without_zone (pft_IPv6 f)\<rparr>)"
    using ne ra rs raw(2) s unfolding ie FTEID_IE_pfcp_def
    by (cases "IsValid (pft_IPv4 f)"; cases "IsValid (pft_IPv6 f)"; cases f) simp_all
  show "pie_Type ie = IEFTEID_pfcp" by (simp add: ie)
qed

text \<open>What the wire keeps of an outer header: the address family its description names, and no port.\<close>

definition sent_outer :: "OuterHeader \<Rightarrow> OuterHeader" where
  "sent_outer h = h\<lparr>oh_IPv4 := (if oh_Description h = OuterHeaderGTPUUDPIPv4 then oh_IPv4 h else AddrZero),
     oh_IPv6 := (if oh_Description h = OuterHeaderGTPUUDPIPv4 then AddrZero else without_zone (oh_IPv6 h)),
     oh_Port := 0\<rparr>"

lemma OuterHeaderCreation_NewOuterHeaderCreationIE:
  assumes "NewOuterHeaderCreationIE h = Ok ie"
  shows "OuterHeaderCreation_IE ie = Ok (sent_outer h)" "pie_Type ie = IEOuterHeaderCreation"
proof -
  have hd: "read16 (put16 d @ put32 t @ raw) 0 = (Ok d :: (pfcp_error, _) outcome)"
    "read32 (put16 d @ put32 t @ raw) 2 = (Ok t :: (pfcp_error, _) outcome)"
    "drop 6 (put16 d @ put32 t @ raw) = raw" for d t raw
    by (simp_all add: read16_def read32_def put16_def put32_def codec_simps)
  show "pie_Type ie = IEOuterHeaderCreation"
    using assms by (auto simp: NewOuterHeaderCreationIE_def split: if_splits)
  show "OuterHeaderCreation_IE ie = Ok (sent_outer h)"
  proof (cases "oh_Description h = OuterHeaderGTPUUDPIPv4")
    case True
    with assms obtain w where w: "oh_IPv4 h = Addr4 w" "oh_TEID h \<noteq> 0"
      "ie = \<lparr>pie_Type = IEOuterHeaderCreation,
         pie_Value = put16 (oh_Description h) @ put32 (oh_TEID h) @ put32 w\<rparr>"
      by (cases "oh_IPv4 h") (auto simp: NewOuterHeaderCreationIE_def split: if_splits)
    with True show ?thesis
      by (cases h) (simp add: OuterHeaderCreation_IE_def hd slice_def sent_outer_def codec_simps Let_def)
  next
    case False
    with assms obtain hi lo z where w: "oh_IPv6 h = Addr6 hi lo z" "oh_TEID h \<noteq> 0"
      "oh_Description h = OuterHeaderGTPUUDPIPv6"
      "ie = \<lparr>pie_Type = IEOuterHeaderCreation,
         pie_Value = put16 (oh_Description h) @ put32 (oh_TEID h) @ put64 hi @ put64 lo\<rparr>"
      by (cases "oh_IPv6 h") (auto simp: NewOuterHeaderCreationIE_def split: if_splits)
    with False show ?thesis
      by (cases h) (simp add: OuterHeaderCreation_IE_def hd slice_def sent_outer_def without_zone_def
          codec_simps Let_def)
  qed
qed

lemma read_addrs_total: "offset + (if a then 4 else 0) + (if b then 16 else 0) \<le> length v \<Longrightarrow>
    read_addrs a b v offset \<noteq> Panic"
  by (auto simp: read_addrs_def slice_def split: if_splits)

lemma put_addrs_total: "v4_or_none v4 \<Longrightarrow> put_addrs v4 v6 \<noteq> Panic"
  by (cases v4) (auto simp: put_addrs_def v4_or_none_def IsValid_def)

interpretation fseid: ie_codec NewFSEIDIE FSEID_IE IEFSEID "\<lambda>f. f\<lparr>fs_IPv6 := without_zone (fs_IPv6 f)\<rparr>"
proof unfold_locales
  show "NewFSEIDIE f \<noteq> Panic" for f
    using put_addrs_total[of "fs_IPv4 f"] by (auto simp: NewFSEIDIE_def v4_or_none_def Let_def)
  show "FSEID_IE ie \<noteq> Panic" for ie
    using read_addrs_total by (auto simp: FSEID_IE_def byte_at_def read64_def Let_def)
qed (use FSEID_NewFSEIDIE in auto)

interpretation fteid: ie_codec NewFTEIDIE_pfcp FTEID_IE_pfcp IEFTEID_pfcp
  "\<lambda>f. f\<lparr>pft_IPv6 := without_zone (pft_IPv6 f)\<rparr>"
proof unfold_locales
  show "NewFTEIDIE_pfcp f \<noteq> Panic" for f
    using put_addrs_total[of "pft_IPv4 f"] by (auto simp: NewFTEIDIE_pfcp_def v4_or_none_def Let_def)
  show "FTEID_IE_pfcp ie \<noteq> Panic" for ie
    using read_addrs_total by (auto simp: FTEID_IE_pfcp_def byte_at_def read32_def Let_def)
qed (use FTEID_NewFTEIDIE_pfcp in auto)

interpretation outerHeaderCreation: ie_codec NewOuterHeaderCreationIE OuterHeaderCreation_IE
  IEOuterHeaderCreation sent_outer
proof unfold_locales
  show "NewOuterHeaderCreationIE h \<noteq> Panic" for h
    using As4_Is4[of "oh_IPv4 h"] by (auto simp: NewOuterHeaderCreationIE_def)
  show "OuterHeaderCreation_IE ie \<noteq> Panic" for ie
    by (auto simp: OuterHeaderCreation_IE_def read_defs Let_def)
qed (use OuterHeaderCreation_NewOuterHeaderCreationIE in auto)

lemma UEIPAddress_NewUEIPAddressIE:
  assumes "NewUEIPAddressIE addr d = Ok ie" "\<not> IsUnspecified addr" "\<not> IsMulticast addr"
  shows "UEIPAddress_IE ie = Ok \<lparr>ue_IPv4 = addr, ue_Destination = d\<rparr>" "pie_Type ie = IEUEIPAddress"
proof -
  obtain w where w: "addr = Addr4 w" "ie = \<lparr>pie_Type = IEUEIPAddress,
      pie_Value = (0x02 OR (if d then 0x04 else 0)) # put32 w\<rparr>"
    using assms(1) by (cases addr) (auto simp: NewUEIPAddressIE_def)
  with assms(2,3) show "UEIPAddress_IE ie = Ok \<lparr>ue_IPv4 = addr, ue_Destination = d\<rparr>" "pie_Type ie = IEUEIPAddress"
    by (cases d; simp add: UEIPAddress_IE_def slice_def AddrFrom4_put32 Let_def)+
qed

subsection \<open>Names\<close>

lemma decodeLabels_loop_pfcp_labels:
  assumes "\<forall>l \<in> set ls. 0 < length l \<and> length l \<le> 63"
  shows "decodeLabels_loop_pfcp (pre @ concat (map emit_label ls)) (length pre) acc = Ok (acc @ map ToLower ls)"
  using assms
proof (induction ls arbitrary: pre acc)
  case (Cons l ls)
  have len: "unat (of_nat (length l) :: byte) = length l"
    using Cons.prems by (simp add: unat_of_nat take_bit_nat_eq_self_iff)
  have "decodeLabels_loop_pfcp (pre @ concat (map emit_label (l # ls))) (length pre) acc
      = decodeLabels_loop_pfcp ((pre @ emit_label l) @ concat (map emit_label ls)) (length (pre @ emit_label l))
          (acc @ [ToLower l])"
    using Cons.prems len by (subst decodeLabels_loop_pfcp.simps) (auto simp: emit_label_def read_defs nth_append)
  then show ?case using Cons.IH[of "pre @ emit_label l" "acc @ [ToLower l]"] Cons.prems by simp
qed (simp add: decodeLabels_loop_pfcp.simps)

lemma encodeLabels_loop_pfcp_Ok_iff:
  "encodeLabels_loop_pfcp ls out = Ok v \<longleftrightarrow>
     (\<forall>l \<in> set ls. 0 < length l \<and> length l \<le> 63) \<and> v = out @ concat (map emit_label ls)"
  by (induction ls arbitrary: out) (auto simp: emit_label_def not_less)

lemma to_lower_idem: "to_lower (to_lower c) = to_lower c"
proof (cases "0x41 \<le> c \<and> c \<le> 0x5a")
  case True
  then have "unat (c + 0x20) = unat c + 0x20"
    by (subst unat_add_lem[THEN iffD1]) (simp_all add: word_le_nat_alt)
  with True show ?thesis by (simp add: to_lower_def word_le_nat_alt)
qed (simp add: to_lower_def)

lemma ToLower_Split:
  assumes "list_all (\<lambda>c. to_lower c = c) s"
  shows "map ToLower (Split s) = Split s"
proof -
  have "\<forall>l \<in> set (Split s). list_all (\<lambda>c. to_lower c = c) l"
    using assms by (induction s) (auto split: list.splits)
  then show ?thesis by (auto simp: ToLower_def list_all_iff intro!: map_idI)
qed

lemma TrimDot_subset: "set (TrimDot s) \<subseteq> set s"
  by (auto simp: TrimDot_def dest: in_set_butlastD)

definition normal_name :: "gostring \<Rightarrow> gostring" where
  "normal_name s = TrimDot (ToLower (TrimSpace s))"

lemma normal_name_lower: "list_all (\<lambda>c. to_lower c = c) (normal_name s)"
  using TrimDot_subset[of "ToLower (TrimSpace s)"]
  by (auto simp: normal_name_def list_all_iff ToLower_def to_lower_idem)

lemma decodeLabels_encodeLabels_pfcp:
  assumes "encodeLabels_pfcp s = Ok v"
  shows "decodeLabels_pfcp v = Ok (normal_name s)" "v \<noteq> []"
proof -
  let ?ls = "Split (normal_name s)"
  have v: "\<forall>l \<in> set ?ls. 0 < length l \<and> length l \<le> 63" "v = concat (map emit_label ?ls)"
    using assms by (auto simp: encodeLabels_pfcp_def encodeLabels_loop_pfcp_Ok_iff normal_name_def Let_def
        split: if_splits)
  then show "decodeLabels_pfcp v = Ok (normal_name s)"
    using decodeLabels_loop_pfcp_labels[of ?ls "[]" "[]"]
    by (simp add: decodeLabels_pfcp_def ToLower_Split[OF normal_name_lower] Join_Split)
  show "v \<noteq> []" using v(2) Split_ne[of "normal_name s"] by (cases ?ls) (auto simp: emit_label_def)
qed

text \<open>What the wire keeps of a node identity: the address if there is one, else the normalised name.\<close>

definition sent_node :: "Addr \<Rightarrow> gostring \<Rightarrow> Addr \<times> gostring" where
  "sent_node a s = (if IsValid a then (without_zone a, []) else (AddrZero, normal_name s))"

lemma NodeID_NewNodeIDIE:
  assumes "NewNodeIDIE a s = Ok ie"
  shows "NodeID_IE ie = Ok (sent_node a s)" "pie_Type ie = IENodeID"
proof -
  show "pie_Type ie = IENodeID" using assms by (auto simp: NewNodeIDIE_def split: if_splits)
  show "NodeID_IE ie = Ok (sent_node a s)"
  proof (cases a)
    case AddrZero
    with assms obtain labels where "encodeLabels_pfcp s = Ok labels"
      "ie = \<lparr>pie_Type = IENodeID, pie_Value = 2 # labels\<rparr>"
      by (auto simp: NewNodeIDIE_def split: if_splits)
    with AddrZero decodeLabels_encodeLabels_pfcp[OF this(1)] show ?thesis
      by (simp add: NodeID_IE_def slice_def sent_node_def IsValid_def Let_def Suc_le_eq)
  next
    case (Addr4 w)
    with assms show ?thesis
      by (auto simp: NewNodeIDIE_def NodeID_IE_def slice_def sent_node_def IsValid_def without_zone_def codec_simps)
  next
    case (Addr6 hi lo z)
    with assms show ?thesis
      by (auto simp: NewNodeIDIE_def NodeID_IE_def slice_def sent_node_def IsValid_def without_zone_def codec_simps)
  qed
qed

section \<open>Properties\<close>

text \<open>Tunnel and session endpoints survive the PFCP wire: an F-SEID, an F-TEID and an outer header that
  can be sent are read back with the same identifier and addresses (IPv6 zones and the outer
  header's port, which the format has no place for, are dropped), also when they are read from
  inside a grouped element, behind any elements of other types; and a node identity given by an
  ASCII name is read back in normal form.\<close>

theorem endpoints_roundtrip:
  "(NewFSEIDIE f = Ok ie \<longrightarrow> FSEID_IE ie = Ok (f\<lparr>fs_IPv6 := without_zone (fs_IPv6 f)\<rparr>))
   \<and> (NewFTEIDIE_pfcp t = Ok ie \<longrightarrow> FTEID_IE_pfcp ie = Ok (t\<lparr>pft_IPv6 := without_zone (pft_IPv6 t)\<rparr>))
   \<and> (NewOuterHeaderCreationIE h = Ok ie \<and> (\<forall>x\<in>set pre. pie_Type x \<noteq> IEOuterHeaderCreation)
        \<and> NewGroupedIE_pfcp ty (pre @ ie # post) = Ok g \<longrightarrow>
      andThen (Children_IE_pfcp g) (\<lambda>cs. case FindIE_pfcp cs IEOuterHeaderCreation of
        None \<Rightarrow> Err ErrMissingIE_pfcp | Some x \<Rightarrow> OuterHeaderCreation_IE x) = Ok (sent_outer h))
   \<and> (ascii s \<and> NewNodeIDIE AddrZero s = Ok ie \<longrightarrow> NodeID_IE ie = Ok (AddrZero, normal_name s))"
  using fseid.get_new fteid.get_new outerHeaderCreation.get_from_group[of h ie pre ty post g]
    NodeID_NewNodeIDIE(1)[of AddrZero s ie] by (simp add: sent_node_def IsValid_def)

definition sample_outer :: OuterHeader where
  "sample_outer = \<lparr>oh_Description = OuterHeaderGTPUUDPIPv4, oh_TEID = 7, oh_IPv4 = Addr4 0x0a000001,
     oh_IPv6 = AddrZero, oh_Port = 0\<rparr>"

end
