(* ===== verification/Sgwu_Rules.thy ===== *)
theory Sgwu_Rules
  imports Netip Index_Maps
begin

unbundle bit_operations_syntax

text \<open>
  The rule store of the serving gateway user plane, \<^verbatim>\<open>internal/sgwu/rules/store.go\<close>: PFCP sessions with
  their rules, the index by control-plane SEID, and the two indexes of compiled packet rules that the
  packet path reads without the lock. A packet rule points to the generation of the session it was
  compiled from; the generation is a heap cell whose flag says whether the rule is in force. The
  order in which Go iterates over the rules of a session is not specified: it is an argument \<open>order\<close> of the
  operations that depend on it.
\<close>

section \<open>Data\<close>

datatype sgwu_error = ErrNotFound_sgwu | ErrConflict_sgwu | ErrDuplicate_sgwu | ErrCapacity_sgwu
  | ErrInvalidSession_sgwu | MutationError_sgwu

definition DefaultMaxSessions_sgwu :: int where "DefaultMaxSessions_sgwu = 1000000"

type_synonym SourceInterface = byte

definition SourceAccess :: SourceInterface where "SourceAccess = 0"
definition SourceCore :: SourceInterface where "SourceCore = 1"

definition ActionDrop :: byte where "ActionDrop = 1"
definition ActionForward :: byte where "ActionForward = 2"
definition ActionBuffer :: byte where "ActionBuffer = 4"
definition ActionNotifyControlPlane :: byte where "ActionNotifyControlPlane = 8"

record FTEID_sgwu =
  fu_TEID :: "32 word"
  fu_IP :: Addr

record PDR_sgwu =
  pdr_ID :: "16 word"
  pdr_Precedence :: "32 word"
  pdr_SourceInterface :: SourceInterface
  pdr_LocalFTEID :: FTEID_sgwu
  pdr_FARID :: "32 word"
  pdr_QERIDs :: "32 word list"
  pdr_URRIDs :: "32 word list"

record FAR_sgwu =
  far_ID :: "32 word"
  far_ApplyAction :: byte
  far_DestinationInterface :: byte
  far_OuterHeader :: "FTEID_sgwu option"
  far_BARID :: byte

record QER_sgwu =
  qer_ID :: "32 word"
  qer_UplinkGateOpen :: bool
  qer_DownlinkGateOpen :: bool
  qer_MaxUplinkBitsPerSecond :: "64 word"
  qer_MaxDownlinkBitsPerSecond :: "64 word"
  qer_QCI :: byte
  qer_ARP :: byte
  qer_PreemptionCapable :: bool
  qer_PreemptionVulnerable :: bool

record BAR_sgwu =
  bar_ID :: byte
  bar_DownlinkNotificationDelay :: int

record URR_sgwu =
  urr_ID :: "32 word"
  urr_MeasureVolume :: bool
  urr_MeasureDuration :: bool
  urr_ReportingThreshold :: "64 word"

record Session_sgwu =
  su_CPSEID :: "64 word"
  su_UPSEID :: "64 word"
  su_Revision :: "64 word"
  su_PDRs :: "16 word \<rightharpoonup> PDR_sgwu"
  su_FARs :: "32 word \<rightharpoonup> FAR_sgwu"
  su_QERs :: "32 word \<rightharpoonup> QER_sgwu"
  su_URRs :: "32 word \<rightharpoonup> URR_sgwu"
  su_BARs :: "byte \<rightharpoonup> BAR_sgwu"

text \<open>\<open>zeroQER\<close> and \<open>zeroBAR\<close> are Go's zero values; a generation is the address of its heap cell.\<close>

definition zeroQER :: QER_sgwu where
  "zeroQER = \<lparr>qer_ID = 0, qer_UplinkGateOpen = False, qer_DownlinkGateOpen = False,
     qer_MaxUplinkBitsPerSecond = 0, qer_MaxDownlinkBitsPerSecond = 0, qer_QCI = 0, qer_ARP = 0,
     qer_PreemptionCapable = False, qer_PreemptionVulnerable = False\<rparr>"

definition zeroBAR :: BAR_sgwu where "zeroBAR = \<lparr>bar_ID = 0, bar_DownlinkNotificationDelay = 0\<rparr>"

record PacketRule_sgwu =
  pr_UPSEID :: "64 word"
  pr_Revision :: "64 word"
  pr_PDR :: PDR_sgwu
  pr_FAR :: FAR_sgwu
  pr_QER :: QER_sgwu
  pr_QERs :: "QER_sgwu list"
  pr_URRs :: "URR_sgwu list"
  pr_BAR :: BAR_sgwu
  pr_generation :: "nat option"

type_synonym tunnelKey_sgwu = "SourceInterface \<times> 32 word"
type_synonym pdrKey_sgwu = "64 word \<times> 16 word"

record Store_sgwu =
  us_byUP :: "64 word \<rightharpoonup> Session_sgwu"
  us_byCP :: "64 word \<rightharpoonup> 64 word"
  us_byTunnel :: "tunnelKey_sgwu \<rightharpoonup> PacketRule_sgwu"
  us_byPDR :: "pdrKey_sgwu \<rightharpoonup> PacketRule_sgwu"
  us_generations :: "64 word \<rightharpoonup> nat"
  us_active :: "nat \<Rightarrow> bool"
  us_heap :: nat
  us_max :: int
  us_installed :: "64 word"
  us_removed :: "64 word"

definition NewStoreWithLimit_sgwu :: "int \<Rightarrow> Store_sgwu" where
  "NewStoreWithLimit_sgwu maxSessions =
     \<lparr>us_byUP = Map.empty, us_byCP = Map.empty, us_byTunnel = Map.empty, us_byPDR = Map.empty,
      us_generations = Map.empty, us_active = (\<lambda>_. False), us_heap = 0,
      us_max = (if maxSessions \<le> 0 then DefaultMaxSessions_sgwu else maxSessions),
      us_installed = 0, us_removed = 0\<rparr>"

definition Active_sgwu :: "Store_sgwu \<Rightarrow> PacketRule_sgwu \<Rightarrow> bool" where
  "Active_sgwu s r = (case pr_generation r of None \<Rightarrow> True | Some g \<Rightarrow> us_active s g)"

section \<open>Validation\<close>

definition malformed_PDR :: "Session_sgwu \<Rightarrow> 16 word \<Rightarrow> PDR_sgwu \<Rightarrow> bool" where
  "malformed_PDR c i pdr \<longleftrightarrow> i = 0 \<or> i \<noteq> pdr_ID pdr \<or> fu_TEID (pdr_LocalFTEID pdr) = 0
     \<or> \<not> IsValid (fu_IP (pdr_LocalFTEID pdr)) \<or> su_FARs c (pdr_FARID pdr) = None
     \<or> (\<exists>q \<in> set (pdr_QERIDs pdr). su_QERs c q = None) \<or> (\<exists>u \<in> set (pdr_URRIDs pdr). su_URRs c u = None)"

definition malformed_FAR :: "Session_sgwu \<Rightarrow> 32 word \<Rightarrow> FAR_sgwu \<Rightarrow> bool" where
  "malformed_FAR c i far \<longleftrightarrow> i = 0 \<or> i \<noteq> far_ID far \<or> far_ApplyAction far = 0
     \<or> far_ApplyAction far AND ActionDrop \<noteq> 0 \<and> far_ApplyAction far AND ActionForward \<noteq> 0
     \<or> far_ApplyAction far AND ActionForward \<noteq> 0 \<and>
         (case far_OuterHeader far of None \<Rightarrow> True | Some oh \<Rightarrow> fu_TEID oh = 0 \<or> \<not> IsValid (fu_IP oh))
     \<or> far_BARID far \<noteq> 0 \<and> su_BARs c (far_BARID far) = None"

definition malformed_QER :: "32 word \<Rightarrow> QER_sgwu \<Rightarrow> bool" where
  "malformed_QER i qer \<longleftrightarrow> i = 0 \<or> i \<noteq> qer_ID qer \<or> (qer_QCI qer = 0) \<noteq> (qer_ARP qer = 0) \<or> qer_ARP qer > 15"

definition malformed_URR :: "32 word \<Rightarrow> URR_sgwu \<Rightarrow> bool" where
  "malformed_URR i urr \<longleftrightarrow> i = 0 \<or> i \<noteq> urr_ID urr \<or> \<not> urr_MeasureVolume urr \<and> \<not> urr_MeasureDuration urr"

definition malformed_BAR :: "byte \<Rightarrow> BAR_sgwu \<Rightarrow> bool" where
  "malformed_BAR i bar \<longleftrightarrow> i = 0 \<or> i \<noteq> bar_ID bar \<or> bar_DownlinkNotificationDelay bar < 0
     \<or> bar_DownlinkNotificationDelay bar > 12750 * 1000000
     \<or> bar_DownlinkNotificationDelay bar mod (50 * 1000000) \<noteq> 0"

text \<open>A loop over a map that stops with an error at the first malformed entry.\<close>

definition map_ex :: "('k \<rightharpoonup> 'v) \<Rightarrow> ('k \<Rightarrow> 'v \<Rightarrow> bool) \<Rightarrow> bool" where
  "map_ex m P \<longleftrightarrow> (\<exists>k v. m k = Some v \<and> P k v)"

definition validate_sgwu :: "Session_sgwu \<Rightarrow> (sgwu_error, unit) outcome" where
  "validate_sgwu candidate =
     (if su_CPSEID candidate = 0 \<or> su_UPSEID candidate = 0 then Err ErrInvalidSession_sgwu
      else if su_PDRs candidate = Map.empty then Err ErrInvalidSession_sgwu
      else if map_ex (su_PDRs candidate) (malformed_PDR candidate) then Err ErrInvalidSession_sgwu
      else if map_ex (su_FARs candidate) (malformed_FAR candidate) then Err ErrInvalidSession_sgwu
      else if map_ex (su_QERs candidate) malformed_QER then Err ErrInvalidSession_sgwu
      else if map_ex (su_URRs candidate) malformed_URR then Err ErrInvalidSession_sgwu
      else if map_ex (su_BARs candidate) malformed_BAR then Err ErrInvalidSession_sgwu
      else Ok ())"

section \<open>Compiling packet rules\<close>

text \<open>The loops that collect the referenced QERs, selecting the one that carries LTE metadata, and URRs.\<close>

fun collect_QERs :: "(32 word \<rightharpoonup> QER_sgwu) \<Rightarrow> 32 word list \<Rightarrow> PacketRule_sgwu \<Rightarrow> PacketRule_sgwu option" where
  "collect_QERs qers [] matched = Some matched"
| "collect_QERs qers (i # ids) matched =
     (case qers i of None \<Rightarrow> None
      | Some qer \<Rightarrow>
        let matched = matched\<lparr>pr_QERs := pr_QERs matched @ [qer]\<rparr> in
        collect_QERs qers ids
          (if qer_ID (pr_QER matched) = 0 \<or> qer_QCI qer \<noteq> 0 \<and> qer_QCI (pr_QER matched) = 0
           then matched\<lparr>pr_QER := qer\<rparr> else matched))"

fun collect_URRs :: "(32 word \<rightharpoonup> URR_sgwu) \<Rightarrow> 32 word list \<Rightarrow> PacketRule_sgwu \<Rightarrow> PacketRule_sgwu option" where
  "collect_URRs urrs [] matched = Some matched"
| "collect_URRs urrs (i # ids) matched =
     (case urrs i of None \<Rightarrow> None
      | Some urr \<Rightarrow> collect_URRs urrs ids (matched\<lparr>pr_URRs := pr_URRs matched @ [urr]\<rparr>))"

definition compilePacketRule :: "Session_sgwu \<Rightarrow> 16 word \<Rightarrow> PacketRule_sgwu option" where
  "compilePacketRule session pdrID =
     (case su_PDRs session pdrID of None \<Rightarrow> None
      | Some pdr \<Rightarrow>
        (case su_FARs session (pdr_FARID pdr) of None \<Rightarrow> None
         | Some far \<Rightarrow>
           let matched = \<lparr>pr_UPSEID = su_UPSEID session, pr_Revision = su_Revision session, pr_PDR = pdr,
                 pr_FAR = far, pr_QER = zeroQER, pr_QERs = [], pr_URRs = [], pr_BAR = zeroBAR,
                 pr_generation = None\<rparr> in
           (case collect_QERs (su_QERs session) (pdr_QERIDs pdr) matched of None \<Rightarrow> None
            | Some matched \<Rightarrow>
              (case collect_URRs (su_URRs session) (pdr_URRIDs pdr) matched of None \<Rightarrow> None
               | Some matched \<Rightarrow>
                 if far_BARID far \<noteq> 0
                 then (case su_BARs session (far_BARID far) of None \<Rightarrow> None
                       | Some bar \<Rightarrow> Some (matched\<lparr>pr_BAR := bar\<rparr>))
                 else Some matched))))"

section \<open>The packet-path indexes\<close>

definition tunnelKey :: "PDR_sgwu \<Rightarrow> tunnelKey_sgwu" where
  "tunnelKey pdr = (pdr_SourceInterface pdr, fu_TEID (pdr_LocalFTEID pdr))"

definition tunnelConflict :: "Store_sgwu \<Rightarrow> 64 word \<Rightarrow> PDR_sgwu \<Rightarrow> bool" where
  "tunnelConflict s replacing pdr =
     (case us_byTunnel s (tunnelKey pdr) of None \<Rightarrow> False | Some r \<Rightarrow> pr_UPSEID r \<noteq> replacing)"

definition checkTunnelConflicts :: "Session_sgwu \<Rightarrow> 64 word \<Rightarrow> Store_sgwu \<Rightarrow> (sgwu_error, unit) outcome" where
  "checkTunnelConflicts candidate replacingUPSEID s =
     (if map_ex (su_PDRs candidate) (\<lambda>_. tunnelConflict s replacingUPSEID) then Err ErrDuplicate_sgwu
      else Ok ())"

text \<open>The packet path reads the store without its lock, so the order of the writes matters. A write sequence
  maps the store to the states it leaves after each elementary write (one store into or deletion from a
  map, one flag); the operations are the last states of their write sequences.\<close>

type_synonym writes = "Store_sgwu \<Rightarrow> Store_sgwu list"

fun run_writes :: "writes list \<Rightarrow> writes" where
  "run_writes [] s = []"
| "run_writes (w # ws) s = w s @ run_writes ws (last (s # w s))"

text \<open>One turn of the loop of \<^verbatim>\<open>indexSession\<close>.\<close>

definition index_PDR_writes :: "Session_sgwu \<Rightarrow> nat \<Rightarrow> PDR_sgwu \<Rightarrow> writes" where
  "index_PDR_writes candidate generation pdr s =
     (case compilePacketRule candidate (pdr_ID pdr) of None \<Rightarrow> []
      | Some matched \<Rightarrow>
        let matched = matched\<lparr>pr_generation := Some generation\<rparr>;
            s = s\<lparr>us_byPDR := (us_byPDR s)((su_UPSEID candidate, pdr_ID pdr) \<mapsto> matched)\<rparr>;
            key = tunnelKey pdr in
        (case us_byTunnel s key of
           None \<Rightarrow> [s, s\<lparr>us_byTunnel := (us_byTunnel s)(key \<mapsto> matched)\<rparr>]
         | Some r \<Rightarrow>
             if pdr_Precedence (pr_PDR r) > pdr_Precedence pdr
             then [s, s\<lparr>us_byTunnel := (us_byTunnel s)(key \<mapsto> matched)\<rparr>] else [s]))"

definition index_PDR :: "Session_sgwu \<Rightarrow> nat \<Rightarrow> PDR_sgwu \<Rightarrow> Store_sgwu \<Rightarrow> Store_sgwu" where
  "index_PDR c g pdr s = last (s # index_PDR_writes c g pdr s)"

definition indexSession_writes :: "16 word list \<Rightarrow> Session_sgwu \<Rightarrow> nat \<Rightarrow> writes" where
  "indexSession_writes order candidate generation =
     run_writes (map (\<lambda>i. case su_PDRs candidate i of None \<Rightarrow> (\<lambda>s. [])
       | Some pdr \<Rightarrow> index_PDR_writes candidate generation pdr) order)"

definition indexSession :: "16 word list \<Rightarrow> Session_sgwu \<Rightarrow> nat \<Rightarrow> Store_sgwu \<Rightarrow> Store_sgwu" where
  "indexSession order candidate generation s = last (s # indexSession_writes order candidate generation s)"

definition unindex_PDR_writes :: "Session_sgwu \<Rightarrow> PDR_sgwu \<Rightarrow> writes" where
  "unindex_PDR_writes candidate pdr s =
     (let s = s\<lparr>us_byPDR := (us_byPDR s)((su_UPSEID candidate, pdr_ID pdr) := None)\<rparr>;
          key = tunnelKey pdr in
      (case us_byTunnel s key of
         None \<Rightarrow> [s]
       | Some r \<Rightarrow> if pr_UPSEID r = su_UPSEID candidate
                   then [s, s\<lparr>us_byTunnel := (us_byTunnel s)(key := None)\<rparr>] else [s]))"

definition unindex_PDR :: "Session_sgwu \<Rightarrow> PDR_sgwu \<Rightarrow> Store_sgwu \<Rightarrow> Store_sgwu" where
  "unindex_PDR c pdr s = last (s # unindex_PDR_writes c pdr s)"

definition unindexSession_writes :: "16 word list \<Rightarrow> Session_sgwu \<Rightarrow> writes" where
  "unindexSession_writes order candidate =
     run_writes (map (\<lambda>i. case su_PDRs candidate i of None \<Rightarrow> (\<lambda>s. [])
       | Some pdr \<Rightarrow> unindex_PDR_writes candidate pdr) order)"

definition unindexSession :: "16 word list \<Rightarrow> Session_sgwu \<Rightarrow> Store_sgwu \<Rightarrow> Store_sgwu" where
  "unindexSession order candidate s = last (s # unindexSession_writes order candidate s)"

text \<open>\<^verbatim>\<open>generation.active.Store(false)\<close> on the current generation of a session.\<close>

definition deactivate :: "64 word \<Rightarrow> Store_sgwu \<Rightarrow> Store_sgwu" where
  "deactivate upSEID s = (case us_generations s upSEID of None \<Rightarrow> s
     | Some g \<Rightarrow> s\<lparr>us_active := (us_active s)(g := False)\<rparr>)"

text \<open>The tail shared by \<^verbatim>\<open>Create\<close>, \<^verbatim>\<open>Update\<close> and \<^verbatim>\<open>Reconcile\<close>: store the session, allocate its generation,
  index its rules, record the generation, and only then activate it.\<close>

definition install_writes :: "16 word list \<Rightarrow> Session_sgwu \<Rightarrow> writes" where
  "install_writes order candidate s =
     (let g = us_heap s in
      run_writes
       [\<lambda>s. [s\<lparr>us_byUP := (us_byUP s)(su_UPSEID candidate \<mapsto> candidate)\<rparr>],
        \<lambda>s. [s\<lparr>us_heap := Suc g, us_active := (us_active s)(g := False)\<rparr>],
        indexSession_writes order candidate g,
        \<lambda>s. [s\<lparr>us_generations := (us_generations s)(su_UPSEID candidate \<mapsto> g)\<rparr>],
        \<lambda>s. [s\<lparr>us_active := (us_active s)(g := True)\<rparr>]] s)"

definition install :: "16 word list \<Rightarrow> Session_sgwu \<Rightarrow> Store_sgwu \<Rightarrow> Store_sgwu" where
  "install order candidate s = last (s # install_writes order candidate s)"

section \<open>Operations\<close>

text \<open>Sessions are values: \<^verbatim>\<open>clone\<close> copies every map and slice of a session.\<close>

definition clone_sgwu :: "Session_sgwu \<Rightarrow> Session_sgwu" where
  "clone_sgwu i = \<lparr>su_CPSEID = su_CPSEID i, su_UPSEID = su_UPSEID i, su_Revision = su_Revision i,
     su_PDRs = su_PDRs i, su_FARs = su_FARs i, su_QERs = su_QERs i, su_URRs = su_URRs i, su_BARs = su_BARs i\<rparr>"

definition Create_sgwu ::
  "16 word list \<Rightarrow> Session_sgwu \<Rightarrow> Store_sgwu \<Rightarrow> (sgwu_error, Session_sgwu) outcome \<times> Store_sgwu" where
  "Create_sgwu order candidate s =
     (case validate_sgwu candidate of Err e \<Rightarrow> (Err e, s) | Panic \<Rightarrow> (Panic, s)
      | Ok _ \<Rightarrow>
        if us_byUP s (su_UPSEID candidate) \<noteq> None then (Err ErrDuplicate_sgwu, s)
        else if us_byCP s (su_CPSEID candidate) \<noteq> None then (Err ErrDuplicate_sgwu, s)
        else case checkTunnelConflicts candidate 0 s of Err e \<Rightarrow> (Err e, s) | Panic \<Rightarrow> (Panic, s)
        | Ok _ \<Rightarrow>
          if int (card (dom (us_byUP s))) \<ge> us_max s then (Err ErrCapacity_sgwu, s)
          else
            let candidate = candidate\<lparr>su_Revision := 1\<rparr>;
                s = s\<lparr>us_byCP := (us_byCP s)(su_CPSEID candidate \<mapsto> su_UPSEID candidate)\<rparr>;
                s = install order (clone_sgwu candidate) s in
            (Ok (clone_sgwu candidate), s\<lparr>us_installed := us_installed s + 1\<rparr>))"

definition FindByUPSEID_sgwu :: "Store_sgwu \<Rightarrow> 64 word \<Rightarrow> Session_sgwu option" where
  "FindByUPSEID_sgwu s seid = map_option clone_sgwu (us_byUP s seid)"

definition FindByCPSEID_sgwu :: "Store_sgwu \<Rightarrow> 64 word \<Rightarrow> (sgwu_error, Session_sgwu option) outcome" where
  "FindByCPSEID_sgwu s seid =
     (case us_byCP s seid of None \<Rightarrow> Ok None
      | Some upSEID \<Rightarrow> (case us_byUP s upSEID of None \<Rightarrow> Panic | Some x \<Rightarrow> Ok (Some (clone_sgwu x))))"

text \<open>The replacement of a session by its next revision; \<open>order0\<close> and \<open>order\<close> are the iteration orders over
  the old and the new rules.\<close>

definition replace_writes ::
  "16 word list \<Rightarrow> 16 word list \<Rightarrow> Session_sgwu \<Rightarrow> Session_sgwu \<Rightarrow> writes" where
  "replace_writes order0 order current candidate =
     run_writes [\<lambda>s. [deactivate (su_UPSEID candidate) s], unindexSession_writes order0 current,
       install_writes order candidate]"

definition replace_sgwu ::
  "16 word list \<Rightarrow> 16 word list \<Rightarrow> Session_sgwu \<Rightarrow> Session_sgwu \<Rightarrow> Store_sgwu \<Rightarrow> Store_sgwu" where
  "replace_sgwu order0 order current candidate s = last (s # replace_writes order0 order current candidate s)"

definition Update_sgwu ::
  "16 word list \<Rightarrow> (Session_sgwu \<Rightarrow> 16 word list) \<Rightarrow> 64 word \<Rightarrow> 64 word \<Rightarrow>
   (Session_sgwu \<Rightarrow> (sgwu_error, Session_sgwu) outcome) option \<Rightarrow> Store_sgwu \<Rightarrow>
   (sgwu_error, Session_sgwu) outcome \<times> Store_sgwu" where
  "Update_sgwu order0 order upSEID expectedRevision mutate s =
     (case mutate of None \<Rightarrow> (Err ErrInvalidSession_sgwu, s)
      | Some mutate \<Rightarrow>
      case us_byUP s upSEID of None \<Rightarrow> (Err ErrNotFound_sgwu, s)
      | Some current \<Rightarrow>
        if su_Revision current \<noteq> expectedRevision then (Err ErrConflict_sgwu, s)
        else case mutate (clone_sgwu current) of Err e \<Rightarrow> (Err e, s) | Panic \<Rightarrow> (Panic, s)
        | Ok nxt \<Rightarrow>
          if su_CPSEID nxt \<noteq> su_CPSEID current \<or> su_UPSEID nxt \<noteq> su_UPSEID current
          then (Err ErrInvalidSession_sgwu, s)
          else case validate_sgwu nxt of Err e \<Rightarrow> (Err e, s) | Panic \<Rightarrow> (Panic, s)
          | Ok _ \<Rightarrow>
            case checkTunnelConflicts nxt upSEID s of Err e \<Rightarrow> (Err e, s) | Panic \<Rightarrow> (Panic, s)
            | Ok _ \<Rightarrow>
              let nxt = nxt\<lparr>su_Revision := su_Revision nxt + 1\<rparr> in
              (Ok (clone_sgwu nxt), replace_sgwu order0 (order nxt) current (clone_sgwu nxt) s))"

definition Reconcile_sgwu ::
  "16 word list \<Rightarrow> 16 word list \<Rightarrow> 64 word \<Rightarrow> Session_sgwu \<Rightarrow> Store_sgwu \<Rightarrow>
   (sgwu_error, Session_sgwu) outcome \<times> Store_sgwu" where
  "Reconcile_sgwu order0 order cpSEID candidate s =
     (if cpSEID = 0 \<or> su_CPSEID candidate \<noteq> cpSEID then (Err ErrInvalidSession_sgwu, s)
      else case us_byCP s cpSEID of None \<Rightarrow> (Err ErrNotFound_sgwu, s)
      | Some upSEID \<Rightarrow>
        let candidate = candidate\<lparr>su_UPSEID := upSEID\<rparr> in
        case validate_sgwu candidate of Err e \<Rightarrow> (Err e, s) | Panic \<Rightarrow> (Panic, s)
        | Ok _ \<Rightarrow>
          case checkTunnelConflicts candidate upSEID s of Err e \<Rightarrow> (Err e, s) | Panic \<Rightarrow> (Panic, s)
          | Ok _ \<Rightarrow>
            case us_byUP s upSEID of None \<Rightarrow> (Panic, s)
            | Some current \<Rightarrow>
              let candidate = clone_sgwu (candidate\<lparr>su_Revision := su_Revision current\<rparr>) in
              if candidate = current then (Ok (clone_sgwu current), s)
              else
                let candidate = candidate\<lparr>su_Revision := su_Revision current + 1\<rparr> in
                (Ok (clone_sgwu candidate), replace_sgwu order0 order current (clone_sgwu candidate) s))"

definition Delete_sgwu ::
  "16 word list \<Rightarrow> 64 word \<Rightarrow> 64 word \<Rightarrow> Store_sgwu \<Rightarrow> (sgwu_error, unit) outcome \<times> Store_sgwu" where
  "Delete_sgwu order0 upSEID expectedRevision s =
     (case us_byUP s upSEID of None \<Rightarrow> (Err ErrNotFound_sgwu, s)
      | Some current \<Rightarrow>
        if su_Revision current \<noteq> expectedRevision then (Err ErrConflict_sgwu, s)
        else
          let s = s\<lparr>us_byUP := (us_byUP s)(upSEID := None), us_byCP := (us_byCP s)(su_CPSEID current := None)\<rparr>;
              s = unindexSession order0 current (deactivate upSEID s);
              s = s\<lparr>us_generations := (us_generations s)(upSEID := None)\<rparr> in
          (Ok (), s\<lparr>us_removed := us_removed s + 1\<rparr>))"

definition Capacity_sgwu :: "Store_sgwu \<Rightarrow> int" where "Capacity_sgwu s = us_max s"

definition LifecycleCounters_sgwu :: "Store_sgwu \<Rightarrow> 64 word \<times> 64 word" where
  "LifecycleCounters_sgwu s = (us_installed s, us_removed s)"

definition Snapshot_sgwu :: "Store_sgwu \<Rightarrow> Session_sgwu set" where
  "Snapshot_sgwu s = clone_sgwu ` ran (us_byUP s)"

section \<open>The packet path\<close>

definition in_force :: "Store_sgwu \<Rightarrow> PacketRule_sgwu \<Rightarrow> bool" where
  "in_force s r = (case pr_generation r of None \<Rightarrow> False | Some g \<Rightarrow> us_active s g)"

text \<open>A lookup loads the rule from the tunnel index, and the flag of the rule's generation after that. Without the
  lock the store may change in between: \<open>load1\<close> and \<open>load2\<close> are the states the two loads see. The
  lookup in a store at rest sees one state.\<close>

definition LookupPacket_loads :: "Store_sgwu \<Rightarrow> Store_sgwu \<Rightarrow> SourceInterface \<Rightarrow> 32 word \<Rightarrow> PacketRule_sgwu option" where
  "LookupPacket_loads load1 load2 source teid =
     (case us_byTunnel load1 (source, teid) of None \<Rightarrow> None
      | Some matched \<Rightarrow> if in_force load2 matched then Some matched else None)"

definition LookupPacket_sgwu :: "Store_sgwu \<Rightarrow> SourceInterface \<Rightarrow> 32 word \<Rightarrow> PacketRule_sgwu option" where
  "LookupPacket_sgwu s source teid = LookupPacket_loads s s source teid"

definition LookupByPDR_sgwu :: "Store_sgwu \<Rightarrow> 64 word \<Rightarrow> 16 word \<Rightarrow> PacketRule_sgwu option" where
  "LookupByPDR_sgwu s upSEID pdrID =
     (case us_byPDR s (upSEID, pdrID) of None \<Rightarrow> None
      | Some matched \<Rightarrow> if in_force s matched then Some matched else None)"

definition LookupSession_sgwu ::
  "Store_sgwu \<Rightarrow> SourceInterface \<Rightarrow> 32 word \<Rightarrow> (64 word \<times> PDR_sgwu \<times> FAR_sgwu) option" where
  "LookupSession_sgwu s source teid =
     map_option (\<lambda>matched. (pr_UPSEID matched, pr_PDR matched, pr_FAR matched)) (LookupPacket_sgwu s source teid)"

definition Lookup_sgwu :: "Store_sgwu \<Rightarrow> SourceInterface \<Rightarrow> 32 word \<Rightarrow> (PDR_sgwu \<times> FAR_sgwu) option" where
  "Lookup_sgwu s source teid = map_option snd (LookupSession_sgwu s source teid)"

definition GatesOpen_sgwu :: "Store_sgwu \<Rightarrow> SourceInterface \<Rightarrow> PDR_sgwu \<Rightarrow> bool" where
  "GatesOpen_sgwu s source pdr =
     (case LookupPacket_sgwu s source (fu_TEID (pdr_LocalFTEID pdr)) of None \<Rightarrow> False
      | Some matched \<Rightarrow>
        pdr_ID (pr_PDR matched) = pdr_ID pdr \<and>
        list_all (\<lambda>qer. \<not> (source = SourceAccess \<and> \<not> qer_UplinkGateOpen qer) \<and>
                        \<not> (source = SourceCore \<and> \<not> qer_DownlinkGateOpen qer)) (pr_QERs matched))"

section \<open>What the loops over the rules do\<close>

lemma clone_sgwu_id [simp]: "clone_sgwu x = x"
  by (simp add: clone_sgwu_def)

text \<open>The state after a sequence of writes, without the states in between.\<close>

lemma last_writes: "last (s # xs @ ys) = last (last (s # xs) # ys)"
  by (cases ys) simp_all

lemma index_PDR_eq:
  "index_PDR c g pdr s =
     (case compilePacketRule c (pdr_ID pdr) of None \<Rightarrow> s
      | Some matched \<Rightarrow>
        let matched = matched\<lparr>pr_generation := Some g\<rparr>;
            s = s\<lparr>us_byPDR := (us_byPDR s)((su_UPSEID c, pdr_ID pdr) \<mapsto> matched)\<rparr>;
            key = tunnelKey pdr in
        (case us_byTunnel s key of
           None \<Rightarrow> s\<lparr>us_byTunnel := (us_byTunnel s)(key \<mapsto> matched)\<rparr>
         | Some r \<Rightarrow>
             if pdr_Precedence (pr_PDR r) > pdr_Precedence pdr
             then s\<lparr>us_byTunnel := (us_byTunnel s)(key \<mapsto> matched)\<rparr> else s))"
  by (simp add: index_PDR_def index_PDR_writes_def Let_def split: option.split)

lemma unindex_PDR_eq:
  "unindex_PDR c pdr s =
     (let s = s\<lparr>us_byPDR := (us_byPDR s)((su_UPSEID c, pdr_ID pdr) := None)\<rparr>;
          key = tunnelKey pdr in
      (case us_byTunnel s key of
         None \<Rightarrow> s
       | Some r \<Rightarrow> if pr_UPSEID r = su_UPSEID c
                   then s\<lparr>us_byTunnel := (us_byTunnel s)(key := None)\<rparr> else s))"
  by (simp add: unindex_PDR_def unindex_PDR_writes_def Let_def split: option.split)

lemma indexSession_simps [simp]:
  "indexSession [] c g s = s"
  "indexSession (i # order) c g s = (case su_PDRs c i of None \<Rightarrow> indexSession order c g s
      | Some pdr \<Rightarrow> indexSession order c g (index_PDR c g pdr s))"
  by (simp_all add: indexSession_def indexSession_writes_def index_PDR_def last_writes del: last.simps split: option.split)
    simp_all

lemma unindexSession_simps [simp]:
  "unindexSession [] c s = s"
  "unindexSession (i # order) c s = (case su_PDRs c i of None \<Rightarrow> unindexSession order c s
      | Some pdr \<Rightarrow> unindexSession order c (unindex_PDR c pdr s))"
  by (simp_all add: unindexSession_def unindexSession_writes_def unindex_PDR_def last_writes del: last.simps split: option.split)
    simp_all

lemma install_eq:
  "install order c s =
     (let g = us_heap s;
          s = indexSession order c g (s\<lparr>us_byUP := (us_byUP s)(su_UPSEID c \<mapsto> c), us_heap := Suc g,
                us_active := (us_active s)(g := False)\<rparr>) in
      s\<lparr>us_generations := (us_generations s)(su_UPSEID c \<mapsto> g), us_active := (us_active s)(g := True)\<rparr>)"
  by (simp add: install_def install_writes_def indexSession_def Let_def)

lemma replace_eq: "replace_sgwu order0 order current c s =
     install order c (unindexSession order0 current (deactivate (su_UPSEID c) s))"
  by (simp add: replace_sgwu_def replace_writes_def unindexSession_def install_def)

lemma index_frame [simp]:
  "us_byUP (indexSession order c g s) = us_byUP s" "us_byCP (indexSession order c g s) = us_byCP s"
  "us_generations (indexSession order c g s) = us_generations s"
  "us_active (indexSession order c g s) = us_active s" "us_heap (indexSession order c g s) = us_heap s"
  "us_max (indexSession order c g s) = us_max s"
  "us_installed (indexSession order c g s) = us_installed s" "us_removed (indexSession order c g s) = us_removed s"
  by (induction order arbitrary: s; auto simp: index_PDR_eq Let_def split: option.splits)+

lemma unindex_frame [simp]:
  "us_byUP (unindexSession order c s) = us_byUP s" "us_byCP (unindexSession order c s) = us_byCP s"
  "us_generations (unindexSession order c s) = us_generations s"
  "us_active (unindexSession order c s) = us_active s" "us_heap (unindexSession order c s) = us_heap s"
  "us_max (unindexSession order c s) = us_max s"
  "us_installed (unindexSession order c s) = us_installed s" "us_removed (unindexSession order c s) = us_removed s"
  by (induction order arbitrary: s; auto simp: unindex_PDR_eq Let_def split: option.splits)+

lemma deactivate_frame [simp]:
  "us_byUP (deactivate u s) = us_byUP s" "us_byCP (deactivate u s) = us_byCP s"
  "us_generations (deactivate u s) = us_generations s" "us_heap (deactivate u s) = us_heap s"
  "us_byTunnel (deactivate u s) = us_byTunnel s" "us_byPDR (deactivate u s) = us_byPDR s"
  "us_max (deactivate u s) = us_max s"
  "us_installed (deactivate u s) = us_installed s" "us_removed (deactivate u s) = us_removed s"
  by (auto simp: deactivate_def split: option.splits)

lemma collect_QERs_frame:
  "collect_QERs qers ids m = Some r \<Longrightarrow> pr_UPSEID r = pr_UPSEID m \<and> pr_Revision r = pr_Revision m
    \<and> pr_PDR r = pr_PDR m \<and> pr_FAR r = pr_FAR m \<and> pr_generation r = pr_generation m
    \<and> pr_URRs r = pr_URRs m \<and> pr_QERs r = pr_QERs m @ map (the \<circ> qers) ids"
  by (induction ids arbitrary: m) (auto simp: Let_def split: option.splits if_splits)

lemma collect_URRs_frame:
  "collect_URRs urrs ids m = Some r \<Longrightarrow> pr_UPSEID r = pr_UPSEID m \<and> pr_Revision r = pr_Revision m
    \<and> pr_PDR r = pr_PDR m \<and> pr_FAR r = pr_FAR m \<and> pr_generation r = pr_generation m
    \<and> pr_QERs r = pr_QERs m \<and> pr_URRs r = pr_URRs m @ map (the \<circ> urrs) ids"
  by (induction ids arbitrary: m) (auto split: option.splits)

lemma compile_fields:
  assumes "compilePacketRule c i = Some r"
  shows "su_PDRs c i = Some (pr_PDR r)" "su_FARs c (pdr_FARID (pr_PDR r)) = Some (pr_FAR r)"
    "pr_UPSEID r = su_UPSEID c" "pr_Revision r = su_Revision c"
    "pr_QERs r = map (the \<circ> su_QERs c) (pdr_QERIDs (pr_PDR r))"
    "pr_URRs r = map (the \<circ> su_URRs c) (pdr_URRIDs (pr_PDR r))"
  using assms
  by (auto simp: compilePacketRule_def Let_def split: option.splits if_splits
      dest!: collect_QERs_frame collect_URRs_frame)

lemma collect_total:
  "\<forall>i\<in>set ids. qers i \<noteq> None \<Longrightarrow> \<exists>r. collect_QERs qers ids m = Some r"
  "\<forall>i\<in>set ids. urrs i \<noteq> None \<Longrightarrow> \<exists>r. collect_URRs urrs ids m = Some r"
  by (induction ids arbitrary: m; fastforce simp: Let_def split: option.splits)+

text \<open>A valid session: every rule compiles.\<close>

definition valid_sgwu :: "Session_sgwu \<Rightarrow> bool" where
  "valid_sgwu c \<longleftrightarrow> validate_sgwu c = Ok ()"

lemma validate_sgwu_cases: "validate_sgwu c = Ok () \<or> validate_sgwu c = Err ErrInvalidSession_sgwu"
  by (simp add: validate_sgwu_def)

lemma valid_PDR:
  assumes "valid_sgwu c" "su_PDRs c i = Some pdr"
  shows "pdr_ID pdr = i" "\<not> malformed_PDR c i pdr"
proof -
  show "\<not> malformed_PDR c i pdr"
    using assms by (auto simp: valid_sgwu_def validate_sgwu_def map_ex_def split: if_splits)
  then show "pdr_ID pdr = i" by (auto simp: malformed_PDR_def)
qed

lemma valid_FAR: "valid_sgwu c \<Longrightarrow> su_FARs c i = Some far \<Longrightarrow> \<not> malformed_FAR c i far"
  by (auto simp: valid_sgwu_def validate_sgwu_def map_ex_def split: if_splits)

lemma valid_SEIDs: "valid_sgwu c \<Longrightarrow> su_CPSEID c \<noteq> 0 \<and> su_UPSEID c \<noteq> 0"
  by (auto simp: valid_sgwu_def validate_sgwu_def split: if_splits)

lemma valid_compiles:
  assumes "valid_sgwu c" "su_PDRs c i = Some pdr"
  shows "\<exists>r. compilePacketRule c i = Some r"
proof -
  note p = valid_PDR(2)[OF assms]
  then obtain far where far: "su_FARs c (pdr_FARID pdr) = Some far" by (auto simp: malformed_PDR_def)
  have bar: "far_BARID far = 0 \<or> su_BARs c (far_BARID far) \<noteq> None"
    using valid_FAR[OF assms(1) far] by (auto simp: malformed_FAR_def)
  have "\<forall>i\<in>set (pdr_QERIDs pdr). su_QERs c i \<noteq> None" "\<forall>i\<in>set (pdr_URRIDs pdr). su_URRs c i \<noteq> None"
    using p by (auto simp: malformed_PDR_def)
  note t = collect_total(1)[OF this(1)] collect_total(2)[OF this(2)]
  define m where "m = \<lparr>pr_UPSEID = su_UPSEID c, pr_Revision = su_Revision c, pr_PDR = pdr,
     pr_FAR = far, pr_QER = zeroQER, pr_QERs = [], pr_URRs = [], pr_BAR = zeroBAR, pr_generation = None\<rparr>"
  obtain m1 where m1: "collect_QERs (su_QERs c) (pdr_QERIDs pdr) m = Some m1" using t(1) by blast
  obtain m2 where m2: "collect_URRs (su_URRs c) (pdr_URRIDs pdr) m1 = Some m2" using t(2) by blast
  show ?thesis
    using assms(2) far m1 m2 bar
    by (auto simp: compilePacketRule_def Let_def simp flip: m_def split: option.splits)
qed

text \<open>The compiled rule of a PDR, in a generation.\<close>

definition rule_of :: "Session_sgwu \<Rightarrow> nat \<Rightarrow> 16 word \<Rightarrow> PacketRule_sgwu option" where
  "rule_of c g i = map_option (\<lambda>r. r\<lparr>pr_generation := Some g\<rparr>) (compilePacketRule c i)"

lemma rule_of_fields:
  assumes "rule_of c g i = Some r"
  shows "su_PDRs c i = Some (pr_PDR r)" "su_FARs c (pdr_FARID (pr_PDR r)) = Some (pr_FAR r)"
    "pr_UPSEID r = su_UPSEID c" "pr_Revision r = su_Revision c" "pr_generation r = Some g"
    "pr_QERs r = map (the \<circ> su_QERs c) (pdr_QERIDs (pr_PDR r))"
  using assms compile_fields by (auto simp: rule_of_def)

lemma rule_of_exists: "valid_sgwu c \<Longrightarrow> su_PDRs c i = Some pdr \<Longrightarrow> \<exists>r. rule_of c g i = Some r \<and> pr_PDR r = pdr"
  using valid_compiles[of c i pdr] rule_of_fields(1)[of c g i] by (fastforce simp: rule_of_def)

text \<open>\<open>best c g ids k r\<close>: of the PDRs of \<open>c\<close> in \<open>ids\<close> with tunnel \<open>k\<close>, \<open>r\<close> is the rule of one with the least
  precedence value.\<close>

definition best :: "Session_sgwu \<Rightarrow> nat \<Rightarrow> 16 word set \<Rightarrow> tunnelKey_sgwu \<Rightarrow> PacketRule_sgwu \<Rightarrow> bool" where
  "best c g ids k r \<longleftrightarrow> (\<exists>i\<in>ids. rule_of c g i = Some r) \<and> tunnelKey (pr_PDR r) = k \<and>
     (\<forall>j\<in>ids. \<forall>q. su_PDRs c j = Some q \<and> tunnelKey q = k \<longrightarrow> pdr_Precedence (pr_PDR r) \<le> pdr_Precedence q)"

definition keys_of :: "Session_sgwu \<Rightarrow> 16 word set \<Rightarrow> tunnelKey_sgwu set" where
  "keys_of c ids = {tunnelKey pdr | i pdr. i \<in> ids \<and> su_PDRs c i = Some pdr}"

definition indexed :: "Session_sgwu \<Rightarrow> nat \<Rightarrow> 16 word set \<Rightarrow> (tunnelKey_sgwu \<rightharpoonup> PacketRule_sgwu) \<Rightarrow>
    (tunnelKey_sgwu \<rightharpoonup> PacketRule_sgwu) \<Rightarrow> bool" where
  "indexed c g ids old new \<longleftrightarrow>
     (\<forall>k. if k \<in> keys_of c ids then \<exists>r. new k = Some r \<and> best c g ids k r else new k = old k)"

lemma best_insert_other:
  "best c g ids k r \<Longrightarrow> su_PDRs c i = Some pdr \<Longrightarrow> tunnelKey pdr \<noteq> k \<Longrightarrow> best c g (insert i ids) k r"
  by (auto simp: best_def)

lemma best_insert_keep:
  "best c g ids k r \<Longrightarrow> su_PDRs c i = Some pdr \<Longrightarrow> \<not> pdr_Precedence (pr_PDR r) > pdr_Precedence pdr \<Longrightarrow>
    best c g (insert i ids) k r"
  by (auto simp: best_def not_less)

lemma best_insert_new:
  assumes "rule_of c g i = Some r" "tunnelKey (pr_PDR r) = k"
    and "k \<in> keys_of c ids \<Longrightarrow> best c g ids k r0 \<and> pdr_Precedence (pr_PDR r0) > pdr_Precedence (pr_PDR r)"
  shows "best c g (insert i ids) k r"
  using assms rule_of_fields(1)[OF assms(1)] unfolding best_def keys_of_def
  by (auto dest: less_imp_le) (metis (lifting) less_imp_le order_trans)

lemma index_PDR_indexed:
  assumes c: "valid_sgwu c" "su_PDRs c i = Some pdr"
    and ix: "indexed c g ids old (us_byTunnel s)" and fresh: "\<And>k. k \<in> keys_of c {i} \<Longrightarrow> old k = None"
  shows "indexed c g (insert i ids) old (us_byTunnel (index_PDR c g pdr s))"
proof -
  obtain r where r: "rule_of c g i = Some r" "pr_PDR r = pdr" using rule_of_exists[OF c] by blast
  then obtain r0 where r0: "compilePacketRule c (pdr_ID pdr) = Some r0" "r = r0\<lparr>pr_generation := Some g\<rparr>"
    using valid_PDR(1)[OF c] by (auto simp: rule_of_def)
  let ?k = "tunnelKey pdr"
  have keys: "keys_of c (insert i ids) = insert ?k (keys_of c ids)" using c(2) by (auto simp: keys_of_def)
  have old: "?k \<notin> keys_of c ids \<Longrightarrow> us_byTunnel s ?k = None"
    using spec[OF ix[unfolded indexed_def], of ?k] fresh[of ?k] c(2) by (simp add: keys_of_def)
  have other: "us_byTunnel (index_PDR c g pdr s) k = us_byTunnel s k" if "k \<noteq> ?k" for k
    using that by (auto simp: index_PDR_eq r0 Let_def split: option.splits)
  have here: "\<exists>x. us_byTunnel (index_PDR c g pdr s) ?k = Some x \<and> best c g (insert i ids) ?k x"
  proof (cases "us_byTunnel s ?k")
    case None
    then have "?k \<notin> keys_of c ids" using spec[OF ix[unfolded indexed_def], of ?k] by (simp split: if_splits)
    with None r r0 show ?thesis by (auto simp: index_PDR_eq Let_def intro!: best_insert_new)
  next
    case (Some x)
    then have b: "best c g ids ?k x"
      using old spec[OF ix[unfolded indexed_def], of ?k] by (simp split: if_splits)
    show ?thesis
    proof (cases "pdr_Precedence (pr_PDR x) > pdr_Precedence pdr")
      case True
      then have "best c g (insert i ids) ?k r"
        by (intro best_insert_new[OF r(1), of _ _ x]) (use b r in auto)
      with True Some r0 show ?thesis by (auto simp: index_PDR_eq Let_def)
    next
      case False
      with b c(2) have "best c g (insert i ids) ?k x" by (intro best_insert_keep)
      with False Some r0 show ?thesis by (auto simp: index_PDR_eq Let_def)
    qed
  qed
  have "if k \<in> keys_of c (insert i ids)
      then \<exists>x. us_byTunnel (index_PDR c g pdr s) k = Some x \<and> best c g (insert i ids) k x
      else us_byTunnel (index_PDR c g pdr s) k = old k" for k
  proof (cases "k = ?k")
    case True
    then show ?thesis using here by (simp add: keys)
  next
    case False
    then show ?thesis
      using spec[OF ix[unfolded indexed_def], of k] other[OF False] best_insert_other[OF _ c(2), of g ids k] False
      by (auto simp: keys split: if_splits)
  qed
  then show ?thesis by (simp add: indexed_def)
qed

lemma indexSession_indexed:
  assumes "valid_sgwu c" "indexed c g ids old (us_byTunnel s)" "set order \<subseteq> dom (su_PDRs c)"
    and "\<And>k. k \<in> keys_of c (set order) \<Longrightarrow> old k = None"
  shows "indexed c g (ids \<union> set order) old (us_byTunnel (indexSession order c g s))"
  using assms
proof (induction order arbitrary: s ids)
  case (Cons i order)
  then obtain pdr where pdr: "su_PDRs c i = Some pdr" by auto
  have "keys_of c {i} \<subseteq> keys_of c (set (i # order))" "keys_of c (set order) \<subseteq> keys_of c (set (i # order))"
    unfolding keys_of_def by auto
  then have fresh: "\<And>k. k \<in> keys_of c {i} \<Longrightarrow> old k = None" "\<And>k. k \<in> keys_of c (set order) \<Longrightarrow> old k = None"
    using Cons.prems(4) by blast+
  have "indexed c g (insert i ids) old (us_byTunnel (index_PDR c g pdr s))"
    using Cons.prems pdr fresh(1) by (intro index_PDR_indexed)
  then have "indexed c g (insert i ids \<union> set order) old
      (us_byTunnel (indexSession order c g (index_PDR c g pdr s)))"
    using Cons.prems fresh(2) by (intro Cons.IH) auto
  with pdr show ?case by simp
qed simp

lemma indexSession_byPDR:
  assumes "valid_sgwu c" "set order \<subseteq> dom (su_PDRs c)"
  shows "us_byPDR (indexSession order c g s) =
    (\<lambda>(u, i). if u = su_UPSEID c \<and> i \<in> set order then rule_of c g i else us_byPDR s (u, i))"
  using assms(2)
proof (induction order arbitrary: s)
  case (Cons i order)
  then obtain pdr where pdr: "su_PDRs c i = Some pdr" by auto
  obtain r where r: "rule_of c g i = Some r" using rule_of_exists[OF assms(1) pdr] by blast
  have "us_byPDR (index_PDR c g pdr s) = (us_byPDR s)((su_UPSEID c, i) \<mapsto> r)"
    using r valid_PDR(1)[OF assms(1) pdr]
    by (auto simp: index_PDR_eq rule_of_def Let_def split: option.splits)
  with Cons pdr r show ?case by (auto simp: fun_eq_iff)
qed auto

lemma unindexSession_byPDR:
  assumes "valid_sgwu c" "set order \<subseteq> dom (su_PDRs c)"
  shows "us_byPDR (unindexSession order c s) =
    (\<lambda>(u, i). if u = su_UPSEID c \<and> i \<in> set order then None else us_byPDR s (u, i))"
  using assms(2)
proof (induction order arbitrary: s)
  case (Cons i order)
  then obtain pdr where pdr: "su_PDRs c i = Some pdr" by auto
  have "us_byPDR (unindex_PDR c pdr s) = (us_byPDR s)((su_UPSEID c, i) := None)"
    using valid_PDR(1)[OF assms(1) pdr] by (auto simp: unindex_PDR_eq Let_def split: option.splits)
  with Cons pdr show ?case by (auto simp: fun_eq_iff)
qed auto

lemma unindexSession_byTunnel:
  assumes "set order \<subseteq> dom (su_PDRs c)"
  shows "us_byTunnel (unindexSession order c s) k =
    (case us_byTunnel s k of None \<Rightarrow> None
     | Some r \<Rightarrow> if k \<in> keys_of c (set order) \<and> pr_UPSEID r = su_UPSEID c then None else Some r)"
  using assms
proof (induction order arbitrary: s)
  case Nil
  then show ?case by (auto simp: keys_of_def split: option.splits)
next
  case (Cons i order)
  then obtain pdr where pdr: "su_PDRs c i = Some pdr" by auto
  have keys: "keys_of c (set (i # order)) = insert (tunnelKey pdr) (keys_of c (set order))"
    using pdr by (auto simp: keys_of_def)
  have "us_byTunnel (unindex_PDR c pdr s) k = (case us_byTunnel s k of None \<Rightarrow> None
      | Some r \<Rightarrow> if k = tunnelKey pdr \<and> pr_UPSEID r = su_UPSEID c then None else Some r)"
    by (auto simp: unindex_PDR_eq Let_def split: option.splits)
  with Cons pdr show ?case unfolding keys by (auto split: option.splits)
qed

section \<open>The invariant\<close>

text \<open>The packet-path indexes hold exactly the compiled rules of the stored sessions, in their current
  generation, which is active; for a tunnel the rule with the least precedence value is kept.\<close>

definition tunnels_ok :: "Store_sgwu \<Rightarrow> bool" where
  "tunnels_ok s \<longleftrightarrow>
     (\<forall>u x k. us_byUP s u = Some x \<and> k \<in> keys_of x UNIV \<longrightarrow>
        (\<exists>r. us_byTunnel s k = Some r \<and> best x (the (us_generations s u)) UNIV k r)) \<and>
     (\<forall>k r. us_byTunnel s k = Some r \<longrightarrow> (\<exists>x. us_byUP s (pr_UPSEID r) = Some x \<and> k \<in> keys_of x UNIV))"

definition generations_ok :: "Store_sgwu \<Rightarrow> bool" where
  "generations_ok s \<longleftrightarrow> dom (us_generations s) = dom (us_byUP s) \<and>
     (\<forall>u g. us_generations s u = Some g \<longrightarrow> us_active s g \<and> g < us_heap s) \<and>
     (\<forall>u v g. us_generations s u = Some g \<and> us_generations s v = Some g \<longrightarrow> u = v)"

definition pdrs_ok :: "Store_sgwu \<Rightarrow> bool" where
  "pdrs_ok s \<longleftrightarrow> (\<forall>u i. us_byPDR s (u, i) =
     (case us_byUP s u of None \<Rightarrow> None | Some x \<Rightarrow> rule_of x (the (us_generations s u)) i))"

definition sessions_ok :: "Store_sgwu \<Rightarrow> bool" where
  "sessions_ok s \<longleftrightarrow> (\<forall>u x. us_byUP s u = Some x \<longrightarrow> su_UPSEID x = u \<and> valid_sgwu x)"

definition rules_core :: "Store_sgwu \<Rightarrow> bool" where
  "rules_core s \<longleftrightarrow> sessions_ok s \<and> generations_ok s \<and> pdrs_ok s \<and> tunnels_ok s"

definition rules_ok :: "Store_sgwu \<Rightarrow> bool" where
  "rules_ok s \<longleftrightarrow> rules_core s \<and> index_ok (\<lambda>x. {su_CPSEID x}) (us_byUP s) (us_byCP s) \<and>
     0 < us_max s \<and> int (card (dom (us_byUP s))) \<le> us_max s"

lemma tunnels_okD1: "tunnels_ok s \<Longrightarrow> us_byUP s u = Some x \<Longrightarrow> k \<in> keys_of x UNIV \<Longrightarrow>
    \<exists>r. us_byTunnel s k = Some r \<and> best x (the (us_generations s u)) UNIV k r"
  and tunnels_okD2: "tunnels_ok s \<Longrightarrow> us_byTunnel s k = Some r \<Longrightarrow>
    \<exists>x. us_byUP s (pr_UPSEID r) = Some x \<and> k \<in> keys_of x UNIV"
  unfolding tunnels_ok_def by blast+

lemma best_UPSEID: "best x g ids k r \<Longrightarrow> pr_UPSEID r = su_UPSEID x"
  using rule_of_fields(3) by (auto simp: best_def)

lemma keys_of_dom: "dom (su_PDRs c) \<subseteq> ids \<Longrightarrow> keys_of c ids = keys_of c UNIV"
  by (auto simp: keys_of_def)

lemma rule_of_None: "su_PDRs c i = None \<Longrightarrow> rule_of c g i = None"
  by (simp add: rule_of_def compilePacketRule_def)

lemma best_dom: "best c g (dom (su_PDRs c)) k r = best c g UNIV k r"
proof -
  have "(\<exists>i\<in>dom (su_PDRs c). rule_of c g i = Some r) = (\<exists>i\<in>UNIV. rule_of c g i = Some r)"
    using rule_of_fields(1) by blast
  moreover have "(\<forall>j\<in>dom (su_PDRs c). \<forall>q. su_PDRs c j = Some q \<and> tunnelKey q = k \<longrightarrow> P q)
      = (\<forall>j\<in>UNIV. \<forall>q. su_PDRs c j = Some q \<and> tunnelKey q = k \<longrightarrow> P q)" for P
    by blast
  ultimately show ?thesis unfolding best_def by presburger
qed

text \<open>The store without one of its sessions, whose rules have been unindexed.\<close>

definition forget :: "64 word \<Rightarrow> Store_sgwu \<Rightarrow> Store_sgwu" where
  "forget u s = s\<lparr>us_byUP := (us_byUP s)(u := None), us_generations := (us_generations s)(u := None)\<rparr>"

lemma tunnel_owner:
  assumes "rules_core s" "us_byUP s v = Some x" "k \<in> keys_of x UNIV"
  obtains r where "us_byTunnel s k = Some r" "pr_UPSEID r = v" "best x (the (us_generations s v)) UNIV k r"
  using tunnels_okD1[of s v x k] assms best_UPSEID unfolding rules_core_def sessions_ok_def by fastforce

lemma active_deactivate:
  "us_active (deactivate u s) g = (us_active s g \<and> us_generations s u \<noteq> Some g)"
  by (auto simp: deactivate_def split: option.splits)

lemma remove_core:
  assumes core: "rules_core s" and c: "us_byUP s u = Some c" and order: "set order = dom (su_PDRs c)"
  shows "rules_core (forget u (unindexSession order c (deactivate u s)))"
proof -
  let ?s = "forget u (unindexSession order c (deactivate u s))"
  have cu: "su_UPSEID c = u" "valid_sgwu c" using core c by (auto simp: rules_core_def sessions_ok_def)
  have sess: "sessions_ok ?s" using core by (auto simp: rules_core_def sessions_ok_def forget_def)
  have gens: "generations_ok ?s"
    using core by (auto simp: rules_core_def generations_ok_def forget_def active_deactivate)
  have byPDR: "us_byPDR ?s (v, i) = (if v = u \<and> i \<in> set order then None else us_byPDR s (v, i))" for v i
    using unindexSession_byPDR[OF cu(2), of order "deactivate u s"] order cu(1) by (simp add: forget_def)
  have old: "us_byPDR s (v, i) = (case us_byUP s v of None \<Rightarrow> None
      | Some x \<Rightarrow> rule_of x (the (us_generations s v)) i)" for v i
    using core by (simp add: rules_core_def pdrs_ok_def)
  have pdrs: "pdrs_ok ?s"
    unfolding pdrs_ok_def
  proof (intro allI)
    fix v i
    have "i \<notin> set order \<Longrightarrow> rule_of c g i = None" for g using order rule_of_None by blast
    then show "us_byPDR ?s (v, i) = (case us_byUP ?s v of None \<Rightarrow> None
        | Some x \<Rightarrow> rule_of x (the (us_generations ?s v)) i)"
      unfolding byPDR old by (cases "v = u"; cases "us_byUP s v") (simp_all add: forget_def c)
  qed
  have keys: "keys_of c (set order) = keys_of c UNIV" by (rule keys_of_dom) (simp add: order)
  have tun: "us_byTunnel ?s k = (case us_byTunnel s k of None \<Rightarrow> None
      | Some r \<Rightarrow> if k \<in> keys_of c UNIV \<and> pr_UPSEID r = u then None else Some r)" for k
    using unindexSession_byTunnel[of order c "deactivate u s" k] order by (simp add: forget_def keys[unfolded order] cu(1) split: option.split)
  have "tunnels_ok ?s"
    unfolding tunnels_ok_def
  proof (intro conjI allI impI)
    fix v x k
    assume "us_byUP ?s v = Some x \<and> k \<in> keys_of x UNIV"
    then have v: "v \<noteq> u" "us_byUP s v = Some x" "k \<in> keys_of x UNIV" by (auto simp: forget_def split: if_splits)
    from core v(2,3) obtain r where "us_byTunnel s k = Some r" "pr_UPSEID r = v"
      "best x (the (us_generations s v)) UNIV k r" by (rule tunnel_owner)
    with v(1) show "\<exists>r. us_byTunnel ?s k = Some r \<and> best x (the (us_generations ?s v)) UNIV k r"
      by (simp add: tun) (simp add: forget_def)
  next
    fix k r
    assume "us_byTunnel ?s k = Some r"
    then have r: "us_byTunnel s k = Some r" "\<not> (k \<in> keys_of c UNIV \<and> pr_UPSEID r = u)"
      by (auto simp: tun split: option.splits if_splits)
    obtain x where x: "us_byUP s (pr_UPSEID r) = Some x" "k \<in> keys_of x UNIV"
      using tunnels_okD2[OF _ r(1)] core by (auto simp: rules_core_def)
    with r(2) c have "pr_UPSEID r \<noteq> u" by auto
    with x show "\<exists>x. us_byUP ?s (pr_UPSEID r) = Some x \<and> k \<in> keys_of x UNIV" by (simp add: forget_def)
  qed
  with sess gens pdrs show ?thesis by (simp add: rules_core_def)
qed

lemma install_fields:
  fixes s :: Store_sgwu and c :: Session_sgwu
  defines "g \<equiv> us_heap s"
  defines "s0 \<equiv> s\<lparr>us_byUP := (us_byUP s)(su_UPSEID c \<mapsto> c), us_heap := Suc g, us_active := (us_active s)(g := False)\<rparr>"
  shows "us_byUP (install order c s) = (us_byUP s)(su_UPSEID c \<mapsto> c)"
    "us_byCP (install order c s) = us_byCP s" "us_max (install order c s) = us_max s"
    "us_generations (install order c s) = (us_generations s)(su_UPSEID c \<mapsto> g)"
    "us_active (install order c s) = (us_active s)(g := True)" "us_heap (install order c s) = Suc g"
    "us_byTunnel (install order c s) = us_byTunnel (indexSession order c g s0)"
    "us_byPDR (install order c s) = us_byPDR (indexSession order c g s0)"
    "us_installed (install order c s) = us_installed s" "us_removed (install order c s) = us_removed s"
  by (simp_all add: install_eq g_def s0_def Let_def)

lemma install_core:
  assumes core: "rules_core (forget u s)" and c: "valid_sgwu c" "su_UPSEID c = u"
    and order: "set order = dom (su_PDRs c)" and free: "\<And>k. k \<in> keys_of c UNIV \<Longrightarrow> us_byTunnel s k = None"
  shows "rules_core (install order c s)"
proof -
  let ?g = "us_heap s" and ?s = "install order c s"
  note f = install_fields[where c = c and s = s and order = order, unfolded c(2)]
  have keys: "keys_of c (set order) = keys_of c UNIV" by (rule keys_of_dom) (simp add: order)
  have below: "us_generations s v = Some g' \<Longrightarrow> v \<noteq> u \<Longrightarrow> g' < ?g \<and> us_active s g'" for v g'
    using core by (auto simp: rules_core_def generations_ok_def forget_def split: if_splits)
  have sess: "sessions_ok ?s" using core c by (auto simp: rules_core_def sessions_ok_def forget_def f split: if_splits)
  have gs: "dom (us_generations s) - {u} = dom (us_byUP s) - {u}"
    using core by (simp add: rules_core_def generations_ok_def forget_def)
  have inj0: "v = v'" if "us_generations s v = Some g'" "us_generations s v' = Some g'" "v \<noteq> u" "v' \<noteq> u" for v v' g'
  proof -
    have "us_generations (forget u s) v = Some g'" "us_generations (forget u s) v' = Some g'"
      using that by (simp_all add: forget_def)
    then show ?thesis using core unfolding rules_core_def generations_ok_def by blast
  qed
  have inj: "v = v'" if "us_generations ?s v = Some g'" "us_generations ?s v' = Some g'" for v v' g'
    using that inj0[of v g' v'] below[of v g'] below[of v' g'] by (simp add: f split: if_splits)
  have dm: "dom (us_generations ?s) = dom (us_byUP ?s)" using gs by (auto simp: f)
  have live: "us_active ?s g' \<and> g' < us_heap ?s" if "us_generations ?s v = Some g'" for v g'
    using that below[of v g'] by (auto simp: f split: if_splits)
  have gens: "generations_ok ?s" using dm live inj unfolding generations_ok_def by blast
  have byPDR: "us_byPDR ?s (v, i) = (if v = u \<and> i \<in> set order then rule_of c ?g i else us_byPDR s (v, i))" for v i
    using indexSession_byPDR[OF c(1), of order ?g] order c(2) by (simp add: f)
  have old: "us_byPDR s (v, i) = (case us_byUP (forget u s) v of None \<Rightarrow> None
      | Some x \<Rightarrow> rule_of x (the (us_generations (forget u s) v)) i)" for v i
    using core unfolding rules_core_def pdrs_ok_def by (simp add: forget_def)
  have pdrs: "pdrs_ok ?s"
    unfolding pdrs_ok_def
  proof (intro allI)
    fix v i
    have "i \<notin> set order \<Longrightarrow> rule_of c ?g i = None" using order rule_of_None by blast
    then show "us_byPDR ?s (v, i) = (case us_byUP ?s v of None \<Rightarrow> None
        | Some x \<Rightarrow> rule_of x (the (us_generations ?s v)) i)"
      unfolding byPDR old by (cases "v = u"; cases "us_byUP s v") (simp_all add: forget_def f)
  qed
  have "indexed c ?g ({} \<union> set order) (us_byTunnel s) (us_byTunnel ?s)"
    unfolding f(7) using order c(1) free
    by (intro indexSession_indexed) (simp_all add: keys[unfolded order] indexed_def, simp add: keys_of_def)
  note ix0 = this[unfolded indexed_def Un_empty_left keys order best_dom]
  have ix: "if k \<in> keys_of c UNIV then \<exists>r. us_byTunnel ?s k = Some r \<and> best c ?g UNIV k r
      else us_byTunnel ?s k = us_byTunnel s k" for k
    using spec[OF ix0, of k] by (simp only: keys[unfolded order])
  have "tunnels_ok ?s"
    unfolding tunnels_ok_def
  proof (intro conjI allI impI)
    fix v x k
    assume a: "us_byUP ?s v = Some x \<and> k \<in> keys_of x UNIV"
    show "\<exists>r. us_byTunnel ?s k = Some r \<and> best x (the (us_generations ?s v)) UNIV k r"
    proof (cases "v = u")
      case True
      then have "the (us_generations ?s v) = ?g" by (simp add: f)
      moreover have "x = c" using a True by (simp add: f)
      ultimately show ?thesis using a ix[of k] by simp
    next
      case False
      then have v: "us_byUP (forget u s) v = Some x" using a by (auto simp: f forget_def)
      from tunnel_owner[OF core v, of k] a obtain r where
        r: "us_byTunnel s k = Some r" "best x (the (us_generations s v)) UNIV k r"
        using False by (auto simp: forget_def)
      then have "k \<notin> keys_of c UNIV" using free[of k] by (cases "k \<in> keys_of c UNIV") simp_all
      moreover have "us_generations ?s v = us_generations s v" using False by (simp add: f)
      ultimately show ?thesis using r ix[of k] by simp
    qed
  next
    fix k r
    assume r: "us_byTunnel ?s k = Some r"
    show "\<exists>x. us_byUP ?s (pr_UPSEID r) = Some x \<and> k \<in> keys_of x UNIV"
    proof (cases "k \<in> keys_of c UNIV")
      case True
      then have "pr_UPSEID r = u" using ix[of k] r best_UPSEID c(2) by fastforce
      with True show ?thesis by (simp add: f)
    next
      case False
      then have "us_byTunnel (forget u s) k = Some r" using ix[of k] r by (simp add: forget_def)
      then obtain x where "us_byUP (forget u s) (pr_UPSEID r) = Some x" "k \<in> keys_of x UNIV"
        using core tunnels_okD2[of "forget u s" k r] unfolding rules_core_def by blast
      then show ?thesis by (auto simp: f forget_def split: if_splits)
    qed
  qed
  with sess gens pdrs show ?thesis by (simp add: rules_core_def)
qed

section \<open>Every operation keeps the invariant\<close>

lemma checkTunnelConflicts_Ok:
  assumes "checkTunnelConflicts c u s = Ok x" "k \<in> keys_of c UNIV" "us_byTunnel s k = Some r"
  shows "pr_UPSEID r = u"
  using assms by (fastforce simp: checkTunnelConflicts_def map_ex_def tunnelConflict_def keys_of_def split: if_splits)

lemma rules_ok_core: "rules_ok s \<Longrightarrow> rules_core s"
  by (simp add: rules_ok_def)

lemma stored_session: "rules_ok s \<Longrightarrow> us_byUP s u = Some x \<Longrightarrow> su_UPSEID x = u \<and> valid_sgwu x"
  by (simp add: rules_ok_def rules_core_def sessions_ok_def)

lemma forget_absent: "us_byUP s u = None \<Longrightarrow> rules_core s \<Longrightarrow> forget u s = s"
proof -
  assume a: "us_byUP s u = None" "rules_core s"
  then have "us_generations s u = None" by (auto simp: rules_core_def generations_ok_def)
  with a(1) have "(us_byUP s)(u := None) = us_byUP s" "(us_generations s)(u := None) = us_generations s"
    by auto
  then show ?thesis by (simp add: forget_def)
qed

lemma rules_core_byCP [simp]: "rules_core (s\<lparr>us_byCP := m\<rparr>) = rules_core s"
    "rules_core (s\<lparr>us_installed := n\<rparr>) = rules_core s" "rules_core (s\<lparr>us_removed := n\<rparr>) = rules_core s"
  by (simp_all add: rules_core_def sessions_ok_def generations_ok_def pdrs_ok_def tunnels_ok_def
      cong: option.case_cong)

lemma Create_sgwu_cases:
  assumes "Create_sgwu order c s = (res, s')"
  obtains (refused) e where "res = Err e" "s' = s"
  | (created) "res = Ok (c\<lparr>su_Revision := 1\<rparr>)" "valid_sgwu c" "us_byUP s (su_UPSEID c) = None"
      "us_byCP s (su_CPSEID c) = None" "checkTunnelConflicts c 0 s = Ok ()"
      "int (card (dom (us_byUP s))) < us_max s"
      "s' = install order (c\<lparr>su_Revision := 1\<rparr>) (s\<lparr>us_byCP := (us_byCP s)(su_CPSEID c \<mapsto> su_UPSEID c)\<rparr>)
         \<lparr>us_installed := us_installed s + 1\<rparr>"
proof -
  have "checkTunnelConflicts c 0 s = Ok () \<or> (\<exists>e. checkTunnelConflicts c 0 s = Err e)"
    by (simp add: checkTunnelConflicts_def)
  then show thesis
    using assms validate_sgwu_cases[of c] refused created
    by (auto simp: Create_sgwu_def valid_sgwu_def Let_def not_le install_fields split: if_splits)
qed

lemma valid_Revision [simp]: "valid_sgwu (c\<lparr>su_Revision := n\<rparr>) = valid_sgwu c"
proof -
  have "malformed_PDR (c\<lparr>su_Revision := n\<rparr>) = malformed_PDR c" "malformed_FAR (c\<lparr>su_Revision := n\<rparr>) = malformed_FAR c"
    by (simp_all add: fun_eq_iff malformed_PDR_def malformed_FAR_def)
  then show ?thesis by (simp add: valid_sgwu_def validate_sgwu_def)
qed

lemma checkTunnelConflicts_Revision [simp]:
  "checkTunnelConflicts (c\<lparr>su_Revision := n\<rparr>) u s = checkTunnelConflicts c u s"
  by (simp add: checkTunnelConflicts_def)

lemma checks_cases:
  "checkTunnelConflicts c u s = Ok () \<or> checkTunnelConflicts c u s = Err ErrDuplicate_sgwu"
  by (simp add: checkTunnelConflicts_def)

lemma Update_sgwu_cases:
  assumes "Update_sgwu order0 order u rv mutate s = (res, s')"
  obtains (refused) e where "res = Err e" "s' = s"
  | (mutation_panics) "res = Panic" "s' = s"
  | (updated) f current nxt where "mutate = Some f" "us_byUP s u = Some current" "su_Revision current = rv"
      "f current = Ok nxt" "su_CPSEID nxt = su_CPSEID current" "su_UPSEID nxt = su_UPSEID current"
      "valid_sgwu nxt" "checkTunnelConflicts nxt u s = Ok ()"
      "res = Ok (nxt\<lparr>su_Revision := su_Revision nxt + 1\<rparr>)"
      "s' = replace_sgwu order0 (order (nxt\<lparr>su_Revision := su_Revision nxt + 1\<rparr>)) current
         (nxt\<lparr>su_Revision := su_Revision nxt + 1\<rparr>) s"
proof (cases mutate)
  case None
  then show thesis using assms refused by (auto simp: Update_sgwu_def)
next
  case mut: (Some f)
  show thesis
  proof (cases "us_byUP s u")
    case None
    then show thesis using assms mut refused by (auto simp: Update_sgwu_def)
  next
    case cur: (Some current)
    show thesis
    proof (cases "f current")
      case (Ok nxt)
      show thesis
      proof (cases "su_Revision current = rv \<and> su_CPSEID nxt = su_CPSEID current \<and> su_UPSEID nxt = su_UPSEID current
          \<and> valid_sgwu nxt \<and> checkTunnelConflicts nxt u s = Ok ()")
        case True
        then have "res = Ok (nxt\<lparr>su_Revision := su_Revision nxt + 1\<rparr>)"
          "s' = replace_sgwu order0 (order (nxt\<lparr>su_Revision := su_Revision nxt + 1\<rparr>)) current
             (nxt\<lparr>su_Revision := su_Revision nxt + 1\<rparr>) s"
          using assms mut cur Ok by (simp_all add: Update_sgwu_def valid_sgwu_def Let_def)
        with True mut cur Ok show thesis by (intro updated[of f current nxt]) simp_all
      next
        case False
        then have "(\<exists>e. res = Err e) \<and> s' = s"
          using assms mut cur Ok validate_sgwu_cases[of nxt] checks_cases[of nxt u s]
          by (auto simp: Update_sgwu_def valid_sgwu_def split: if_splits)
        then show thesis using refused by blast
      qed
    next
      case (Err e)
      then have "(\<exists>e. res = Err e) \<and> s' = s" using assms mut cur
        by (cases "su_Revision current = rv") (simp_all add: Update_sgwu_def, metis+)
      then show thesis using refused by blast
    next
      case Panic
      then have "(\<exists>e. res = Err e) \<and> s' = s \<or> res = Panic \<and> s' = s"
        using assms mut cur by (auto simp: Update_sgwu_def split: if_splits)
      then show thesis using refused mutation_panics by blast
    qed
  qed
qed

lemma Reconcile_sgwu_cases:
  assumes "Reconcile_sgwu order0 order cp c s = (res, s')" "rules_ok s"
  obtains (refused) e where "res = Err e" "s' = s"
  | (unchanged) u current where "us_byCP s cp = Some u" "us_byUP s u = Some current" "res = Ok current" "s' = s"
      "c\<lparr>su_UPSEID := u, su_Revision := su_Revision current\<rparr> = current"
  | (replaced) u current where "us_byCP s cp = Some u" "us_byUP s u = Some current" "su_CPSEID c = cp"
      "su_CPSEID current = cp" "valid_sgwu (c\<lparr>su_UPSEID := u\<rparr>)"
      "checkTunnelConflicts (c\<lparr>su_UPSEID := u\<rparr>) u s = Ok ()"
      "res = Ok (c\<lparr>su_UPSEID := u, su_Revision := su_Revision current + 1\<rparr>)"
      "s' = replace_sgwu order0 order current (c\<lparr>su_UPSEID := u, su_Revision := su_Revision current + 1\<rparr>) s"
proof (cases "cp = 0 \<or> su_CPSEID c \<noteq> cp \<or> us_byCP s cp = None")
  case True
  then show thesis using assms refused by (auto simp: Reconcile_sgwu_def split: if_splits)
next
  case False
  then obtain u where u: "us_byCP s cp = Some u" by auto
  obtain current where cur: "us_byUP s u = Some current" "su_CPSEID current = cp"
    using u assms(2) index_okD[of _ "us_byUP s" "us_byCP s" cp u] by (auto simp: rules_ok_def)
  let ?c = "c\<lparr>su_UPSEID := u\<rparr>"
  show thesis
  proof (cases "valid_sgwu ?c \<and> checkTunnelConflicts ?c u s = Ok ()")
    case ok: True
    show thesis
    proof (cases "c\<lparr>su_UPSEID := u, su_Revision := su_Revision current\<rparr> = current")
      case True
      then have "res = Ok current \<and> s' = s"
        using assms(1) False u cur ok by (simp add: Reconcile_sgwu_def valid_sgwu_def Let_def)
      with True u cur show thesis by (intro unchanged[of u current]) simp_all
    next
      case ne: False
      then have "res = Ok (c\<lparr>su_UPSEID := u, su_Revision := su_Revision current + 1\<rparr>)"
        "s' = replace_sgwu order0 order current (c\<lparr>su_UPSEID := u, su_Revision := su_Revision current + 1\<rparr>) s"
        using assms(1) False u cur ok by (simp_all add: Reconcile_sgwu_def valid_sgwu_def Let_def)
      with False u cur ok show thesis by (intro replaced[of u current]) simp_all
    qed
  next
    case False': False
    then have "(\<exists>e. res = Err e) \<and> s' = s"
      using assms(1) False u validate_sgwu_cases[of ?c] checks_cases[of ?c u s]
      by (auto simp: Reconcile_sgwu_def valid_sgwu_def Let_def)
    then show thesis using refused by blast
  qed
qed

lemma replace_ok:
  assumes ok: "rules_ok s" and cur: "us_byUP s (su_UPSEID c) = Some current" "su_CPSEID c = su_CPSEID current"
    and c: "valid_sgwu c" "checkTunnelConflicts c (su_UPSEID c) s = Ok ()"
    and order: "set order0 = dom (su_PDRs current)" "set order = dom (su_PDRs c)"
  shows "rules_ok (replace_sgwu order0 order current c s)"
proof -
  let ?u = "su_UPSEID c" and ?s = "unindexSession order0 current (deactivate (su_UPSEID c) s)"
  note core = rules_ok_core[OF ok]
  have "us_byTunnel ?s k = None" if k: "k \<in> keys_of c UNIV" for k
  proof (cases "us_byTunnel s k")
    case None
    then show ?thesis using unindexSession_byTunnel[of order0 current "deactivate ?u s" k] order by simp
  next
    case (Some r)
    then have r: "pr_UPSEID r = ?u" using checkTunnelConflicts_Ok[OF c(2) k] by simp
    with Some core obtain x where "us_byUP s ?u = Some x" "k \<in> keys_of x UNIV"
      using tunnels_okD2[of s k r] by (auto simp: rules_core_def)
    with cur(1) have "k \<in> keys_of current UNIV" by simp
    moreover have "keys_of current (set order0) = keys_of current UNIV" by (rule keys_of_dom) (simp add: order)
    ultimately show ?thesis
      using unindexSession_byTunnel[of order0 current "deactivate ?u s" k] order Some r
        stored_session[OF ok cur(1)] by simp
  qed
  then have "rules_core (install order c ?s)"
    using remove_core[OF core cur(1) order(1)] c(1) order(2) by (intro install_core) auto
  moreover have "index_ok (\<lambda>x. {su_CPSEID x}) ((us_byUP s)(?u \<mapsto> c)) (us_byCP s)"
    using ok cur by (intro index_ok_update_same[of _ _ _ ?u current]) (auto simp: rules_ok_def)
  moreover have "dom ((us_byUP s)(?u \<mapsto> c)) = dom (us_byUP s)" using cur(1) by auto
  ultimately show ?thesis
    using ok by (simp add: rules_ok_def replace_eq install_fields)
qed

lemma Create_ok:
  assumes "rules_ok s" "set order = dom (su_PDRs c)"
  shows "rules_ok (snd (Create_sgwu order c s))"
proof (cases "Create_sgwu order c s")
  case (Pair res s')
  then show ?thesis
  proof (cases rule: Create_sgwu_cases)
    case (refused e)
    with Pair assms show ?thesis by simp
  next
    case created
    let ?c = "c\<lparr>su_Revision := 1\<rparr>" and ?s = "s\<lparr>us_byCP := (us_byCP s)(su_CPSEID c \<mapsto> su_UPSEID c)\<rparr>"
    note core = rules_ok_core[OF assms(1)]
    have free: "us_byTunnel s k = None" if "k \<in> keys_of ?c UNIV" for k
    proof (rule ccontr)
      assume "us_byTunnel s k \<noteq> None"
      then obtain r where r: "us_byTunnel s k = Some r" by auto
      have "pr_UPSEID r = 0" using checkTunnelConflicts_Ok[OF created(5) _ r] that by (simp add: keys_of_def)
      with r core obtain x where "us_byUP s 0 = Some x" using tunnels_okD2[of s k r] by (auto simp: rules_core_def)
      then show False using stored_session[OF assms(1)] valid_SEIDs by fastforce
    qed
    have "rules_core (forget (su_UPSEID c) ?s)"
      using core forget_absent[of ?s "su_UPSEID c"] created(3) by simp
    then have "rules_core (install order ?c ?s)"
      using created assms(2) free by (intro install_core[of "su_UPSEID c"]) auto
    moreover have "index_ok (\<lambda>x. {su_CPSEID x}) ((us_byUP s)(su_UPSEID c \<mapsto> ?c)) ((us_byCP s)(su_CPSEID c \<mapsto> su_UPSEID c))"
      using assms(1) created(3,4) index_ok_insert[of "\<lambda>x. {su_CPSEID x}" "us_byUP s" "us_byCP s" "su_UPSEID c" ?c]
      by (simp add: rules_ok_def index_put_singleton)
    moreover have "card (dom ((us_byUP s)(su_UPSEID c \<mapsto> ?c))) = Suc (card (dom (us_byUP s)))"
      using created(3) by (simp add: domIff)
    ultimately show ?thesis
      using Pair created(6,7) assms(1) by (simp add: rules_ok_def install_fields)
  qed
qed

lemma unindex_commute:
  "unindexSession order c (deactivate u (s\<lparr>us_byUP := m, us_byCP := m'\<rparr>))
     = (unindexSession order c (deactivate u s))\<lparr>us_byUP := m, us_byCP := m'\<rparr>"
proof -
  have "unindexSession order c (t\<lparr>us_byUP := m, us_byCP := m'\<rparr>)
      = (unindexSession order c t)\<lparr>us_byUP := m, us_byCP := m'\<rparr>" for t
  proof (induction order arbitrary: t)
    case (Cons i order)
    have "unindex_PDR c p (t\<lparr>us_byUP := m, us_byCP := m'\<rparr>) = (unindex_PDR c p t)\<lparr>us_byUP := m, us_byCP := m'\<rparr>" for p
      by (cases t) (auto simp: unindex_PDR_eq Let_def split: option.split)
    with Cons show ?case by (simp split: option.split)
  qed simp
  moreover have "deactivate u (s\<lparr>us_byUP := m, us_byCP := m'\<rparr>) = (deactivate u s)\<lparr>us_byUP := m, us_byCP := m'\<rparr>"
    by (auto simp: deactivate_def split: option.split)
  ultimately show ?thesis by simp
qed

lemma forget_commute:
  "s\<lparr>us_byUP := (us_byUP s)(u := None), us_byCP := m', us_generations := (us_generations s)(u := None)\<rparr>
     = (forget u s)\<lparr>us_byCP := m'\<rparr>"
  by (simp add: forget_def)

lemma Delete_sgwu_eq:
  assumes "us_byUP s u = Some current" "su_Revision current = rv"
  shows "Delete_sgwu order0 u rv s = (Ok (), (forget u (unindexSession order0 current (deactivate u s)))
     \<lparr>us_byCP := (us_byCP s)(su_CPSEID current := None), us_removed := us_removed s + 1\<rparr>)"
  using assms by (simp add: Delete_sgwu_def unindex_commute forget_def Let_def)

lemma Delete_ok:
  assumes "rules_ok s" "\<And>x. us_byUP s u = Some x \<Longrightarrow> set order0 = dom (su_PDRs x)"
  shows "rules_ok (snd (Delete_sgwu order0 u rv s))"
proof (cases "us_byUP s u")
  case None
  with assms(1) show ?thesis by (simp add: Delete_sgwu_def)
next
  case (Some current)
  show ?thesis
  proof (cases "su_Revision current = rv")
    case False
    with assms(1) Some show ?thesis by (simp add: Delete_sgwu_def)
  next
    case True
    let ?s = "forget u (unindexSession order0 current (deactivate u s))"
    have core: "rules_core ?s" using remove_core[OF rules_ok_core[OF assms(1)] Some] assms(2)[OF Some] by simp
    have ix: "index_ok (\<lambda>x. {su_CPSEID x}) ((us_byUP s)(u := None)) ((us_byCP s)(su_CPSEID current := None))"
      using assms(1) index_ok_delete[of "\<lambda>x. {su_CPSEID x}" "us_byUP s" "us_byCP s" u current] Some
      by (simp add: rules_ok_def index_drop_singleton)
    have "card (dom ((us_byUP s)(u := None))) \<le> card (dom (us_byUP s))" by (intro card_mono) auto
    then show ?thesis
      using core ix assms(1) Some True
      by (simp add: Delete_sgwu_eq rules_ok_def) (simp add: forget_def)
  qed
qed

section \<open>Reachable stores\<close>

text \<open>\<open>visits order s u\<close>: the order in which Go iterates over the rules of session \<open>u\<close>.\<close>

definition visits :: "16 word list \<Rightarrow> Store_sgwu \<Rightarrow> 64 word \<Rightarrow> bool" where
  "visits order s u \<longleftrightarrow> (\<forall>x. us_byUP s u = Some x \<longrightarrow> set order = dom (su_PDRs x))"

inductive rules_reach :: "int \<Rightarrow> Store_sgwu \<Rightarrow> bool" for n where
  rules_init: "rules_reach n (NewStoreWithLimit_sgwu n)"
| rules_create: "rules_reach n s \<Longrightarrow> set order = dom (su_PDRs c) \<Longrightarrow> rules_reach n (snd (Create_sgwu order c s))"
| rules_update: "rules_reach n s \<Longrightarrow> visits order0 s u \<Longrightarrow> (\<And>x. set (order x) = dom (su_PDRs x)) \<Longrightarrow>
    rules_reach n (snd (Update_sgwu order0 order u rv mutate s))"
| rules_reconcile: "rules_reach n s \<Longrightarrow> (\<And>u. us_byCP s cp = Some u \<Longrightarrow> visits order0 s u) \<Longrightarrow>
    set order = dom (su_PDRs c) \<Longrightarrow> rules_reach n (snd (Reconcile_sgwu order0 order cp c s))"
| rules_delete: "rules_reach n s \<Longrightarrow> visits order0 s u \<Longrightarrow> rules_reach n (snd (Delete_sgwu order0 u rv s))"

lemma NewStore_ok: "rules_ok (NewStoreWithLimit_sgwu n)"
  by (simp add: rules_ok_def rules_core_def sessions_ok_def generations_ok_def pdrs_ok_def tunnels_ok_def
      NewStoreWithLimit_sgwu_def DefaultMaxSessions_sgwu_def)

lemma Update_ok:
  assumes "rules_ok s" "visits order0 s u" "\<And>x. set (order x) = dom (su_PDRs x)"
  shows "rules_ok (snd (Update_sgwu order0 order u rv mutate s))"
proof (cases "Update_sgwu order0 order u rv mutate s")
  case (Pair res s')
  then show ?thesis
  proof (cases rule: Update_sgwu_cases)
    case (updated f current nxt)
    have "su_UPSEID current = u" using stored_session[OF assms(1) updated(2)] by simp
    with updated assms show ?thesis
      unfolding Pair updated(10) snd_conv by (intro replace_ok) (simp_all add: visits_def)
  qed (use Pair assms in simp_all)
qed

lemma Reconcile_ok:
  assumes "rules_ok s" "\<And>u. us_byCP s cp = Some u \<Longrightarrow> visits order0 s u" "set order = dom (su_PDRs c)"
  shows "rules_ok (snd (Reconcile_sgwu order0 order cp c s))"
proof (cases "Reconcile_sgwu order0 order cp c s")
  case (Pair res s')
  from Pair assms(1) show ?thesis
  proof (cases rule: Reconcile_sgwu_cases)
    case (replaced u current)
    have "valid_sgwu (c\<lparr>su_UPSEID := u, su_Revision := su_Revision current + 1\<rparr>)"
      using replaced(5) valid_Revision[where c = "c\<lparr>su_UPSEID := u\<rparr>"] by simp
    moreover have "checkTunnelConflicts (c\<lparr>su_UPSEID := u, su_Revision := su_Revision current + 1\<rparr>) u s = Ok ()"
      using replaced(6) checkTunnelConflicts_Revision[where c = "c\<lparr>su_UPSEID := u\<rparr>"] by simp
    ultimately show ?thesis
      using replaced(1-4) assms unfolding Pair replaced(8) snd_conv
      by (intro replace_ok) (simp_all add: visits_def)
  qed (use Pair assms in simp_all)
qed

lemma rules_reach_ok: "rules_reach n s \<Longrightarrow> rules_ok s"
proof (induction rule: rules_reach.induct)
  case (rules_update s order0 u order rv mutate)
  then show ?case by (intro Update_ok)
next
  case (rules_delete s order0 u rv)
  then show ?case by (intro Delete_ok) (simp_all add: visits_def)
qed (simp_all add: NewStore_ok Create_ok Reconcile_ok)

lemma lookup_entry:
  assumes "rules_ok s" "us_byUP s u = Some x"
  shows "LookupPacket_sgwu s a b = Some r \<Longrightarrow> pr_UPSEID r = u \<Longrightarrow> best x (the (us_generations s u)) UNIV (a, b) r"
    "(a, b) \<in> keys_of x UNIV \<Longrightarrow> \<exists>r. LookupPacket_sgwu s a b = Some r \<and> pr_UPSEID r = u"
proof -
  note core = rules_ok_core[OF assms(1)]
  have live: "in_force s r" if "best x (the (us_generations s u)) UNIV k r" for k r
  proof -
    have "pr_generation r = Some (the (us_generations s u))" using that rule_of_fields(5) by (auto simp: best_def)
    moreover obtain g where "us_generations s u = Some g"
      using core assms(2) unfolding rules_core_def generations_ok_def by blast
    moreover have "us_active s g" using core calculation(2) unfolding rules_core_def generations_ok_def by blast
    ultimately show ?thesis by (simp add: in_force_def)
  qed
  show "best x (the (us_generations s u)) UNIV (a, b) r"
    if "LookupPacket_sgwu s a b = Some r" "pr_UPSEID r = u"
  proof -
    have t: "us_byTunnel s (a, b) = Some r"
      using that(1) by (auto simp: LookupPacket_sgwu_def LookupPacket_loads_def split: option.splits if_splits)
    then have "(a, b) \<in> keys_of x UNIV"
      using core tunnels_okD2[of s "(a, b)" r] that(2) assms(2) unfolding rules_core_def by force
    from tunnel_owner[OF core assms(2) this] t show ?thesis by auto
  qed
  show "\<exists>r. LookupPacket_sgwu s a b = Some r \<and> pr_UPSEID r = u" if "(a, b) \<in> keys_of x UNIV"
    using tunnel_owner[OF core assms(2) that] live by (fastforce simp: LookupPacket_sgwu_def LookupPacket_loads_def)
qed

lemma lookup_owner:
  assumes "rules_ok s" "LookupPacket_sgwu s a b = Some r"
  obtains x where "us_byUP s (pr_UPSEID r) = Some x" "best x (the (us_generations s (pr_UPSEID r))) UNIV (a, b) r"
proof -
  have "us_byTunnel s (a, b) = Some r"
    using assms(2) by (auto simp: LookupPacket_sgwu_def LookupPacket_loads_def split: option.splits if_splits)
  then obtain x where x: "us_byUP s (pr_UPSEID r) = Some x"
    using assms(1) tunnels_okD2[of s "(a, b)" r] unfolding rules_ok_def rules_core_def by blast
  then show thesis using that lookup_entry(1)[OF assms(1) x assms(2)] by simp
qed

lemma lookup_None:
  assumes "rules_ok s" "LookupPacket_sgwu s a b = None" "us_byUP s u = Some x"
  shows "(a, b) \<notin> keys_of x UNIV"
  using lookup_entry(2)[OF assms(1,3), of a b] assms(2) by auto

lemma LookupByPDR_exact:
  assumes "rules_ok s"
  shows "LookupByPDR_sgwu s u i = (case us_byUP s u of None \<Rightarrow> None
    | Some x \<Rightarrow> rule_of x (the (us_generations s u)) i)"
proof -
  have p: "us_byPDR s (u, i) = (case us_byUP s u of None \<Rightarrow> None
    | Some x \<Rightarrow> rule_of x (the (us_generations s u)) i)"
    using assms by (simp add: rules_ok_def rules_core_def pdrs_ok_def)
  show ?thesis
  proof (cases "us_byUP s u")
    case None
    with p show ?thesis by (simp add: LookupByPDR_sgwu_def)
  next
    case (Some x)
    then obtain g where g: "us_generations s u = Some g" "us_active s g"
      using assms unfolding rules_ok_def rules_core_def generations_ok_def by blast
    show ?thesis
      using p Some g rule_of_fields(5)[of x g i]
      by (cases "rule_of x g i") (auto simp: LookupByPDR_sgwu_def in_force_def)
  qed
qed

end
