(* ===== verification/Sgwu_Packet_Path.thy ===== *)
theory Sgwu_Packet_Path
  imports Sgwu_Rules
begin

text \<open>
  What the packet path of the SGW-U sees of its rule store (\<^verbatim>\<open>internal/sgwu/rules/store.go\<close>): the exactness
  of the lookups in every reachable store at rest, and, because lookups take no lock, what a lookup
  returns whose two loads fall between the writes of an update.
\<close>

section \<open>The states an update passes through\<close>

lemma run_writes_keep:
  assumes "\<And>w t t'. w \<in> set ws \<Longrightarrow> P t \<Longrightarrow> t' \<in> set (w t) \<Longrightarrow> P t'" "P t"
  shows "\<forall>t' \<in> set (run_writes ws t). P t'" "P (last (t # run_writes ws t))"
proof -
  have "P t \<Longrightarrow> \<forall>t' \<in> set (run_writes ws t). P t'" using assms(1)
  proof (induction ws arbitrary: t)
    case (Cons w ws)
    have w: "\<forall>t' \<in> set (w t). P t'" using Cons.prems by auto
    with Cons.prems(1) have "P (last (t # w t))" by simp
    then have "\<forall>t' \<in> set (run_writes ws (last (t # w t))). P t'" by (rule Cons.IH) (use Cons.prems(2) in auto)
    with w show ?case by auto
  qed simp
  then show "\<forall>t' \<in> set (run_writes ws t). P t'" using assms(2) by blast
  with assms(2) show "P (last (t # run_writes ws t))" by simp
qed

text \<open>\<open>between\<close>: an update of a session under generation \<open>g\<close> by \<open>c\<close> under generation \<open>h\<close> touches only the tunnels
  \<open>K\<close> and these two generations, and a rule found for one of these tunnels is tagged with the old generation or is
  compiled from \<open>c\<close> for that tunnel and tagged with the new one.\<close>

definition new_rule :: "Session_sgwu \<Rightarrow> nat \<Rightarrow> tunnelKey_sgwu \<Rightarrow> PacketRule_sgwu \<Rightarrow> bool" where
  "new_rule c h k r \<longleftrightarrow> (\<exists>i. rule_of c h i = Some r) \<and> tunnelKey (pr_PDR r) = k"

definition between :: "Store_sgwu \<Rightarrow> tunnelKey_sgwu set \<Rightarrow> Session_sgwu \<Rightarrow> nat \<Rightarrow> nat \<Rightarrow> Store_sgwu \<Rightarrow> bool" where
  "between s K c g h t \<longleftrightarrow> (\<forall>k. k \<notin> K \<longrightarrow> us_byTunnel t k = us_byTunnel s k) \<and>
     (\<forall>k r. k \<in> K \<and> us_byTunnel t k = Some r \<longrightarrow> pr_generation r = Some g \<or> new_rule c h k r) \<and>
     (\<forall>x. x \<noteq> g \<and> x \<noteq> h \<longrightarrow> us_active t x = us_active s x)"

definition switched_off :: "nat \<Rightarrow> nat \<Rightarrow> Store_sgwu \<Rightarrow> bool" where
  "switched_off g h t \<longleftrightarrow> \<not> us_active t g \<and> \<not> us_active t h"

lemma unindex_writes_keep:
  assumes "between s K c g h t" "keys_of x UNIV \<subseteq> K"
  shows "\<forall>t' \<in> set (unindexSession_writes order x t). between s K c g h t' \<and> us_active t' = us_active t \<and> us_heap t' = us_heap t"
    (is "\<forall>t' \<in> _. ?P t'")
  unfolding unindexSession_writes_def
proof (rule run_writes_keep(1)[where P = ?P])
  fix w t0 t'
  assume w: "w \<in> set (map (\<lambda>i. case su_PDRs x i of None \<Rightarrow> (\<lambda>s. []) | Some pdr \<Rightarrow> unindex_PDR_writes x pdr) order)"
    and P: "?P t0" and t': "t' \<in> set (w t0)"
  from w t' obtain i pdr where "su_PDRs x i = Some pdr" and pdr: "t' \<in> set (unindex_PDR_writes x pdr t0)"
    by (auto split: option.splits)
  then have "tunnelKey pdr \<in> K" using assms(2) by (auto simp: keys_of_def)
  with P pdr show "?P t'"
    by (auto simp: unindex_PDR_writes_def between_def Let_def split: option.splits if_splits) blast+
qed (use assms(1) in simp)

lemma index_writes_keep:
  assumes "between s K c g h t" "keys_of c UNIV \<subseteq> K" "valid_sgwu c"
  shows "\<forall>t' \<in> set (indexSession_writes order c h t). between s K c g h t' \<and> us_active t' = us_active t"
    (is "\<forall>t' \<in> _. ?P t'")
  unfolding indexSession_writes_def
proof (rule run_writes_keep(1)[where P = ?P])
  fix w t0 t'
  assume w: "w \<in> set (map (\<lambda>i. case su_PDRs c i of None \<Rightarrow> (\<lambda>s. []) | Some pdr \<Rightarrow> index_PDR_writes c h pdr) order)"
    and P: "?P t0" and t': "t' \<in> set (w t0)"
  from w t' obtain i pdr where i: "su_PDRs c i = Some pdr" and pdr: "t' \<in> set (index_PDR_writes c h pdr t0)"
    by (auto split: option.splits)
  from pdr obtain r0 where r0: "compilePacketRule c (pdr_ID pdr) = Some r0"
    by (cases "compilePacketRule c (pdr_ID pdr)") (auto simp: index_PDR_writes_def)
  have K: "tunnelKey pdr \<in> K" using assms(2) i by (auto simp: keys_of_def)
  have r: "rule_of c h (pdr_ID pdr) = Some (r0\<lparr>pr_generation := Some h\<rparr>)" using r0 by (simp add: rule_of_def)
  have "pr_PDR r0 = pdr" using rule_of_fields(1)[OF r] valid_PDR(1)[OF assms(3) i] i by simp
  with r have n: "new_rule c h (tunnelKey pdr) (r0\<lparr>pr_generation := Some h\<rparr>)" by (auto simp: new_rule_def)
  from pdr obtain m where
    "t' = t0\<lparr>us_byPDR := m\<rparr> \<or> t' = t0\<lparr>us_byPDR := m, us_byTunnel := (us_byTunnel t0)(tunnelKey pdr \<mapsto> r0\<lparr>pr_generation := Some h\<rparr>)\<rparr>"
    by (auto simp: index_PDR_writes_def r0 Let_def split: option.splits if_splits)
  with P K n show "?P t'" by (auto simp: between_def split: if_splits) blast+
qed (use assms(1) in simp)

text \<open>An update switches the old generation off first and the new one on last.\<close>

lemma replace_writes_split:
  assumes b: "between s K c g h (deactivate (su_UPSEID c) s)" and K: "keys_of current UNIV \<union> keys_of c UNIV \<subseteq> K"
    and off: "switched_off g h (deactivate (su_UPSEID c) s)" and h: "h = us_heap s" and v: "valid_sgwu c"
  obtains mid s' where "replace_writes order0 order current c s = mid @ [s']" "mid \<noteq> []"
    "\<forall>t \<in> set mid. between s K c g h t \<and> switched_off g h t" "between s K c g h s'" "us_active s' = (us_active (last mid))(h := True)"
proof -
  let ?P = "\<lambda>t. between s K c g h t \<and> switched_off g h t"
  define t0 where "t0 = deactivate (su_UPSEID c) s"
  define u where "u = unindexSession_writes order0 current t0"
  define t1 where "t1 = last (t0 # u)"
  have P0: "?P t0" using b off by (simp add: t0_def)
  have "\<forall>t \<in> set u. between s K c g h t \<and> us_active t = us_active t0 \<and> us_heap t = us_heap t0"
    unfolding u_def by (rule unindex_writes_keep) (use P0 K in simp_all)
  then have u: "\<forall>t \<in> set u. ?P t \<and> us_heap t = h" using P0 h by (simp add: switched_off_def) (simp add: t0_def)
  then have t1: "?P t1" "us_heap t1 = h" using P0 h by (auto simp: t1_def t0_def)
  define t2 where "t2 = t1\<lparr>us_byUP := (us_byUP t1)(su_UPSEID c \<mapsto> c)\<rparr>"
  define t3 where "t3 = t2\<lparr>us_heap := Suc h, us_active := (us_active t2)(h := False)\<rparr>"
  have P2: "?P t2" "?P t3" using t1 by (auto simp: t2_def t3_def between_def switched_off_def)
  define x where "x = indexSession_writes order c h t3"
  define t4 where "t4 = last (t3 # x)"
  have "\<forall>t \<in> set x. between s K c g h t \<and> us_active t = us_active t3"
    unfolding x_def by (rule index_writes_keep) (use P2 K v in simp_all)
  then have x: "\<forall>t \<in> set x. ?P t" using P2 by (simp add: switched_off_def)
  then have P4: "?P t4" using P2 by (simp add: t4_def)
  define t5 where "t5 = t4\<lparr>us_generations := (us_generations t4)(su_UPSEID c \<mapsto> h)\<rparr>"
  have P5: "?P t5" using P4 by (simp add: t5_def between_def switched_off_def)
  have last: "between s K c g h (t5\<lparr>us_active := (us_active t5)(h := True)\<rparr>)" using P5 by (simp add: between_def)
  have inst: "install_writes order c t1 = [t2, t3] @ x @ [t5, t5\<lparr>us_active := (us_active t5)(h := True)\<rparr>]"
    by (simp add: install_writes_def Let_def t1(2) t2_def t3_def x_def t4_def t5_def)
  have split: "replace_writes order0 order current c s = t0 # u @ install_writes order c t1"
    by (simp add: replace_writes_def t0_def u_def t1_def)
  have eq: "replace_writes order0 order current c s = (t0 # u @ [t2, t3] @ x @ [t5]) @ [t5\<lparr>us_active := (us_active t5)(h := True)\<rparr>]"
    unfolding split inst by simp
  show thesis
    by (rule that[OF eq]) (use P0 u P2 x P5 last in auto)
qed

section \<open>Lookups during an update\<close>

lemma rule_generation:
  assumes "rules_ok s" "us_byTunnel s k = Some r"
  obtains g where "us_generations s (pr_UPSEID r) = Some g" "pr_generation r = Some g" "us_active s g" "g < us_heap s"
proof -
  note core = rules_ok_core[OF assms(1)]
  obtain x where x: "us_byUP s (pr_UPSEID r) = Some x" "k \<in> keys_of x UNIV"
    using core tunnels_okD2[OF _ assms(2)] unfolding rules_core_def by blast
  from core x obtain r' where "us_byTunnel s k = Some r'" "best x (the (us_generations s (pr_UPSEID r))) UNIV k r'"
    by (rule tunnel_owner)
  then have "pr_generation r = Some (the (us_generations s (pr_UPSEID r)))"
    using assms(2) rule_of_fields(5) by (auto simp: best_def)
  moreover obtain g where "us_generations s (pr_UPSEID r) = Some g"
    using core x(1) unfolding rules_core_def generations_ok_def by blast
  moreover have "us_active s g \<and> g < us_heap s"
    using core calculation(2) unfolding rules_core_def generations_ok_def by blast
  ultimately show thesis using that by simp
qed

lemma deactivate_between:
  assumes ok: "rules_ok s" and cur: "us_byUP s u = Some current" and c: "checkTunnelConflicts c u s = Ok ()"
    and g: "us_generations s u = Some g" and h: "\<not> us_active s h"
    and K: "K = keys_of current UNIV \<union> keys_of c UNIV"
  shows "between s K c g h s" "between s K c g h (deactivate u s)" "switched_off g h (deactivate u s)"
proof -
  have own: "pr_generation r = Some g" if k: "k \<in> K" and r: "us_byTunnel s k = Some r" for k r
  proof -
    have "pr_UPSEID r = u"
    proof (cases "k \<in> keys_of current UNIV")
      case True
      from rules_ok_core[OF ok] cur this obtain r' where "us_byTunnel s k = Some r'" "pr_UPSEID r' = u"
        by (rule tunnel_owner)
      with r show ?thesis by simp
    next
      case False
      then show ?thesis using checkTunnelConflicts_Ok[OF c _ r] k K by simp
    qed
    moreover from ok r obtain g' where "us_generations s (pr_UPSEID r) = Some g'" "pr_generation r = Some g'"
      by (rule rule_generation)
    ultimately show ?thesis using g by simp
  qed
  then show "between s K c g h s" by (auto simp: between_def)
  then show "between s K c g h (deactivate u s)" by (simp add: between_def active_deactivate g)
  show "switched_off g h (deactivate u s)" using h by (simp add: switched_off_def active_deactivate g)
qed

lemma between_elsewhere:
  assumes ok: "rules_ok s" and cur: "us_byUP s u = Some current" and g: "us_generations s u = Some g"
    and K: "keys_of current UNIV \<subseteq> K" "(a, b) \<notin> K"
    and t: "between s K c g (us_heap s) t1" "between s K c g (us_heap s) t2"
  shows "LookupPacket_loads t1 t2 a b = LookupPacket_sgwu s a b"
proof -
  have same: "us_byTunnel t1 (a, b) = us_byTunnel s (a, b)" using t(1) K(2) unfolding between_def by blast
  have "in_force t2 r = in_force s r" if r: "us_byTunnel s (a, b) = Some r" for r
  proof -
    from ok r obtain g' where g': "us_generations s (pr_UPSEID r) = Some g'" "pr_generation r = Some g'" "g' < us_heap s"
      by (rule rule_generation)
    obtain x where x: "us_byUP s (pr_UPSEID r) = Some x" "(a, b) \<in> keys_of x UNIV"
      using rules_ok_core[OF ok] tunnels_okD2[OF _ r] unfolding rules_core_def by blast
    with K cur have "pr_UPSEID r \<noteq> u" by auto
    then have "g' \<noteq> g" using rules_ok_core[OF ok] g g'(1) unfolding rules_core_def generations_ok_def by blast
    with g' t(2) show ?thesis by (simp add: between_def in_force_def)
  qed
  with same show ?thesis by (simp add: LookupPacket_sgwu_def LookupPacket_loads_def split: option.split)
qed

lemma between_within:
  assumes "between s K c g h t1" "(a, b) \<in> K" "LookupPacket_loads t1 t2 a b = Some r"
  shows "us_active t2 g \<and> pr_generation r = Some g \<or> us_active t2 h \<and> new_rule c h (a, b) r"
proof -
  from assms(3) have r: "us_byTunnel t1 (a, b) = Some r" "in_force t2 r"
    by (auto simp: LookupPacket_loads_def split: option.splits if_splits)
  then have "pr_generation r = Some g \<or> new_rule c h (a, b) r" using assms(1,2) unfolding between_def by blast
  with r(2) show ?thesis using rule_of_fields(5) by (auto simp: in_force_def new_rule_def split: option.splits)
qed

text \<open>The result of a lookup whose two loads see the \<open>i\<close>-th and the \<open>j\<close>-th state of an update, counted from the state
  before it: tunnels of other sessions are served as before; a lookup that ends before the first write
  sees the old rules, one that ends between the writes sees none, one that ends after the last write sees
  the new rules if it began then, and at any rate no others.\<close>

definition update_view :: "Store_sgwu \<Rightarrow> Store_sgwu \<Rightarrow> Session_sgwu \<Rightarrow> Session_sgwu \<Rightarrow> nat \<Rightarrow> nat \<Rightarrow> nat \<Rightarrow>
    SourceInterface \<Rightarrow> 32 word \<Rightarrow> PacketRule_sgwu option \<Rightarrow> bool" where
  "update_view s s' current c n i j src teid found \<longleftrightarrow>
     (if (src, teid) \<notin> keys_of current UNIV \<union> keys_of c UNIV then found = LookupPacket_sgwu s src teid
      else if j = 0 then found = LookupPacket_sgwu s src teid
      else if j < n then found = None
      else (i = n \<longrightarrow> found = LookupPacket_sgwu s' src teid) \<and>
        (\<forall>r. found = Some r \<longrightarrow> new_rule c (us_heap s) (src, teid) r))"

lemma replace_view:
  assumes ok: "rules_ok s" and fresh: "\<not> us_active s (us_heap s)" and cur: "us_byUP s (su_UPSEID c) = Some current"
    and c: "valid_sgwu c" "checkTunnelConflicts c (su_UPSEID c) s = Ok ()"
    and ts: "ts = s # replace_writes order0 order current c s" and ij: "i \<le> j" "j < length ts"
  shows "update_view s (last ts) current c (length ts - 1) i j src teid (LookupPacket_loads (ts ! i) (ts ! j) src teid)"
proof -
  let ?u = "su_UPSEID c" and ?h = "us_heap s"
  define K where "K = keys_of current UNIV \<union> keys_of c UNIV"
  obtain g where g: "us_generations s ?u = Some g"
    using rules_ok_core[OF ok] cur unfolding rules_core_def generations_ok_def by blast
  have K: "keys_of current UNIV \<union> keys_of c UNIV \<subseteq> K" by (simp add: K_def)
  note d = deactivate_between[OF ok cur c(2) g fresh K_def]
  obtain mid s' where m: "replace_writes order0 order current c s = mid @ [s']" "mid \<noteq> []"
    "\<forall>t \<in> set mid. between s K c g ?h t \<and> switched_off g ?h t" "between s K c g ?h s'"
    "us_active s' = (us_active (last mid))(?h := True)"
    by (rule replace_writes_split[OF d(2) K d(3) refl c(1), of order0 order])
  have len: "length ts = Suc (Suc (length mid))" and nth: "\<And>l. ts ! l = (s # mid @ [s']) ! l" and last: "last ts = s'"
    using ts m(1) by simp_all
  have b: "between s K c g ?h (ts ! l)" if "l < length ts" for l
    using that d(1) m(3,4) nth_mem[of l ts] ts m(1) by auto
  have off: "switched_off g ?h (ts ! j)" if "j \<noteq> 0" "j < length ts - 1"
    using that m(3) len by (simp add: nth nth_append nth_Cons')
  have "g \<noteq> ?h" using rules_ok_core[OF ok] g fresh unfolding rules_core_def generations_ok_def by blast
  then have g': "\<not> us_active s' g" using m(2,3,5) last_in_set[of mid] by (auto simp: switched_off_def)
  let ?f = "LookupPacket_loads (ts ! i) (ts ! j) src teid"
  show ?thesis
  proof (cases "(src, teid) \<in> K")
    case False
    then have "?f = LookupPacket_sgwu s src teid"
      using ij b by (intro between_elsewhere[OF ok cur g, of K]) (auto simp: K_def)
    with False show ?thesis by (simp add: update_view_def K_def)
  next
    case True
    have w: "us_active (ts ! j) g \<and> pr_generation r = Some g \<or> us_active (ts ! j) ?h \<and> new_rule c ?h (src, teid) r"
      if "?f = Some r" for r using between_within[OF b True that] ij by simp
    consider "j = 0" | "j \<noteq> 0" "j < length ts - 1" | "j = length ts - 1" "j \<noteq> 0" using ij by linarith
    then show ?thesis
    proof cases
      case 1
      with ij show ?thesis by (simp add: update_view_def LookupPacket_sgwu_def ts)
    next
      case 2
      then have "?f = None" using w off by (cases ?f) (auto simp: switched_off_def)
      with 2 True show ?thesis by (simp add: update_view_def K_def)
    next
      case 3
      then have j: "ts ! j = s'" using len by (simp add: nth nth_append)
      with 3 w g' True last show ?thesis by (auto simp: update_view_def LookupPacket_sgwu_def K_def)
    qed
  qed
qed

lemma rules_reach_fresh: "rules_reach n s \<Longrightarrow> us_active s g \<Longrightarrow> g < us_heap s"
proof (induction arbitrary: g rule: rules_reach.induct)
  case rules_init
  then show ?case by (simp add: NewStoreWithLimit_sgwu_def)
next
  case (rules_create s order c)
  obtain res s' where e: "Create_sgwu order c s = (res, s')" by fastforce
  from e show ?case
    by (cases rule: Create_sgwu_cases) (use rules_create e in \<open>auto simp: install_fields split: if_splits intro: less_SucI\<close>)
next
  case (rules_update s order0 u order rv mutate)
  obtain res s' where e: "Update_sgwu order0 order u rv mutate s = (res, s')" by fastforce
  from e show ?case
    by (cases rule: Update_sgwu_cases)
      (use rules_update e in \<open>auto simp: replace_eq install_fields active_deactivate split: if_splits option.splits intro: less_SucI\<close>)
next
  case (rules_reconcile s cp order0 order c)
  obtain res s' where e: "Reconcile_sgwu order0 order cp c s = (res, s')" by fastforce
  from e rules_reach_ok[OF rules_reconcile.hyps(1)] show ?case
    by (cases rule: Reconcile_sgwu_cases)
      (use rules_reconcile e in \<open>auto simp: replace_eq install_fields active_deactivate split: if_splits option.splits intro: less_SucI\<close>)
next
  case (rules_delete s order0 u rv)
  then show ?case
    by (auto simp: Delete_sgwu_def Let_def active_deactivate split: option.splits if_splits)
qed

section \<open>Properties\<close>

text \<open>C14: In every store that any sequence of creations, updates, reconciliations and deletions can reach,
  whatever order Go iterates over the rules in and whether the operations succeed or fail, the
  indexes agree with the sessions: all sessions are valid, the index by control-plane SEID is
  exact, the indexes of packet rules hold exactly the compiled rules of the current
  generations, all of them active, and the capacity is respected.\<close>

theorem sgwu_rules_invariant:
  assumes "rules_reach n s"
  shows "rules_ok s"
  using assms by (rule rules_reach_ok)

definition sample_PDR :: "16 word \<Rightarrow> 32 word \<Rightarrow> PDR_sgwu" where
  "sample_PDR i precedence = \<lparr>pdr_ID = i, pdr_Precedence = precedence, pdr_SourceInterface = SourceAccess,
     pdr_LocalFTEID = \<lparr>fu_TEID = 7, fu_IP = Addr4 0x0a000001\<rparr>, pdr_FARID = 1, pdr_QERIDs = [], pdr_URRIDs = []\<rparr>"

definition sample_session :: Session_sgwu where
  "sample_session = \<lparr>su_CPSEID = 11, su_UPSEID = 22, su_Revision = 0,
     su_PDRs = [1 \<mapsto> sample_PDR 1 200, 2 \<mapsto> sample_PDR 2 100],
     su_FARs = [1 \<mapsto> \<lparr>far_ID = 1, far_ApplyAction = ActionDrop, far_DestinationInterface = 0,
       far_OuterHeader = None, far_BARID = 0\<rparr>],
     su_QERs = Map.empty, su_URRs = Map.empty, su_BARs = Map.empty\<rparr>"

definition sample_store :: Store_sgwu where
  "sample_store = snd (Create_sgwu [1, 2] sample_session (NewStoreWithLimit_sgwu 10))"

lemma sample_sgwu_valid: "validate_sgwu sample_session = Ok ()"
proof -
  have 1: "\<not> map_ex (su_PDRs sample_session) (malformed_PDR sample_session)"
    by (auto simp: map_ex_def sample_session_def malformed_PDR_def sample_PDR_def IsValid_def split: if_splits)
  have 2: "\<not> map_ex (su_FARs sample_session) (malformed_FAR sample_session)"
    by (auto simp: map_ex_def sample_session_def malformed_FAR_def ActionDrop_def ActionForward_def split: if_splits)
  have "su_PDRs sample_session \<noteq> Map.empty" by (auto simp: sample_session_def dest: fun_cong[of _ _ 1])
  with 1 2 show ?thesis by (simp add: validate_sgwu_def) (simp add: map_ex_def sample_session_def)
qed

lemma sample_created: "Create_sgwu [1, 2] sample_session (NewStoreWithLimit_sgwu 10)
    = (Ok (sample_session\<lparr>su_Revision := 1\<rparr>), sample_store)"
proof -
  have "checkTunnelConflicts sample_session 0 (NewStoreWithLimit_sgwu 10) = Ok ()"
    by (simp add: checkTunnelConflicts_def map_ex_def tunnelConflict_def NewStoreWithLimit_sgwu_def)
  then have "fst (Create_sgwu [1, 2] sample_session (NewStoreWithLimit_sgwu 10)) = Ok (sample_session\<lparr>su_Revision := 1\<rparr>)"
    by (simp add: Create_sgwu_def sample_sgwu_valid Let_def) (simp add: NewStoreWithLimit_sgwu_def)
  then show ?thesis by (simp add: sample_store_def prod_eq_iff)
qed

lemma sample_dom: "set [1, 2] = dom (su_PDRs sample_session)"
  by (auto simp: sample_session_def)

lemma sample_rules_reach: "rules_reach 10 sample_store"
  unfolding sample_store_def by (intro rules_create rules_init sample_dom)

lemma sample_byUP: "us_byUP sample_store 22 = Some (sample_session\<lparr>su_Revision := 1\<rparr>)"
proof -
  have u: "su_UPSEID sample_session = 22" by (simp add: sample_session_def)
  from sample_created show ?thesis
  proof (cases rule: Create_sgwu_cases)
    case created
    from u show ?thesis by (subst created(7)) (simp add: install_fields)
  qed simp
qed

theorem sgwu_rules_invariant_witness: "rules_ok sample_store \<and> us_byUP sample_store 22 \<noteq> None"
  using sgwu_rules_invariant[OF sample_rules_reach] sample_byUP by simp

text \<open>\<open>served_by s src teid r x\<close>: rule \<open>r\<close> is what session \<open>x\<close> says about the tunnel.\<close>

definition served_by :: "Store_sgwu \<Rightarrow> SourceInterface \<Rightarrow> 32 word \<Rightarrow> PacketRule_sgwu \<Rightarrow> Session_sgwu \<Rightarrow> bool" where
  "served_by s src teid r x \<longleftrightarrow> us_byUP s (pr_UPSEID r) = Some x
     \<and> (\<exists>i. su_PDRs x i = Some (pr_PDR r)) \<and> tunnelKey (pr_PDR r) = (src, teid)
     \<and> pr_Revision r = su_Revision x
     \<and> (\<forall>j q. su_PDRs x j = Some q \<and> tunnelKey q = (src, teid) \<longrightarrow>
          pdr_Precedence (pr_PDR r) \<le> pdr_Precedence q)
     \<and> su_FARs x (pdr_FARID (pr_PDR r)) = Some (pr_FAR r)
     \<and> pr_QERs r = map (the \<circ> su_QERs x) (pdr_QERIDs (pr_PDR r))"

lemma lookup_served:
  assumes ok: "rules_ok s" and l: "LookupPacket_sgwu s src teid = Some r"
  obtains x where "served_by s src teid r x" "(src, teid) \<in> keys_of x UNIV"
proof -
  from ok l obtain x where x: "us_byUP s (pr_UPSEID r) = Some x"
    and b: "best x (the (us_generations s (pr_UPSEID r))) UNIV (src, teid) r" by (rule lookup_owner)
  then obtain i where i: "rule_of x (the (us_generations s (pr_UPSEID r))) i = Some r" by (auto simp: best_def)
  note f = rule_of_fields[OF i]
  have "served_by s src teid r x" using x f(1,2,4,6) b by (auto simp: served_by_def best_def)
  moreover have "(src, teid) \<in> keys_of x UNIV" using f(1) b by (force simp: best_def keys_of_def)
  ultimately show thesis by (rule that)
qed

lemma served_forwards:
  assumes "rules_ok s" "served_by s src teid r x" "far_ApplyAction (pr_FAR r) AND ActionForward \<noteq> 0"
  shows "\<exists>oh. far_OuterHeader (pr_FAR r) = Some oh \<and> fu_TEID oh \<noteq> 0 \<and> IsValid (fu_IP oh)"
  using valid_FAR[of x "pdr_FARID (pr_PDR r)" "pr_FAR r"] stored_session[OF assms(1), of "pr_UPSEID r" x] assms(2,3)
  by (auto simp: served_by_def malformed_FAR_def split: option.splits)

text \<open>C13: A packet is matched exactly: in a reachable store the lookup by tunnel finds a rule if and only if
  some session has a PDR for that tunnel; that session is then the only one, the rule is the one
  compiled from its stored revision, no PDR of the session with the same tunnel takes precedence
  over it, its FAR and QERs are the stored ones it refers to, and a rule that forwards has an outer
  header with a tunnel and an address. The lookup by PDR is exact in the same way.\<close>

theorem sgwu_lookup_exact:
  assumes "rules_reach n s"
  shows "(LookupPacket_sgwu s src teid = None \<longleftrightarrow> (\<forall>x\<in>ran (us_byUP s). (src, teid) \<notin> keys_of x UNIV))
    \<and> (LookupPacket_sgwu s src teid = Some r \<longrightarrow> (\<exists>x. served_by s src teid r x)
        \<and> (\<forall>u y. us_byUP s u = Some y \<and> (src, teid) \<in> keys_of y UNIV \<longrightarrow> u = pr_UPSEID r)
        \<and> (far_ApplyAction (pr_FAR r) AND ActionForward \<noteq> 0 \<longrightarrow>
             (\<exists>oh. far_OuterHeader (pr_FAR r) = Some oh \<and> fu_TEID oh \<noteq> 0 \<and> IsValid (fu_IP oh))))
    \<and> LookupByPDR_sgwu s u i = (case us_byUP s u of None \<Rightarrow> None
        | Some x \<Rightarrow> rule_of x (the (us_generations s u)) i)"
proof (intro conjI impI)
  note ok = rules_reach_ok[OF assms]
  show "LookupPacket_sgwu s src teid = None \<longleftrightarrow> (\<forall>x\<in>ran (us_byUP s). (src, teid) \<notin> keys_of x UNIV)"
  proof
    assume none: "LookupPacket_sgwu s src teid = None"
    show "\<forall>x\<in>ran (us_byUP s). (src, teid) \<notin> keys_of x UNIV"
    proof
      fix x
      assume "x \<in> ran (us_byUP s)"
      then obtain u where "us_byUP s u = Some x" by (auto simp: ran_def)
      with ok none show "(src, teid) \<notin> keys_of x UNIV" by (rule lookup_None)
    qed
  next
    assume none: "\<forall>x\<in>ran (us_byUP s). (src, teid) \<notin> keys_of x UNIV"
    show "LookupPacket_sgwu s src teid = None"
    proof (rule ccontr)
      assume "LookupPacket_sgwu s src teid \<noteq> None"
      then obtain r where "LookupPacket_sgwu s src teid = Some r" by auto
      with ok obtain x where "served_by s src teid r x" "(src, teid) \<in> keys_of x UNIV" by (rule lookup_served)
      with none show False by (auto simp: served_by_def ran_def)
    qed
  qed
  show "LookupByPDR_sgwu s u i = (case us_byUP s u of None \<Rightarrow> None
        | Some x \<Rightarrow> rule_of x (the (us_generations s u)) i)"
    by (rule LookupByPDR_exact[OF ok])
  assume l: "LookupPacket_sgwu s src teid = Some r"
  from ok l obtain x where x: "served_by s src teid r x" by (rule lookup_served)
  then show "\<exists>x. served_by s src teid r x" by blast
  show "\<forall>u y. us_byUP s u = Some y \<and> (src, teid) \<in> keys_of y UNIV \<longrightarrow> u = pr_UPSEID r"
    using lookup_entry(2)[OF ok, of _ _ src teid] l by fastforce
  show "\<exists>oh. far_OuterHeader (pr_FAR r) = Some oh \<and> fu_TEID oh \<noteq> 0 \<and> IsValid (fu_IP oh)"
    if "far_ApplyAction (pr_FAR r) AND ActionForward \<noteq> 0"
    using served_forwards[OF ok x that] .
qed

lemma sample_key: "(SourceAccess, 7) \<in> keys_of (sample_session\<lparr>su_Revision := 1\<rparr>) UNIV"
  by (auto simp: keys_of_def sample_session_def tunnelKey_def sample_PDR_def intro!: exI[of _ 1])

theorem sgwu_lookup_exact_witness:
  "\<exists>r x. LookupPacket_sgwu sample_store SourceAccess 7 = Some r \<and> served_by sample_store SourceAccess 7 r x"
proof -
  have "sample_session\<lparr>su_Revision := 1\<rparr> \<in> ran (us_byUP sample_store)" using sample_byUP by (rule ranI)
  then have "LookupPacket_sgwu sample_store SourceAccess 7 \<noteq> None"
    using sgwu_lookup_exact[OF sample_rules_reach] sample_key by blast
  then obtain r where r: "LookupPacket_sgwu sample_store SourceAccess 7 = Some r" by auto
  with sgwu_lookup_exact[OF sample_rules_reach] show ?thesis by blast
qed

text \<open>C15: What the packet path sees of an update or a reconciliation that replaces a session. Lookups take no lock:
  the load of the tunnel index may see any state between two writes of the operation and the load of
  the generation's flag the same state or any later one. Whatever they see, the tunnels of other
  sessions are served as before; for the tunnels of the session, old and new, the lookup finds what it found before
  the operation if both loads come before the first write, nothing if the second load falls
  between the writes, and, if the second load comes after the last write, what the new state serves when
  the first load does so too and otherwise nothing or a rule compiled from the new revision for that
  tunnel. A rule of the old revision is never returned once the first write is made.\<close>

theorem sgwu_update_atomic:
  assumes "rules_reach n s" "us_byUP s (su_UPSEID nxt) = Some current"
    and "Update_sgwu order0 order u rv (Some f) s = (Ok nxt, s') \<or>
      Reconcile_sgwu order0 (order nxt) cp c s = (Ok nxt, s') \<and> nxt \<noteq> current"
    and "ts = s # replace_writes order0 (order nxt) current nxt s" "i \<le> j" "j < length ts"
  shows "last ts = s' \<and>
    update_view s s' current nxt (length ts - 1) i j src teid (LookupPacket_loads (ts ! i) (ts ! j) src teid)"
proof -
  note ok = rules_reach_ok[OF assms(1)]
  have "s' = replace_sgwu order0 (order nxt) current nxt s \<and> valid_sgwu nxt
    \<and> checkTunnelConflicts nxt (su_UPSEID nxt) s = Ok ()"
    using assms(3)
  proof (elim disjE conjE)
    assume "Update_sgwu order0 order u rv (Some f) s = (Ok nxt, s')"
    then show ?thesis
    proof (cases rule: Update_sgwu_cases)
      case (updated f cur x)
      have "su_UPSEID nxt = u" using updated(2,6,9) stored_session[OF ok updated(2)] by simp
      with updated assms(2) show ?thesis by auto
    qed simp_all
  next
    assume r: "Reconcile_sgwu order0 (order nxt) cp c s = (Ok nxt, s')" and ne: "nxt \<noteq> current"
    from r ok show ?thesis
    proof (cases rule: Reconcile_sgwu_cases)
      case (unchanged v cur)
      then show ?thesis using ne assms(2) stored_session[OF ok unchanged(2)] by auto
    next
      case (replaced v cur)
      then show ?thesis using assms(2) by auto
    qed simp
  qed
  moreover have "last ts = replace_sgwu order0 (order nxt) current nxt s"
    using assms(4) by (simp add: replace_sgwu_def)
  moreover have "\<not> us_active s (us_heap s)" using rules_reach_fresh[OF assms(1)] by blast
  ultimately show ?thesis using replace_view[OF ok _ assms(2) _ _ assms(4,5,6), of src teid] by simp
qed

definition sample_next :: Session_sgwu where "sample_next = sample_session\<lparr>su_Revision := 2\<rparr>"

lemma sample_update:
  "Update_sgwu [1, 2] (\<lambda>_. [1, 2]) 22 1 (Some Ok) sample_store =
     (Ok sample_next, replace_sgwu [1, 2] [1, 2] (sample_session\<lparr>su_Revision := 1\<rparr>) sample_next sample_store)"
proof -
  let ?c = "sample_session\<lparr>su_Revision := 1\<rparr>"
  have v: "validate_sgwu ?c = Ok ()" using sample_sgwu_valid valid_Revision[of 1 sample_session] by (simp add: valid_sgwu_def)
  have "\<not> map_ex (su_PDRs ?c) (\<lambda>_. tunnelConflict sample_store 22)"
  proof (clarsimp simp: map_ex_def)
    fix i pdr
    assume "su_PDRs sample_session i = Some pdr" and c: "tunnelConflict sample_store 22 pdr"
    then have k: "tunnelKey pdr \<in> keys_of ?c UNIV" by (auto simp: keys_of_def)
    from rules_ok_core[OF rules_reach_ok[OF sample_rules_reach]] sample_byUP k
    obtain r where "us_byTunnel sample_store (tunnelKey pdr) = Some r" "pr_UPSEID r = 22" by (rule tunnel_owner)
    with c show False by (simp add: tunnelConflict_def)
  qed
  then have t: "checkTunnelConflicts sample_session 22 sample_store = Ok ()" by (simp add: checkTunnelConflicts_def)
  show ?thesis
    unfolding Update_sgwu_def by (simp add: sample_byUP v t sample_next_def Let_def)
qed

theorem sgwu_update_atomic_witness:
  "\<exists>ts. length ts > 2 \<and> hd ts = sample_store \<and> (\<forall>i \<le> 1. LookupPacket_loads (ts ! i) (ts ! 1) SourceAccess 7 = None)"
proof (intro exI conjI allI impI)
  define ts where "ts = sample_store # replace_writes [1, 2] [1, 2] (sample_session\<lparr>su_Revision := 1\<rparr>) sample_next sample_store"
  have u: "us_byUP sample_store (su_UPSEID sample_next) = Some (sample_session\<lparr>su_Revision := 1\<rparr>)"
    using sample_byUP by (simp add: sample_next_def sample_session_def)
  show len: "length ts > 2" "hd ts = sample_store"
    by (simp_all add: ts_def replace_writes_def install_writes_def Let_def)
  fix i :: nat
  assume "i \<le> 1"
  then show "LookupPacket_loads (ts ! i) (ts ! 1) SourceAccess 7 = None"
    using sgwu_update_atomic[OF sample_rules_reach u disjI1[OF sample_update] ts_def, of i 1 SourceAccess 7] sample_key len
    by (simp add: update_view_def)
qed

section \<open>A lookup that is overtaken by an update\<close>

text \<open>A lookup that reads the index while a session is being indexed can
  pick the rule of a PDR that is displaced a moment later by one that takes precedence, and then find
  the generation active: it returns a rule that no state of the store would have served.\<close>

definition sample_s0 :: Store_sgwu where
  "sample_s0 = (NewStoreWithLimit_sgwu 10)\<lparr>us_byCP := [11 \<mapsto> 22]\<rparr>"

lemma sample_store_install:
  "sample_store = install [1, 2] (sample_session\<lparr>su_Revision := 1\<rparr>) sample_s0\<lparr>us_installed := 1\<rparr>"
  using sample_created
proof (cases rule: Create_sgwu_cases)
  case created
  have "su_CPSEID sample_session = 11" "su_UPSEID sample_session = 22" by (simp_all add: sample_session_def)
  with created(7) show ?thesis by (simp add: sample_s0_def NewStoreWithLimit_sgwu_def)
qed simp

lemma lookup_race:
  "\<exists>t \<in> set (install_writes [1, 2] (sample_session\<lparr>su_Revision := 1\<rparr>) sample_s0). \<exists>r r'.
     LookupPacket_loads t sample_store SourceAccess 7 = Some r \<and>
     LookupPacket_sgwu sample_store SourceAccess 7 = Some r' \<and>
     pdr_Precedence (pr_PDR r) > pdr_Precedence (pr_PDR r')"
proof -
  let ?c = "sample_session\<lparr>su_Revision := 1\<rparr>" and ?k = "(SourceAccess, 7 :: 32 word)"
  define s2 where "s2 = sample_s0\<lparr>us_byUP := (us_byUP sample_s0)(su_UPSEID ?c \<mapsto> ?c), us_heap := Suc 0,
     us_active := (us_active sample_s0)(0 := False)\<rparr>"
  have h: "us_heap sample_s0 = 0" "us_byTunnel s2 = Map.empty"
    by (simp_all add: s2_def sample_s0_def NewStoreWithLimit_sgwu_def)
  have p: "su_PDRs ?c 1 = Some (sample_PDR 1 200)" "su_PDRs ?c 2 = Some (sample_PDR 2 100)"
    by (simp_all add: sample_session_def)
  have "valid_sgwu sample_session" using sample_sgwu_valid by (simp add: valid_sgwu_def)
  then have v: "valid_sgwu ?c" by simp
  obtain r where r: "rule_of ?c 0 1 = Some r" "pr_PDR r = sample_PDR 1 200" using rule_of_exists[OF v p(1)] by blast
  have pid: "pdr_ID (sample_PDR i q) = i" "tunnelKey (sample_PDR i q) = ?k" "pdr_Precedence (sample_PDR i q) = q" for i q
    by (simp_all add: sample_PDR_def tunnelKey_def)
  define t where "t = index_PDR ?c 0 (sample_PDR 1 200) s2"
  from r obtain r0 where r0: "compilePacketRule ?c 1 = Some r0" "r = r0\<lparr>pr_generation := Some 0\<rparr>" by (auto simp: rule_of_def)
  have t: "us_byTunnel t ?k = Some r" using r0 by (simp add: t_def index_PDR_eq pid h Let_def)
  have "t \<in> set (indexSession_writes [1, 2] ?c 0 s2)"
    using p(1) r0 pid h by (simp add: t_def index_PDR_def indexSession_writes_def index_PDR_writes_def Let_def)
  then have m: "t \<in> set (install_writes [1, 2] ?c sample_s0)"
    by (simp add: install_writes_def Let_def h s2_def)
  have "us_active sample_store 0" by (simp add: sample_store_install install_fields h)
  moreover have "pr_generation r = Some 0" using r0 by simp
  ultimately have "in_force sample_store r" by (simp add: in_force_def)
  with t have l: "LookupPacket_loads t sample_store SourceAccess 7 = Some r" by (simp add: LookupPacket_loads_def)
  have ok: "rules_ok sample_store" by (rule rules_reach_ok[OF sample_rules_reach])
  obtain r' where r': "LookupPacket_sgwu sample_store SourceAccess 7 = Some r'" "pr_UPSEID r' = 22"
    using lookup_entry(2)[OF ok sample_byUP sample_key] by blast
  have "best ?c (the (us_generations sample_store 22)) UNIV ?k r'"
    by (rule lookup_entry(1)[OF ok sample_byUP r'])
  then have "pdr_Precedence (pr_PDR r') \<le> pdr_Precedence (sample_PDR 2 100)"
    using p(2) pid(2) unfolding best_def by blast
  then have "pdr_Precedence (pr_PDR r') \<le> 100" by (simp only: pid(3))
  then have "pdr_Precedence (pr_PDR r) > pdr_Precedence (pr_PDR r')"
    using r(2) pid by (auto intro: le_less_trans)
  with m l r'(1) show ?thesis by blast
qed

end
