(* ===== verification/Pfcp_Association.thy ===== *)
theory Pfcp_Association
  imports Netip
begin

text \<open>
  The association manager of the user planes, \<^verbatim>\<open>internal/pfcp/association/manager.go\<close>: one record per control-plane
  peer and a state machine (associated, grace, reconciling, unavailable) driven by Association Setup, liveness,
  a periodic sweep and the end of reconciliation. Each method holds the manager's lock, so a method is one atomic
  step; the clock \<^verbatim>\<open>now\<close> of the configuration is an argument of the methods that read it. Instants are nanoseconds
  since the zero value of \<^verbatim>\<open>time.Time\<close>, durations are \<^verbatim>\<open>int64\<close> nanoseconds, and \<^verbatim>\<open>Time.Sub\<close> saturates as it does
  in Go. The order in which \<^verbatim>\<open>Sweep\<close> ranges over the map is an argument.
\<close>

section \<open>Data\<close>

datatype State_assoc = StateUnavailable | StateAssociated | StateGrace | StateReconciling

definition DefaultTimeout_assoc :: int where "DefaultTimeout_assoc = 15 * 10 ^ 9"
definition DefaultGraceWindow_assoc :: int where "DefaultGraceWindow_assoc = 120 * 10 ^ 9"

text \<open>\<^verbatim>\<open>IsZero\<close> and the saturating difference of instants.\<close>

definition IsZero_time :: "int \<Rightarrow> bool" where
  "IsZero_time t \<longleftrightarrow> t = 0"

definition Sub_time :: "int \<Rightarrow> int \<Rightarrow> int" where
  "Sub_time t u = max (- (2 ^ 63)) (min (2 ^ 63 - 1) (t - u))"

record Record_assoc =
  ar_Peer :: Addr
  ar_NodeAddress :: Addr
  ar_NodeFQDN :: gostring
  ar_RecoveryTime :: int
  ar_State :: State_assoc
  ar_EstablishedAt :: int
  ar_LastSeen :: int
  ar_GraceStarted :: int
  ar_GraceDeadline :: int

record SetupResult_assoc =
  sr_Record :: Record_assoc
  sr_RecoveryChanged :: bool
  sr_Reconcile :: bool

record Transition_assoc =
  tr_Peer :: Addr
  tr_From :: State_assoc
  tr_To :: State_assoc

record Manager_assoc =
  mg_records :: "Addr \<rightharpoonup> Record_assoc"
  mg_timeout :: int
  mg_graceWindow :: int

section \<open>Operations\<close>

definition New_assoc :: "int \<Rightarrow> int \<Rightarrow> Manager_assoc option" where
  "New_assoc timeout graceWindow = (
     let timeout = (if timeout = 0 then DefaultTimeout_assoc else timeout);
         graceWindow = (if graceWindow = 0 then DefaultGraceWindow_assoc else graceWindow)
     in if timeout < 0 \<or> graceWindow < 0 then None
        else Some \<lparr>mg_records = Map.empty, mg_timeout = timeout, mg_graceWindow = graceWindow\<rparr>)"

definition set_record :: "Addr \<Rightarrow> Record_assoc \<Rightarrow> Manager_assoc \<Rightarrow> Manager_assoc" where
  "set_record peer r m = m\<lparr>mg_records := (mg_records m)(peer \<mapsto> r)\<rparr>"

definition setup_reconciles :: "Record_assoc option \<Rightarrow> int \<Rightarrow> bool" where
  "setup_reconciles previous recovery = (case previous of None \<Rightarrow> False
     | Some p \<Rightarrow> ar_State p = StateGrace \<or> ar_State p = StateReconciling \<or> ar_State p = StateUnavailable
         \<or> ar_RecoveryTime p \<noteq> recovery)"

definition setup_record :: "int \<Rightarrow> int \<Rightarrow> Record_assoc option \<Rightarrow> Addr \<Rightarrow> Addr \<Rightarrow> gostring \<Rightarrow> int \<Rightarrow> Record_assoc" where
  "setup_record now graceWindow previous peer nodeAddress nodeFQDN recovery = (
     let reconcile = setup_reconciles previous recovery;
         established = (case previous of None \<Rightarrow> now
           | Some p \<Rightarrow> if IsZero_time (ar_EstablishedAt p) then now else ar_EstablishedAt p);
         record = \<lparr>ar_Peer = peer, ar_NodeAddress = nodeAddress, ar_NodeFQDN = nodeFQDN, ar_RecoveryTime = recovery,
           ar_State = (if reconcile then StateReconciling else StateAssociated), ar_EstablishedAt = established,
           ar_LastSeen = now, ar_GraceStarted = 0, ar_GraceDeadline = 0\<rparr>
     in case previous of None \<Rightarrow> record
        | Some p \<Rightarrow> if reconcile
            then if IsZero_time (ar_GraceStarted p)
              then record\<lparr>ar_GraceStarted := now, ar_GraceDeadline := now + graceWindow\<rparr>
              else record\<lparr>ar_GraceStarted := ar_GraceStarted p, ar_GraceDeadline := ar_GraceDeadline p\<rparr>
            else record)"

definition Setup_assoc ::
  "int \<Rightarrow> Addr \<Rightarrow> Addr \<Rightarrow> gostring \<Rightarrow> int \<Rightarrow> Manager_assoc \<Rightarrow> SetupResult_assoc \<times> Manager_assoc" where
  "Setup_assoc now peer nodeAddress nodeFQDN recovery m = (
     let peer = Unmap peer; previous = mg_records m peer;
         record = setup_record now (mg_graceWindow m) previous peer (Unmap nodeAddress) nodeFQDN recovery
     in (\<lparr>sr_Record = record,
          sr_RecoveryChanged = (case previous of None \<Rightarrow> False | Some p \<Rightarrow> ar_RecoveryTime p \<noteq> recovery),
          sr_Reconcile = setup_reconciles previous recovery\<rparr>,
         set_record peer record m))"

definition Touch_assoc :: "int \<Rightarrow> Addr \<Rightarrow> Manager_assoc \<Rightarrow> Manager_assoc" where
  "Touch_assoc now peer m = (case mg_records m (Unmap peer) of None \<Rightarrow> m
     | Some r \<Rightarrow> set_record (Unmap peer) (r\<lparr>ar_LastSeen := now\<rparr>) m)"

text \<open>The body of the loop of \<^verbatim>\<open>Sweep\<close>: the next state of a record, if the sweep changes it.\<close>

definition sweep_record :: "int \<Rightarrow> int \<Rightarrow> int \<Rightarrow> Record_assoc \<Rightarrow> Record_assoc option" where
  "sweep_record now timeout graceWindow r = (case ar_State r of
     StateAssociated \<Rightarrow>
       if 0 < timeout \<and> \<not> IsZero_time (ar_LastSeen r) \<and> timeout \<le> Sub_time now (ar_LastSeen r)
       then Some (r\<lparr>ar_State := StateGrace, ar_GraceStarted := now, ar_GraceDeadline := now + graceWindow\<rparr>)
       else None
   | StateUnavailable \<Rightarrow> None
   | _ \<Rightarrow> if \<not> IsZero_time (ar_GraceDeadline r) \<and> \<not> now < ar_GraceDeadline r
          then Some (r\<lparr>ar_State := StateUnavailable, ar_GraceStarted := 0, ar_GraceDeadline := 0\<rparr>)
          else None)"

fun sweep_loop :: "int \<Rightarrow> Addr list \<Rightarrow> Manager_assoc \<Rightarrow> Transition_assoc list \<times> Manager_assoc" where
  "sweep_loop now [] m = ([], m)"
| "sweep_loop now (peer # order) m = (case mg_records m peer of None \<Rightarrow> sweep_loop now order m
     | Some r \<Rightarrow> (case sweep_record now (mg_timeout m) (mg_graceWindow m) r of None \<Rightarrow> sweep_loop now order m
         | Some r' \<Rightarrow> let rest = sweep_loop now order (set_record peer r' m)
             in (\<lparr>tr_Peer = peer, tr_From = ar_State r, tr_To = ar_State r'\<rparr> # fst rest, snd rest)))"

definition Sweep_assoc :: "int \<Rightarrow> Addr list \<Rightarrow> Manager_assoc \<Rightarrow> Transition_assoc list \<times> Manager_assoc" where
  "Sweep_assoc now order m = (let r = sweep_loop now order m in (sort_key tr_Peer (fst r), snd r))"

definition Complete_assoc :: "int \<Rightarrow> Addr \<Rightarrow> Manager_assoc \<Rightarrow> bool \<times> Manager_assoc" where
  "Complete_assoc now peer m = (case mg_records m (Unmap peer) of None \<Rightarrow> (False, m)
     | Some r \<Rightarrow> if ar_State r \<noteq> StateReconciling then (False, m)
         else (True, set_record (Unmap peer) (r\<lparr>ar_State := StateAssociated, ar_LastSeen := now,
           ar_GraceStarted := 0, ar_GraceDeadline := 0\<rparr>) m))"

definition RestoreUnavailable_assoc :: "Addr \<Rightarrow> Manager_assoc \<Rightarrow> Manager_assoc" where
  "RestoreUnavailable_assoc peer m = (let peer = Unmap peer in
     if \<not> IsValid peer then m
     else if mg_records m peer = None then set_record peer \<lparr>ar_Peer = peer, ar_NodeAddress = AddrZero, ar_NodeFQDN = [],
       ar_RecoveryTime = 0, ar_State = StateUnavailable, ar_EstablishedAt = 0, ar_LastSeen = 0,
       ar_GraceStarted = 0, ar_GraceDeadline = 0\<rparr> m
     else m)"

definition Release_assoc :: "Addr \<Rightarrow> Manager_assoc \<Rightarrow> bool \<times> Manager_assoc" where
  "Release_assoc peer m = (if mg_records m (Unmap peer) = None then (False, m)
     else (True, m\<lparr>mg_records := (mg_records m)(Unmap peer := None)\<rparr>))"

definition State_of :: "Addr \<Rightarrow> Manager_assoc \<Rightarrow> State_assoc" where
  "State_of peer m = (case mg_records m (Unmap peer) of Some r \<Rightarrow> ar_State r | None \<Rightarrow> StateUnavailable)"

definition CanCreate :: "Addr \<Rightarrow> Manager_assoc \<Rightarrow> bool" where
  "CanCreate peer m \<longleftrightarrow> State_of peer m = StateAssociated"

definition CanMutate :: "Addr \<Rightarrow> Manager_assoc \<Rightarrow> bool" where
  "CanMutate peer m \<longleftrightarrow> State_of peer m = StateAssociated \<or> State_of peer m = StateReconciling"

text \<open>\<^verbatim>\<open>Snapshot\<close> ranges over the map in the given order and sorts by peer.\<close>

definition Snapshot_assoc :: "Addr list \<Rightarrow> Manager_assoc \<Rightarrow> Record_assoc list" where
  "Snapshot_assoc order m = sort_key ar_Peer (List.map_filter (mg_records m) order)"

definition GraceRemaining :: "int \<Rightarrow> Addr \<Rightarrow> Manager_assoc \<Rightarrow> int" where
  "GraceRemaining now peer m = (case mg_records m (Unmap peer) of None \<Rightarrow> 0
     | Some r \<Rightarrow> if (ar_State r \<noteq> StateGrace \<and> ar_State r \<noteq> StateReconciling) \<or> IsZero_time (ar_GraceDeadline r) then 0
         else let remaining = Sub_time (ar_GraceDeadline r) now in if remaining < 0 then 0 else remaining)"

section \<open>What the operations do to a peer's record\<close>

text \<open>The abstract view of a manager is the map of records alone; the operations act on it as follows.\<close>

lemma set_record_fields [simp]:
  "mg_records (set_record p r m) = (mg_records m)(p \<mapsto> r)"
  "mg_timeout (set_record p r m) = mg_timeout m" "mg_graceWindow (set_record p r m) = mg_graceWindow m"
  by (simp_all add: set_record_def)

definition swept :: "int \<Rightarrow> Manager_assoc \<Rightarrow> Record_assoc \<Rightarrow> Record_assoc" where
  "swept now m r = (case sweep_record now (mg_timeout m) (mg_graceWindow m) r of None \<Rightarrow> r | Some r' \<Rightarrow> r')"

definition sweep_moves :: "int \<Rightarrow> Manager_assoc \<Rightarrow> Transition_assoc set" where
  "sweep_moves now m = {t. \<exists>r r'. mg_records m (tr_Peer t) = Some r \<and>
     sweep_record now (mg_timeout m) (mg_graceWindow m) r = Some r' \<and> tr_From t = ar_State r \<and> tr_To t = ar_State r'}"

lemma sweep_loop_config [simp]:
  "mg_timeout (snd (sweep_loop now order m)) = mg_timeout m"
  "mg_graceWindow (snd (sweep_loop now order m)) = mg_graceWindow m"
  by (induction order arbitrary: m) (auto simp: Let_def split: option.splits)

lemma swept_set_record [simp]: "swept now (set_record q r m) = swept now m"
  by (rule ext) (simp add: swept_def)

lemma sweep_loop_records:
  "distinct order \<Longrightarrow> mg_records (snd (sweep_loop now order m)) =
     (\<lambda>p. if p \<in> set order then map_option (swept now m) (mg_records m p) else mg_records m p)"
proof (induction order arbitrary: m)
  case (Cons q order)
  then show ?case
    by (cases "mg_records m q"; cases "sweep_record now (mg_timeout m) (mg_graceWindow m) (the (mg_records m q))")
      (auto simp: fun_eq_iff Let_def swept_def)
qed simp

lemma sweep_loop_moves:
  "distinct order \<Longrightarrow> set (fst (sweep_loop now order m)) = {t \<in> sweep_moves now m. tr_Peer t \<in> set order} \<and>
     distinct (map tr_Peer (fst (sweep_loop now order m)))"
proof (induction order arbitrary: m)
  case (Cons q order)
  show ?case
  proof (cases "\<exists>r r'. mg_records m q = Some r \<and> sweep_record now (mg_timeout m) (mg_graceWindow m) r = Some r'")
    case True
    then obtain r r' where q: "mg_records m q = Some r" "sweep_record now (mg_timeout m) (mg_graceWindow m) r = Some r'"
      by blast
    have rest: "{t \<in> sweep_moves now (set_record q r' m). tr_Peer t \<in> set order} =
        {t \<in> sweep_moves now m. tr_Peer t \<in> set order}"
      using Cons.prems by (auto simp: sweep_moves_def)
    have "{t \<in> sweep_moves now m. tr_Peer t = q} = {\<lparr>tr_Peer = q, tr_From = ar_State r, tr_To = ar_State r'\<rparr>}"
      using q by (auto simp: sweep_moves_def)
    then show ?thesis using Cons.prems Cons.IH[of "set_record q r' m"] q rest by (auto simp: Let_def)
  next
    case False
    then have "{t \<in> sweep_moves now m. tr_Peer t = q} = {}" by (auto simp: sweep_moves_def)
    then show ?thesis using Cons.prems Cons.IH[of m] False by (auto split: option.splits)
  qed
qed simp

section \<open>Runs\<close>

text \<open>
  The calls the user planes make, as events with the instant the clock shows. In an \<open>assoc_run\<close> a sweep visits every
  record once and the clock shows any instants after the zero value of \<^verbatim>\<open>time.Time\<close>, also earlier ones than before: the
  methods take \<^verbatim>\<open>m.now().UTC()\<close>, which drops Go's monotonic reading, so a wall clock that is set back shows. An
  \<open>assoc_trace\<close> is a run whose instants, in addition, do not go back, between two given instants.
\<close>

datatype assoc_event = EvSetup Addr Addr gostring int | EvTouch Addr | EvSweep "Addr list" | EvComplete Addr
  | EvRestore Addr | EvRelease Addr

fun assoc_step :: "int \<Rightarrow> assoc_event \<Rightarrow> Manager_assoc \<Rightarrow> Manager_assoc" where
  "assoc_step now (EvSetup peer node fqdn recovery) m = snd (Setup_assoc now peer node fqdn recovery m)"
| "assoc_step now (EvTouch peer) m = Touch_assoc now peer m"
| "assoc_step now (EvSweep order) m = snd (Sweep_assoc now order m)"
| "assoc_step now (EvComplete peer) m = snd (Complete_assoc now peer m)"
| "assoc_step now (EvRestore peer) m = RestoreUnavailable_assoc peer m"
| "assoc_step now (EvRelease peer) m = snd (Release_assoc peer m)"

fun ranges_over :: "assoc_event \<Rightarrow> Manager_assoc \<Rightarrow> bool" where
  "ranges_over (EvSweep order) m = (distinct order \<and> set order = dom (mg_records m))"
| "ranges_over _ m = True"

inductive assoc_trace :: "int \<Rightarrow> Manager_assoc \<Rightarrow> (int \<times> assoc_event) list \<Rightarrow> int \<Rightarrow> Manager_assoc \<Rightarrow> bool" where
  trace_done: "t \<le> t' \<Longrightarrow> assoc_trace t m [] t' m"
| trace_step: "t \<le> now \<Longrightarrow> ranges_over e m \<Longrightarrow> assoc_trace now (assoc_step now e m) es t' m' \<Longrightarrow>
    assoc_trace t m ((now, e) # es) t' m'"

inductive_simps assoc_trace_simps: "assoc_trace t m [] t' m'" "assoc_trace t m ((now, e) # es) t' m'"

inductive assoc_run :: "Manager_assoc \<Rightarrow> (int \<times> assoc_event) list \<Rightarrow> Manager_assoc \<Rightarrow> bool" where
  run_done: "assoc_run m [] m"
| run_step: "0 < now \<Longrightarrow> ranges_over e m \<Longrightarrow> assoc_run (assoc_step now e m) es m' \<Longrightarrow> assoc_run m ((now, e) # es) m'"

inductive_simps assoc_run_simps: "assoc_run m [] m'" "assoc_run m ((now, e) # es) m'"

lemma assoc_run_append:
  "assoc_run m (es @ fs) m' \<longleftrightarrow> (\<exists>n. assoc_run m es n \<and> assoc_run n fs m')"
  by (induction es arbitrary: m) (auto simp: assoc_run_simps)

lemma assoc_trace_run: "assoc_trace t m es t' m' \<Longrightarrow> 0 < t \<Longrightarrow> assoc_run m es m'"
  by (induction rule: assoc_trace.induct) (auto intro: assoc_run.intros)

lemma assoc_trace_append:
  "assoc_trace t m (es @ fs) t' m' \<longleftrightarrow> (\<exists>u n. assoc_trace t m es u n \<and> assoc_trace u n fs t' m')" (is "?l \<longleftrightarrow> ?r")
proof
  show "?l \<Longrightarrow> ?r"
    by (induction es arbitrary: t m) (auto simp: assoc_trace_simps, (metis assoc_trace_simps(1) order_refl)?)
  show "?r \<Longrightarrow> ?l"
  proof (elim exE conjE)
    fix u n assume "assoc_trace t m es u n" "assoc_trace u n fs t' m'"
    then show ?l
    proof (induction rule: assoc_trace.induct)
      case (trace_done t u m) then show ?case by (cases fs) (auto simp: assoc_trace_simps)
    qed (auto simp: assoc_trace_simps)
  qed
qed

lemma assoc_step_config [simp]:
  "mg_timeout (assoc_step now e m) = mg_timeout m" "mg_graceWindow (assoc_step now e m) = mg_graceWindow m"
  by (cases e; auto simp: Setup_assoc_def Touch_assoc_def Sweep_assoc_def Complete_assoc_def Let_def
    RestoreUnavailable_assoc_def Release_assoc_def split: option.splits)+

lemma assoc_run_config: "assoc_run m es m' \<Longrightarrow> mg_timeout m' = mg_timeout m \<and> mg_graceWindow m' = mg_graceWindow m"
  by (induction rule: assoc_run.induct) simp_all

text \<open>The peer an event concerns, and what one event does to the record of a peer.\<close>

fun event_peer :: "assoc_event \<Rightarrow> Addr option" where
  "event_peer (EvSetup peer _ _ _) = Some (Unmap peer)"
| "event_peer (EvTouch peer) = Some (Unmap peer)"
| "event_peer (EvSweep _) = None"
| "event_peer (EvComplete peer) = Some (Unmap peer)"
| "event_peer (EvRestore peer) = Some (Unmap peer)"
| "event_peer (EvRelease peer) = Some (Unmap peer)"

lemma step_sweep:
  "ranges_over (EvSweep order) m \<Longrightarrow>
     mg_records (assoc_step now (EvSweep order) m) p = map_option (swept now m) (mg_records m p)"
  by (auto simp: Sweep_assoc_def Let_def sweep_loop_records)

lemma step_other:
  "event_peer e = Some q \<Longrightarrow> p \<noteq> q \<Longrightarrow> mg_records (assoc_step now e m) p = mg_records m p"
  by (cases e) (auto simp: Setup_assoc_def Touch_assoc_def Complete_assoc_def Let_def
    RestoreUnavailable_assoc_def Release_assoc_def split: option.splits)

section \<open>The invariant of the records\<close>

definition in_grace :: "State_assoc \<Rightarrow> bool" where
  "in_grace s \<longleftrightarrow> s = StateGrace \<or> s = StateReconciling"

definition record_ok :: "int \<Rightarrow> int \<Rightarrow> Addr \<Rightarrow> Record_assoc \<Rightarrow> bool" where
  "record_ok now graceWindow p r \<longleftrightarrow> ar_Peer r = p \<and> Unmap p = p \<and> 0 \<le> ar_LastSeen r \<and> ar_LastSeen r \<le> now \<and>
     (ar_State r = StateAssociated \<longrightarrow> 0 < ar_LastSeen r) \<and>
     (if in_grace (ar_State r)
      then 0 < ar_GraceStarted r \<and> ar_GraceStarted r \<le> now \<and> ar_GraceDeadline r = ar_GraceStarted r + graceWindow
      else ar_GraceStarted r = 0 \<and> ar_GraceDeadline r = 0)"

definition assoc_ok :: "int \<Rightarrow> Manager_assoc \<Rightarrow> bool" where
  "assoc_ok now m \<longleftrightarrow> 0 < now \<and> 0 < mg_timeout m \<and> 0 < mg_graceWindow m \<and>
     (\<forall>p r. mg_records m p = Some r \<longrightarrow> record_ok now (mg_graceWindow m) p r)"

lemma assoc_okD: "assoc_ok now m \<Longrightarrow> mg_records m p = Some r \<Longrightarrow> record_ok now (mg_graceWindow m) p r"
  by (simp add: assoc_ok_def)

lemma assoc_ok_set_record:
  "assoc_ok now m \<Longrightarrow> record_ok now (mg_graceWindow m) p r \<Longrightarrow> assoc_ok now (set_record p r m)"
  by (simp add: assoc_ok_def)

lemma assoc_ok_later: "assoc_ok t m \<Longrightarrow> t \<le> now \<Longrightarrow> assoc_ok now m"
  by (fastforce simp: assoc_ok_def record_ok_def)

lemma assoc_ok_New: "New_assoc timeout graceWindow = Some m \<Longrightarrow> 0 < now \<Longrightarrow> assoc_ok now m"
  by (auto simp: New_assoc_def Let_def assoc_ok_def DefaultTimeout_assoc_def DefaultGraceWindow_assoc_def split: if_splits)

text \<open>
  The bound of the invariant need only lie above the instants the operations have read, so it also serves for a clock
  that is set back.
\<close>

lemma record_ok_setup:
  assumes "assoc_ok b m" "0 < now" "now \<le> b" "previous = mg_records m p" "Unmap p = p"
  shows "record_ok b (mg_graceWindow m) p (setup_record now (mg_graceWindow m) previous p node fqdn recovery)"
proof (cases previous)
  case None
  with assms show ?thesis
    by (simp add: setup_record_def setup_reconciles_def record_ok_def in_grace_def assoc_ok_def)
next
  case (Some r)
  with assms have "record_ok b (mg_graceWindow m) p r" by (auto simp: assoc_ok_def)
  then show ?thesis using Some assms(2,3,5)
    by (cases "ar_State r") (auto simp: setup_record_def setup_reconciles_def record_ok_def in_grace_def IsZero_time_def Let_def)
qed

lemma record_ok_swept:
  "assoc_ok b m \<Longrightarrow> 0 < now \<Longrightarrow> now \<le> b \<Longrightarrow> record_ok b (mg_graceWindow m) p r \<Longrightarrow>
     record_ok b (mg_graceWindow m) p (swept now m r)"
  by (cases "ar_State r") (auto simp: swept_def sweep_record_def record_ok_def in_grace_def assoc_ok_def split: if_splits)

lemma assoc_ok_bound_step:
  assumes ok: "assoc_ok b m" and now: "0 < now" "now \<le> b" and over: "ranges_over e m"
  shows "assoc_ok b (assoc_step now e m)"
proof (cases e)
  case (EvSetup peer node fqdn recovery)
  have "record_ok b (mg_graceWindow m) (Unmap peer)
      (setup_record now (mg_graceWindow m) (mg_records m (Unmap peer)) (Unmap peer) (Unmap node) fqdn recovery)"
    by (rule record_ok_setup[OF ok now]) simp_all
  then show ?thesis by (simp add: EvSetup Setup_assoc_def Let_def assoc_ok_set_record[OF ok])
next
  case (EvTouch peer)
  then show ?thesis using ok now
    by (cases "mg_records m (Unmap peer)")
      (auto simp: Touch_assoc_def record_ok_def assoc_ok_def intro!: assoc_ok_set_record dest: assoc_okD)
next
  case (EvSweep order)
  have "record_ok b (mg_graceWindow m) p r" if r: "mg_records (assoc_step now e m) p = Some r" for p r
  proof -
    have "map_option (swept now m) (mg_records m p) = Some r" using step_sweep over r EvSweep by metis
    then show ?thesis using ok now by (auto intro: record_ok_swept assoc_okD)
  qed
  then show ?thesis using ok assoc_step_config[of now e m] by (auto simp: assoc_ok_def simp del: assoc_step.simps)
next
  case (EvComplete peer)
  then show ?thesis using ok now
    by (cases "mg_records m (Unmap peer)")
      (auto simp: Complete_assoc_def record_ok_def in_grace_def assoc_ok_def intro!: assoc_ok_set_record dest: assoc_okD)
next
  case (EvRestore peer)
  then show ?thesis using ok by (auto simp: RestoreUnavailable_assoc_def record_ok_def in_grace_def assoc_ok_def Let_def)
next
  case (EvRelease peer)
  then show ?thesis using ok by (auto simp: Release_assoc_def assoc_ok_def)
qed

lemma assoc_ok_run:
  "assoc_run m es m' \<Longrightarrow> assoc_ok b m \<Longrightarrow> \<forall>(u, e) \<in> set es. u \<le> b \<Longrightarrow> assoc_ok b m'"
  by (induction rule: assoc_run.induct) (auto intro: assoc_ok_bound_step)

text \<open>The same with the instant of the operation itself as the bound.\<close>

lemma assoc_ok_step: "assoc_ok now m \<Longrightarrow> ranges_over e m \<Longrightarrow> assoc_ok now (assoc_step now e m)"
  by (rule assoc_ok_bound_step) (auto simp: assoc_ok_def)

lemma assoc_ok_Setup: "assoc_ok now m \<Longrightarrow> assoc_ok now (snd (Setup_assoc now peer node fqdn recovery m))"
  using assoc_ok_step[of now m "EvSetup peer node fqdn recovery"] by simp

lemma assoc_ok_Touch: "assoc_ok now m \<Longrightarrow> assoc_ok now (Touch_assoc now peer m)"
  using assoc_ok_step[of now m "EvTouch peer"] by simp

lemma assoc_ok_Complete: "assoc_ok now m \<Longrightarrow> assoc_ok now (snd (Complete_assoc now peer m))"
  using assoc_ok_step[of now m "EvComplete peer"] by simp

lemma assoc_ok_Restore: "assoc_ok now m \<Longrightarrow> assoc_ok now (RestoreUnavailable_assoc peer m)"
  using assoc_ok_step[of now m "EvRestore peer"] by simp

lemma assoc_ok_Release: "assoc_ok now m \<Longrightarrow> assoc_ok now (snd (Release_assoc peer m))"
  using assoc_ok_step[of now m "EvRelease peer"] by simp

lemma assoc_ok_trace: "assoc_trace t m es t' m' \<Longrightarrow> assoc_ok t m \<Longrightarrow> assoc_ok t' m'"
  by (induction rule: assoc_trace.induct) (auto intro: assoc_ok_later assoc_ok_step)

section \<open>Properties\<close>

text \<open>What \<^verbatim>\<open>Sweep\<close> computes does not depend on the order in which Go ranges over the map.\<close>

lemma Sweep_assoc_spec:
  assumes "ranges_over (EvSweep order) m"
  shows "mg_records (snd (Sweep_assoc now order m)) = (\<lambda>p. map_option (swept now m) (mg_records m p))"
    "set (fst (Sweep_assoc now order m)) = sweep_moves now m"
    "sorted (map tr_Peer (fst (Sweep_assoc now order m)))"
    "distinct (map tr_Peer (fst (Sweep_assoc now order m)))"
proof -
  have moves: "{t \<in> sweep_moves now m. tr_Peer t \<in> dom (mg_records m)} = sweep_moves now m"
    by (auto simp: sweep_moves_def)
  show "mg_records (snd (Sweep_assoc now order m)) = (\<lambda>p. map_option (swept now m) (mg_records m p))"
    using step_sweep[OF assms] by (simp add: fun_eq_iff)
  show "set (fst (Sweep_assoc now order m)) = sweep_moves now m"
    using assms sweep_loop_moves[of order now m] moves by (simp add: Sweep_assoc_def Let_def)
  show "sorted (map tr_Peer (fst (Sweep_assoc now order m)))"
    by (simp add: Sweep_assoc_def Let_def)
  show "distinct (map tr_Peer (fst (Sweep_assoc now order m)))"
    using assms sweep_loop_moves[of order now m, THEN conjunct2]
    by (simp add: Sweep_assoc_def Let_def distinct_map)
qed

text \<open>A peer that has left the associated state comes back to it only through \<^verbatim>\<open>Complete\<close> (or a release that forgets it).\<close>

fun readmits :: "Addr \<Rightarrow> assoc_event \<Rightarrow> bool" where
  "readmits p (EvComplete q) = (Unmap q = p)"
| "readmits p (EvRelease q) = (Unmap q = p)"
| "readmits p _ = False"

definition held_back :: "Addr \<Rightarrow> Manager_assoc \<Rightarrow> bool" where
  "held_back p m \<longleftrightarrow> (\<exists>r. mg_records m p = Some r \<and> ar_State r \<noteq> StateAssociated)"

lemma swept_not_associated: "ar_State r \<noteq> StateAssociated \<Longrightarrow> ar_State (swept now m r) \<noteq> StateAssociated"
  by (cases "ar_State r") (auto simp: swept_def sweep_record_def)

lemma setup_record_State [simp]:
  "ar_State (setup_record now g previous p node fqdn recovery) =
     (if setup_reconciles previous recovery then StateReconciling else StateAssociated)"
  by (auto simp: setup_record_def Let_def setup_reconciles_def split: option.splits)

lemma not_associated_reconciles: "ar_State r \<noteq> StateAssociated \<Longrightarrow> setup_reconciles (Some r) recovery"
  by (cases "ar_State r") (auto simp: setup_reconciles_def)

lemma held_back_step:
  assumes "held_back p m" "\<not> readmits p e" "ranges_over e m"
  shows "held_back p (assoc_step now e m)"
proof (cases "event_peer e")
  case None
  then obtain order where "e = EvSweep order" by (cases e) auto
  then show ?thesis using assms step_sweep[of order m now p]
    by (auto simp: held_back_def swept_not_associated simp del: assoc_step.simps)
next
  case (Some q)
  show ?thesis
  proof (cases "p = q")
    case True
    with Some assms(1,2) show ?thesis
      by (cases e) (auto simp: held_back_def Setup_assoc_def not_associated_reconciles Touch_assoc_def
        RestoreUnavailable_assoc_def Let_def)
  next
    case False
    with Some assms(1) step_other show ?thesis by (simp add: held_back_def)
  qed
qed

lemma held_back_trace:
  "assoc_trace t m es t' m' \<Longrightarrow> held_back p m \<Longrightarrow> \<forall>(u, e) \<in> set es. \<not> readmits p e \<Longrightarrow> held_back p m'"
  by (induction rule: assoc_trace.induct) (auto intro: held_back_step)

lemma held_back_no_create: "held_back (Unmap p) m \<Longrightarrow> \<not> CanCreate p m"
  by (auto simp: held_back_def CanCreate_def State_of_def)

text \<open>A peer that is silent: no event of the run names it.\<close>

definition silent :: "Addr \<Rightarrow> (int \<times> assoc_event) list \<Rightarrow> bool" where
  "silent p es \<longleftrightarrow> (\<forall>(u, e) \<in> set es. event_peer e \<noteq> Some p)"

lemma silent_simps [simp]: "silent p []" "silent p ((u, e) # es) \<longleftrightarrow> event_peer e \<noteq> Some p \<and> silent p es"
  by (auto simp: silent_def)

lemma silent_step:
  assumes "ranges_over e m" "event_peer e \<noteq> Some p" "mg_records m p = Some r"
  shows "mg_records (assoc_step now e m) p = Some (if event_peer e = None then swept now m r else r)"
proof (cases "event_peer e")
  case None
  then obtain order where "e = EvSweep order" by (cases e) auto
  then show ?thesis using assms step_sweep[of order m now p] None by (simp del: assoc_step.simps)
next
  case (Some q)
  with assms step_other[of e q p now m] show ?thesis by simp
qed

definition quiet_since :: "int \<Rightarrow> Record_assoc \<Rightarrow> bool" where
  "quiet_since u r \<longleftrightarrow> ar_State r = StateAssociated \<longrightarrow> ar_LastSeen r \<le> u"

definition expires_by :: "int \<Rightarrow> Record_assoc \<Rightarrow> bool" where
  "expires_by d r \<longleftrightarrow> ar_State r \<noteq> StateAssociated \<and> (in_grace (ar_State r) \<longrightarrow> ar_GraceDeadline r \<le> d)"

lemma swept_unavailable: "ar_State r = StateUnavailable \<Longrightarrow> ar_State (swept now m r) = StateUnavailable"
  by (simp add: swept_def sweep_record_def)

lemma swept_quiet: "quiet_since u r \<Longrightarrow> quiet_since u (swept now m r)"
  by (auto simp: quiet_since_def swept_def sweep_record_def split: State_assoc.splits if_splits)

lemma swept_expires: "expires_by d r \<Longrightarrow> expires_by d (swept now m r)"
  by (auto simp: expires_by_def swept_def sweep_record_def in_grace_def split: State_assoc.splits if_splits)

text \<open>A predicate on a record that a sweep keeps is kept by every run in which the peer is silent.\<close>

lemma silent_run:
  assumes keep: "\<And>now m r. P r \<Longrightarrow> P (swept now m r)"
  shows "assoc_run m es m' \<Longrightarrow> silent p es \<Longrightarrow> mg_records m p = Some r \<Longrightarrow> P r \<Longrightarrow>
    \<exists>r'. mg_records m' p = Some r' \<and> P r'"
proof (induction arbitrary: r rule: assoc_run.induct)
  case (run_step now e m es m')
  from run_step.prems have e: "event_peer e \<noteq> Some p" "silent p es" by auto
  show ?case using run_step.IH[OF e(2) silent_step[OF run_step.hyps(2) e(1) run_step.prems(2)]]
      keep run_step.prems(3) by simp
qed blast

lemma Sub_time_ge: "d \<le> t - u \<Longrightarrow> d < 2 ^ 63 \<Longrightarrow> d \<le> Sub_time t u"
  by (auto simp: Sub_time_def)

lemma swept_idle:
  assumes "record_ok b (mg_graceWindow m) p r" "assoc_ok b m" "mg_timeout m < 2 ^ 63" "quiet_since u r"
    "u + mg_timeout m \<le> now" "now \<le> b"
  shows "expires_by (b + mg_graceWindow m) (swept now m r)"
proof (cases "ar_State r = StateAssociated")
  case True
  with assms have "mg_timeout m \<le> Sub_time now (ar_LastSeen r)" "0 < mg_timeout m" "0 < ar_LastSeen r"
    by (auto intro!: Sub_time_ge simp: quiet_since_def assoc_ok_def record_ok_def)
  with True assms(6) show ?thesis
    by (simp add: swept_def sweep_record_def IsZero_time_def expires_by_def in_grace_def)
next
  case False
  with assms(1) have "expires_by (b + mg_graceWindow m) r" by (auto simp: expires_by_def record_ok_def)
  then show ?thesis by (rule swept_expires)
qed

text \<open>The deadline of a record in grace is set; a clock past it makes the sweep give the peer up.\<close>

definition deadline_set :: "Record_assoc \<Rightarrow> bool" where
  "deadline_set r \<longleftrightarrow> (in_grace (ar_State r) \<longrightarrow> ar_GraceDeadline r \<noteq> 0)"

lemma swept_deadline_set: "deadline_set r \<Longrightarrow> ar_State r \<noteq> StateAssociated \<Longrightarrow> deadline_set (swept now m r)"
  by (auto simp: deadline_set_def swept_def sweep_record_def in_grace_def split: State_assoc.splits if_splits)

lemma swept_late:
  "deadline_set r \<Longrightarrow> expires_by d r \<Longrightarrow> d \<le> now \<Longrightarrow> ar_State (swept now m r) = StateUnavailable"
  by (cases "ar_State r") (auto simp: swept_def sweep_record_def expires_by_def in_grace_def deadline_set_def
    IsZero_time_def)

text \<open>The record of a silent peer right before a sweep in the middle of a run, and right after it.\<close>

lemma silent_sweep:
  assumes "assoc_run m (es @ (u, EvSweep order) # fs) m'" "silent p es" "mg_records m p = Some r" "P r"
    "\<And>now m r. P r \<Longrightarrow> P (swept now m r)"
  obtains n r' where "assoc_run m es n" "0 < u" "mg_records n p = Some r'" "P r'"
    "mg_records (assoc_step u (EvSweep order) n) p = Some (swept u n r')" "ranges_over (EvSweep order) n"
    "assoc_run (assoc_step u (EvSweep order) n) fs m'"
proof -
  obtain n where n: "assoc_run m es n" "0 < u" "ranges_over (EvSweep order) n"
    "assoc_run (assoc_step u (EvSweep order) n) fs m'"
    using assms(1) by (auto simp: assoc_run_append assoc_run_simps(2))
  obtain r' where r': "mg_records n p = Some r'" "P r'"
    using silent_run[of P, OF assms(5) n(1) assms(2,3,4)] by blast
  have "mg_records (assoc_step u (EvSweep order) n) p = Some (swept u n r')" using step_sweep[OF n(3)] r'(1) by simp
  then show thesis using that n r' by blast
qed

definition doomed :: "int \<Rightarrow> Record_assoc \<Rightarrow> bool" where
  "doomed d r \<longleftrightarrow> expires_by d r \<and> deadline_set r"

lemma swept_doomed: "doomed d r \<Longrightarrow> doomed d (swept now m r)"
  by (simp add: doomed_def swept_expires) (simp add: expires_by_def swept_deadline_set)

lemma silent_expires:
  assumes "assoc_ok b m" "mg_timeout m < 2 ^ 63" "mg_records m p = Some r"
    "assoc_run m (es1 @ (t1, EvSweep o1) # es2 @ (t2, EvSweep o2) # es3) m'"
    "silent p es1" "silent p es2" "silent p es3"
    "\<forall>(u, e) \<in> set es1. u \<le> b" "t1 \<le> b" "ar_LastSeen r + mg_timeout m \<le> t1" "b + mg_graceWindow m \<le> t2"
  shows "\<exists>r'. mg_records m' p = Some r' \<and> ar_State r' = StateUnavailable"
proof -
  let ?d = "b + mg_graceWindow m"
  have quiet: "quiet_since (ar_LastSeen r) r" by (simp add: quiet_since_def)
  obtain n r1 where n: "assoc_run m es1 n" "0 < t1" "mg_records n p = Some r1" "quiet_since (ar_LastSeen r) r1"
    "mg_records (assoc_step t1 (EvSweep o1) n) p = Some (swept t1 n r1)" "ranges_over (EvSweep o1) n"
    "assoc_run (assoc_step t1 (EvSweep o1) n) (es2 @ (t2, EvSweep o2) # es3) m'"
    using silent_sweep[where P="quiet_since (ar_LastSeen r)", OF assms(4,5,3) quiet swept_quiet] by metis
  have cfg: "mg_timeout n = mg_timeout m" "mg_graceWindow n = mg_graceWindow m"
    using assoc_run_config[OF n(1)] by auto
  have ok: "assoc_ok b n" by (rule assoc_ok_run[OF n(1) assms(1,8)])
  have ok': "assoc_ok b (assoc_step t1 (EvSweep o1) n)" by (rule assoc_ok_bound_step[OF ok n(2) assms(9) n(6)])
  have "expires_by ?d (swept t1 n r1)"
    using swept_idle[OF assoc_okD[OF ok n(3)] ok _ n(4) _ assms(9)] assms(2,10) cfg by simp
  moreover have "deadline_set (swept t1 n r1)"
    using assoc_okD[OF ok' n(5)] ok' by (auto simp: deadline_set_def record_ok_def assoc_ok_def)
  ultimately have "doomed ?d (swept t1 n r1)" by (simp add: doomed_def)
  then obtain k r2 where k: "mg_records k p = Some r2" "doomed ?d r2"
    "mg_records (assoc_step t2 (EvSweep o2) k) p = Some (swept t2 k r2)"
    "assoc_run (assoc_step t2 (EvSweep o2) k) es3 m'"
    using silent_sweep[where P="doomed ?d", OF n(7) assms(6) n(5) _ swept_doomed] by metis
  have "ar_State (swept t2 k r2) = StateUnavailable"
    using k(2) assms(11) swept_late by (auto simp: doomed_def)
  then show ?thesis using silent_run[where P="\<lambda>r. ar_State r = StateUnavailable", OF swept_unavailable k(4) assms(7) k(3)]
    by blast
qed

lemma Sub_time_le: "t - u \<le> d \<Longrightarrow> 0 \<le> d \<Longrightarrow> Sub_time t u \<le> d"
  by (auto simp: Sub_time_def)

text \<open>(equivalence) \<^verbatim>\<open>Sweep\<close> visits the records in the unspecified order of a Go map, but its result does not depend
  on that order: for two enumerations of the records the returned transitions and the manager are the same, the
  transitions are those of the records that are due, sorted by peer, one per peer.\<close>

theorem Sweep_assoc_order:
  assumes "ranges_over (EvSweep order) m" "ranges_over (EvSweep order') m"
  shows "Sweep_assoc now order m = Sweep_assoc now order' m \<and>
     set (fst (Sweep_assoc now order m)) = sweep_moves now m \<and>
     sorted (map tr_Peer (fst (Sweep_assoc now order m))) \<and> distinct (map tr_Peer (fst (Sweep_assoc now order m)))"
proof -
  note s = Sweep_assoc_spec[OF assms(1)] and s' = Sweep_assoc_spec[OF assms(2)]
  have inj: "inj_on tr_Peer (sweep_moves now m)"
    using s(2,4)[of now] by (simp add: distinct_map)
  have "fst (Sweep_assoc now order m) = fst (Sweep_assoc now order' m)"
    using s(2-4)[of now] s'(2-4)[of now] inj
    by (metis (no_types, lifting) Un_absorb distinct_map map_inj_on set_map sorted_distinct_set_unique)
  moreover have "snd (Sweep_assoc now order m) = snd (Sweep_assoc now order' m)"
    using s(1)[of now] s'(1)[of now] by (intro Manager_assoc.equality) (simp_all add: Sweep_assoc_def Let_def)
  ultimately have "Sweep_assoc now order m = Sweep_assoc now order' m" by (rule prod_eqI)
  with s(2-4)[of now] show ?thesis by blast
qed

definition sample_peer :: Addr where "sample_peer = Addr4 0x0a000001"
definition sample_peer2 :: Addr where "sample_peer2 = Addr4 0x0a000002"

definition sample_manager :: Manager_assoc where
  "sample_manager = \<lparr>mg_records = Map.empty, mg_timeout = 15000000000, mg_graceWindow = 120000000000\<rparr>"

lemma sample_New: "New_assoc 0 0 = Some sample_manager"
  by (simp add: New_assoc_def DefaultTimeout_assoc_def DefaultGraceWindow_assoc_def sample_manager_def)

text \<open>C23: (safety) No new sessions before reconciliation: once a known peer is not associated (it went silent, its grace
  window ended, it restarted or was restored from durable state), it cannot create sessions in any continuation of the
  run, whatever it sends and however often it repeats Association Setup, unless the reconciliation is completed or the
  association is released.\<close>

theorem reconcile_before_create:
  assumes "assoc_trace t m es t' m'" "mg_records m (Unmap p) = Some r" "ar_State r \<noteq> StateAssociated"
    "\<forall>(u, e) \<in> set es. \<not> readmits (Unmap p) e"
  shows "\<not> CanCreate p m'"
  using held_back_trace[OF assms(1) _ assms(4)] assms(2,3) by (auto intro!: held_back_no_create simp: held_back_def)

text \<open>C22: (liveness) A peer that falls silent is given up, whatever the clock does: in every run in which no event names the
  peer any more, a sweep at an instant at least the timeout after the peer was last seen, followed by a sweep at an
  instant at least the grace window after every instant the clock has shown up to the first sweep, leaves the peer
  unavailable, whatever happens to other peers in between and afterwards. The clock may be set back at any time (its
  instants need only be after the zero value); when it is not, the second condition says that the second sweep comes at
  least the grace window after the first.\<close>

theorem silent_peer_expires:
  assumes "New_assoc timeout graceWindow = Some m0" "timeout < 2 ^ 63" "assoc_run m0 history m"
    "mg_records m p = Some r" "silent p es1" "silent p es2" "silent p es3"
    "assoc_run m (es1 @ (t1, EvSweep o1) # es2 @ (t2, EvSweep o2) # es3) m'"
    "ar_LastSeen r + mg_timeout m \<le> t1"
    "\<forall>(u, e) \<in> set (history @ es1 @ [(t1, EvSweep o1)]). u + mg_graceWindow m \<le> t2"
  shows "State_of p m' = StateUnavailable"
proof -
  define b where "b = t2 - mg_graceWindow m"
  have before: "\<forall>(u, e) \<in> set history. u \<le> b" "\<forall>(u, e) \<in> set es1. u \<le> b" "t1 \<le> b" "b + mg_graceWindow m \<le> t2"
    using assms(10) by (auto simp: b_def le_diff_eq)
  have "0 < t1" using assms(8) by (auto simp: assoc_run_append assoc_run_simps(2))
  then have b: "0 < b" using before(3) by simp
  have ok: "assoc_ok b m" using assoc_ok_run[OF assms(3) assoc_ok_New[OF assms(1) b] before(1)] .
  have "mg_timeout m = mg_timeout m0" using assoc_run_config[OF assms(3)] by simp
  also have "\<dots> < 2 ^ 63"
    using assms(1,2) by (auto simp: New_assoc_def Let_def DefaultTimeout_assoc_def split: if_splits)
  finally have "\<exists>r'. mg_records m' p = Some r' \<and> ar_State r' = StateUnavailable"
    using silent_expires[OF ok _ assms(4,8,5-7) before(2,3) assms(9) before(4)] by blast
  moreover have "Unmap p = p" using assoc_okD[OF ok assms(4)] by (simp add: record_ok_def)
  ultimately show ?thesis by (auto simp: State_of_def)
qed

text \<open>(bounds) The remaining grace time that the user planes report is never negative and never more than the
  configured grace window, in every reachable state, and it is zero for a peer that may create sessions.\<close>

theorem GraceRemaining_bounds:
  assumes "New_assoc timeout graceWindow = Some m0" "0 < t0" "assoc_trace t0 m0 es now m"
  shows "0 \<le> GraceRemaining now p m \<and> GraceRemaining now p m \<le> mg_graceWindow m \<and>
    (0 < GraceRemaining now p m \<longrightarrow> \<not> CanCreate p m)"
proof -
  have ok: "assoc_ok now m" using assoc_ok_trace[OF assms(3) assoc_ok_New[OF assms(1,2)]] .
  then have g: "0 < mg_graceWindow m" by (simp add: assoc_ok_def)
  show ?thesis
  proof (cases "mg_records m (Unmap p)")
    case None
    with g show ?thesis by (simp add: GraceRemaining_def)
  next
    case (Some r)
    have "Sub_time (ar_GraceDeadline r) now \<le> mg_graceWindow m" if "in_grace (ar_State r)"
      using that g assoc_okD[OF ok Some] by (intro Sub_time_le) (auto simp: record_ok_def)
    with Some g show ?thesis
      by (auto simp: GraceRemaining_def Let_def in_grace_def CanCreate_def State_of_def split: if_splits)
  qed
qed

section \<open>A sample run\<close>

text \<open>A peer sets up at instant 1, falls silent and is swept twice.\<close>

definition sample_setup :: assoc_event where "sample_setup = EvSetup sample_peer sample_peer [] 7"

definition associated_manager :: Manager_assoc where
  "associated_manager = assoc_step 1 sample_setup sample_manager"

definition grace_manager :: Manager_assoc where
  "grace_manager = assoc_step 15000000001 (EvSweep [sample_peer]) associated_manager"

definition expired_manager :: Manager_assoc where
  "expired_manager = assoc_step 135000000001 (EvSweep [sample_peer]) grace_manager"

definition sample_record :: Record_assoc where
  "sample_record = \<lparr>ar_Peer = sample_peer, ar_NodeAddress = sample_peer, ar_NodeFQDN = [], ar_RecoveryTime = 7,
     ar_State = StateAssociated, ar_EstablishedAt = 1, ar_LastSeen = 1, ar_GraceStarted = 0, ar_GraceDeadline = 0\<rparr>"

lemma sample_Unmap [simp]: "Unmap sample_peer = sample_peer" "sample_peer \<noteq> sample_peer2" "sample_peer2 \<noteq> sample_peer"
  by (simp_all add: sample_peer_def sample_peer2_def)

lemma associated_records: "mg_records associated_manager = [sample_peer \<mapsto> sample_record]"
  "mg_timeout associated_manager = 15000000000" "mg_graceWindow associated_manager = 120000000000"
  by (simp_all add: associated_manager_def sample_setup_def Setup_assoc_def sample_manager_def setup_record_def
    setup_reconciles_def sample_record_def Let_def)

lemma grace_records: "mg_records grace_manager = [sample_peer \<mapsto> sample_record\<lparr>ar_State := StateGrace,
    ar_GraceStarted := 15000000001, ar_GraceDeadline := 135000000001\<rparr>]"
  by (simp add: grace_manager_def Sweep_assoc_def associated_records sweep_record_def sample_record_def IsZero_time_def
    Sub_time_def Let_def)

lemma sample_setup_trace: "assoc_trace 1 sample_manager [(1, sample_setup)] 2 associated_manager"
  by (simp add: assoc_trace_simps associated_manager_def[symmetric]) (simp add: sample_setup_def)

lemma sample_sweeps_trace:
  "assoc_trace 2 associated_manager [(15000000001, EvSweep [sample_peer]), (135000000001, EvSweep [sample_peer])]
     135000000001 expired_manager"
  unfolding assoc_trace_simps expired_manager_def grace_manager_def[symmetric]
  by (simp add: associated_records grace_records)

definition two_peers :: Manager_assoc where
  "two_peers = set_record sample_peer2 (sample_record\<lparr>ar_Peer := sample_peer2\<rparr>) associated_manager"

theorem reconcile_before_create_witness:
  "\<not> CanCreate sample_peer (assoc_step 15000000002 sample_setup grace_manager) \<and>
   CanMutate sample_peer (assoc_step 15000000002 sample_setup grace_manager)"
proof -
  have "assoc_trace 15000000001 grace_manager [(15000000002, sample_setup)] 15000000002
      (assoc_step 15000000002 sample_setup grace_manager)"
    by (simp add: assoc_trace_simps sample_setup_def)
  from reconcile_before_create[OF this, of sample_peer] show ?thesis
    by (simp add: grace_records sample_setup_def CanMutate_def State_of_def Setup_assoc_def Let_def
      setup_reconciles_def)
qed

theorem silent_peer_expires_witness: "State_of sample_peer expired_manager = StateUnavailable"
  using silent_peer_expires[OF sample_New _ assoc_trace_run[OF sample_setup_trace], of sample_peer sample_record "[]" "[]"
      "[]" 15000000001 "[sample_peer]" 135000000001 "[sample_peer]" expired_manager]
    assoc_trace_run[OF sample_sweeps_trace]
  by (simp add: associated_records sample_record_def)

end
