(* ===== verification/Response_Cache.thy ===== *)
theory Response_Cache
  imports Cups_Prelude
begin

text \<open>
  The response cache of the control-plane servers, \<^verbatim>\<open>internal/responsecache/cache.go\<close>: a map from keys to elements of
  a doubly linked list (\<^verbatim>\<open>container/list\<close>) in order of use. Elements are pointers in the code; here they are
  natural numbers into a heap of entries, and the list is the list of its elements. Each method holds the lock and is
  one step; the clock is an argument. The second half shows that the pointer structure implements a plain list of
  entries, least recently used first.
\<close>

section \<open>The cache\<close>

record 'k entry_rc =
  en_key :: 'k
  en_wire :: "byte list"
  en_expiresAt :: int

record 'k Cache_rc =
  rc_capacity :: int
  rc_ttl :: int
  rc_entries :: "'k \<rightharpoonup> nat"
  rc_order :: "nat list"
  rc_heap :: "nat \<Rightarrow> 'k entry_rc"
  rc_alloc :: nat

text \<open>The heap is arbitrary where no element was allocated; \<open>rc_alloc\<close> is the next free address.\<close>

definition New_rc :: "(nat \<Rightarrow> 'k entry_rc) \<Rightarrow> int \<Rightarrow> int \<Rightarrow> 'k Cache_rc" where
  "New_rc heap capacity ttl = \<lparr>rc_capacity = capacity, rc_ttl = ttl, rc_entries = Map.empty, rc_order = [],
     rc_heap = heap, rc_alloc = 0\<rparr>"

definition remove_rc :: "nat option \<Rightarrow> 'k Cache_rc \<Rightarrow> 'k Cache_rc" where
  "remove_rc element c = (case element of None \<Rightarrow> c
     | Some e \<Rightarrow> c\<lparr>rc_entries := (rc_entries c)(en_key (rc_heap c e) := None), rc_order := remove1 e (rc_order c)\<rparr>)"

definition MoveToBack :: "nat \<Rightarrow> 'k Cache_rc \<Rightarrow> 'k Cache_rc" where
  "MoveToBack e c = c\<lparr>rc_order := (if e \<in> set (rc_order c) then remove1 e (rc_order c) @ [e] else rc_order c)\<rparr>"

definition PushBack :: "'k entry_rc \<Rightarrow> 'k Cache_rc \<Rightarrow> nat \<times> 'k Cache_rc" where
  "PushBack v c = (rc_alloc c, c\<lparr>rc_heap := (rc_heap c)(rc_alloc c := v), rc_order := rc_order c @ [rc_alloc c],
     rc_alloc := Suc (rc_alloc c)\<rparr>)"

definition Front :: "'k Cache_rc \<Rightarrow> nat option" where
  "Front c = (case rc_order c of [] \<Rightarrow> None | e # _ \<Rightarrow> Some e)"

definition Get_rc :: "int \<Rightarrow> 'k \<Rightarrow> 'k Cache_rc \<Rightarrow> byte list option \<times> 'k Cache_rc" where
  "Get_rc now key c =
     (if rc_capacity c \<le> 0 \<or> rc_ttl c \<le> 0 then (None, c)
      else case rc_entries c key of None \<Rightarrow> (None, c)
      | Some e \<Rightarrow>
          let v = rc_heap c e in
          if \<not> now < en_expiresAt v then (None, remove_rc (Some e) c)
          else (Some (en_wire v), MoveToBack e c))"

definition Put_rc :: "int \<Rightarrow> 'k \<Rightarrow> byte list \<Rightarrow> 'k Cache_rc \<Rightarrow> 'k Cache_rc" where
  "Put_rc now key wire c =
     (if rc_capacity c \<le> 0 \<or> rc_ttl c \<le> 0 then c
      else case rc_entries c key of
        Some e \<Rightarrow>
          MoveToBack e (c\<lparr>rc_heap := (rc_heap c)(e := (rc_heap c e)\<lparr>en_wire := wire, en_expiresAt := now + rc_ttl c\<rparr>)\<rparr>)
      | None \<Rightarrow>
          let c = (if int (length (rc_order c)) \<ge> rc_capacity c then remove_rc (Front c) c else c);
              (e, c) = PushBack \<lparr>en_key = key, en_wire = wire, en_expiresAt = now + rc_ttl c\<rparr> c
          in c\<lparr>rc_entries := (rc_entries c)(key \<mapsto> e)\<rparr>)"

definition Len_rc :: "'k Cache_rc \<Rightarrow> nat" where
  "Len_rc c = card (dom (rc_entries c))"

section \<open>The list it implements\<close>

definition lru_drop :: "'k \<Rightarrow> 'k entry_rc list \<Rightarrow> 'k entry_rc list" where
  "lru_drop k xs = filter (\<lambda>v. en_key v \<noteq> k) xs"

definition lru_find :: "'k \<Rightarrow> 'k entry_rc list \<Rightarrow> 'k entry_rc option" where
  "lru_find k xs = find (\<lambda>v. en_key v = k) xs"

definition lru_get :: "int \<Rightarrow> 'k \<Rightarrow> 'k entry_rc list \<Rightarrow> byte list option \<times> 'k entry_rc list" where
  "lru_get now k xs = (case lru_find k xs of None \<Rightarrow> (None, xs)
     | Some v \<Rightarrow> if en_expiresAt v \<le> now then (None, lru_drop k xs) else (Some (en_wire v), lru_drop k xs @ [v]))"

definition lru_put :: "nat \<Rightarrow> int \<Rightarrow> 'k \<Rightarrow> byte list \<Rightarrow> 'k entry_rc list \<Rightarrow> 'k entry_rc list" where
  "lru_put capacity deadline k wire xs =
     (case lru_find k xs of None \<Rightarrow> (if capacity \<le> length xs then tl xs else xs) | Some _ \<Rightarrow> lru_drop k xs)
     @ [\<lparr>en_key = k, en_wire = wire, en_expiresAt = deadline\<rparr>]"

definition contents :: "'k Cache_rc \<Rightarrow> 'k entry_rc list" where
  "contents c = map (rc_heap c) (rc_order c)"

definition keys_rc :: "'k entry_rc list \<Rightarrow> 'k list" where
  "keys_rc xs = map en_key xs"

text \<open>The invariant of the pointer structure: the map leads to exactly the elements of the list, by their keys.\<close>

definition cache_ok :: "'k Cache_rc \<Rightarrow> bool" where
  "cache_ok c \<longleftrightarrow> distinct (rc_order c) \<and> (\<forall>e \<in> set (rc_order c). e < rc_alloc c) \<and>
     (\<forall>k e. rc_entries c k = Some e \<longleftrightarrow> e \<in> set (rc_order c) \<and> en_key (rc_heap c e) = k) \<and>
     int (length (rc_order c)) \<le> max 0 (rc_capacity c)"

lemma cache_okD:
  assumes "cache_ok c"
  shows "distinct (rc_order c)" "e \<in> set (rc_order c) \<Longrightarrow> e < rc_alloc c"
    "rc_entries c k = Some e \<longleftrightarrow> e \<in> set (rc_order c) \<and> en_key (rc_heap c e) = k"
    "int (length (rc_order c)) \<le> max 0 (rc_capacity c)"
  using assms unfolding cache_ok_def by blast+

lemma cache_ok_New: "cache_ok (New_rc heap capacity ttl)"
  by (simp add: cache_ok_def New_rc_def)

text \<open>No two elements have the same key.\<close>

lemma order_key_inj: "cache_ok c \<Longrightarrow> inj_on (\<lambda>e. en_key (rc_heap c e)) (set (rc_order c))"
  by (rule inj_onI) (metis cache_okD(3) option.inject)

lemma distinct_keys: "cache_ok c \<Longrightarrow> distinct (keys_rc (contents c))"
  by (simp add: keys_rc_def contents_def distinct_map cache_okD(1) order_key_inj comp_def)

lemma lru_drop_contents:
  assumes "cache_ok c" "e \<in> set (rc_order c)"
  shows "lru_drop (en_key (rc_heap c e)) (contents c) = map (rc_heap c) (remove1 e (rc_order c))"
proof -
  have "filter (\<lambda>v. en_key v \<noteq> en_key (rc_heap c e)) (map (rc_heap c) (rc_order c)) =
      map (rc_heap c) (filter (\<lambda>x. x \<noteq> e) (rc_order c))"
    using assms order_key_inj[OF assms(1)] by (auto simp: filter_map comp_def inj_on_def intro!: arg_cong[where f="map _"] filter_cong)
  then show ?thesis
    using cache_okD(1)[OF assms(1)] by (simp add: lru_drop_def contents_def distinct_remove1_removeAll removeAll_filter_not_eq eq_commute)
qed

lemma lru_find_contents:
  assumes "cache_ok c"
  shows "lru_find k (contents c) = map_option (rc_heap c) (rc_entries c k)"
proof (cases "rc_entries c k")
  case None
  then have "\<forall>e \<in> set (rc_order c). en_key (rc_heap c e) \<noteq> k" using cache_okD(3)[OF assms] by (metis option.distinct(1))
  with None show ?thesis by (auto simp: lru_find_def contents_def find_None_iff)
next
  case (Some e)
  then have e: "e \<in> set (rc_order c)" "en_key (rc_heap c e) = k" using cache_okD(3)[OF assms] by auto
  obtain v where v: "lru_find k (contents c) = Some v"
    using e by (cases "lru_find k (contents c)") (auto simp: lru_find_def contents_def find_None_iff)
  then have "v \<in> set (contents c)" "en_key v = k" by (auto simp: lru_find_def find_Some_iff)
  then have "v = rc_heap c e"
    using e order_key_inj[OF assms] by (auto simp: contents_def inj_on_def)
  with v Some show ?thesis by simp
qed

section \<open>Refinement\<close>

lemma remove_rc_ok:
  assumes "cache_ok c" "e \<in> set (rc_order c)"
  shows "cache_ok (remove_rc (Some e) c)"
    "contents (remove_rc (Some e) c) = lru_drop (en_key (rc_heap c e)) (contents c)"
proof -
  have "rc_entries c k = Some x \<longleftrightarrow> x \<in> set (rc_order c) \<and> en_key (rc_heap c x) = k" for k x
    by (rule cache_okD(3)[OF assms(1)])
  then show "cache_ok (remove_rc (Some e) c)"
    using assms cache_okD(1,2,4)[OF assms(1)] order_key_inj[OF assms(1)]
    by (auto simp: cache_ok_def remove_rc_def length_remove1 inj_on_def split: if_splits)
  show "contents (remove_rc (Some e) c) = lru_drop (en_key (rc_heap c e)) (contents c)"
    using lru_drop_contents[OF assms] by (simp add: contents_def remove_rc_def)
qed

lemma MoveToBack_ok:
  assumes "cache_ok c" "e \<in> set (rc_order c)"
  shows "cache_ok (MoveToBack e c)"
    "contents (MoveToBack e c) = lru_drop (en_key (rc_heap c e)) (contents c) @ [rc_heap c e]"
proof -
  have s: "set (remove1 e (rc_order c) @ [e]) = set (rc_order c)" "distinct (remove1 e (rc_order c) @ [e])"
    "length (remove1 e (rc_order c) @ [e]) = length (rc_order c)"
    using assms cache_okD(1)[OF assms(1)]
    by (auto simp: length_remove1, metis One_nat_def Suc_pred length_pos_if_in_set)
  show "cache_ok (MoveToBack e c)"
    using assms s unfolding cache_ok_def MoveToBack_def by simp
  show "contents (MoveToBack e c) = lru_drop (en_key (rc_heap c e)) (contents c) @ [rc_heap c e]"
    using assms(2) lru_drop_contents[OF assms] by (simp add: contents_def MoveToBack_def)
qed

lemma rewrite_ok:
  assumes "cache_ok c" "e \<in> set (rc_order c)" "en_key v = en_key (rc_heap c e)"
  shows "cache_ok (c\<lparr>rc_heap := (rc_heap c)(e := v)\<rparr>)"
    "lru_drop (en_key v) (contents (c\<lparr>rc_heap := (rc_heap c)(e := v)\<rparr>)) = lru_drop (en_key v) (contents c)"
proof -
  show "cache_ok (c\<lparr>rc_heap := (rc_heap c)(e := v)\<rparr>)" using assms unfolding cache_ok_def by auto
  then show "lru_drop (en_key v) (contents (c\<lparr>rc_heap := (rc_heap c)(e := v)\<rparr>)) = lru_drop (en_key v) (contents c)"
    using lru_drop_contents[OF assms(1,2)] lru_drop_contents[of "c\<lparr>rc_heap := (rc_heap c)(e := v)\<rparr>" e] assms
      cache_okD(1)[OF assms(1)] by (auto simp: fun_upd_def)
qed

lemma front_ok:
  assumes "cache_ok c" "rc_order c \<noteq> []"
  shows "cache_ok (remove_rc (Front c) c)" "contents (remove_rc (Front c) c) = tl (contents c)"
    "length (rc_order (remove_rc (Front c) c)) < length (rc_order c)"
    "rc_alloc (remove_rc (Front c) c) = rc_alloc c" "rc_capacity (remove_rc (Front c) c) = rc_capacity c"
    "rc_entries c k = None \<Longrightarrow> rc_entries (remove_rc (Front c) c) k = None"
proof -
  obtain e es where o: "rc_order c = e # es" using assms(2) by (cases "rc_order c") auto
  have "cache_ok (remove_rc (Some e) c)" using remove_rc_ok(1)[OF assms(1)] o by simp
  then show "cache_ok (remove_rc (Front c) c)" by (simp add: Front_def o)
qed (use assms in \<open>auto simp: Front_def remove_rc_def contents_def split: list.splits\<close>)

lemma push_ok:
  assumes "cache_ok c" "rc_entries c k = None" "int (length (rc_order c)) < rc_capacity c" "en_key v = k"
  defines "r \<equiv> PushBack v c"
  defines "c' \<equiv> (snd r)\<lparr>rc_entries := (rc_entries (snd r))(k \<mapsto> fst r)\<rparr>"
  shows "cache_ok c'" "contents c' = contents c @ [v]"
proof -
  have new: "rc_alloc c \<notin> set (rc_order c)" using cache_okD(2)[OF assms(1)] by blast
  have "\<forall>e \<in> set (rc_order c). en_key (rc_heap c e) \<noteq> k"
    using assms(2) cache_okD(3)[OF assms(1)] by (metis option.distinct(1))
  then show "cache_ok c'"
    using assms(1,3,4) new unfolding cache_ok_def c'_def r_def PushBack_def by (auto simp: less_Suc_eq)
  show "contents c' = contents c @ [v]" using new by (simp add: c'_def r_def PushBack_def contents_def)
qed

definition enabled_rc :: "'k Cache_rc \<Rightarrow> bool" where
  "enabled_rc c \<longleftrightarrow> 0 < rc_capacity c \<and> 0 < rc_ttl c"

lemma Get_rc_refines:
  assumes "cache_ok c" "enabled_rc c"
  shows "cache_ok (snd (Get_rc now k c)) \<and> fst (Get_rc now k c) = fst (lru_get now k (contents c)) \<and>
    contents (snd (Get_rc now k c)) = snd (lru_get now k (contents c))"
proof (cases "rc_entries c k")
  case (Some e)
  then have e: "e \<in> set (rc_order c)" "en_key (rc_heap c e) = k" using cache_okD(3)[OF assms(1)] by auto
  show ?thesis
    using assms(2) Some e remove_rc_ok[OF assms(1) e(1)] MoveToBack_ok[OF assms(1) e(1)] lru_find_contents[OF assms(1), of k]
    by (auto simp: Get_rc_def lru_get_def enabled_rc_def Let_def)
qed (use assms lru_find_contents[OF assms(1), of k] in \<open>auto simp: Get_rc_def lru_get_def\<close>)

lemma Put_rc_refines:
  assumes "cache_ok c" "enabled_rc c"
  shows "cache_ok (Put_rc now k wire c) \<and>
    contents (Put_rc now k wire c) = lru_put (nat (rc_capacity c)) (now + rc_ttl c) k wire (contents c)"
proof (cases "rc_entries c k")
  case (Some e)
  let ?v = "(rc_heap c e)\<lparr>en_wire := wire, en_expiresAt := now + rc_ttl c\<rparr>"
  have e: "e \<in> set (rc_order c)" "en_key (rc_heap c e) = k" using Some cache_okD(3)[OF assms(1)] by auto
  define d where "d = c\<lparr>rc_heap := (rc_heap c)(e := ?v)\<rparr>"
  have d: "cache_ok d" "lru_drop k (contents d) = lru_drop k (contents c)" "rc_order d = rc_order c"
    "rc_heap d e = \<lparr>en_key = k, en_wire = wire, en_expiresAt = now + rc_ttl c\<rparr>"
    using rewrite_ok[OF assms(1) e(1), of ?v] e(2) by (simp_all add: d_def)
  have "Put_rc now k wire c = MoveToBack e d" using assms(2) Some by (simp add: Put_rc_def enabled_rc_def d_def)
  then show ?thesis
    using MoveToBack_ok[OF d(1), of e] d e(1) lru_find_contents[OF assms(1), of k] Some by (simp add: lru_put_def)
next
  case None
  let ?full = "int (length (rc_order c)) \<ge> rc_capacity c"
  define d where "d = (if ?full then remove_rc (Front c) c else c)"
  have ttl: "rc_ttl d = rc_ttl c" by (simp add: d_def remove_rc_def split: option.splits)
  have ne: "rc_order c \<noteq> []" if ?full using that assms(2) by (auto simp: enabled_rc_def)
  have cap: "int (length (rc_order c)) \<le> rc_capacity c" using cache_okD(4)[OF assms(1)] assms(2) by (simp add: enabled_rc_def)
  have d: "cache_ok d" "rc_entries d k = None" "int (length (rc_order d)) < rc_capacity d"
    "contents d = (if ?full then tl (contents c) else contents c)"
    using front_ok[OF assms(1) ne] None assms(1) cap by (auto simp: d_def)
  note p = push_ok[OF d(1-3), of "\<lparr>en_key = k, en_wire = wire, en_expiresAt = now + rc_ttl c\<rparr>"]
  have "Put_rc now k wire c = (let r = PushBack \<lparr>en_key = k, en_wire = wire, en_expiresAt = now + rc_ttl c\<rparr> d
      in (snd r)\<lparr>rc_entries := (rc_entries (snd r))(k \<mapsto> fst r)\<rparr>)"
    using None assms(2) ttl by (simp add: Put_rc_def enabled_rc_def d_def Let_def split_def)
  moreover have "(nat (rc_capacity c) \<le> length (contents c)) = ?full" by (auto simp: contents_def)
  ultimately show ?thesis
    using p d(4) lru_find_contents[OF assms(1), of k] None by (simp add: Let_def lru_put_def)
qed

section \<open>Runs of the cache\<close>

datatype 'k cache_event = CGet 'k | CPut 'k "byte list"

fun cache_step :: "int \<Rightarrow> 'k cache_event \<Rightarrow> 'k Cache_rc \<Rightarrow> 'k Cache_rc" where
  "cache_step now (CGet k) c = snd (Get_rc now k c)"
| "cache_step now (CPut k wire) c = Put_rc now k wire c"

fun cache_run :: "(int \<times> 'k cache_event) list \<Rightarrow> 'k Cache_rc \<Rightarrow> 'k Cache_rc" where
  "cache_run [] c = c"
| "cache_run ((now, e) # es) c = cache_run es (cache_step now e c)"

fun event_key :: "'k cache_event \<Rightarrow> 'k" where
  "event_key (CGet k) = k" | "event_key (CPut k wire) = k"

lemma disabled_step: "\<not> enabled_rc c \<Longrightarrow> cache_step now e c = c"
  by (cases e) (auto simp: enabled_rc_def Get_rc_def Put_rc_def)

lemma cache_step_config [simp]:
  "rc_capacity (cache_step now e c) = rc_capacity c" "rc_ttl (cache_step now e c) = rc_ttl c"
  by (cases e; simp add: Get_rc_def Put_rc_def remove_rc_def MoveToBack_def PushBack_def Let_def split: option.splits)+

lemma cache_ok_step: "cache_ok c \<Longrightarrow> cache_ok (cache_step now e c)"
proof (cases "enabled_rc c")
  case True
  then show "cache_ok c \<Longrightarrow> ?thesis" by (cases e) (auto simp: Get_rc_refines Put_rc_refines)
qed (simp add: disabled_step)

lemma cache_run_ok: "cache_ok c \<Longrightarrow> cache_ok (cache_run es c) \<and> rc_capacity (cache_run es c) = rc_capacity c"
  by (induction es c rule: cache_run.induct) (simp_all add: cache_ok_step)

lemma Len_rc_contents: "cache_ok c \<Longrightarrow> Len_rc c = length (contents c)"
proof -
  assume ok: "cache_ok c"
  have "dom (rc_entries c) = set (keys_rc (contents c))"
    using cache_okD(3)[OF ok] by (force simp: keys_rc_def contents_def dom_def)
  then show ?thesis using distinct_card[OF distinct_keys[OF ok]] by (simp add: Len_rc_def keys_rc_def)
qed

text \<open>\<open>retained v T xs\<close>: the entry \<open>v\<close> is in the list and only keys of \<open>T\<close> were used after it.\<close>

definition retained :: "'k entry_rc \<Rightarrow> 'k set \<Rightarrow> 'k entry_rc list \<Rightarrow> bool" where
  "retained v T xs \<longleftrightarrow> (\<exists>ys zs. xs = ys @ v # zs \<and> set (keys_rc zs) \<subseteq> T)"

lemma retained_find: "retained v T xs \<Longrightarrow> distinct (keys_rc xs) \<Longrightarrow> lru_find (en_key v) xs = Some v"
proof -
  assume "retained v T xs" "distinct (keys_rc xs)"
  then obtain ys zs where x: "xs = ys @ v # zs" "en_key v \<notin> en_key ` set ys" by (auto simp: retained_def keys_rc_def)
  have "find (\<lambda>w. en_key w = en_key v) (ys @ v # zs) = Some v" using x(2) by (induction ys) auto
  then show ?thesis by (simp add: lru_find_def x(1))
qed

lemma retained_drop:
  assumes "retained v T xs" "j \<noteq> en_key v"
  shows "retained v T (lru_drop j xs)"
proof -
  obtain ys zs where "xs = ys @ v # zs" "set (keys_rc zs) \<subseteq> T" using assms(1) by (auto simp: retained_def)
  then have "lru_drop j xs = lru_drop j ys @ v # lru_drop j zs" "set (keys_rc (lru_drop j zs)) \<subseteq> T"
    using assms(2) by (auto simp: lru_drop_def keys_rc_def)
  then show ?thesis unfolding retained_def by blast
qed

lemma retained_snoc: "retained v T xs \<Longrightarrow> retained v (insert (en_key w) T) (xs @ [w])"
proof -
  assume "retained v T xs"
  then obtain ys zs where "xs = ys @ v # zs" "set (keys_rc zs) \<subseteq> T" by (auto simp: retained_def)
  then have "xs @ [w] = ys @ v # (zs @ [w])" "set (keys_rc (zs @ [w])) \<subseteq> insert (en_key w) T"
    by (auto simp: keys_rc_def)
  then show ?thesis unfolding retained_def by blast
qed

lemma retained_mono: "retained v T xs \<Longrightarrow> T \<subseteq> U \<Longrightarrow> retained v U xs"
  by (auto simp: retained_def)

lemma retained_last: "retained v T (xs @ [v])"
  unfolding retained_def by (rule exI[of _ xs], rule exI[of _ "[]"]) (simp add: keys_rc_def)

lemma find_key: "lru_find j xs = Some w \<Longrightarrow> en_key w = j"
  by (auto simp: lru_find_def find_Some_iff)

lemma retained_get:
  assumes "retained v T xs" "distinct (keys_rc xs)" "now < en_expiresAt v"
  shows "retained v (if j = en_key v then T else insert j T) (snd (lru_get now j xs))"
proof (cases "j = en_key v")
  case True
  with assms retained_find[OF assms(1,2)] show ?thesis by (simp add: lru_get_def retained_last)
next
  case False
  have "retained v (insert j T) (lru_drop j xs)" using retained_mono[OF retained_drop[OF assms(1) False]] by blast
  moreover have "retained v (insert j T) (lru_drop j xs @ [w])" if "lru_find j xs = Some w" for w
    using retained_snoc[OF retained_drop[OF assms(1) False], of w] find_key[OF that] by simp
  ultimately show ?thesis
    using False retained_mono[OF assms(1), of "insert j T"] by (auto simp: lru_get_def split: option.splits)
qed

lemma retained_tl:
  assumes "retained v T xs" "distinct (keys_rc xs)" "finite T" "Suc (card T) < length xs"
  shows "retained v T (tl xs)"
proof -
  obtain ys zs where x: "xs = ys @ v # zs" "set (keys_rc zs) \<subseteq> T" using assms(1) by (auto simp: retained_def)
  have "length zs = card (set (keys_rc zs))" using assms(2) x(1) distinct_card[of "keys_rc zs"] by (simp add: keys_rc_def)
  also have "\<dots> \<le> card T" using x(2) assms(3) by (rule card_mono[rotated])
  finally have "ys \<noteq> []" using x(1) assms(4) by auto
  then show ?thesis using x by (auto simp: retained_def)
qed

lemma retained_put:
  assumes "retained v T xs" "distinct (keys_rc xs)" "finite T" "j \<noteq> en_key v" "card (insert j T) < capacity"
    "length xs \<le> capacity"
  shows "retained v (insert j T) (lru_put capacity d j wire xs)"
proof -
  have snoc: "retained v (insert j T) (ys @ [\<lparr>en_key = j, en_wire = wire, en_expiresAt = d\<rparr>])" if "retained v T ys" for ys
    using retained_snoc[OF that, of "\<lparr>en_key = j, en_wire = wire, en_expiresAt = d\<rparr>"] by simp
  show ?thesis
  proof (cases "lru_find j xs")
    case None
    obtain ys zs where x: "xs = ys @ v # zs" "set (keys_rc zs) \<subseteq> T" using assms(1) by (auto simp: retained_def)
    have j: "j \<notin> set (keys_rc zs)" using None x(1) by (auto simp: lru_find_def find_None_iff keys_rc_def)
    have "retained v (T - {j}) xs" using x j by (auto simp: retained_def)
    moreover have "Suc (card (T - {j})) = card (insert j T)" using assms(3) by (simp add: card.insert_remove)
    ultimately have "retained v (T - {j}) (tl xs)" if "capacity \<le> length xs"
      using that retained_tl[of v "T - {j}" xs] assms by simp
    then have "retained v T (tl xs)" if "capacity \<le> length xs" using that retained_mono[of v "T - {j}" "tl xs" T] by blast
    with None assms(1) snoc show ?thesis by (simp add: lru_put_def)
  next
    case (Some w)
    with snoc[OF retained_drop[OF assms(1,4)]] show ?thesis by (simp add: lru_put_def)
  qed
qed

text \<open>The keys other than \<open>k\<close> that a run names.\<close>

definition other_keys :: "'k \<Rightarrow> (int \<times> 'k cache_event) list \<Rightarrow> 'k set" where
  "other_keys k es = {event_key e | u e. (u, e) \<in> set es} - {k}"

lemma other_keys_simps [simp]:
  "other_keys k [] = {}" "other_keys k ((u, e) # es) = (if event_key e = k then {} else {event_key e}) \<union> other_keys k es"
  "finite (other_keys k es)"
proof -
  show "other_keys k [] = {}" "other_keys k ((u, e) # es) = (if event_key e = k then {} else {event_key e}) \<union> other_keys k es"
    by (auto simp: other_keys_def)
  have "{event_key e | u e. (u, e) \<in> set es} = (\<lambda>(u, e). event_key e) ` set es" by force
  then show "finite (other_keys k es)" by (simp add: other_keys_def)
qed

definition undisturbed :: "'k entry_rc \<Rightarrow> (int \<times> 'k cache_event) list \<Rightarrow> bool" where
  "undisturbed v es \<longleftrightarrow> (\<forall>(u, e) \<in> set es. u < en_expiresAt v \<and> (\<forall>wire. e \<noteq> CPut (en_key v) wire))"

lemma retained_run:
  assumes "cache_ok c" "enabled_rc c" "retained v T (contents c)" "finite T" "undisturbed v es" "en_key v \<notin> T"
    "int (card (T \<union> other_keys (en_key v) es)) < rc_capacity c"
  shows "retained v (T \<union> other_keys (en_key v) es) (contents (cache_run es c))"
  using assms
proof (induction es arbitrary: c T)
  case (Cons a es)
  obtain u e where a: "a = (u, e)" by (cases a)
  let ?k = "en_key v" and ?c = "cache_step u e c"
  let ?T = "if event_key e = ?k then T else insert (event_key e) T"
  have u: "u < en_expiresAt v" "\<And>wire. e \<noteq> CPut ?k wire" "undisturbed v es"
    using Cons.prems(5) a by (auto simp: undisturbed_def)
  have T: "?T \<union> other_keys ?k es = T \<union> other_keys ?k (a # es)" by (auto simp: a)
  have "int (card ?T) \<le> int (card (?T \<union> other_keys ?k es))"
    using Cons.prems(4) by (simp add: card_mono del: Un_insert_left)
  then have card: "int (card ?T) < rc_capacity c" using Cons.prems(7) T by simp
  have len: "length (contents c) \<le> nat (rc_capacity c)"
    using cache_okD(4)[OF Cons.prems(1)] by (simp add: contents_def)
  have "retained v ?T (contents ?c)"
  proof (cases e)
    case (CGet j)
    with Get_rc_refines[OF Cons.prems(1,2)] retained_get[OF Cons.prems(3) distinct_keys[OF Cons.prems(1)] u(1), of j]
    show ?thesis by (simp split: if_splits)
  next
    case (CPut j wire)
    then have "j \<noteq> ?k" using u(2) by auto
    with CPut Put_rc_refines[OF Cons.prems(1,2)] card len
      retained_put[OF Cons.prems(3) distinct_keys[OF Cons.prems(1)] Cons.prems(4)]
    show ?thesis by simp
  qed
  moreover have "finite ?T" "?k \<notin> ?T" using Cons.prems(4,6) by auto
  moreover have "enabled_rc ?c" using Cons.prems(2) by (simp add: enabled_rc_def)
  ultimately have "retained v (?T \<union> other_keys ?k es) (contents (cache_run es ?c))"
    using Cons.IH[of ?c ?T] cache_ok_step[OF Cons.prems(1)] u(3) Cons.prems(7) T by simp
  then show ?case unfolding T by (simp add: a)
qed simp

lemma cache_run_config: "rc_capacity (cache_run es c) = rc_capacity c \<and> rc_ttl (cache_run es c) = rc_ttl c"
  by (induction es c rule: cache_run.induct) simp_all

lemma reachable_cache:
  assumes "0 < capacity" "0 < ttl" "c = cache_run es (New_rc heap capacity ttl)"
  shows "cache_ok c" "enabled_rc c" "rc_capacity c = capacity" "rc_ttl c = ttl"
  using cache_run_ok[OF cache_ok_New, of es heap capacity ttl] cache_run_config[of es "New_rc heap capacity ttl"] assms
  by (simp_all add: New_rc_def enabled_rc_def)

section \<open>Properties\<close>

text \<open>(bounds) The cache never holds more than its capacity of responses, after any sequence of calls and for any
  capacity, a negative one included.\<close>

theorem cache_bounded: "int (Len_rc (cache_run es (New_rc heap capacity ttl))) \<le> max 0 capacity"
proof -
  let ?c = "cache_run es (New_rc heap capacity ttl)"
  have ok: "cache_ok ?c" "rc_capacity ?c = capacity"
    using cache_run_ok[OF cache_ok_New, of es heap capacity ttl] by (simp_all add: New_rc_def)
  then show ?thesis using cache_okD(4)[OF ok(1)] Len_rc_contents[OF ok(1)] by (simp add: contents_def)
qed

text \<open>C25: (refinement) The map of pointers into a linked list implements a plain list of entries in order of use: in
  every reachable state \<^verbatim>\<open>Get\<close> and \<^verbatim>\<open>Put\<close> act on the contents of the cache as the list functions do, and \<^verbatim>\<open>Get\<close>
  returns what the list holds.\<close>

theorem cache_implements_lru:
  assumes "0 < capacity" "0 < ttl" "c = cache_run es (New_rc heap capacity ttl)"
  shows "fst (Get_rc now k c) = fst (lru_get now k (contents c)) \<and>
    contents (snd (Get_rc now k c)) = snd (lru_get now k (contents c)) \<and>
    contents (Put_rc now k wire c) = lru_put (nat capacity) (now + ttl) k wire (contents c)"
  using reachable_cache[OF assms] Get_rc_refines[of c now k] Put_rc_refines[of c now k wire] by simp

text \<open>(functional) A duplicate request is answered: a response that was stored is returned unchanged until it
  expires, as long as fewer other keys than the capacity are used in between and the key is not stored again.\<close>

theorem cache_retains:
  assumes "0 < capacity" "0 < ttl" "c = Put_rc t k wire (cache_run before (New_rc heap capacity ttl))"
    "undisturbed \<lparr>en_key = k, en_wire = wire, en_expiresAt = t + ttl\<rparr> es" "now < t + ttl"
    "int (card (other_keys k es)) < capacity"
  shows "fst (Get_rc now k (cache_run es c)) = Some wire"
proof -
  let ?v = "\<lparr>en_key = k, en_wire = wire, en_expiresAt = t + ttl\<rparr>"
  let ?b = "cache_run before (New_rc heap capacity ttl)"
  note b = reachable_cache[OF assms(1,2) refl, of before heap]
  have c: "cache_ok c" "contents c = lru_put (nat capacity) (t + ttl) k wire (contents ?b)"
    using Put_rc_refines[OF b(1,2), of t k wire] b(3,4) assms(3) by simp_all
  have e: "enabled_rc c" "rc_capacity c = capacity"
    using cache_step_config[of t "CPut k wire" ?b] b(2-4) assms(3) by (simp_all add: enabled_rc_def)
  have "retained ?v {} (contents c)" by (simp add: c(2) lru_put_def retained_last)
  then have r: "retained ?v (other_keys k es) (contents (cache_run es c))"
    using retained_run[OF c(1) e(1), of ?v "{}" es] assms(4,6) e(2) by simp
  have ok: "cache_ok (cache_run es c)" "enabled_rc (cache_run es c)"
    using cache_run_ok[OF c(1), of es] cache_run_config[of es c] e(1) by (simp_all add: enabled_rc_def)
  show ?thesis
    using Get_rc_refines[OF ok, of now k] retained_find[OF r distinct_keys[OF ok(1)]] assms(5) by (simp add: lru_get_def)
qed

section \<open>A sample run\<close>

definition sample_entry :: "nat entry_rc" where "sample_entry = \<lparr>en_key = 0, en_wire = [], en_expiresAt = 0\<rparr>"

definition sample_cache :: "nat Cache_rc" where "sample_cache = New_rc (\<lambda>_. sample_entry) 2 10"

theorem cache_implements_lru_witness:
  "contents (Put_rc 5 7 [1] (cache_run [(1, CPut 8 [2]), (2, CPut 9 [3])] sample_cache)) =
     lru_put 2 15 7 [1] (contents (cache_run [(1, CPut 8 [2]), (2, CPut 9 [3])] sample_cache))"
  using cache_implements_lru[where capacity=2 and ttl=10 and es="[(1, CPut 8 [2]), (2, CPut 9 [3])]" and
      heap="\<lambda>_. sample_entry" and c="cache_run [(1, CPut 8 [2]), (2, CPut 9 [3])] sample_cache" and
      now=5 and k=7 and wire="[1]"]
  by (simp add: sample_cache_def)

end
