(* ===== verification/Sgwu_Decode.thy ===== *)
theory Sgwu_Decode
  imports Pfcp_Addresses Sgwu_Rules
begin

unbundle bit_operations_syntax

text \<open>
  How the serving gateway user plane reads rules from PFCP requests: the decoding functions of
  \<^verbatim>\<open>internal/sgwu/pfcpserver/server.go\<close> for PDRs, FARs, QERs, URRs and BARs, for a whole session
  (\<^verbatim>\<open>decodeSession\<close>) and for a modification of a session (\<^verbatim>\<open>applyModifications\<close>). Every error of the code is an
  error here; its text is left out.
\<close>

section \<open>Reading elements\<close>

datatype decode_error = IeError pfcp_error | InvalidRule | DuplicateRule | UnknownRule | WrongAddress | UnsupportedRule

text \<open>The error of an accessor passed on, and \<^verbatim>\<open>err != nil || bad\<close> answered by an error of the server.\<close>

definition ie_result :: "(pfcp_error, 'a) outcome \<Rightarrow> (decode_error, 'a) outcome" where
  "ie_result r = (case r of Ok a \<Rightarrow> Ok a | Err e \<Rightarrow> Err (IeError e) | Panic \<Rightarrow> Panic)"

definition ie_check :: "('a \<Rightarrow> bool) \<Rightarrow> (pfcp_error, 'a) outcome \<Rightarrow> (decode_error, 'a) outcome" where
  "ie_check good r = (case r of Ok a \<Rightarrow> if good a then Ok a else Err InvalidRule | Err e \<Rightarrow> Err InvalidRule | Panic \<Rightarrow> Panic)"

definition required :: "IE_pfcp list \<Rightarrow> 16 word \<Rightarrow> (decode_error, IE_pfcp) outcome" where
  "required ies ty = (case FindIE_pfcp ies ty of None \<Rightarrow> Err (IeError ErrMissingIE_pfcp) | Some ie \<Rightarrow> Ok ie)"

text \<open>\<^verbatim>\<open>if ie, ok := FindIE(ies, ty); ok\<close> around a change of \<open>v\<close>.\<close>

definition when_present ::
  "IE_pfcp list \<Rightarrow> 16 word \<Rightarrow> 'b \<Rightarrow> (IE_pfcp \<Rightarrow> (decode_error, 'b) outcome) \<Rightarrow> (decode_error, 'b) outcome" where
  "when_present ies ty v f = (case FindIE_pfcp ies ty of None \<Rightarrow> Ok v | Some ie \<Rightarrow> f ie)"

section \<open>Single rules\<close>

fun rule_ids :: "IE_pfcp list \<Rightarrow> (decode_error, 32 word list) outcome" where
  "rule_ids [] = Ok []"
| "rule_ids (ie # ies) = andThen (ie_check (\<lambda>i. i \<noteq> 0) (Uint32_IE ie)) (\<lambda>i.
     andThen (rule_ids ies) (\<lambda>is. Ok (i # is)))"

definition decodePDR_sgwu :: "IE_pfcp \<Rightarrow> (decode_error, PDR_sgwu) outcome" where
  "decodePDR_sgwu grouped =
     andThen (ie_result (Children_IE_pfcp grouped)) (\<lambda>children.
     andThen (required children IEPDRID) (\<lambda>idIE.
     andThen (ie_result (PDRID_IE idIE)) (\<lambda>i.
     andThen (required children IEPDI) (\<lambda>pdiIE.
     andThen (ie_result (Children_IE_pfcp pdiIE)) (\<lambda>pdi.
     andThen (required pdi IESourceInterface) (\<lambda>sourceIE.
     andThen (required pdi IEFTEID_pfcp) (\<lambda>fteidIE.
     andThen (required children IEFARID) (\<lambda>farIDIE.
     andThen (required children IEOuterHeaderRemoval) (\<lambda>removalIE.
     andThen (ie_check (\<lambda>source. \<not> source > InterfaceCore) (Interface_IE sourceIE)) (\<lambda>source.
     andThen (ie_check (\<lambda>fteid. IsValid (pft_IPv4 fteid)) (FTEID_IE_pfcp fteidIE)) (\<lambda>fteid.
     andThen (ie_result (OuterHeaderRemoval_IE removalIE)) (\<lambda>_.
     andThen (ie_check (\<lambda>farID. farID \<noteq> 0) (Uint32_IE farIDIE)) (\<lambda>farID.
     andThen (when_present children IEPrecedence 0 (\<lambda>ie. ie_result (Uint32_IE ie))) (\<lambda>precedence.
     andThen (rule_ids (FindAllIEs_pfcp children IEQERID)) (\<lambda>qerIDs.
     andThen (rule_ids (FindAllIEs_pfcp children IEURRID)) (\<lambda>urrIDs.
     Ok \<lparr>pdr_ID = i, pdr_Precedence = precedence, pdr_SourceInterface = source,
         pdr_LocalFTEID = \<lparr>fu_TEID = pft_TEID fteid, fu_IP = pft_IPv4 fteid\<rparr>, pdr_FARID = farID,
         pdr_QERIDs = qerIDs, pdr_URRIDs = urrIDs\<rparr>))))))))))))))))"

definition applyForwardingParameters_sgwu :: "FAR_sgwu \<Rightarrow> IE_pfcp \<Rightarrow> (decode_error, FAR_sgwu) outcome" where
  "applyForwardingParameters_sgwu far grouped =
     andThen (ie_result (Children_IE_pfcp grouped)) (\<lambda>children.
     andThen (required children IEDestinationInterface) (\<lambda>destinationIE.
     andThen (ie_check (\<lambda>destination. \<not> destination > InterfaceCore) (Interface_IE destinationIE)) (\<lambda>destination.
     andThen (required children IEOuterHeaderCreation) (\<lambda>outerIE.
     andThen (ie_check (\<lambda>outer. IsValid (oh_IPv4 outer)) (OuterHeaderCreation_IE outerIE)) (\<lambda>outer.
     Ok (far\<lparr>far_DestinationInterface := destination,
             far_OuterHeader := Some \<lparr>fu_TEID = oh_TEID outer, fu_IP = oh_IPv4 outer\<rparr>\<rparr>))))))"

definition decodeFAR_sgwu :: "IE_pfcp \<Rightarrow> (decode_error, FAR_sgwu) outcome" where
  "decodeFAR_sgwu grouped =
     andThen (ie_result (Children_IE_pfcp grouped)) (\<lambda>children.
     andThen (required children IEFARID) (\<lambda>idIE.
     andThen (required children IEApplyAction) (\<lambda>actionIE.
     andThen (ie_check (\<lambda>i. i \<noteq> 0) (Uint32_IE idIE)) (\<lambda>i.
     andThen (ie_result (ApplyAction_IE actionIE)) (\<lambda>action.
     let far = \<lparr>far_ID = i, far_ApplyAction = action, far_DestinationInterface = 0, far_OuterHeader = None,
                far_BARID = 0\<rparr> in
     andThen (when_present children IEBARID far (\<lambda>ie.
       andThen (ie_result (BARID_IE ie)) (\<lambda>barID. Ok (far\<lparr>far_BARID := barID\<rparr>)))) (\<lambda>far.
     if action AND ApplyForward = 0 then Ok far
     else andThen (required children IEForwardingParameters) (applyForwardingParameters_sgwu far)))))))"

definition decodeQER_sgwu :: "IE_pfcp \<Rightarrow> 16 word \<Rightarrow> (decode_error, QER_sgwu) outcome" where
  "decodeQER_sgwu grouped enterpriseID =
     andThen (ie_result (Children_IE_pfcp grouped)) (\<lambda>children.
     andThen (required children IEQERID) (\<lambda>idIE.
     andThen (required children IEGateStatus) (\<lambda>gateIE.
     andThen (ie_check (\<lambda>i. i \<noteq> 0) (Uint32_IE idIE)) (\<lambda>i.
     andThen (ie_result (GateStatus_IE gateIE)) (\<lambda>(uplinkOpen, downlinkOpen).
     let qer = zeroQER\<lparr>qer_ID := i, qer_UplinkGateOpen := uplinkOpen, qer_DownlinkGateOpen := downlinkOpen\<rparr> in
     andThen (when_present children IEMBR qer (\<lambda>ie.
       andThen (ie_result (BitRate_IE ie)) (\<lambda>(uplink, downlink).
         Ok (qer\<lparr>qer_MaxUplinkBitsPerSecond := uplink * 1000, qer_MaxDownlinkBitsPerSecond := downlink * 1000\<rparr>)))) (\<lambda>qer.
     if enterpriseID = 0 then Ok qer
     else when_present children IEVendorBearerQoS qer (\<lambda>ie.
       andThen (ie_result (VendorBearerQoS_IE ie)) (\<lambda>metadata.
         Ok (if bq_EnterpriseID metadata = enterpriseID
             then qer\<lparr>qer_QCI := bq_QCI metadata, qer_ARP := bq_ARP metadata,
                      qer_PreemptionCapable := bq_PreemptionCapable metadata,
                      qer_PreemptionVulnerable := bq_PreemptionVulnerable metadata\<rparr>
             else qer)))))))))"

definition good_threshold :: "VolumeThreshold \<Rightarrow> bool" where
  "good_threshold t \<longleftrightarrow> vt_HasTotal t \<and> \<not> vt_HasUplink t \<and> \<not> vt_HasDownlink t"

definition decodeURR_sgwu :: "IE_pfcp \<Rightarrow> (decode_error, URR_sgwu) outcome" where
  "decodeURR_sgwu grouped =
     andThen (ie_result (Children_IE_pfcp grouped)) (\<lambda>children.
     andThen (required children IEURRID) (\<lambda>idIE.
     andThen (required children IEMeasurementMethod) (\<lambda>methodIE.
     andThen (required children IEReportingTriggers) (\<lambda>triggersIE.
     andThen (required children IEVolumeThreshold) (\<lambda>thresholdIE.
     andThen (ie_check (\<lambda>i. i \<noteq> 0) (Uint32_IE idIE)) (\<lambda>i.
     andThen (ie_check (\<lambda>(volume, duration). volume) (MeasurementMethod_IE methodIE)) (\<lambda>(volume, duration).
     andThen (ie_check (\<lambda>triggers. triggers = ReportingTriggerVolumeThreshold) (ReportingTriggers_IE triggersIE)) (\<lambda>_.
     andThen (ie_check good_threshold (VolumeThreshold_IE thresholdIE)) (\<lambda>threshold.
     Ok \<lparr>urr_ID = i, urr_MeasureVolume = volume, urr_MeasureDuration = duration,
         urr_ReportingThreshold = vt_Total threshold\<rparr>)))))))))"

definition updateURR_sgwu :: "URR_sgwu \<Rightarrow> IE_pfcp \<Rightarrow> (decode_error, URR_sgwu) outcome" where
  "updateURR_sgwu current grouped =
     andThen (ie_result (Children_IE_pfcp grouped)) (\<lambda>children.
     andThen (required children IEURRID) (\<lambda>idIE.
     andThen (ie_check (\<lambda>i. i = urr_ID current) (Uint32_IE idIE)) (\<lambda>_.
     andThen (when_present children IEMeasurementMethod current (\<lambda>ie.
       andThen (ie_check (\<lambda>(volume, duration). volume) (MeasurementMethod_IE ie)) (\<lambda>(volume, duration).
         Ok (current\<lparr>urr_MeasureVolume := volume, urr_MeasureDuration := duration\<rparr>)))) (\<lambda>updated.
     andThen (when_present children IEReportingTriggers () (\<lambda>ie.
       andThen (ie_check (\<lambda>triggers. triggers = ReportingTriggerVolumeThreshold) (ReportingTriggers_IE ie)) (\<lambda>_. Ok ()))) (\<lambda>_.
     when_present children IEVolumeThreshold updated (\<lambda>ie.
       andThen (ie_check good_threshold (VolumeThreshold_IE ie)) (\<lambda>threshold.
         Ok (updated\<lparr>urr_ReportingThreshold := vt_Total threshold\<rparr>))))))))"

definition decodeBAR_sgwu :: "IE_pfcp \<Rightarrow> (decode_error, BAR_sgwu) outcome" where
  "decodeBAR_sgwu grouped =
     andThen (ie_result (Children_IE_pfcp grouped)) (\<lambda>children.
     andThen (required children IEBARID) (\<lambda>idIE.
     andThen (ie_result (BARID_IE idIE)) (\<lambda>i.
     when_present children IEDownlinkDataNotifyDelay \<lparr>bar_ID = i, bar_DownlinkNotificationDelay = 0\<rparr> (\<lambda>ie.
       andThen (ie_result (DownlinkDataNotificationDelay_IE ie)) (\<lambda>delay.
         Ok \<lparr>bar_ID = i, bar_DownlinkNotificationDelay = delay\<rparr>)))))"

section \<open>A whole session\<close>

text \<open>The part of the server's configuration that decoding reads.\<close>

record RuleConfig =
  cf_AccessUserIP :: Addr
  cf_CoreUserIP :: Addr
  cf_EnterpriseID :: "16 word"

text \<open>The loops over the elements of one type: decode each element and add it under its new identifier; remove the
  rule it names; or change the rule it names.\<close>

fun create_rules ::
  "(IE_pfcp \<Rightarrow> (decode_error, 'v) outcome) \<Rightarrow> ('v \<Rightarrow> 'k) \<Rightarrow> IE_pfcp list \<Rightarrow> ('k \<rightharpoonup> 'v) \<Rightarrow>
   (decode_error, 'k \<rightharpoonup> 'v) outcome" where
  "create_rules decode ident [] m = Ok m"
| "create_rules decode ident (ie # ies) m = andThen (decode ie) (\<lambda>v.
     if m (ident v) \<noteq> None then Err DuplicateRule
     else create_rules decode ident ies (m(ident v \<mapsto> v)))"

fun remove_rules ::
  "(IE_pfcp \<Rightarrow> (decode_error, 'k) outcome) \<Rightarrow> IE_pfcp list \<Rightarrow> ('k \<rightharpoonup> 'v) \<Rightarrow> (decode_error, 'k \<rightharpoonup> 'v) outcome" where
  "remove_rules ident [] m = Ok m"
| "remove_rules ident (ie # ies) m = andThen (ident ie) (\<lambda>k.
     if m k = None then Err UnknownRule else remove_rules ident ies (m(k := None)))"

fun update_rules ::
  "(('k \<rightharpoonup> 'v) \<Rightarrow> IE_pfcp \<Rightarrow> (decode_error, 'k \<times> 'v) outcome) \<Rightarrow> IE_pfcp list \<Rightarrow> ('k \<rightharpoonup> 'v) \<Rightarrow>
   (decode_error, 'k \<rightharpoonup> 'v) outcome" where
  "update_rules update [] m = Ok m"
| "update_rules update (ie # ies) m = andThen (update m ie) (\<lambda>(k, v). update_rules update ies (m(k \<mapsto> v)))"

text \<open>A PDR must be received on the user-plane address of its side.\<close>

definition decodeLocalPDR :: "RuleConfig \<Rightarrow> IE_pfcp \<Rightarrow> (decode_error, PDR_sgwu) outcome" where
  "decodeLocalPDR config ie = andThen (decodePDR_sgwu ie) (\<lambda>pdr.
     let expectedIP = (if pdr_SourceInterface pdr = SourceCore then cf_CoreUserIP config else cf_AccessUserIP config) in
     if Unmap (fu_IP (pdr_LocalFTEID pdr)) \<noteq> expectedIP then Err WrongAddress else Ok pdr)"

definition decodeSession_sgwu ::
  "RuleConfig \<Rightarrow> IE_pfcp list \<Rightarrow> 64 word \<Rightarrow> 64 word \<Rightarrow> (decode_error, Session_sgwu) outcome" where
  "decodeSession_sgwu config ies cpSEID upSEID =
     andThen (create_rules decodeBAR_sgwu bar_ID (FindAllIEs_pfcp ies IECreateBAR) Map.empty) (\<lambda>bars.
     andThen (create_rules decodeFAR_sgwu far_ID (FindAllIEs_pfcp ies IECreateFAR) Map.empty) (\<lambda>fars.
     andThen (create_rules (\<lambda>ie. decodeQER_sgwu ie (cf_EnterpriseID config)) qer_ID (FindAllIEs_pfcp ies IECreateQER)
       Map.empty) (\<lambda>qers.
     andThen (create_rules decodeURR_sgwu urr_ID (FindAllIEs_pfcp ies IECreateURR) Map.empty) (\<lambda>urrs.
     andThen (create_rules (decodeLocalPDR config) pdr_ID (FindAllIEs_pfcp ies IECreatePDR) Map.empty) (\<lambda>pdrs.
     Ok \<lparr>su_CPSEID = cpSEID, su_UPSEID = upSEID, su_Revision = 0, su_PDRs = pdrs, su_FARs = fars, su_QERs = qers,
         su_URRs = urrs, su_BARs = bars\<rparr>)))))"

section \<open>Modifications\<close>

definition groupedPDRID_sgwu :: "IE_pfcp \<Rightarrow> (decode_error, 16 word) outcome" where
  "groupedPDRID_sgwu grouped =
     andThen (ie_result (Children_IE_pfcp grouped)) (\<lambda>children.
     andThen (required children IEPDRID) (\<lambda>idIE. ie_result (PDRID_IE idIE)))"

definition groupedUint32ID_sgwu :: "16 word \<Rightarrow> IE_pfcp \<Rightarrow> (decode_error, 32 word) outcome" where
  "groupedUint32ID_sgwu ty grouped =
     andThen (ie_result (Children_IE_pfcp grouped)) (\<lambda>children.
     andThen (required children ty) (\<lambda>idIE. ie_check (\<lambda>i. i \<noteq> 0) (Uint32_IE idIE)))"

definition groupedBARID :: "IE_pfcp \<Rightarrow> (decode_error, byte) outcome" where
  "groupedBARID grouped =
     andThen (ie_result (Children_IE_pfcp grouped)) (\<lambda>children.
     andThen (required children IEBARID) (\<lambda>idIE. ie_result (BARID_IE idIE)))"

definition updateFAR_sgwu :: "(32 word \<rightharpoonup> FAR_sgwu) \<Rightarrow> IE_pfcp \<Rightarrow> (decode_error, 32 word \<times> FAR_sgwu) outcome" where
  "updateFAR_sgwu fars grouped =
     andThen (ie_result (Children_IE_pfcp grouped)) (\<lambda>children.
     andThen (required children IEFARID) (\<lambda>idIE.
     andThen (ie_result (Uint32_IE idIE)) (\<lambda>i.
     case fars i of None \<Rightarrow> Err UnknownRule
     | Some far \<Rightarrow>
       andThen (when_present children IEApplyAction far (\<lambda>ie.
         andThen (ie_result (ApplyAction_IE ie)) (\<lambda>action. Ok (far\<lparr>far_ApplyAction := action\<rparr>)))) (\<lambda>far.
       andThen (when_present children IEBARID far (\<lambda>ie.
         andThen (ie_result (BARID_IE ie)) (\<lambda>barID. Ok (far\<lparr>far_BARID := barID\<rparr>)))) (\<lambda>far.
       andThen (when_present children IEUpdateForwardingParameters far (applyForwardingParameters_sgwu far)) (\<lambda>far.
       Ok (i, far)))))))"

definition updateBAR_sgwu :: "(byte \<rightharpoonup> BAR_sgwu) \<Rightarrow> IE_pfcp \<Rightarrow> (decode_error, byte \<times> BAR_sgwu) outcome" where
  "updateBAR_sgwu bars grouped =
     andThen (decodeBAR_sgwu grouped) (\<lambda>updated.
     case bars (bar_ID updated) of None \<Rightarrow> Err UnknownRule
     | Some current \<Rightarrow>
       andThen (ie_result (Children_IE_pfcp grouped)) (\<lambda>children.
       let current = (if FindIE_pfcp children IEDownlinkDataNotifyDelay \<noteq> None
             then current\<lparr>bar_DownlinkNotificationDelay := bar_DownlinkNotificationDelay updated\<rparr> else current) in
       Ok (bar_ID current, current)))"

definition updateQER_sgwu ::
  "16 word \<Rightarrow> (32 word \<rightharpoonup> QER_sgwu) \<Rightarrow> IE_pfcp \<Rightarrow> (decode_error, 32 word \<times> QER_sgwu) outcome" where
  "updateQER_sgwu enterpriseID qers grouped =
     andThen (decodeQER_sgwu grouped enterpriseID) (\<lambda>qer.
     case qers (qer_ID qer) of None \<Rightarrow> Err UnknownRule
     | Some current \<Rightarrow>
       Ok (qer_ID qer, if qer_QCI qer = 0
         then qer\<lparr>qer_QCI := qer_QCI current, qer_ARP := qer_ARP current,
                  qer_PreemptionCapable := qer_PreemptionCapable current,
                  qer_PreemptionVulnerable := qer_PreemptionVulnerable current\<rparr>
         else qer))"

definition updateURRs_sgwu :: "(32 word \<rightharpoonup> URR_sgwu) \<Rightarrow> IE_pfcp \<Rightarrow> (decode_error, 32 word \<times> URR_sgwu) outcome" where
  "updateURRs_sgwu urrs grouped =
     andThen (groupedUint32ID_sgwu IEURRID grouped) (\<lambda>i.
     case urrs i of None \<Rightarrow> Err UnknownRule
     | Some current \<Rightarrow> andThen (updateURR_sgwu current grouped) (\<lambda>updated. Ok (i, updated)))"

definition applyModifications_sgwu ::
  "RuleConfig \<Rightarrow> IE_pfcp list \<Rightarrow> Session_sgwu \<Rightarrow> (decode_error, Session_sgwu) outcome" where
  "applyModifications_sgwu config ies session =
     andThen (remove_rules groupedPDRID_sgwu (FindAllIEs_pfcp ies IERemovePDR) (su_PDRs session)) (\<lambda>pdrs.
     andThen (remove_rules (groupedUint32ID_sgwu IEFARID) (FindAllIEs_pfcp ies IERemoveFAR) (su_FARs session)) (\<lambda>fars.
     andThen (remove_rules (groupedUint32ID_sgwu IEQERID) (FindAllIEs_pfcp ies IERemoveQER) (su_QERs session)) (\<lambda>qers.
     andThen (remove_rules (groupedUint32ID_sgwu IEURRID) (FindAllIEs_pfcp ies IERemoveURR) (su_URRs session)) (\<lambda>urrs.
     andThen (remove_rules groupedBARID (FindAllIEs_pfcp ies IERemoveBAR) (su_BARs session)) (\<lambda>bars.
     andThen (create_rules decodeBAR_sgwu bar_ID (FindAllIEs_pfcp ies IECreateBAR) bars) (\<lambda>bars.
     andThen (create_rules decodeFAR_sgwu far_ID (FindAllIEs_pfcp ies IECreateFAR) fars) (\<lambda>fars.
     andThen (create_rules (\<lambda>ie. decodeQER_sgwu ie (cf_EnterpriseID config)) qer_ID (FindAllIEs_pfcp ies IECreateQER)
       qers) (\<lambda>qers.
     andThen (create_rules decodeURR_sgwu urr_ID (FindAllIEs_pfcp ies IECreateURR) urrs) (\<lambda>urrs.
     andThen (create_rules (decodeLocalPDR config) pdr_ID (FindAllIEs_pfcp ies IECreatePDR) pdrs) (\<lambda>pdrs.
     andThen (update_rules updateFAR_sgwu (FindAllIEs_pfcp ies IEUpdateFAR) fars) (\<lambda>fars.
     andThen (update_rules updateBAR_sgwu (FindAllIEs_pfcp ies IEUpdateBAR) bars) (\<lambda>bars.
     andThen (update_rules (updateQER_sgwu (cf_EnterpriseID config)) (FindAllIEs_pfcp ies IEUpdateQER) qers) (\<lambda>qers.
     andThen (update_rules updateURRs_sgwu (FindAllIEs_pfcp ies IEUpdateURR) urrs) (\<lambda>urrs.
     if FindAllIEs_pfcp ies IEUpdatePDR \<noteq> [] then Err UnsupportedRule
     else Ok (session\<lparr>su_PDRs := pdrs, su_FARs := fars, su_QERs := qers, su_URRs := urrs, su_BARs := bars\<rparr>)))))))))))))))"

section \<open>No request makes the decoder panic\<close>

lemma ie_result_simps [simp]:
  "ie_result (Ok a) = Ok a" "ie_result r = Ok a \<longleftrightarrow> r = Ok a" "ie_result r = Panic \<longleftrightarrow> r = Panic"
  by (auto simp: ie_result_def split: outcome.splits)

lemma ie_check_simps [simp]:
  "ie_check good r = Ok a \<longleftrightarrow> r = Ok a \<and> good a" "ie_check good r = Panic \<longleftrightarrow> r = Panic"
  by (auto simp: ie_check_def split: outcome.splits)

lemma required_simps [simp]:
  "required ies ty = Ok ie \<longleftrightarrow> FindIE_pfcp ies ty = Some ie" "required ies ty \<noteq> Panic"
  by (auto simp: required_def split: option.splits)

lemma when_present_Panic [simp]:
  "when_present ies ty v f = Panic \<longleftrightarrow> (\<exists>ie. FindIE_pfcp ies ty = Some ie \<and> f ie = Panic)"
  by (auto simp: when_present_def split: option.splits)

lemma Children_no_panic [simp]: "Children_IE_pfcp ie \<noteq> Panic"
  by (auto simp: Children_IE_pfcp_eq px.parse_no_panic)

lemmas accessor_total [simp] = pdrID.get_total uint32.get_total interface.get_total fteid.get_total
  outerHeaderRemoval.get_total outerHeaderCreation.get_total applyAction.get_total barID.get_total gateStatus.get_total
  bitRate.get_total vendorBearerQoS.get_total measurementMethod.get_total reportingTriggers.get_total
  volumeThreshold.get_total notificationDelay.get_total

lemma rule_ids_no_panic [simp]: "rule_ids ies \<noteq> Panic"
  by (induction ies) auto

lemma decode_no_panic [simp]:
  "decodePDR_sgwu ie \<noteq> Panic" "applyForwardingParameters_sgwu far ie \<noteq> Panic" "decodeFAR_sgwu ie \<noteq> Panic"
  "decodeQER_sgwu ie e \<noteq> Panic" "decodeURR_sgwu ie \<noteq> Panic" "updateURR_sgwu urr ie \<noteq> Panic" "decodeBAR_sgwu ie \<noteq> Panic"
proof -
  show *: "applyForwardingParameters_sgwu far ie \<noteq> Panic" for far ie by (auto simp: applyForwardingParameters_sgwu_def)
  show "decodePDR_sgwu ie \<noteq> Panic" by (auto simp: decodePDR_sgwu_def)
  show "decodeFAR_sgwu ie \<noteq> Panic" using * by (auto simp: decodeFAR_sgwu_def Let_def)
  show "decodeQER_sgwu ie e \<noteq> Panic" by (auto simp: decodeQER_sgwu_def Let_def)
  show "decodeURR_sgwu ie \<noteq> Panic" by (auto simp: decodeURR_sgwu_def)
  show "updateURR_sgwu urr ie \<noteq> Panic" by (auto simp: updateURR_sgwu_def)
  show "decodeBAR_sgwu ie \<noteq> Panic" by (auto simp: decodeBAR_sgwu_def)
qed

lemma update_no_panic [simp]:
  "groupedPDRID_sgwu ie \<noteq> Panic" "groupedUint32ID_sgwu ty ie \<noteq> Panic" "groupedBARID ie \<noteq> Panic"
  "updateFAR_sgwu fars ie \<noteq> Panic" "updateBAR_sgwu bars ie \<noteq> Panic" "updateQER_sgwu e qers ie \<noteq> Panic"
  "updateURRs_sgwu urrs ie \<noteq> Panic" "decodeLocalPDR config ie \<noteq> Panic"
  by (auto simp: groupedPDRID_sgwu_def groupedUint32ID_sgwu_def groupedBARID_def updateFAR_sgwu_def updateBAR_sgwu_def
    updateQER_sgwu_def updateURRs_sgwu_def decodeLocalPDR_def Let_def split: option.splits)

lemma rules_no_panic [simp]:
  "(\<And>ie. decode ie \<noteq> Panic) \<Longrightarrow> create_rules decode ident ies m \<noteq> Panic"
  "(\<And>ie. name ie \<noteq> Panic) \<Longrightarrow> remove_rules name ies m' \<noteq> Panic"
  "(\<And>m ie. update m ie \<noteq> Panic) \<Longrightarrow> update_rules update ies m'' \<noteq> Panic"
  by (induction ies arbitrary: m m' m'') auto

lemma decodeSession_no_panic: "decodeSession_sgwu config ies cp up \<noteq> Panic"
  by (auto simp: decodeSession_sgwu_def)

lemma applyModifications_no_panic: "applyModifications_sgwu config ies session \<noteq> Panic"
  by (auto simp: applyModifications_sgwu_def)

text \<open>A modification leaves the identity of the session alone.\<close>

lemma applyModifications_identity:
  "applyModifications_sgwu config ies session = Ok s' \<Longrightarrow>
     su_CPSEID s' = su_CPSEID session \<and> su_UPSEID s' = su_UPSEID session \<and> su_Revision s' = su_Revision session"
  by (auto simp: applyModifications_sgwu_def split: if_splits)

end
