(* ===== verification/Sgwu_Server.thy ===== *)
theory Sgwu_Server
  imports Sgwu_Decode Pfcp_Association Pfcp_Message
begin

unbundle bit_operations_syntax

text \<open>
  The PFCP server of the serving gateway user plane, \<^verbatim>\<open>internal/sgwu/pfcpserver/server.go\<close>: the handlers of
  association and session requests over the rule store, the association manager and the table of session owners, the
  sweep that gives up silent peers, and the allocation of user-plane SEIDs. A handler and a sweep are atomic steps; the
  observer's callbacks are recorded in a log. The clock, the random numbers and the order in which Go ranges over maps
  are arguments (record \<open>Env\<close>). Sockets, the queue of downlink reports and usage reporting are not part of it.
\<close>

section \<open>Data\<close>

type_synonym AddrPort = "Addr \<times> 16 word"

record ServerConfig =
  sc_Listen :: AddrPort
  sc_Advertise :: Addr
  sc_AccessUserIP :: Addr
  sc_CoreUserIP :: Addr
  sc_AllowedCP :: "Addr list"
  sc_StartedAt :: int
  sc_ReportQueueSize :: int
  sc_ReportSuppression :: int
  sc_ReportTimeout :: int
  sc_AssociationTimeout :: int
  sc_GraceWindow :: int
  sc_EnterpriseID :: "16 word"

record Counters_sgwu =
  ct_AssociationsEstablished :: "64 word"
  ct_SessionsEstablished :: "64 word"
  ct_SessionsModified :: "64 word"
  ct_SessionsDeleted :: "64 word"
  ct_RejectedRequests :: "64 word"
  ct_PeerRestarts :: "64 word"
  ct_GraceEntries :: "64 word"
  ct_GraceExpirations :: "64 word"
  ct_Reconciliations :: "64 word"
  ct_StaleSessionsPurged :: "64 word"

datatype notification = SessionChanged "64 word" | SessionDeleted "64 word"

record Server_sgwu =
  sv_store :: Store_sgwu
  sv_associations :: Manager_assoc
  sv_sessionOwner :: "64 word \<rightharpoonup> AddrPort"
  sv_reconcilePending :: "Addr \<rightharpoonup> 64 word set"
  sv_reportNotBefore :: "64 word \<times> 16 word \<rightharpoonup> int"
  sv_counters :: Counters_sgwu
  sv_notified :: "notification list"

text \<open>What the environment of a call decides: the instant, the orders of ranging over the rules of a session, over the
  owners, over the pending sessions and over the association records, and the results of \<^verbatim>\<open>rand.Read\<close>.\<close>

record Env =
  ev_now :: int
  ev_rules :: "Session_sgwu \<Rightarrow> 16 word list"
  ev_owners :: "(64 word \<rightharpoonup> AddrPort) \<Rightarrow> 64 word list"
  ev_pending :: "64 word set \<Rightarrow> 64 word list"
  ev_peers :: "(Addr \<rightharpoonup> Record_assoc) \<Rightarrow> Addr list"
  ev_draws :: "nat \<Rightarrow> 64 word option"

definition zero_counters :: Counters_sgwu where
  "zero_counters = \<lparr>ct_AssociationsEstablished = 0, ct_SessionsEstablished = 0, ct_SessionsModified = 0,
     ct_SessionsDeleted = 0, ct_RejectedRequests = 0, ct_PeerRestarts = 0, ct_GraceEntries = 0, ct_GraceExpirations = 0,
     ct_Reconciliations = 0, ct_StaleSessionsPurged = 0\<rparr>"

text \<open>\<^verbatim>\<open>New\<close> checks and completes the configuration and starts with no session owner. The clock, and whether the
  socket could be opened, are arguments; the store is the one passed in, \<open>None\<close> for a nil pointer.\<close>

datatype server_error = NilStore | AddressRequired | NoAllowedCP | ReservedEnterprise | InvalidAllowedCP
  | InvalidReportConfig | InvalidAssociationConfig | ListenFailed

definition completed_config :: "int \<Rightarrow> ServerConfig \<Rightarrow> ServerConfig" where
  "completed_config now c = c\<lparr>sc_AllowedCP := map Unmap (sc_AllowedCP c), sc_Advertise := Unmap (sc_Advertise c),
     sc_AccessUserIP := Unmap (sc_AccessUserIP c), sc_CoreUserIP := Unmap (sc_CoreUserIP c),
     sc_StartedAt := (if IsZero_time (sc_StartedAt c) then now else sc_StartedAt c),
     sc_ReportQueueSize := (if sc_ReportQueueSize c = 0 then 1024 else sc_ReportQueueSize c),
     sc_ReportSuppression := (if sc_ReportSuppression c = 0 then 10 ^ 9 else sc_ReportSuppression c),
     sc_ReportTimeout := (if sc_ReportTimeout c = 0 then 5 * 10 ^ 9 else sc_ReportTimeout c)\<rparr>"

definition New_server ::
  "int \<Rightarrow> bool \<Rightarrow> ServerConfig \<Rightarrow> Store_sgwu option \<Rightarrow> (server_error, ServerConfig \<times> Server_sgwu) outcome" where
  "New_server now listens c store = (case store of None \<Rightarrow> Err NilStore
     | Some store \<Rightarrow>
       if \<not> IsValid (fst (sc_Listen c)) \<or> \<not> IsValid (sc_Advertise c) \<or> \<not> IsValid (sc_AccessUserIP c)
          \<or> \<not> IsValid (sc_CoreUserIP c) then Err AddressRequired
       else if sc_AllowedCP c = [] then Err NoAllowedCP
       else if sc_EnterpriseID c = 10415 then Err ReservedEnterprise
       else if \<exists>addr \<in> set (sc_AllowedCP c). \<not> IsValid addr then Err InvalidAllowedCP
       else if sc_ReportQueueSize c < 0 \<or> sc_ReportSuppression c < 0 \<or> sc_ReportTimeout c < 0
       then Err InvalidReportConfig
       else case New_assoc (sc_AssociationTimeout c) (sc_GraceWindow c) of None \<Rightarrow> Err InvalidAssociationConfig
       | Some associations \<Rightarrow>
         if \<not> listens then Err ListenFailed
         else Ok (completed_config now c,
           \<lparr>sv_store = store, sv_associations = associations, sv_sessionOwner = Map.empty,
            sv_reconcilePending = Map.empty, sv_reportNotBefore = Map.empty, sv_counters = zero_counters,
            sv_notified = []\<rparr>))"

text \<open>The part of the configuration the decoders of rules read.\<close>

definition rule_config :: "ServerConfig \<Rightarrow> RuleConfig" where
  "rule_config c = \<lparr>cf_AccessUserIP = sc_AccessUserIP c, cf_CoreUserIP = sc_CoreUserIP c,
     cf_EnterpriseID = sc_EnterpriseID c\<rparr>"

definition count :: "(Counters_sgwu \<Rightarrow> Counters_sgwu) \<Rightarrow> Server_sgwu \<Rightarrow> Server_sgwu" where
  "count f s = s\<lparr>sv_counters := f (sv_counters s)\<rparr>"

definition rejected :: "Server_sgwu \<Rightarrow> Server_sgwu" where
  "rejected = count (\<lambda>c. c\<lparr>ct_RejectedRequests := ct_RejectedRequests c + 1\<rparr>)"

definition notify :: "notification \<Rightarrow> Server_sgwu \<Rightarrow> Server_sgwu" where
  "notify n s = s\<lparr>sv_notified := sv_notified s @ [n]\<rparr>"

section \<open>Responses\<close>

definition MessageHeartbeatRequest :: byte where "MessageHeartbeatRequest = 1"
definition MessageHeartbeatResponse :: byte where "MessageHeartbeatResponse = 2"
definition MessageAssociationSetupRequest :: byte where "MessageAssociationSetupRequest = 5"
definition MessageAssociationSetupResponse :: byte where "MessageAssociationSetupResponse = 6"
definition MessageAssociationUpdateRequest :: byte where "MessageAssociationUpdateRequest = 7"
definition MessageAssociationUpdateResponse :: byte where "MessageAssociationUpdateResponse = 8"
definition MessageAssociationReleaseRequest :: byte where "MessageAssociationReleaseRequest = 9"
definition MessageAssociationReleaseResponse :: byte where "MessageAssociationReleaseResponse = 10"
definition MessageNodeReportRequest :: byte where "MessageNodeReportRequest = 12"
definition MessageNodeReportResponse :: byte where "MessageNodeReportResponse = 13"
definition MessageSessionSetDeletionRequest :: byte where "MessageSessionSetDeletionRequest = 14"
definition MessageSessionSetDeletionResponse :: byte where "MessageSessionSetDeletionResponse = 15"
definition MessageSessionEstablishmentResponse :: byte where "MessageSessionEstablishmentResponse = 51"
definition MessageSessionModificationRequest :: byte where "MessageSessionModificationRequest = 52"
definition MessageSessionModificationResponse :: byte where "MessageSessionModificationResponse = 53"
definition MessageSessionDeletionRequest :: byte where "MessageSessionDeletionRequest = 54"
definition MessageSessionDeletionResponse :: byte where "MessageSessionDeletionResponse = 55"
definition MessageSessionReportRequest :: byte where "MessageSessionReportRequest = 56"

lemmas message_types = MessageHeartbeatRequest_def MessageAssociationSetupRequest_def MessageAssociationUpdateRequest_def
  MessageAssociationReleaseRequest_def MessageSessionEstablishmentRequest_def MessageSessionModificationRequest_def
  MessageSessionDeletionRequest_def

text \<open>\<^verbatim>\<open>ie, _ := constructor\<close>: the element, or the zero element after an error.\<close>

definition built :: "(pfcp_error, IE_pfcp) outcome \<Rightarrow> IE_pfcp" where
  "built r = (case r of Ok ie \<Rightarrow> ie | _ \<Rightarrow> \<lparr>pie_Type = 0, pie_Value = []\<rparr>)"

definition response :: "byte \<Rightarrow> bool \<Rightarrow> 64 word \<Rightarrow> IE_pfcp list \<Rightarrow> pfcp_message" where
  "response ty hasSEID seid ies = \<lparr>pmsg_Header = \<lparr>x_Version = Version_pfcp, x_FollowOn = False, x_HasSEID = hasSEID,
     x_HasPriority = False, x_MessageType = ty, x_Length = 0, x_SEID = seid, x_SequenceNumber = 0, x_MessagePriority = 0,
     x_FrameLength = 0\<rparr>, pmsg_IEs = ies\<rparr>"

definition heartbeatResponse :: "ServerConfig \<Rightarrow> pfcp_message" where
  "heartbeatResponse config = response MessageHeartbeatResponse False 0 [built (NewRecoveryTimeStampIE (sc_StartedAt config))]"

definition associationResponse :: "ServerConfig \<Rightarrow> byte \<Rightarrow> pfcp_message" where
  "associationResponse config cause = response MessageAssociationSetupResponse False 0
     [built (NewNodeIDIE (sc_Advertise config) []), NewCauseIE_pfcp cause, built (NewRecoveryTimeStampIE (sc_StartedAt config))]"

definition establishmentResponse :: "ServerConfig \<Rightarrow> 64 word \<Rightarrow> 64 word \<Rightarrow> byte \<Rightarrow> pfcp_message" where
  "establishmentResponse config cpSEID upSEID cause = response MessageSessionEstablishmentResponse True cpSEID
     ([built (NewNodeIDIE (sc_Advertise config) []), NewCauseIE_pfcp cause] @
      (if cause = CauseRequestAccepted
       then [built (NewFSEIDIE \<lparr>fs_SEID = upSEID, fs_IPv4 = sc_Advertise config, fs_IPv6 = AddrZero\<rparr>)] else []))"

definition sessionResponse :: "byte \<Rightarrow> 64 word \<Rightarrow> byte \<Rightarrow> pfcp_message" where
  "sessionResponse ty cpSEID cause = response ty True cpSEID [NewCauseIE_pfcp cause]"

definition ExpectedResponseType :: "byte \<Rightarrow> byte option" where
  "ExpectedResponseType ty = map_of
     [(MessageHeartbeatRequest, MessageHeartbeatResponse), (MessageAssociationSetupRequest, MessageAssociationSetupResponse),
      (MessageAssociationUpdateRequest, MessageAssociationUpdateResponse),
      (MessageAssociationReleaseRequest, MessageAssociationReleaseResponse), (MessageNodeReportRequest, MessageNodeReportResponse),
      (MessageSessionSetDeletionRequest, MessageSessionSetDeletionResponse),
      (MessageSessionEstablishmentRequest, MessageSessionEstablishmentResponse),
      (MessageSessionModificationRequest, MessageSessionModificationResponse),
      (MessageSessionDeletionRequest, MessageSessionDeletionResponse),
      (MessageSessionReportRequest, MessageSessionReportResponse)] ty"

definition unsupportedResponse :: "pfcp_message \<Rightarrow> pfcp_message option" where
  "unsupportedResponse request = map_option (\<lambda>ty. response ty (x_HasSEID (pmsg_Header request)) 0
     [NewCauseIE_pfcp CauseServiceNotSupported]) (ExpectedResponseType (x_MessageType (pmsg_Header request)))"

section \<open>Sessions of a peer\<close>

definition allowed_sgwu :: "ServerConfig \<Rightarrow> Addr \<Rightarrow> bool" where
  "allowed_sgwu config peer \<longleftrightarrow> peer \<in> set (sc_AllowedCP config)"

definition owns_sgwu :: "Server_sgwu \<Rightarrow> AddrPort \<Rightarrow> 64 word \<Rightarrow> bool" where
  "owns_sgwu s peer upSEID \<longleftrightarrow> sv_sessionOwner s upSEID = Some peer"

definition clearReportSuppression :: "64 word \<Rightarrow> Server_sgwu \<Rightarrow> Server_sgwu" where
  "clearReportSuppression upSEID s =
     s\<lparr>sv_reportNotBefore := (\<lambda>key. if fst key = upSEID then None else sv_reportNotBefore s key)\<rparr>"

text \<open>The body shared by the loops of \<^verbatim>\<open>purgePeerSessions\<close> and \<^verbatim>\<open>completeReconciliation\<close>.\<close>

definition purge_session :: "Env \<Rightarrow> 64 word \<Rightarrow> Server_sgwu \<Rightarrow> nat \<times> Server_sgwu" where
  "purge_session env upSEID s =
     (let (deleted, store) = (case FindByUPSEID_sgwu (sv_store s) upSEID of None \<Rightarrow> (False, sv_store s)
        | Some session \<Rightarrow> (case Delete_sgwu (ev_rules env session) upSEID (su_Revision session) (sv_store s) of
              (r, store) \<Rightarrow> (r = Ok (), store)));
          s = s\<lparr>sv_store := store, sv_sessionOwner := (sv_sessionOwner s)(upSEID := None)\<rparr>;
          s = clearReportSuppression upSEID s
      in if deleted then (1, notify (SessionDeleted upSEID) s) else (0, s))"

fun purge_sessions :: "Env \<Rightarrow> 64 word list \<Rightarrow> Server_sgwu \<Rightarrow> nat \<times> Server_sgwu" where
  "purge_sessions env [] s = (0, s)"
| "purge_sessions env (upSEID # ids) s =
     (let (n, s) = purge_session env upSEID s; (k, s) = purge_sessions env ids s in (n + k, s))"

definition owned_ids :: "Env \<Rightarrow> Addr \<Rightarrow> Server_sgwu \<Rightarrow> 64 word list" where
  "owned_ids env peer s = filter (\<lambda>upSEID. case sv_sessionOwner s upSEID of None \<Rightarrow> False
     | Some owner \<Rightarrow> Unmap (fst owner) = Unmap peer) (ev_owners env (sv_sessionOwner s))"

definition purgePeerSessions_sgwu :: "Env \<Rightarrow> Addr \<Rightarrow> Server_sgwu \<Rightarrow> nat \<times> Server_sgwu" where
  "purgePeerSessions_sgwu env peer s = purge_sessions env (owned_ids env peer s) s"

definition beginReconciliation_sgwu :: "Env \<Rightarrow> Addr \<Rightarrow> Server_sgwu \<Rightarrow> Server_sgwu" where
  "beginReconciliation_sgwu env peer s =
     s\<lparr>sv_reconcilePending := (sv_reconcilePending s)(Unmap peer \<mapsto> set (owned_ids env peer s))\<rparr>"

definition completeReconciliation_sgwu :: "Env \<Rightarrow> Addr \<Rightarrow> Server_sgwu \<Rightarrow> nat \<times> Server_sgwu" where
  "completeReconciliation_sgwu env peer s =
     (let pending = (case sv_reconcilePending s (Unmap peer) of None \<Rightarrow> {} | Some ids \<Rightarrow> ids);
          s = s\<lparr>sv_reconcilePending := (sv_reconcilePending s)(Unmap peer := None)\<rparr>;
          (purged, s) = purge_sessions env (ev_pending env pending) s
      in (purged, s\<lparr>sv_associations := snd (Complete_assoc (ev_now env) (Unmap peer) (sv_associations s))\<rparr>))"

section \<open>SEIDs\<close>

text \<open>The loop of \<^verbatim>\<open>allocateSEID\<close> from an attempt on; \<open>draws k\<close> is what the \<open>k\<close>-th call of \<^verbatim>\<open>rand.Read\<close> gives.\<close>

datatype seid_error = RandomFailed | SEIDsExhausted

function allocate_from :: "(nat \<Rightarrow> 64 word option) \<Rightarrow> Store_sgwu \<Rightarrow> nat \<Rightarrow> (seid_error, 64 word) outcome" where
  "allocate_from draws store attempt =
     (if attempt < 256 then (case draws attempt of None \<Rightarrow> Err RandomFailed
        | Some seid \<Rightarrow> if seid = 0 then allocate_from draws store (attempt + 1)
            else if FindByUPSEID_sgwu store seid = None then Ok seid
            else allocate_from draws store (attempt + 1))
      else Err SEIDsExhausted)"
  by pat_completeness auto
termination by (relation "measure (\<lambda>(_, _, attempt). 256 - attempt)") auto

declare allocate_from.simps [simp del]

definition allocateSEID_sgwu :: "(nat \<Rightarrow> 64 word option) \<Rightarrow> Store_sgwu \<Rightarrow> (seid_error, 64 word) outcome" where
  "allocateSEID_sgwu draws store = allocate_from draws store 0"

section \<open>Handlers\<close>

text \<open>A handler returns a message or none, or panics.\<close>

type_synonym reply = "(unit, pfcp_message option) outcome"

definition answer :: "pfcp_message \<Rightarrow> Server_sgwu \<Rightarrow> reply \<times> Server_sgwu" where
  "answer m s = (Ok (Some m), s)"

definition associationSetup_sgwu :: "ServerConfig \<Rightarrow> Env \<Rightarrow> Addr \<Rightarrow> pfcp_message \<Rightarrow> Server_sgwu \<Rightarrow> reply \<times> Server_sgwu" where
  "associationSetup_sgwu config env peer request s =
     (case (Find_pfcp request IENodeID, Find_pfcp request IERecoveryTimeStamp) of
        (Some nodeIE, Some recoveryIE) \<Rightarrow>
          (case NodeID_IE nodeIE of Panic \<Rightarrow> (Panic, s)
           | Err _ \<Rightarrow> answer (associationResponse config CauseMandatoryIEIncorrect) (rejected s)
           | Ok (nodeAddress, nodeFQDN) \<Rightarrow>
          (case RecoveryTimeStamp_IE recoveryIE of Panic \<Rightarrow> (Panic, s)
           | Err _ \<Rightarrow> answer (associationResponse config CauseMandatoryIEIncorrect) (rejected s)
           | Ok recoveryTime \<Rightarrow>
             let (result, associations) = Setup_assoc (ev_now env) peer nodeAddress nodeFQDN recoveryTime (sv_associations s);
                 s = s\<lparr>sv_associations := associations\<rparr>;
                 s = (if sr_Reconcile result then beginReconciliation_sgwu env peer s else s);
                 s = (if sr_RecoveryChanged result
                      then count (\<lambda>c. c\<lparr>ct_PeerRestarts := ct_PeerRestarts c + 1\<rparr>) s else s);
                 s = count (\<lambda>c. c\<lparr>ct_AssociationsEstablished := ct_AssociationsEstablished c + 1\<rparr>) s
             in answer (associationResponse config CauseRequestAccepted) s))
      | _ \<Rightarrow> answer (associationResponse config CauseMandatoryIEMissing) (rejected s))"

definition node_response :: "ServerConfig \<Rightarrow> byte \<Rightarrow> byte \<Rightarrow> pfcp_message" where
  "node_response config ty cause = response ty False 0 [built (NewNodeIDIE (sc_Advertise config) []), NewCauseIE_pfcp cause]"

definition associationUpdate_sgwu :: "ServerConfig \<Rightarrow> Env \<Rightarrow> Addr \<Rightarrow> Server_sgwu \<Rightarrow> reply \<times> Server_sgwu" where
  "associationUpdate_sgwu config env peer s =
     (let state = State_of peer (sv_associations s) in
      if state = StateReconciling then
        let (purged, s) = completeReconciliation_sgwu env peer s;
            s = count (\<lambda>c. c\<lparr>ct_StaleSessionsPurged := ct_StaleSessionsPurged c + of_nat purged\<rparr>) s;
            s = count (\<lambda>c. c\<lparr>ct_Reconciliations := ct_Reconciliations c + 1\<rparr>) s
        in answer (node_response config MessageAssociationUpdateResponse CauseRequestAccepted) s
      else if state \<noteq> StateAssociated then
        answer (node_response config MessageAssociationUpdateResponse CauseNoAssociation) (rejected s)
      else answer (node_response config MessageAssociationUpdateResponse CauseRequestAccepted) s)"

definition associationRelease_sgwu :: "ServerConfig \<Rightarrow> Env \<Rightarrow> Addr \<Rightarrow> Server_sgwu \<Rightarrow> reply \<times> Server_sgwu" where
  "associationRelease_sgwu config env peer s =
     (if State_of peer (sv_associations s) = StateUnavailable then
        answer (node_response config MessageAssociationReleaseResponse CauseNoAssociation) (rejected s)
      else
        let s = snd (purgePeerSessions_sgwu env peer s);
            s = s\<lparr>sv_associations := snd (Release_assoc peer (sv_associations s))\<rparr>;
            s = s\<lparr>sv_reconcilePending := (sv_reconcilePending s)(Unmap peer := None)\<rparr>
        in answer (node_response config MessageAssociationReleaseResponse CauseRequestAccepted) s)"

text \<open>The two ways a session is established: a peer that reconciles presents a session again, an associated peer
  creates one.\<close>

definition reconcile_session ::
  "ServerConfig \<Rightarrow> Env \<Rightarrow> AddrPort \<Rightarrow> pfcp_message \<Rightarrow> 64 word \<Rightarrow> Server_sgwu \<Rightarrow> reply \<times> Server_sgwu" where
  "reconcile_session config env peer request cpSEID s =
     (case FindByCPSEID_sgwu (sv_store s) cpSEID of Panic \<Rightarrow> (Panic, s) | Err _ \<Rightarrow> (Panic, s)
      | Ok None \<Rightarrow> answer (establishmentResponse config cpSEID 0 CauseNoAssociation) (rejected s)
      | Ok (Some current) \<Rightarrow>
      (case decodeSession_sgwu (rule_config config) (pmsg_IEs request) cpSEID (su_UPSEID current) of Panic \<Rightarrow> (Panic, s)
       | Err _ \<Rightarrow> answer (establishmentResponse config cpSEID 0 CauseRuleCreationFailure) (rejected s)
       | Ok candidate \<Rightarrow>
       (case Reconcile_sgwu (ev_rules env current) (ev_rules env candidate) cpSEID candidate (sv_store s) of
          (Panic, store) \<Rightarrow> (Panic, s\<lparr>sv_store := store\<rparr>)
        | (Err _, store) \<Rightarrow>
            answer (establishmentResponse config cpSEID 0 CauseRuleCreationFailure) (rejected (s\<lparr>sv_store := store\<rparr>))
        | (Ok reconciled, store) \<Rightarrow>
            let upSEID = su_UPSEID reconciled;
                s = s\<lparr>sv_store := store, sv_sessionOwner := (sv_sessionOwner s)(upSEID \<mapsto> peer),
                  sv_reconcilePending := (case sv_reconcilePending s (fst peer) of None \<Rightarrow> sv_reconcilePending s
                    | Some pending \<Rightarrow> (sv_reconcilePending s)(fst peer \<mapsto> pending - {upSEID}))\<rparr>
            in answer (establishmentResponse config cpSEID upSEID CauseRequestAccepted) (notify (SessionChanged upSEID) s))))"

definition create_session ::
  "ServerConfig \<Rightarrow> Env \<Rightarrow> AddrPort \<Rightarrow> pfcp_message \<Rightarrow> 64 word \<Rightarrow> Server_sgwu \<Rightarrow> reply \<times> Server_sgwu" where
  "create_session config env peer request cpSEID s =
     (case allocateSEID_sgwu (ev_draws env) (sv_store s) of Panic \<Rightarrow> (Panic, s)
      | Err _ \<Rightarrow> answer (establishmentResponse config cpSEID 0 CauseNoResources) (rejected s)
      | Ok upSEID \<Rightarrow>
      (case decodeSession_sgwu (rule_config config) (pmsg_IEs request) cpSEID upSEID of Panic \<Rightarrow> (Panic, s)
       | Err _ \<Rightarrow> answer (establishmentResponse config cpSEID 0 CauseRuleCreationFailure) (rejected s)
       | Ok candidate \<Rightarrow>
       (case Create_sgwu (ev_rules env candidate) candidate (sv_store s) of
          (Panic, store) \<Rightarrow> (Panic, s\<lparr>sv_store := store\<rparr>)
        | (Err e, store) \<Rightarrow>
            answer (establishmentResponse config cpSEID 0
              (if e = ErrDuplicate_sgwu \<or> e = ErrCapacity_sgwu then CauseNoResources else CauseRuleCreationFailure))
              (rejected (s\<lparr>sv_store := store\<rparr>))
        | (Ok _, store) \<Rightarrow>
            let s = s\<lparr>sv_store := store, sv_sessionOwner := (sv_sessionOwner s)(upSEID \<mapsto> peer)\<rparr>;
                s = notify (SessionChanged upSEID) s;
                s = count (\<lambda>c. c\<lparr>ct_SessionsEstablished := ct_SessionsEstablished c + 1\<rparr>) s
            in answer (establishmentResponse config cpSEID upSEID CauseRequestAccepted) s)))"

definition sessionEstablishment_sgwu ::
  "ServerConfig \<Rightarrow> Env \<Rightarrow> AddrPort \<Rightarrow> pfcp_message \<Rightarrow> Server_sgwu \<Rightarrow> reply \<times> Server_sgwu" where
  "sessionEstablishment_sgwu config env peer request s =
     (if x_SEID (pmsg_Header request) \<noteq> 0
      then answer (establishmentResponse config 0 0 CauseMandatoryIEIncorrect) (rejected s)
      else case Find_pfcp request IEFSEID of
        None \<Rightarrow> answer (establishmentResponse config 0 0 CauseMandatoryIEMissing) (rejected s)
      | Some cpFSEIDIE \<Rightarrow>
      (case FSEID_IE cpFSEIDIE of Panic \<Rightarrow> (Panic, s)
       | Err _ \<Rightarrow> answer (establishmentResponse config 0 0 CauseMandatoryIEIncorrect) (rejected s)
       | Ok cpFSEID \<Rightarrow>
         if Unmap (fs_IPv4 cpFSEID) \<noteq> Unmap (fst peer)
         then answer (establishmentResponse config 0 0 CauseMandatoryIEIncorrect) (rejected s)
         else let state = State_of (fst peer) (sv_associations s) in
           if state = StateReconciling then reconcile_session config env peer request (fs_SEID cpFSEID) s
           else if state \<noteq> StateAssociated
           then answer (establishmentResponse config (fs_SEID cpFSEID) 0 CauseNoAssociation) (rejected s)
           else create_session config env peer request (fs_SEID cpFSEID) s))"

text \<open>The error of a modification, as the closure passed to \<^verbatim>\<open>Update\<close> returns it.\<close>

definition mutation :: "(decode_error, 'a) outcome \<Rightarrow> (sgwu_error, 'a) outcome" where
  "mutation r = (case r of Ok x \<Rightarrow> Ok x | Err _ \<Rightarrow> Err MutationError_sgwu | Panic \<Rightarrow> Panic)"

definition sessionModification_sgwu ::
  "ServerConfig \<Rightarrow> Env \<Rightarrow> AddrPort \<Rightarrow> pfcp_message \<Rightarrow> Server_sgwu \<Rightarrow> reply \<times> Server_sgwu" where
  "sessionModification_sgwu config env peer request s =
     (let modification = sessionResponse MessageSessionModificationResponse; upSEID = x_SEID (pmsg_Header request) in
      if \<not> CanMutate (fst peer) (sv_associations s) then answer (modification 0 CauseNoAssociation) (rejected s)
      else case FindByUPSEID_sgwu (sv_store s) upSEID of
        None \<Rightarrow> answer (modification 0 CauseSessionNotFound) (rejected s)
      | Some current \<Rightarrow>
        if \<not> owns_sgwu s peer upSEID then answer (modification 0 CauseSessionNotFound) (rejected s)
        else case Update_sgwu (ev_rules env current) (ev_rules env) upSEID (su_Revision current)
            (Some (\<lambda>session. mutation (applyModifications_sgwu (rule_config config) (pmsg_IEs request) session)))
            (sv_store s) of
          (Panic, store) \<Rightarrow> (Panic, s\<lparr>sv_store := store\<rparr>)
        | (Err _, store) \<Rightarrow>
            answer (modification (su_CPSEID current) CauseRuleCreationFailure) (rejected (s\<lparr>sv_store := store\<rparr>))
        | (Ok _, store) \<Rightarrow>
            let s = notify (SessionChanged upSEID) (s\<lparr>sv_store := store\<rparr>);
                s = count (\<lambda>c. c\<lparr>ct_SessionsModified := ct_SessionsModified c + 1\<rparr>) s
            in answer (modification (su_CPSEID current) CauseRequestAccepted) s)"

definition sessionDeletion_sgwu :: "Env \<Rightarrow> AddrPort \<Rightarrow> pfcp_message \<Rightarrow> Server_sgwu \<Rightarrow> reply \<times> Server_sgwu" where
  "sessionDeletion_sgwu env peer request s =
     (let deletion = sessionResponse MessageSessionDeletionResponse; upSEID = x_SEID (pmsg_Header request) in
      if \<not> CanMutate (fst peer) (sv_associations s) then answer (deletion 0 CauseNoAssociation) (rejected s)
      else case FindByUPSEID_sgwu (sv_store s) upSEID of
        None \<Rightarrow> answer (deletion 0 CauseSessionNotFound) (rejected s)
      | Some current \<Rightarrow>
        if \<not> owns_sgwu s peer upSEID then answer (deletion 0 CauseSessionNotFound) (rejected s)
        else case Delete_sgwu (ev_rules env current) upSEID (su_Revision current) (sv_store s) of
          (Panic, store) \<Rightarrow> (Panic, s\<lparr>sv_store := store\<rparr>)
        | (Err _, store) \<Rightarrow> answer (deletion (su_CPSEID current) CauseSystemFailure) (rejected (s\<lparr>sv_store := store\<rparr>))
        | (Ok _, store) \<Rightarrow>
            let s = s\<lparr>sv_store := store, sv_sessionOwner := (sv_sessionOwner s)(upSEID := None)\<rparr>;
                s = notify (SessionDeleted upSEID) (clearReportSuppression upSEID s);
                s = count (\<lambda>c. c\<lparr>ct_SessionsDeleted := ct_SessionsDeleted c + 1\<rparr>) s
            in answer (deletion (su_CPSEID current) CauseRequestAccepted) s)"

definition handle_sgwu :: "ServerConfig \<Rightarrow> Env \<Rightarrow> AddrPort \<Rightarrow> pfcp_message \<Rightarrow> Server_sgwu \<Rightarrow> reply \<times> Server_sgwu" where
  "handle_sgwu config env peer0 request s =
     (let peer = (Unmap (fst peer0), snd peer0); peerIP = Unmap (fst peer); ty = x_MessageType (pmsg_Header request) in
      if \<not> allowed_sgwu config peerIP then (Ok None, rejected s)
      else
        let s = s\<lparr>sv_associations := Touch_assoc (ev_now env) peerIP (sv_associations s)\<rparr> in
        if ty = MessageHeartbeatRequest then answer (heartbeatResponse config) s
        else if ty = MessageAssociationSetupRequest then associationSetup_sgwu config env peerIP request s
        else if ty = MessageAssociationUpdateRequest then associationUpdate_sgwu config env peerIP s
        else if ty = MessageAssociationReleaseRequest then associationRelease_sgwu config env peerIP s
        else if ty = MessageSessionEstablishmentRequest then sessionEstablishment_sgwu config env peer request s
        else if ty = MessageSessionModificationRequest then sessionModification_sgwu config env peer request s
        else if ty = MessageSessionDeletionRequest then sessionDeletion_sgwu env peer request s
        else (Ok (unsupportedResponse request), rejected s))"

section \<open>The sweep\<close>

text \<open>What \<^verbatim>\<open>sweepAssociations\<close> does for one transition of the association manager, and for all.\<close>

definition sweep_transition :: "Env \<Rightarrow> Transition_assoc \<Rightarrow> Server_sgwu \<Rightarrow> Server_sgwu" where
  "sweep_transition env t s = (case tr_To t of
     StateGrace \<Rightarrow> count (\<lambda>c. c\<lparr>ct_GraceEntries := ct_GraceEntries c + 1\<rparr>) s
   | StateUnavailable \<Rightarrow>
       let (purged, s) = purgePeerSessions_sgwu env (tr_Peer t) s;
           s = count (\<lambda>c. c\<lparr>ct_StaleSessionsPurged := ct_StaleSessionsPurged c + of_nat purged\<rparr>) s;
           s = count (\<lambda>c. c\<lparr>ct_GraceExpirations := ct_GraceExpirations c + 1\<rparr>) s
       in s\<lparr>sv_reconcilePending := (sv_reconcilePending s)(tr_Peer t := None)\<rparr>
   | _ \<Rightarrow> s)"

definition sweepAssociations_sgwu :: "Env \<Rightarrow> Server_sgwu \<Rightarrow> Server_sgwu" where
  "sweepAssociations_sgwu env s =
     (let (transitions, associations) = Sweep_assoc (ev_now env) (ev_peers env (mg_records (sv_associations s)))
            (sv_associations s)
      in fold (sweep_transition env) transitions (s\<lparr>sv_associations := associations\<rparr>))"

section \<open>Reports\<close>

text \<open>The control-plane SEID of a session whose owner is associated.\<close>

definition resolveUsageCPSEID :: "64 word \<Rightarrow> Server_sgwu \<Rightarrow> 64 word option" where
  "resolveUsageCPSEID upSEID s = (case FindByUPSEID_sgwu (sv_store s) upSEID of None \<Rightarrow> None
     | Some current \<Rightarrow> (case sv_sessionOwner s upSEID of None \<Rightarrow> None
         | Some owner \<Rightarrow> if State_of (fst owner) (sv_associations s) \<noteq> StateAssociated then None
             else Some (su_CPSEID current)))"

section \<open>Frames\<close>

lemma count_fields [simp]:
  "sv_store (count f s) = sv_store s" "sv_associations (count f s) = sv_associations s"
  "sv_sessionOwner (count f s) = sv_sessionOwner s" "sv_reconcilePending (count f s) = sv_reconcilePending s"
  "sv_store (rejected s) = sv_store s" "sv_associations (rejected s) = sv_associations s"
  "sv_sessionOwner (rejected s) = sv_sessionOwner s" "sv_reconcilePending (rejected s) = sv_reconcilePending s"
  by (simp_all add: rejected_def count_def)

lemma notify_fields [simp]:
  "sv_store (notify n s) = sv_store s" "sv_associations (notify n s) = sv_associations s"
  "sv_sessionOwner (notify n s) = sv_sessionOwner s" "sv_reconcilePending (notify n s) = sv_reconcilePending s"
  "sv_store (clearReportSuppression u s) = sv_store s"
  "sv_associations (clearReportSuppression u s) = sv_associations s"
  "sv_sessionOwner (clearReportSuppression u s) = sv_sessionOwner s"
  "sv_reconcilePending (clearReportSuppression u s) = sv_reconcilePending s"
  by (simp_all add: notify_def clearReportSuppression_def)

lemma answer_simps [simp]: "fst (answer m s) = Ok (Some m)" "snd (answer m s) = s"
  by (simp_all add: answer_def)

text \<open>The environment lists exactly what Go ranges over.\<close>

definition env_ok :: "Env \<Rightarrow> bool" where
  "env_ok env \<longleftrightarrow> (\<forall>x. set (ev_rules env x) = dom (su_PDRs x)) \<and>
     (\<forall>m. set (ev_owners env m) = dom m \<and> distinct (ev_owners env m)) \<and>
     (\<forall>ids. set (ev_pending env ids) = ids \<and> distinct (ev_pending env ids)) \<and>
     (\<forall>m. finite (dom m) \<longrightarrow> set (ev_peers env m) = dom m \<and> distinct (ev_peers env m))"

lemma env_okD [simp]:
  assumes "env_ok env"
  shows "set (ev_rules env x) = dom (su_PDRs x)" "set (ev_owners env m) = dom m" "distinct (ev_owners env m)"
    "set (ev_pending env ids) = ids" "distinct (ev_pending env ids)"
  using assms by (simp_all add: env_ok_def)

section \<open>What the operations of the store do to the table of sessions\<close>

lemma FindByUPSEID_iff [simp]: "FindByUPSEID_sgwu st u = us_byUP st u"
  by (cases "us_byUP st u") (simp_all add: FindByUPSEID_sgwu_def)

lemma Delete_table:
  "us_byUP st u = Some x \<Longrightarrow> fst (Delete_sgwu order u (su_Revision x) st) = Ok () \<and>
     us_byUP (snd (Delete_sgwu order u (su_Revision x) st)) = (us_byUP st)(u := None)"
  by (simp add: Delete_sgwu_eq forget_def)

lemma Create_table:
  "Create_sgwu order c st = (Ok y, st') \<Longrightarrow> us_byUP st' = (us_byUP st)(su_UPSEID c \<mapsto> c\<lparr>su_Revision := 1\<rparr>) \<and>
     us_byUP st (su_UPSEID c) = None"
  by (erule Create_sgwu_cases) (auto simp: install_fields)

lemma Create_refused: "Create_sgwu order c st = (r, st') \<Longrightarrow> \<forall>y. r \<noteq> Ok y \<Longrightarrow> st' = st \<and> r \<noteq> Panic"
  by (erule Create_sgwu_cases) auto

lemma replace_table: "us_byUP (replace_sgwu order0 order current c st) = (us_byUP st)(su_UPSEID c \<mapsto> c)"
  by (simp add: replace_eq install_fields)

lemma Update_table:
  assumes "Update_sgwu order0 order u rv f st = (Ok y, st')" "rules_ok st"
  shows "us_byUP st' = (us_byUP st)(u \<mapsto> y) \<and> us_byUP st u \<noteq> None"
  using assms(1)
proof (cases rule: Update_sgwu_cases)
  case (updated f current nxt)
  have "su_UPSEID current = u" using stored_session[OF assms(2) updated(2)] by simp
  then show ?thesis using updated by (simp add: replace_table)
qed simp_all

lemma Reconcile_table:
  assumes "Reconcile_sgwu order0 order cp c st = (Ok y, st')" "rules_ok st"
  shows "us_byCP st cp = Some (su_UPSEID y) \<and> us_byUP st' = (us_byUP st)(su_UPSEID y \<mapsto> y)
    \<and> us_byUP st (su_UPSEID y) \<noteq> None"
  using assms
proof (cases rule: Reconcile_sgwu_cases)
  case (unchanged u current)
  then have "su_UPSEID current = u" using stored_session[OF assms(2)] by simp
  then show ?thesis using unchanged by (auto simp: fun_upd_idem_iff)
next
  case (replaced u current)
  then show ?thesis by (simp add: replace_table)
qed simp_all

lemma Reconcile_refused:
  assumes "Reconcile_sgwu order0 order cp c st = (r, st')" "rules_ok st" "\<forall>y. r \<noteq> Ok y"
  shows "st' = st \<and> r \<noteq> Panic"
  using assms(1,2) by (cases rule: Reconcile_sgwu_cases) (use assms(3) in auto)

lemma Update_refused:
  assumes "Update_sgwu order0 order u rv f st = (r, st')" "\<forall>y. r \<noteq> Ok y"
  shows "st' = st"
  using assms(1) by (cases rule: Update_sgwu_cases) (use assms(2) in auto)

section \<open>Purging\<close>

lemma purge_session_effect:
  fixes s s' :: Server_sgwu
  assumes "rules_ok (sv_store s)" "env_ok env" and s': "purge_session env u s = (n, s')"
  shows "rules_ok (sv_store s')" "us_byUP (sv_store s') = (us_byUP (sv_store s))(u := None)"
    "sv_sessionOwner s' = (sv_sessionOwner s)(u := None)" "sv_associations s' = sv_associations s"
    "sv_reconcilePending s' = sv_reconcilePending s"
    "n = card ({u} \<inter> dom (us_byUP (sv_store s)))"
proof -
  have "rules_ok (sv_store s') \<and> us_byUP (sv_store s') = (us_byUP (sv_store s))(u := None) \<and>
    sv_sessionOwner s' = (sv_sessionOwner s)(u := None) \<and> sv_associations s' = sv_associations s \<and>
    sv_reconcilePending s' = sv_reconcilePending s \<and> n = card ({u} \<inter> dom (us_byUP (sv_store s)))"
  proof (cases "us_byUP (sv_store s) u")
    case None
    then show ?thesis using assms by (auto simp: purge_session_def Let_def fun_upd_idem)
  next
    case (Some x)
    obtain r st where d: "Delete_sgwu (ev_rules env x) u (su_Revision x) (sv_store s) = (r, st)" by fastforce
    have "rules_ok st" using Delete_ok[OF assms(1), of u "ev_rules env x" "su_Revision x"] assms(2) Some d by simp
    moreover have "{u} \<inter> dom (us_byUP (sv_store s)) = {u}" using Some by auto
    ultimately show ?thesis using s' Some d Delete_table[OF Some, of "ev_rules env x"]
      by (auto simp: purge_session_def Let_def)
  qed
  then show "rules_ok (sv_store s')" "us_byUP (sv_store s') = (us_byUP (sv_store s))(u := None)"
    "sv_sessionOwner s' = (sv_sessionOwner s)(u := None)" "sv_associations s' = sv_associations s"
    "sv_reconcilePending s' = sv_reconcilePending s"
    "n = card ({u} \<inter> dom (us_byUP (sv_store s)))" by simp_all
qed

lemma purge_sessions_effect:
  fixes s s' :: Server_sgwu
  assumes "rules_ok (sv_store s)" "env_ok env" "purge_sessions env ids s = (n, s')"
  shows "rules_ok (sv_store s') \<and> us_byUP (sv_store s') = us_byUP (sv_store s) |` (- set ids) \<and>
    sv_sessionOwner s' = sv_sessionOwner s |` (- set ids) \<and> sv_associations s' = sv_associations s \<and>
    sv_reconcilePending s' = sv_reconcilePending s \<and>
    (distinct ids \<longrightarrow> n = card (set ids \<inter> dom (us_byUP (sv_store s))))"
  using assms
proof (induction ids arbitrary: s n s')
  case (Cons u ids)
  obtain k s1 n1 where s1: "purge_session env u s = (k, s1)" "purge_sessions env ids s1 = (n1, s')" "n = k + n1"
    using Cons.prems(3) by (auto simp: Let_def split: prod.splits)
  note e1 = purge_session_effect[OF Cons.prems(1,2) s1(1)]
  note e2 = Cons.IH[OF e1(1) Cons.prems(2) s1(2)]
  have "card (set (u # ids) \<inter> dom (us_byUP (sv_store s))) =
      k + card (set ids \<inter> dom (us_byUP (sv_store s1)))" if d: "distinct (u # ids)"
  proof -
    have "set (u # ids) \<inter> dom (us_byUP (sv_store s)) =
        ({u} \<inter> dom (us_byUP (sv_store s))) \<union> (set ids \<inter> dom (us_byUP (sv_store s1)))" using d by (auto simp: e1(2))
    moreover have "({u} \<inter> dom (us_byUP (sv_store s))) \<inter> (set ids \<inter> dom (us_byUP (sv_store s1))) = {}"
      using d by (auto simp: e1(2))
    ultimately show ?thesis by (simp add: e1(6) card_Un_disjoint)
  qed
  moreover have "us_byUP (sv_store s') = us_byUP (sv_store s) |` (- set (u # ids)) \<and>
      sv_sessionOwner s' = sv_sessionOwner s |` (- set (u # ids))"
    using e1(2,3) e2 by (auto simp: restrict_map_def fun_eq_iff)
  ultimately show ?case using e1(4,5) e2 s1(3) by simp
qed (simp add: restrict_map_def)

lemma owned_ids_set:
  "env_ok env \<Longrightarrow> set (owned_ids env peer s) = {u. \<exists>q. sv_sessionOwner s u = Some q \<and> Unmap (fst q) = Unmap peer}"
  by (auto simp: owned_ids_def split: option.splits)

lemma owned_ids_distinct: "env_ok env \<Longrightarrow> distinct (owned_ids env peer s)"
  by (simp add: owned_ids_def)

section \<open>States of the associations\<close>

lemma State_of_Unmap [simp]: "State_of (Unmap p) m = State_of p m"
  by (simp add: State_of_def)

lemma State_of_Touch [simp]: "State_of p (Touch_assoc now q m) = State_of p m"
  by (cases "mg_records m (Unmap q)") (simp_all add: State_of_def Touch_assoc_def)

lemma State_of_Setup:
  "State_of p (snd (Setup_assoc now q node fqdn recovery m)) = (if Unmap p = Unmap q
     then if sr_Reconcile (fst (Setup_assoc now q node fqdn recovery m)) then StateReconciling else StateAssociated
     else State_of p m)"
  by (simp add: State_of_def Setup_assoc_def Let_def)

lemma Setup_continues:
  assumes "\<not> sr_Reconcile (fst (Setup_assoc now q node fqdn recovery m))"
  shows "mg_records m (Unmap q) = None \<or> State_of q m = StateAssociated"
proof (cases "mg_records m (Unmap q)")
  case (Some r)
  then show ?thesis using assms
    by (cases "ar_State r") (auto simp: Setup_assoc_def Let_def setup_reconciles_def State_of_def)
qed simp

lemma State_of_Complete:
  "State_of p (snd (Complete_assoc now q m)) =
     (if Unmap p = Unmap q \<and> State_of q m = StateReconciling then StateAssociated else State_of p m)"
  by (cases "mg_records m (Unmap q)") (simp_all add: State_of_def Complete_assoc_def)

lemma State_of_Release: "State_of p (snd (Release_assoc q m)) = (if Unmap p = Unmap q then StateUnavailable else State_of p m)"
  by (auto simp: State_of_def Release_assoc_def)

lemma State_of_sweep:
  assumes "ranges_over (EvSweep order) m"
  shows "State_of p (snd (Sweep_assoc now order m)) = StateUnavailable \<longleftrightarrow>
      State_of p m = StateUnavailable \<or> (\<exists>t \<in> sweep_moves now m. tr_Peer t = Unmap p \<and> tr_To t = StateUnavailable)"
    "State_of p (snd (Sweep_assoc now order m)) = StateReconciling \<longleftrightarrow>
      State_of p m = StateReconciling \<and> State_of p (snd (Sweep_assoc now order m)) \<noteq> StateUnavailable"
proof -
  have moved: "(\<exists>t \<in> sweep_moves now m. tr_Peer t = Unmap p \<and> tr_To t = StateUnavailable) \<longleftrightarrow>
      (\<exists>r r'. mg_records m (Unmap p) = Some r \<and> sweep_record now (mg_timeout m) (mg_graceWindow m) r = Some r' \<and>
        ar_State r' = StateUnavailable)" (is "?l \<longleftrightarrow> ?r")
  proof
    assume ?r
    then obtain r r' where "mg_records m (Unmap p) = Some r" "ar_State r' = StateUnavailable"
      "sweep_record now (mg_timeout m) (mg_graceWindow m) r = Some r'" by blast
    then have "\<lparr>tr_Peer = Unmap p, tr_From = ar_State r, tr_To = ar_State r'\<rparr> \<in> sweep_moves now m"
      by (simp add: sweep_moves_def)
    then show ?l using \<open>ar_State r' = StateUnavailable\<close> by (intro bexI) simp_all
  qed (auto simp: sweep_moves_def)
  show "State_of p (snd (Sweep_assoc now order m)) = StateUnavailable \<longleftrightarrow>
      State_of p m = StateUnavailable \<or> (\<exists>t \<in> sweep_moves now m. tr_Peer t = Unmap p \<and> tr_To t = StateUnavailable)"
  proof (cases "mg_records m (Unmap p)")
    case (Some r)
    then show ?thesis unfolding moved using assms
      by (cases "ar_State r") (auto simp: State_of_def Sweep_assoc_spec swept_def sweep_record_def split: option.splits)
  qed (use assms in \<open>simp add: State_of_def Sweep_assoc_spec moved\<close>)
  show "State_of p (snd (Sweep_assoc now order m)) = StateReconciling \<longleftrightarrow>
      State_of p m = StateReconciling \<and> State_of p (snd (Sweep_assoc now order m)) \<noteq> StateUnavailable"
  proof (cases "mg_records m (Unmap p)")
    case (Some r)
    then show ?thesis using assms
      by (cases "ar_State r") (auto simp: State_of_def Sweep_assoc_spec swept_def sweep_record_def)
  qed (use assms in \<open>simp add: State_of_def Sweep_assoc_spec\<close>)
qed

section \<open>The invariant\<close>

text \<open>
  Every session of the store has an owner and every owner a session; the association of an owner is not unavailable;
  exactly the peers that reconcile have a set of pending sessions.
\<close>

definition owners_ok :: "Server_sgwu \<Rightarrow> bool" where
  "owners_ok s \<longleftrightarrow> dom (sv_sessionOwner s) = dom (us_byUP (sv_store s)) \<and>
     (\<forall>u q. sv_sessionOwner s u = Some q \<longrightarrow>
        Unmap (fst q) = fst q \<and> State_of (fst q) (sv_associations s) \<noteq> StateUnavailable)"

definition pending_ok :: "Server_sgwu \<Rightarrow> bool" where
  "pending_ok s \<longleftrightarrow> (\<forall>p. sv_reconcilePending s p \<noteq> None \<longleftrightarrow>
     Unmap p = p \<and> State_of p (sv_associations s) = StateReconciling)"

definition server_ok :: "int \<Rightarrow> Server_sgwu \<Rightarrow> bool" where
  "server_ok now s \<longleftrightarrow> rules_ok (sv_store s) \<and> assoc_ok now (sv_associations s) \<and>
     finite (dom (mg_records (sv_associations s))) \<and> owners_ok s \<and> pending_ok s"

lemma server_ok_fields [simp]:
  "server_ok now (count f s) = server_ok now s" "server_ok now (rejected s) = server_ok now s"
  "server_ok now (notify n s) = server_ok now s" "server_ok now (clearReportSuppression u s) = server_ok now s"
  by (simp_all add: server_ok_def owners_ok_def pending_ok_def)

lemma server_okD:
  assumes "server_ok now s"
  shows "rules_ok (sv_store s)" "assoc_ok now (sv_associations s)" "finite (dom (mg_records (sv_associations s)))"
    "owners_ok s" "pending_ok s"
  using assms by (simp_all add: server_ok_def)

lemma server_ok_Touch:
  assumes "server_ok now s"
  shows "server_ok now (s\<lparr>sv_associations := Touch_assoc now peer (sv_associations s)\<rparr>)"
proof -
  have "finite (dom (mg_records (Touch_assoc now peer (sv_associations s))))"
    using server_okD(3)[OF assms] by (cases "mg_records (sv_associations s) (Unmap peer)") (simp_all add: Touch_assoc_def)
  then show ?thesis using assms by (simp add: server_ok_def owners_ok_def pending_ok_def assoc_ok_Touch)
qed

lemma server_ok_store:
  assumes "server_ok now s" "rules_ok st" "dom (us_byUP st) = dom (us_byUP (sv_store s))"
  shows "server_ok now (s\<lparr>sv_store := st\<rparr>)"
  using assms by (simp add: server_ok_def owners_ok_def pending_ok_def)

section \<open>The handlers keep the invariant\<close>

text \<open>A change that leaves the sessions of other peers as they were.\<close>

definition spares :: "Addr \<Rightarrow> Server_sgwu \<Rightarrow> Server_sgwu \<Rightarrow> bool" where
  "spares peer s s' \<longleftrightarrow> (\<forall>u q. sv_sessionOwner s u = Some q \<longrightarrow> Unmap (fst q) \<noteq> Unmap peer \<longrightarrow>
     sv_sessionOwner s' u = Some q \<and> us_byUP (sv_store s') u = us_byUP (sv_store s) u)"

text \<open>What every handler achieves: it does not panic, it keeps the invariant, and unless the peer is reconciling it
  spares the sessions of other peers.\<close>

definition handled :: "int \<Rightarrow> Addr \<Rightarrow> Server_sgwu \<Rightarrow> reply \<times> Server_sgwu \<Rightarrow> bool" where
  "handled now peer s p \<longleftrightarrow> fst p \<noteq> Panic \<and> server_ok now (snd p) \<and>
     (State_of peer (sv_associations s) \<noteq> StateReconciling \<longrightarrow> spares peer s (snd p))"

lemma spares_simps [simp]:
  "spares peer s (count f s') = spares peer s s'" "spares peer s (rejected s') = spares peer s s'"
  "spares peer s (notify n s') = spares peer s s'" "spares peer s (clearReportSuppression u s') = spares peer s s'"
  "spares peer s s"
  by (simp_all add: spares_def)

lemma handled_simps [simp]:
  "handled now peer s (answer m s') \<longleftrightarrow>
     server_ok now s' \<and> (State_of peer (sv_associations s) \<noteq> StateReconciling \<longrightarrow> spares peer s s')"
  "handled now peer s (Ok r, s') \<longleftrightarrow>
     server_ok now s' \<and> (State_of peer (sv_associations s) \<noteq> StateReconciling \<longrightarrow> spares peer s s')"
  by (simp_all add: handled_def)

lemma decodeLabels_total: "decodeLabels_loop_pfcp v offset labels \<noteq> Panic"
proof (induction v offset labels rule: decodeLabels_loop_pfcp.induct)
  case (1 v offset labels)
  then show ?case by (subst decodeLabels_loop_pfcp.simps) (auto simp: byte_at_def slice_def)
qed

lemma accessors_total [simp]: "NodeID_IE ie \<noteq> Panic" "FSEID_IE ie \<noteq> Panic" "RecoveryTimeStamp_IE ie \<noteq> Panic"
  by (auto simp: NodeID_IE_def byte_at_def slice_def Let_def decodeLabels_pfcp_def decodeLabels_total
    fseid.get_total recoveryTimeStamp.get_total)

lemma purge_owned_ok:
  assumes ok: "server_ok now s" and env: "env_ok env" and p: "purgePeerSessions_sgwu env peer s = (n, s')"
  shows "server_ok now s'" "spares peer s s'" "sv_associations s' = sv_associations s"
    "sv_reconcilePending s' = sv_reconcilePending s"
    "sv_sessionOwner s' u = Some q \<Longrightarrow> sv_sessionOwner s u = Some q \<and> Unmap (fst q) \<noteq> Unmap peer"
proof -
  note e = purge_sessions_effect[OF server_okD(1)[OF ok] env p[unfolded purgePeerSessions_sgwu_def]]
  then show "sv_associations s' = sv_associations s" "sv_reconcilePending s' = sv_reconcilePending s" by simp_all
  have "owners_ok s'" "pending_ok s'"
    using e server_okD(4,5)[OF ok] by (simp_all add: owners_ok_def pending_ok_def) (simp add: restrict_map_def)
  then show "server_ok now s'" using e ok by (simp add: server_ok_def)
  have owned: "v \<in> set (owned_ids env peer s) \<longleftrightarrow> Unmap (fst q) = Unmap peer" if "sv_sessionOwner s v = Some q" for v q
    using that by (cases q) (simp add: owned_ids_set[OF env])
  show "spares peer s s'" using e owned by (simp add: spares_def)
  show "sv_sessionOwner s' u = Some q \<Longrightarrow> sv_sessionOwner s u = Some q \<and> Unmap (fst q) \<noteq> Unmap peer"
    using e owned by (metis ComplD option.distinct(1) restrict_in restrict_out)
qed

lemma owners_okD:
  "owners_ok s \<Longrightarrow> sv_sessionOwner s u = Some q \<Longrightarrow>
     Unmap (fst q) = fst q \<and> State_of (fst q) (sv_associations s) \<noteq> StateUnavailable"
  unfolding owners_ok_def by blast

lemma owners_ok_shrink:
  assumes "owners_ok s" "dom (sv_sessionOwner s') = dom (us_byUP (sv_store s'))"
    "\<And>u q. sv_sessionOwner s' u = Some q \<Longrightarrow>
       sv_sessionOwner s u = Some q \<and> State_of (fst q) (sv_associations s') \<noteq> StateUnavailable"
  shows "owners_ok s'"
  unfolding owners_ok_def using assms(2,3) owners_okD[OF assms(1)] by blast

lemma pending_ok_forget:
  assumes "pending_ok s" "sv_reconcilePending s' = (sv_reconcilePending s)(Unmap peer := None)"
    "State_of peer (sv_associations s') \<noteq> StateReconciling"
    "\<And>p. Unmap p \<noteq> Unmap peer \<Longrightarrow> State_of p (sv_associations s') = State_of p (sv_associations s)"
  shows "pending_ok s'"
  unfolding pending_ok_def
proof
  fix p show "sv_reconcilePending s' p \<noteq> None \<longleftrightarrow> Unmap p = p \<and> State_of p (sv_associations s') = StateReconciling"
    using assms State_of_Unmap[of peer "sv_associations s'"]
    by (cases "p = Unmap peer"; cases "Unmap p = p") (auto simp: pending_ok_def)
qed

lemma associationRelease_handled:
  assumes "server_ok now s" "env_ok env"
  shows "handled now peer s (associationRelease_sgwu config env peer s)"
proof (cases "State_of peer (sv_associations s) = StateUnavailable")
  case False
  obtain n s' where p: "purgePeerSessions_sgwu env peer s = (n, s')" by fastforce
  note e = purge_owned_ok[OF assms p]
  let ?m = "snd (Release_assoc peer (sv_associations s))"
  have "assoc_ok now ?m" "finite (dom (mg_records ?m))"
    using server_okD(2,3)[OF assms(1)] by (simp_all add: assoc_ok_Release, simp add: Release_assoc_def)
  moreover have "owners_ok (s'\<lparr>sv_associations := ?m, sv_reconcilePending := (sv_reconcilePending s)(Unmap peer := None)\<rparr>)"
    using server_okD(4)[OF e(1)] e(3,5) by (simp add: owners_ok_def State_of_Release)
  moreover have "pending_ok (s'\<lparr>sv_associations := ?m, sv_reconcilePending := (sv_reconcilePending s)(Unmap peer := None)\<rparr>)"
    by (rule pending_ok_forget[OF server_okD(5)[OF assms(1)], where peer = peer]) (simp_all add: State_of_Release)
  ultimately have "server_ok now (s'\<lparr>sv_associations := ?m, sv_reconcilePending := (sv_reconcilePending s)(Unmap peer := None)\<rparr>)"
    using server_okD(1)[OF e(1)] by (simp add: server_ok_def)
  moreover have "spares peer s (s'\<lparr>sv_associations := ?m, sv_reconcilePending := (sv_reconcilePending s)(Unmap peer := None)\<rparr>)"
    using e(2) by (simp add: spares_def)
  ultimately show ?thesis using False p e(3,4) by (simp add: associationRelease_sgwu_def)
qed (simp add: associationRelease_sgwu_def assms)

lemma begin_fields [simp]:
  "sv_store (beginReconciliation_sgwu env peer s) = sv_store s"
  "sv_associations (beginReconciliation_sgwu env peer s) = sv_associations s"
  "sv_sessionOwner (beginReconciliation_sgwu env peer s) = sv_sessionOwner s"
  "sv_reconcilePending (beginReconciliation_sgwu env peer s) =
     (sv_reconcilePending s)(Unmap peer \<mapsto> set (owned_ids env peer s))"
  by (simp_all add: beginReconciliation_sgwu_def)

lemma setup_ok:
  fixes s :: Server_sgwu
  assumes ok: "server_ok now s" and r: "Setup_assoc now peer node fqdn recovery (sv_associations s) = (result, m)"
  defines "s' \<equiv> s\<lparr>sv_associations := m\<rparr>"
  shows "server_ok now (if sr_Reconcile result then beginReconciliation_sgwu env peer s' else s')"
proof -
  let ?s = "if sr_Reconcile result then beginReconciliation_sgwu env peer s' else s'"
  have m: "m = snd (Setup_assoc now peer node fqdn recovery (sv_associations s))"
    "result = fst (Setup_assoc now peer node fqdn recovery (sv_associations s))" by (simp_all add: r)
  have st: "State_of p m = (if Unmap p = Unmap peer then if sr_Reconcile result then StateReconciling else StateAssociated
     else State_of p (sv_associations s))" for p by (simp add: m State_of_Setup)
  have "assoc_ok now m" "finite (dom (mg_records m))"
    using server_okD(2,3)[OF ok] unfolding m by (simp_all add: assoc_ok_Setup, simp add: Setup_assoc_def Let_def)
  moreover have "owners_ok ?s" using server_okD(4)[OF ok] by (auto simp: owners_ok_def s'_def st)
  moreover have "pending_ok ?s"
  proof (cases "sr_Reconcile result")
    case True
    then show ?thesis using server_okD(5)[OF ok] by (auto simp: pending_ok_def s'_def st)
  next
    case False
    have "State_of peer (sv_associations s) \<noteq> StateReconciling"
      using Setup_continues[of now peer node fqdn recovery "sv_associations s"] False
      by (auto simp: m State_of_def)
    moreover have "State_of (Unmap peer) (sv_associations s) = State_of peer (sv_associations s)" by simp
    ultimately show ?thesis using False server_okD(5)[OF ok] by (auto simp: pending_ok_def s'_def st)
  qed
  ultimately show ?thesis using server_okD(1)[OF ok] by (auto simp: server_ok_def s'_def)
qed

lemma associationSetup_handled:
  assumes "server_ok now s" "ev_now env = now"
  shows "handled now peer s (associationSetup_sgwu config env peer request s)"
proof (cases "Find_pfcp request IENodeID"; cases "Find_pfcp request IERecoveryTimeStamp")
  fix node recovery
  assume found: "Find_pfcp request IENodeID = Some node" "Find_pfcp request IERecoveryTimeStamp = Some recovery"
  show ?thesis
  proof (cases "NodeID_IE node"; cases "RecoveryTimeStamp_IE recovery")
    fix a t assume vals: "NodeID_IE node = Ok a" "RecoveryTimeStamp_IE recovery = Ok t"
    obtain result m where r: "Setup_assoc now peer (fst a) (snd a) t (sv_associations s) = (result, m)" by fastforce
    have "server_ok now (if sr_Reconcile result then beginReconciliation_sgwu env peer (s\<lparr>sv_associations := m\<rparr>)
        else s\<lparr>sv_associations := m\<rparr>)" by (rule setup_ok[OF assms(1) r])
    moreover have "spares peer s (if sr_Reconcile result then beginReconciliation_sgwu env peer (s\<lparr>sv_associations := m\<rparr>)
        else s\<lparr>sv_associations := m\<rparr>)" by (simp add: spares_def)
    ultimately show ?thesis using found vals r assms(2)
      by (cases a) (simp add: associationSetup_sgwu_def Let_def split: if_splits)
  qed (use found assms in \<open>simp_all add: associationSetup_sgwu_def split: prod.splits\<close>)
qed (use assms in \<open>simp_all add: associationSetup_sgwu_def\<close>)

lemma associationUpdate_handled:
  assumes "server_ok now s" "env_ok env" "ev_now env = now"
  shows "handled now peer s (associationUpdate_sgwu config env peer s)"
proof (cases "State_of peer (sv_associations s) = StateReconciling")
  case True
  let ?pending = "case sv_reconcilePending s (Unmap peer) of None \<Rightarrow> {} | Some ids \<Rightarrow> ids"
  let ?s = "s\<lparr>sv_reconcilePending := (sv_reconcilePending s)(Unmap peer := None)\<rparr>"
  obtain n s' where p: "purge_sessions env (ev_pending env ?pending) ?s = (n, s')" by fastforce
  have store: "rules_ok (sv_store ?s)" using server_okD(1)[OF assms(1)] by simp
  note e = purge_sessions_effect[OF store assms(2) p]
  let ?m = "snd (Complete_assoc now (Unmap peer) (sv_associations s))"
  have "assoc_ok now ?m" "finite (dom (mg_records ?m))" using server_okD(2,3)[OF assms(1)]
    by (simp_all add: assoc_ok_Complete) (simp add: Complete_assoc_def split: option.splits)
  moreover have "owners_ok (s'\<lparr>sv_associations := ?m\<rparr>)"
  proof (rule owners_ok_shrink[OF server_okD(4)[OF assms(1)]])
    fix u q assume "sv_sessionOwner (s'\<lparr>sv_associations := ?m\<rparr>) u = Some q"
    then have q: "sv_sessionOwner s u = Some q" using e by (simp add: restrict_map_def split: if_splits)
    then show "sv_sessionOwner s u = Some q \<and> State_of (fst q) (sv_associations (s'\<lparr>sv_associations := ?m\<rparr>)) \<noteq> StateUnavailable"
      using owners_okD[OF server_okD(4)[OF assms(1)] q] by (simp add: State_of_Complete)
  qed (use e server_okD(4)[OF assms(1)] in \<open>simp add: owners_ok_def\<close>)
  moreover have "pending_ok (s'\<lparr>sv_associations := ?m\<rparr>)"
    by (rule pending_ok_forget[OF server_okD(5)[OF assms(1)], where peer = peer])
      (use e in \<open>simp_all add: State_of_Complete True\<close>)
  ultimately have "server_ok now (s'\<lparr>sv_associations := ?m\<rparr>)" using e by (simp add: server_ok_def)
  then show ?thesis using p e True assms(3)
    by (simp add: associationUpdate_sgwu_def completeReconciliation_sgwu_def Let_def)
qed (use assms in \<open>simp add: associationUpdate_sgwu_def\<close>)

lemma server_ok_session:
  assumes ok: "server_ok now s" and st: "rules_ok st" "us_byUP st = (us_byUP (sv_store s))(u \<mapsto> x)"
    and peer: "Unmap (fst peer) = fst peer" "State_of (fst peer) (sv_associations s) \<noteq> StateUnavailable"
  shows "server_ok now (s\<lparr>sv_store := st, sv_sessionOwner := (sv_sessionOwner s)(u \<mapsto> peer)\<rparr>)"
proof -
  have "owners_ok (s\<lparr>sv_store := st, sv_sessionOwner := (sv_sessionOwner s)(u \<mapsto> peer)\<rparr>)"
    unfolding owners_ok_def using peer st(2) server_okD(4)[OF ok] owners_okD[OF server_okD(4)[OF ok]]
    by (auto simp: owners_ok_def)
  then show ?thesis using ok st by (simp add: server_ok_def pending_ok_def)
qed

lemma pending_ok_drop:
  assumes "pending_ok s"
  shows "pending_ok (s\<lparr>sv_reconcilePending := (case sv_reconcilePending s p of None \<Rightarrow> sv_reconcilePending s
    | Some ids \<Rightarrow> (sv_reconcilePending s)(p \<mapsto> ids - {u}))\<rparr>)"
  using assms by (cases "sv_reconcilePending s p") (auto simp: pending_ok_def)

lemma decodeSession_SEIDs:
  "decodeSession_sgwu config ies cp up = Ok c \<Longrightarrow> su_CPSEID c = cp \<and> su_UPSEID c = up"
  by (auto simp: decodeSession_sgwu_def)

lemma FindByCPSEID_stored:
  assumes "rules_ok st"
  shows "FindByCPSEID_sgwu st cp = Ok None \<or>
    (\<exists>u x. FindByCPSEID_sgwu st cp = Ok (Some x) \<and> us_byCP st cp = Some u \<and> us_byUP st u = Some x \<and> su_UPSEID x = u)"
proof (cases "us_byCP st cp")
  case (Some u)
  then obtain x where "us_byUP st u = Some x"
    using assms by (auto simp: rules_ok_def index_ok_def)
  then show ?thesis using Some stored_session[OF assms] by (simp add: FindByCPSEID_sgwu_def)
qed (simp add: FindByCPSEID_sgwu_def)

lemma reconcile_session_handled:
  assumes ok: "server_ok now s" and env: "env_ok env" and peer: "Unmap (fst peer) = fst peer"
    and state: "State_of (fst peer) (sv_associations s) = StateReconciling"
  shows "handled now (fst peer) s (reconcile_session config env peer request cp s)"
proof -
  note st = server_okD(1)[OF ok]
  consider "FindByCPSEID_sgwu (sv_store s) cp = Ok None" | u x where "FindByCPSEID_sgwu (sv_store s) cp = Ok (Some x)"
    "us_byCP (sv_store s) cp = Some u" "us_byUP (sv_store s) u = Some x" "su_UPSEID x = u"
    using FindByCPSEID_stored[OF st] by blast
  then show ?thesis
  proof cases
    case (2 u x)
    show ?thesis
    proof (cases "decodeSession_sgwu (rule_config config) (pmsg_IEs request) cp (su_UPSEID x)")
      case (Ok c)
      obtain r st' where rc: "Reconcile_sgwu (ev_rules env x) (ev_rules env c) cp c (sv_store s) = (r, st')" by fastforce
      have ok': "rules_ok st'" using Reconcile_ok[OF st, of cp "ev_rules env x" "ev_rules env c" c] rc env 2
        by (simp add: visits_def)
      show ?thesis
      proof (cases r)
        case yes: (Ok y)
        let ?s = "s\<lparr>sv_store := st', sv_sessionOwner := (sv_sessionOwner s)(su_UPSEID y \<mapsto> peer)\<rparr>"
        have "server_ok now ?s"
          using server_ok_session[OF ok ok' _ peer] Reconcile_table[OF rc[unfolded yes] st] state by auto
        then have "server_ok now (?s\<lparr>sv_reconcilePending := (case sv_reconcilePending ?s (fst peer) of
            None \<Rightarrow> sv_reconcilePending ?s | Some ids \<Rightarrow> (sv_reconcilePending ?s)(fst peer \<mapsto> ids - {su_UPSEID y}))\<rparr>)"
          using pending_ok_drop[OF server_okD(5), of now ?s] by (simp add: server_ok_def owners_ok_def)
        then show ?thesis using 2 Ok rc yes state by (simp add: reconcile_session_def Let_def cong: option.case_cong)
      qed (use 2 Ok rc ok state Reconcile_refused[OF rc st] in \<open>auto simp: reconcile_session_def\<close>)
    qed (use 2 ok state decodeSession_no_panic in \<open>auto simp: reconcile_session_def\<close>)
  qed (use ok state in \<open>simp add: reconcile_session_def\<close>)
qed

lemma allocate_total: "allocate_from draws st k \<noteq> Panic"
  by (induction draws st k rule: allocate_from.induct) (subst allocate_from.simps, auto split: option.splits)

lemma create_session_handled:
  assumes ok: "server_ok now s" and env: "env_ok env" and peer: "Unmap (fst peer) = fst peer"
    and state: "State_of (fst peer) (sv_associations s) = StateAssociated"
  shows "handled now (fst peer) s (create_session config env peer request cp s)"
proof (cases "allocateSEID_sgwu (ev_draws env) (sv_store s)")
  case (Ok up)
  note alloc = Ok
  show ?thesis
  proof (cases "decodeSession_sgwu (rule_config config) (pmsg_IEs request) cp up")
    case (Ok c)
    obtain r st' where cr: "Create_sgwu (ev_rules env c) c (sv_store s) = (r, st')" by fastforce
    have ok': "rules_ok st'" using Create_ok[OF server_okD(1)[OF ok], of "ev_rules env c" c] cr env by simp
    show ?thesis
    proof (cases r)
      case yes: (Ok y)
      note t = Create_table[OF cr[unfolded yes], unfolded decodeSession_SEIDs[OF Ok, THEN conjunct2]]
      let ?s = "s\<lparr>sv_store := st', sv_sessionOwner := (sv_sessionOwner s)(up \<mapsto> peer)\<rparr>"
      have "server_ok now ?s" using server_ok_session[OF ok ok' _ peer] t state by auto
      moreover have "sv_sessionOwner s up = None" using server_okD(4)[OF ok] t by (auto simp: owners_ok_def)
      then have "spares (fst peer) s ?s" using t by (simp add: spares_def)
      ultimately show ?thesis using alloc Ok cr yes by (simp add: create_session_def Let_def)
    qed (use alloc Ok cr ok Create_refused[OF cr] in \<open>auto simp: create_session_def\<close>)
  qed (use alloc ok decodeSession_no_panic in \<open>auto simp: create_session_def\<close>)
qed (use ok allocate_total in \<open>auto simp: create_session_def allocateSEID_sgwu_def\<close>)

lemma sessionEstablishment_handled:
  assumes "server_ok now s" "env_ok env" "Unmap (fst peer) = fst peer"
  shows "handled now (fst peer) s (sessionEstablishment_sgwu config env peer request s)"
  using assms reconcile_session_handled[OF assms] create_session_handled[OF assms]
  by (auto simp: sessionEstablishment_sgwu_def Let_def split: option.splits outcome.splits)

lemma validate_total [simp]: "validate_sgwu c \<noteq> Panic"
  using validate_sgwu_cases[of c] by auto

lemma Update_total:
  assumes "\<And>x. f x \<noteq> Panic"
  shows "fst (Update_sgwu order0 order u rv (Some f) st) \<noteq> Panic"
proof (cases "us_byUP st u")
  case (Some x)
  then show ?thesis using assms[of x]
    by (cases "f x") (auto simp: Update_sgwu_def Let_def checkTunnelConflicts_def split: outcome.splits)
qed (simp add: Update_sgwu_def)

lemma sessionModification_handled:
  assumes ok: "server_ok now s" and env: "env_ok env" and peer: "Unmap (fst peer) = fst peer"
  shows "handled now (fst peer) s (sessionModification_sgwu config env peer request s)"
proof -
  let ?u = "x_SEID (pmsg_Header request)"
  let ?f = "\<lambda>x. mutation (applyModifications_sgwu (rule_config config) (pmsg_IEs request) x)"
  note st = server_okD(1)[OF ok]
  show ?thesis
  proof (cases "CanMutate (fst peer) (sv_associations s) \<and> us_byUP (sv_store s) ?u \<noteq> None \<and> owns_sgwu s peer ?u")
    case True
    then obtain x where x: "us_byUP (sv_store s) ?u = Some x" by blast
    obtain r st' where up: "Update_sgwu (ev_rules env x) (ev_rules env) ?u (su_Revision x) (Some ?f) (sv_store s) = (r, st')"
      by fastforce
    have ok': "rules_ok st'"
      using Update_ok[OF st, of "ev_rules env x" ?u "ev_rules env" "su_Revision x" "Some ?f"] up env x
      by (simp add: visits_def)
    have "r \<noteq> Panic" using Update_total[of ?f "ev_rules env x" "ev_rules env" ?u "su_Revision x" "sv_store s"]
        applyModifications_no_panic[of "rule_config config" "pmsg_IEs request"] up
      by (simp add: mutation_def split: outcome.splits)
    show ?thesis
    proof (cases r)
      case (Ok y)
      note t = Update_table[OF up[unfolded Ok] st]
      then have "server_ok now (s\<lparr>sv_store := st'\<rparr>)" by (intro server_ok_store[OF ok ok']) auto
      moreover have "spares (fst peer) s (s\<lparr>sv_store := st'\<rparr>)" using t True by (auto simp: spares_def owns_sgwu_def)
      ultimately show ?thesis using True x up Ok by (simp add: sessionModification_sgwu_def Let_def)
    qed (use True x up ok Update_refused[OF up] \<open>r \<noteq> Panic\<close> in \<open>auto simp: sessionModification_sgwu_def Let_def\<close>)
  qed (use ok in \<open>auto simp: sessionModification_sgwu_def Let_def split: option.splits\<close>)
qed

lemma server_ok_remove:
  assumes ok: "server_ok now s" and st: "rules_ok st" "us_byUP st = (us_byUP (sv_store s))(u := None)"
  shows "server_ok now (s\<lparr>sv_store := st, sv_sessionOwner := (sv_sessionOwner s)(u := None)\<rparr>)"
proof -
  have "owners_ok (s\<lparr>sv_store := st, sv_sessionOwner := (sv_sessionOwner s)(u := None)\<rparr>)"
    by (rule owners_ok_shrink[OF server_okD(4)[OF ok]])
      (use server_okD(4)[OF ok] st owners_okD[OF server_okD(4)[OF ok]] in \<open>auto simp: owners_ok_def split: if_splits\<close>)
  then show ?thesis using ok st by (simp add: server_ok_def pending_ok_def)
qed

lemma sessionDeletion_handled:
  assumes ok: "server_ok now s" and env: "env_ok env" and peer: "Unmap (fst peer) = fst peer"
  shows "handled now (fst peer) s (sessionDeletion_sgwu env peer request s)"
proof -
  let ?u = "x_SEID (pmsg_Header request)"
  show ?thesis
  proof (cases "CanMutate (fst peer) (sv_associations s) \<and> us_byUP (sv_store s) ?u \<noteq> None \<and> owns_sgwu s peer ?u")
    case True
    then obtain x where x: "us_byUP (sv_store s) ?u = Some x" by blast
    obtain r st' where d: "Delete_sgwu (ev_rules env x) ?u (su_Revision x) (sv_store s) = (r, st')" by fastforce
    have t: "r = Ok ()" "us_byUP st' = (us_byUP (sv_store s))(?u := None)"
      using Delete_table[OF x, of "ev_rules env x"] d by simp_all
    have "rules_ok st'" using Delete_ok[OF server_okD(1)[OF ok], of ?u "ev_rules env x" "su_Revision x"] d env x by simp
    then have "server_ok now (s\<lparr>sv_store := st', sv_sessionOwner := (sv_sessionOwner s)(?u := None)\<rparr>)"
      using server_ok_remove[OF ok _ t(2)] by simp
    moreover have "spares (fst peer) s (s\<lparr>sv_store := st', sv_sessionOwner := (sv_sessionOwner s)(?u := None)\<rparr>)"
      using t True by (auto simp: spares_def owns_sgwu_def)
    ultimately show ?thesis using True x d t(1) by (simp add: sessionDeletion_sgwu_def Let_def)
  qed (use ok in \<open>auto simp: sessionDeletion_sgwu_def Let_def split: option.splits\<close>)
qed

lemma handle_handled:
  assumes ok: "server_ok now s" and env: "env_ok env" "ev_now env = now"
  shows "handled now (fst peer) s (handle_sgwu config env peer request s)"
proof -
  let ?peer = "(Unmap (fst peer), snd peer)"
  let ?s = "s\<lparr>sv_associations := Touch_assoc now (Unmap (fst peer)) (sv_associations s)\<rparr>"
  have touched: "server_ok now ?s" by (rule server_ok_Touch[OF ok])
  have same: "handled now (fst peer) s p \<longleftrightarrow> handled now (Unmap (fst peer)) ?s p" for p
    by (simp add: handled_def spares_def)
  note h = associationSetup_handled[OF touched env(2)] associationUpdate_handled[OF touched env]
    associationRelease_handled[OF touched env(1)] sessionEstablishment_handled[OF touched env(1), of ?peer, simplified]
    sessionModification_handled[OF touched env(1), of ?peer, simplified]
    sessionDeletion_handled[OF touched env(1), of ?peer, simplified]
  show ?thesis
  proof (cases "allowed_sgwu config (Unmap (fst peer))")
    case True
    then show ?thesis unfolding handle_sgwu_def Let_def using h touched env
      by (simp add: same del: answer_simps)
  qed (use ok in \<open>simp add: handle_sgwu_def\<close>)
qed

section \<open>The sweep keeps the invariant\<close>

text \<open>The peers a list of transitions gives up, and the sessions of a set of peers.\<close>

definition given_up :: "Transition_assoc list \<Rightarrow> Addr set" where
  "given_up ts = {tr_Peer t |t. t \<in> set ts \<and> tr_To t = StateUnavailable}"

definition sessions_of :: "Addr set \<Rightarrow> Server_sgwu \<Rightarrow> 64 word set" where
  "sessions_of P s = {u. \<exists>q. sv_sessionOwner s u = Some q \<and> Unmap (fst q) \<in> Unmap ` P}"

definition swept_to :: "Addr set \<Rightarrow> Server_sgwu \<Rightarrow> Server_sgwu \<Rightarrow> bool" where
  "swept_to P s s' \<longleftrightarrow> rules_ok (sv_store s') \<and> sv_associations s' = sv_associations s \<and>
     us_byUP (sv_store s') = us_byUP (sv_store s) |` (- sessions_of P s) \<and>
     sv_sessionOwner s' = sv_sessionOwner s |` (- sessions_of P s) \<and>
     sv_reconcilePending s' = sv_reconcilePending s |` (- P)"

lemma swept_to_simps [simp]: "swept_to P s (count f s') = swept_to P s s'"
  by (simp add: swept_to_def)

lemma swept_to_refl: "rules_ok (sv_store s) \<Longrightarrow> swept_to {} s s"
  by (simp add: swept_to_def sessions_of_def restrict_map_def)

lemma swept_to_trans:
  assumes "swept_to P s s1" "swept_to Q s1 s2"
  shows "swept_to (P \<union> Q) s s2"
proof -
  have "sessions_of (P \<union> Q) s = sessions_of P s \<union> sessions_of Q s1"
    using assms(1) by (auto simp: sessions_of_def swept_to_def restrict_map_def split: if_splits)
  then show ?thesis using assms by (simp add: swept_to_def Int_commute)
qed

lemma sweep_transition_effect:
  assumes "rules_ok (sv_store s)" "env_ok env"
  shows "swept_to (given_up [t]) s (sweep_transition env t s)"
proof (cases "tr_To t = StateUnavailable")
  case True
  obtain n s' where p: "purgePeerSessions_sgwu env (tr_Peer t) s = (n, s')" by fastforce
  have "set (owned_ids env (tr_Peer t) s) = sessions_of (given_up [t]) s"
    using True by (auto simp: owned_ids_set[OF assms(2)] sessions_of_def given_up_def)
  then have "swept_to (given_up [t]) s (s'\<lparr>sv_reconcilePending := (sv_reconcilePending s)(tr_Peer t := None)\<rparr>)"
    using purge_sessions_effect[OF assms p[unfolded purgePeerSessions_sgwu_def]] True
    by (auto simp: swept_to_def given_up_def restrict_map_def fun_eq_iff)
  moreover have "sv_reconcilePending s' = sv_reconcilePending s"
    using purge_sessions_effect[OF assms p[unfolded purgePeerSessions_sgwu_def]] by simp
  ultimately show ?thesis using True p
    by (simp add: sweep_transition_def Let_def swept_to_def count_def)
next
  case False
  then have "given_up [t] = {}" by (simp add: given_up_def)
  then show ?thesis using False swept_to_refl[OF assms(1)]
    by (cases "tr_To t") (simp_all add: sweep_transition_def)
qed

lemma sweep_fold_effect:
  "rules_ok (sv_store s) \<Longrightarrow> env_ok env \<Longrightarrow> swept_to (given_up ts) s (fold (sweep_transition env) ts s)"
proof (induction ts arbitrary: s)
  case Nil
  then show ?case using swept_to_refl by (simp add: given_up_def)
next
  case (Cons t ts)
  note e = sweep_transition_effect[OF Cons.prems, of t]
  have "given_up (t # ts) = given_up [t] \<union> given_up ts" by (auto simp: given_up_def)
  then show ?case using swept_to_trans[OF e Cons.IH] e Cons.prems(2) by (simp add: swept_to_def)
qed

lemma env_ok_peers: "env_ok env \<Longrightarrow> finite (dom m) \<Longrightarrow> set (ev_peers env m) = dom m \<and> distinct (ev_peers env m)"
  unfolding env_ok_def by blast

lemma sweepAssociations_effect:
  fixes s :: Server_sgwu
  assumes ok: "server_ok now s" and env: "env_ok env" "ev_now env = now"
  defines "s' \<equiv> sweepAssociations_sgwu env s"
  shows "server_ok now s'"
    "u \<in> dom (sv_sessionOwner s') \<longleftrightarrow> (\<exists>q. sv_sessionOwner s u = Some q \<and>
       State_of (fst q) (sv_associations s') \<noteq> StateUnavailable)"
    "sv_sessionOwner s' u = Some q \<Longrightarrow>
       sv_sessionOwner s u = Some q \<and> us_byUP (sv_store s') u = us_byUP (sv_store s) u"
proof -
  let ?order = "ev_peers env (mg_records (sv_associations s))"
  obtain ts m where sw: "Sweep_assoc now ?order (sv_associations s) = (ts, m)" by fastforce
  have ranges: "ranges_over (EvSweep ?order) (sv_associations s)"
    using env_ok_peers[OF env(1) server_okD(3)[OF ok]] by simp
  note spec = Sweep_assoc_spec[OF ranges, of now, unfolded sw, simplified]
  have e: "swept_to (given_up ts) (s\<lparr>sv_associations := m\<rparr>) s'"
    using sweep_fold_effect[of "s\<lparr>sv_associations := m\<rparr>" env ts, OF _ env(1)] server_okD(1)[OF ok]
    unfolding s'_def sweepAssociations_sgwu_def env(2) sw by simp
  then have m: "sv_associations s' = m" by (simp add: swept_to_def)
  have keys: "Unmap p = p" if "p \<in> given_up ts" for p
    using that spec(2) server_okD(2)[OF ok] by (auto simp: given_up_def sweep_moves_def record_ok_def dest: assoc_okD)
  have gone: "State_of p m = StateUnavailable \<longleftrightarrow> State_of p (sv_associations s) = StateUnavailable \<or> Unmap p \<in> given_up ts" for p
    using State_of_sweep(1)[OF ranges, of p now] spec(2) by (auto simp: sw given_up_def)
  have rec: "State_of p m = StateReconciling \<longleftrightarrow> State_of p (sv_associations s) = StateReconciling \<and> Unmap p \<notin> given_up ts" for p
    using State_of_sweep(2)[OF ranges, of p now] gone[of p] by (auto simp: sw)
  have img: "Unmap ` given_up ts = given_up ts" using keys by force
  have own: "sv_sessionOwner s' u = Some q \<longleftrightarrow> sv_sessionOwner s u = Some q \<and> State_of (fst q) m \<noteq> StateUnavailable" for u q
    using e owners_okD[OF server_okD(4)[OF ok], of u q] gone[of "fst q"]
    by (cases q) (auto simp: swept_to_def sessions_of_def restrict_map_def img)
  have same: "us_byUP (sv_store s') u = us_byUP (sv_store s) u" if "sv_sessionOwner s' u = Some q" for u q
    using e that by (auto simp: swept_to_def sessions_of_def restrict_map_def split: if_splits)
  show "u \<in> dom (sv_sessionOwner s') \<longleftrightarrow> (\<exists>q. sv_sessionOwner s u = Some q \<and>
       State_of (fst q) (sv_associations s') \<noteq> StateUnavailable)" using own m by (auto simp: dom_def)
  show "sv_sessionOwner s' u = Some q \<Longrightarrow>
       sv_sessionOwner s u = Some q \<and> us_byUP (sv_store s') u = us_byUP (sv_store s) u" using own same by simp
  have "owners_ok s'"
    by (rule owners_ok_shrink[OF server_okD(4)[OF ok]])
      (use e own m server_okD(4)[OF ok] in \<open>simp_all add: swept_to_def owners_ok_def\<close>)
  moreover have "pending_ok s'" unfolding pending_ok_def
  proof
    fix p show "sv_reconcilePending s' p \<noteq> None \<longleftrightarrow> Unmap p = p \<and> State_of p (sv_associations s') = StateReconciling"
      using e server_okD(5)[OF ok] rec[of p] m by (auto simp: swept_to_def pending_ok_def restrict_map_def split: if_splits)
  qed
  moreover have "assoc_ok now m" "finite (dom (mg_records m))"
    using assoc_ok_step[OF server_okD(2)[OF ok] ranges] server_okD(3)[OF ok] spec(1) by (simp_all add: sw dom_def)
  ultimately show "server_ok now s'" using e m by (simp add: server_ok_def swept_to_def)
qed

section \<open>Reachable servers\<close>

text \<open>A server starts over an empty store and then handles requests and sweeps, one after the other, at instants that do
  not go back; requests, peers and environments are arbitrary.\<close>

inductive server_reach :: "ServerConfig \<Rightarrow> int \<Rightarrow> int \<Rightarrow> Server_sgwu \<Rightarrow> bool" for config n where
  server_start: "New_server now listens c (Some (NewStoreWithLimit_sgwu n)) = Ok (config, s) \<Longrightarrow> 0 < now \<Longrightarrow>
    server_reach config n now s"
| server_request: "server_reach config n now s \<Longrightarrow> env_ok env \<Longrightarrow> now \<le> ev_now env \<Longrightarrow>
    server_reach config n (ev_now env) (snd (handle_sgwu config env peer request s))"
| server_sweep: "server_reach config n now s \<Longrightarrow> env_ok env \<Longrightarrow> now \<le> ev_now env \<Longrightarrow>
    server_reach config n (ev_now env) (sweepAssociations_sgwu env s)"

lemma server_ok_later: "server_ok now s \<Longrightarrow> now \<le> now' \<Longrightarrow> server_ok now' s"
  by (auto simp: server_ok_def intro: assoc_ok_later)

lemma server_ok_New:
  assumes "New_server now listens c (Some (NewStoreWithLimit_sgwu n)) = Ok (config, s)" "0 < now"
  shows "server_ok now s"
proof -
  obtain m where m: "New_assoc (sc_AssociationTimeout c) (sc_GraceWindow c) = Some m"
    "s = \<lparr>sv_store = NewStoreWithLimit_sgwu n, sv_associations = m, sv_sessionOwner = Map.empty,
       sv_reconcilePending = Map.empty, sv_reportNotBefore = Map.empty, sv_counters = zero_counters, sv_notified = []\<rparr>"
    using assms(1) by (auto simp: New_server_def split: if_splits option.splits)
  moreover have "mg_records m = Map.empty" using m(1) by (auto simp: New_assoc_def Let_def split: if_splits)
  ultimately show ?thesis using assoc_ok_New[OF m(1) assms(2)] NewStore_ok
    by (simp add: server_ok_def owners_ok_def pending_ok_def State_of_def) (simp add: NewStoreWithLimit_sgwu_def)
qed

lemma server_reach_ok: "server_reach config n now s \<Longrightarrow> server_ok now s"
proof (induction rule: server_reach.induct)
  case (server_request now s env peer request)
  then show ?case
    using handle_handled[OF server_ok_later, of now s "ev_now env" env peer config request] by (simp add: handled_def)
next
  case (server_sweep now s env)
  then show ?case using sweepAssociations_effect(1)[OF server_ok_later, of now s "ev_now env" env] by simp
qed (rule server_ok_New)

section \<open>The allocation of SEIDs\<close>

text \<open>A draw the loop passes over: zero, or the SEID of a session.\<close>

definition passed_over :: "Store_sgwu \<Rightarrow> 64 word option \<Rightarrow> bool" where
  "passed_over st d \<longleftrightarrow> (\<exists>v. d = Some v \<and> (v = 0 \<or> FindByUPSEID_sgwu st v \<noteq> None))"

text \<open>The result of the loop from an attempt on is decided by the first draw it does not pass over.\<close>

definition first_usable :: "(nat \<Rightarrow> 64 word option) \<Rightarrow> Store_sgwu \<Rightarrow> nat \<Rightarrow> nat option" where
  "first_usable draws st k = List.find (\<lambda>j. \<not> passed_over st (draws j)) [k..<256]"

lemma allocate_from_first:
  "allocate_from draws st k = (case first_usable draws st k of None \<Rightarrow> Err SEIDsExhausted
     | Some j \<Rightarrow> (case draws j of None \<Rightarrow> Err RandomFailed | Some v \<Rightarrow> Ok v))"
proof (induction draws st k rule: allocate_from.induct)
  case (1 draws st k)
  show ?case
  proof (cases "k < 256")
    case True
    have "first_usable draws st k = (if passed_over st (draws k) then first_usable draws st (k + 1) else Some k)"
      using upt_conv_Cons[OF True] by (simp add: first_usable_def)
    then show ?thesis using 1 True
      by (subst allocate_from.simps) (auto simp: passed_over_def split: option.splits)
  qed (subst allocate_from.simps, simp add: first_usable_def)
qed

lemma first_usable_None: "first_usable draws st 0 = None \<longleftrightarrow> (\<forall>j<256. passed_over st (draws j))"
  by (auto simp: first_usable_def find_None_iff)

lemma first_usable_Some:
  "first_usable draws st 0 = Some k \<longleftrightarrow> k < 256 \<and> \<not> passed_over st (draws k) \<and> (\<forall>j<k. passed_over st (draws j))"
  by (auto simp: first_usable_def find_Some_iff)

text \<open>C34: (termination) \<^verbatim>\<open>allocateSEID\<close> always returns, after at most 256 draws. It returns a SEID exactly when a draw gives one
  that is not zero and not in use and all draws before it give zero or SEIDs in use; it fails for lack of random numbers
  exactly when such a draw fails, and reports exhaustion exactly when all 256 draws give zero or SEIDs in use.\<close>

theorem allocateSEID_terminates:
  "(\<exists>v. allocateSEID_sgwu draws st = Ok v \<and> v \<noteq> 0 \<and> FindByUPSEID_sgwu st v = None \<and>
      (\<exists>k<256. draws k = Some v \<and> (\<forall>j<k. passed_over st (draws j)))) \<or>
   allocateSEID_sgwu draws st = Err RandomFailed \<and> (\<exists>k<256. draws k = None \<and> (\<forall>j<k. passed_over st (draws j))) \<or>
   allocateSEID_sgwu draws st = Err SEIDsExhausted \<and> (\<forall>j<256. passed_over st (draws j))"
proof (cases "first_usable draws st 0")
  case None
  then show ?thesis using first_usable_None[of draws st] by (simp add: allocateSEID_sgwu_def allocate_from_first)
next
  case (Some k)
  note k = Some[unfolded first_usable_Some]
  show ?thesis
  proof (cases "draws k")
    case None
    then show ?thesis using Some k by (auto simp: allocateSEID_sgwu_def allocate_from_first)
  next
    case v: (Some v)
    have "v \<noteq> 0" "us_byUP st v = None" using k v by (auto simp: passed_over_def)
    then show ?thesis using Some k v by (intro disjI1 exI[of _ v]) (auto simp: allocateSEID_sgwu_def allocate_from_first)
  qed
qed

theorem allocateSEID_terminates_witness:
  "allocateSEID_sgwu (\<lambda>k. if k < 2 then Some 0 else Some 9) (NewStoreWithLimit_sgwu 4) = Ok 9 \<and>
   allocateSEID_sgwu (\<lambda>k. Some 0) (NewStoreWithLimit_sgwu 4) = Err SEIDsExhausted"
  using allocateSEID_terminates[of "\<lambda>k. if k < 2 then Some 0 else Some 9" "NewStoreWithLimit_sgwu 4"]
    allocateSEID_terminates[of "\<lambda>k. Some 0" "NewStoreWithLimit_sgwu 4"]
  by (auto simp: passed_over_def NewStoreWithLimit_sgwu_def split: if_splits)

end
