(* ===== verification/Sgwc_Rule_Requests.thy ===== *)
theory Sgwc_Rule_Requests
  imports Pfcp_Addresses
begin

unbundle bit_operations_syntax

text \<open>
  How the serving gateway control plane writes rules into PFCP requests: the plans and the constructors of
  \<^verbatim>\<open>internal/sgwc/pfcpclient/client.go\<close>, the elements of an establishment (\<^verbatim>\<open>establishmentIEs\<close>) and of the
  modifications that activate, deactivate, add, change and remove a bearer. Sending the request and waiting for the
  response is the transport's part and not modelled. Where the code ignores the error of a constructor it goes on
  with the zero element; so does the model.
\<close>

section \<open>Data\<close>

record Tunnel =
  tn_TEID :: "32 word"
  tn_IP :: Addr

record RuleIDs_pc =
  rp_UplinkPDR :: "16 word"
  rp_DownlinkPDR :: "16 word"
  rp_UplinkFAR :: "32 word"
  rp_DownlinkFAR :: "32 word"
  rp_QER :: "32 word"
  rp_URR :: "32 word"

definition DefaultRuleIDs :: RuleIDs_pc where
  "DefaultRuleIDs = \<lparr>rp_UplinkPDR = 1, rp_DownlinkPDR = 2, rp_UplinkFAR = 1, rp_DownlinkFAR = 2, rp_QER = 1, rp_URR = 1\<rparr>"

record BearerPlan =
  bp_Rules :: RuleIDs_pc
  bp_AccessLocal :: Tunnel
  bp_CoreLocal :: Tunnel
  bp_CoreRemote :: Tunnel
  bp_AccessRemote :: "Tunnel option"
  bp_UplinkBitrate :: "64 word"
  bp_DownlinkBitrate :: "64 word"
  bp_QCI :: byte
  bp_ARP :: byte
  bp_PreemptionCapable :: bool
  bp_PreemptionVulnerable :: bool

record Establishment =
  ep_CPSEID :: "64 word"
  ep_AccessLocal :: Tunnel
  ep_CoreLocal :: Tunnel
  ep_CoreRemote :: Tunnel
  ep_AccessRemote :: "Tunnel option"
  ep_UplinkBitrate :: "64 word"
  ep_DownlinkBitrate :: "64 word"
  ep_QCI :: byte
  ep_ARP :: byte
  ep_PreemptionCapable :: bool
  ep_PreemptionVulnerable :: bool
  ep_AdditionalBearers :: "BearerPlan list"

record Session_pc =
  sp_CPSEID :: "64 word"
  sp_UPSEID :: "64 word"
  sp_BARID :: byte
  sp_AccessLocal :: Tunnel
  sp_CoreLocal :: Tunnel
  sp_CoreRemote :: Tunnel
  sp_AccessRemote :: "Tunnel option"

text \<open>The part of the client's configuration that the constructors read.\<close>

record ClientConfig =
  cc_Advertise :: Addr
  cc_EnterpriseID :: "16 word"
  cc_DownlinkNotificationDelay :: int
  cc_UsageReportingThreshold :: "64 word"

datatype request_error = PfcpError pfcp_error | InvalidPlan

definition pfcp_result :: "(pfcp_error, 'a) outcome \<Rightarrow> (request_error, 'a) outcome" where
  "pfcp_result r = (case r of Ok a \<Rightarrow> Ok a | Err e \<Rightarrow> Err (PfcpError e) | Panic \<Rightarrow> Panic)"

definition zeroIE :: IE_pfcp where "zeroIE = \<lparr>pie_Type = 0, pie_Value = []\<rparr>"

text \<open>\<^verbatim>\<open>ie, _ := constructor\<close>.\<close>

definition ignoring_err :: "(pfcp_error, IE_pfcp) outcome \<Rightarrow> (pfcp_error, IE_pfcp) outcome" where
  "ignoring_err r = (case r of Err e \<Rightarrow> Ok zeroIE | _ \<Rightarrow> r)"

section \<open>Constructors of rules\<close>

definition createPDR_sgwc ::
  "16 word \<Rightarrow> 32 word \<Rightarrow> byte \<Rightarrow> Tunnel \<Rightarrow> 32 word \<Rightarrow> 32 word \<Rightarrow> 32 word \<Rightarrow> (pfcp_error, IE_pfcp) outcome" where
  "createPDR_sgwc i precedence source local farID qerID urrID =
     andThen (NewPDRIDIE i) (\<lambda>pdrID.
     andThen (ignoring_err (NewUint32IE IEPrecedence precedence)) (\<lambda>precedenceIE.
     andThen (ignoring_err (NewInterfaceIE IESourceInterface source)) (\<lambda>sourceIE.
     andThen (ignoring_err (NewFTEIDIE_pfcp \<lparr>pft_TEID = tn_TEID local, pft_IPv4 = tn_IP local, pft_IPv6 = AddrZero\<rparr>)) (\<lambda>fteid.
     andThen (NewGroupedIE_pfcp IEPDI [sourceIE, fteid]) (\<lambda>pdi.
     andThen (ignoring_err (NewOuterHeaderRemovalIE OuterHeaderRemovalGTPUUDPIPv4)) (\<lambda>removal.
     andThen (ignoring_err (NewUint32IE IEFARID farID)) (\<lambda>far.
     andThen (ignoring_err (NewUint32IE IEQERID qerID)) (\<lambda>qer.
     andThen (ignoring_err (NewUint32IE IEURRID urrID)) (\<lambda>urr.
     NewGroupedIE_pfcp IECreatePDR [pdrID, precedenceIE, pdi, removal, far, qer, urr])))))))))"

definition outer_header :: "Tunnel \<Rightarrow> OuterHeader" where
  "outer_header remote = \<lparr>oh_Description = OuterHeaderGTPUUDPIPv4, oh_TEID = tn_TEID remote, oh_IPv4 = tn_IP remote,
     oh_IPv6 = AddrZero, oh_Port = 0\<rparr>"

definition createForwardingFAR_sgwc :: "32 word \<Rightarrow> byte \<Rightarrow> Tunnel \<Rightarrow> (pfcp_error, IE_pfcp) outcome" where
  "createForwardingFAR_sgwc i destination remote =
     andThen (ignoring_err (NewUint32IE IEFARID i)) (\<lambda>farID.
     andThen (ignoring_err (NewApplyActionIE ApplyForward)) (\<lambda>action.
     andThen (ignoring_err (NewInterfaceIE IEDestinationInterface destination)) (\<lambda>destinationIE.
     andThen (NewOuterHeaderCreationIE (outer_header remote)) (\<lambda>outer.
     andThen (NewGroupedIE_pfcp IEForwardingParameters [destinationIE, outer]) (\<lambda>forwarding.
     NewGroupedIE_pfcp IECreateFAR [farID, action, forwarding])))))"

definition createDropFAR_sgwc :: "32 word \<Rightarrow> (pfcp_error, IE_pfcp) outcome" where
  "createDropFAR_sgwc i =
     andThen (ignoring_err (NewUint32IE IEFARID i)) (\<lambda>farID.
     andThen (ignoring_err (NewApplyActionIE ApplyDrop)) (\<lambda>action.
     NewGroupedIE_pfcp IECreateFAR [farID, action]))"

definition createBufferingFAR_sgwc :: "32 word \<Rightarrow> byte \<Rightarrow> (pfcp_error, IE_pfcp) outcome" where
  "createBufferingFAR_sgwc i bar =
     andThen (ignoring_err (NewUint32IE IEFARID i)) (\<lambda>farID.
     andThen (ignoring_err (NewApplyActionIE (ApplyBuffer OR ApplyNotifyControlPlane))) (\<lambda>action.
     andThen (NewBARIDIE bar) (\<lambda>barID.
     NewGroupedIE_pfcp IECreateFAR [farID, action, barID])))"

definition createBAR_sgwc :: "byte \<Rightarrow> int \<Rightarrow> (pfcp_error, IE_pfcp) outcome" where
  "createBAR_sgwc i delay =
     andThen (NewBARIDIE i) (\<lambda>barID.
     andThen (NewDownlinkDataNotificationDelayIE delay) (\<lambda>delayIE.
     NewGroupedIE_pfcp IECreateBAR [barID, delayIE]))"

definition createQERWithType_sgwc ::
  "16 word \<Rightarrow> 32 word \<Rightarrow> 64 word \<Rightarrow> 64 word \<Rightarrow> 16 word \<Rightarrow> byte \<Rightarrow> byte \<Rightarrow> bool \<Rightarrow> bool \<Rightarrow>
   (pfcp_error, IE_pfcp) outcome" where
  "createQERWithType_sgwc groupType i uplinkBps downlinkBps enterpriseID qci arp capable vulnerable =
     andThen (ignoring_err (NewUint32IE IEQERID i)) (\<lambda>qerID.
     let children = [qerID, NewGateStatusIE True True] in
     andThen (if uplinkBps > 0 \<or> downlinkBps > 0
       then andThen (NewBitRateIE IEMBR (uplinkBps div 1000) (downlinkBps div 1000)) (\<lambda>mbr. Ok (children @ [mbr]))
       else Ok children) (\<lambda>children.
     andThen (if enterpriseID \<noteq> 0 \<and> qci \<noteq> 0
       then andThen (NewVendorBearerQoSIE \<lparr>bq_EnterpriseID = enterpriseID, bq_QCI = qci, bq_ARP = arp,
              bq_PreemptionCapable = capable, bq_PreemptionVulnerable = vulnerable\<rparr>) (\<lambda>metadata.
              Ok (children @ [metadata]))
       else Ok children) (\<lambda>children.
     NewGroupedIE_pfcp groupType children)))"

definition createQER_sgwc ::
  "32 word \<Rightarrow> 64 word \<Rightarrow> 64 word \<Rightarrow> 16 word \<Rightarrow> byte \<Rightarrow> byte \<Rightarrow> bool \<Rightarrow> bool \<Rightarrow> (pfcp_error, IE_pfcp) outcome" where
  "createQER_sgwc = createQERWithType_sgwc IECreateQER"

definition createURRWithType_sgwc :: "16 word \<Rightarrow> 32 word \<Rightarrow> 64 word \<Rightarrow> (pfcp_error, IE_pfcp) outcome" where
  "createURRWithType_sgwc groupType i thresholdBytes =
     andThen (NewUint32IE IEURRID i) (\<lambda>urrID.
     andThen (NewMeasurementMethodIE True True) (\<lambda>measurement.
     andThen (NewReportingTriggersIE ReportingTriggerVolumeThreshold) (\<lambda>triggers.
     andThen (NewTotalVolumeThresholdIE thresholdBytes) (\<lambda>threshold.
     NewGroupedIE_pfcp groupType [urrID, measurement, triggers, threshold]))))"

definition removePDR_sgwc :: "16 word \<Rightarrow> (pfcp_error, IE_pfcp) outcome" where
  "removePDR_sgwc i = andThen (NewPDRIDIE i) (\<lambda>pdrID. NewGroupedIE_pfcp IERemovePDR [pdrID])"

definition removeUint32Rule_sgwc :: "16 word \<Rightarrow> 16 word \<Rightarrow> 32 word \<Rightarrow> (pfcp_error, IE_pfcp) outcome" where
  "removeUint32Rule_sgwc groupType idType i = andThen (NewUint32IE idType i) (\<lambda>idIE. NewGroupedIE_pfcp groupType [idIE])"

section \<open>Validation of plans\<close>

definition validateTunnel_sgwc :: "Tunnel \<Rightarrow> (request_error, unit) outcome" where
  "validateTunnel_sgwc t = (if tn_TEID t = 0 \<or> \<not> Is4 (tn_IP t) then Err InvalidPlan else Ok ())"

definition validateBearerQoS_sgwc :: "byte \<Rightarrow> byte \<Rightarrow> (request_error, unit) outcome" where
  "validateBearerQoS_sgwc qci arp = (if qci = 0 \<or> qci = 255 \<or> arp = 0 \<or> arp > 15 then Err InvalidPlan else Ok ())"

definition validateRuleIDs_sgwc :: "RuleIDs_pc \<Rightarrow> (request_error, unit) outcome" where
  "validateRuleIDs_sgwc r =
     (if rp_UplinkPDR r = 0 \<or> rp_DownlinkPDR r = 0 \<or> rp_UplinkPDR r = rp_DownlinkPDR r \<or>
         rp_UplinkFAR r = 0 \<or> rp_DownlinkFAR r = 0 \<or> rp_UplinkFAR r = rp_DownlinkFAR r \<or> rp_QER r = 0 \<or> rp_URR r = 0
      then Err InvalidPlan else Ok ())"

definition validateTunnels :: "Tunnel list \<Rightarrow> Tunnel option \<Rightarrow> (request_error, unit) outcome" where
  "validateTunnels ts remote =
     (if \<exists>t \<in> set ts. validateTunnel_sgwc t \<noteq> Ok () then Err InvalidPlan
      else case remote of None \<Rightarrow> Ok () | Some t \<Rightarrow> validateTunnel_sgwc t)"

definition validateEstablishment_sgwc :: "Establishment \<Rightarrow> (request_error, unit) outcome" where
  "validateEstablishment_sgwc plan =
     (if ep_CPSEID plan = 0 then Err InvalidPlan
      else andThen (validateBearerQoS_sgwc (ep_QCI plan) (ep_ARP plan)) (\<lambda>_.
        validateTunnels [ep_AccessLocal plan, ep_CoreLocal plan, ep_CoreRemote plan] (ep_AccessRemote plan)))"

definition validateBearerPlan_sgwc :: "BearerPlan \<Rightarrow> (request_error, unit) outcome" where
  "validateBearerPlan_sgwc plan =
     andThen (validateRuleIDs_sgwc (bp_Rules plan)) (\<lambda>_.
     andThen (validateBearerQoS_sgwc (bp_QCI plan) (bp_ARP plan)) (\<lambda>_.
       validateTunnels [bp_AccessLocal plan, bp_CoreLocal plan, bp_CoreRemote plan] (bp_AccessRemote plan)))"

section \<open>The elements of requests\<close>

text \<open>The six rules of one bearer; \<open>bar\<close> is the buffering rule of the session. The default bearer of a session is built
  by the same calls with the identifiers of \<open>DefaultRuleIDs\<close>.\<close>

definition bearerIEs :: "ClientConfig \<Rightarrow> byte \<Rightarrow> BearerPlan \<Rightarrow> (pfcp_error, IE_pfcp list) outcome" where
  "bearerIEs config bar bearer = (let r = bp_Rules bearer in
     andThen (createPDR_sgwc (rp_UplinkPDR r) 100 InterfaceAccess (bp_AccessLocal bearer) (rp_UplinkFAR r) (rp_QER r) (rp_URR r)) (\<lambda>uplinkPDR.
     andThen (createPDR_sgwc (rp_DownlinkPDR r) 100 InterfaceCore (bp_CoreLocal bearer) (rp_DownlinkFAR r) (rp_QER r) (rp_URR r)) (\<lambda>downlinkPDR.
     andThen (createForwardingFAR_sgwc (rp_UplinkFAR r) InterfaceCore (bp_CoreRemote bearer)) (\<lambda>uplinkFAR.
     andThen (case bp_AccessRemote bearer of None \<Rightarrow> createBufferingFAR_sgwc (rp_DownlinkFAR r) bar
       | Some remote \<Rightarrow> createForwardingFAR_sgwc (rp_DownlinkFAR r) InterfaceAccess remote) (\<lambda>downlinkFAR.
     andThen (createQER_sgwc (rp_QER r) (bp_UplinkBitrate bearer) (bp_DownlinkBitrate bearer) (cc_EnterpriseID config)
       (bp_QCI bearer) (bp_ARP bearer) (bp_PreemptionCapable bearer) (bp_PreemptionVulnerable bearer)) (\<lambda>qer.
     andThen (createURRWithType_sgwc IECreateURR (rp_URR r) (cc_UsageReportingThreshold config)) (\<lambda>urr.
     Ok [uplinkPDR, downlinkPDR, uplinkFAR, downlinkFAR, qer, urr])))))))"

definition default_bearer :: "Establishment \<Rightarrow> BearerPlan" where
  "default_bearer plan = \<lparr>bp_Rules = DefaultRuleIDs, bp_AccessLocal = ep_AccessLocal plan, bp_CoreLocal = ep_CoreLocal plan,
     bp_CoreRemote = ep_CoreRemote plan, bp_AccessRemote = ep_AccessRemote plan, bp_UplinkBitrate = ep_UplinkBitrate plan,
     bp_DownlinkBitrate = ep_DownlinkBitrate plan, bp_QCI = ep_QCI plan, bp_ARP = ep_ARP plan,
     bp_PreemptionCapable = ep_PreemptionCapable plan, bp_PreemptionVulnerable = ep_PreemptionVulnerable plan\<rparr>"

fun additionalIEs :: "ClientConfig \<Rightarrow> byte \<Rightarrow> BearerPlan list \<Rightarrow> (request_error, IE_pfcp list) outcome" where
  "additionalIEs config bar [] = Ok []"
| "additionalIEs config bar (bearer # bearers) =
     andThen (validateBearerPlan_sgwc bearer) (\<lambda>_.
     andThen (pfcp_result (bearerIEs config bar bearer)) (\<lambda>ies.
     andThen (additionalIEs config bar bearers) (\<lambda>rest. Ok (ies @ rest))))"

definition establishmentIEs :: "ClientConfig \<Rightarrow> Establishment \<Rightarrow> (request_error, IE_pfcp list) outcome" where
  "establishmentIEs config plan =
     andThen (pfcp_result (ignoring_err (NewNodeIDIE (cc_Advertise config) []))) (\<lambda>nodeID.
     andThen (pfcp_result (ignoring_err (NewFSEIDIE
       \<lparr>fs_SEID = ep_CPSEID plan, fs_IPv4 = cc_Advertise config, fs_IPv6 = AddrZero\<rparr>))) (\<lambda>cpFSEID.
     andThen (pfcp_result (createBAR_sgwc (ep_QCI plan) (cc_DownlinkNotificationDelay config))) (\<lambda>bar.
     andThen (pfcp_result (bearerIEs config (ep_QCI plan) (default_bearer plan))) (\<lambda>ies.
     andThen (additionalIEs config (ep_QCI plan) (ep_AdditionalBearers plan)) (\<lambda>rest.
     Ok ([nodeID, cpFSEID, bar] @ ies @ [\<lparr>pie_Type = IEPDNType_pfcp, pie_Value = [1]\<rparr>] @ rest))))))"

text \<open>\<^verbatim>\<open>Establish\<close> up to the request that it sends.\<close>

definition establish_request :: "ClientConfig \<Rightarrow> Establishment \<Rightarrow> (request_error, IE_pfcp list) outcome" where
  "establish_request config plan = andThen (validateEstablishment_sgwc plan) (\<lambda>_. establishmentIEs config plan)"

text \<open>The elements that the modifications send; each begins with the checks of its function.\<close>

definition live_session :: "Session_pc \<Rightarrow> (request_error, unit) outcome" where
  "live_session s = (if sp_CPSEID s = 0 \<or> sp_UPSEID s = 0 then Err InvalidPlan else Ok ())"

definition activateBearerIEs :: "Session_pc \<Rightarrow> RuleIDs_pc \<Rightarrow> Tunnel \<Rightarrow> (request_error, IE_pfcp list) outcome" where
  "activateBearerIEs session r remote =
     andThen (live_session session) (\<lambda>_.
     andThen (validateRuleIDs_sgwc r) (\<lambda>_.
     andThen (validateTunnel_sgwc remote) (\<lambda>_. pfcp_result (
     andThen (ignoring_err (NewUint32IE IEFARID (rp_DownlinkFAR r))) (\<lambda>farID.
     andThen (ignoring_err (NewApplyActionIE ApplyForward)) (\<lambda>action.
     andThen (ignoring_err (NewInterfaceIE IEDestinationInterface InterfaceAccess)) (\<lambda>destination.
     andThen (ignoring_err (NewOuterHeaderCreationIE (outer_header remote))) (\<lambda>outer.
     andThen (NewGroupedIE_pfcp IEUpdateForwardingParameters [destination, outer]) (\<lambda>forwarding.
     andThen (NewGroupedIE_pfcp IEUpdateFAR [farID, action, forwarding]) (\<lambda>update. Ok [update]))))))))))"

definition deactivateBearerIEs :: "Session_pc \<Rightarrow> RuleIDs_pc \<Rightarrow> (request_error, IE_pfcp list) outcome" where
  "deactivateBearerIEs session r =
     andThen (live_session session) (\<lambda>_.
     andThen (validateRuleIDs_sgwc r) (\<lambda>_. pfcp_result (
     andThen (ignoring_err (NewUint32IE IEFARID (rp_DownlinkFAR r))) (\<lambda>farID.
     andThen (ignoring_err (NewApplyActionIE (ApplyBuffer OR ApplyNotifyControlPlane))) (\<lambda>action.
     andThen (NewBARIDIE (sp_BARID session)) (\<lambda>barID.
     andThen (NewGroupedIE_pfcp IEUpdateFAR [farID, action, barID]) (\<lambda>update. Ok [update])))))))"

definition addBearerIEs :: "ClientConfig \<Rightarrow> Session_pc \<Rightarrow> BearerPlan \<Rightarrow> (request_error, IE_pfcp list) outcome" where
  "addBearerIEs config session plan =
     andThen (live_session session) (\<lambda>_.
     andThen (validateBearerPlan_sgwc plan) (\<lambda>_. pfcp_result (let r = bp_Rules plan in
     andThen (createPDR_sgwc (rp_UplinkPDR r) 100 InterfaceAccess (bp_AccessLocal plan) (rp_UplinkFAR r) (rp_QER r) (rp_URR r)) (\<lambda>uplinkPDR.
     andThen (createPDR_sgwc (rp_DownlinkPDR r) 100 InterfaceCore (bp_CoreLocal plan) (rp_DownlinkFAR r) (rp_QER r) (rp_URR r)) (\<lambda>downlinkPDR.
     andThen (createForwardingFAR_sgwc (rp_UplinkFAR r) InterfaceCore (bp_CoreRemote plan)) (\<lambda>uplinkFAR.
     andThen (createDropFAR_sgwc (rp_DownlinkFAR r)) (\<lambda>downlinkFAR.
     andThen (createQERWithType_sgwc IECreateQER (rp_QER r) (bp_UplinkBitrate plan) (bp_DownlinkBitrate plan)
       (cc_EnterpriseID config) (bp_QCI plan) (bp_ARP plan) (bp_PreemptionCapable plan) (bp_PreemptionVulnerable plan)) (\<lambda>qer.
     andThen (createURRWithType_sgwc IECreateURR (rp_URR r) (cc_UsageReportingThreshold config)) (\<lambda>urr.
     Ok [uplinkFAR, downlinkFAR, qer, urr, uplinkPDR, downlinkPDR])))))))))"

definition updateBearerQoSIEs ::
  "ClientConfig \<Rightarrow> Session_pc \<Rightarrow> RuleIDs_pc \<Rightarrow> byte \<Rightarrow> byte \<Rightarrow> bool \<Rightarrow> bool \<Rightarrow> 64 word \<Rightarrow> 64 word \<Rightarrow>
   (request_error, IE_pfcp list) outcome" where
  "updateBearerQoSIEs config session r qci arp capable vulnerable uplinkBps downlinkBps =
     andThen (live_session session) (\<lambda>_.
     andThen (validateRuleIDs_sgwc r) (\<lambda>_. pfcp_result (
     andThen (createQERWithType_sgwc IEUpdateQER (rp_QER r) uplinkBps downlinkBps (cc_EnterpriseID config) qci arp
       capable vulnerable) (\<lambda>qer. Ok [qer]))))"

definition removeBearerIEs :: "Session_pc \<Rightarrow> RuleIDs_pc \<Rightarrow> (request_error, IE_pfcp list) outcome" where
  "removeBearerIEs session r =
     andThen (live_session session) (\<lambda>_.
     andThen (validateRuleIDs_sgwc r) (\<lambda>_. pfcp_result (
     andThen (ignoring_err (removePDR_sgwc (rp_UplinkPDR r))) (\<lambda>uplinkPDR.
     andThen (ignoring_err (removePDR_sgwc (rp_DownlinkPDR r))) (\<lambda>downlinkPDR.
     andThen (ignoring_err (removeUint32Rule_sgwc IERemoveFAR IEFARID (rp_UplinkFAR r))) (\<lambda>uplinkFAR.
     andThen (ignoring_err (removeUint32Rule_sgwc IERemoveFAR IEFARID (rp_DownlinkFAR r))) (\<lambda>downlinkFAR.
     andThen (ignoring_err (removeUint32Rule_sgwc IERemoveQER IEQERID (rp_QER r))) (\<lambda>qer.
     andThen (ignoring_err (removeUint32Rule_sgwc IERemoveURR IEURRID (rp_URR r))) (\<lambda>urr.
     Ok [uplinkPDR, downlinkPDR, uplinkFAR, downlinkFAR, qer, urr]))))))))) "

end
