(* ===== verification/Sgw_Rule_Exchange.thy ===== *)
theory Sgw_Rule_Exchange
  imports Sgwu_Decode Sgwc_Rule_Requests
begin

unbundle bit_operations_syntax

text \<open>
  The serving gateway's control plane and user plane together: what \<^verbatim>\<open>internal/sgwc/pfcpclient\<close> writes into a request is
  what \<^verbatim>\<open>internal/sgwu/pfcpserver\<close> reads from it, rule by rule and for a whole session.
\<close>

section \<open>Single rules\<close>

lemma ignoring_Ok [simp]: "ignoring_err (Ok ie) = Ok ie"
  by (simp add: ignoring_err_def)

text \<open>The elements that the control plane builds, with what the user plane reads from them.\<close>

lemma sent_uint32:
  assumes "ty = IEPrecedence \<or> ty \<in> {IEFARID, IEQERID, IEURRID} \<and> v \<noteq> 0"
  obtains ie where "NewUint32IE ty v = Ok ie" "pie_Type ie = ty" "Uint32_IE ie = Ok v"
proof -
  have "\<exists>ie. NewUint32IE ty v = Ok ie" using assms by (auto simp: NewUint32IE_def uint32Type_def)
  then show thesis using that uint32.new_typ uint32.get_new by blast
qed

lemma sent_interface:
  assumes "ty \<in> {IESourceInterface, IEDestinationInterface}" "side = 0 \<or> side = 1"
  obtains ie where "NewInterfaceIE ty side = Ok ie" "pie_Type ie = ty" "Interface_IE ie = Ok side"
  using assms that by (auto simp: NewInterfaceIE_def Interface_IE_def byte_at_def Let_def pfcp_types)

lemma sent_removal:
  obtains ie where "NewOuterHeaderRemovalIE OuterHeaderRemovalGTPUUDPIPv4 = Ok ie" "pie_Type ie = IEOuterHeaderRemoval"
    "OuterHeaderRemoval_IE ie = Ok OuterHeaderRemovalGTPUUDPIPv4"
proof -
  obtain ie where "NewOuterHeaderRemovalIE OuterHeaderRemovalGTPUUDPIPv4 = Ok ie" by (simp add: NewOuterHeaderRemovalIE_def)
  then show thesis using that outerHeaderRemoval.new_typ outerHeaderRemoval.get_new by blast
qed

lemma sent_action:
  assumes "a \<in> {ApplyDrop, ApplyForward, ApplyBuffer OR ApplyNotifyControlPlane}"
  obtains ie where "NewApplyActionIE a = Ok ie" "pie_Type ie = IEApplyAction" "ApplyAction_IE ie = Ok a"
proof -
  have "\<exists>ie. NewApplyActionIE a = Ok ie" using assms by (auto simp: NewApplyActionIE_def pfcp_flags)
  then show thesis using that applyAction.new_typ applyAction.get_new by blast
qed

definition good_tunnel :: "Tunnel \<Rightarrow> bool" where
  "good_tunnel t \<longleftrightarrow> tn_TEID t \<noteq> 0 \<and> Is4 (tn_IP t)"

lemma validateTunnel_Ok [simp]: "validateTunnel_sgwc t = Ok () \<longleftrightarrow> good_tunnel t"
  by (simp add: validateTunnel_sgwc_def good_tunnel_def)

lemma Is4_valid: "Is4 a \<Longrightarrow> IsValid a" by (cases a) (auto simp: IsValid_def)

lemma sent_fteid:
  assumes "good_tunnel t"
  obtains ie where "NewFTEIDIE_pfcp \<lparr>pft_TEID = tn_TEID t, pft_IPv4 = tn_IP t, pft_IPv6 = AddrZero\<rparr> = Ok ie"
    "pie_Type ie = IEFTEID_pfcp" "FTEID_IE_pfcp ie = Ok \<lparr>pft_TEID = tn_TEID t, pft_IPv4 = tn_IP t, pft_IPv6 = AddrZero\<rparr>"
proof -
  let ?f = "\<lparr>pft_TEID = tn_TEID t, pft_IPv4 = tn_IP t, pft_IPv6 = AddrZero\<rparr>"
  obtain w where "tn_IP t = Addr4 w" using assms by (cases "tn_IP t") (auto simp: good_tunnel_def)
  then obtain ie where ie: "NewFTEIDIE_pfcp ?f = Ok ie"
    using assms by (auto simp: NewFTEIDIE_pfcp_def good_tunnel_def put_addrs_def IsValid_def)
  with fteid.get_new[OF ie] fteid.new_typ[OF ie] that show thesis by (simp add: without_zone_def)
qed

lemma sent_outer:
  assumes "good_tunnel t"
  obtains ie where "NewOuterHeaderCreationIE (outer_header t) = Ok ie" "pie_Type ie = IEOuterHeaderCreation"
    "OuterHeaderCreation_IE ie = Ok (outer_header t)"
proof -
  obtain w where "tn_IP t = Addr4 w" using assms by (cases "tn_IP t") (auto simp: good_tunnel_def)
  then obtain ie where ie: "NewOuterHeaderCreationIE (outer_header t) = Ok ie"
    using assms by (auto simp: NewOuterHeaderCreationIE_def good_tunnel_def outer_header_def pfcp_flags)
  with outerHeaderCreation.get_new[OF ie] outerHeaderCreation.new_typ[OF ie] that show thesis
    by (simp add: sent_outer_def outer_header_def)
qed

lemma decodePDR_createPDR:
  assumes "createPDR_sgwc i precedence side local farID qerID urrID = Ok g"
    and "side = 0 \<or> side = 1" "good_tunnel local" "farID \<noteq> 0" "qerID \<noteq> 0" "urrID \<noteq> 0"
  shows "decodePDR_sgwu g = Ok \<lparr>pdr_ID = i, pdr_Precedence = precedence, pdr_SourceInterface = side,
      pdr_LocalFTEID = \<lparr>fu_TEID = tn_TEID local, fu_IP = tn_IP local\<rparr>, pdr_FARID = farID,
      pdr_QERIDs = [qerID], pdr_URRIDs = [urrID]\<rparr>"
    and "pie_Type g = IECreatePDR"
proof -
  obtain prec where p: "NewUint32IE IEPrecedence precedence = Ok prec" "pie_Type prec = IEPrecedence" "Uint32_IE prec = Ok precedence"
    by (rule sent_uint32[of IEPrecedence precedence]) auto
  obtain source where s: "NewInterfaceIE IESourceInterface side = Ok source" "pie_Type source = IESourceInterface"
    "Interface_IE source = Ok side" by (rule sent_interface[OF _ assms(2), of IESourceInterface]) auto
  obtain ft where f: "NewFTEIDIE_pfcp \<lparr>pft_TEID = tn_TEID local, pft_IPv4 = tn_IP local, pft_IPv6 = AddrZero\<rparr> = Ok ft"
    "pie_Type ft = IEFTEID_pfcp" "FTEID_IE_pfcp ft = Ok \<lparr>pft_TEID = tn_TEID local, pft_IPv4 = tn_IP local, pft_IPv6 = AddrZero\<rparr>"
    by (rule sent_fteid[OF assms(3)])
  obtain removal where r: "NewOuterHeaderRemovalIE OuterHeaderRemovalGTPUUDPIPv4 = Ok removal"
    "pie_Type removal = IEOuterHeaderRemoval" "OuterHeaderRemoval_IE removal = Ok OuterHeaderRemovalGTPUUDPIPv4"
    by (rule sent_removal)
  obtain far where a: "NewUint32IE IEFARID farID = Ok far" "pie_Type far = IEFARID" "Uint32_IE far = Ok farID"
    by (rule sent_uint32[of IEFARID farID]) (use assms(4) in auto)
  obtain qer where q: "NewUint32IE IEQERID qerID = Ok qer" "pie_Type qer = IEQERID" "Uint32_IE qer = Ok qerID"
    by (rule sent_uint32[of IEQERID qerID]) (use assms(5) in auto)
  obtain urr where u: "NewUint32IE IEURRID urrID = Ok urr" "pie_Type urr = IEURRID" "Uint32_IE urr = Ok urrID"
    by (rule sent_uint32[of IEURRID urrID]) (use assms(6) in auto)
  obtain pid pdi where g: "NewPDRIDIE i = Ok pid" "NewGroupedIE_pfcp IEPDI [source, ft] = Ok pdi"
    "NewGroupedIE_pfcp IECreatePDR [pid, prec, pdi, removal, far, qer, urr] = Ok g"
    using assms(1) p(1) s(1) f(1) r(1) a(1) q(1) u(1) by (auto simp: createPDR_sgwc_def)
  note i = pdrID.new_typ[OF g(1)] pdrID.get_new[OF g(1)]
  note c = Children_NewGroupedIE_pfcp[OF g(2)] Children_NewGroupedIE_pfcp[OF g(3)]
  show "pie_Type g = IECreatePDR" using c by simp
  show "decodePDR_sgwu g = Ok \<lparr>pdr_ID = i, pdr_Precedence = precedence, pdr_SourceInterface = side,
      pdr_LocalFTEID = \<lparr>fu_TEID = tn_TEID local, fu_IP = tn_IP local\<rparr>, pdr_FARID = farID,
      pdr_QERIDs = [qerID], pdr_URRIDs = [urrID]\<rparr>"
    using assms(2-6) p s f r a q u i c Is4_valid
    by (auto simp: decodePDR_sgwu_def required_def when_present_def ie_check_def pfcp_types pfcp_flags good_tunnel_def)
qed

lemma decode_forwarding:
  assumes "NewInterfaceIE IEDestinationInterface side = Ok destination" "side = 0 \<or> side = 1" "good_tunnel remote"
    and "NewOuterHeaderCreationIE (outer_header remote) = Ok outer"
    and "NewGroupedIE_pfcp ty [destination, outer] = Ok g"
  shows "applyForwardingParameters_sgwu far g = Ok (far\<lparr>far_DestinationInterface := side,
      far_OuterHeader := Some \<lparr>fu_TEID = tn_TEID remote, fu_IP = tn_IP remote\<rparr>\<rparr>)"
proof -
  obtain d where d: "NewInterfaceIE IEDestinationInterface side = Ok d" "pie_Type d = IEDestinationInterface"
    "Interface_IE d = Ok side" by (rule sent_interface[OF _ assms(2), of IEDestinationInterface]) auto
  obtain h where h: "NewOuterHeaderCreationIE (outer_header remote) = Ok h" "pie_Type h = IEOuterHeaderCreation"
    "OuterHeaderCreation_IE h = Ok (outer_header remote)" by (rule sent_outer[OF assms(3)])
  have "d = destination" "h = outer" using d(1) h(1) assms(1,4) by auto
  then show ?thesis
    using d h Children_NewGroupedIE_pfcp[OF assms(5)] assms(2,3) Is4_valid
    by (auto simp: applyForwardingParameters_sgwu_def required_def ie_check_def pfcp_types pfcp_flags good_tunnel_def
      outer_header_def)
qed

lemma decodeFAR_forwarding:
  assumes "createForwardingFAR_sgwc i side remote = Ok g" "i \<noteq> 0" "side = 0 \<or> side = 1" "good_tunnel remote"
  shows "decodeFAR_sgwu g = Ok \<lparr>far_ID = i, far_ApplyAction = ApplyForward, far_DestinationInterface = side,
      far_OuterHeader = Some \<lparr>fu_TEID = tn_TEID remote, fu_IP = tn_IP remote\<rparr>, far_BARID = 0\<rparr>"
    and "pie_Type g = IECreateFAR"
proof -
  obtain farID where f: "NewUint32IE IEFARID i = Ok farID" "pie_Type farID = IEFARID" "Uint32_IE farID = Ok i"
    by (rule sent_uint32[of IEFARID i]) (use assms(2) in auto)
  obtain action where a: "NewApplyActionIE ApplyForward = Ok action" "pie_Type action = IEApplyAction"
    "ApplyAction_IE action = Ok ApplyForward" by (rule sent_action[of ApplyForward]) auto
  obtain d where d: "NewInterfaceIE IEDestinationInterface side = Ok d"
    by (rule sent_interface[OF _ assms(3), of IEDestinationInterface]) auto
  obtain outer forwarding where g: "NewOuterHeaderCreationIE (outer_header remote) = Ok outer"
    "NewGroupedIE_pfcp IEForwardingParameters [d, outer] = Ok forwarding"
    "NewGroupedIE_pfcp IECreateFAR [farID, action, forwarding] = Ok g"
    using assms(1) f(1) a(1) d by (auto simp: createForwardingFAR_sgwc_def)
  note c = Children_NewGroupedIE_pfcp[OF g(2)] Children_NewGroupedIE_pfcp[OF g(3)]
  show "pie_Type g = IECreateFAR" using c by simp
  show "decodeFAR_sgwu g = Ok \<lparr>far_ID = i, far_ApplyAction = ApplyForward, far_DestinationInterface = side,
      far_OuterHeader = Some \<lparr>fu_TEID = tn_TEID remote, fu_IP = tn_IP remote\<rparr>, far_BARID = 0\<rparr>"
    using f a c assms(2) decode_forwarding[OF d assms(3,4) g(1,2)]
    by (simp add: decodeFAR_sgwu_def required_def when_present_def ie_check_def pfcp_types pfcp_flags)
qed

lemma decodeFAR_plain:
  assumes "action = ApplyDrop \<and> bar = [] \<or> action = ApplyBuffer OR ApplyNotifyControlPlane \<and> bar = [barIE] \<and> NewBARIDIE b = Ok barIE"
    and "NewUint32IE IEFARID i = Ok farID" "i \<noteq> 0" "NewApplyActionIE action = Ok actionIE"
    and "NewGroupedIE_pfcp IECreateFAR ([farID, actionIE] @ bar) = Ok g"
  shows "decodeFAR_sgwu g = Ok \<lparr>far_ID = i, far_ApplyAction = action, far_DestinationInterface = 0,
      far_OuterHeader = None, far_BARID = (if bar = [] then 0 else b)\<rparr>"
  using assms(1) uint32.new_typ[OF assms(2)] uint32.get_new[OF assms(2)] applyAction.new_typ[OF assms(4)]
    applyAction.get_new[OF assms(4)] Children_NewGroupedIE_pfcp[OF assms(5)] assms(3) barID.new_typ[of b barIE] barID.get_new[of b barIE]
  by (auto simp: decodeFAR_sgwu_def required_def when_present_def ie_check_def pfcp_types pfcp_flags)

lemma decodeFAR_drop:
  assumes "createDropFAR_sgwc i = Ok g" "i \<noteq> 0"
  shows "decodeFAR_sgwu g = Ok \<lparr>far_ID = i, far_ApplyAction = ApplyDrop, far_DestinationInterface = 0,
      far_OuterHeader = None, far_BARID = 0\<rparr>" and "pie_Type g = IECreateFAR"
proof -
  obtain farID where f: "NewUint32IE IEFARID i = Ok farID" by (rule sent_uint32[of IEFARID i]) (use assms(2) in auto)
  obtain action where a: "NewApplyActionIE ApplyDrop = Ok action" by (rule sent_action[of ApplyDrop]) auto
  have g: "NewGroupedIE_pfcp IECreateFAR [farID, action] = Ok g" using assms(1) f a by (simp add: createDropFAR_sgwc_def)
  show "pie_Type g = IECreateFAR" using Children_NewGroupedIE_pfcp[OF g] by simp
  show "decodeFAR_sgwu g = Ok \<lparr>far_ID = i, far_ApplyAction = ApplyDrop, far_DestinationInterface = 0,
      far_OuterHeader = None, far_BARID = 0\<rparr>"
    using decodeFAR_plain[OF _ f assms(2) a, of "[]"] g by simp
qed

lemma decodeFAR_buffering:
  assumes "createBufferingFAR_sgwc i b = Ok g" "i \<noteq> 0"
  shows "decodeFAR_sgwu g = Ok \<lparr>far_ID = i, far_ApplyAction = ApplyBuffer OR ApplyNotifyControlPlane,
      far_DestinationInterface = 0, far_OuterHeader = None, far_BARID = b\<rparr>" and "pie_Type g = IECreateFAR"
proof -
  let ?a = "ApplyBuffer OR ApplyNotifyControlPlane"
  obtain farID where f: "NewUint32IE IEFARID i = Ok farID" by (rule sent_uint32[of IEFARID i]) (use assms(2) in auto)
  obtain action where a: "NewApplyActionIE ?a = Ok action" by (rule sent_action[of ?a]) auto
  obtain barIE where g: "NewBARIDIE b = Ok barIE" "NewGroupedIE_pfcp IECreateFAR [farID, action, barIE] = Ok g"
    using assms(1) f a by (auto simp: createBufferingFAR_sgwc_def)
  show "pie_Type g = IECreateFAR" using Children_NewGroupedIE_pfcp[OF g(2)] by simp
  show "decodeFAR_sgwu g = Ok \<lparr>far_ID = i, far_ApplyAction = ?a, far_DestinationInterface = 0,
      far_OuterHeader = None, far_BARID = b\<rparr>"
    using decodeFAR_plain[OF _ f assms(2) a, of "[barIE]"] g by simp
qed

lemma decodeBAR_createBAR:
  assumes "createBAR_sgwc i delay = Ok g"
  shows "decodeBAR_sgwu g = Ok \<lparr>bar_ID = i, bar_DownlinkNotificationDelay = delay\<rparr>" and "pie_Type g = IECreateBAR"
proof -
  obtain b d where g: "NewBARIDIE i = Ok b" "NewDownlinkDataNotificationDelayIE delay = Ok d"
    "NewGroupedIE_pfcp IECreateBAR [b, d] = Ok g"
    using assms by (auto simp: createBAR_sgwc_def)
  note c = Children_NewGroupedIE_pfcp[OF g(3)]
  show "pie_Type g = IECreateBAR" using c by simp
  show "decodeBAR_sgwu g = Ok \<lparr>bar_ID = i, bar_DownlinkNotificationDelay = delay\<rparr>"
    using c barID.new_typ[OF g(1)] barID.get_new[OF g(1)] notificationDelay.new_typ[OF g(2)] notificationDelay.get_new[OF g(2)]
    by (simp add: decodeBAR_sgwu_def required_def when_present_def pfcp_types)
qed

lemma decodeURR_createURR:
  assumes "createURRWithType_sgwc ty i bytes = Ok g"
  shows "decodeURR_sgwu g = Ok \<lparr>urr_ID = i, urr_MeasureVolume = True, urr_MeasureDuration = True,
      urr_ReportingThreshold = bytes\<rparr>" and "pie_Type g = ty"
proof -
  obtain u me tr th where g: "NewUint32IE IEURRID i = Ok u" "NewMeasurementMethodIE True True = Ok me"
    "NewReportingTriggersIE ReportingTriggerVolumeThreshold = Ok tr" "NewTotalVolumeThresholdIE bytes = Ok th"
    "NewGroupedIE_pfcp ty [u, me, tr, th] = Ok g"
    using assms by (auto simp: createURRWithType_sgwc_def)
  have i: "i \<noteq> 0" using g(1) by (auto simp: NewUint32IE_def pfcp_types split: if_splits)
  note c = Children_NewGroupedIE_pfcp[OF g(5)]
  note th = g(4)[unfolded NewTotalVolumeThresholdIE_def]
  show "pie_Type g = ty" using c by simp
  show "decodeURR_sgwu g = Ok \<lparr>urr_ID = i, urr_MeasureVolume = True, urr_MeasureDuration = True,
      urr_ReportingThreshold = bytes\<rparr>"
    using c i uint32.new_typ[OF g(1)] uint32.get_new[OF g(1)] measurementMethod.new_typ[of "(True, True)" me]
      measurementMethod.get_new[of "(True, True)" me] g(2) reportingTriggers.new_typ[OF g(3)] reportingTriggers.get_new[OF g(3)]
      volumeThreshold.new_typ[OF th] volumeThreshold.get_new[OF th]
    by (simp add: decodeURR_sgwu_def required_def ie_check_def pfcp_types sent_threshold_def good_threshold_def)
qed

definition metadata_sent :: "ClientConfig \<Rightarrow> byte \<Rightarrow> bool" where
  "metadata_sent config qci \<longleftrightarrow> cc_EnterpriseID config \<noteq> 0 \<and> qci \<noteq> 0"

text \<open>The QER that a set of QoS parameters stands for: rates in whole kilobits per second, and the LTE metadata when both
  sides use the vendor element.\<close>

definition planned_QER ::
  "ClientConfig \<Rightarrow> 32 word \<Rightarrow> 64 word \<Rightarrow> 64 word \<Rightarrow> byte \<Rightarrow> byte \<Rightarrow> bool \<Rightarrow> bool \<Rightarrow> QER_sgwu" where
  "planned_QER config i uplinkBps downlinkBps qci arp capable vulnerable =
     \<lparr>qer_ID = i, qer_UplinkGateOpen = True, qer_DownlinkGateOpen = True,
      qer_MaxUplinkBitsPerSecond = uplinkBps div 1000 * 1000, qer_MaxDownlinkBitsPerSecond = downlinkBps div 1000 * 1000,
      qer_QCI = (if metadata_sent config qci then qci else 0), qer_ARP = (if metadata_sent config qci then arp else 0),
      qer_PreemptionCapable = (metadata_sent config qci \<and> capable),
      qer_PreemptionVulnerable = (metadata_sent config qci \<and> vulnerable)\<rparr>"

lemma decodeQER_createQER:
  assumes "createQERWithType_sgwc ty i up down (cc_EnterpriseID config) qci arp capable vulnerable = Ok g" "i \<noteq> 0"
  shows "decodeQER_sgwu g (cc_EnterpriseID config) = Ok (planned_QER config i up down qci arp capable vulnerable)"
    and "pie_Type g = ty"
proof -
  let ?m = "\<lparr>bq_EnterpriseID = cc_EnterpriseID config, bq_QCI = qci, bq_ARP = arp, bq_PreemptionCapable = capable,
    bq_PreemptionVulnerable = vulnerable\<rparr>"
  obtain q where q: "NewUint32IE IEQERID i = Ok q" "pie_Type q = IEQERID" "Uint32_IE q = Ok i"
    by (rule sent_uint32[of IEQERID i]) (use assms(2) in auto)
  have gate: "pie_Type (NewGateStatusIE True True) = IEGateStatus" "GateStatus_IE (NewGateStatusIE True True) = Ok (True, True)"
    using gateStatus.new_typ[of "(True, True)"] gateStatus.get_new[of "(True, True)"] by simp_all
  let ?c = "[q, NewGateStatusIE True True]"
  obtain c1 c2 where c1: "(if up > 0 \<or> down > 0 then andThen (NewBitRateIE IEMBR (up div 1000) (down div 1000)) (\<lambda>x. Ok (?c @ [x]))
      else Ok ?c) = Ok c1"
    and c2: "(if metadata_sent config qci then andThen (NewVendorBearerQoSIE ?m) (\<lambda>x. Ok (c1 @ [x])) else Ok c1) = Ok c2"
    and g: "NewGroupedIE_pfcp ty c2 = Ok g"
    using assms(1) q(1) unfolding createQERWithType_sgwc_def metadata_sent_def Let_def by auto
  obtain mbr where mbr: "c1 = ?c @ mbr"
    "if up > 0 \<or> down > 0 then \<exists>x. mbr = [x] \<and> NewBitRateIE IEMBR (up div 1000) (down div 1000) = Ok x else mbr = []"
    using c1 by (cases "up > 0 \<or> down > 0") auto
  obtain meta where meta: "c2 = c1 @ meta"
    "if metadata_sent config qci then \<exists>x. meta = [x] \<and> NewVendorBearerQoSIE ?m = Ok x else meta = []"
    using c2 by (cases "metadata_sent config qci") auto
  note c = Children_NewGroupedIE_pfcp[OF g]
  have m1: "if up > 0 \<or> down > 0 then \<exists>x. mbr = [x] \<and> pie_Type x = IEMBR \<and> BitRate_IE x = Ok (up div 1000, down div 1000)
      else mbr = [] \<and> up = 0 \<and> down = 0"
    using mbr(2) bitRate.new_typ[of IEMBR "(up div 1000, down div 1000)"] bitRate.get_new[of IEMBR "(up div 1000, down div 1000)"]
    by (auto split: if_splits simp: word_gt_0)
  have m2: "if metadata_sent config qci then \<exists>x. meta = [x] \<and> pie_Type x = IEVendorBearerQoS \<and> VendorBearerQoS_IE x = Ok ?m
      else meta = []"
    using meta(2) vendorBearerQoS.new_typ vendorBearerQoS.get_new by (auto split: if_splits)
  show "pie_Type g = ty" using c by simp
  show "decodeQER_sgwu g (cc_EnterpriseID config) = Ok (planned_QER config i up down qci arp capable vulnerable)"
    using c q gate m1 m2 assms(2) mbr(1) meta(1)
    by (auto simp: decodeQER_sgwu_def required_def when_present_def ie_check_def pfcp_types planned_QER_def zeroQER_def Let_def
      metadata_sent_def split: if_splits)
qed

section \<open>The loops over the elements\<close>

text \<open>The loop that creates rules succeeds exactly when the identifiers are new and distinct.\<close>

definition by_ident :: "('v \<Rightarrow> 'k) \<Rightarrow> 'v list \<Rightarrow> 'k \<rightharpoonup> 'v" where
  "by_ident ident vs = map_of (map (\<lambda>v. (ident v, v)) vs)"

lemma by_ident_simps [simp]:
  "by_ident ident [] = Map.empty" "by_ident ident (v # vs) = (by_ident ident vs)(ident v \<mapsto> v)"
  by (simp_all add: by_ident_def)

lemma by_ident_dom [simp]: "dom (by_ident ident vs) = ident ` set vs"
  by (simp add: by_ident_def dom_map_of_conv_image_fst image_image)

lemma by_ident_SomeD: "by_ident ident vs k = Some v \<Longrightarrow> v \<in> set vs \<and> ident v = k"
  by (induction vs) (auto split: if_splits)

lemma create_rules_eq:
  assumes "list_all2 (\<lambda>ie v. decode ie = Ok v) ies vs"
  shows "create_rules decode ident ies m =
    (if distinct (map ident vs) \<and> ident ` set vs \<inter> dom m = {} then Ok (m ++ by_ident ident vs) else Err DuplicateRule)"
  using assms
proof (induction ies vs arbitrary: m rule: list_all2_induct)
  case (Cons ie ies v vs)
  show ?case
  proof (cases "m (ident v)")
    case None
    have upd: "m(ident v \<mapsto> v) ++ by_ident ident vs = m ++ (by_ident ident vs)(ident v \<mapsto> v)" if "ident v \<notin> ident ` set vs"
    proof -
      have "by_ident ident vs (ident v) = None" using that by (metis by_ident_dom domIff)
      then show ?thesis by (intro ext) (auto simp: map_add_def split: option.splits)
    qed
    let ?ok = "distinct (map ident (v # vs)) \<and> ident ` set (v # vs) \<inter> dom m = {}"
    have "ident v \<notin> dom m" using None by (simp add: domIff)
    then have ok: "(distinct (map ident vs) \<and> ident ` set vs \<inter> dom (m(ident v \<mapsto> v)) = {}) = ?ok" by auto
    have "create_rules decode ident (ie # ies) m = create_rules decode ident ies (m(ident v \<mapsto> v))"
      using None Cons.hyps(1) by simp
    also have "\<dots> = (if ?ok then Ok (m(ident v \<mapsto> v) ++ by_ident ident vs) else Err DuplicateRule)"
      unfolding Cons.IH ok ..
    also have "\<dots> = (if ?ok then Ok (m ++ by_ident ident (v # vs)) else Err DuplicateRule)"
      using upd by (intro if_cong refl) (simp del: map_add_upd)
    finally show ?thesis .
  qed (use Cons in \<open>auto simp: dom_def\<close>)
qed simp

section \<open>A whole session\<close>

text \<open>The rules that a bearer of a plan stands for.\<close>

definition planned_PDRs :: "BearerPlan \<Rightarrow> PDR_sgwu list" where
  "planned_PDRs b = (let r = bp_Rules b in
     [\<lparr>pdr_ID = rp_UplinkPDR r, pdr_Precedence = 100, pdr_SourceInterface = SourceAccess,
       pdr_LocalFTEID = \<lparr>fu_TEID = tn_TEID (bp_AccessLocal b), fu_IP = tn_IP (bp_AccessLocal b)\<rparr>,
       pdr_FARID = rp_UplinkFAR r, pdr_QERIDs = [rp_QER r], pdr_URRIDs = [rp_URR r]\<rparr>,
      \<lparr>pdr_ID = rp_DownlinkPDR r, pdr_Precedence = 100, pdr_SourceInterface = SourceCore,
       pdr_LocalFTEID = \<lparr>fu_TEID = tn_TEID (bp_CoreLocal b), fu_IP = tn_IP (bp_CoreLocal b)\<rparr>,
       pdr_FARID = rp_DownlinkFAR r, pdr_QERIDs = [rp_QER r], pdr_URRIDs = [rp_URR r]\<rparr>])"

definition forwarding_FAR :: "32 word \<Rightarrow> byte \<Rightarrow> Tunnel \<Rightarrow> FAR_sgwu" where
  "forwarding_FAR i side remote = \<lparr>far_ID = i, far_ApplyAction = ActionForward, far_DestinationInterface = side,
     far_OuterHeader = Some \<lparr>fu_TEID = tn_TEID remote, fu_IP = tn_IP remote\<rparr>, far_BARID = 0\<rparr>"

definition planned_FARs :: "byte \<Rightarrow> BearerPlan \<Rightarrow> FAR_sgwu list" where
  "planned_FARs bar b = (let r = bp_Rules b in
     [forwarding_FAR (rp_UplinkFAR r) 1 (bp_CoreRemote b),
      (case bp_AccessRemote b of
         None \<Rightarrow> \<lparr>far_ID = rp_DownlinkFAR r, far_ApplyAction = ActionBuffer OR ActionNotifyControlPlane,
           far_DestinationInterface = 0, far_OuterHeader = None, far_BARID = bar\<rparr>
       | Some remote \<Rightarrow> forwarding_FAR (rp_DownlinkFAR r) 0 remote)])"

definition planned_QERs :: "ClientConfig \<Rightarrow> BearerPlan \<Rightarrow> QER_sgwu list" where
  "planned_QERs config b = [planned_QER config (rp_QER (bp_Rules b)) (bp_UplinkBitrate b) (bp_DownlinkBitrate b)
     (bp_QCI b) (bp_ARP b) (bp_PreemptionCapable b) (bp_PreemptionVulnerable b)]"

definition planned_URRs :: "ClientConfig \<Rightarrow> BearerPlan \<Rightarrow> URR_sgwu list" where
  "planned_URRs config b = [\<lparr>urr_ID = rp_URR (bp_Rules b), urr_MeasureVolume = True, urr_MeasureDuration = True,
     urr_ReportingThreshold = cc_UsageReportingThreshold config\<rparr>]"

definition bearers_of :: "Establishment \<Rightarrow> BearerPlan list" where
  "bearers_of plan = default_bearer plan # ep_AdditionalBearers plan"

definition planned_session :: "ClientConfig \<Rightarrow> Establishment \<Rightarrow> 64 word \<Rightarrow> Session_sgwu" where
  "planned_session config plan upSEID =
     \<lparr>su_CPSEID = ep_CPSEID plan, su_UPSEID = upSEID, su_Revision = 0,
      su_PDRs = by_ident pdr_ID (concat (map planned_PDRs (bearers_of plan))),
      su_FARs = by_ident far_ID (concat (map (planned_FARs (ep_QCI plan)) (bearers_of plan))),
      su_QERs = by_ident qer_ID (concat (map (planned_QERs config) (bearers_of plan))),
      su_URRs = by_ident urr_ID (concat (map (planned_URRs config) (bearers_of plan))),
      su_BARs = by_ident bar_ID [\<lparr>bar_ID = ep_QCI plan,
        bar_DownlinkNotificationDelay = cc_DownlinkNotificationDelay config\<rparr>]\<rparr>"

text \<open>The bearers of a plan share no rule identifiers.\<close>

definition distinct_rules :: "Establishment \<Rightarrow> bool" where
  "distinct_rules plan \<longleftrightarrow>
     distinct (concat (map (\<lambda>b. [rp_UplinkPDR (bp_Rules b), rp_DownlinkPDR (bp_Rules b)]) (bearers_of plan))) \<and>
     distinct (concat (map (\<lambda>b. [rp_UplinkFAR (bp_Rules b), rp_DownlinkFAR (bp_Rules b)]) (bearers_of plan))) \<and>
     distinct (map (\<lambda>b. rp_QER (bp_Rules b)) (bearers_of plan)) \<and> distinct (map (\<lambda>b. rp_URR (bp_Rules b)) (bearers_of plan))"

definition good_bearer :: "BearerPlan \<Rightarrow> bool" where
  "good_bearer b \<longleftrightarrow> validateBearerPlan_sgwc b = Ok ()"

lemma validateTunnels_Ok [simp]:
  "validateTunnels ts remote = Ok () \<longleftrightarrow> (\<forall>t \<in> set ts. good_tunnel t) \<and> (\<forall>t. remote = Some t \<longrightarrow> good_tunnel t)"
  by (auto simp: validateTunnels_def split: option.splits)

lemma good_bearerD:
  assumes "good_bearer b"
  shows "rp_UplinkPDR (bp_Rules b) \<noteq> 0" "rp_DownlinkPDR (bp_Rules b) \<noteq> 0" "rp_UplinkFAR (bp_Rules b) \<noteq> 0"
    "rp_DownlinkFAR (bp_Rules b) \<noteq> 0" "rp_QER (bp_Rules b) \<noteq> 0" "rp_URR (bp_Rules b) \<noteq> 0"
    "good_tunnel (bp_AccessLocal b)" "good_tunnel (bp_CoreLocal b)" "good_tunnel (bp_CoreRemote b)"
    "bp_AccessRemote b = Some t \<Longrightarrow> good_tunnel t" "bp_QCI b \<noteq> 0" "bp_ARP b \<noteq> 0" "\<not> bp_ARP b > 15"
  using assms
  by (auto simp: good_bearer_def validateBearerPlan_sgwc_def validateRuleIDs_sgwc_def validateBearerQoS_sgwc_def split: if_splits)

lemma good_default_bearer:
  "validateEstablishment_sgwc plan = Ok () \<Longrightarrow> good_bearer (default_bearer plan) \<and> ep_CPSEID plan \<noteq> 0 \<and> ep_QCI plan \<noteq> 0"
  by (auto simp: good_bearer_def validateEstablishment_sgwc_def validateBearerPlan_sgwc_def default_bearer_def DefaultRuleIDs_def
    validateRuleIDs_sgwc_def validateBearerQoS_sgwc_def split: if_splits)

text \<open>\<open>ies\<close> has, for each kind of rule, elements that decode to the planned rules of the bearers, in this order.\<close>

definition carries :: "ClientConfig \<Rightarrow> byte \<Rightarrow> IE_pfcp list \<Rightarrow> BearerPlan list \<Rightarrow> bool" where
  "carries config bar ies bs \<longleftrightarrow>
     list_all2 (\<lambda>ie v. decodePDR_sgwu ie = Ok v) (FindAllIEs_pfcp ies IECreatePDR) (concat (map planned_PDRs bs)) \<and>
     list_all2 (\<lambda>ie v. decodeFAR_sgwu ie = Ok v) (FindAllIEs_pfcp ies IECreateFAR) (concat (map (planned_FARs bar) bs)) \<and>
     list_all2 (\<lambda>ie v. decodeQER_sgwu ie (cc_EnterpriseID config) = Ok v) (FindAllIEs_pfcp ies IECreateQER)
       (concat (map (planned_QERs config) bs)) \<and>
     list_all2 (\<lambda>ie v. decodeURR_sgwu ie = Ok v) (FindAllIEs_pfcp ies IECreateURR) (concat (map (planned_URRs config) bs)) \<and>
     FindAllIEs_pfcp ies IECreateBAR = [] \<and> (\<forall>ie \<in> set ies. pie_Type ie \<noteq> IEFSEID)"

lemma carries_append:
  "carries config bar ies bs \<Longrightarrow> carries config bar ies' bs' \<Longrightarrow> carries config bar (ies @ ies') (bs @ bs')"
  by (auto simp: carries_def FindAllIEs_pfcp_eq list_all2_appendI)

lemma carries_Nil: "(\<forall>ie \<in> set ies. pie_Type ie \<notin> {IECreatePDR, IECreateFAR, IECreateQER, IECreateURR, IECreateBAR, IEFSEID}) \<Longrightarrow>
    carries config bar ies []"
  by (auto simp: carries_def FindAllIEs_pfcp_eq filter_empty_conv)

lemma bearerIEs_carries:
  assumes "bearerIEs config bar b = Ok ies" "good_bearer b"
  shows "carries config bar ies [b]"
proof -
  let ?r = "bp_Rules b"
  note b = good_bearerD[OF assms(2)]
  obtain u d uf df q r where ies: "ies = [u, d, uf, df, q, r]"
    and u: "createPDR_sgwc (rp_UplinkPDR ?r) 100 InterfaceAccess (bp_AccessLocal b) (rp_UplinkFAR ?r) (rp_QER ?r) (rp_URR ?r) = Ok u"
    and d: "createPDR_sgwc (rp_DownlinkPDR ?r) 100 InterfaceCore (bp_CoreLocal b) (rp_DownlinkFAR ?r) (rp_QER ?r) (rp_URR ?r) = Ok d"
    and uf: "createForwardingFAR_sgwc (rp_UplinkFAR ?r) InterfaceCore (bp_CoreRemote b) = Ok uf"
    and df: "(case bp_AccessRemote b of None \<Rightarrow> createBufferingFAR_sgwc (rp_DownlinkFAR ?r) bar
       | Some remote \<Rightarrow> createForwardingFAR_sgwc (rp_DownlinkFAR ?r) InterfaceAccess remote) = Ok df"
    and q: "createQERWithType_sgwc IECreateQER (rp_QER ?r) (bp_UplinkBitrate b) (bp_DownlinkBitrate b) (cc_EnterpriseID config)
       (bp_QCI b) (bp_ARP b) (bp_PreemptionCapable b) (bp_PreemptionVulnerable b) = Ok q"
    and r: "createURRWithType_sgwc IECreateURR (rp_URR ?r) (cc_UsageReportingThreshold config) = Ok r"
    using assms(1) by (auto simp: bearerIEs_def createQER_sgwc_def Let_def)
  have df': "decodeFAR_sgwu df = Ok (planned_FARs bar b ! 1)" "pie_Type df = IECreateFAR"
    using df decodeFAR_buffering[of "rp_DownlinkFAR ?r" bar df] decodeFAR_forwarding[of "rp_DownlinkFAR ?r" InterfaceAccess _ df] b
    by (auto simp: planned_FARs_def forwarding_FAR_def Let_def pfcp_flags ActionForward_def ActionBuffer_def
      ActionNotifyControlPlane_def split: option.splits)
  note dec = decodePDR_createPDR[OF u] decodePDR_createPDR[OF d] decodeFAR_forwarding[OF uf] df'
    decodeQER_createQER[OF q] decodeURR_createURR[OF r]
  show ?thesis
    using dec b by (simp add: carries_def ies pfcp_types InterfaceAccess_def InterfaceCore_def planned_PDRs_def planned_FARs_def
      planned_QERs_def planned_URRs_def forwarding_FAR_def Let_def SourceAccess_def SourceCore_def ActionForward_def ApplyForward_def)
qed

lemma pfcp_result_Ok [simp]: "pfcp_result r = Ok a \<longleftrightarrow> r = Ok a"
  by (auto simp: pfcp_result_def split: outcome.splits)

lemma additionalIEs_carries:
  "additionalIEs config bar bs = Ok ies \<Longrightarrow> carries config bar ies bs \<and> (\<forall>b \<in> set bs. good_bearer b)"
proof (induction bs arbitrary: ies)
  case (Cons b bs)
  then obtain ies1 ies2 where i: "validateBearerPlan_sgwc b = Ok ()" "bearerIEs config bar b = Ok ies1"
    "additionalIEs config bar bs = Ok ies2" "ies = ies1 @ ies2" by auto
  then have "good_bearer b" by (simp add: good_bearer_def)
  then show ?case using carries_append[OF bearerIEs_carries[OF i(2)], of ies2 bs] Cons.IH[OF i(3)] i(4) by simp
qed (simp add: carries_Nil)

text \<open>The elements of an establishment: the identity of the sender, one BAR, and the rules of all bearers.\<close>

lemma establishment_contents:
  assumes "establish_request config plan = Ok ies" "Is4 (cc_Advertise config)"
  obtains node seid bar rest where "ies = [node, seid, bar] @ rest" "carries config (ep_QCI plan) rest (bearers_of plan)"
    "\<forall>b \<in> set (bearers_of plan). good_bearer b" "ep_CPSEID plan \<noteq> 0" "ep_QCI plan \<noteq> 0"
    "pie_Type node = IENodeID" "pie_Type seid = IEFSEID"
    "FSEID_IE seid = Ok \<lparr>fs_SEID = ep_CPSEID plan, fs_IPv4 = cc_Advertise config, fs_IPv6 = AddrZero\<rparr>"
    "createBAR_sgwc (ep_QCI plan) (cc_DownlinkNotificationDelay config) = Ok bar"
proof -
  let ?f = "\<lparr>fs_SEID = ep_CPSEID plan, fs_IPv4 = cc_Advertise config, fs_IPv6 = AddrZero\<rparr>"
  let ?pdn = "\<lparr>pie_Type = IEPDNType_pfcp, pie_Value = [1]\<rparr>"
  have v: "validateEstablishment_sgwc plan = Ok ()" using assms(1) by (auto simp: establish_request_def)
  note d = good_default_bearer[OF v]
  obtain w where w: "cc_Advertise config = Addr4 w" using assms(2) by (cases "cc_Advertise config") auto
  obtain node where node: "NewNodeIDIE (cc_Advertise config) [] = Ok node" "pie_Type node = IENodeID"
    using w by (auto simp: NewNodeIDIE_def IsValid_def)
  obtain seid where seid: "NewFSEIDIE ?f = Ok seid"
    using w d by (auto simp: NewFSEIDIE_def IsValid_def put_addrs_def)
  obtain bar ies1 ies2 where e: "createBAR_sgwc (ep_QCI plan) (cc_DownlinkNotificationDelay config) = Ok bar"
    "bearerIEs config (ep_QCI plan) (default_bearer plan) = Ok ies1"
    "additionalIEs config (ep_QCI plan) (ep_AdditionalBearers plan) = Ok ies2"
    "ies = [node, seid, bar] @ ies1 @ [?pdn] @ ies2"
    using assms(1) v node(1) seid by (auto simp: establish_request_def establishmentIEs_def)
  have "carries config (ep_QCI plan) (ies1 @ [?pdn] @ ies2) ([default_bearer plan] @ [] @ ep_AdditionalBearers plan)"
    using bearerIEs_carries[OF e(2)] d additionalIEs_carries[OF e(3)]
    by (intro carries_append carries_Nil) (auto simp: pfcp_types)
  then show thesis
    using that[of node seid bar "ies1 @ [?pdn] @ ies2"] d additionalIEs_carries[OF e(3)] node(2) fseid.new_typ[OF seid]
      fseid.get_new[OF seid] e(1,4) by (simp add: bearers_of_def without_zone_def)
qed

definition local_addresses :: "RuleConfig \<Rightarrow> Establishment \<Rightarrow> bool" where
  "local_addresses uc plan \<longleftrightarrow> (\<forall>b \<in> set (bearers_of plan). tn_IP (bp_AccessLocal b) = cf_AccessUserIP uc \<and>
     tn_IP (bp_CoreLocal b) = cf_CoreUserIP uc)"

lemma decodeLocalPDR_planned:
  assumes "list_all2 (\<lambda>ie v. decodePDR_sgwu ie = Ok v) ies (concat (map planned_PDRs bs))"
    "\<forall>b \<in> set bs. good_bearer b \<and> tn_IP (bp_AccessLocal b) = cf_AccessUserIP uc \<and> tn_IP (bp_CoreLocal b) = cf_CoreUserIP uc"
  shows "list_all2 (\<lambda>ie v. decodeLocalPDR uc ie = Ok v) ies (concat (map planned_PDRs bs))"
proof -
  have "decodeLocalPDR uc ie = Ok v" if d: "decodePDR_sgwu ie = Ok v" "v \<in> set (concat (map planned_PDRs bs))" for ie v
  proof -
    obtain b where b: "b \<in> set bs" "v \<in> set (planned_PDRs b)" using d(2) by auto
    have "Unmap (tn_IP (bp_AccessLocal b)) = tn_IP (bp_AccessLocal b)" "Unmap (tn_IP (bp_CoreLocal b)) = tn_IP (bp_CoreLocal b)"
      using assms(2) b(1) good_bearerD(7,8)[of b] by (auto simp: good_tunnel_def)
    then show ?thesis using d(1) b assms(2)
      by (auto simp: decodeLocalPDR_def planned_PDRs_def Let_def SourceAccess_def SourceCore_def)
  qed
  then show ?thesis using list.rel_mono_strong[OF assms(1), of "\<lambda>ie v. decodeLocalPDR uc ie = Ok v"] by blast
qed

lemma planned_idents:
  "map pdr_ID (concat (map planned_PDRs bs)) = concat (map (\<lambda>b. [rp_UplinkPDR (bp_Rules b), rp_DownlinkPDR (bp_Rules b)]) bs)"
  "map far_ID (concat (map (planned_FARs bar) bs)) = concat (map (\<lambda>b. [rp_UplinkFAR (bp_Rules b), rp_DownlinkFAR (bp_Rules b)]) bs)"
  "map qer_ID (concat (map (planned_QERs config) bs)) = map (\<lambda>b. rp_QER (bp_Rules b)) bs"
  "map urr_ID (concat (map (planned_URRs config) bs)) = map (\<lambda>b. rp_URR (bp_Rules b)) bs"
  by (induction bs) (auto simp: planned_PDRs_def planned_FARs_def planned_QERs_def planned_URRs_def planned_QER_def
    forwarding_FAR_def Let_def split: option.splits)

lemma create_rules_empty:
  "list_all2 (\<lambda>ie v. decode ie = Ok v) ies vs \<Longrightarrow> create_rules decode ident ies Map.empty =
     (if distinct (map ident vs) then Ok (by_ident ident vs) else Err DuplicateRule)"
  using create_rules_eq[of decode ies vs ident Map.empty] by simp

lemma decode_establishment:
  assumes "establish_request config plan = Ok ies" "Is4 (cc_Advertise config)" "cf_EnterpriseID uc = cc_EnterpriseID config"
    "local_addresses uc plan"
  shows "decodeSession_sgwu uc ies (ep_CPSEID plan) up =
    (if distinct_rules plan then Ok (planned_session config plan up) else Err DuplicateRule)"
proof -
  obtain node seid bar rest where e: "ies = [node, seid, bar] @ rest" "carries config (ep_QCI plan) rest (bearers_of plan)"
    "\<forall>b \<in> set (bearers_of plan). good_bearer b" "pie_Type node = IENodeID" "pie_Type seid = IEFSEID"
    "createBAR_sgwc (ep_QCI plan) (cc_DownlinkNotificationDelay config) = Ok bar"
    by (rule establishment_contents[OF assms(1,2)]) blast
  note bar = decodeBAR_createBAR[OF e(6)]
  have all: "FindAllIEs_pfcp ies ty = FindAllIEs_pfcp rest ty" if "ty \<in> {IECreatePDR, IECreateFAR, IECreateQER, IECreateURR}" for ty
    using that e(1,4,5) bar(2) by (auto simp: pfcp_types)
  have bars: "FindAllIEs_pfcp ies IECreateBAR = [bar]"
    using e(1,2,4,5) bar(2) by (simp add: carries_def pfcp_types)
  let ?bs = "bearers_of plan"
  have c: "list_all2 (\<lambda>ie v. decodePDR_sgwu ie = Ok v) (FindAllIEs_pfcp ies IECreatePDR) (concat (map planned_PDRs ?bs))"
    "list_all2 (\<lambda>ie v. decodeFAR_sgwu ie = Ok v) (FindAllIEs_pfcp ies IECreateFAR) (concat (map (planned_FARs (ep_QCI plan)) ?bs))"
    "list_all2 (\<lambda>ie v. decodeQER_sgwu ie (cf_EnterpriseID uc) = Ok v) (FindAllIEs_pfcp ies IECreateQER) (concat (map (planned_QERs config) ?bs))"
    "list_all2 (\<lambda>ie v. decodeURR_sgwu ie = Ok v) (FindAllIEs_pfcp ies IECreateURR) (concat (map (planned_URRs config) ?bs))"
    using e(2) all assms(3) by (simp_all add: carries_def)
  have pdrs: "list_all2 (\<lambda>ie v. decodeLocalPDR uc ie = Ok v) (FindAllIEs_pfcp ies IECreatePDR) (concat (map planned_PDRs ?bs))"
    using decodeLocalPDR_planned[OF c(1), of uc] e(3) assms(4) by (simp add: local_addresses_def)
  let ?D = "distinct (concat (map (\<lambda>b. [rp_UplinkPDR (bp_Rules b), rp_DownlinkPDR (bp_Rules b)]) ?bs))"
  let ?F = "distinct (concat (map (\<lambda>b. [rp_UplinkFAR (bp_Rules b), rp_DownlinkFAR (bp_Rules b)]) ?bs))"
  let ?Q = "distinct (map (\<lambda>b. rp_QER (bp_Rules b)) ?bs)" and ?U = "distinct (map (\<lambda>b. rp_URR (bp_Rules b)) ?bs)"
  have "create_rules decodeBAR_sgwu bar_ID (FindAllIEs_pfcp ies IECreateBAR) Map.empty = Ok (su_BARs (planned_session config plan up))"
    using bars bar(1) by (simp add: planned_session_def)
  moreover have "create_rules decodeFAR_sgwu far_ID (FindAllIEs_pfcp ies IECreateFAR) Map.empty =
      (if ?F then Ok (su_FARs (planned_session config plan up)) else Err DuplicateRule)"
    using create_rules_empty[OF c(2), of far_ID] by (simp add: planned_idents planned_session_def)
  moreover have "create_rules (\<lambda>ie. decodeQER_sgwu ie (cf_EnterpriseID uc)) qer_ID (FindAllIEs_pfcp ies IECreateQER) Map.empty =
      (if ?Q then Ok (su_QERs (planned_session config plan up)) else Err DuplicateRule)"
    using create_rules_empty[OF c(3), of qer_ID] by (simp add: planned_idents planned_session_def)
  moreover have "create_rules decodeURR_sgwu urr_ID (FindAllIEs_pfcp ies IECreateURR) Map.empty =
      (if ?U then Ok (su_URRs (planned_session config plan up)) else Err DuplicateRule)"
    using create_rules_empty[OF c(4), of urr_ID] by (simp add: planned_idents planned_session_def)
  moreover have "create_rules (decodeLocalPDR uc) pdr_ID (FindAllIEs_pfcp ies IECreatePDR) Map.empty =
      (if ?D then Ok (su_PDRs (planned_session config plan up)) else Err DuplicateRule)"
    using create_rules_empty[OF pdrs, of pdr_ID] by (simp add: planned_idents planned_session_def)
  ultimately show ?thesis
    by (cases ?D; cases ?F; cases ?Q; cases ?U) (simp_all add: decodeSession_sgwu_def distinct_rules_def, simp add: planned_session_def)
qed

lemma planned_PDR_mem:
  assumes "v \<in> set (concat (map planned_PDRs bs))"
  obtains b where "b \<in> set bs" "pdr_ID v = rp_UplinkPDR (bp_Rules b) \<and> pdr_FARID v = rp_UplinkFAR (bp_Rules b) \<and>
      pdr_LocalFTEID v = \<lparr>fu_TEID = tn_TEID (bp_AccessLocal b), fu_IP = tn_IP (bp_AccessLocal b)\<rparr> \<or>
    pdr_ID v = rp_DownlinkPDR (bp_Rules b) \<and> pdr_FARID v = rp_DownlinkFAR (bp_Rules b) \<and>
      pdr_LocalFTEID v = \<lparr>fu_TEID = tn_TEID (bp_CoreLocal b), fu_IP = tn_IP (bp_CoreLocal b)\<rparr>"
    "pdr_QERIDs v = [rp_QER (bp_Rules b)]" "pdr_URRIDs v = [rp_URR (bp_Rules b)]"
  using assms by (auto simp: planned_PDRs_def Let_def)

lemma in_idents:
  "b \<in> set bs \<Longrightarrow> by_ident far_ID (concat (map (planned_FARs bar) bs)) (rp_UplinkFAR (bp_Rules b)) \<noteq> None"
  "b \<in> set bs \<Longrightarrow> by_ident far_ID (concat (map (planned_FARs bar) bs)) (rp_DownlinkFAR (bp_Rules b)) \<noteq> None"
  "b \<in> set bs \<Longrightarrow> by_ident qer_ID (concat (map (planned_QERs config) bs)) (rp_QER (bp_Rules b)) \<noteq> None"
  "b \<in> set bs \<Longrightarrow> by_ident urr_ID (concat (map (planned_URRs config) bs)) (rp_URR (bp_Rules b)) \<noteq> None"
proof -
  assume b: "b \<in> set bs"
  have dom: "k \<in> set (map ident vs) \<Longrightarrow> by_ident ident vs k \<noteq> None" for k ident and vs :: "'v list"
    by (metis by_ident_dom domIff list.set_map)
  show "by_ident far_ID (concat (map (planned_FARs bar) bs)) (rp_UplinkFAR (bp_Rules b)) \<noteq> None"
    "by_ident far_ID (concat (map (planned_FARs bar) bs)) (rp_DownlinkFAR (bp_Rules b)) \<noteq> None"
    "by_ident qer_ID (concat (map (planned_QERs config) bs)) (rp_QER (bp_Rules b)) \<noteq> None"
    "by_ident urr_ID (concat (map (planned_URRs config) bs)) (rp_URR (bp_Rules b)) \<noteq> None"
    using b by (auto intro!: dom simp only: planned_idents) auto
qed

lemma planned_rules:
  "su_PDRs (planned_session config plan up) i = Some p \<Longrightarrow> p \<in> set (concat (map planned_PDRs (bearers_of plan))) \<and> pdr_ID p = i"
  "su_FARs (planned_session config plan up) j = Some f \<Longrightarrow>
     f \<in> set (concat (map (planned_FARs (ep_QCI plan)) (bearers_of plan))) \<and> far_ID f = j"
  "su_QERs (planned_session config plan up) j = Some q \<Longrightarrow> q \<in> set (concat (map (planned_QERs config) (bearers_of plan))) \<and> qer_ID q = j"
  "su_URRs (planned_session config plan up) j = Some u \<Longrightarrow> u \<in> set (concat (map (planned_URRs config) (bearers_of plan))) \<and> urr_ID u = j"
  unfolding planned_session_def Session_sgwu.select_convs by (drule by_ident_SomeD, blast)+

lemma planned_valid:
  assumes "establish_request config plan = Ok ies" "Is4 (cc_Advertise config)" "up \<noteq> 0"
  shows "validate_sgwu (planned_session config plan up) = Ok ()"
proof -
  let ?s = "planned_session config plan up" and ?bs = "bearers_of plan"
  obtain bar where e: "\<forall>b \<in> set ?bs. good_bearer b" "ep_CPSEID plan \<noteq> 0" "ep_QCI plan \<noteq> 0"
    "createBAR_sgwc (ep_QCI plan) (cc_DownlinkNotificationDelay config) = Ok bar"
    by (rule establishment_contents[OF assms(1,2)]) blast
  have pdr: "\<not> malformed_PDR ?s i v" if "su_PDRs ?s i = Some v" for i v
  proof -
    have v: "v \<in> set (concat (map planned_PDRs ?bs))" "pdr_ID v = i"
      using planned_rules(1)[OF that] by simp_all
    from v(1) obtain b where b: "b \<in> set ?bs" and p: "pdr_ID v = rp_UplinkPDR (bp_Rules b) \<and> pdr_FARID v = rp_UplinkFAR (bp_Rules b) \<and>
        pdr_LocalFTEID v = \<lparr>fu_TEID = tn_TEID (bp_AccessLocal b), fu_IP = tn_IP (bp_AccessLocal b)\<rparr> \<or>
      pdr_ID v = rp_DownlinkPDR (bp_Rules b) \<and> pdr_FARID v = rp_DownlinkFAR (bp_Rules b) \<and>
        pdr_LocalFTEID v = \<lparr>fu_TEID = tn_TEID (bp_CoreLocal b), fu_IP = tn_IP (bp_CoreLocal b)\<rparr>"
      "pdr_QERIDs v = [rp_QER (bp_Rules b)]" "pdr_URRIDs v = [rp_URR (bp_Rules b)]" by (rule planned_PDR_mem)
    note g = good_bearerD[of b] and r = in_idents[OF b]
    show ?thesis
      using v(2) p g e(1) b r by (auto simp: malformed_PDR_def planned_session_def good_tunnel_def Is4_valid)
  qed
  have far: "\<not> malformed_FAR ?s i v" if "su_FARs ?s i = Some v" for i v
  proof -
    have v: "v \<in> set (concat (map (planned_FARs (ep_QCI plan)) ?bs))" "far_ID v = i"
      using planned_rules(2)[OF that] by simp_all
    then obtain b where b: "b \<in> set ?bs" "v \<in> set (planned_FARs (ep_QCI plan) b)" by auto
    show ?thesis
      using v(2) b e(1) good_bearerD[of b]
      by (auto simp: malformed_FAR_def planned_FARs_def forwarding_FAR_def Let_def planned_session_def good_tunnel_def Is4_valid
        ActionForward_def ActionDrop_def ActionBuffer_def ActionNotifyControlPlane_def split: option.splits)
  qed
  have qer: "\<not> malformed_QER i v" if "su_QERs ?s i = Some v" for i v
  proof -
    have v: "v \<in> set (concat (map (planned_QERs config) ?bs))" "qer_ID v = i"
      using planned_rules(3)[OF that] by simp_all
    then obtain b where b: "b \<in> set ?bs" "v \<in> set (planned_QERs config b)" by auto
    show ?thesis
      using v(2) b e(1) good_bearerD[of b] by (auto simp: malformed_QER_def planned_QERs_def planned_QER_def metadata_sent_def)
  qed
  have urr: "\<not> malformed_URR i v" if "su_URRs ?s i = Some v" for i v
    using planned_rules(4)[OF that] e(1) good_bearerD(6) by (auto simp: malformed_URR_def planned_URRs_def)
  have bar: "\<not> malformed_BAR i v" if "su_BARs ?s i = Some v" for i v
    using that e(3,4) by (auto simp: planned_session_def malformed_BAR_def createBAR_sgwc_def
      NewDownlinkDataNotificationDelayIE_def delayUnit_def Millisecond_def split: if_splits)
  have "su_PDRs ?s \<noteq> Map.empty"
    by (simp add: planned_session_def bearers_of_def planned_PDRs_def Let_def)
  then show ?thesis
    using pdr far qer urr bar e(2) assms(3)
    by (auto simp: validate_sgwu_def map_ex_def planned_session_def)
qed

section \<open>From the plan to the packet path\<close>

lemma by_ident_unique: "distinct (map ident vs) \<Longrightarrow> v \<in> set vs \<Longrightarrow> by_ident ident vs (ident v) = Some v"
  by (induction vs) (auto simp: image_iff)

text \<open>A session that the store accepts serves each of its tunnels that only one of its PDRs names by that PDR.\<close>

lemma created_lookup:
  assumes "rules_ok s" "set order = dom (su_PDRs c)" "Create_sgwu order c s = (Ok x, s')" "su_PDRs c i = Some p"
    "\<And>j q. su_PDRs c j = Some q \<Longrightarrow> tunnelKey q = tunnelKey p \<Longrightarrow> q = p"
  shows "\<exists>r. LookupPacket_sgwu s' (pdr_SourceInterface p) (fu_TEID (pdr_LocalFTEID p)) = Some r \<and> pr_PDR r = p \<and>
    pr_UPSEID r = su_UPSEID c \<and> su_FARs c (pdr_FARID p) = Some (pr_FAR r) \<and> pr_QERs r = map (the \<circ> su_QERs c) (pdr_QERIDs p)"
proof -
  have ok: "rules_ok s'" using Create_ok[OF assms(1,2)] assms(3) by simp
  have stored: "us_byUP s' (su_UPSEID c) = Some (c\<lparr>su_Revision := 1\<rparr>)"
    using assms(3) by (cases rule: Create_sgwu_cases) (auto simp: install_eq Let_def)
  let ?c = "c\<lparr>su_Revision := 1\<rparr>" and ?a = "pdr_SourceInterface p" and ?b = "fu_TEID (pdr_LocalFTEID p)"
  have "(?a, ?b) \<in> keys_of ?c UNIV" using assms(4) by (force simp: keys_of_def tunnelKey_def)
  then obtain r where r: "LookupPacket_sgwu s' ?a ?b = Some r" "pr_UPSEID r = su_UPSEID c"
    using lookup_entry(2)[OF ok stored] by blast
  then have "best ?c (the (us_generations s' (su_UPSEID c))) UNIV (?a, ?b) r"
    using lookup_entry(1)[OF ok stored] by blast
  then obtain j where j: "rule_of ?c (the (us_generations s' (su_UPSEID c))) j = Some r" "tunnelKey (pr_PDR r) = tunnelKey p"
    by (auto simp: best_def tunnelKey_def)
  note f = rule_of_fields[OF j(1)]
  have "pr_PDR r = p" using assms(5)[of j "pr_PDR r"] f(1) j(2) by simp
  then show ?thesis using r f(2,6) by simp
qed

definition distinct_tunnels :: "Establishment \<Rightarrow> bool" where
  "distinct_tunnels plan \<longleftrightarrow> distinct (map (\<lambda>b. tn_TEID (bp_AccessLocal b)) (bearers_of plan)) \<and>
     distinct (map (\<lambda>b. tn_TEID (bp_CoreLocal b)) (bearers_of plan))"

lemma planned_tunnel_unique:
  assumes "distinct_tunnels plan" "p \<in> set (concat (map planned_PDRs (bearers_of plan)))"
    "q \<in> set (concat (map planned_PDRs (bearers_of plan)))" "tunnelKey q = tunnelKey p"
  shows "q = p"
proof -
  obtain b where b: "b \<in> set (bearers_of plan)" "p \<in> set (planned_PDRs b)" using assms(2) by auto
  obtain c where c: "c \<in> set (bearers_of plan)" "q \<in> set (planned_PDRs c)" using assms(3) by auto
  have "tn_TEID (bp_AccessLocal c) = tn_TEID (bp_AccessLocal b) \<Longrightarrow> c = b" "tn_TEID (bp_CoreLocal c) = tn_TEID (bp_CoreLocal b) \<Longrightarrow> c = b"
    using assms(1) b(1) c(1) by (auto simp: distinct_tunnels_def distinct_map inj_on_def)
  then show ?thesis using b(2) c(2) assms(4)
    by (auto simp: planned_PDRs_def tunnelKey_def Let_def SourceAccess_def SourceCore_def)
qed

lemma planned_served:
  assumes "distinct_rules plan" "distinct_tunnels plan" "rules_ok s" "b \<in> set (bearers_of plan)" "p \<in> set (planned_PDRs b)"
    "f \<in> set (planned_FARs (ep_QCI plan) b)" "far_ID f = pdr_FARID p"
    "set order = dom (su_PDRs (planned_session config plan up))" "Create_sgwu order (planned_session config plan up) s = (Ok x, s')"
  shows "\<exists>r. LookupPacket_sgwu s' (pdr_SourceInterface p) (fu_TEID (pdr_LocalFTEID p)) = Some r \<and> pr_UPSEID r = up \<and>
    pr_FAR r = f \<and> pr_QERs r = planned_QERs config b"
proof -
  let ?s = "planned_session config plan up" and ?bs = "bearers_of plan"
  have d: "distinct (map pdr_ID (concat (map planned_PDRs ?bs)))" "distinct (map far_ID (concat (map (planned_FARs (ep_QCI plan)) ?bs)))"
    "distinct (map qer_ID (concat (map (planned_QERs config) ?bs)))"
    using assms(1) by (simp_all only: planned_idents distinct_rules_def)
  have p: "p \<in> set (concat (map planned_PDRs ?bs))" using assms(4,5) by auto
  have "su_PDRs ?s (pdr_ID p) = Some p" using by_ident_unique[OF d(1) p] by (simp add: planned_session_def)
  then obtain r where r: "LookupPacket_sgwu s' (pdr_SourceInterface p) (fu_TEID (pdr_LocalFTEID p)) = Some r"
    "pr_UPSEID r = su_UPSEID ?s" "su_FARs ?s (pdr_FARID p) = Some (pr_FAR r)" "pr_QERs r = map (the \<circ> su_QERs ?s) (pdr_QERIDs p)"
    using created_lookup[OF assms(3,8,9), of "pdr_ID p" p] planned_tunnel_unique[OF assms(2) p] planned_rules(1) by blast
  have "by_ident far_ID (concat (map (planned_FARs (ep_QCI plan)) ?bs)) (far_ID f) = Some f"
    by (rule by_ident_unique[OF d(2)]) (use assms(4,6) in auto)
  then have "pr_FAR r = f" using r(3) assms(7) by (simp add: planned_session_def)
  moreover obtain q where q: "planned_QERs config b = [q]" "qer_ID q = rp_QER (bp_Rules b)"
    by (simp add: planned_QERs_def planned_QER_def)
  have "by_ident qer_ID (concat (map (planned_QERs config) ?bs)) (qer_ID q) = Some q"
    by (rule by_ident_unique[OF d(3)]) (use assms(4) q(1) in \<open>auto intro!: bexI[of _ b]\<close>)
  then have "pr_QERs r = [q]" using r(4) q assms(5) by (auto simp: planned_session_def planned_PDRs_def Let_def)
  ultimately show ?thesis using r(1,2) q(1) by (simp add: planned_session_def)
qed

text \<open>Both directions of a bearer.\<close>

lemma bearer_served:
  assumes "distinct_rules plan" "distinct_tunnels plan" "rules_ok s" "b \<in> set (bearers_of plan)"
    "set order = dom (su_PDRs (planned_session config plan up))" "Create_sgwu order (planned_session config plan up) s = (Ok x, s')"
  shows "\<exists>r. LookupPacket_sgwu s' SourceAccess (tn_TEID (bp_AccessLocal b)) = Some r \<and> pr_UPSEID r = up \<and>
      pr_FAR r = forwarding_FAR (rp_UplinkFAR (bp_Rules b)) 1 (bp_CoreRemote b) \<and> pr_QERs r = planned_QERs config b"
    "\<exists>r. LookupPacket_sgwu s' SourceCore (tn_TEID (bp_CoreLocal b)) = Some r \<and> pr_UPSEID r = up \<and>
      pr_FAR r = planned_FARs (ep_QCI plan) b ! 1 \<and> pr_QERs r = planned_QERs config b"
  using planned_served[OF assms(1-4) _ _ _ assms(5,6), of "planned_PDRs b ! 0" "planned_FARs (ep_QCI plan) b ! 0"]
    planned_served[OF assms(1-4) _ _ _ assms(5,6), of "planned_PDRs b ! 1" "planned_FARs (ep_QCI plan) b ! 1"]
  by (auto simp: planned_PDRs_def planned_FARs_def forwarding_FAR_def Let_def split: option.splits)

text \<open>C6: (roundtrip) The user plane understands the control plane: an establishment request that \<^verbatim>\<open>Establish\<close> builds from a plan
  carries the control plane's F-SEID and decodes, on a user plane with the same enterprise identifier and the planned
  local addresses, to exactly the session that the plan describes (rates in whole kilobits per second), which passes the
  store's validation; the only error is a rule identifier that two bearers share.\<close>

theorem establishment_understood:
  assumes "establish_request config plan = Ok ies" "Is4 (cc_Advertise config)" "cf_EnterpriseID uc = cc_EnterpriseID config"
    "local_addresses uc plan" "up \<noteq> 0"
  shows "decodeSession_sgwu uc ies (ep_CPSEID plan) up =
      (if distinct_rules plan then Ok (planned_session config plan up) else Err DuplicateRule) \<and>
    validate_sgwu (planned_session config plan up) = Ok () \<and>
    (\<exists>ie. FindIE_pfcp ies IEFSEID = Some ie \<and>
      FSEID_IE ie = Ok \<lparr>fs_SEID = ep_CPSEID plan, fs_IPv4 = cc_Advertise config, fs_IPv6 = AddrZero\<rparr>)"
proof -
  obtain node seid bar rest where e: "ies = [node, seid, bar] @ rest" "pie_Type node = IENodeID" "pie_Type seid = IEFSEID"
    "FSEID_IE seid = Ok \<lparr>fs_SEID = ep_CPSEID plan, fs_IPv4 = cc_Advertise config, fs_IPv6 = AddrZero\<rparr>"
    by (rule establishment_contents[OF assms(1,2)])
  then have "FindIE_pfcp ies IEFSEID = Some seid" by (simp add: pfcp_types)
  with e(4) show ?thesis using decode_establishment[OF assms(1-4)] planned_valid[OF assms(1,2,5)] by blast
qed

text \<open>(functional) From the plan to the packet: when the user plane's store accepts the session decoded from an establishment
  request, each bearer's uplink packets (by the tunnel on the access side) are matched by a rule that forwards into the
  planned tunnel on the core side, its downlink packets by a rule that forwards to the planned access tunnel or, without
  one, buffers and notifies, and both are subject to the planned QoS.\<close>

theorem planned_bearer_served:
  assumes "establish_request config plan = Ok ies" "Is4 (cc_Advertise config)" "cf_EnterpriseID uc = cc_EnterpriseID config"
    "local_addresses uc plan" "distinct_tunnels plan" "rules_reach n s" "decodeSession_sgwu uc ies (ep_CPSEID plan) up = Ok c"
    "set order = dom (su_PDRs c)" "Create_sgwu order c s = (Ok x, s')" "b \<in> set (bearers_of plan)"
  shows "(\<exists>r. LookupPacket_sgwu s' SourceAccess (tn_TEID (bp_AccessLocal b)) = Some r \<and> pr_UPSEID r = up \<and>
      pr_FAR r = forwarding_FAR (rp_UplinkFAR (bp_Rules b)) 1 (bp_CoreRemote b) \<and> pr_QERs r = planned_QERs config b) \<and>
    (\<exists>r. LookupPacket_sgwu s' SourceCore (tn_TEID (bp_CoreLocal b)) = Some r \<and> pr_UPSEID r = up \<and>
      pr_FAR r = planned_FARs (ep_QCI plan) b ! 1 \<and> pr_QERs r = planned_QERs config b)"
proof -
  have dec: "distinct_rules plan" "c = planned_session config plan up"
    using assms(7) decode_establishment[OF assms(1-4)] by (auto split: if_splits)
  show ?thesis
    using bearer_served[OF dec(1) assms(5) rules_reach_ok[OF assms(6)] assms(10) assms(8,9)[unfolded dec(2)]] by blast
qed

section \<open>A sample plan\<close>

definition sample_client :: ClientConfig where
  "sample_client = \<lparr>cc_Advertise = Addr4 0x0a000001, cc_EnterpriseID = 40000, cc_DownlinkNotificationDelay = 50000000,
     cc_UsageReportingThreshold = 1000000\<rparr>"

definition sample_user_plane :: RuleConfig where
  "sample_user_plane = \<lparr>cf_AccessUserIP = Addr4 0x0a010001, cf_CoreUserIP = Addr4 0x0a020001, cf_EnterpriseID = 40000\<rparr>"

definition sample_plan :: Establishment where
  "sample_plan = \<lparr>ep_CPSEID = 9, ep_AccessLocal = \<lparr>tn_TEID = 7, tn_IP = Addr4 0x0a010001\<rparr>,
     ep_CoreLocal = \<lparr>tn_TEID = 8, tn_IP = Addr4 0x0a020001\<rparr>, ep_CoreRemote = \<lparr>tn_TEID = 11, tn_IP = Addr4 0x0a020002\<rparr>,
     ep_AccessRemote = None, ep_UplinkBitrate = 0, ep_DownlinkBitrate = 0, ep_QCI = 9, ep_ARP = 8,
     ep_PreemptionCapable = False, ep_PreemptionVulnerable = True, ep_AdditionalBearers = []\<rparr>"

lemma NewGroupedIE_Ok:
  "IsGroupedType ty \<Longrightarrow> length children \<le> maxIEsPerScope_pfcp \<Longrightarrow> \<forall>ie \<in> set children. wf_IE_pfcp ie \<Longrightarrow>
   length (concat (map emit_IE_pfcp children)) \<le> 0xffff \<Longrightarrow>
   NewGroupedIE_pfcp ty children = Ok \<lparr>pie_Type = ty, pie_Value = concat (map emit_IE_pfcp children)\<rparr>"
  using px.marshal_Ok_iff[of children] by (simp add: NewGroupedIE_pfcp_def)

lemmas eval_request = establish_request_def validateEstablishment_sgwc_def validateBearerQoS_sgwc_def validateTunnels_def
  good_tunnel_def establishmentIEs_def NewNodeIDIE_def NewFSEIDIE_def IsValid_def put_addrs_def createBAR_sgwc_def NewBARIDIE_def
  NewDownlinkDataNotificationDelayIE_def delayUnit_def Millisecond_def bearerIEs_def default_bearer_def DefaultRuleIDs_def
  createPDR_sgwc_def NewPDRIDIE_def NewUint32IE_def uint32Type_def NewInterfaceIE_def NewFTEIDIE_pfcp_def
  NewOuterHeaderRemovalIE_def createForwardingFAR_sgwc_def NewApplyActionIE_def NewOuterHeaderCreationIE_def outer_header_def
  createBufferingFAR_sgwc_def createQER_sgwc_def createQERWithType_sgwc_def NewGateStatusIE_def NewVendorBearerQoSIE_def
  badBearerQoS_def createURRWithType_sgwc_def NewMeasurementMethodIE_def NewReportingTriggersIE_def NewTotalVolumeThresholdIE_def
  NewVolumeThresholdIE_def threshold_fields_def supportedReportingTriggers_def NewGroupedIE_Ok IsGroupedType_def
  maxIEsPerScope_pfcp_def wf_IE_pfcp_def emit_IE_pfcp_def pfcp_types pfcp_flags Let_def pfcp_result_def put16_def put32_def put64_def

lemma sample_request: "\<exists>ies. establish_request sample_client sample_plan = Ok ies"
  by (simp add: eval_request sample_client_def sample_plan_def)

lemma sample_bearers: "bearers_of sample_plan = [default_bearer sample_plan]"
  by (simp add: bearers_of_def sample_plan_def)

lemma sample_hypotheses:
  "Is4 (cc_Advertise sample_client)" "cf_EnterpriseID sample_user_plane = cc_EnterpriseID sample_client"
  "local_addresses sample_user_plane sample_plan" "distinct_rules sample_plan" "distinct_tunnels sample_plan"
  by (simp_all add: sample_client_def sample_user_plane_def local_addresses_def distinct_rules_def distinct_tunnels_def
    sample_bearers) (simp_all add: default_bearer_def DefaultRuleIDs_def sample_plan_def)

theorem establishment_understood_witness:
  "\<exists>ies. establish_request sample_client sample_plan = Ok ies \<and>
     decodeSession_sgwu sample_user_plane ies (ep_CPSEID sample_plan) 5 = Ok (planned_session sample_client sample_plan 5) \<and>
     validate_sgwu (planned_session sample_client sample_plan 5) = Ok ()"
proof -
  obtain ies where "establish_request sample_client sample_plan = Ok ies" using sample_request by blast
  with establishment_understood[OF this sample_hypotheses(1-3), of 5] sample_hypotheses(4) show ?thesis by auto
qed

lemma sample_PDRs: "dom (su_PDRs (planned_session sample_client sample_plan 5)) = {1, 2}"
  by (simp add: planned_session_def sample_bearers planned_PDRs_def default_bearer_def DefaultRuleIDs_def Let_def insert_commute)

lemma sample_create:
  "\<exists>x s'. Create_sgwu [1, 2] (planned_session sample_client sample_plan 5) (NewStoreWithLimit_sgwu 10) = (Ok x, s')"
proof -
  obtain ies where "establish_request sample_client sample_plan = Ok ies" using sample_request by blast
  from planned_valid[OF this sample_hypotheses(1), of 5] show ?thesis
    by (simp add: Create_sgwu_def NewStoreWithLimit_sgwu_def checkTunnelConflicts_def map_ex_def tunnelConflict_def Let_def)
qed

end
