(* ===== verification/Sgw_Procedures.thy ===== *)
theory Sgw_Procedures
  imports Sgwu_Server Sgw_Rule_Exchange
begin

text \<open>
  The control plane's requests at the user plane's server: what holds of every reachable PFCP server of the SGW-U
  (\<^verbatim>\<open>internal/sgwu/pfcpserver/server.go\<close>), and that a session which \<^verbatim>\<open>internal/sgwc/pfcpclient\<close> asks for is established
  and serves the planned bearers. A sample run of two control planes shows the hypotheses can hold.
\<close>

section \<open>Establishing a planned session\<close>

lemma create_accepted:
  assumes "validate_sgwu c = Ok ()" "us_byUP st (su_UPSEID c) = None" "us_byCP st (su_CPSEID c) = None"
    "checkTunnelConflicts c 0 st = Ok ()" "int (card (dom (us_byUP st))) < us_max st"
  shows "\<exists>st'. Create_sgwu order c st = (Ok (c\<lparr>su_Revision := 1\<rparr>), st')"
  using assms by (simp add: Create_sgwu_def Let_def)

lemma handle_establishment:
  fixes s :: Server_sgwu
  assumes req: "establish_request config plan = Ok (pmsg_IEs request)" "Is4 (cc_Advertise config)"
      "x_MessageType (pmsg_Header request) = MessageSessionEstablishmentRequest" "x_SEID (pmsg_Header request) = 0"
    and peer: "Unmap (fst peer) = cc_Advertise config" "allowed_sgwu sc (cc_Advertise config)"
      "State_of (fst peer) (sv_associations s) = StateAssociated"
    and cfg: "sc_EnterpriseID sc = cc_EnterpriseID config" "local_addresses (rule_config sc) plan" "distinct_rules plan"
    and up: "allocateSEID_sgwu (ev_draws env) (sv_store s) = Ok up"
    and cr: "Create_sgwu (ev_rules env (planned_session config plan up)) (planned_session config plan up) (sv_store s) = (Ok x, st)"
  shows "\<exists>s'. handle_sgwu sc env peer request s =
      (Ok (Some (establishmentResponse sc (ep_CPSEID plan) up CauseRequestAccepted)), s') \<and> sv_store s' = st \<and>
    sv_sessionOwner s' = (sv_sessionOwner s)(up \<mapsto> (Unmap (fst peer), snd peer)) \<and>
    sv_associations s' = Touch_assoc (ev_now env) (Unmap (fst peer)) (sv_associations s)"
proof -
  obtain node seid bar rest where e: "pmsg_IEs request = [node, seid, bar] @ rest" "pie_Type node = IENodeID"
    "pie_Type seid = IEFSEID" "FSEID_IE seid = Ok \<lparr>fs_SEID = ep_CPSEID plan, fs_IPv4 = cc_Advertise config, fs_IPv6 = AddrZero\<rparr>"
    by (rule establishment_contents[OF req(1,2)])
  have find: "Find_pfcp request IEFSEID = Some seid" using e by (simp add: Find_pfcp_def pfcp_types)
  have ent: "cf_EnterpriseID (rule_config sc) = cc_EnterpriseID config" by (simp add: rule_config_def cfg(1))
  have dec: "decodeSession_sgwu (rule_config sc) (pmsg_IEs request) (ep_CPSEID plan) up = Ok (planned_session config plan up)"
    using decode_establishment[OF req(1,2) ent cfg(2)] cfg(3) by simp
  have state: "State_of (Unmap (fst peer)) (sv_associations s) = StateAssociated" using peer(3) by simp
  show ?thesis
    using req(2-4) peer(1,2) state[unfolded peer(1)] find e(4) dec up cr
    by (simp add: handle_sgwu_def message_types sessionEstablishment_sgwu_def create_session_def Let_def answer_def)
qed

lemma accepted_reads:
  assumes "Is4 (sc_Advertise sc)" "up \<noteq> 0"
  shows "(\<exists>ie. Find_pfcp (establishmentResponse sc cp up CauseRequestAccepted) IECause_pfcp = Some ie \<and>
      Cause_IE_pfcp ie = Ok CauseRequestAccepted)"
    "(\<exists>ie. Find_pfcp (establishmentResponse sc cp up CauseRequestAccepted) IEFSEID = Some ie \<and>
      FSEID_IE ie = Ok \<lparr>fs_SEID = up, fs_IPv4 = sc_Advertise sc, fs_IPv6 = AddrZero\<rparr>)"
proof -
  obtain w where w: "sc_Advertise sc = Addr4 w" using assms(1) by (cases "sc_Advertise sc") auto
  let ?f = "\<lparr>fs_SEID = up, fs_IPv4 = Addr4 w, fs_IPv6 = AddrZero\<rparr>"
  obtain fs where fs: "NewFSEIDIE ?f = Ok fs" using assms(2) by (simp add: NewFSEIDIE_def IsValid_def put_addrs_def)
  have node: "built (NewNodeIDIE (Addr4 w) []) = \<lparr>pie_Type = IENodeID, pie_Value = 0 # put32 w\<rparr>"
    by (simp add: built_def NewNodeIDIE_def)
  show "(\<exists>ie. Find_pfcp (establishmentResponse sc cp up CauseRequestAccepted) IECause_pfcp = Some ie \<and>
      Cause_IE_pfcp ie = Ok CauseRequestAccepted)"
    by (simp add: w node establishmentResponse_def response_def Find_pfcp_def NewCauseIE_pfcp_def Cause_IE_pfcp_def
      byte_at_def pfcp_types CauseRequestAccepted_def)
  show "(\<exists>ie. Find_pfcp (establishmentResponse sc cp up CauseRequestAccepted) IEFSEID = Some ie \<and>
      FSEID_IE ie = Ok \<lparr>fs_SEID = up, fs_IPv4 = sc_Advertise sc, fs_IPv6 = AddrZero\<rparr>)"
    using fs fseid.get_new[OF fs] fseid.new_typ[OF fs]
    by (simp add: w node establishmentResponse_def response_def Find_pfcp_def NewCauseIE_pfcp_def built_def
      NewNodeIDIE_def pfcp_types without_zone_def)
qed

lemma allocate_fresh:
  "allocateSEID_sgwu draws st = Ok up \<Longrightarrow> up \<noteq> 0 \<and> us_byUP st up = None"
  by (auto simp: allocateSEID_sgwu_def allocate_from_first first_usable_Some passed_over_def split: option.splits)

section \<open>Properties\<close>

text \<open>C2: (functional) A session that the control plane asks for is established and served: when an associated peer sends the
  request that \<^verbatim>\<open>Establish\<close> builds from a plan whose rules, tunnels and SEID are free, the handler accepts it, its response
  carries cause \<open>accepted\<close> and the new user-plane SEID, the peer owns the session, and each planned bearer's uplink packets
  are forwarded into the planned tunnel and its downlink packets handled by the planned downlink rule.\<close>

theorem establishment_end_to_end:
  fixes s :: Server_sgwu
  assumes "establish_request config plan = Ok (pmsg_IEs request)" "Is4 (cc_Advertise config)"
      "x_MessageType (pmsg_Header request) = MessageSessionEstablishmentRequest" "x_SEID (pmsg_Header request) = 0"
    and "Unmap (fst peer) = cc_Advertise config" "allowed_sgwu sc (cc_Advertise config)"
      "State_of (fst peer) (sv_associations s) = StateAssociated"
    and "sc_EnterpriseID sc = cc_EnterpriseID config" "local_addresses (rule_config sc) plan" "distinct_rules plan"
      "distinct_tunnels plan" "Is4 (sc_Advertise sc)"
    and "server_reach sc n now s" "env_ok env" "allocateSEID_sgwu (ev_draws env) (sv_store s) = Ok up"
      "us_byCP (sv_store s) (ep_CPSEID plan) = None" "int (card (dom (us_byUP (sv_store s)))) < us_max (sv_store s)"
      "checkTunnelConflicts (planned_session config plan up) 0 (sv_store s) = Ok ()"
    and "b \<in> set (bearers_of plan)"
  shows "\<exists>m s'. handle_sgwu sc env peer request s = (Ok (Some m), s') \<and>
    (\<exists>ie. Find_pfcp m IECause_pfcp = Some ie \<and> Cause_IE_pfcp ie = Ok CauseRequestAccepted) \<and>
    (\<exists>ie. Find_pfcp m IEFSEID = Some ie \<and> FSEID_IE ie = Ok \<lparr>fs_SEID = up, fs_IPv4 = sc_Advertise sc, fs_IPv6 = AddrZero\<rparr>) \<and>
    sv_sessionOwner s' up = Some (Unmap (fst peer), snd peer) \<and>
    (\<exists>r. LookupPacket_sgwu (sv_store s') SourceAccess (tn_TEID (bp_AccessLocal b)) = Some r \<and> pr_UPSEID r = up \<and>
      pr_FAR r = forwarding_FAR (rp_UplinkFAR (bp_Rules b)) 1 (bp_CoreRemote b) \<and> pr_QERs r = planned_QERs config b) \<and>
    (\<exists>r. LookupPacket_sgwu (sv_store s') SourceCore (tn_TEID (bp_CoreLocal b)) = Some r \<and> pr_UPSEID r = up \<and>
      pr_FAR r = planned_FARs (ep_QCI plan) b ! 1 \<and> pr_QERs r = planned_QERs config b)"
proof -
  let ?c = "planned_session config plan up"
  have up: "up \<noteq> 0" "us_byUP (sv_store s) up = None" using allocate_fresh[OF assms(15)] by simp_all
  have st: "rules_ok (sv_store s)" using server_reach_ok[OF assms(13)] server_okD(1) by blast
  have seids: "su_CPSEID ?c = ep_CPSEID plan" "su_UPSEID ?c = up" by (simp_all add: planned_session_def)
  obtain st' where cr: "Create_sgwu (ev_rules env ?c) ?c (sv_store s) = (Ok (?c\<lparr>su_Revision := 1\<rparr>), st')"
    using create_accepted[OF planned_valid[OF assms(1,2) up(1)], of "sv_store s"] assms(16-18) up(2) unfolding seids by blast
  obtain s' where s': "handle_sgwu sc env peer request s =
      (Ok (Some (establishmentResponse sc (ep_CPSEID plan) up CauseRequestAccepted)), s')" "sv_store s' = st'"
    "sv_sessionOwner s' = (sv_sessionOwner s)(up \<mapsto> (Unmap (fst peer), snd peer))"
    using handle_establishment[OF assms(1-10,15) cr] by blast
  have "set (ev_rules env ?c) = dom (su_PDRs ?c)" using assms(14) by simp
  note served = bearer_served[OF assms(10,11) st assms(19) this cr]
  show ?thesis using s' served accepted_reads[OF assms(12) up(1)]
    by (intro exI[of _ "establishmentResponse sc (ep_CPSEID plan) up CauseRequestAccepted"] exI[of _ s']) simp
qed

text \<open>C3: (invariant) In every reachable server the rule store is consistent, the sessions are exactly those that have an owner, no
  session belongs to a peer whose association is unavailable, exactly the peers that reconcile have pending sessions, and
  no request, whatever its contents, makes the handler panic.\<close>

theorem server_invariant:
  assumes "server_reach config n now s" "env_ok env" "now \<le> ev_now env"
  shows "rules_ok (sv_store s) \<and> dom (sv_sessionOwner s) = dom (us_byUP (sv_store s)) \<and>
    sessions_of {p. State_of p (sv_associations s) = StateUnavailable} s = {} \<and>
    dom (sv_reconcilePending s) = {p. Unmap p = p \<and> State_of p (sv_associations s) = StateReconciling} \<and>
    fst (handle_sgwu config env peer request s) \<noteq> Panic"
proof -
  note ok = server_reach_ok[OF assms(1)]
  note inv = server_okD[OF ok]
  have "sessions_of {p. State_of p (sv_associations s) = StateUnavailable} s = {}"
  proof -
    have False if "sv_sessionOwner s u = Some q" "Unmap (fst q) = Unmap p" "State_of p (sv_associations s) = StateUnavailable" for u q p
      using owners_okD[OF inv(4) that(1)] that(2,3) State_of_Unmap[of p] State_of_Unmap[of "fst q"] by metis
    then show ?thesis unfolding sessions_of_def by blast
  qed
  moreover have "dom (sv_sessionOwner s) = dom (us_byUP (sv_store s))" using inv(4) by (simp add: owners_ok_def)
  moreover have "dom (sv_reconcilePending s) = {p. Unmap p = p \<and> State_of p (sv_associations s) = StateReconciling}"
    using inv(5) unfolding pending_ok_def dom_def by blast
  moreover have "fst (handle_sgwu config env peer request s) \<noteq> Panic"
    using handle_handled[OF server_ok_later[OF ok assms(3)] assms(2) refl] by (simp add: handled_def)
  ultimately show ?thesis using inv(1) by blast
qed

text \<open>C4: (safety) One control plane cannot touch the sessions of another: a request of any kind from a peer that is not reconciling
  leaves every session that a peer with another address owns as it was, with its owner.\<close>

theorem peers_isolated:
  assumes "server_reach config n now s" "env_ok env" "now \<le> ev_now env"
    "State_of (fst peer) (sv_associations s) \<noteq> StateReconciling"
    "sv_sessionOwner s u = Some q" "Unmap (fst q) \<noteq> Unmap (fst peer)"
  shows "sv_sessionOwner (snd (handle_sgwu config env peer request s)) u = Some q \<and>
    FindByUPSEID_sgwu (sv_store (snd (handle_sgwu config env peer request s))) u = FindByUPSEID_sgwu (sv_store s) u"
  using handle_handled[OF server_ok_later[OF server_reach_ok[OF assms(1)] assms(3)] assms(2) refl, of peer config request]
    assms(4-6) unfolding handled_def spares_def FindByUPSEID_iff by blast

text \<open>C5: (functional) A sweep removes exactly the sessions of the peers it leaves unavailable: afterwards a session is found as
  before if its owner's association is not unavailable, and not found otherwise.\<close>

theorem sweep_removes_sessions:
  fixes s :: Server_sgwu
  assumes "server_reach config n now s" "env_ok env" "now \<le> ev_now env"
  shows "FindByUPSEID_sgwu (sv_store (sweepAssociations_sgwu env s)) u = (case sv_sessionOwner s u of None \<Rightarrow> None
     | Some q \<Rightarrow> if State_of (fst q) (sv_associations (sweepAssociations_sgwu env s)) = StateUnavailable then None
         else FindByUPSEID_sgwu (sv_store s) u)"
proof -
  note ok = server_ok_later[OF server_reach_ok[OF assms(1)] assms(3)]
  note e = sweepAssociations_effect[OF ok assms(2) refl]
  have dom: "us_byUP (sv_store t) u = None \<longleftrightarrow> sv_sessionOwner t u = None" if "server_ok now' t" for now' t
    using server_okD(4)[OF that] unfolding owners_ok_def by (metis domIff)
  show ?thesis
  proof (cases "sv_sessionOwner s u")
    case None
    then show ?thesis using e(2)[of u] dom[OF e(1)] by (auto simp: dom_def)
  next
    case (Some q)
    show ?thesis
    proof (cases "State_of (fst q) (sv_associations (sweepAssociations_sgwu env s)) = StateUnavailable")
      case True
      then have "sv_sessionOwner (sweepAssociations_sgwu env s) u = None" using e(2)[of u] Some by (metis domIff option.inject)
      then show ?thesis using True Some dom[OF e(1)] by simp
    next
      case False
      then obtain q' where "sv_sessionOwner (sweepAssociations_sgwu env s) u = Some q'" using e(2)[of u] Some by (auto simp: dom_def)
      then show ?thesis using e(3) False Some by simp
    qed
  qed
qed

text \<open>A peer that reconciles takes over the session whose control-plane SEID it presents, whoever owned it before.\<close>

theorem reconciling_peer_takes_over:
  assumes "FindByCPSEID_sgwu (sv_store s) cp = Ok (Some x)"
    "decodeSession_sgwu (rule_config config) (pmsg_IEs request) cp (su_UPSEID x) = Ok c"
    "Reconcile_sgwu (ev_rules env x) (ev_rules env c) cp c (sv_store s) = (Ok y, st)"
  shows "sv_sessionOwner (snd (reconcile_session config env peer request cp s)) (su_UPSEID y) = Some peer"
  using assms by (simp add: reconcile_session_def Let_def)

lemma sweepAssociations_records:
  fixes s :: Server_sgwu
  assumes ok: "server_ok now s" and env: "env_ok env" "ev_now env = now"
  shows "mg_records (sv_associations (sweepAssociations_sgwu env s)) =
      (\<lambda>p. map_option (swept now (sv_associations s)) (mg_records (sv_associations s) p))"
    "mg_timeout (sv_associations (sweepAssociations_sgwu env s)) = mg_timeout (sv_associations s)"
    "mg_graceWindow (sv_associations (sweepAssociations_sgwu env s)) = mg_graceWindow (sv_associations s)"
proof -
  let ?order = "ev_peers env (mg_records (sv_associations s))"
  obtain ts m where sw: "Sweep_assoc now ?order (sv_associations s) = (ts, m)" by fastforce
  have "swept_to (given_up ts) (s\<lparr>sv_associations := m\<rparr>) (sweepAssociations_sgwu env s)"
    using sweep_fold_effect[of "s\<lparr>sv_associations := m\<rparr>" env ts, OF _ env(1)] server_okD(1)[OF ok]
    unfolding sweepAssociations_sgwu_def env(2) sw by simp
  then have m: "sv_associations (sweepAssociations_sgwu env s) = snd (Sweep_assoc now ?order (sv_associations s))"
    by (simp add: swept_to_def sw)
  have "ranges_over (EvSweep ?order) (sv_associations s)" using env_ok_peers[OF env(1) server_okD(3)[OF ok]] by simp
  then show "mg_records (sv_associations (sweepAssociations_sgwu env s)) =
      (\<lambda>p. map_option (swept now (sv_associations s)) (mg_records (sv_associations s) p))" unfolding m by (rule Sweep_assoc_spec)
  show "mg_timeout (sv_associations (sweepAssociations_sgwu env s)) = mg_timeout (sv_associations s)"
    "mg_graceWindow (sv_associations (sweepAssociations_sgwu env s)) = mg_graceWindow (sv_associations s)"
    unfolding m by (simp_all add: Sweep_assoc_def Let_def)
qed

section \<open>A sample run\<close>

text \<open>A user plane that accepts two control planes; the first sets up its association and establishes the sample session.\<close>

definition sample_env :: "int \<Rightarrow> Env" where
  "sample_env t = \<lparr>ev_now = t, ev_rules = (\<lambda>x. sorted_list_of_set (dom (su_PDRs x))),
     ev_owners = (\<lambda>m. sorted_list_of_set (dom m)), ev_pending = sorted_list_of_set,
     ev_peers = (\<lambda>m. sorted_list_of_set (dom m)), ev_draws = (\<lambda>_. Some 5)\<rparr>"

definition sample_server_config :: ServerConfig where
  "sample_server_config = \<lparr>sc_Listen = (Addr4 0x0a000064, 8805), sc_Advertise = Addr4 0x0a000064,
     sc_AccessUserIP = Addr4 0x0a010001, sc_CoreUserIP = Addr4 0x0a020001, sc_AllowedCP = [Addr4 0x0a000001, Addr4 0x0a000002],
     sc_StartedAt = 1, sc_ReportQueueSize = 1024, sc_ReportSuppression = 10 ^ 9, sc_ReportTimeout = 5 * 10 ^ 9,
     sc_AssociationTimeout = 0, sc_GraceWindow = 0, sc_EnterpriseID = 40000\<rparr>"

definition sample_request_of :: "byte \<Rightarrow> 64 word \<Rightarrow> IE_pfcp list \<Rightarrow> pfcp_message" where
  "sample_request_of ty seid ies = response ty (seid \<noteq> 0) seid ies"

definition sample_peer :: AddrPort where "sample_peer = (Addr4 0x0a000001, 8805)"
definition other_peer :: AddrPort where "other_peer = (Addr4 0x0a000002, 8805)"

definition sample_start :: Server_sgwu where
  "sample_start = \<lparr>sv_store = NewStoreWithLimit_sgwu 10,
     sv_associations = \<lparr>mg_records = Map.empty, mg_timeout = 15 * 10 ^ 9, mg_graceWindow = 120 * 10 ^ 9\<rparr>,
     sv_sessionOwner = Map.empty, sv_reconcilePending = Map.empty, sv_reportNotBefore = Map.empty,
     sv_counters = zero_counters, sv_notified = []\<rparr>"

definition sample_associated :: Server_sgwu where
  "sample_associated = snd (handle_sgwu sample_server_config (sample_env 1) sample_peer
     (sample_request_of MessageAssociationSetupRequest 0 [\<lparr>pie_Type = IENodeID, pie_Value = [0, 10, 0, 0, 1]\<rparr>,
       \<lparr>pie_Type = IERecoveryTimeStamp, pie_Value = [0xe0, 0, 0, 0]\<rparr>]) sample_start)"

definition sample_served :: Server_sgwu where
  "sample_served = snd (handle_sgwu sample_server_config (sample_env 1) sample_peer
     (sample_request_of MessageSessionEstablishmentRequest 0 (case establish_request sample_client sample_plan of
        Ok ies \<Rightarrow> ies | _ \<Rightarrow> [])) sample_associated)"

lemma sample_env_ok: "env_ok (sample_env t)"
  by (simp add: env_ok_def sample_env_def)

lemma sample_env_now [simp]: "ev_now (sample_env t) = t"
  by (simp add: sample_env_def)

lemma sample_start_reach: "server_reach sample_server_config 10 1 sample_start"
proof (rule server_start)
  show "New_server 1 True sample_server_config (Some (NewStoreWithLimit_sgwu 10)) = Ok (sample_server_config, sample_start)"
    by (simp add: New_server_def sample_server_config_def sample_start_def completed_config_def IsValid_def New_assoc_def
      DefaultTimeout_assoc_def DefaultGraceWindow_assoc_def IsZero_time_def)
qed simp

lemma sample_associated_fields:
  "sv_store sample_associated = NewStoreWithLimit_sgwu 10" "sv_sessionOwner sample_associated = Map.empty"
  "mg_timeout (sv_associations sample_associated) = 15 * 10 ^ 9" "mg_graceWindow (sv_associations sample_associated) = 120 * 10 ^ 9"
  "\<exists>r. mg_records (sv_associations sample_associated) = [Addr4 0x0a000001 \<mapsto> r] \<and> ar_State r = StateAssociated \<and> ar_LastSeen r = 1"
proof -
  have k: "sample_associated = count (\<lambda>c. c\<lparr>ct_AssociationsEstablished := ct_AssociationsEstablished c + 1\<rparr>)
      (sample_start\<lparr>sv_associations := snd (Setup_assoc 1 (Addr4 0x0a000001) (AddrFrom4 [10, 0, 0, 1]) []
        (UnixTime (uint (be32 0xe0 0 0 0) - ntpUnixOffset)) (sv_associations sample_start))\<rparr>)"
    by (simp add: sample_associated_def handle_sgwu_def sample_peer_def allowed_sgwu_def sample_server_config_def
      sample_request_of_def response_def message_types associationSetup_sgwu_def Find_pfcp_def pfcp_types NodeID_IE_def
      RecoveryTimeStamp_IE_def byte_at_def slice_def read32_def sample_start_def Touch_assoc_def Setup_assoc_def
      setup_reconciles_def Let_def answer_def)
  show "sv_store sample_associated = NewStoreWithLimit_sgwu 10" "sv_sessionOwner sample_associated = Map.empty"
    "mg_timeout (sv_associations sample_associated) = 15 * 10 ^ 9" "mg_graceWindow (sv_associations sample_associated) = 120 * 10 ^ 9"
    by (simp_all add: k sample_start_def Setup_assoc_def Let_def)
  show "\<exists>r. mg_records (sv_associations sample_associated) = [Addr4 0x0a000001 \<mapsto> r] \<and> ar_State r = StateAssociated \<and> ar_LastSeen r = 1"
    by (simp add: k sample_start_def Setup_assoc_def Let_def setup_record_def setup_reconciles_def) (intro exI conjI, rule refl, simp_all)
qed

lemma sample_associated_reach: "server_reach sample_server_config 10 1 sample_associated"
  using server_request[OF sample_start_reach sample_env_ok, of 1] by (simp add: sample_associated_def)

lemma sample_allocates: "allocateSEID_sgwu (ev_draws (sample_env t)) (NewStoreWithLimit_sgwu 10) = Ok 5"
  by (simp add: allocateSEID_sgwu_def, subst allocate_from.simps) (simp add: sample_env_def NewStoreWithLimit_sgwu_def)

lemma sample_config_rules: "rule_config sample_server_config = sample_user_plane"
  by (simp add: rule_config_def sample_server_config_def sample_user_plane_def)

lemma sample_peer_ok:
  "Unmap (fst sample_peer) = cc_Advertise sample_client" "allowed_sgwu sample_server_config (cc_Advertise sample_client)"
  "State_of (fst sample_peer) (sv_associations sample_associated) = StateAssociated"
  using sample_associated_fields(5)
  by (auto simp: sample_peer_def sample_client_def allowed_sgwu_def sample_server_config_def State_of_def)

lemma sample_no_conflict: "checkTunnelConflicts c u (NewStoreWithLimit_sgwu 10) = Ok ()"
  by (simp add: checkTunnelConflicts_def map_ex_def tunnelConflict_def NewStoreWithLimit_sgwu_def)

lemma sample_served_fields:
  "\<exists>st. sv_store sample_served = st \<and> us_byUP st = [5 \<mapsto> (planned_session sample_client sample_plan 5)\<lparr>su_Revision := 1\<rparr>]"
  "sv_sessionOwner sample_served = [5 \<mapsto> sample_peer]"
  "mg_timeout (sv_associations sample_served) = 15 * 10 ^ 9" "mg_graceWindow (sv_associations sample_served) = 120 * 10 ^ 9"
  "\<exists>r. mg_records (sv_associations sample_served) = [Addr4 0x0a000001 \<mapsto> r] \<and> ar_State r = StateAssociated \<and> ar_LastSeen r = 1"
proof -
  let ?c = "planned_session sample_client sample_plan 5"
  obtain ies where ies: "establish_request sample_client sample_plan = Ok ies" using sample_request by blast
  let ?m = "sample_request_of MessageSessionEstablishmentRequest 0 ies"
  have m: "pmsg_IEs ?m = ies" "x_MessageType (pmsg_Header ?m) = MessageSessionEstablishmentRequest" "x_SEID (pmsg_Header ?m) = 0"
    by (simp_all add: sample_request_of_def response_def)
  have seids: "su_UPSEID ?c = 5" by (simp add: planned_session_def)
  obtain st where cr: "Create_sgwu (ev_rules (sample_env 1) ?c) ?c (NewStoreWithLimit_sgwu 10) = (Ok (?c\<lparr>su_Revision := 1\<rparr>), st)"
    using create_accepted[OF planned_valid[OF ies sample_hypotheses(1), of 5] _ _ sample_no_conflict]
    by (auto simp: NewStoreWithLimit_sgwu_def)
  have t: "us_byUP st = [5 \<mapsto> ?c\<lparr>su_Revision := 1\<rparr>]"
    using Create_table[OF cr] by (simp add: seids NewStoreWithLimit_sgwu_def)
  have e: "\<exists>s'. handle_sgwu sample_server_config (sample_env 1) sample_peer ?m sample_associated =
      (Ok (Some (establishmentResponse sample_server_config (ep_CPSEID sample_plan) 5 CauseRequestAccepted)), s') \<and> sv_store s' = st \<and>
    sv_sessionOwner s' = (sv_sessionOwner sample_associated)(5 \<mapsto> (Unmap (fst sample_peer), snd sample_peer)) \<and>
    sv_associations s' = Touch_assoc (ev_now (sample_env 1)) (Unmap (fst sample_peer)) (sv_associations sample_associated)"
    by (rule handle_establishment[OF _ sample_hypotheses(1) m(2,3) sample_peer_ok])
      (use ies m cr sample_hypotheses sample_allocates in \<open>simp_all add: sample_config_rules sample_associated_fields\<close>,
       simp add: sample_server_config_def sample_client_def)
  then have f: "sv_store sample_served = st" "sv_sessionOwner sample_served = [5 \<mapsto> sample_peer]"
    "sv_associations sample_served = Touch_assoc 1 (Addr4 0x0a000001) (sv_associations sample_associated)"
    by (auto simp: sample_served_def ies sample_associated_fields sample_peer_def)
  then show "\<exists>st. sv_store sample_served = st \<and> us_byUP st = [5 \<mapsto> ?c\<lparr>su_Revision := 1\<rparr>]"
    "sv_sessionOwner sample_served = [5 \<mapsto> sample_peer]" using t by simp_all
  show "mg_timeout (sv_associations sample_served) = 15 * 10 ^ 9" "mg_graceWindow (sv_associations sample_served) = 120 * 10 ^ 9"
    "\<exists>r. mg_records (sv_associations sample_served) = [Addr4 0x0a000001 \<mapsto> r] \<and> ar_State r = StateAssociated \<and> ar_LastSeen r = 1"
    using f(3) sample_associated_fields(3-5) by (auto simp: Touch_assoc_def)
qed

lemma sample_served_reach: "server_reach sample_server_config 10 1 sample_served"
  using server_request[OF sample_associated_reach sample_env_ok, of 1] by (simp add: sample_served_def)

theorem establishment_end_to_end_witness:
  "\<exists>ies m s' r. establish_request sample_client sample_plan = Ok ies \<and>
     handle_sgwu sample_server_config (sample_env 1) sample_peer (sample_request_of MessageSessionEstablishmentRequest 0 ies)
       sample_associated = (Ok (Some m), s') \<and> sv_sessionOwner s' 5 = Some sample_peer \<and>
     LookupPacket_sgwu (sv_store s') SourceAccess 7 = Some r \<and>
     far_OuterHeader (pr_FAR r) = Some \<lparr>fu_TEID = 11, fu_IP = Addr4 0x0a020002\<rparr>"
proof -
  obtain ies where ies: "establish_request sample_client sample_plan = Ok ies" using sample_request by blast
  let ?m = "sample_request_of MessageSessionEstablishmentRequest 0 ies"
  have m: "establish_request sample_client sample_plan = Ok (pmsg_IEs ?m)" "x_SEID (pmsg_Header ?m) = 0"
    "x_MessageType (pmsg_Header ?m) = MessageSessionEstablishmentRequest"
    by (simp_all add: sample_request_of_def response_def ies)
  have c: "sc_EnterpriseID sample_server_config = cc_EnterpriseID sample_client" "Is4 (sc_Advertise sample_server_config)"
    "local_addresses (rule_config sample_server_config) sample_plan"
    using sample_hypotheses(3) by (simp_all add: sample_config_rules, simp_all add: sample_server_config_def sample_client_def)
  have s: "allocateSEID_sgwu (ev_draws (sample_env 1)) (sv_store sample_associated) = Ok 5"
    "us_byCP (sv_store sample_associated) (ep_CPSEID sample_plan) = None"
    "int (card (dom (us_byUP (sv_store sample_associated)))) < us_max (sv_store sample_associated)"
    "checkTunnelConflicts (planned_session sample_client sample_plan 5) 0 (sv_store sample_associated) = Ok ()"
    by (simp_all add: sample_associated_fields sample_allocates sample_no_conflict, simp_all add: NewStoreWithLimit_sgwu_def)
  have b: "default_bearer sample_plan \<in> set (bearers_of sample_plan)" by (simp add: sample_bearers)
  have v: "bp_AccessLocal (default_bearer sample_plan) = \<lparr>tn_TEID = 7, tn_IP = Addr4 0x0a010001\<rparr>"
    "bp_CoreRemote (default_bearer sample_plan) = \<lparr>tn_TEID = 11, tn_IP = Addr4 0x0a020002\<rparr>"
    "(Unmap (fst sample_peer), snd sample_peer) = sample_peer"
    by (simp_all add: default_bearer_def sample_plan_def sample_peer_def)
  show ?thesis
    using establishment_end_to_end[OF m(1) sample_hypotheses(1) m(3,2) sample_peer_ok c(1,3) sample_hypotheses(4,5) c(2)
      sample_associated_reach sample_env_ok s b] ies unfolding v by (auto simp: forwarding_FAR_def)
qed

theorem server_invariant_witness:
  "dom (us_byUP (sv_store sample_served)) = {5} \<and>
   sessions_of {p. State_of p (sv_associations sample_served) = StateUnavailable} sample_served = {} \<and>
   fst (handle_sgwu sample_server_config (sample_env 2) other_peer (sample_request_of MessageSessionDeletionRequest 5 [])
     sample_served) \<noteq> Panic"
  using server_invariant[OF sample_served_reach sample_env_ok, of 2] sample_served_fields(2) by simp

theorem peers_isolated_witness:
  "sv_sessionOwner (snd (handle_sgwu sample_server_config (sample_env 2) other_peer
      (sample_request_of MessageSessionDeletionRequest 5 []) sample_served)) 5 = Some sample_peer \<and>
   FindByUPSEID_sgwu (sv_store (snd (handle_sgwu sample_server_config (sample_env 2) other_peer
      (sample_request_of MessageSessionDeletionRequest 5 []) sample_served))) 5 \<noteq> None"
proof -
  have "State_of (fst other_peer) (sv_associations sample_served) \<noteq> StateReconciling"
    using sample_served_fields(5) by (auto simp: State_of_def other_peer_def)
  then show ?thesis
    using peers_isolated[OF sample_served_reach sample_env_ok, of 2 other_peer 5 sample_peer
      "sample_request_of MessageSessionDeletionRequest 5 []"] sample_served_fields(1,2)
    by (auto simp: other_peer_def sample_peer_def)
qed

text \<open>The control plane stays silent: after fifteen seconds a sweep puts it in grace, two minutes later another gives it up.\<close>

definition sample_grace :: Server_sgwu where
  "sample_grace = sweepAssociations_sgwu (sample_env (16 * 10 ^ 9)) sample_served"

lemma sample_grace_reach: "server_reach sample_server_config 10 (16 * 10 ^ 9) sample_grace"
  using server_sweep[OF sample_served_reach sample_env_ok, of "16 * 10 ^ 9"] by (simp add: sample_grace_def)

lemma sample_grace_state:
  "State_of (fst sample_peer) (sv_associations sample_grace) = StateGrace"
  "State_of (fst sample_peer) (sv_associations (sweepAssociations_sgwu (sample_env (140 * 10 ^ 9)) sample_grace)) = StateUnavailable"
proof -
  obtain r where r: "mg_records (sv_associations sample_served) = [Addr4 0x0a000001 \<mapsto> r]" "ar_State r = StateAssociated" "ar_LastSeen r = 1"
    using sample_served_fields(5) by blast
  have ok: "server_ok (16 * 10 ^ 9) sample_served" by (rule server_ok_later[OF server_reach_ok[OF sample_served_reach]]) simp
  note g = sweepAssociations_records[OF ok sample_env_ok, of "16 * 10 ^ 9", folded sample_grace_def, simplified]
  have sw: "swept (16 * 10 ^ 9) (sv_associations sample_served) r =
      r\<lparr>ar_State := StateGrace, ar_GraceStarted := 16 * 10 ^ 9, ar_GraceDeadline := 136 * 10 ^ 9\<rparr>"
    using r sample_served_fields(3,4) by (simp add: swept_def sweep_record_def IsZero_time_def Sub_time_def)
  then show "State_of (fst sample_peer) (sv_associations sample_grace) = StateGrace"
    using g(1) r(1) by (simp add: State_of_def sample_peer_def)
  have ok': "server_ok (140 * 10 ^ 9) sample_grace" by (rule server_ok_later[OF server_reach_ok[OF sample_grace_reach]]) simp
  note u = sweepAssociations_records(1)[OF ok' sample_env_ok, of "140 * 10 ^ 9", simplified]
  show "State_of (fst sample_peer) (sv_associations (sweepAssociations_sgwu (sample_env (140 * 10 ^ 9)) sample_grace)) = StateUnavailable"
    using u g r(1) sw by (simp add: State_of_def sample_peer_def swept_def sweep_record_def IsZero_time_def)
qed

lemma sample_grace_owner: "sv_sessionOwner sample_grace 5 \<in> {None, Some sample_peer}"
proof -
  have ok: "server_ok (16 * 10 ^ 9) sample_served" by (rule server_ok_later[OF server_reach_ok[OF sample_served_reach]]) simp
  show ?thesis using sweepAssociations_effect(3)[OF ok sample_env_ok, of "16 * 10 ^ 9" 5, folded sample_grace_def]
      sample_served_fields(2) by (cases "sv_sessionOwner sample_grace 5") auto
qed

theorem sweep_removes_sessions_witness:
  "FindByUPSEID_sgwu (sv_store sample_grace) 5 \<noteq> None \<and>
   FindByUPSEID_sgwu (sv_store (sweepAssociations_sgwu (sample_env (140 * 10 ^ 9)) sample_grace)) 5 = None"
proof -
  have one: "FindByUPSEID_sgwu (sv_store sample_grace) 5 \<noteq> None"
    using sweep_removes_sessions[OF sample_served_reach sample_env_ok, of "16 * 10 ^ 9" 5, folded sample_grace_def]
      sample_served_fields(1,2) sample_grace_state(1) by auto
  have "FindByUPSEID_sgwu (sv_store (sweepAssociations_sgwu (sample_env (140 * 10 ^ 9)) sample_grace)) 5 = None"
    using sweep_removes_sessions[OF sample_grace_reach sample_env_ok, of "140 * 10 ^ 9" 5] sample_grace_state(2) sample_grace_owner
    by auto
  with one show ?thesis by blast
qed

end
