(* ===== verification/Go_Heap.thy ===== *)
theory Go_Heap
  imports Main "HOL-Library.Multiset"
begin

text \<open>
  Go's \<^verbatim>\<open>container/heap\<close> on a slice, as the sources use it: \<^verbatim>\<open>Push\<close> and \<^verbatim>\<open>Pop\<close> with their loops \<^verbatim>\<open>up\<close> and \<^verbatim>\<open>down\<close> over an
  interface whose \<^verbatim>\<open>Swap\<close> exchanges elements and whose \<^verbatim>\<open>Push\<close> and \<^verbatim>\<open>Pop\<close> work at the end of the slice. The order is a
  parameter; the locale \<open>heap_order\<close> states what it must be, and its lemmas that the slice stays a heap, that no element
  is lost, and that \<^verbatim>\<open>Pop\<close> returns a least one.
\<close>

section \<open>Operations\<close>

definition Swap_heap :: "nat \<Rightarrow> nat \<Rightarrow> 'a list \<Rightarrow> 'a list" where
  "Swap_heap i j xs = xs[i := xs ! j, j := xs ! i]"

definition heap_parent :: "nat \<Rightarrow> nat" where
  "heap_parent j = (j - 1) div 2"

function up_heap :: "('a \<Rightarrow> 'a \<Rightarrow> bool) \<Rightarrow> 'a list \<Rightarrow> nat \<Rightarrow> 'a list" where
  "up_heap lt xs j = (let i = heap_parent j in
     if i = j \<or> \<not> lt (xs ! j) (xs ! i) then xs else up_heap lt (Swap_heap i j xs) i)"
  by pat_completeness auto
termination
  by (relation "measure (\<lambda>(lt, xs, j). j)") (auto simp: heap_parent_def)

definition least_child :: "('a \<Rightarrow> 'a \<Rightarrow> bool) \<Rightarrow> 'a list \<Rightarrow> nat \<Rightarrow> nat \<Rightarrow> nat" where
  "least_child lt xs i n = (let j1 = 2 * i + 1; j2 = j1 + 1 in if j2 < n \<and> lt (xs ! j2) (xs ! j1) then j2 else j1)"

function down_heap :: "('a \<Rightarrow> 'a \<Rightarrow> bool) \<Rightarrow> 'a list \<Rightarrow> nat \<Rightarrow> nat \<Rightarrow> 'a list" where
  "down_heap lt xs i n =
     (if n \<le> 2 * i + 1 then xs
      else let j = least_child lt xs i n in
        if \<not> lt (xs ! j) (xs ! i) then xs else down_heap lt (Swap_heap i j xs) j n)"
  by pat_completeness auto
termination
  by (relation "measure (\<lambda>(lt, xs, i, n). n - i)") (auto simp: least_child_def Let_def)

declare up_heap.simps [simp del] down_heap.simps [simp del]

definition Push_heap :: "('a \<Rightarrow> 'a \<Rightarrow> bool) \<Rightarrow> 'a \<Rightarrow> 'a list \<Rightarrow> 'a list" where
  "Push_heap lt x xs = (let xs = xs @ [x] in up_heap lt xs (length xs - 1))"

text \<open>\<^verbatim>\<open>Pop\<close> of a slice that is not empty: the element and the rest.\<close>

definition Pop_heap :: "('a \<Rightarrow> 'a \<Rightarrow> bool) \<Rightarrow> 'a list \<Rightarrow> 'a \<times> 'a list" where
  "Pop_heap lt xs = (let n = length xs - 1; xs = down_heap lt (Swap_heap 0 n xs) 0 n in (xs ! n, take n xs))"

section \<open>Elements\<close>

lemma Swap_heap_length [simp]: "length (Swap_heap i j xs) = length xs"
  by (simp add: Swap_heap_def)

lemma Swap_heap_nth:
  "i < length xs \<Longrightarrow> j < length xs \<Longrightarrow> Swap_heap i j xs ! k = (if k = j then xs ! i else if k = i then xs ! j else xs ! k)"
  by (auto simp: Swap_heap_def nth_list_update)

lemma Swap_heap_mset [simp]: "i < length xs \<Longrightarrow> j < length xs \<Longrightarrow> mset (Swap_heap i j xs) = mset xs"
  unfolding Swap_heap_def by (rule mset_swap)

lemma heap_parent_le: "heap_parent j \<le> j"
  by (simp add: heap_parent_def)

lemma heap_parent_less: "0 < j \<Longrightarrow> heap_parent j < j"
  by (simp add: heap_parent_def)

lemma heap_parent_iff: "0 < k \<Longrightarrow> heap_parent k = i \<longleftrightarrow> k = 2 * i + 1 \<or> k = 2 * i + 2"
  by (auto simp: heap_parent_def)

lemma up_heap_elements: "j < length xs \<Longrightarrow> length (up_heap lt xs j) = length xs \<and> mset (up_heap lt xs j) = mset xs"
proof (induction lt xs j rule: up_heap.induct)
  case (1 lt xs j)
  have "heap_parent j < length xs" using 1(2) heap_parent_le[of j] by simp
  then show ?case using 1 by (subst (1 2) up_heap.simps) (simp add: Let_def)
qed

lemma least_child_less: "2 * i + 1 < n \<Longrightarrow> least_child lt xs i n < n"
  by (simp add: least_child_def Let_def)

lemma least_child_parent: "heap_parent (least_child lt xs i n) = i" "i < least_child lt xs i n"
  by (simp_all add: least_child_def heap_parent_def Let_def)

lemma down_heap_cases:
  obtains (stop) "down_heap lt xs i n = xs" "n \<le> 2 * i + 1 \<or> \<not> lt (xs ! least_child lt xs i n) (xs ! i)"
  | (step) j where "j = least_child lt xs i n" "2 * i + 1 < n" "lt (xs ! j) (xs ! i)" "i < j" "j < n"
      "down_heap lt xs i n = down_heap lt (Swap_heap i j xs) j n"
proof (cases "2 * i + 1 < n \<and> lt (xs ! least_child lt xs i n) (xs ! i)")
  case True
  then show thesis
    by (intro step[of "least_child lt xs i n"]) (auto simp: least_child_less least_child_parent, subst down_heap.simps, simp add: Let_def)
next
  case False
  then show thesis by (intro stop) (subst down_heap.simps, auto simp: Let_def)
qed

lemma down_heap_elements:
  "i < n \<Longrightarrow> n \<le> length xs \<Longrightarrow> length (down_heap lt xs i n) = length xs \<and> mset (down_heap lt xs i n) = mset xs \<and>
     (\<forall>k \<ge> n. down_heap lt xs i n ! k = xs ! k)"
proof (induction "n - i" arbitrary: xs i rule: less_induct)
  case less
  show ?case
  proof (rule down_heap_cases[where lt = lt and xs = xs and i = i and n = n])
    fix j assume "i < j" "j < n" "down_heap lt xs i n = down_heap lt (Swap_heap i j xs) j n"
    then show ?thesis using less.hyps[of j "Swap_heap i j xs"] less.prems by (simp add: Swap_heap_nth)
  qed simp
qed

section \<open>The heap property\<close>

definition heap_below :: "('a \<Rightarrow> 'a \<Rightarrow> bool) \<Rightarrow> 'a list \<Rightarrow> nat \<Rightarrow> bool" where
  "heap_below lt xs k \<longleftrightarrow> \<not> lt (xs ! k) (xs ! heap_parent k)"

definition is_heap :: "('a \<Rightarrow> 'a \<Rightarrow> bool) \<Rightarrow> 'a list \<Rightarrow> nat \<Rightarrow> bool" where
  "is_heap lt xs n \<longleftrightarrow> (\<forall>k. 0 < k \<and> k < n \<longrightarrow> heap_below lt xs k)"

text \<open>A heap but for the position \<open>j\<close>, which may be too small (\<^verbatim>\<open>up\<close>) or too large (\<^verbatim>\<open>down\<close>).\<close>

definition grandchildren_ok :: "('a \<Rightarrow> 'a \<Rightarrow> bool) \<Rightarrow> 'a list \<Rightarrow> nat \<Rightarrow> nat \<Rightarrow> bool" where
  "grandchildren_ok lt xs j n \<longleftrightarrow>
     (\<forall>k. 0 < k \<and> k < n \<and> 0 < j \<and> heap_parent k = j \<longrightarrow> \<not> lt (xs ! k) (xs ! heap_parent j))"

definition heap_but_up :: "('a \<Rightarrow> 'a \<Rightarrow> bool) \<Rightarrow> 'a list \<Rightarrow> nat \<Rightarrow> nat \<Rightarrow> bool" where
  "heap_but_up lt xs j n \<longleftrightarrow> (\<forall>k. 0 < k \<and> k < n \<and> k \<noteq> j \<longrightarrow> heap_below lt xs k) \<and> grandchildren_ok lt xs j n"

definition heap_but_down :: "('a \<Rightarrow> 'a \<Rightarrow> bool) \<Rightarrow> 'a list \<Rightarrow> nat \<Rightarrow> nat \<Rightarrow> bool" where
  "heap_but_down lt xs i n \<longleftrightarrow>
     (\<forall>k. 0 < k \<and> k < n \<and> heap_parent k \<noteq> i \<longrightarrow> heap_below lt xs k) \<and> grandchildren_ok lt xs i n"

locale heap_order =
  fixes lt :: "'a \<Rightarrow> 'a \<Rightarrow> bool"
  assumes asym: "lt x y \<Longrightarrow> \<not> lt y x"
    and not_less_trans: "\<not> lt y x \<Longrightarrow> \<not> lt z y \<Longrightarrow> \<not> lt z x"
begin

lemma root_least: "is_heap lt xs n \<Longrightarrow> k < n \<Longrightarrow> \<not> lt (xs ! k) (xs ! 0)"
proof (induction k rule: less_induct)
  case (less k)
  show ?case
  proof (cases "k = 0")
    case True
    then show ?thesis using asym by blast
  next
    case False
    then have "\<not> lt (xs ! k) (xs ! heap_parent k)" using less.prems by (simp add: is_heap_def heap_below_def)
    moreover have "\<not> lt (xs ! heap_parent k) (xs ! 0)" using less False heap_parent_less[of k] by simp
    ultimately show ?thesis using not_less_trans by blast
  qed
qed

lemma up_step:
  assumes but: "heap_but_up lt xs j n" and j: "0 < j" "j < n" "n \<le> length xs" and gt: "lt (xs ! j) (xs ! heap_parent j)"
  shows "heap_but_up lt (Swap_heap (heap_parent j) j xs) (heap_parent j) n"
proof -
  let ?i = "heap_parent j" and ?xs = "Swap_heap (heap_parent j) j xs"
  have i: "?i < j" using j(1) by (rule heap_parent_less)
  have nth: "?xs ! k = (if k = j then xs ! ?i else if k = ?i then xs ! j else xs ! k)" for k
    using i j by (simp add: Swap_heap_nth)
  have below: "\<not> lt (xs ! k) (xs ! heap_parent k)" if "0 < k" "k < n" "k \<noteq> j" for k
    using but that by (simp add: heap_but_up_def heap_below_def)
  have child: "\<not> lt (xs ! k) (xs ! ?i)" if "0 < k" "k < n" "heap_parent k = j" for k
    using but that j by (simp add: heap_but_up_def grandchildren_ok_def)
  have "heap_below lt ?xs k" if k: "0 < k" "k < n" "k \<noteq> ?i" for k
  proof (cases "k = j")
    case True
    then show ?thesis using asym[OF gt] i by (simp add: heap_below_def nth)
  next
    case False
    have p: "heap_parent k < k" using k(1) by (rule heap_parent_less)
    consider "heap_parent k = j" | "heap_parent k = ?i" | "heap_parent k \<noteq> j" "heap_parent k \<noteq> ?i" by blast
    then show ?thesis
    proof cases
      case 1 then show ?thesis using child[OF k(1,2)] False k i by (simp add: heap_below_def nth)
    next
      case 2
      then have "\<not> lt (xs ! k) (xs ! ?i)" using below[OF k(1,2) False] by simp
      then have "\<not> lt (xs ! k) (xs ! j)" using not_less_trans asym[OF gt] by blast
      then show ?thesis using 2 False k i by (simp add: heap_below_def nth)
    next
      case 3 then show ?thesis using below[OF k(1,2) False] False k by (simp add: heap_below_def nth)
    qed
  qed
  moreover have "\<not> lt (?xs ! k) (?xs ! heap_parent ?i)" if k: "0 < k" "k < n" "0 < ?i" "heap_parent k = ?i" for k
  proof -
    have pi: "heap_parent ?i < ?i" using k(3) by (rule heap_parent_less)
    have up: "\<not> lt (xs ! ?i) (xs ! heap_parent ?i)" using below[of ?i] k(3) i j by simp
    have "\<not> lt (xs ! k) (xs ! ?i)" if "k \<noteq> j" using below[OF k(1,2) that] k(4) by simp
    then have "k = j \<or> \<not> lt (xs ! k) (xs ! heap_parent ?i)" using not_less_trans up by blast
    moreover have "k \<noteq> ?i" using heap_parent_less[OF k(1)] k(4) by simp
    ultimately show ?thesis using up pi i by (auto simp: nth)
  qed
  ultimately show ?thesis by (simp add: heap_but_up_def grandchildren_ok_def)
qed

lemma up_heap_ok: "heap_but_up lt xs j n \<Longrightarrow> j < n \<Longrightarrow> n \<le> length xs \<Longrightarrow> is_heap lt (up_heap lt xs j) n"
proof (induction j arbitrary: xs rule: less_induct)
  case (less j)
  show ?case
  proof (cases "0 < j \<and> lt (xs ! j) (xs ! heap_parent j)")
    case True
    then have "heap_parent j < j" by (simp add: heap_parent_less)
    moreover have "up_heap lt xs j = up_heap lt (Swap_heap (heap_parent j) j xs) (heap_parent j)"
      using True heap_parent_less[of j] by (subst up_heap.simps) (simp add: Let_def)
    ultimately show ?thesis using less.IH up_step[of xs j n] less.prems True by simp
  next
    case False
    have "up_heap lt xs j = xs" using False by (subst up_heap.simps) (auto simp: Let_def heap_parent_def)
    then show ?thesis using less.prems(1) False by (auto simp: is_heap_def heap_but_up_def heap_below_def)
  qed
qed

lemma irrefl: "\<not> lt x x"
  using asym by blast

lemma least_child_least:
  assumes "0 < k" "k < n" "heap_parent k = i"
  shows "\<not> lt (xs ! k) (xs ! least_child lt xs i n)"
proof -
  have "k = 2 * i + 1 \<or> k = 2 * i + 2" using assms heap_parent_iff by blast
  then show ?thesis using assms(2) asym irrefl by (elim disjE) (simp_all add: least_child_def Let_def)
qed

lemma down_step:
  assumes but: "heap_but_down lt xs i n" and i: "2 * i + 1 < n" "n \<le> length xs"
    and j: "j = least_child lt xs i n" and gt: "lt (xs ! j) (xs ! i)"
  shows "heap_but_down lt (Swap_heap i j xs) j n"
proof -
  let ?xs = "Swap_heap i j xs"
  have ij: "i < j" "j < n" "heap_parent j = i"
    using j i least_child_parent[where lt = lt and xs = xs and i = i and n = n] least_child_less[OF i(1), where lt = lt and xs = xs] by simp_all
  have nth: "?xs ! k = (if k = j then xs ! i else if k = i then xs ! j else xs ! k)" for k
    using ij i by (simp add: Swap_heap_nth)
  have below: "\<not> lt (xs ! k) (xs ! heap_parent k)" if "0 < k" "k < n" "heap_parent k \<noteq> i" for k
    using but that by (simp add: heap_but_down_def heap_below_def)
  have least: "\<not> lt (xs ! k) (xs ! j)" if k: "0 < k" "k < n" "heap_parent k = i" for k
    unfolding j by (rule least_child_least[OF k])
  have "heap_below lt ?xs k" if k: "0 < k" "k < n" "heap_parent k \<noteq> j" for k
  proof -
    have p: "heap_parent k < k" using k(1) by (rule heap_parent_less)
    consider "k = i" "0 < i" | "heap_parent k = i" | "k \<noteq> i" "heap_parent k \<noteq> i" using k(1) by blast
    then show ?thesis
    proof cases
      case 1
      then have "\<not> lt (xs ! j) (xs ! heap_parent i)"
        using but ij k by (simp add: heap_but_down_def grandchildren_ok_def)
      then show ?thesis using 1 p ij k by (simp add: heap_below_def nth)
    next
      case 2
      then show ?thesis using least[OF k(1,2)] asym[OF gt] p ij by (auto simp: heap_below_def nth)
    next
      case 3
      then have "k \<noteq> j" using ij(3) by blast
      then show ?thesis using below[OF k(1,2) 3(2)] 3 k(3) by (simp add: heap_below_def nth)
    qed
  qed
  moreover have "\<not> lt (?xs ! k) (?xs ! heap_parent j)" if k: "0 < k" "k < n" "heap_parent k = j" for k
  proof -
    have "j < k" using heap_parent_less[OF k(1)] k(3) by simp
    then show ?thesis using below[OF k(1,2)] k(3) ij by (simp add: nth)
  qed
  ultimately show ?thesis by (simp add: heap_but_down_def grandchildren_ok_def)
qed

lemma down_heap_ok: "heap_but_down lt xs i n \<Longrightarrow> n \<le> length xs \<Longrightarrow> is_heap lt (down_heap lt xs i n) n"
proof (induction "n - i" arbitrary: xs i rule: less_induct)
  case less
  show ?case
  proof (rule down_heap_cases[where lt = lt and xs = xs and i = i and n = n])
    fix j assume "j = least_child lt xs i n" "2 * i + 1 < n" "lt (xs ! j) (xs ! i)" "i < j" "j < n"
      "down_heap lt xs i n = down_heap lt (Swap_heap i j xs) j n"
    then show ?thesis using less.hyps[of j "Swap_heap i j xs"] less.prems down_step[OF less.prems(1) _ less.prems(2), of j] by simp
  next
    assume stop: "down_heap lt xs i n = xs" "n \<le> 2 * i + 1 \<or> \<not> lt (xs ! least_child lt xs i n) (xs ! i)"
    have "heap_below lt xs k" if k: "0 < k" "k < n" "heap_parent k = i" for k
    proof -
      have c: "k = 2 * i + 1 \<or> k = 2 * i + 2" using k heap_parent_iff by blast
      then have "\<not> lt (xs ! least_child lt xs i n) (xs ! i)" using stop(2) k by auto
      moreover have "\<not> lt (xs ! k) (xs ! least_child lt xs i n)" by (rule least_child_least[OF k])
      ultimately show ?thesis using not_less_trans k(3) by (metis heap_below_def)
    qed
    then show ?thesis using less.prems(1) stop(1) by (auto simp: is_heap_def heap_but_down_def)
  qed
qed

theorem Push_heap_ok:
  assumes "is_heap lt xs (length xs)"
  shows "is_heap lt (Push_heap lt x xs) (length (Push_heap lt x xs)) \<and> mset (Push_heap lt x xs) = add_mset x (mset xs) \<and>
    length (Push_heap lt x xs) = Suc (length xs)"
proof -
  have "heap_but_up lt (xs @ [x]) (length xs) (Suc (length xs))"
    unfolding heap_but_up_def grandchildren_ok_def
  proof (intro conjI allI impI; elim conjE)
    fix k assume "0 < k" "k < Suc (length xs)" "k \<noteq> length xs"
    moreover from this have "heap_parent k < length xs" using heap_parent_less[of k] by simp
    ultimately show "heap_below lt (xs @ [x]) k" using assms by (simp add: is_heap_def heap_below_def nth_append)
  next
    fix k assume "0 < k" "k < Suc (length xs)" "heap_parent k = length xs"
    then show "\<not> lt ((xs @ [x]) ! k) ((xs @ [x]) ! heap_parent (length xs))" using heap_parent_less[of k] by simp
  qed
  then have "is_heap lt (up_heap lt (xs @ [x]) (length xs)) (Suc (length xs))" by (rule up_heap_ok) simp_all
  then show ?thesis using up_heap_elements[of "length xs" "xs @ [x]" lt] by (simp add: Push_heap_def Let_def)
qed

theorem Pop_heap_ok:
  assumes heap: "is_heap lt xs (length xs)" and "xs \<noteq> []" and pop: "Pop_heap lt xs = (x, rest)"
  shows "is_heap lt rest (length rest)" "mset xs = add_mset x (mset rest)" "x = xs ! 0" "\<forall>y \<in> set xs. \<not> lt y x"
    "length xs = Suc (length rest)"
proof -
  define n where "n = length xs - 1"
  have n: "length xs = Suc n" using assms(2) by (simp add: n_def)
  let ?ys = "Swap_heap 0 n xs"
  have nth: "?ys ! k = (if k = n then xs ! 0 else if k = 0 then xs ! n else xs ! k)" for k
    using n by (simp add: Swap_heap_nth)
  have but: "heap_but_down lt ?ys 0 n"
    unfolding heap_but_down_def grandchildren_ok_def
  proof (intro conjI allI impI; elim conjE)
    fix k assume k: "0 < k" "k < n" "heap_parent k \<noteq> 0"
    then have "heap_below lt xs k" using heap n by (simp add: is_heap_def)
    then show "heap_below lt ?ys k" using k heap_parent_less[OF k(1)] by (simp add: heap_below_def nth)
  qed simp
  define zs where "zs = down_heap lt ?ys 0 n"
  have zs: "length zs = Suc n" "mset zs = mset xs" "zs ! n = xs ! 0"
  proof -
    have "length zs = Suc n \<and> mset zs = mset xs \<and> zs ! n = xs ! 0"
    proof (cases n)
      case 0
      then have "zs = ?ys" by (simp add: zs_def down_heap.simps)
      then show ?thesis using n nth[of n] by (simp add: 0)
    next
      case (Suc m)
      then show ?thesis using down_heap_elements[of 0 n ?ys lt] n nth[of n] by (simp add: zs_def)
    qed
    then show "length zs = Suc n" "mset zs = mset xs" "zs ! n = xs ! 0" by simp_all
  qed
  have h: "is_heap lt zs n" unfolding zs_def by (rule down_heap_ok[OF but]) (simp add: n)
  have r: "x = zs ! n" "rest = take n zs" using pop by (simp_all add: Pop_heap_def Let_def zs_def n_def)
  have len: "length rest = n" using r zs(1) by simp
  have "heap_parent k < n" if "0 < k" "k < n" for k using heap_parent_less[OF that(1)] that by simp
  then show "is_heap lt rest (length rest)" using h r by (simp add: is_heap_def heap_below_def len)
  have "zs = take n zs @ [zs ! n]" using zs(1) by (metis lessI take_Suc_conv_app_nth take_all order_refl)
  then have "mset zs = add_mset (zs ! n) (mset (take n zs))" by (metis add_mset_add_single mset_append mset_single_iff_right union_mset_add_mset_right mset.simps)
  then show "mset xs = add_mset x (mset rest)" using zs r by simp
  show "x = xs ! 0" using zs r by simp
  then show "\<forall>y \<in> set xs. \<not> lt y x" using root_least[OF heap] by (auto simp: in_set_conv_nth)
  show "length xs = Suc (length rest)" using len n by simp
qed

end

end
