(* ===== verification/Sgwu_Reports.thy ===== *)
theory Sgwu_Reports
  imports Sgwu_Server Go_Heap
begin

text \<open>
  The downlink reports of \<^verbatim>\<open>internal/sgwu/pfcpserver/server.go\<close>: \<^verbatim>\<open>QueueDownlinkReport\<close>, which the packet loop calls, the
  loop that keeps waiting reports in a heap until they are due, and the workers that send them. The buffered channels are
  lists, a communication or a handler is one step, and the answer of the control plane to a report is an argument.
\<close>

section \<open>Data\<close>

record downlinkReport =
  dr_UPSEID :: "64 word"
  dr_PDRID :: "16 word"
  dr_QCI :: byte
  dr_ARP :: byte
  dr_NotBefore :: int
  dr_Sequence :: "64 word"

definition Less_report :: "downlinkReport \<Rightarrow> downlinkReport \<Rightarrow> bool" where
  "Less_report a b =
     (if dr_NotBefore a \<noteq> dr_NotBefore b then dr_NotBefore a < dr_NotBefore b
      else let aIMS = dr_QCI a = 5; bIMS = dr_QCI b = 5 in
        if aIMS \<noteq> bIMS then aIMS
        else if dr_ARP a \<noteq> dr_ARP b then
          (if dr_ARP a = 0 then False else if dr_ARP b = 0 then True else dr_ARP a < dr_ARP b)
        else dr_Sequence a < dr_Sequence b)"

text \<open>A report a worker is sending: the request, with its destination and the SEID the answer must carry, if the session
  and its owner were found.\<close>

type_synonym sending = "downlinkReport \<times> (AddrPort \<times> 64 word \<times> pfcp_message) option"

record Reports_sgwu =
  rq_server :: Server_sgwu
  rq_reports :: "downlinkReport list"
  rq_queue :: "downlinkReport list"
  rq_ready :: "downlinkReport list"
  rq_sending :: "sending list"
  rq_pending :: int
  rq_sequence :: "64 word"
  rq_queued :: "64 word"
  rq_sent :: "64 word"
  rq_failed :: "64 word"
  rq_suppressed :: "64 word"
  rq_dropped :: "64 word"

definition report_start :: "Server_sgwu \<Rightarrow> Reports_sgwu" where
  "report_start s = \<lparr>rq_server = s, rq_reports = [], rq_queue = [], rq_ready = [], rq_sending = [], rq_pending = 0,
     rq_sequence = 0, rq_queued = 0, rq_sent = 0, rq_failed = 0, rq_suppressed = 0, rq_dropped = 0\<rparr>"

section \<open>Operations\<close>

text \<open>\<^verbatim>\<open>reportNotBefore[key].After(now)\<close>; a missing entry is the zero time.\<close>

definition suppressed :: "int \<Rightarrow> 64 word \<Rightarrow> 16 word \<Rightarrow> Server_sgwu \<Rightarrow> bool" where
  "suppressed now upSEID pdrID s \<longleftrightarrow> now < (case sv_reportNotBefore s (upSEID, pdrID) of None \<Rightarrow> 0 | Some t \<Rightarrow> t)"

definition QueueDownlinkReport ::
  "ServerConfig \<Rightarrow> int \<Rightarrow> 64 word \<Rightarrow> 16 word \<Rightarrow> byte \<Rightarrow> byte \<Rightarrow> int \<Rightarrow> Reports_sgwu \<Rightarrow> bool \<times> Reports_sgwu" where
  "QueueDownlinkReport config now upSEID pdrID qci arp delay q =
     (if upSEID = 0 \<or> pdrID = 0 then (False, q)
      else if sv_sessionOwner (rq_server q) upSEID = None then (False, q)
      else if qci \<noteq> 5 \<and> suppressed now upSEID pdrID (rq_server q) then (False, q\<lparr>rq_suppressed := rq_suppressed q + 1\<rparr>)
      else if rq_pending q \<ge> sc_ReportQueueSize config then (False, q\<lparr>rq_dropped := rq_dropped q + 1\<rparr>)
      else
        let q = q\<lparr>rq_pending := rq_pending q + 1, rq_sequence := rq_sequence q + 1\<rparr>;
            report = \<lparr>dr_UPSEID = upSEID, dr_PDRID = pdrID, dr_QCI = qci, dr_ARP = arp, dr_NotBefore = now + delay,
              dr_Sequence = rq_sequence q\<rparr>
        in if int (length (rq_reports q)) < sc_ReportQueueSize config then
             let q = q\<lparr>rq_reports := rq_reports q @ [report]\<rparr>;
                 s = rq_server q;
                 q = (if qci \<noteq> 5 then q\<lparr>rq_server := s\<lparr>sv_reportNotBefore :=
                   (sv_reportNotBefore s)((upSEID, pdrID) \<mapsto> now + sc_ReportSuppression config)\<rparr>\<rparr> else q)
             in (True, q\<lparr>rq_queued := rq_queued q + 1\<rparr>)
           else (False, q\<lparr>rq_pending := rq_pending q - 1, rq_dropped := rq_dropped q + 1\<rparr>))"

text \<open>The cases of the select statement of \<^verbatim>\<open>reportLoop\<close>: a report arrives, or the first waiting report is due and is
  passed on. A case that is not enabled is \<open>None\<close>.\<close>

definition loop_receive :: "Reports_sgwu \<Rightarrow> Reports_sgwu option" where
  "loop_receive q = (case rq_reports q of [] \<Rightarrow> None
     | report # rest \<Rightarrow> Some (q\<lparr>rq_reports := rest, rq_queue := Push_heap Less_report report (rq_queue q)\<rparr>))"

definition loop_ready :: "ServerConfig \<Rightarrow> int \<Rightarrow> Reports_sgwu \<Rightarrow> Reports_sgwu option" where
  "loop_ready config now q =
     (if rq_queue q = [] then None
      else let nxt = rq_queue q ! 0 in
        if dr_NotBefore nxt \<le> now \<and> int (length (rq_ready q)) < sc_ReportQueueSize config
        then Some (q\<lparr>rq_ready := rq_ready q @ [nxt], rq_queue := snd (Pop_heap Less_report (rq_queue q))\<rparr>)
        else None)"

text \<open>\<^verbatim>\<open>sendDownlinkReport\<close> up to the exchange, and what it makes of the answer (\<open>None\<close> for an error of the exchange).\<close>

definition downlink_request :: "Server_sgwu \<Rightarrow> downlinkReport \<Rightarrow> (AddrPort \<times> 64 word \<times> pfcp_message) option" where
  "downlink_request s report = (case FindByUPSEID_sgwu (sv_store s) (dr_UPSEID report) of None \<Rightarrow> None
     | Some current \<Rightarrow> (case sv_sessionOwner s (dr_UPSEID report) of None \<Rightarrow> None
         | Some owner \<Rightarrow> (case NewGroupedIE_pfcp IEDownlinkDataReport [built (NewPDRIDIE (dr_PDRID report))] of
             Ok downlink \<Rightarrow> Some (owner, su_UPSEID current, response MessageSessionReportRequest True (su_CPSEID current)
               [built (NewReportTypeIE ReportDownlinkData), downlink])
           | _ \<Rightarrow> None)))"

definition report_delivered :: "sending \<Rightarrow> pfcp_message option \<Rightarrow> bool" where
  "report_delivered report result = (case (snd report, result) of
     (Some (_, upSEID, _), Some m) \<Rightarrow> x_HasSEID (pmsg_Header m) \<and> x_SEID (pmsg_Header m) = upSEID \<and>
       (case Find_pfcp m IECause_pfcp of None \<Rightarrow> False | Some ie \<Rightarrow> Cause_IE_pfcp ie = Ok CauseRequestAccepted)
   | _ \<Rightarrow> False)"

text \<open>The four workers: one takes a report, and later ends with it.\<close>

definition worker_take :: "Reports_sgwu \<Rightarrow> Reports_sgwu option" where
  "worker_take q = (case rq_ready q of [] \<Rightarrow> None
     | report # rest \<Rightarrow> if length (rq_sending q) < 4
         then Some (q\<lparr>rq_ready := rest, rq_sending := rq_sending q @ [(report, downlink_request (rq_server q) report)]\<rparr>)
         else None)"

definition worker_done :: "nat \<Rightarrow> pfcp_message option \<Rightarrow> Reports_sgwu \<Rightarrow> Reports_sgwu option" where
  "worker_done i result q =
     (if i < length (rq_sending q) then
        let q' = (if report_delivered (rq_sending q ! i) result then q\<lparr>rq_sent := rq_sent q + 1\<rparr>
                  else q\<lparr>rq_failed := rq_failed q + 1\<rparr>)
        in Some (q'\<lparr>rq_sending := take i (rq_sending q) @ drop (Suc i) (rq_sending q), rq_pending := rq_pending q - 1\<rparr>)
      else None)"

section \<open>The order of reports\<close>

definition report_key :: "downlinkReport \<Rightarrow> int \<times> nat \<times> nat \<times> nat" where
  "report_key r = (dr_NotBefore r, if dr_QCI r = 5 then 0 else 1, if dr_ARP r = 0 then 256 else unat (dr_ARP r),
     unat (dr_Sequence r))"

lemma arp_below: "unat (a :: byte) < 256"
  using unsigned_less[of a, where ?'a = nat] by simp

lemma Less_report_key: "Less_report a b \<longleftrightarrow> report_key a < report_key b"
proof -
  have "dr_ARP a = dr_ARP b \<longleftrightarrow> (if dr_ARP a = 0 then 256 else unat (dr_ARP a)) = (if dr_ARP b = 0 then 256 else unat (dr_ARP b))"
    using arp_below[of "dr_ARP a"] arp_below[of "dr_ARP b"] by (auto dest: unsigned_word_eqI[where 'a = nat])
  then show ?thesis using arp_below[of "dr_ARP a"] arp_below[of "dr_ARP b"]
    by (auto simp: Less_report_def report_key_def less_prod_def Let_def word_less_nat_alt)
qed

interpretation reportHeap: heap_order Less_report
  by unfold_locales (auto simp: Less_report_key)

section \<open>Runs\<close>

text \<open>The queue with the server under it: the packet loop queues reports, the report loop and the workers make their
  steps, and the server handles requests and sweeps, in any order.\<close>

inductive reports_reach :: "ServerConfig \<Rightarrow> Reports_sgwu \<Rightarrow> bool" for config where
  reports_start: "reports_reach config (report_start s)"
| reports_queue: "reports_reach config q \<Longrightarrow>
    reports_reach config (snd (QueueDownlinkReport config now upSEID pdrID qci arp delay q))"
| reports_receive: "reports_reach config q \<Longrightarrow> loop_receive q = Some q' \<Longrightarrow> reports_reach config q'"
| reports_ready: "reports_reach config q \<Longrightarrow> loop_ready config now q = Some q' \<Longrightarrow> reports_reach config q'"
| reports_take: "reports_reach config q \<Longrightarrow> worker_take q = Some q' \<Longrightarrow> reports_reach config q'"
| reports_done: "reports_reach config q \<Longrightarrow> worker_done i result q = Some q' \<Longrightarrow> reports_reach config q'"
| reports_server: "reports_reach config q \<Longrightarrow> reports_reach config (q\<lparr>rq_server := s\<rparr>)"

definition waiting :: "Reports_sgwu \<Rightarrow> nat" where
  "waiting q = length (rq_reports q) + length (rq_queue q) + length (rq_ready q) + length (rq_sending q)"

definition reports_ok :: "ServerConfig \<Rightarrow> Reports_sgwu \<Rightarrow> bool" where
  "reports_ok config q \<longleftrightarrow> rq_pending q = int (waiting q) \<and> rq_pending q \<le> max 0 (sc_ReportQueueSize config) \<and>
     is_heap Less_report (rq_queue q) (length (rq_queue q)) \<and> length (rq_sending q) \<le> 4"

lemma QueueDownlinkReport_fields:
  assumes "reports_ok config q" "QueueDownlinkReport config now upSEID pdrID qci arp delay q = (r, q')"
  shows "reports_ok config q' \<and> waiting q' = waiting q + (if r then 1 else 0)"
  using assms
  by (auto simp: QueueDownlinkReport_def reports_ok_def waiting_def Let_def split: if_splits)

lemma loop_receive_ok:
  assumes "reports_ok config q" "loop_receive q = Some q'"
  shows "reports_ok config q' \<and> waiting q' = waiting q"
proof -
  obtain r rs where r: "rq_reports q = r # rs"
    "q' = q\<lparr>rq_reports := rs, rq_queue := Push_heap Less_report r (rq_queue q)\<rparr>"
    using assms(2) by (auto simp: loop_receive_def split: list.splits)
  then show ?thesis using assms(1) reportHeap.Push_heap_ok[of "rq_queue q" r] by (auto simp: reports_ok_def waiting_def)
qed

lemma loop_ready_ok:
  assumes "reports_ok config q" "loop_ready config now q = Some q'"
  shows "reports_ok config q' \<and> waiting q' = waiting q"
proof -
  obtain x rest where pop: "Pop_heap Less_report (rq_queue q) = (x, rest)" by fastforce
  have q': "rq_queue q \<noteq> []" "q' = q\<lparr>rq_ready := rq_ready q @ [rq_queue q ! 0], rq_queue := rest\<rparr>"
    using assms(2) pop by (auto simp: loop_ready_def Let_def split: if_splits)
  have "is_heap Less_report (rq_queue q) (length (rq_queue q))" using assms(1) by (simp add: reports_ok_def)
  note p = reportHeap.Pop_heap_ok[OF this q'(1) pop]
  show ?thesis using assms(1) p(1,5) q'(2) by (simp add: reports_ok_def waiting_def)
qed

lemma worker_ok:
  "reports_ok config q \<Longrightarrow> worker_take q = Some q' \<Longrightarrow> reports_ok config q' \<and> waiting q' = waiting q"
  "reports_ok config q \<Longrightarrow> worker_done i result q = Some q' \<Longrightarrow> reports_ok config q' \<and> waiting q = waiting q' + 1"
  by (auto simp: worker_take_def worker_done_def reports_ok_def waiting_def Let_def split: list.splits if_splits)

lemma reports_reach_ok: "reports_reach config q \<Longrightarrow> reports_ok config q"
proof (induction rule: reports_reach.induct)
  case (reports_queue q now upSEID pdrID qci arp delay)
  then show ?case
    using QueueDownlinkReport_fields[of config q now upSEID pdrID qci arp delay]
    by (cases "QueueDownlinkReport config now upSEID pdrID qci arp delay q") simp
next
  case (reports_start s)
  show ?case by (simp add: reports_ok_def waiting_def report_start_def is_heap_def)
next
  case (reports_server q s)
  then show ?case by (simp add: reports_ok_def waiting_def)
qed (use loop_receive_ok loop_ready_ok worker_ok in blast)+

section \<open>Properties\<close>

text \<open>C38: (bounds) The number of reports in the two channels, in the heap and with the workers is the counter of pending reports and
  never exceeds the configured queue size, so that a report is accepted exactly when its session is known, it is not
  suppressed (signalling bearers, QCI 5, never are) and fewer reports than that are pending: the channel itself never
  refuses a report.\<close>

theorem report_queue_exact:
  assumes "reports_reach config q" "0 < sc_ReportQueueSize config"
  shows "rq_pending q = int (length (rq_reports q) + length (rq_queue q) + length (rq_ready q) + length (rq_sending q)) \<and>
    rq_pending q \<le> sc_ReportQueueSize config \<and> length (rq_sending q) \<le> 4 \<and>
    (fst (QueueDownlinkReport config now upSEID pdrID qci arp delay q) \<longleftrightarrow>
      upSEID \<noteq> 0 \<and> pdrID \<noteq> 0 \<and> sv_sessionOwner (rq_server q) upSEID \<noteq> None \<and>
      (qci = 5 \<or> \<not> suppressed now upSEID pdrID (rq_server q)) \<and> rq_pending q < sc_ReportQueueSize config)"
proof -
  have ok: "rq_pending q = int (waiting q)" "rq_pending q \<le> sc_ReportQueueSize config" "length (rq_sending q) \<le> 4"
    using reports_reach_ok[OF assms(1)] assms(2) by (simp_all add: reports_ok_def)
  have room: "int (length (rq_reports q)) < sc_ReportQueueSize config" if "rq_pending q < sc_ReportQueueSize config"
    using that ok(1) by (simp add: waiting_def)
  have "fst (QueueDownlinkReport config now upSEID pdrID qci arp delay q) \<longleftrightarrow>
      upSEID \<noteq> 0 \<and> pdrID \<noteq> 0 \<and> sv_sessionOwner (rq_server q) upSEID \<noteq> None \<and>
      (qci = 5 \<or> \<not> suppressed now upSEID pdrID (rq_server q)) \<and> rq_pending q < sc_ReportQueueSize config"
    using room by (auto simp: QueueDownlinkReport_def Let_def not_le)
  with ok show ?thesis by (simp add: waiting_def)
qed

text \<open>C39: (functional) Reports leave the queue in order: when the loop passes a report on, it is due, no waiting report precedes it
  in the order (due time, then QCI 5, then ARP priority with zero last, then arrival), and the others stay waiting.\<close>

theorem reports_leave_in_order:
  assumes "reports_reach config q" "loop_ready config now q = Some q'"
  shows "\<exists>r. rq_ready q' = rq_ready q @ [r] \<and> dr_NotBefore r \<le> now \<and> (\<forall>x \<in> set (rq_queue q). report_key r \<le> report_key x) \<and>
    mset (rq_queue q) = add_mset r (mset (rq_queue q'))"
proof -
  obtain x rest where pop: "Pop_heap Less_report (rq_queue q) = (x, rest)" by fastforce
  have q': "rq_queue q \<noteq> []" "q' = q\<lparr>rq_ready := rq_ready q @ [rq_queue q ! 0], rq_queue := rest\<rparr>"
    "dr_NotBefore (rq_queue q ! 0) \<le> now"
    using assms(2) pop by (auto simp: loop_ready_def Let_def split: if_splits)
  have "is_heap Less_report (rq_queue q) (length (rq_queue q))" using reports_reach_ok[OF assms(1)] by (simp add: reports_ok_def)
  note p = reportHeap.Pop_heap_ok[OF this q'(1) pop]
  show ?thesis using p(2-4) q' by (intro exI[of _ x]) (auto simp: Less_report_key not_less)
qed

section \<open>A sample queue\<close>

definition sample_report_config :: ServerConfig where
  "sample_report_config = \<lparr>sc_Listen = (Addr4 1, 8805), sc_Advertise = Addr4 1, sc_AccessUserIP = Addr4 1,
     sc_CoreUserIP = Addr4 1, sc_AllowedCP = [Addr4 2], sc_StartedAt = 1, sc_ReportQueueSize = 4,
     sc_ReportSuppression = 10 ^ 9, sc_ReportTimeout = 5 * 10 ^ 9, sc_AssociationTimeout = 0, sc_GraceWindow = 0,
     sc_EnterpriseID = 0\<rparr>"

definition sample_report_server :: Server_sgwu where
  "sample_report_server = \<lparr>sv_store = NewStoreWithLimit_sgwu 4,
     sv_associations = \<lparr>mg_records = Map.empty, mg_timeout = 1, mg_graceWindow = 1\<rparr>,
     sv_sessionOwner = [5 \<mapsto> (Addr4 2, 8805)], sv_reconcilePending = Map.empty, sv_reportNotBefore = Map.empty,
     sv_counters = zero_counters, sv_notified = []\<rparr>"

text \<open>A report of a normal bearer, then one of a signalling bearer at the same instant.\<close>

definition sample_queued :: Reports_sgwu where
  "sample_queued = snd (QueueDownlinkReport sample_report_config 10 5 2 5 0 0
     (snd (QueueDownlinkReport sample_report_config 10 5 1 9 1 0 (report_start sample_report_server))))"

lemma sample_queued_reach: "reports_reach sample_report_config sample_queued"
  unfolding sample_queued_def by (intro reports_queue reports_start)

definition normal_report :: downlinkReport where
  "normal_report = \<lparr>dr_UPSEID = 5, dr_PDRID = 1, dr_QCI = 9, dr_ARP = 1, dr_NotBefore = 10, dr_Sequence = 1\<rparr>"

definition signalling_report :: downlinkReport where
  "signalling_report = \<lparr>dr_UPSEID = 5, dr_PDRID = 2, dr_QCI = 5, dr_ARP = 0, dr_NotBefore = 10, dr_Sequence = 2\<rparr>"

lemma sample_queued_value:
  "rq_reports sample_queued = [normal_report, signalling_report]" "rq_queue sample_queued = []" "rq_ready sample_queued = []"
  "rq_sending sample_queued = []" "rq_pending sample_queued = 2"
  "sv_sessionOwner (rq_server sample_queued) = [5 \<mapsto> (Addr4 2, 8805)]"
  "suppressed 11 5 1 (rq_server sample_queued)"
  by (simp_all add: sample_queued_def QueueDownlinkReport_def report_start_def sample_report_server_def suppressed_def
    sample_report_config_def normal_report_def signalling_report_def Let_def)

theorem report_queue_exact_witness:
  "rq_pending sample_queued = 2 \<and> \<not> fst (QueueDownlinkReport sample_report_config 11 5 1 9 1 0 sample_queued) \<and>
   fst (QueueDownlinkReport sample_report_config 11 5 2 5 0 0 sample_queued)"
proof -
  have "0 < sc_ReportQueueSize sample_report_config" "sc_ReportQueueSize sample_report_config = 4"
    by (simp_all add: sample_report_config_def)
  then show ?thesis
    using report_queue_exact[OF sample_queued_reach, of 11 5 1 9 1 0] report_queue_exact[OF sample_queued_reach, of 11 5 2 5 0 0]
    by (simp add: sample_queued_value)
qed

definition sample_received :: Reports_sgwu where
  "sample_received = the (loop_receive (the (loop_receive sample_queued)))"

lemma sample_received_value:
  "rq_queue sample_received = [signalling_report, normal_report]" "rq_ready sample_received = []"
  "reports_reach sample_report_config sample_received"
proof -
  have less: "Less_report signalling_report normal_report" "signalling_report \<noteq> normal_report"
    by (simp_all add: Less_report_def signalling_report_def normal_report_def)
  obtain q1 where q1: "loop_receive sample_queued = Some q1" "rq_reports q1 = [signalling_report]"
    "rq_queue q1 = [normal_report]" "rq_ready q1 = []"
    by (simp add: loop_receive_def sample_queued_value Push_heap_def up_heap.simps heap_parent_def)
  obtain q2 where q2: "loop_receive q1 = Some q2" "rq_queue q2 = [signalling_report, normal_report]" "rq_ready q2 = []"
    by (simp add: loop_receive_def q1 Push_heap_def up_heap.simps heap_parent_def Swap_heap_def less)
  show "rq_queue sample_received = [signalling_report, normal_report]" "rq_ready sample_received = []"
    "reports_reach sample_report_config sample_received"
    using q1 q2 reports_receive[OF reports_receive[OF sample_queued_reach q1(1)] q2(1)] by (simp_all add: sample_received_def)
qed

theorem reports_leave_in_order_witness:
  "\<exists>q'. loop_ready sample_report_config 10 sample_received = Some q' \<and> rq_ready q' = [signalling_report] \<and>
     mset (rq_queue q') = {#normal_report#}"
proof -
  obtain q' where q': "loop_ready sample_report_config 10 sample_received = Some q'"
    by (simp add: loop_ready_def sample_received_value sample_report_config_def signalling_report_def Let_def)
  then obtain r where r: "rq_ready q' = [r]" "mset (rq_queue sample_received) = add_mset r (mset (rq_queue q'))"
    "\<forall>x \<in> set (rq_queue sample_received). report_key r \<le> report_key x"
    using reports_leave_in_order[OF sample_received_value(3) q'] sample_received_value(2) by auto
  have "report_key signalling_report < report_key normal_report"
    by (simp add: report_key_def signalling_report_def normal_report_def less_prod_def)
  moreover have "r \<in># mset [signalling_report, normal_report]" using r(2) sample_received_value(1) by simp
  ultimately have "r = signalling_report" using r(3) sample_received_value(1) by auto
  then show ?thesis using q' r sample_received_value(1) by auto
qed

end
