(* ===== verification/Sha256.thy ===== *)
theory Sha256
  imports Cups_Prelude
begin

unbundle bit_operations_syntax

text \<open>
  \<^verbatim>\<open>Sum256\<close> of Go's standard package \<^verbatim>\<open>crypto/sha256\<close>, which the user-plane selector uses to break ties: the hash of
  FIPS 180-4, on lists of octets.
\<close>

text \<open>The constants of the standard, in decimal.\<close>

definition sha256_K :: "32 word list" where
  "sha256_K =
    [1116352408, 1899447441, 3049323471, 3921009573, 961987163, 1508970993, 2453635748, 2870763221,
     3624381080, 310598401, 607225278, 1426881987, 1925078388, 2162078206, 2614888103, 3248222580,
     3835390401, 4022224774, 264347078, 604807628, 770255983, 1249150122, 1555081692, 1996064986,
     2554220882, 2821834349, 2952996808, 3210313671, 3336571891, 3584528711, 113926993, 338241895,
     666307205, 773529912, 1294757372, 1396182291, 1695183700, 1986661051, 2177026350, 2456956037,
     2730485921, 2820302411, 3259730800, 3345764771, 3516065817, 3600352804, 4094571909, 275423344,
     430227734, 506948616, 659060556, 883997877, 958139571, 1322822218, 1537002063, 1747873779,
     1955562222, 2024104815, 2227730452, 2361852424, 2428436474, 2756734187, 3204031479, 3329325298]"

definition sha256_H0 :: "32 word list" where
  "sha256_H0 = [1779033703, 3144134277, 1013904242, 2773480762, 1359893119, 2600822924, 528734635, 1541459225]"

text \<open>The message, a one bit, zeros, and the length in bits as a 64-bit integer: a multiple of 64 octets.\<close>

definition sha256_pad :: "byte list \<Rightarrow> byte list" where
  "sha256_pad m = m @ 0x80 # replicate ((119 - length m mod 64) mod 64) 0 @ put64 (of_nat (8 * length m))"

definition rotr32 :: "nat \<Rightarrow> 32 word \<Rightarrow> 32 word" where
  "rotr32 n w = drop_bit n w OR push_bit (32 - n) w"

definition sha_sigma0 :: "32 word \<Rightarrow> 32 word" where
  "sha_sigma0 x = rotr32 7 x XOR rotr32 18 x XOR drop_bit 3 x"

definition sha_sigma1 :: "32 word \<Rightarrow> 32 word" where
  "sha_sigma1 x = rotr32 17 x XOR rotr32 19 x XOR drop_bit 10 x"

definition sha_Sigma0 :: "32 word \<Rightarrow> 32 word" where
  "sha_Sigma0 x = rotr32 2 x XOR rotr32 13 x XOR rotr32 22 x"

definition sha_Sigma1 :: "32 word \<Rightarrow> 32 word" where
  "sha_Sigma1 x = rotr32 6 x XOR rotr32 11 x XOR rotr32 25 x"

fun sha_words :: "byte list \<Rightarrow> 32 word list" where
  "sha_words (a # b # c # d # rest) = be32 a b c d # sha_words rest"
| "sha_words _ = []"

text \<open>The message schedule, newest word first: each further word is made of those 2, 7, 15 and 16 places before it.\<close>

fun sha_extend :: "nat \<Rightarrow> 32 word list \<Rightarrow> 32 word list" where
  "sha_extend 0 ws = ws"
| "sha_extend (Suc n) ws = sha_extend n ((sha_sigma1 (ws ! 1) + ws ! 6 + sha_sigma0 (ws ! 14) + ws ! 15) # ws)"

definition sha_schedule :: "byte list \<Rightarrow> 32 word list" where
  "sha_schedule block = rev (sha_extend 48 (rev (sha_words block)))"

definition sha_turn :: "32 word \<Rightarrow> 32 word \<Rightarrow> 32 word list \<Rightarrow> 32 word list" where
  "sha_turn t1 t2 v = (case v of [a, b, c, d, e, f, g, h] \<Rightarrow> [t1 + t2, a, b, c, d + t1, e, f, g] | _ \<Rightarrow> v)"

fun sha_t1 :: "32 word \<Rightarrow> 32 word list \<Rightarrow> 32 word" where
  "sha_t1 kw [a, b, c, d, e, f, g, h] = h + sha_Sigma1 e + ((e AND f) XOR (NOT e AND g)) + kw"
| "sha_t1 kw _ = 0"

fun sha_t2 :: "32 word list \<Rightarrow> 32 word" where
  "sha_t2 [a, b, c, d, e, f, g, h] = sha_Sigma0 a + ((a AND b) XOR (a AND c) XOR (b AND c))"
| "sha_t2 _ = 0"

fun sha_rounds :: "(32 word \<times> 32 word) list \<Rightarrow> 32 word list \<Rightarrow> 32 word list" where
  "sha_rounds [] v = v"
| "sha_rounds ((k, w) # kws) v = sha_rounds kws (sha_turn (sha_t1 (k + w) v) (sha_t2 v) v)"

definition sha_block :: "32 word list \<Rightarrow> byte list \<Rightarrow> 32 word list" where
  "sha_block h block = map2 (+) h (sha_rounds (zip sha256_K (sha_schedule block)) h)"

function sha_blocks :: "32 word list \<Rightarrow> byte list \<Rightarrow> 32 word list" where
  "sha_blocks h m = (if length m < 64 then h else sha_blocks (sha_block h (take 64 m)) (drop 64 m))"
  by pat_completeness auto
termination by (relation "measure (\<lambda>(h, m). length m)") auto

declare sha_blocks.simps [simp del]

definition Sum256 :: "byte list \<Rightarrow> byte list" where
  "Sum256 m = concat (map put32 (sha_blocks sha256_H0 (sha256_pad m)))"

text \<open>The padded message consists of whole blocks, so the hash covers all of it; the digest has 32 octets.\<close>

lemma sha256_pad_blocks: "64 dvd length (sha256_pad m)"
proof -
  define q r where "q = length m div 64" and "r = length m mod 64"
  then have m: "length m = 64 * q + r" and r: "r < 64" by simp_all
  have "(119 - r) mod 64 = (if r \<le> 55 then 55 - r else 119 - r)" using r by (simp add: mod_if)
  then have "length (sha256_pad m) = 64 * (if r \<le> 55 then q + 1 else q + 2)"
    using m r unfolding sha256_pad_def r_def[symmetric] by simp
  then show ?thesis by simp
qed

lemma length_sha_rounds: "length v = 8 \<Longrightarrow> length (sha_rounds kws v) = 8"
  by (induction kws v rule: sha_rounds.induct) (auto simp: sha_turn_def split: list.split)

lemma length_sha_blocks: "length h = 8 \<Longrightarrow> length (sha_blocks h m) = 8"
proof (induction h m rule: sha_blocks.induct)
  case (1 h m)
  then show ?case by (subst sha_blocks.simps) (auto simp: sha_block_def length_sha_rounds)
qed

lemma length_Sum256: "length (Sum256 m) = 32"
proof -
  have "length (concat (map put32 ws)) = 4 * length ws" for ws by (induction ws) auto
  then show ?thesis by (simp add: Sum256_def length_sha_blocks sha256_H0_def)
qed

end
