(* ===== verification/Userplane_Selector.thy ===== *)
theory Userplane_Selector
  imports Complex_Main Go_Strings Sha256 "HOL-Library.List_Lexorder" "HOL-Library.Product_Lexorder"
begin

text \<open>
  The user-plane selector, \<^verbatim>\<open>internal/userplane/selector.go\<close>: it places sessions on user-plane nodes, keeps one sticky
  assignment per key and counts the assignments of each node. Every operation holds the selector's lock, so operations
  are atomic steps. The map of nodes holds pointers to node states that nothing else refers to; here it holds the node
  states themselves, and a write through the pointer is an update of the map. Go iterates over a map in an order of its
  own choice: the operations that iterate take the order as an argument, a list of the keys.
\<close>

section \<open>Data\<close>

definition maxNodes :: nat where "maxNodes = 256"
definition maxNodeCapacity :: "64 word" where "maxNodeCapacity = 100000000"
definition maxAssignmentKey :: nat where "maxAssignmentKey = 256"
definition maxPlacementLabel :: nat where "maxPlacementLabel = 63"

text \<open>\<open>OtherError_sel\<close> stands for the errors made on the spot by \<^verbatim>\<open>errors.New\<close> and \<^verbatim>\<open>fmt.Errorf\<close>.\<close>

datatype selector_error = ErrNoEligibleNode | ErrCapacity_sel | ErrUnknownNode | ErrUnknownAssignment
  | ErrAssignmentMismatch | ErrNodeInUse | OtherError_sel | AccountingMismatch

definition StateReady :: gostring where "StateReady = str ''ready''"
definition StateDraining :: gostring where "StateDraining = str ''draining''"
definition StateUnavailable :: gostring where "StateUnavailable = str ''unavailable''"

record Node =
  nd_ID :: gostring
  nd_Region :: gostring
  nd_Capacity :: "64 word"
  nd_State :: gostring
  nd_Generation :: "64 word"

record Request_sel =
  rq_Key :: gostring
  rq_PreferredRegion :: gostring
  rq_AllowRegionFallback :: bool

record Assignment =
  as_Key :: gostring
  as_NodeID :: gostring
  as_Region :: gostring
  as_Generation :: "64 word"

record NodeSnapshot =
  ns_ID :: gostring
  ns_Region :: gostring
  ns_State :: gostring
  ns_Capacity :: "64 word"
  ns_Assignments :: "64 word"
  ns_Available :: "64 word"
  ns_OverCapacity :: bool
  ns_Generation :: "64 word"

record Stats_sel =
  sx_Assignments :: "64 word"
  sx_PlacementAttempts :: "64 word"
  sx_PlacementAccepted :: "64 word"
  sx_StickyHits :: "64 word"
  sx_RegionFallbacks :: "64 word"
  sx_NoEligibleRejects :: "64 word"
  sx_CapacityRejects :: "64 word"
  sx_Restored :: "64 word"
  sx_Released :: "64 word"

definition zero_stats :: Stats_sel where
  "zero_stats = \<lparr>sx_Assignments = 0, sx_PlacementAttempts = 0, sx_PlacementAccepted = 0, sx_StickyHits = 0,
     sx_RegionFallbacks = 0, sx_NoEligibleRejects = 0, sx_CapacityRejects = 0, sx_Restored = 0, sx_Released = 0\<rparr>"

record nodeState =
  nst_node :: Node
  nst_used :: "64 word"

record Selector =
  sl_nodes :: "gostring \<rightharpoonup> nodeState"
  sl_assignments :: "gostring \<rightharpoonup> gostring"
  sl_maxAssignments :: "64 word"
  sl_stats :: Stats_sel

section \<open>Validation\<close>

definition validState :: "gostring \<Rightarrow> bool" where
  "validState state \<longleftrightarrow> state = StateReady \<or> state = StateDraining \<or> state = StateUnavailable"

text \<open>The loop of \<^verbatim>\<open>validLabel\<close> visits runes; a string with an octet above \<^verbatim>\<open>0x7f\<close> has a rune it refuses.\<close>

definition label_character :: "byte \<Rightarrow> bool" where
  "label_character c \<longleftrightarrow> 0x61 \<le> c \<and> c \<le> 0x7a \<or> 0x30 \<le> c \<and> c \<le> 0x39 \<or> c = 0x2d"

definition validLabel :: "gostring \<Rightarrow> bool" where
  "validLabel v \<longleftrightarrow> \<not> (length v = 0 \<or> length v > maxPlacementLabel \<or> hd v = 0x2d \<or> last v = 0x2d) \<and>
     list_all label_character v"

definition validateKey :: "gostring \<Rightarrow> (selector_error, unit) outcome" where
  "validateKey key = (if TrimSpace key \<noteq> key \<or> key = [] \<or> length key > maxAssignmentKey then Err OtherError_sel else Ok ())"

definition validateRequest :: "Request_sel \<Rightarrow> (selector_error, unit) outcome" where
  "validateRequest request = andThen (validateKey (rq_Key request)) (\<lambda>_.
     if rq_PreferredRegion request \<noteq> [] \<and> \<not> validLabel (rq_PreferredRegion request) then Err OtherError_sel else Ok ())"

definition validateNode :: "Node \<Rightarrow> (selector_error, unit) outcome" where
  "validateNode node =
     (if \<not> validLabel (nd_ID node) then Err OtherError_sel
      else if \<not> validLabel (nd_Region node) then Err OtherError_sel
      else if nd_Capacity node = 0 \<or> nd_Capacity node > maxNodeCapacity then Err OtherError_sel
      else if \<not> validState (nd_State node) then Err OtherError_sel
      else Ok ())"

section \<open>Construction\<close>

fun add_nodes :: "Node list \<Rightarrow> (gostring \<rightharpoonup> nodeState) \<Rightarrow> (selector_error, gostring \<rightharpoonup> nodeState) outcome" where
  "add_nodes [] m = Ok m"
| "add_nodes (node # nodes) m = andThen (validateNode node) (\<lambda>_.
     if m (nd_ID node) \<noteq> None then Err OtherError_sel
     else add_nodes nodes (m(nd_ID node \<mapsto> \<lparr>nst_node = node, nst_used = 0\<rparr>)))"

definition New_selector :: "Node list \<Rightarrow> 64 word \<Rightarrow> (selector_error, Selector) outcome" where
  "New_selector nodes maxAssignments =
     (if length nodes = 0 \<or> length nodes > maxNodes then Err OtherError_sel
      else if maxAssignments = 0 \<or> maxAssignments > maxNodeCapacity * 256 then Err OtherError_sel
      else andThen (add_nodes nodes Map.empty) (\<lambda>m.
        Ok \<lparr>sl_nodes = m, sl_assignments = Map.empty, sl_maxAssignments = maxAssignments, sl_stats = zero_stats\<rparr>))"

section \<open>Placement\<close>

definition assignment :: "gostring \<Rightarrow> Node \<Rightarrow> Assignment" where
  "assignment key node = \<lparr>as_Key = key, as_NodeID = nd_ID node, as_Region = nd_Region node, as_Generation = nd_Generation node\<rparr>"

text \<open>The first eight octets of a hash of the key and the node's identity.\<close>

definition rendezvousScore :: "gostring \<Rightarrow> gostring \<Rightarrow> 64 word" where
  "rendezvousScore key nodeID = be_fold (take 8 (Sum256 (key @ [0] @ nodeID)))"

definition prefer_node :: "nodeState \<Rightarrow> nodeState \<Rightarrow> gostring \<Rightarrow> bool" where
  "prefer_node candidate current key =
     (let left = nst_used candidate * nd_Capacity (nst_node current);
          right = nst_used current * nd_Capacity (nst_node candidate) in
      if left \<noteq> right then left < right
      else rendezvousScore key (nd_ID (nst_node candidate)) > rendezvousScore key (nd_ID (nst_node current)))"

text \<open>The loop of \<^verbatim>\<open>candidates\<close> over the nodes in the given order.\<close>

fun candidates :: "gostring list \<Rightarrow> gostring \<Rightarrow> (gostring \<rightharpoonup> nodeState) \<Rightarrow> nodeState list \<times> bool \<times> bool" where
  "candidates [] region nodes = ([], False, False)"
| "candidates (nid # order) region nodes =
     (case nodes nid of None \<Rightarrow> candidates order region nodes
      | Some node \<Rightarrow>
        if nd_State (nst_node node) \<noteq> StateReady \<or> region \<noteq> [] \<and> nd_Region (nst_node node) \<noteq> region
        then candidates order region nodes
        else (case candidates order region nodes of (cs, readyWithCapacity, readyAny) \<Rightarrow>
          if nst_used node \<ge> nd_Capacity (nst_node node) then (cs, readyWithCapacity, True)
          else (node # cs, True, True)))"

fun select_node :: "gostring \<Rightarrow> nodeState list \<Rightarrow> nodeState \<Rightarrow> nodeState" where
  "select_node key [] selected = selected"
| "select_node key (candidate # cs) selected = select_node key cs (if prefer_node candidate selected key then candidate else selected)"

definition place :: "gostring \<Rightarrow> nodeState list \<Rightarrow> Selector \<Rightarrow> (selector_error, Assignment) outcome \<times> Selector" where
  "place key cs s = (case cs of [] \<Rightarrow> (Panic, s)
     | c # rest \<Rightarrow> let selected = select_node key rest c; nodeID = nd_ID (nst_node selected) in
        (Ok (assignment key (nst_node selected)),
         s\<lparr>sl_nodes := (sl_nodes s)(nodeID \<mapsto> selected\<lparr>nst_used := nst_used selected + 1\<rparr>),
           sl_assignments := (sl_assignments s)(key \<mapsto> nodeID),
           sl_stats := (sl_stats s)\<lparr>sx_PlacementAccepted := sx_PlacementAccepted (sl_stats s) + 1\<rparr>\<rparr>))"

definition choose_candidates :: "gostring list \<Rightarrow> gostring list \<Rightarrow> Request_sel \<Rightarrow> Selector \<Rightarrow> (nodeState list \<times> bool \<times> bool) \<times> Selector" where
  "choose_candidates order order' request s =
     (let first = candidates order (rq_PreferredRegion request) (sl_nodes s) in
      if fst first = [] \<and> rq_PreferredRegion request \<noteq> [] \<and> rq_AllowRegionFallback request then
        let second = candidates order' [] (sl_nodes s) in
        (second, if fst second \<noteq> []
           then s\<lparr>sl_stats := (sl_stats s)\<lparr>sx_RegionFallbacks := sx_RegionFallbacks (sl_stats s) + 1\<rparr>\<rparr> else s)
      else (first, s))"

definition refuse :: "bool \<Rightarrow> bool \<Rightarrow> Selector \<Rightarrow> (selector_error, Assignment) outcome \<times> Selector" where
  "refuse readyWithCapacity readyAny s =
     (if readyAny \<and> \<not> readyWithCapacity
      then (Err ErrCapacity_sel, s\<lparr>sl_stats := (sl_stats s)\<lparr>sx_CapacityRejects := sx_CapacityRejects (sl_stats s) + 1\<rparr>\<rparr>)
      else (Err ErrNoEligibleNode, s\<lparr>sl_stats := (sl_stats s)\<lparr>sx_NoEligibleRejects := sx_NoEligibleRejects (sl_stats s) + 1\<rparr>\<rparr>))"

definition Assign :: "gostring list \<Rightarrow> gostring list \<Rightarrow> Request_sel \<Rightarrow> Selector \<Rightarrow> (selector_error, Assignment) outcome \<times> Selector" where
  "Assign order order' request s0 =
     (case validateRequest request of Err e \<Rightarrow> (Err e, s0) | Panic \<Rightarrow> (Panic, s0)
      | Ok _ \<Rightarrow>
        let s = s0\<lparr>sl_stats := (sl_stats s0)\<lparr>sx_PlacementAttempts := sx_PlacementAttempts (sl_stats s0) + 1\<rparr>\<rparr> in
        case sl_assignments s (rq_Key request) of
          Some nodeID \<Rightarrow>
            let s = s\<lparr>sl_stats := (sl_stats s)\<lparr>sx_StickyHits := sx_StickyHits (sl_stats s) + 1\<rparr>\<rparr> in
            (case sl_nodes s nodeID of None \<Rightarrow> (Panic, s)
             | Some node \<Rightarrow> (Ok (assignment (rq_Key request) (nst_node node)), s))
        | None \<Rightarrow>
            if of_nat (card (dom (sl_assignments s))) \<ge> sl_maxAssignments s
            then (Err ErrCapacity_sel, s\<lparr>sl_stats := (sl_stats s)\<lparr>sx_CapacityRejects := sx_CapacityRejects (sl_stats s) + 1\<rparr>\<rparr>)
            else (case choose_candidates order order' request s of ((cs, readyWithCapacity, readyAny), s) \<Rightarrow>
              if cs = [] then refuse readyWithCapacity readyAny s else place (rq_Key request) cs s))"

section \<open>Restore and release\<close>

definition Restore_sel :: "gostring \<Rightarrow> gostring \<Rightarrow> Selector \<Rightarrow> (selector_error, Assignment) outcome \<times> Selector" where
  "Restore_sel key nodeID s =
     (case validateKey key of Err e \<Rightarrow> (Err e, s) | Panic \<Rightarrow> (Panic, s)
      | Ok _ \<Rightarrow>
      case sl_nodes s nodeID of None \<Rightarrow> (Err ErrUnknownNode, s)
      | Some node \<Rightarrow>
      case sl_assignments s key of
        Some current \<Rightarrow> if current \<noteq> nodeID then (Err ErrAssignmentMismatch, s) else (Ok (assignment key (nst_node node)), s)
      | None \<Rightarrow>
        if of_nat (card (dom (sl_assignments s))) \<ge> sl_maxAssignments s then (Err ErrCapacity_sel, s)
        else (Ok (assignment key (nst_node node)),
          s\<lparr>sl_assignments := (sl_assignments s)(key \<mapsto> nodeID),
            sl_nodes := (sl_nodes s)(nodeID \<mapsto> node\<lparr>nst_used := nst_used node + 1\<rparr>),
            sl_stats := (sl_stats s)\<lparr>sx_Restored := sx_Restored (sl_stats s) + 1\<rparr>\<rparr>))"

definition Release_sel :: "gostring \<Rightarrow> gostring \<Rightarrow> Selector \<Rightarrow> (selector_error, unit) outcome \<times> Selector" where
  "Release_sel key nodeID s =
     (case validateKey key of Err e \<Rightarrow> (Err e, s) | Panic \<Rightarrow> (Panic, s)
      | Ok _ \<Rightarrow>
      case sl_assignments s key of None \<Rightarrow> (Err ErrUnknownAssignment, s)
      | Some current \<Rightarrow>
      if current \<noteq> nodeID then (Err ErrAssignmentMismatch, s)
      else case sl_nodes s current of None \<Rightarrow> (Err AccountingMismatch, s)
      | Some node \<Rightarrow>
      if nst_used node = 0 then (Err AccountingMismatch, s)
      else (Ok (),
        s\<lparr>sl_assignments := (sl_assignments s)(key := None),
          sl_nodes := (sl_nodes s)(current \<mapsto> node\<lparr>nst_used := nst_used node - 1\<rparr>),
          sl_stats := (sl_stats s)\<lparr>sx_Released := sx_Released (sl_stats s) + 1\<rparr>\<rparr>))"

section \<open>Operator actions\<close>

definition SetState :: "gostring \<Rightarrow> gostring \<Rightarrow> Selector \<Rightarrow> (selector_error, unit) outcome \<times> Selector" where
  "SetState nodeID state s =
     (if \<not> validState state then (Err OtherError_sel, s)
      else case sl_nodes s nodeID of None \<Rightarrow> (Err ErrUnknownNode, s)
      | Some node \<Rightarrow>
        if nd_State (nst_node node) \<noteq> state
        then (Ok (), s\<lparr>sl_nodes := (sl_nodes s)(nodeID \<mapsto> node\<lparr>nst_node := (nst_node node)\<lparr>nd_State := state,
          nd_Generation := nd_Generation (nst_node node) + 1\<rparr>\<rparr>)\<rparr>)
        else (Ok (), s))"

definition SetCapacity :: "gostring \<Rightarrow> 64 word \<Rightarrow> Selector \<Rightarrow> (selector_error, unit) outcome \<times> Selector" where
  "SetCapacity nodeID capacity s =
     (if capacity = 0 \<or> capacity > maxNodeCapacity then (Err OtherError_sel, s)
      else case sl_nodes s nodeID of None \<Rightarrow> (Err ErrUnknownNode, s)
      | Some node \<Rightarrow>
        if nd_Capacity (nst_node node) \<noteq> capacity
        then (Ok (), s\<lparr>sl_nodes := (sl_nodes s)(nodeID \<mapsto> node\<lparr>nst_node := (nst_node node)\<lparr>nd_Capacity := capacity,
          nd_Generation := nd_Generation (nst_node node) + 1\<rparr>\<rparr>)\<rparr>)
        else (Ok (), s))"

definition RemoveNode :: "gostring \<Rightarrow> Selector \<Rightarrow> (selector_error, unit) outcome \<times> Selector" where
  "RemoveNode nodeID s =
     (case sl_nodes s nodeID of None \<Rightarrow> (Err ErrUnknownNode, s)
      | Some node \<Rightarrow>
        if nst_used node \<noteq> 0 then (Err ErrNodeInUse, s)
        else (Ok (), s\<lparr>sl_nodes := (sl_nodes s)(nodeID := None)\<rparr>))"

definition node_snapshot :: "nodeState \<Rightarrow> NodeSnapshot" where
  "node_snapshot current =
     (let node = nst_node current; used = nst_used current in
      \<lparr>ns_ID = nd_ID node, ns_Region = nd_Region node, ns_State = nd_State node, ns_Capacity = nd_Capacity node,
       ns_Assignments = used, ns_Available = (if used < nd_Capacity node then nd_Capacity node - used else 0),
       ns_OverCapacity = (used > nd_Capacity node), ns_Generation = nd_Generation node\<rparr>)"

definition Snapshot_sel :: "gostring list \<Rightarrow> Selector \<Rightarrow> NodeSnapshot list \<times> Stats_sel" where
  "Snapshot_sel order s =
     (sort_key ns_ID (map node_snapshot (List.map_filter (sl_nodes s) order)),
      (sl_stats s)\<lparr>sx_Assignments := of_nat (card (dom (sl_assignments s)))\<rparr>)"

section \<open>What the selector keeps\<close>

definition owned :: "Selector \<Rightarrow> gostring \<Rightarrow> gostring set" where
  "owned s nid = {k. sl_assignments s k = Some nid}"

text \<open>Every node is stored under its identity with a legal capacity and state, its counter is the number of keys assigned
  to it, every assignment leads to a node, and the assignments stay within the configured number.\<close>

definition node_ok :: "Selector \<Rightarrow> gostring \<Rightarrow> nodeState \<Rightarrow> bool" where
  "node_ok s nid n \<longleftrightarrow> nd_ID (nst_node n) = nid \<and> nd_Capacity (nst_node n) \<noteq> 0 \<and>
     nd_Capacity (nst_node n) \<le> maxNodeCapacity \<and> validState (nd_State (nst_node n)) \<and>
     unat (nst_used n) = card (owned s nid)"

definition selector_ok :: "Selector \<Rightarrow> bool" where
  "selector_ok s \<longleftrightarrow> (\<forall>nid n. sl_nodes s nid = Some n \<longrightarrow> node_ok s nid n) \<and>
     (\<forall>k nid. sl_assignments s k = Some nid \<longrightarrow> sl_nodes s nid \<noteq> None) \<and> finite (dom (sl_assignments s)) \<and>
     card (dom (sl_assignments s)) \<le> unat (sl_maxAssignments s) \<and> sl_maxAssignments s \<le> maxNodeCapacity * 256"

lemma selector_okD:
  assumes "selector_ok s"
  shows "sl_nodes s nid = Some n \<Longrightarrow> node_ok s nid n" "sl_assignments s k = Some nid \<Longrightarrow> sl_nodes s nid \<noteq> None"
    "finite (dom (sl_assignments s))" "card (dom (sl_assignments s)) \<le> unat (sl_maxAssignments s)"
    "unat (sl_maxAssignments s) \<le> 25600000000"
  using assms by (auto simp: selector_ok_def maxNodeCapacity_def word_le_nat_alt)

lemma node_okD:
  assumes "node_ok s nid n"
  shows "nd_ID (nst_node n) = nid" "unat (nst_used n) = card (owned s nid)" "0 < unat (nd_Capacity (nst_node n))"
    "unat (nd_Capacity (nst_node n)) \<le> 100000000"
  using assms by (auto simp: node_ok_def maxNodeCapacity_def word_le_nat_alt unat_gt_0)

lemma owned_dom: "owned s nid \<subseteq> dom (sl_assignments s)"
  by (auto simp: owned_def)

lemma owned_bound: "selector_ok s \<Longrightarrow> card (owned s nid) \<le> unat (sl_maxAssignments s)"
  using card_mono[OF selector_okD(3) owned_dom] selector_okD(4) by (metis order_trans)

text \<open>The cross products that compare the loads of two nodes do not wrap around.\<close>

lemma load_product:
  assumes "selector_ok s" "sl_nodes s i = Some m" "sl_nodes s j = Some n"
  shows "unat (nst_used m * nd_Capacity (nst_node n)) = unat (nst_used m) * unat (nd_Capacity (nst_node n))"
proof -
  have "unat (nst_used m) = card (owned s i)" using node_okD(2)[OF selector_okD(1)[OF assms(1,2)]] .
  also have "\<dots> \<le> 25600000000" using owned_bound[OF assms(1)] selector_okD(5)[OF assms(1)] by (rule order_trans)
  finally have "unat (nst_used m) \<le> 25600000000" .
  moreover have "unat (nd_Capacity (nst_node n)) \<le> 100000000"
    using node_okD(4)[OF selector_okD(1)[OF assms(1,3)]] .
  ultimately have "unat (nst_used m) * unat (nd_Capacity (nst_node n)) \<le> 25600000000 * 100000000" by (rule mult_le_mono)
  then show ?thesis using unat_mult_lem[of "nst_used m" "nd_Capacity (nst_node n)"] by simp
qed

section \<open>The order of preference\<close>

text \<open>A node ranks by its load, a fraction of its capacity, and then by its score, the larger first.\<close>

definition rank :: "gostring \<Rightarrow> nodeState \<Rightarrow> real \<times> int" where
  "rank key n = (real (unat (nst_used n)) / real (unat (nd_Capacity (nst_node n))),
     - uint (rendezvousScore key (nd_ID (nst_node n))))"

lemma prefer_rank:
  assumes "selector_ok s" "sl_nodes s i = Some m" "sl_nodes s j = Some n"
  shows "prefer_node m n key \<longleftrightarrow> rank key m < rank key n"
proof -
  define a b c d where "a = unat (nst_used m)" and "b = unat (nd_Capacity (nst_node m))"
    and "c = unat (nst_used n)" and "d = unat (nd_Capacity (nst_node n))"
  note abcd = a_def[symmetric] b_def[symmetric] c_def[symmetric] d_def[symmetric]
  have pos: "0 < b" "0 < d" using node_okD(3) selector_okD(1)[OF assms(1)] assms(2,3) unfolding b_def d_def by blast+
  have lt: "real a / real b < real c / real d \<longleftrightarrow> a * d < c * b"
    using pos by (simp add: pos_divide_less_eq pos_less_divide_eq mult.commute flip: of_nat_mult)
  have eq: "real a / real b = real c / real d \<longleftrightarrow> a * d = c * b"
    using pos by (simp add: frac_eq_eq flip: of_nat_mult)
  have "nst_used m * nd_Capacity (nst_node n) \<noteq> nst_used n * nd_Capacity (nst_node m) \<longleftrightarrow> a * d \<noteq> c * b"
    "nst_used m * nd_Capacity (nst_node n) < nst_used n * nd_Capacity (nst_node m) \<longleftrightarrow> a * d < c * b"
    using load_product[OF assms] load_product[OF assms(1,3,2)]
    by (simp_all add: word_unat_eq_iff word_less_nat_alt abcd)
  moreover have "real a / real b \<le> real c / real d \<longleftrightarrow> a * d \<le> c * b" using lt eq by linarith
  ultimately show ?thesis unfolding prefer_node_def rank_def Let_def less_prod_simp abcd by (auto simp: lt word_less_def)
qed

lemma select_node_least:
  assumes "selector_ok s" "set (c # cs) \<subseteq> ran (sl_nodes s)"
  shows "select_node key cs c \<in> set (c # cs) \<and> (\<forall>x \<in> set (c # cs). rank key (select_node key cs c) \<le> rank key x)"
  using assms(2)
proof (induction cs arbitrary: c)
  case (Cons d cs)
  define e where "e = (if prefer_node d c key then d else c)"
  obtain i j where ij: "sl_nodes s i = Some d" "sl_nodes s j = Some c" using Cons.prems by (auto simp: ran_def)
  have e: "e \<in> {c, d}" "rank key e \<le> rank key c" "rank key e \<le> rank key d"
    using prefer_rank[OF assms(1) ij, of key] by (auto simp: e_def)
  have "set (e # cs) \<subseteq> ran (sl_nodes s)" using Cons.prems e(1) by auto
  from Cons.IH[OF this] have IH: "select_node key cs e \<in> set (e # cs)"
    "\<forall>x \<in> set (e # cs). rank key (select_node key cs e) \<le> rank key x" by auto
  have "select_node key (d # cs) c = select_node key cs e" by (simp add: e_def)
  moreover have "rank key (select_node key cs e) \<le> rank key e" using IH(2) by simp
  then have "rank key (select_node key cs e) \<le> rank key c" "rank key (select_node key cs e) \<le> rank key d"
    using e(2,3) by (auto intro: order_trans)
  moreover have "select_node key cs e \<in> set (c # d # cs)" using IH(1) e(1) by auto
  ultimately show ?case using IH(2) by auto
qed simp

section \<open>The candidates\<close>

definition ready_in :: "gostring \<Rightarrow> nodeState \<Rightarrow> bool" where
  "ready_in region n \<longleftrightarrow> nd_State (nst_node n) = StateReady \<and> (region = [] \<or> nd_Region (nst_node n) = region)"

definition eligible :: "gostring \<Rightarrow> nodeState \<Rightarrow> bool" where
  "eligible region n \<longleftrightarrow> ready_in region n \<and> nst_used n < nd_Capacity (nst_node n)"

lemma candidates_eq:
  "candidates order region nodes = (let ns = List.map_filter nodes order in
     (filter (eligible region) ns, \<exists>n \<in> set ns. eligible region n, \<exists>n \<in> set ns. ready_in region n))"
  by (induction order) (auto simp: Let_def eligible_def ready_in_def map_filter_simps not_less split: option.split)

lemma set_map_filter_dom: "set order = dom nodes \<Longrightarrow> set (List.map_filter nodes order) = ran nodes"
  by (force simp: map_filter_def ran_def dom_def image_def)

text \<open>The nodes a request may be placed on: those of the preferred region, or of all regions when there are none and the
  request allows it.\<close>

definition pool :: "Request_sel \<Rightarrow> Selector \<Rightarrow> nodeState set" where
  "pool request s =
     (let near = {n \<in> ran (sl_nodes s). eligible (rq_PreferredRegion request) n} in
      if near = {} \<and> rq_PreferredRegion request \<noteq> [] \<and> rq_AllowRegionFallback request
      then {n \<in> ran (sl_nodes s). eligible [] n} else near)"

lemma choose_candidates_spec:
  assumes "set order = dom (sl_nodes s)" "set order' = dom (sl_nodes s)"
    "choose_candidates order order' request s = ((cs, readyWithCapacity, readyAny), s1)"
  shows "set cs = pool request s" "\<exists>st. s1 = s\<lparr>sl_stats := st\<rparr>"
proof -
  have f: "set (fst (candidates xs r (sl_nodes s))) = {n \<in> ran (sl_nodes s). eligible r n}" if "set xs = dom (sl_nodes s)" for xs r
    using set_map_filter_dom[OF that] by (simp add: candidates_eq Let_def)
  have e: "{n \<in> ran (sl_nodes s). eligible r n} = {} \<longleftrightarrow> fst (candidates order r (sl_nodes s)) = []" for r
    unfolding f[OF assms(1), symmetric] by simp
  have p: "pool request s = set (fst (fst (choose_candidates order order' request s)))"
    unfolding pool_def Let_def e choose_candidates_def by (simp add: f[OF assms(2)] f[OF assms(1)])
  show "set cs = pool request s" unfolding p assms(3) by simp
  have same: "\<exists>st. x = x\<lparr>sl_stats := st\<rparr>" for x :: Selector by (rule exI[of _ "sl_stats x"]) simp
  show "\<exists>st. s1 = s\<lparr>sl_stats := st\<rparr>"
    using assms(3) by (auto simp: choose_candidates_def Let_def intro: same split: if_splits)
qed

section \<open>Every operation keeps it\<close>

lemma stats_irrelevant [simp]:
  "owned (s\<lparr>sl_stats := x\<rparr>) = owned s" "node_ok (s\<lparr>sl_stats := x\<rparr>) = node_ok s" "selector_ok (s\<lparr>sl_stats := x\<rparr>) = selector_ok s"
  "pool request (s\<lparr>sl_stats := x\<rparr>) = pool request s"
  by (auto simp: owned_def node_ok_def selector_ok_def pool_def fun_eq_iff)

lemma card_full:
  assumes "selector_ok s"
  shows "of_nat (card (dom (sl_assignments s))) \<ge> sl_maxAssignments s \<longleftrightarrow>
    card (dom (sl_assignments s)) \<ge> unat (sl_maxAssignments s)"
proof -
  have "card (dom (sl_assignments s)) < 2 ^ 64" using selector_okD(4,5)[OF assms] by simp
  then show ?thesis by (simp add: word_le_nat_alt unat_of_nat)
qed

definition assigned :: "gostring \<Rightarrow> nodeState \<Rightarrow> Selector \<Rightarrow> Selector" where
  "assigned key n s = s\<lparr>sl_assignments := (sl_assignments s)(key \<mapsto> nd_ID (nst_node n)),
     sl_nodes := (sl_nodes s)(nd_ID (nst_node n) \<mapsto> n\<lparr>nst_used := nst_used n + 1\<rparr>)\<rparr>"

definition released :: "gostring \<Rightarrow> gostring \<Rightarrow> nodeState \<Rightarrow> Selector \<Rightarrow> Selector" where
  "released key nid n s = s\<lparr>sl_assignments := (sl_assignments s)(key := None),
     sl_nodes := (sl_nodes s)(nid \<mapsto> n\<lparr>nst_used := nst_used n - 1\<rparr>)\<rparr>"

lemma owned_finite: "selector_ok s \<Longrightarrow> finite (owned s i)"
  using finite_subset[OF owned_dom] selector_okD(3) by blast

lemma used_Suc:
  assumes "selector_ok s" "sl_nodes s i = Some n"
  shows "unat (nst_used n + 1) = Suc (unat (nst_used n))"
proof -
  have "unat (nst_used n) \<le> 25600000000"
    using node_okD(2)[OF selector_okD(1)[OF assms]] owned_bound[OF assms(1), of i] selector_okD(5)[OF assms(1)] by linarith
  then show ?thesis using unat_add_lem[of "nst_used n" 1] by simp
qed

lemma selector_ok_assigned:
  assumes ok: "selector_ok s" and n: "sl_nodes s i = Some n" and new: "sl_assignments s key = None"
    and room: "card (dom (sl_assignments s)) < unat (sl_maxAssignments s)"
  shows "selector_ok (assigned key n s)"
proof -
  note D = selector_okD[OF ok]
  have i: "nd_ID (nst_node n) = i" using node_okD(1)[OF D(1)[OF n]] .
  have own: "owned (assigned key n s) j = (if j = i then insert key (owned s i) else owned s j)" for j
    using new by (auto simp: owned_def assigned_def i)
  have key: "key \<notin> owned s j" for j using new by (simp add: owned_def)
  have "node_ok (assigned key n s) j m" if "sl_nodes (assigned key n s) j = Some m" for j m
    using that D(1)[of j] D(1)[OF n] n used_Suc[OF ok n] key[of i] owned_finite[OF ok, of i]
    by (auto simp: assigned_def i node_ok_def own[unfolded assigned_def i] split: if_splits)
  moreover have "card (dom (sl_assignments (assigned key n s))) \<le> unat (sl_maxAssignments s)"
    using room new D(3) by (simp add: assigned_def card_insert_if domIff)
  ultimately show ?thesis using ok unfolding selector_ok_def by (auto simp: assigned_def i)
qed

lemma selector_ok_released:
  assumes ok: "selector_ok s" and a: "sl_assignments s key = Some i" and n: "sl_nodes s i = Some n"
  shows "nst_used n \<noteq> 0" "selector_ok (released key i n s)"
proof -
  note D = selector_okD[OF ok]
  have key: "key \<in> owned s i" using a by (simp add: owned_def)
  have "0 < card (owned s i)" using key owned_finite[OF ok] card_gt_0_iff by blast
  then have used: "0 < unat (nst_used n)" using node_okD(2)[OF D(1)[OF n]] by simp
  then show nz: "nst_used n \<noteq> 0" by auto
  have dec: "unat (nst_used n - 1) = unat (nst_used n) - 1" using nz by (rule unat_minus_one)
  have own: "owned (released key i n s) j = (if j = i then owned s i - {key} else owned s j)" for j
    using a by (auto simp: owned_def released_def)
  have "node_ok (released key i n s) j m" if "sl_nodes (released key i n s) j = Some m" for j m
    using that D(1)[of j] D(1)[OF n] n dec key owned_finite[OF ok, of i]
    by (auto simp: released_def node_ok_def own[unfolded released_def] split: if_splits)
  moreover have "card (dom (sl_assignments (released key i n s))) \<le> unat (sl_maxAssignments s)"
    using D(3,4) card_mono[OF D(3), of "dom (sl_assignments s) - {key}"] by (auto simp: released_def)
  ultimately show "selector_ok (released key i n s)" using ok unfolding selector_ok_def by (auto simp: released_def n)
qed

text \<open>An operator's change of a node keeps its identity and counter.\<close>

lemma selector_ok_node:
  assumes ok: "selector_ok s" and n: "sl_nodes s i = Some n"
    and m: "nd_ID (nst_node m) = nd_ID (nst_node n)" "nst_used m = nst_used n" "nd_Capacity (nst_node m) \<noteq> 0"
      "nd_Capacity (nst_node m) \<le> maxNodeCapacity" "validState (nd_State (nst_node m))"
  shows "selector_ok (s\<lparr>sl_nodes := (sl_nodes s)(i \<mapsto> m)\<rparr>)"
proof -
  have "node_ok s i m" using selector_okD(1)[OF ok n] m by (simp add: node_ok_def)
  then show ?thesis using ok by (auto simp: selector_ok_def node_ok_def owned_def)
qed

lemma selector_ok_New:
  assumes "New_selector nodes mx = Ok s"
  shows "selector_ok s"
proof -
  have add: "add_nodes ns m = Ok m' \<Longrightarrow> (\<And>i n. m i = Some n \<Longrightarrow> node_ok t i n) \<Longrightarrow> sl_assignments t = Map.empty \<Longrightarrow>
      m' i = Some n \<Longrightarrow> node_ok t i n" for ns m m' t i n
  proof (induction ns arbitrary: m)
    case (Cons d ns)
    then have v: "validateNode d = Ok ()" "add_nodes ns (m(nd_ID d \<mapsto> \<lparr>nst_node = d, nst_used = 0\<rparr>)) = Ok m'" by (auto split: if_splits)
    have "node_ok t (nd_ID d) \<lparr>nst_node = d, nst_used = 0\<rparr>"
      using v(1) Cons.prems(3) by (auto simp: validateNode_def node_ok_def owned_def not_less split: if_splits)
    then have "(m(nd_ID d \<mapsto> \<lparr>nst_node = d, nst_used = 0\<rparr>)) j = Some e \<Longrightarrow> node_ok t j e" for j e
      using Cons.prems(2)[of j e] by (auto split: if_splits)
    then show ?case by (rule Cons.IH[OF v(2) _ Cons.prems(3,4)])
  qed simp
  obtain m where m: "add_nodes nodes Map.empty = Ok m" "mx \<le> maxNodeCapacity * 256"
    "s = \<lparr>sl_nodes = m, sl_assignments = Map.empty, sl_maxAssignments = mx, sl_stats = zero_stats\<rparr>"
    using assms by (auto simp: New_selector_def not_less split: if_splits)
  then show ?thesis using add[OF m(1), of s] by (simp add: selector_ok_def)
qed

section \<open>Placement, precisely\<close>

lemma assigned_stats [simp]: "assigned key n (s\<lparr>sl_stats := x\<rparr>) = (assigned key n s)\<lparr>sl_stats := x\<rparr>"
  by (simp add: assigned_def)

definition selected_of :: "gostring \<Rightarrow> nodeState list \<Rightarrow> nodeState" where
  "selected_of key cs = select_node key (tl cs) (hd cs)"

lemma place_eq: "cs \<noteq> [] \<Longrightarrow> place key cs s = (let n = selected_of key cs in
    (Ok (assignment key (nst_node n)),
     (assigned key n s)\<lparr>sl_stats := (sl_stats s)\<lparr>sx_PlacementAccepted := sx_PlacementAccepted (sl_stats s) + 1\<rparr>\<rparr>))"
  by (cases cs) (simp_all add: place_def selected_of_def assigned_def Let_def)

lemma selected_least:
  assumes "selector_ok s" "cs \<noteq> []" "set cs \<subseteq> ran (sl_nodes s)"
  shows "selected_of key cs \<in> set cs \<and> (\<forall>x \<in> set cs. rank key (selected_of key cs) \<le> rank key x)"
  using select_node_least[OF assms(1), of "hd cs" "tl cs" key] assms(2,3) unfolding selected_of_def by simp

lemma pool_nodes: "pool request s \<subseteq> ran (sl_nodes s)"
  by (auto simp: pool_def Let_def)

lemma pool_eligible: "n \<in> pool request s \<Longrightarrow> nd_State (nst_node n) = StateReady \<and> nst_used n < nd_Capacity (nst_node n)"
  by (auto simp: pool_def Let_def eligible_def ready_in_def split: if_splits)

lemma Assign_fresh:
  assumes ok: "selector_ok s" and o: "set order = dom (sl_nodes s)" "set order' = dom (sl_nodes s)"
    and v: "validateRequest request = Ok ()" and new: "sl_assignments s (rq_Key request) = None"
    and room: "card (dom (sl_assignments s)) < unat (sl_maxAssignments s)"
  shows "pool request s = {} \<Longrightarrow> \<exists>e st. Assign order order' request s = (Err e, s\<lparr>sl_stats := st\<rparr>)"
    "pool request s \<noteq> {} \<Longrightarrow> \<exists>n \<in> pool request s. (\<forall>m \<in> pool request s. rank (rq_Key request) n \<le> rank (rq_Key request) m) \<and>
       (\<exists>st. Assign order order' request s =
         (Ok (assignment (rq_Key request) (nst_node n)), (assigned (rq_Key request) n s)\<lparr>sl_stats := st\<rparr>))"
proof -
  define s1 where "s1 = s\<lparr>sl_stats := (sl_stats s)\<lparr>sx_PlacementAttempts := sx_PlacementAttempts (sl_stats s) + 1\<rparr>\<rparr>"
  obtain cs a b s2 where ch: "choose_candidates order order' request s1 = ((cs, a, b), s2)" by (metis surj_pair)
  have o1: "set order = dom (sl_nodes s1)" "set order' = dom (sl_nodes s1)" using o by (simp_all add: s1_def)
  obtain st where s2: "s2 = s1\<lparr>sl_stats := st\<rparr>" using choose_candidates_spec(2)[OF o1 ch] by blast
  have cs: "set cs = pool request s" using choose_candidates_spec(1)[OF o1 ch] by (simp add: s1_def)
  have same: "sl_assignments s1 = sl_assignments s" "sl_maxAssignments s1 = sl_maxAssignments s" by (simp_all add: s1_def)
  have A: "Assign order order' request s = (if cs = [] then refuse a b s2 else place (rq_Key request) cs s2)"
    unfolding Assign_def v outcome.case s1_def[symmetric] Let_def same ch using new room card_full[OF ok] by simp
  show "\<exists>e st. Assign order order' request s = (Err e, s\<lparr>sl_stats := st\<rparr>)" if "pool request s = {}"
    using that cs A by (auto simp: refuse_def s2 s1_def)
  show "\<exists>n \<in> pool request s. (\<forall>m \<in> pool request s. rank (rq_Key request) n \<le> rank (rq_Key request) m) \<and>
       (\<exists>st. Assign order order' request s =
         (Ok (assignment (rq_Key request) (nst_node n)), (assigned (rq_Key request) n s)\<lparr>sl_stats := st\<rparr>))"
    if "pool request s \<noteq> {}"
  proof -
    have ne: "cs \<noteq> []" using that cs by auto
    have "set cs \<subseteq> ran (sl_nodes s)" using cs pool_nodes by simp
    from selected_least[OF ok ne this, of "rq_Key request"] have
      "selected_of (rq_Key request) cs \<in> pool request s"
      "\<forall>m \<in> pool request s. rank (rq_Key request) (selected_of (rq_Key request) cs) \<le> rank (rq_Key request) m" using cs by simp_all
    then show ?thesis using A ne by (auto simp: place_eq Let_def s2 s1_def)
  qed
qed

text \<open>The order in which the nodes are visited matters only between nodes that rank equally.\<close>

lemma choose_order:
  assumes "set o1 = set o2" "set o1' = set o2'"
  shows "snd (choose_candidates o1 o1' request s) = snd (choose_candidates o2 o2' request s)"
    "snd (fst (choose_candidates o1 o1' request s)) = snd (fst (choose_candidates o2 o2' request s))"
    "set (fst (fst (choose_candidates o1 o1' request s))) = set (fst (fst (choose_candidates o2 o2' request s)))"
proof -
  have mf: "set (List.map_filter f xs) = set (List.map_filter f ys)" if "set xs = set ys" for f :: "gostring \<Rightarrow> nodeState option" and xs ys
    using that by (simp add: map_filter_def)
  have "snd (candidates xs r n) = snd (candidates ys r n)" "set (fst (candidates xs r n)) = set (fst (candidates ys r n))"
    "fst (candidates xs r n) = [] \<longleftrightarrow> fst (candidates ys r n) = []" if "set xs = set ys" for xs ys r n
    using mf[OF that, of n] by (simp_all add: candidates_eq Let_def filter_empty_conv)
  note c = this[OF assms(1)] this[OF assms(2)]
  show "snd (choose_candidates o1 o1' request s) = snd (choose_candidates o2 o2' request s)"
    "snd (fst (choose_candidates o1 o1' request s)) = snd (fst (choose_candidates o2 o2' request s))"
    "set (fst (fst (choose_candidates o1 o1' request s))) = set (fst (fst (choose_candidates o2 o2' request s)))"
    by (simp_all add: choose_candidates_def Let_def c)
qed

lemma Assign_order:
  assumes ok: "selector_ok s" and o: "set o1 = dom (sl_nodes s)" "set o1' = dom (sl_nodes s)"
      "set o2 = dom (sl_nodes s)" "set o2' = dom (sl_nodes s)"
    and inj: "inj_on (rank (rq_Key request)) (pool request s)"
  shows "Assign o1 o1' request s = Assign o2 o2' request s"
proof -
  define s1 where "s1 = s\<lparr>sl_stats := (sl_stats s)\<lparr>sx_PlacementAttempts := sx_PlacementAttempts (sl_stats s) + 1\<rparr>\<rparr>"
  obtain c1 f1 t1 where 1: "choose_candidates o1 o1' request s1 = ((c1, f1), t1)" by (metis surj_pair)
  obtain c2 where 2: "choose_candidates o2 o2' request s1 = ((c2, f1), t1)" and c: "set c1 = set c2"
    using choose_order[of o1 o2 o1' o2' request s1] o 1 by (metis fst_conv snd_conv surj_pair)
  have o1: "set o1 = dom (sl_nodes s1)" "set o1' = dom (sl_nodes s1)" using o by (simp_all add: s1_def)
  obtain a b where f1: "f1 = (a, b)" by (metis surj_pair)
  have p: "set c1 = pool request s" using choose_candidates_spec(1)[OF o1 1[unfolded f1]] by (simp add: s1_def)
  have nil: "c1 = [] \<longleftrightarrow> c2 = []" using c by (metis set_empty)
  have "place (rq_Key request) c1 t1 = place (rq_Key request) c2 t1" if "c1 \<noteq> []"
  proof -
    have "set c1 \<subseteq> ran (sl_nodes s)" "set c2 \<subseteq> ran (sl_nodes s)" using p c pool_nodes by simp_all
    from selected_least[OF ok that this(1), of "rq_Key request"] selected_least[OF ok _ this(2), of "rq_Key request"]
    have "selected_of (rq_Key request) c1 = selected_of (rq_Key request) c2"
      using inj that nil c p by (intro inj_onD[OF inj] order_antisym) auto
    then show ?thesis using that nil by (simp add: place_eq)
  qed
  then show ?thesis unfolding Assign_def s1_def[symmetric] Let_def 1 2 f1 using nil by (auto split: outcome.split option.split)
qed

section \<open>Reachable selectors\<close>

inductive selector_reach :: "Selector \<Rightarrow> bool" where
  reach_New: "New_selector nodes maxAssignments = Ok s \<Longrightarrow> selector_reach s"
| reach_Assign: "selector_reach s \<Longrightarrow> set order = dom (sl_nodes s) \<Longrightarrow> set order' = dom (sl_nodes s) \<Longrightarrow>
    selector_reach (snd (Assign order order' request s))"
| reach_Restore: "selector_reach s \<Longrightarrow> selector_reach (snd (Restore_sel key nodeID s))"
| reach_Release: "selector_reach s \<Longrightarrow> selector_reach (snd (Release_sel key nodeID s))"
| reach_SetState: "selector_reach s \<Longrightarrow> selector_reach (snd (SetState nodeID state s))"
| reach_SetCapacity: "selector_reach s \<Longrightarrow> selector_reach (snd (SetCapacity nodeID capacity s))"
| reach_RemoveNode: "selector_reach s \<Longrightarrow> selector_reach (snd (RemoveNode nodeID s))"

lemma selector_ok_Assign:
  assumes ok: "selector_ok s" and o: "set order = dom (sl_nodes s)" "set order' = dom (sl_nodes s)"
  shows "selector_ok (snd (Assign order order' request s)) \<and> fst (Assign order order' request s) \<noteq> Panic"
proof (cases "validateRequest request = Ok () \<and> sl_assignments s (rq_Key request) = None \<and>
    card (dom (sl_assignments s)) < unat (sl_maxAssignments s)")
  case True
  then have v: "validateRequest request = Ok ()" and new: "sl_assignments s (rq_Key request) = None"
    and room: "card (dom (sl_assignments s)) < unat (sl_maxAssignments s)" by auto
  show ?thesis
  proof (cases "pool request s = {}")
    case True
    then show ?thesis using Assign_fresh(1)[OF ok o v new room] ok by auto
  next
    case False
    then obtain n st where n: "n \<in> pool request s" "Assign order order' request s =
        (Ok (assignment (rq_Key request) (nst_node n)), (assigned (rq_Key request) n s)\<lparr>sl_stats := st\<rparr>)"
      using Assign_fresh(2)[OF ok o v new room] by blast
    then obtain i where "sl_nodes s i = Some n" using pool_nodes by (fastforce simp: ran_def)
    then show ?thesis using selector_ok_assigned[OF ok _ new room] n(2) by simp
  qed
next
  case False
  have v: "validateRequest request = Ok () \<or> (\<exists>e. validateRequest request = Err e)"
    by (simp add: validateRequest_def validateKey_def)
  show ?thesis
  proof (cases "sl_assignments s (rq_Key request)")
    case None
    then show ?thesis using v False ok card_full[OF ok] by (auto simp: Assign_def Let_def not_less)
  next
    case (Some nid)
    then obtain n where "sl_nodes s nid = Some n" using selector_okD(2)[OF ok] by blast
    then show ?thesis using v ok Some by (auto simp: Assign_def Let_def)
  qed
qed

lemma selector_ok_Restore:
  assumes ok: "selector_ok s"
  shows "selector_ok (snd (Restore_sel key nodeID s))"
proof (cases "sl_nodes s nodeID")
  case (Some n)
  have i: "nd_ID (nst_node n) = nodeID" using node_okD(1)[OF selector_okD(1)[OF ok Some]] .
  show ?thesis using ok Some selector_ok_assigned[OF ok Some, of key, unfolded assigned_def i] card_full[OF ok]
    by (auto simp: Restore_sel_def validateKey_def not_le split: option.split)
qed (simp add: Restore_sel_def ok validateKey_def)

lemma selector_ok_Release:
  assumes ok: "selector_ok s"
  shows "selector_ok (snd (Release_sel key nodeID s)) \<and> fst (Release_sel key nodeID s) \<noteq> Err AccountingMismatch"
proof (cases "sl_assignments s key")
  case (Some i)
  then obtain n where n: "sl_nodes s i = Some n" using selector_okD(2)[OF ok] by blast
  show ?thesis using selector_ok_released[OF ok Some n] Some n ok
    by (auto simp: Release_sel_def validateKey_def released_def)
qed (simp add: Release_sel_def ok validateKey_def)

lemma selector_ok_operator:
  assumes ok: "selector_ok s"
  shows "selector_ok (snd (SetState nodeID state s))" "selector_ok (snd (SetCapacity nodeID capacity s))"
    "selector_ok (snd (RemoveNode nodeID s))"
proof -
  show "selector_ok (snd (SetState nodeID state s))" "selector_ok (snd (SetCapacity nodeID capacity s))"
    using ok selector_ok_node[OF ok] selector_okD(1)[OF ok]
    by (auto simp: SetState_def SetCapacity_def node_ok_def not_less split: option.split)
  show "selector_ok (snd (RemoveNode nodeID s))"
  proof (cases "sl_nodes s nodeID")
    case (Some n)
    let ?t = "s\<lparr>sl_nodes := (sl_nodes s)(nodeID := None)\<rparr>"
    have "selector_ok ?t" if u: "nst_used n = 0"
    proof -
      have "card (owned s nodeID) = 0" using node_okD(2)[OF selector_okD(1)[OF ok Some]] u by simp
      then have free: "sl_assignments s k \<noteq> Some nodeID" for k using owned_finite[OF ok, of nodeID] by (auto simp: owned_def)
      have "node_ok ?t = node_ok s" by (simp add: node_ok_def owned_def fun_eq_iff)
      then have "\<forall>i m. sl_nodes ?t i = Some m \<longrightarrow> node_ok ?t i m" using selector_okD(1)[OF ok] by simp
      moreover have "\<forall>k i. sl_assignments ?t k = Some i \<longrightarrow> sl_nodes ?t i \<noteq> None" using selector_okD(2)[OF ok] free by auto
      ultimately show ?thesis using ok unfolding selector_ok_def by simp
    qed
    then show ?thesis using Some ok by (simp add: RemoveNode_def)
  qed (simp add: RemoveNode_def ok)
qed

lemma selector_reach_ok: "selector_reach s \<Longrightarrow> selector_ok s"
  by (induction rule: selector_reach.induct)
    (simp_all add: selector_ok_New selector_ok_Assign selector_ok_Restore selector_ok_Release selector_ok_operator)

section \<open>Properties\<close>

text \<open>C26: (invariant) In every reachable selector each node's counter is the number of keys assigned to it, every assignment
  leads to an existing node, so that a repeated request gets its node back whatever the node's state, and the configured
  number of assignments is not exceeded; placing a session never dereferences a missing node, and releasing one never meets
  an accounting mismatch.\<close>

theorem selector_accounting:
  assumes "selector_reach s" "set order = dom (sl_nodes s)" "set order' = dom (sl_nodes s)"
  shows "(\<forall>nid n. sl_nodes s nid = Some n \<longrightarrow> unat (nst_used n) = card {k. sl_assignments s k = Some nid}) \<and>
    (\<forall>k nid. sl_assignments s k = Some nid \<longrightarrow> (\<exists>n. sl_nodes s nid = Some n \<and> (\<forall>request. rq_Key request = k \<longrightarrow>
       validateRequest request = Ok () \<longrightarrow> fst (Assign order order' request s) = Ok (assignment k (nst_node n))))) \<and>
    card (dom (sl_assignments s)) \<le> unat (sl_maxAssignments s) \<and>
    fst (Assign order order' request s) \<noteq> Panic \<and> fst (Release_sel key nodeID s) \<noteq> Err AccountingMismatch"
proof -
  note ok = selector_reach_ok[OF assms(1)]
  have "\<exists>n. sl_nodes s nid = Some n \<and> (\<forall>request. rq_Key request = k \<longrightarrow>
       validateRequest request = Ok () \<longrightarrow> fst (Assign order order' request s) = Ok (assignment k (nst_node n)))"
    if a: "sl_assignments s k = Some nid" for k nid
  proof -
    obtain n where "sl_nodes s nid = Some n" using selector_okD(2)[OF ok a] by blast
    then show ?thesis using a by (auto simp: Assign_def Let_def)
  qed
  then show ?thesis
    using selector_okD(4)[OF ok] selector_ok_Assign[OF ok assms(2,3)] selector_ok_Release[OF ok]
      node_okD(2)[OF selector_okD(1)[OF ok]] unfolding owned_def by blast
qed

text \<open>C27: (equivalence) Placement of a new key is the choice of the least loaded eligible node, the reference definition in
  \<open>pool\<close> and \<open>rank\<close>: it succeeds exactly when a ready node with a free unit exists in the preferred region (or anywhere, when
  the request allows it and the region has none), it takes a node of least load relative to capacity, the comparison by
  cross multiplication in 64 bits included, and reserves one unit on it; and the order in which the map of nodes is visited
  does not matter unless two candidates have both the same load and the same score.\<close>

theorem Assign_least_loaded:
  assumes "selector_reach s" "set order = dom (sl_nodes s)" "set order' = dom (sl_nodes s)"
    "validateRequest request = Ok ()" "sl_assignments s (rq_Key request) = None"
    "card (dom (sl_assignments s)) < unat (sl_maxAssignments s)"
  shows "(is_Ok (fst (Assign order order' request s)) \<longleftrightarrow> pool request s \<noteq> {}) \<and>
    (pool request s \<noteq> {} \<longrightarrow> (\<exists>n \<in> pool request s.
       (\<forall>m \<in> pool request s. rank (rq_Key request) n \<le> rank (rq_Key request) m) \<and>
       fst (Assign order order' request s) = Ok (assignment (rq_Key request) (nst_node n)) \<and>
       sl_assignments (snd (Assign order order' request s)) = (sl_assignments s)(rq_Key request \<mapsto> nd_ID (nst_node n)) \<and>
       sl_nodes (snd (Assign order order' request s)) = (sl_nodes s)(nd_ID (nst_node n) \<mapsto> n\<lparr>nst_used := nst_used n + 1\<rparr>))) \<and>
    (inj_on (rank (rq_Key request)) (pool request s) \<longrightarrow> set order2 = dom (sl_nodes s) \<longrightarrow> set order2' = dom (sl_nodes s) \<longrightarrow>
       Assign order order' request s = Assign order2 order2' request s)"
proof -
  note ok = selector_reach_ok[OF assms(1)] and F = Assign_fresh[OF selector_reach_ok[OF assms(1)] assms(2-6)]
  have "\<exists>n \<in> pool request s. (\<forall>m \<in> pool request s. rank (rq_Key request) n \<le> rank (rq_Key request) m) \<and>
       fst (Assign order order' request s) = Ok (assignment (rq_Key request) (nst_node n)) \<and>
       sl_assignments (snd (Assign order order' request s)) = (sl_assignments s)(rq_Key request \<mapsto> nd_ID (nst_node n)) \<and>
       sl_nodes (snd (Assign order order' request s)) = (sl_nodes s)(nd_ID (nst_node n) \<mapsto> n\<lparr>nst_used := nst_used n + 1\<rparr>)"
    if "pool request s \<noteq> {}"
    using F(2)[OF that] by (fastforce simp: assigned_def)
  moreover have "is_Ok (fst (Assign order order' request s)) \<longleftrightarrow> pool request s \<noteq> {}"
    using F by (cases "pool request s = {}") fastforce+
  ultimately show ?thesis using Assign_order[OF ok assms(2,3)] by blast
qed

text \<open>A selector with a ready and a draining node.\<close>

definition demo_node :: "gostring \<Rightarrow> gostring \<Rightarrow> Node" where
  "demo_node nid state = \<lparr>nd_ID = nid, nd_Region = [0x78], nd_Capacity = 4, nd_State = state, nd_Generation = 0\<rparr>"

definition demo_selector :: Selector where
  "demo_selector = \<lparr>sl_nodes = [[0x61] \<mapsto> \<lparr>nst_node = demo_node [0x61] StateReady, nst_used = 0\<rparr>,
      [0x62] \<mapsto> \<lparr>nst_node = demo_node [0x62] StateDraining, nst_used = 0\<rparr>],
     sl_assignments = Map.empty, sl_maxAssignments = 10, sl_stats = zero_stats\<rparr>"

definition demo_request :: Request_sel where
  "demo_request = \<lparr>rq_Key = [0x6b], rq_PreferredRegion = [], rq_AllowRegionFallback = False\<rparr>"

lemma demo_reach: "selector_reach demo_selector"
proof (rule reach_New)
  show "New_selector [demo_node [0x61] StateReady, demo_node [0x62] StateDraining] 10 = Ok demo_selector"
    by (simp add: New_selector_def maxNodes_def maxNodeCapacity_def validateNode_def demo_node_def validLabel_def
        maxPlacementLabel_def label_character_def validState_def demo_selector_def)
qed

lemma demo_facts:
  "set [[0x61], [0x62]] = dom (sl_nodes demo_selector)" "set [[0x62], [0x61]] = dom (sl_nodes demo_selector)"
  "validateRequest demo_request = Ok ()" "sl_assignments demo_selector (rq_Key demo_request) = None"
  "card (dom (sl_assignments demo_selector)) < unat (sl_maxAssignments demo_selector)"
  "pool demo_request demo_selector = {\<lparr>nst_node = demo_node [0x61] StateReady, nst_used = 0\<rparr>}"
  by (auto simp: demo_selector_def demo_request_def validateRequest_def validateKey_def TrimSpace_def is_space_def
      maxAssignmentKey_def pool_def eligible_def ready_in_def ran_def demo_node_def StateReady_def StateDraining_def str_def
      split: if_splits)

theorem selector_accounting_witness:
  "card (dom (sl_assignments demo_selector)) \<le> unat (sl_maxAssignments demo_selector) \<and>
   fst (Assign [[0x61], [0x62]] [[0x62], [0x61]] demo_request demo_selector) \<noteq> Panic \<and>
   fst (Release_sel [0x6b] [0x61] demo_selector) \<noteq> Err AccountingMismatch"
  using selector_accounting[OF demo_reach demo_facts(1,2), of demo_request "[0x6b]" "[0x61]"] by blast

theorem Assign_least_loaded_witness:
  "is_Ok (fst (Assign [[0x61], [0x62]] [[0x61], [0x62]] demo_request demo_selector)) \<and>
   Assign [[0x61], [0x62]] [[0x61], [0x62]] demo_request demo_selector =
     Assign [[0x62], [0x61]] [[0x62], [0x61]] demo_request demo_selector"
proof -
  note T = Assign_least_loaded[OF demo_reach demo_facts(1,1,3,4,5), of "[[0x62], [0x61]]" "[[0x62], [0x61]]"]
  have "inj_on (rank (rq_Key demo_request)) (pool demo_request demo_selector)" "pool demo_request demo_selector \<noteq> {}"
    by (simp_all add: demo_facts(6))
  then show ?thesis using T demo_facts(2) by blast
qed

end
