(* ===== verification/Gtpv2_Tft.thy ===== *)
theory Gtpv2_Tft
  imports Gtpv2_IE Netip
begin

unbundle bit_operations_syntax

text \<open>
  Traffic flow templates, \<^verbatim>\<open>pkg/gtpv2/tft.go\<close>: the strict parser and writer of the Bearer TFT value (TS 24.008), the
  translation of a packet filter to its IPv4 form, and the classification of IPv4 packets. The loops of the parser keep
  the octets from the current offset on; every read is checked against them, so that a read past the end is \<open>Panic\<close>.
\<close>

section \<open>Data\<close>

datatype tft_error = ErrMalformedIE_tft | ErrUnsupportedTFTComponent

definition TFTOperationIgnore :: byte where "TFTOperationIgnore = 0"
definition TFTOperationCreate :: byte where "TFTOperationCreate = 1"
definition TFTOperationDelete :: byte where "TFTOperationDelete = 2"
definition TFTOperationAddFilters :: byte where "TFTOperationAddFilters = 3"
definition TFTOperationReplaceFilters :: byte where "TFTOperationReplaceFilters = 4"
definition TFTOperationDeleteFilters :: byte where "TFTOperationDeleteFilters = 5"
definition TFTOperationNoOperation :: byte where "TFTOperationNoOperation = 6"

lemmas tft_operations = TFTOperationIgnore_def TFTOperationCreate_def TFTOperationDelete_def TFTOperationAddFilters_def
  TFTOperationReplaceFilters_def TFTOperationDeleteFilters_def TFTOperationNoOperation_def

type_synonym TFTDirection = byte

definition TFTDirectionPreRelease7 :: TFTDirection where "TFTDirectionPreRelease7 = 0"
definition TFTDirectionDownlink :: TFTDirection where "TFTDirectionDownlink = 1"
definition TFTDirectionUplink :: TFTDirection where "TFTDirectionUplink = 2"
definition TFTDirectionBidirectional :: TFTDirection where "TFTDirectionBidirectional = 3"

lemmas tft_directions = TFTDirectionPreRelease7_def TFTDirectionDownlink_def TFTDirectionUplink_def
  TFTDirectionBidirectional_def

definition TFTComponentIPv4RemoteAddress :: byte where "TFTComponentIPv4RemoteAddress = 0x10"
definition TFTComponentIPv4LocalAddress :: byte where "TFTComponentIPv4LocalAddress = 0x11"
definition TFTComponentIPv6RemoteAddress :: byte where "TFTComponentIPv6RemoteAddress = 0x20"
definition TFTComponentIPv6RemotePrefix :: byte where "TFTComponentIPv6RemotePrefix = 0x21"
definition TFTComponentIPv6LocalPrefix :: byte where "TFTComponentIPv6LocalPrefix = 0x23"
definition TFTComponentProtocol :: byte where "TFTComponentProtocol = 0x30"
definition TFTComponentSingleLocalPort :: byte where "TFTComponentSingleLocalPort = 0x40"
definition TFTComponentLocalPortRange :: byte where "TFTComponentLocalPortRange = 0x41"
definition TFTComponentSingleRemotePort :: byte where "TFTComponentSingleRemotePort = 0x50"
definition TFTComponentRemotePortRange :: byte where "TFTComponentRemotePortRange = 0x51"
definition TFTComponentSecurityParameterIndex :: byte where "TFTComponentSecurityParameterIndex = 0x60"
definition TFTComponentTypeOfService :: byte where "TFTComponentTypeOfService = 0x70"
definition TFTComponentFlowLabel :: byte where "TFTComponentFlowLabel = 0x80"
definition TFTComponentDestinationMAC :: byte where "TFTComponentDestinationMAC = 0x81"
definition TFTComponentSourceMAC :: byte where "TFTComponentSourceMAC = 0x82"
definition TFTComponentCustomerVLANID :: byte where "TFTComponentCustomerVLANID = 0x83"
definition TFTComponentServiceVLANID :: byte where "TFTComponentServiceVLANID = 0x84"
definition TFTComponentCustomerVLANPriority :: byte where "TFTComponentCustomerVLANPriority = 0x85"
definition TFTComponentServiceVLANPriority :: byte where "TFTComponentServiceVLANPriority = 0x86"
definition TFTComponentEtherType :: byte where "TFTComponentEtherType = 0x87"

lemmas tft_components = TFTComponentIPv4RemoteAddress_def TFTComponentIPv4LocalAddress_def TFTComponentIPv6RemoteAddress_def
  TFTComponentIPv6RemotePrefix_def TFTComponentIPv6LocalPrefix_def TFTComponentProtocol_def TFTComponentSingleLocalPort_def
  TFTComponentLocalPortRange_def TFTComponentSingleRemotePort_def TFTComponentRemotePortRange_def
  TFTComponentSecurityParameterIndex_def TFTComponentTypeOfService_def TFTComponentFlowLabel_def
  TFTComponentDestinationMAC_def TFTComponentSourceMAC_def TFTComponentCustomerVLANID_def TFTComponentServiceVLANID_def
  TFTComponentCustomerVLANPriority_def TFTComponentServiceVLANPriority_def TFTComponentEtherType_def

record PacketFilterComponent =
  pc_Type :: byte
  pc_Value :: "byte list"

record PacketFilter =
  pf_ID :: byte
  pf_Direction :: TFTDirection
  pf_Precedence :: byte
  pf_Components :: "PacketFilterComponent list"

record TFTParameter =
  tp_ID :: byte
  tp_Value :: "byte list"

record TrafficFlowTemplate =
  tf_Operation :: byte
  tf_ParametersIncluded :: bool
  tf_Filters :: "PacketFilter list"
  tf_DeleteFilterIDs :: "byte list"
  tf_Parameters :: "TFTParameter list"

section \<open>Components\<close>

definition tftComponentLength :: "byte \<Rightarrow> nat option" where
  "tftComponentLength ty =
     (if ty = TFTComponentIPv4RemoteAddress \<or> ty = TFTComponentIPv4LocalAddress then Some 8
      else if ty = TFTComponentIPv6RemoteAddress then Some 32
      else if ty = TFTComponentIPv6RemotePrefix \<or> ty = TFTComponentIPv6LocalPrefix then Some 17
      else if ty = TFTComponentProtocol \<or> ty = TFTComponentCustomerVLANPriority \<or> ty = TFTComponentServiceVLANPriority
      then Some 1
      else if ty = TFTComponentSingleLocalPort \<or> ty = TFTComponentSingleRemotePort \<or> ty = TFTComponentTypeOfService
        \<or> ty = TFTComponentCustomerVLANID \<or> ty = TFTComponentServiceVLANID \<or> ty = TFTComponentEtherType then Some 2
      else if ty = TFTComponentFlowLabel then Some 3
      else if ty = TFTComponentLocalPortRange \<or> ty = TFTComponentRemotePortRange
        \<or> ty = TFTComponentSecurityParameterIndex then Some 4
      else if ty = TFTComponentDestinationMAC \<or> ty = TFTComponentSourceMAC then Some 6
      else None)"

definition malformed_when :: "bool \<Rightarrow> (tft_error, unit) outcome" where
  "malformed_when b = (if b then Err ErrMalformedIE_tft else Ok ())"

definition validateTFTComponentValue :: "byte \<Rightarrow> byte list \<Rightarrow> (tft_error, unit) outcome" where
  "validateTFTComponentValue ty v =
     (if ty = TFTComponentIPv6RemotePrefix \<or> ty = TFTComponentIPv6LocalPrefix then
        andThen (byte_at v 16) (\<lambda>b. malformed_when (b > 128))
      else if ty = TFTComponentLocalPortRange \<or> ty = TFTComponentRemotePortRange then
        andThen (read16 v 0) (\<lambda>low. andThen (read16 v 2) (\<lambda>high. malformed_when (low > high)))
      else if ty = TFTComponentFlowLabel then andThen (byte_at v 0) (\<lambda>b. malformed_when (b AND 0xf0 \<noteq> 0))
      else if ty = TFTComponentCustomerVLANID \<or> ty = TFTComponentServiceVLANID then
        andThen (byte_at v 0) (\<lambda>b. malformed_when (b AND 0xf0 \<noteq> 0))
      else if ty = TFTComponentCustomerVLANPriority \<or> ty = TFTComponentServiceVLANPriority then
        andThen (byte_at v 0) (\<lambda>b. malformed_when (b AND 0xf0 \<noteq> 0))
      else Ok ())"

definition hasAnyTFTComponent :: "byte set \<Rightarrow> byte list \<Rightarrow> bool" where
  "hasAnyTFTComponent seen types \<longleftrightarrow> (\<exists>ty \<in> set types. ty \<in> seen)"

text \<open>The EtherType of the last component that has one, zero without one.\<close>

fun ether_type :: "PacketFilterComponent list \<Rightarrow> 16 word \<Rightarrow> (tft_error, 16 word) outcome" where
  "ether_type [] etherType = Ok etherType"
| "ether_type (c # cs) etherType = (if pc_Type c = TFTComponentEtherType
     then andThen (read16 (pc_Value c) 0) (\<lambda>w. ether_type cs w) else ether_type cs etherType)"

definition mixes_ether_type :: "byte set \<Rightarrow> 16 word \<Rightarrow> bool" where
  "mixes_ether_type seen etherType =
     (let ipv4 = hasAnyTFTComponent seen [TFTComponentIPv4RemoteAddress, TFTComponentIPv4LocalAddress];
          ipv6 = hasAnyTFTComponent seen [TFTComponentIPv6RemoteAddress, TFTComponentIPv6RemotePrefix,
            TFTComponentIPv6LocalPrefix, TFTComponentFlowLabel];
          ipCommon = hasAnyTFTComponent seen [TFTComponentProtocol, TFTComponentSingleLocalPort, TFTComponentLocalPortRange,
            TFTComponentSingleRemotePort, TFTComponentRemotePortRange, TFTComponentSecurityParameterIndex,
            TFTComponentTypeOfService]
      in if etherType = 0 then False
         else if etherType = 0x0800 then ipv6
         else if etherType = 0x86dd then ipv4
         else ipv4 \<or> ipv6 \<or> ipCommon)"

definition validateTFTComponentCombinations :: "byte set \<Rightarrow> PacketFilterComponent list \<Rightarrow> (tft_error, unit) outcome" where
  "validateTFTComponentCombinations seen components =
     (if hasAnyTFTComponent seen [TFTComponentIPv4RemoteAddress]
        \<and> hasAnyTFTComponent seen [TFTComponentIPv6RemoteAddress, TFTComponentIPv6RemotePrefix] then Err ErrMalformedIE_tft
      else if hasAnyTFTComponent seen [TFTComponentIPv4LocalAddress] \<and> hasAnyTFTComponent seen [TFTComponentIPv6LocalPrefix]
      then Err ErrMalformedIE_tft
      else if hasAnyTFTComponent seen [TFTComponentIPv6RemoteAddress, TFTComponentIPv6RemotePrefix]
        \<and> hasAnyTFTComponent seen [TFTComponentIPv6RemoteAddress] \<and> hasAnyTFTComponent seen [TFTComponentIPv6RemotePrefix]
      then Err ErrMalformedIE_tft
      else if hasAnyTFTComponent seen [TFTComponentSingleLocalPort] \<and> hasAnyTFTComponent seen [TFTComponentLocalPortRange]
      then Err ErrMalformedIE_tft
      else if hasAnyTFTComponent seen [TFTComponentSingleRemotePort] \<and> hasAnyTFTComponent seen [TFTComponentRemotePortRange]
      then Err ErrMalformedIE_tft
      else andThen (ether_type components 0) (\<lambda>etherType. malformed_when (mixes_ether_type seen etherType)))"

text \<open>The loop of \<^verbatim>\<open>parseTFTComponents\<close>; the set \<^verbatim>\<open>seen\<close> is the set of types of the components so far.\<close>

function parse_components :: "byte list \<Rightarrow> PacketFilterComponent list \<Rightarrow> (tft_error, PacketFilterComponent list) outcome" where
  "parse_components rest components =
     (if rest = [] then Ok components
      else andThen (byte_at rest 0) (\<lambda>ty.
        case tftComponentLength ty of None \<Rightarrow> Err ErrMalformedIE_tft
        | Some n \<Rightarrow>
          if n > length rest - 1 then Err ErrMalformedIE_tft
          else if ty \<in> pc_Type ` set components then Err ErrMalformedIE_tft
          else andThen (slice rest 1 (1 + n)) (\<lambda>v.
            andThen (validateTFTComponentValue ty v) (\<lambda>_.
            parse_components (drop (1 + n) rest) (components @ [\<lparr>pc_Type = ty, pc_Value = v\<rparr>])))))"
  by pat_completeness auto
termination by (relation "measure (\<lambda>(rest, _). length rest)") auto

declare parse_components.simps [simp del]

definition parseTFTComponents :: "byte list \<Rightarrow> (tft_error, PacketFilterComponent list) outcome" where
  "parseTFTComponents contents = andThen (parse_components contents []) (\<lambda>components.
     andThen (validateTFTComponentCombinations (pc_Type ` set components) components) (\<lambda>_. Ok components))"

section \<open>The parser\<close>

text \<open>The three loops of \<^verbatim>\<open>ParseBearerTFT\<close>: identifiers to delete, packet filters, parameters.\<close>

fun parse_delete_ids :: "nat \<Rightarrow> byte list \<Rightarrow> byte list \<Rightarrow> (tft_error, byte list \<times> byte list) outcome" where
  "parse_delete_ids 0 rest ids = Ok (ids, rest)"
| "parse_delete_ids (Suc n) rest ids =
     (if length rest = 0 then Err ErrMalformedIE_tft
      else andThen (byte_at rest 0) (\<lambda>encoded.
        if encoded AND 0xf0 \<noteq> 0 then Err ErrMalformedIE_tft
        else let i = encoded AND 0x0f in
          if i \<in> set ids then Err ErrMalformedIE_tft
          else parse_delete_ids n (drop 1 rest) (ids @ [i])))"

fun parse_filters :: "nat \<Rightarrow> byte list \<Rightarrow> PacketFilter list \<Rightarrow> (tft_error, PacketFilter list \<times> byte list) outcome" where
  "parse_filters 0 rest filters = Ok (filters, rest)"
| "parse_filters (Suc n) rest filters =
     (if length rest < 3 then Err ErrMalformedIE_tft
      else andThen (byte_at rest 0) (\<lambda>identity. andThen (byte_at rest 1) (\<lambda>precedence. andThen (byte_at rest 2) (\<lambda>b.
        let contentLength = unat b; rest = drop 3 rest in
        if identity AND 0xc0 \<noteq> 0 then Err ErrMalformedIE_tft
        else if contentLength = 0 \<or> contentLength > length rest then Err ErrMalformedIE_tft
        else let i = identity AND 0x0f in
          if i \<in> pf_ID ` set filters then Err ErrMalformedIE_tft
          else if precedence \<in> pf_Precedence ` set filters then Err ErrMalformedIE_tft
          else andThen (slice rest 0 contentLength) (\<lambda>contents.
            andThen (parseTFTComponents contents) (\<lambda>components.
            parse_filters n (drop contentLength rest) (filters @ [\<lparr>pf_ID = i,
              pf_Direction = drop_bit 4 identity AND 0x03, pf_Precedence = precedence, pf_Components = components\<rparr>])))))))"

function parse_parameters :: "byte list \<Rightarrow> TFTParameter list \<Rightarrow> (tft_error, TFTParameter list) outcome" where
  "parse_parameters rest parameters =
     (if rest = [] then Ok parameters
      else if length rest < 2 then Err ErrMalformedIE_tft
      else andThen (byte_at rest 0) (\<lambda>i. andThen (byte_at rest 1) (\<lambda>b.
        let n = unat b; rest' = drop 2 rest in
        if n > length rest' then Err ErrMalformedIE_tft
        else andThen (slice rest' 0 n) (\<lambda>v.
          parse_parameters (drop n rest') (parameters @ [\<lparr>tp_ID = i, tp_Value = v\<rparr>])))))"
  by pat_completeness auto
termination by (relation "measure (\<lambda>(rest, _). length rest)") auto

declare parse_parameters.simps [simp del]

definition has_filters :: "byte \<Rightarrow> bool" where
  "has_filters operation \<longleftrightarrow> operation = TFTOperationCreate \<or> operation = TFTOperationAddFilters
     \<or> operation = TFTOperationReplaceFilters"

definition ParseBearerTFT :: "byte list \<Rightarrow> (tft_error, TrafficFlowTemplate) outcome" where
  "ParseBearerTFT v =
     (if length v = 0 \<or> length v > 255 then Err ErrMalformedIE_tft
      else andThen (byte_at v 0) (\<lambda>first.
        let operation = drop_bit 5 first; included = first AND 0x10 \<noteq> 0; n = unat (first AND 0x0f) in
        if operation > TFTOperationNoOperation then Err ErrMalformedIE_tft
        else if operation = TFTOperationIgnore then
          (if included \<or> n \<noteq> 0 \<or> length v \<noteq> 1 then Err ErrMalformedIE_tft
           else Ok \<lparr>tf_Operation = operation, tf_ParametersIncluded = included, tf_Filters = [], tf_DeleteFilterIDs = [],
             tf_Parameters = []\<rparr>)
        else if (operation = TFTOperationDelete \<or> operation = TFTOperationNoOperation) \<and> n \<noteq> 0 then Err ErrMalformedIE_tft
        else if \<not> (operation = TFTOperationDelete \<or> operation = TFTOperationNoOperation) \<and> n = 0 then Err ErrMalformedIE_tft
        else if operation = TFTOperationNoOperation \<and> \<not> included then Err ErrMalformedIE_tft
        else andThen (if operation = TFTOperationDeleteFilters then parse_delete_ids n (drop 1 v) [] else Ok ([], drop 1 v))
          (\<lambda>(ids, rest).
        andThen (if has_filters operation then parse_filters n rest [] else Ok ([], rest)) (\<lambda>(filters, rest).
        andThen (if included then (if rest = [] then Err ErrMalformedIE_tft else parse_parameters rest [])
            else if rest \<noteq> [] then Err ErrMalformedIE_tft else Ok []) (\<lambda>parameters.
        Ok \<lparr>tf_Operation = operation, tf_ParametersIncluded = included, tf_Filters = filters, tf_DeleteFilterIDs = ids,
          tf_Parameters = parameters\<rparr>)))))"

definition IEBearerTFT :: byte where "IEBearerTFT = 84"

definition BearerTFT_IE :: "IE \<Rightarrow> (tft_error, TrafficFlowTemplate) outcome" where
  "BearerTFT_IE ie = (if ie_Type ie \<noteq> IEBearerTFT then Err ErrMalformedIE_tft else ParseBearerTFT (ie_Value ie))"

section \<open>The writer\<close>

fun marshal_components :: "PacketFilterComponent list \<Rightarrow> byte list \<Rightarrow> (tft_error, byte list) outcome" where
  "marshal_components [] contents = Ok contents"
| "marshal_components (c # cs) contents = (case tftComponentLength (pc_Type c) of None \<Rightarrow> Err ErrMalformedIE_tft
     | Some expected \<Rightarrow> if length (pc_Value c) \<noteq> expected then Err ErrMalformedIE_tft
         else marshal_components cs (contents @ [pc_Type c] @ pc_Value c))"

fun marshal_filters :: "PacketFilter list \<Rightarrow> byte list \<Rightarrow> (tft_error, byte list) outcome" where
  "marshal_filters [] out = Ok out"
| "marshal_filters (f # fs) out =
     (if pf_ID f > 15 \<or> pf_Direction f > TFTDirectionBidirectional then Err ErrMalformedIE_tft
      else andThen (marshal_components (pf_Components f) []) (\<lambda>contents.
        if length contents = 0 \<or> length contents > 255 then Err ErrMalformedIE_tft
        else marshal_filters fs (out @ [push_bit 4 (pf_Direction f) OR pf_ID f, pf_Precedence f, of_nat (length contents)]
          @ contents)))"

fun marshal_ids :: "byte list \<Rightarrow> byte list \<Rightarrow> (tft_error, byte list) outcome" where
  "marshal_ids [] out = Ok out"
| "marshal_ids (i # ids) out = (if i > 15 then Err ErrMalformedIE_tft else marshal_ids ids (out @ [i]))"

fun marshal_parameters :: "TFTParameter list \<Rightarrow> byte list \<Rightarrow> (tft_error, byte list) outcome" where
  "marshal_parameters [] out = Ok out"
| "marshal_parameters (p # ps) out = (if length (tp_Value p) > 255 then Err ErrMalformedIE_tft
     else marshal_parameters ps (out @ [tp_ID p, of_nat (length (tp_Value p))] @ tp_Value p))"

text \<open>The first switch of \<^verbatim>\<open>MarshalBearerTFT\<close>: what an operation may carry, and its count.\<close>

definition marshal_count :: "TrafficFlowTemplate \<Rightarrow> (tft_error, nat) outcome" where
  "marshal_count tft =
     (let operation = tf_Operation tft; filters = tf_Filters tft; ids = tf_DeleteFilterIDs tft; ps = tf_Parameters tft in
      if operation = TFTOperationIgnore then
        (if filters \<noteq> [] \<or> ids \<noteq> [] \<or> ps \<noteq> [] then Err ErrMalformedIE_tft else Ok 0)
      else if has_filters operation then
        (if filters = [] \<or> ids \<noteq> [] then Err ErrMalformedIE_tft else Ok (length filters))
      else if operation = TFTOperationDelete then
        (if filters \<noteq> [] \<or> ids \<noteq> [] then Err ErrMalformedIE_tft else Ok 0)
      else if operation = TFTOperationDeleteFilters then
        (if ids = [] \<or> filters \<noteq> [] then Err ErrMalformedIE_tft else Ok (length ids))
      else if operation = TFTOperationNoOperation then
        (if filters \<noteq> [] \<or> ids \<noteq> [] \<or> ps = [] then Err ErrMalformedIE_tft else Ok 0)
      else Ok 0)"

definition control_octet :: "byte \<Rightarrow> nat \<Rightarrow> bool \<Rightarrow> byte" where
  "control_octet operation n included =
     (let control = push_bit 5 operation OR of_nat n in if included then control OR 0x10 else control)"

definition marshal_body :: "TrafficFlowTemplate \<Rightarrow> byte list \<Rightarrow> (tft_error, byte list) outcome" where
  "marshal_body tft out = (if has_filters (tf_Operation tft) then marshal_filters (tf_Filters tft) out
     else if tf_Operation tft = TFTOperationDeleteFilters then marshal_ids (tf_DeleteFilterIDs tft) out
     else Ok out)"

definition MarshalBearerTFT :: "TrafficFlowTemplate \<Rightarrow> (tft_error, byte list) outcome" where
  "MarshalBearerTFT tft =
     (if tf_Operation tft > TFTOperationNoOperation then Err ErrMalformedIE_tft
      else if tf_ParametersIncluded tft \<noteq> (length (tf_Parameters tft) \<noteq> 0) then Err ErrMalformedIE_tft
      else if length (tf_Filters tft) > 15 \<or> length (tf_DeleteFilterIDs tft) > 15 then Err ErrMalformedIE_tft
      else andThen (marshal_count tft) (\<lambda>n.
        let out = [control_octet (tf_Operation tft) n (tf_ParametersIncluded tft)] in
        andThen (marshal_body tft out) (\<lambda>out.
        andThen (marshal_parameters (tf_Parameters tft) out) (\<lambda>out.
        if length out > 255 then Err ErrMalformedIE_tft
        else andThen (ParseBearerTFT out) (\<lambda>_. Ok out)))))"

definition NewBearerTFTIE :: "byte \<Rightarrow> TrafficFlowTemplate \<Rightarrow> (tft_error, IE) outcome" where
  "NewBearerTFTIE inst tft = (if inst > 15 then Err ErrMalformedIE_tft
     else andThen (MarshalBearerTFT tft) (\<lambda>v. Ok \<lparr>ie_Type = IEBearerTFT, ie_Instance = inst, ie_Value = v\<rparr>))"

section \<open>Classification of IPv4 packets\<close>

record IPv4PacketFilter =
  vf_ID :: byte
  vf_Direction :: TFTDirection
  vf_Precedence :: byte
  vf_HasLocalAddress :: bool
  vf_LocalAddress :: Addr
  vf_LocalAddressMask :: Addr
  vf_HasRemoteAddress :: bool
  vf_RemoteAddress :: Addr
  vf_RemoteAddressMask :: Addr
  vf_HasProtocol :: bool
  vf_Protocol :: byte
  vf_HasLocalPort :: bool
  vf_LocalPortLow :: "16 word"
  vf_LocalPortHigh :: "16 word"
  vf_HasRemotePort :: bool
  vf_RemotePortLow :: "16 word"
  vf_RemotePortHigh :: "16 word"
  vf_HasTypeOfService :: bool
  vf_TypeOfService :: byte
  vf_TypeOfServiceMask :: byte

definition unfiltered :: "PacketFilter \<Rightarrow> IPv4PacketFilter" where
  "unfiltered f = \<lparr>vf_ID = pf_ID f, vf_Direction = pf_Direction f, vf_Precedence = pf_Precedence f,
     vf_HasLocalAddress = False, vf_LocalAddress = AddrZero, vf_LocalAddressMask = AddrZero,
     vf_HasRemoteAddress = False, vf_RemoteAddress = AddrZero, vf_RemoteAddressMask = AddrZero,
     vf_HasProtocol = False, vf_Protocol = 0, vf_HasLocalPort = False, vf_LocalPortLow = 0, vf_LocalPortHigh = 0,
     vf_HasRemotePort = False, vf_RemotePortLow = 0, vf_RemotePortHigh = 0,
     vf_HasTypeOfService = False, vf_TypeOfService = 0, vf_TypeOfServiceMask = 0\<rparr>"

text \<open>One component of a filter, as a case of the switch in \<^verbatim>\<open>PacketFilter.IPv4\<close>.\<close>

definition component_IPv4 :: "PacketFilterComponent \<Rightarrow> IPv4PacketFilter \<Rightarrow> (tft_error, IPv4PacketFilter) outcome" where
  "component_IPv4 c out = (let ty = pc_Type c; v = pc_Value c in
     if ty = TFTComponentIPv4LocalAddress then
       andThen (slice v 0 4) (\<lambda>a. andThen (slice v 4 8) (\<lambda>m.
         Ok (out\<lparr>vf_HasLocalAddress := True, vf_LocalAddress := AddrFrom4 a, vf_LocalAddressMask := AddrFrom4 m\<rparr>)))
     else if ty = TFTComponentIPv4RemoteAddress then
       andThen (slice v 0 4) (\<lambda>a. andThen (slice v 4 8) (\<lambda>m.
         Ok (out\<lparr>vf_HasRemoteAddress := True, vf_RemoteAddress := AddrFrom4 a, vf_RemoteAddressMask := AddrFrom4 m\<rparr>)))
     else if ty = TFTComponentProtocol then
       andThen (byte_at v 0) (\<lambda>p. Ok (out\<lparr>vf_HasProtocol := True, vf_Protocol := p\<rparr>))
     else if ty = TFTComponentSingleLocalPort then
       andThen (read16 v 0) (\<lambda>p. Ok (out\<lparr>vf_HasLocalPort := True, vf_LocalPortLow := p, vf_LocalPortHigh := p\<rparr>))
     else if ty = TFTComponentLocalPortRange then
       andThen (read16 v 0) (\<lambda>low. andThen (read16 v 2) (\<lambda>high.
         Ok (out\<lparr>vf_HasLocalPort := True, vf_LocalPortLow := low, vf_LocalPortHigh := high\<rparr>)))
     else if ty = TFTComponentSingleRemotePort then
       andThen (read16 v 0) (\<lambda>p. Ok (out\<lparr>vf_HasRemotePort := True, vf_RemotePortLow := p, vf_RemotePortHigh := p\<rparr>))
     else if ty = TFTComponentRemotePortRange then
       andThen (read16 v 0) (\<lambda>low. andThen (read16 v 2) (\<lambda>high.
         Ok (out\<lparr>vf_HasRemotePort := True, vf_RemotePortLow := low, vf_RemotePortHigh := high\<rparr>)))
     else if ty = TFTComponentTypeOfService then
       andThen (byte_at v 0) (\<lambda>tos. andThen (byte_at v 1) (\<lambda>m.
         Ok (out\<lparr>vf_HasTypeOfService := True, vf_TypeOfService := tos, vf_TypeOfServiceMask := m\<rparr>)))
     else if ty = TFTComponentEtherType then
       andThen (read16 v 0) (\<lambda>w. if w \<noteq> 0x0800 then Err ErrUnsupportedTFTComponent else Ok out)
     else Err ErrUnsupportedTFTComponent)"

fun components_IPv4 :: "PacketFilterComponent list \<Rightarrow> IPv4PacketFilter \<Rightarrow> (tft_error, IPv4PacketFilter) outcome" where
  "components_IPv4 [] out = Ok out"
| "components_IPv4 (c # cs) out = andThen (component_IPv4 c out) (\<lambda>out. components_IPv4 cs out)"

definition IPv4_filter :: "PacketFilter \<Rightarrow> (tft_error, IPv4PacketFilter) outcome" where
  "IPv4_filter f = components_IPv4 (pf_Components f) (unfiltered f)"

definition AppliesTo :: "IPv4PacketFilter \<Rightarrow> TFTDirection \<Rightarrow> bool" where
  "AppliesTo f direction =
     (if direction \<noteq> TFTDirectionDownlink \<and> direction \<noteq> TFTDirectionUplink then False
      else if vf_Direction f = TFTDirectionDownlink \<or> vf_Direction f = TFTDirectionUplink then vf_Direction f = direction
      else vf_Direction f = TFTDirectionBidirectional)"

definition maskedIPv4Equal :: "Addr \<Rightarrow> Addr \<Rightarrow> Addr \<Rightarrow> bool" where
  "maskedIPv4Equal got want msk = (case (got, want, msk) of
     (Addr4 g, Addr4 w, Addr4 m) \<Rightarrow> \<forall>i < 4. (put32 g ! i) AND (put32 m ! i) = (put32 w ! i) AND (put32 m ! i)
   | _ \<Rightarrow> False)"

text \<open>The source and destination of a packet as the local (UE) and the remote end.\<close>

definition local_remote :: "TFTDirection \<Rightarrow> 'a \<Rightarrow> 'a \<Rightarrow> 'a \<times> 'a" where
  "local_remote direction source destination =
     (if direction = TFTDirectionDownlink then (destination, source) else (source, destination))"

definition match_addresses :: "IPv4PacketFilter \<Rightarrow> TFTDirection \<Rightarrow> Addr \<Rightarrow> Addr \<Rightarrow> bool" where
  "match_addresses f direction source destination =
     (let ends = local_remote direction source destination in
      \<not> (vf_HasLocalAddress f \<and> \<not> maskedIPv4Equal (fst ends) (vf_LocalAddress f) (vf_LocalAddressMask f)) \<and>
      \<not> (vf_HasRemoteAddress f \<and> \<not> maskedIPv4Equal (snd ends) (vf_RemoteAddress f) (vf_RemoteAddressMask f)))"

definition match_ports ::
  "IPv4PacketFilter \<Rightarrow> TFTDirection \<Rightarrow> byte list \<Rightarrow> nat \<Rightarrow> byte \<Rightarrow> (tft_error, bool) outcome" where
  "match_ports f direction packet headerLength protocol =
     (if \<not> vf_HasLocalPort f \<and> \<not> vf_HasRemotePort f then Ok True
      else andThen (read16 packet 6) (\<lambda>fragment.
        if fragment AND 0x1fff \<noteq> 0 \<or> (protocol \<noteq> 6 \<and> protocol \<noteq> 17 \<and> protocol \<noteq> 132) \<or> length packet < headerLength + 4
        then Ok False
        else andThen (read16 packet headerLength) (\<lambda>source. andThen (read16 packet (headerLength + 2)) (\<lambda>destination.
          let ends = local_remote direction source destination in
          Ok (\<not> (vf_HasLocalPort f \<and> (fst ends < vf_LocalPortLow f \<or> fst ends > vf_LocalPortHigh f)) \<and>
            \<not> (vf_HasRemotePort f \<and> (snd ends < vf_RemotePortLow f \<or> snd ends > vf_RemotePortHigh f)))))))"

definition match_header ::
  "IPv4PacketFilter \<Rightarrow> TFTDirection \<Rightarrow> byte list \<Rightarrow> nat \<Rightarrow> (tft_error, bool) outcome" where
  "match_header f direction packet headerLength =
     andThen (byte_at packet 9) (\<lambda>protocol.
     if vf_HasProtocol f \<and> protocol \<noteq> vf_Protocol f then Ok False
     else andThen (slice packet 12 16) (\<lambda>source. andThen (slice packet 16 20) (\<lambda>destination.
     if \<not> match_addresses f direction (AddrFrom4 source) (AddrFrom4 destination) then Ok False
     else andThen (byte_at packet 1) (\<lambda>tos.
     if vf_HasTypeOfService f \<and> tos AND vf_TypeOfServiceMask f \<noteq> vf_TypeOfService f AND vf_TypeOfServiceMask f
     then Ok False
     else match_ports f direction packet headerLength protocol))))"

definition Matches_filter :: "IPv4PacketFilter \<Rightarrow> byte list \<Rightarrow> TFTDirection \<Rightarrow> (tft_error, bool) outcome" where
  "Matches_filter f packet direction =
     (if \<not> AppliesTo f direction \<or> length packet < 20 then Ok False
      else andThen (byte_at packet 0) (\<lambda>b0.
        let headerLength = unat (b0 AND 0x0f) * 4 in
        if drop_bit 4 b0 \<noteq> 4 then Ok False
        else if headerLength < 20 \<or> headerLength > length packet then Ok False
        else andThen (read16 packet 2) (\<lambda>w. let totalLength = unat w in
          if totalLength < headerLength \<or> totalLength > length packet then Ok False
          else andThen (slice packet 0 totalLength) (\<lambda>packet. match_header f direction packet headerLength))))"

fun match_filters :: "PacketFilter list \<Rightarrow> byte list \<Rightarrow> TFTDirection \<Rightarrow> (tft_error, PacketFilter option) outcome" where
  "match_filters [] packet direction = Ok None"
| "match_filters (candidate # fs) packet direction =
     (if pf_Direction candidate \<noteq> TFTDirectionBidirectional \<and> pf_Direction candidate \<noteq> direction
      then match_filters fs packet direction
      else andThen (IPv4_filter candidate) (\<lambda>f. andThen (Matches_filter f packet direction) (\<lambda>matched.
        if matched then Ok (Some candidate) else match_filters fs packet direction)))"

definition MatchIPv4 :: "TrafficFlowTemplate \<Rightarrow> byte list \<Rightarrow> TFTDirection \<Rightarrow> (tft_error, PacketFilter option) outcome" where
  "MatchIPv4 tft packet direction = match_filters (sort_key pf_Precedence (tf_Filters tft)) packet direction"

definition cloneTFT :: "TrafficFlowTemplate \<Rightarrow> TrafficFlowTemplate" where
  "cloneTFT i = i\<lparr>tf_DeleteFilterIDs := tf_DeleteFilterIDs i,
     tf_Filters := map (\<lambda>f. f\<lparr>pf_Components := map (\<lambda>c. \<lparr>pc_Type = pc_Type c, pc_Value = pc_Value c\<rparr>) (pf_Components f)\<rparr>)
       (tf_Filters i),
     tf_Parameters := map (\<lambda>p. \<lparr>tp_ID = tp_ID p, tp_Value = tp_Value p\<rparr>) (tf_Parameters i)\<rparr>"

definition flip_direction :: "PacketFilter \<Rightarrow> PacketFilter" where
  "flip_direction f = (if pf_Direction f = TFTDirectionDownlink then f\<lparr>pf_Direction := TFTDirectionUplink\<rparr>
     else if pf_Direction f = TFTDirectionUplink then f\<lparr>pf_Direction := TFTDirectionDownlink\<rparr> else f)"

definition NormalizeDirections :: "TrafficFlowTemplate \<Rightarrow> bool \<Rightarrow> TrafficFlowTemplate" where
  "NormalizeDirections tft expectFlipped = (let out = cloneTFT tft in
     if \<not> expectFlipped then out else out\<lparr>tf_Filters := map flip_direction (tf_Filters out)\<rparr>)"

section \<open>What the loops accept\<close>

text \<open>Each loop reads exactly the concatenation of the encodings of what it returns.\<close>

definition emit_component :: "PacketFilterComponent \<Rightarrow> byte list" where
  "emit_component c = pc_Type c # pc_Value c"

definition good_component :: "PacketFilterComponent \<Rightarrow> bool" where
  "good_component c \<longleftrightarrow> tftComponentLength (pc_Type c) = Some (length (pc_Value c)) \<and>
     validateTFTComponentValue (pc_Type c) (pc_Value c) = Ok ()"

lemma parse_components_step:
  assumes "good_component c" "pc_Type c \<notin> pc_Type ` set acc"
  shows "parse_components (emit_component c @ rest) acc = parse_components rest (acc @ [c])"
  using assms
  by (subst parse_components.simps, cases c) (auto simp: good_component_def emit_component_def byte_at_def slice_def)

lemma parse_components_emit:
  "\<forall>c \<in> set new. good_component c \<Longrightarrow> distinct (map pc_Type new) \<Longrightarrow> pc_Type ` set new \<inter> pc_Type ` set acc = {} \<Longrightarrow>
   parse_components (concat (map emit_component new)) acc = Ok (acc @ new)"
proof (induction new arbitrary: acc)
  case Nil
  then show ?case by (simp add: parse_components.simps)
next
  case (Cons c new)
  then show ?case using parse_components_step[of c acc "concat (map emit_component new)"] by auto
qed

lemma parse_components_Ok:
  "parse_components rest acc = Ok out \<Longrightarrow> \<exists>new. out = acc @ new \<and> rest = concat (map emit_component new) \<and>
     (\<forall>c \<in> set new. good_component c) \<and> distinct (map pc_Type new) \<and> pc_Type ` set new \<inter> pc_Type ` set acc = {}"
proof (induction rest acc rule: parse_components.induct)
  case (1 rest acc)
  show ?case
  proof (cases rest)
    case Nil
    then show ?thesis using 1(2) by (simp add: parse_components.simps)
  next
    case (Cons ty rest')
    obtain n where n: "tftComponentLength ty = Some n" "n \<le> length rest'" "ty \<notin> pc_Type ` set acc"
      "validateTFTComponentValue ty (take n rest') = Ok ()"
      and r: "parse_components (drop n rest') (acc @ [\<lparr>pc_Type = ty, pc_Value = take n rest'\<rparr>]) = Ok out"
      using 1(2) Cons
      by (subst (asm) parse_components.simps) (auto simp: byte_at_def slice_def split: option.splits if_splits)
    let ?c = "\<lparr>pc_Type = ty, pc_Value = take n rest'\<rparr>"
    have "\<exists>new. out = (acc @ [?c]) @ new \<and> drop n rest' = concat (map emit_component new) \<and>
        (\<forall>c \<in> set new. good_component c) \<and> distinct (map pc_Type new) \<and> pc_Type ` set new \<inter> pc_Type ` set (acc @ [?c]) = {}"
      using 1(1)[of ty n "take n rest'" "()"] Cons n r by (simp add: byte_at_def slice_def)
    then obtain new where new: "out = (acc @ [?c]) @ new" "drop n rest' = concat (map emit_component new)"
      "\<forall>c \<in> set new. good_component c" "distinct (map pc_Type new)" "pc_Type ` set new \<inter> pc_Type ` set (acc @ [?c]) = {}"
      by blast
    have "rest = concat (map emit_component (?c # new))"
      using Cons new(2) append_take_drop_id[of n rest'] by (simp add: emit_component_def)
    moreover have "good_component ?c" using n by (simp add: good_component_def min_def)
    ultimately show ?thesis using new n(3) by (intro exI[of _ "?c # new"]) auto
  qed
qed

definition good_components :: "PacketFilterComponent list \<Rightarrow> bool" where
  "good_components cs \<longleftrightarrow> (\<forall>c \<in> set cs. good_component c) \<and> distinct (map pc_Type cs) \<and>
     validateTFTComponentCombinations (pc_Type ` set cs) cs = Ok ()"

lemma parseTFTComponents_iff:
  "parseTFTComponents contents = Ok cs \<longleftrightarrow> contents = concat (map emit_component cs) \<and> good_components cs"
  using parse_components_Ok[of contents "[]" cs] parse_components_emit[of cs "[]"]
  by (auto simp: parseTFTComponents_def good_components_def)

text \<open>Identifiers and filters.\<close>

lemma high_bits: "b AND 0xf0 = 0 \<longleftrightarrow> (\<forall>n \<ge> 4. \<not> bit b n)" "b AND 0xc0 = 0 \<longleftrightarrow> (\<forall>n \<ge> 6. \<not> bit b n)" for b :: byte
proof -
  have split: "(0xf0 :: byte) = 0x10 OR 0x20 OR 0x40 OR 0x80" "(0xc0 :: byte) = 0x40 OR 0x80" by simp_all
  have rest: "\<not> bit b n" if "8 \<le> n" for n using that by (auto dest: bit_imp_le_length)
  have "(\<forall>n \<ge> 4. \<not> bit b n) \<longleftrightarrow> \<not> bit b 4 \<and> \<not> bit b 5 \<and> \<not> bit b 6 \<and> \<not> bit b 7"
  proof safe
    fix n :: nat assume "\<not> bit b 4" "\<not> bit b 5" "\<not> bit b 6" "\<not> bit b 7" "4 \<le> n" "bit b n"
    moreover have "n = 4 \<or> n = 5 \<or> n = 6 \<or> n = 7 \<or> 8 \<le> n" using \<open>4 \<le> n\<close> by arith
    ultimately show False using rest by blast
  qed auto
  moreover have "(\<forall>n \<ge> 6. \<not> bit b n) \<longleftrightarrow> \<not> bit b 6 \<and> \<not> bit b 7"
  proof safe
    fix n :: nat assume "\<not> bit b 6" "\<not> bit b 7" "6 \<le> n" "bit b n"
    moreover have "n = 6 \<or> n = 7 \<or> 8 \<le> n" using \<open>6 \<le> n\<close> by arith
    ultimately show False using rest by blast
  qed auto
  ultimately show "b AND 0xf0 = 0 \<longleftrightarrow> (\<forall>n \<ge> 4. \<not> bit b n)" "b AND 0xc0 = 0 \<longleftrightarrow> (\<forall>n \<ge> 6. \<not> bit b n)"
    unfolding split bit.conj_disj_distrib or_eq_0_iff using byte_mask_bit[of b] by blast+
qed

lemma bits_below: "(\<forall>n \<ge> k. \<not> bit b n) \<longleftrightarrow> unat b < 2 ^ k" for b :: byte
proof -
  have "(\<forall>n \<ge> k. \<not> bit b n) \<longleftrightarrow> take_bit k b = b"
  proof
    assume "\<forall>n \<ge> k. \<not> bit b n"
    then show "take_bit k b = b" by (intro bit_eqI) (auto simp: bit_take_bit_iff not_le)
  qed (metis bit_take_bit_iff not_le)
  then show ?thesis by (simp add: word_take_bit_self_iff)
qed

lemma low_nibble: "b AND 0xf0 = 0 \<longleftrightarrow> b \<le> 15" "b \<le> 15 \<Longrightarrow> b AND 0x0f = b" "b AND 0x0f \<le> 15" for b :: byte
proof -
  have m: "b AND 0x0f = take_bit 4 b" by (simp add: take_bit_eq_mask mask_eq_exp_minus_1)
  show "b AND 0xf0 = 0 \<longleftrightarrow> b \<le> 15" by (auto simp: high_bits(1) bits_below word_le_nat_alt)
  show "b \<le> 15 \<Longrightarrow> b AND 0x0f = b" unfolding m by (simp add: word_take_bit_self_iff word_le_nat_alt)
  have "unat (take_bit 4 b) < 2 ^ 4" using word_take_bit_self_iff[of 4 "take_bit 4 b"] by simp
  then show "b AND 0x0f \<le> 15" unfolding m by (simp add: word_le_nat_alt)
qed

lemma parse_delete_ids_iff:
  "parse_delete_ids n rest acc = Ok (out, rest') \<longleftrightarrow> (\<exists>ids. length ids = n \<and> out = acc @ ids \<and> rest = ids @ rest' \<and>
     (\<forall>i \<in> set ids. i \<le> 15) \<and> distinct ids \<and> set ids \<inter> set acc = {})"
proof (induction n arbitrary: rest acc)
  case (Suc n)
  show ?case
  proof (cases rest)
    case (Cons b bs)
    have "parse_delete_ids (Suc n) rest acc = Ok (out, rest') \<longleftrightarrow>
        b \<le> 15 \<and> b \<notin> set acc \<and> parse_delete_ids n bs (acc @ [b]) = Ok (out, rest')"
      using Cons by (auto simp: byte_at_def low_nibble)
    also have "\<dots> \<longleftrightarrow> (\<exists>ids. length ids = Suc n \<and> out = acc @ ids \<and> rest = ids @ rest' \<and>
       (\<forall>i \<in> set ids. i \<le> 15) \<and> distinct ids \<and> set ids \<inter> set acc = {})" (is "?l \<longleftrightarrow> ?r")
    proof
      assume ?l
      then obtain ids where "length ids = n" "out = (acc @ [b]) @ ids" "bs = ids @ rest'" "\<forall>i \<in> set ids. i \<le> 15"
        "distinct ids" "set ids \<inter> set (acc @ [b]) = {}" "b \<le> 15" "b \<notin> set acc" unfolding Suc by blast
      then show ?r using Cons by (intro exI[of _ "b # ids"]) auto
    next
      assume ?r
      then obtain ids where ids: "length ids = Suc n" "out = acc @ ids" "rest = ids @ rest'" "\<forall>i \<in> set ids. i \<le> 15"
        "distinct ids" "set ids \<inter> set acc = {}" by blast
      then obtain ids' where "ids = b # ids'" using Cons by (cases ids) auto
      then show ?l unfolding Suc using ids Cons by auto
    qed
    finally show ?thesis .
  qed auto
qed auto

definition emit_components :: "PacketFilterComponent list \<Rightarrow> byte list" where
  "emit_components cs = concat (map emit_component cs)"

definition emit_filter :: "PacketFilter \<Rightarrow> byte list" where
  "emit_filter f = [push_bit 4 (pf_Direction f) OR pf_ID f, pf_Precedence f, of_nat (length (emit_components (pf_Components f)))]
     @ emit_components (pf_Components f)"

definition good_filter :: "PacketFilter \<Rightarrow> bool" where
  "good_filter f \<longleftrightarrow> pf_ID f \<le> 15 \<and> pf_Direction f \<le> 3 \<and> good_components (pf_Components f) \<and>
     0 < length (emit_components (pf_Components f)) \<and> length (emit_components (pf_Components f)) \<le> 255"

lemma low_two_bits: "d AND 0x03 \<le> 3" "d \<le> 3 \<Longrightarrow> d AND 0x03 = d" for d :: byte
proof -
  have m: "d AND 0x03 = take_bit 2 d" by (simp add: take_bit_eq_mask mask_eq_exp_minus_1)
  have "unat (take_bit 2 d) < 2 ^ 2" using word_take_bit_self_iff[of 2 "take_bit 2 d"] by simp
  then show "d AND 0x03 \<le> 3" unfolding m by (simp add: word_le_nat_alt)
  show "d \<le> 3 \<Longrightarrow> d AND 0x03 = d" unfolding m by (simp add: word_take_bit_self_iff word_le_nat_alt)
qed

lemma identity_octet:
  fixes d i w :: byte
  shows "d \<le> 3 \<Longrightarrow> i \<le> 15 \<Longrightarrow> (push_bit 4 d OR i) AND 0xc0 = 0"
    "d \<le> 3 \<Longrightarrow> i \<le> 15 \<Longrightarrow> (push_bit 4 d OR i) AND 0x0f = i"
    "d \<le> 3 \<Longrightarrow> i \<le> 15 \<Longrightarrow> drop_bit 4 (push_bit 4 d OR i) AND 0x03 = d"
    "w AND 0xc0 = 0 \<Longrightarrow> push_bit 4 (drop_bit 4 w AND 0x03) OR (w AND 0x0f) = w"
proof -
  have masks: "b AND 0x0f = take_bit 4 b" "b AND 0x03 = take_bit 2 b" for b :: byte
    by (simp_all add: take_bit_eq_mask mask_eq_exp_minus_1)
  have db: "d \<le> 3 \<Longrightarrow> bit d n \<Longrightarrow> n < 2" and ib: "i \<le> 15 \<Longrightarrow> bit i n \<Longrightarrow> n < 4" for n
    using word_bit_bound[of d 2 n] word_bit_bound[of i 4 n] by (simp_all add: word_le_nat_alt)
  show "(push_bit 4 d OR i) AND 0xc0 = 0" if "d \<le> 3" "i \<le> 15"
    unfolding high_bits(2) using db[OF that(1)] ib[OF that(2)] by (fastforce simp: bit_simps)
  show "(push_bit 4 d OR i) AND 0x0f = i" if "d \<le> 3" "i \<le> 15"
    unfolding masks using ib[OF that(2)] by (intro bit_eqI) (auto simp: bit_simps)
  show "drop_bit 4 (push_bit 4 d OR i) AND 0x03 = d" if "d \<le> 3" "i \<le> 15"
    unfolding masks using db[OF that(1)] ib[OF that(2)] by (intro bit_eqI) (fastforce simp: bit_simps)
  show "push_bit 4 (drop_bit 4 w AND 0x03) OR (w AND 0x0f) = w" if "w AND 0xc0 = 0"
  proof -
    have "bit w n \<Longrightarrow> n < 6" for n using that[unfolded high_bits(2)] by (meson not_less)
    then show ?thesis unfolding masks by (intro bit_eqI) (fastforce simp: bit_simps)
  qed
qed

lemma unat_of_nat8: "n \<le> 255 \<Longrightarrow> unat (of_nat n :: byte) = n"
  by (simp add: unat_of_nat take_bit_nat_eq_self_iff)

lemma parse_filters_step:
  "parse_filters (Suc n) rest acc = Ok (out, rest') \<longleftrightarrow> (\<exists>f tail. rest = emit_filter f @ tail \<and> good_filter f \<and>
     pf_ID f \<notin> pf_ID ` set acc \<and> pf_Precedence f \<notin> pf_Precedence ` set acc \<and>
     parse_filters n tail (acc @ [f]) = Ok (out, rest'))" (is "?l \<longleftrightarrow> ?r")
proof
  assume ?r
  then obtain f tail where f: "rest = emit_filter f @ tail" "good_filter f" "pf_ID f \<notin> pf_ID ` set acc"
    "pf_Precedence f \<notin> pf_Precedence ` set acc" "parse_filters n tail (acc @ [f]) = Ok (out, rest')" by blast
  let ?c = "emit_components (pf_Components f)"
  have c: "parseTFTComponents ?c = Ok (pf_Components f)"
    using f(2) by (simp add: parseTFTComponents_iff good_filter_def emit_components_def)
  have l: "unat (of_nat (length ?c) :: byte) = length ?c" using f(2) by (simp add: good_filter_def unat_of_nat8)
  show ?l using f c l identity_octet(1-3)[of "pf_Direction f" "pf_ID f"]
    by (cases f) (auto simp: emit_filter_def good_filter_def byte_at_def slice_def Let_def)
next
  assume ?l
  then obtain b0 b1 b2 bs where rest: "rest = b0 # b1 # b2 # bs"
    by (auto simp: numeral_3_eq_3 not_less Suc_le_length_iff split: if_splits)
  then obtain cs where b: "b0 AND 0xc0 = 0" "unat b2 \<noteq> 0" "unat b2 \<le> length bs" "b0 AND 0x0f \<notin> pf_ID ` set acc"
    "b1 \<notin> pf_Precedence ` set acc" "parseTFTComponents (take (unat b2) bs) = Ok cs"
    and r: "parse_filters n (drop (unat b2) bs) (acc @ [\<lparr>pf_ID = b0 AND 0x0f, pf_Direction = drop_bit 4 b0 AND 0x03,
      pf_Precedence = b1, pf_Components = cs\<rparr>]) = Ok (out, rest')"
    using \<open>?l\<close> by (auto simp: byte_at_def slice_def Let_def split: if_splits)
  let ?f = "\<lparr>pf_ID = b0 AND 0x0f, pf_Direction = drop_bit 4 b0 AND 0x03, pf_Precedence = b1, pf_Components = cs\<rparr>"
  have cs: "take (unat b2) bs = emit_components cs" "good_components cs"
    using b(6) by (simp_all add: parseTFTComponents_iff emit_components_def)
  have len: "length (emit_components cs) = unat b2" using arg_cong[OF cs(1), of length] b(3) by simp
  have "unat b2 \<le> 255" using unsigned_less[of b2, where ?'a = nat] by simp
  then have "good_filter ?f" using b(2) cs(2) len by (simp add: good_filter_def low_nibble low_two_bits)
  moreover have "rest = emit_filter ?f @ drop (unat b2) bs"
    using rest cs(1) len identity_octet(4)[OF b(1)] append_take_drop_id[of "unat b2" bs] by (simp add: emit_filter_def)
  ultimately show ?r using b(4,5) r by (intro exI[of _ ?f] exI[of _ "drop (unat b2) bs"]) simp
qed

lemma parse_filters_iff:
  "parse_filters n rest acc = Ok (out, rest') \<longleftrightarrow> (\<exists>fs. length fs = n \<and> out = acc @ fs \<and>
     rest = concat (map emit_filter fs) @ rest' \<and> (\<forall>f \<in> set fs. good_filter f) \<and>
     distinct (map pf_ID fs) \<and> distinct (map pf_Precedence fs) \<and>
     pf_ID ` set fs \<inter> pf_ID ` set acc = {} \<and> pf_Precedence ` set fs \<inter> pf_Precedence ` set acc = {})"
proof (induction n arbitrary: rest acc)
  case (Suc n)
  show ?case (is "_ \<longleftrightarrow> ?r")
  proof
    assume "parse_filters (Suc n) rest acc = Ok (out, rest')"
    then obtain f tail where f: "rest = emit_filter f @ tail" "good_filter f" "pf_ID f \<notin> pf_ID ` set acc"
      "pf_Precedence f \<notin> pf_Precedence ` set acc" "parse_filters n tail (acc @ [f]) = Ok (out, rest')"
      unfolding parse_filters_step by blast
    then obtain fs where "length fs = n" "out = (acc @ [f]) @ fs" "tail = concat (map emit_filter fs) @ rest'"
      "\<forall>f \<in> set fs. good_filter f" "distinct (map pf_ID fs)" "distinct (map pf_Precedence fs)"
      "pf_ID ` set fs \<inter> pf_ID ` set (acc @ [f]) = {}" "pf_Precedence ` set fs \<inter> pf_Precedence ` set (acc @ [f]) = {}"
      unfolding Suc by blast
    then show ?r using f by (intro exI[of _ "f # fs"]) auto
  next
    assume ?r
    then obtain f fs where fs: "length fs = n" "out = acc @ f # fs" "rest = emit_filter f @ concat (map emit_filter fs) @ rest'"
      "\<forall>g \<in> set (f # fs). good_filter g" "distinct (map pf_ID (f # fs))" "distinct (map pf_Precedence (f # fs))"
      "pf_ID ` set (f # fs) \<inter> pf_ID ` set acc = {}" "pf_Precedence ` set (f # fs) \<inter> pf_Precedence ` set acc = {}"
      by (auto simp: length_Suc_conv)
    show "parse_filters (Suc n) rest acc = Ok (out, rest')"
      unfolding parse_filters_step Suc using fs
      by (intro exI[of _ f] exI[of _ "concat (map emit_filter fs) @ rest'"] conjI exI[of _ fs]) auto
  qed
qed auto

text \<open>Parameters.\<close>

definition emit_parameter :: "TFTParameter \<Rightarrow> byte list" where
  "emit_parameter p = [tp_ID p, of_nat (length (tp_Value p))] @ tp_Value p"

lemma parse_parameters_step:
  assumes "length (tp_Value p) \<le> 255"
  shows "parse_parameters (emit_parameter p @ rest) acc = parse_parameters rest (acc @ [p])"
proof -
  have "unat (of_nat (length (tp_Value p)) :: byte) = length (tp_Value p)" using assms by (simp add: unat_of_nat8)
  then show ?thesis by (subst parse_parameters.simps, cases p) (simp add: emit_parameter_def byte_at_def slice_def Let_def)
qed

lemma parse_parameters_emit:
  "\<forall>p \<in> set ps. length (tp_Value p) \<le> 255 \<Longrightarrow> parse_parameters (concat (map emit_parameter ps)) acc = Ok (acc @ ps)"
proof (induction ps arbitrary: acc)
  case Nil
  then show ?case by (simp add: parse_parameters.simps)
next
  case (Cons p ps)
  then show ?case using parse_parameters_step[of p "concat (map emit_parameter ps)" acc] by simp
qed

lemma parse_parameters_Ok:
  "parse_parameters rest acc = Ok out \<Longrightarrow> \<exists>ps. out = acc @ ps \<and> rest = concat (map emit_parameter ps) \<and>
     (\<forall>p \<in> set ps. length (tp_Value p) \<le> 255)"
proof (induction "length rest" arbitrary: rest acc rule: less_induct)
  case less
  show ?case
  proof (cases "rest = []")
    case True
    then show ?thesis using less.prems by (simp add: parse_parameters.simps)
  next
    case False
    then obtain i b bs where rest: "rest = i # b # bs" using less.prems
      by (subst (asm) parse_parameters.simps) (auto simp: numeral_2_eq_2 not_less Suc_le_length_iff split: if_splits)
    let ?p = "\<lparr>tp_ID = i, tp_Value = take (unat b) bs\<rparr>"
    have b: "unat b \<le> length bs" "parse_parameters (drop (unat b) bs) (acc @ [?p]) = Ok out"
      using less.prems rest by (subst (asm) parse_parameters.simps, simp add: byte_at_def slice_def Let_def split: if_splits)+
    have shorter: "length (drop (unat b) bs) < length rest" using rest by simp
    obtain ps where ps: "out = (acc @ [?p]) @ ps" "drop (unat b) bs = concat (map emit_parameter ps)"
      "\<forall>p \<in> set ps. length (tp_Value p) \<le> 255"
      using less.hyps[OF shorter b(2)] by auto
    have "unat b \<le> 255" using unsigned_less[of b, where ?'a = nat] by simp
    moreover have "rest = concat (map emit_parameter (?p # ps))"
      using rest b(1) ps(2) append_take_drop_id[of "unat b" bs] by (simp add: emit_parameter_def)
    ultimately show ?thesis using ps b by (intro exI[of _ "?p # ps"]) auto
  qed
qed

lemma parse_parameters_iff:
  "parse_parameters rest [] = Ok ps \<longleftrightarrow> rest = concat (map emit_parameter ps) \<and> (\<forall>p \<in> set ps. length (tp_Value p) \<le> 255)"
  using parse_parameters_Ok[of rest "[]" ps] parse_parameters_emit[of ps "[]"] by auto

section \<open>The octets of a template\<close>

definition tft_count :: "TrafficFlowTemplate \<Rightarrow> nat" where
  "tft_count t = length (tf_Filters t) + length (tf_DeleteFilterIDs t)"

definition emit_tft :: "TrafficFlowTemplate \<Rightarrow> byte list" where
  "emit_tft t = control_octet (tf_Operation t) (tft_count t) (tf_ParametersIncluded t) #
     tf_DeleteFilterIDs t @ concat (map emit_filter (tf_Filters t)) @ concat (map emit_parameter (tf_Parameters t))"

text \<open>What the operation of a template must and may carry, and the well-formed templates.\<close>

definition tft_shape :: "TrafficFlowTemplate \<Rightarrow> bool" where
  "tft_shape t \<longleftrightarrow> tf_Operation t \<le> TFTOperationNoOperation \<and>
     (tf_Filters t \<noteq> [] \<longleftrightarrow> has_filters (tf_Operation t)) \<and>
     (tf_DeleteFilterIDs t \<noteq> [] \<longleftrightarrow> tf_Operation t = TFTOperationDeleteFilters) \<and>
     (tf_Operation t = TFTOperationIgnore \<longrightarrow> tf_Parameters t = []) \<and>
     (tf_Operation t = TFTOperationNoOperation \<longrightarrow> tf_Parameters t \<noteq> []) \<and>
     tf_ParametersIncluded t = (tf_Parameters t \<noteq> [])"

definition wf_tft :: "TrafficFlowTemplate \<Rightarrow> bool" where
  "wf_tft t \<longleftrightarrow> tft_shape t \<and> tft_count t \<le> 15 \<and> (\<forall>f \<in> set (tf_Filters t). good_filter f) \<and>
     distinct (map pf_ID (tf_Filters t)) \<and> distinct (map pf_Precedence (tf_Filters t)) \<and>
     (\<forall>i \<in> set (tf_DeleteFilterIDs t). i \<le> 15) \<and> distinct (tf_DeleteFilterIDs t) \<and>
     (\<forall>p \<in> set (tf_Parameters t). length (tp_Value p) \<le> 255) \<and> length (emit_tft t) \<le> 255"

lemma control_octet_bit:
  "bit (control_octet op n e) k \<longleftrightarrow> k < 8 \<and> (5 \<le> k \<and> bit op (k - 5) \<or> bit (of_nat n :: byte) k \<or> e \<and> k = 4)"
proof -
  have e: "(0x10 :: byte) = push_bit 4 1" by simp
  have "bit (of_nat n :: byte) k \<Longrightarrow> k < 8" using bit_imp_le_length[of "of_nat n :: byte" k] by simp
  then show ?thesis
    unfolding control_octet_def Let_def e by (auto simp only: bit_or_iff bit_push_bit_iff bit_1_iff if_distrib[of "\<lambda>w. bit w k"]
      split: if_splits) auto
qed

lemma control_octet_fields:
  assumes "op \<le> 6" "n \<le> 15"
  shows "drop_bit 5 (control_octet op n e) = op" "control_octet op n e AND 0x10 \<noteq> 0 \<longleftrightarrow> e"
    "unat (control_octet op n e AND 0x0f) = n"
proof -
  have ob: "bit op k \<Longrightarrow> k < 3" for k
    using word_bit_bound[of op 3 k] assms(1) by (simp add: word_le_nat_alt)
  have nb: "bit (of_nat n :: byte) k \<Longrightarrow> k < 4" for k
    using word_bit_bound[of "of_nat n :: byte" 4 k] assms(2) by (simp add: unat_of_nat8)
  show "drop_bit 5 (control_octet op n e) = op"
    using ob nb by (intro bit_eqI) (fastforce simp: bit_drop_bit_eq control_octet_bit)
  show "control_octet op n e AND 0x10 \<noteq> 0 \<longleftrightarrow> e"
    unfolding byte_mask_bit control_octet_bit using nb[of 4] by auto
  have "control_octet op n e AND 0x0f = take_bit 4 (control_octet op n e)" by (simp add: take_bit_eq_mask mask_eq_exp_minus_1)
  also have "\<dots> = of_nat n" using nb by (intro bit_eqI) (fastforce simp: bit_take_bit_iff control_octet_bit)
  finally show "unat (control_octet op n e AND 0x0f) = n" using assms(2) by (simp add: unat_of_nat8)
qed

lemma control_octet_of: "control_octet (drop_bit 5 c) (unat (c AND 0x0f)) (c AND 0x10 \<noteq> 0) = c" for c :: byte
proof (rule bit_word_eqI)
  fix k assume "k < LENGTH(8)"
  then have k: "k < 8" by simp
  have m: "c AND 0x0f = take_bit 4 c" by (simp add: take_bit_eq_mask mask_eq_exp_minus_1)
  have "k < 4 \<or> k = 4 \<or> 5 \<le> k" by arith
  then show "bit (control_octet (drop_bit 5 c) (unat (c AND 0x0f)) (c AND 0x10 \<noteq> 0)) k \<longleftrightarrow> bit c k"
    unfolding m byte_mask_bit control_octet_bit using k by (elim disjE) (simp_all add: bit_drop_bit_eq bit_take_bit_iff)
qed

text \<open>The three parts of a template after the control octet.\<close>

lemma ids_part:
  "(if op = TFTOperationDeleteFilters then parse_delete_ids n r [] else Ok ([], r)) = Ok (ids, r') \<longleftrightarrow>
     r = ids @ r' \<and> length ids = (if op = TFTOperationDeleteFilters then n else 0) \<and> (\<forall>i \<in> set ids. i \<le> 15) \<and> distinct ids"
  by (auto simp: parse_delete_ids_iff)

lemma filters_part:
  "(if has_filters op then parse_filters n r [] else Ok ([], r)) = Ok (fs, r') \<longleftrightarrow>
     r = concat (map emit_filter fs) @ r' \<and> length fs = (if has_filters op then n else 0) \<and> (\<forall>f \<in> set fs. good_filter f) \<and>
     distinct (map pf_ID fs) \<and> distinct (map pf_Precedence fs)"
  by (auto simp: parse_filters_iff)

lemma parameters_part:
  "(if e then (if r = [] then Err ErrMalformedIE_tft else parse_parameters r []) else if r \<noteq> [] then Err ErrMalformedIE_tft else Ok [])
     = Ok ps \<longleftrightarrow> r = concat (map emit_parameter ps) \<and> e = (ps \<noteq> []) \<and> (\<forall>p \<in> set ps. length (tp_Value p) \<le> 255)"
proof -
  have "concat (map emit_parameter ps) = [] \<longleftrightarrow> ps = []" by (cases ps) (auto simp: emit_parameter_def)
  then show ?thesis by (auto simp: parse_parameters_iff)
qed

text \<open>The guards on the count that the parser checks first.\<close>

definition count_ok :: "byte \<Rightarrow> nat \<Rightarrow> bool \<Rightarrow> bool" where
  "count_ok op n e \<longleftrightarrow> op \<le> TFTOperationNoOperation \<and> (op = TFTOperationIgnore \<longrightarrow> \<not> e) \<and>
     (has_filters op \<or> op = TFTOperationDeleteFilters \<longleftrightarrow> n \<noteq> 0) \<and> (op = TFTOperationNoOperation \<longrightarrow> e)"

lemma operation_cases:
  "op \<le> 6 \<Longrightarrow> op \<in> {TFTOperationIgnore, TFTOperationDelete, TFTOperationDeleteFilters, TFTOperationNoOperation} \<or> has_filters op"
proof -
  assume "op \<le> 6"
  then have "unat op \<le> 6" by (simp add: word_le_nat_alt)
  then have "unat op \<in> {0, 1, 2, 3, 4, 5, 6}" by auto
  moreover have "op = of_nat (unat op)" by simp
  ultimately have "op \<in> of_nat ` {0, 1, 2, 3, 4, 5, 6}" by (metis image_eqI)
  then show ?thesis by (auto simp: tft_operations has_filters_def)
qed

lemma ParseBearerTFT_parts:
  "ParseBearerTFT (c # rest) = Ok t \<longleftrightarrow> length rest < 255 \<and> (\<exists>ids r1 fs r2 ps op n e.
     op = drop_bit 5 c \<and> n = unat (c AND 0x0f) \<and> e = (c AND 0x10 \<noteq> 0) \<and> count_ok op n e \<and>
     (if op = TFTOperationDeleteFilters then parse_delete_ids n rest [] else Ok ([], rest)) = Ok (ids, r1) \<and>
     (if has_filters op then parse_filters n r1 [] else Ok ([], r1)) = Ok (fs, r2) \<and>
     (if e then (if r2 = [] then Err ErrMalformedIE_tft else parse_parameters r2 [])
      else if r2 \<noteq> [] then Err ErrMalformedIE_tft else Ok []) = Ok ps \<and>
     t = \<lparr>tf_Operation = op, tf_ParametersIncluded = e, tf_Filters = fs, tf_DeleteFilterIDs = ids, tf_Parameters = ps\<rparr>)"
proof -
  define op n e where "op = drop_bit 5 c" "n = unat (c AND 0x0f)" "e = (c AND 0x10 \<noteq> 0)"
  note d = op_n_e_def[symmetric]
  consider "\<not> op \<le> 6" | "op = TFTOperationIgnore" | "op = TFTOperationDelete" | "op = TFTOperationDeleteFilters"
    | "op = TFTOperationNoOperation" | "has_filters op" using operation_cases[of op] by auto
  then show ?thesis
    unfolding ParseBearerTFT_def Let_def byte_at_def
    by cases (auto simp: d count_ok_def tft_operations has_filters_def not_le split: if_splits)
qed

lemma ParseBearerTFT_iff: "ParseBearerTFT v = Ok t \<longleftrightarrow> v = emit_tft t \<and> wf_tft t"
proof (cases v)
  case Nil
  then show ?thesis by (simp add: ParseBearerTFT_def emit_tft_def)
next
  case (Cons c rest)
  have excl: "\<not> (has_filters op \<and> op = TFTOperationDeleteFilters)" for op by (auto simp: has_filters_def tft_operations)
  show ?thesis
  proof
    assume "ParseBearerTFT v = Ok t"
    then obtain ids r1 fs r2 ps where t: "length rest < 255" "count_ok (drop_bit 5 c) (unat (c AND 0x0f)) (c AND 0x10 \<noteq> 0)"
      "rest = ids @ r1" "length ids = (if drop_bit 5 c = TFTOperationDeleteFilters then unat (c AND 0x0f) else 0)"
      "\<forall>i \<in> set ids. i \<le> 15" "distinct ids" "r1 = concat (map emit_filter fs) @ r2"
      "length fs = (if has_filters (drop_bit 5 c) then unat (c AND 0x0f) else 0)" "\<forall>f \<in> set fs. good_filter f"
      "distinct (map pf_ID fs)" "distinct (map pf_Precedence fs)" "r2 = concat (map emit_parameter ps)"
      "(c AND 0x10 \<noteq> 0) = (ps \<noteq> [])" "\<forall>p \<in> set ps. length (tp_Value p) \<le> 255"
      "t = \<lparr>tf_Operation = drop_bit 5 c, tf_ParametersIncluded = (c AND 0x10 \<noteq> 0), tf_Filters = fs, tf_DeleteFilterIDs = ids,
         tf_Parameters = ps\<rparr>"
      unfolding Cons ParseBearerTFT_parts ids_part filters_part parameters_part by blast
    have n: "unat (c AND 0x0f) \<le> 15" using low_nibble(3)[of c] by (simp add: word_le_nat_alt)
    have count: "tft_count t = unat (c AND 0x0f)"
      using t(2,4,8,15) excl[of "drop_bit 5 c"] by (auto simp: tft_count_def count_ok_def)
    have "emit_tft t = v" using count t Cons control_octet_of[of c] by (simp add: emit_tft_def)
    moreover have "tft_shape t" using t(2,4,8,13,15) excl[of "drop_bit 5 c"]
      by (auto simp: tft_shape_def count_ok_def split: if_splits)
    ultimately show "v = emit_tft t \<and> wf_tft t" using count n t Cons by (auto simp: wf_tft_def)
  next
    assume v: "v = emit_tft t \<and> wf_tft t"
    let ?op = "tf_Operation t"
    have w: "tft_shape t" "tft_count t \<le> 15" "?op \<le> 6" using v by (simp_all add: wf_tft_def tft_shape_def tft_operations)
    note c = control_octet_fields[OF w(3,2), of "tf_ParametersIncluded t"]
    have cr: "c = control_octet ?op (tft_count t) (tf_ParametersIncluded t)"
      "rest = tf_DeleteFilterIDs t @ concat (map emit_filter (tf_Filters t)) @ concat (map emit_parameter (tf_Parameters t))"
      using v Cons by (simp_all add: emit_tft_def)
    have counts: "length (tf_DeleteFilterIDs t) = (if ?op = TFTOperationDeleteFilters then tft_count t else 0)"
      "length (tf_Filters t) = (if has_filters ?op then tft_count t else 0)" "count_ok ?op (tft_count t) (tf_ParametersIncluded t)"
      using w(1) excl[of ?op] by (auto simp: tft_count_def tft_shape_def count_ok_def)
    have "length v \<le> 255" using v by (simp add: wf_tft_def)
    then have "length rest < 255" using Cons by simp
    moreover have "tf_ParametersIncluded t = (tf_Parameters t \<noteq> [])" using w(1) by (simp add: tft_shape_def)
    ultimately show "ParseBearerTFT v = Ok t"
      unfolding Cons ParseBearerTFT_parts ids_part filters_part parameters_part
      using v counts c cr
      by (intro conjI exI[of _ "tf_DeleteFilterIDs t"] exI[of _ "concat (map emit_filter (tf_Filters t)) @ concat (map emit_parameter (tf_Parameters t))"]
        exI[of _ "tf_Filters t"] exI[of _ "concat (map emit_parameter (tf_Parameters t))"] exI[of _ "tf_Parameters t"]
        exI[of _ ?op] exI[of _ "tft_count t"] exI[of _ "tf_ParametersIncluded t"]) (auto simp: wf_tft_def)
  qed
qed

section \<open>What the writer accepts\<close>

definition sized_component :: "PacketFilterComponent \<Rightarrow> bool" where
  "sized_component c \<longleftrightarrow> tftComponentLength (pc_Type c) = Some (length (pc_Value c))"

definition sized_filter :: "PacketFilter \<Rightarrow> bool" where
  "sized_filter f \<longleftrightarrow> pf_ID f \<le> 15 \<and> pf_Direction f \<le> 3 \<and> (\<forall>c \<in> set (pf_Components f). sized_component c) \<and>
     0 < length (emit_components (pf_Components f)) \<and> length (emit_components (pf_Components f)) \<le> 255"

lemma good_sized: "good_component c \<Longrightarrow> sized_component c" "good_filter f \<Longrightarrow> sized_filter f"
  by (auto simp: good_component_def sized_component_def good_filter_def sized_filter_def good_components_def)

lemma marshal_components_iff:
  "marshal_components cs acc = Ok out \<longleftrightarrow> out = acc @ emit_components cs \<and> (\<forall>c \<in> set cs. sized_component c)"
  by (induction cs arbitrary: acc)
    (auto simp: emit_components_def emit_component_def sized_component_def split: option.splits)

lemma marshal_filters_iff:
  "marshal_filters fs acc = Ok out \<longleftrightarrow> out = acc @ concat (map emit_filter fs) \<and> (\<forall>f \<in> set fs. sized_filter f)"
  by (induction fs arbitrary: acc)
    (auto simp: marshal_components_iff emit_filter_def sized_filter_def not_less tft_directions)

lemma marshal_ids_iff: "marshal_ids ids acc = Ok out \<longleftrightarrow> out = acc @ ids \<and> (\<forall>i \<in> set ids. i \<le> 15)"
  by (induction ids arbitrary: acc) (auto simp: not_less)

lemma marshal_parameters_iff:
  "marshal_parameters ps acc = Ok out \<longleftrightarrow> out = acc @ concat (map emit_parameter ps) \<and> (\<forall>p \<in> set ps. length (tp_Value p) \<le> 255)"
  by (induction ps arbitrary: acc) (auto simp: emit_parameter_def not_less)

text \<open>Encodings that delimit themselves: from a concatenation the parts can be recovered.\<close>

lemma concat_delimited:
  assumes "\<And>x y r s. P x \<Longrightarrow> P y \<Longrightarrow> e x @ r = e y @ s \<Longrightarrow> x = y"
  shows "length xs = length ys \<Longrightarrow> \<forall>x \<in> set xs. P x \<Longrightarrow> \<forall>y \<in> set ys. P y \<Longrightarrow>
    concat (map e xs) @ r = concat (map e ys) @ s \<Longrightarrow> xs = ys \<and> r = s"
proof (induction xs ys rule: list_induct2)
  case (Cons x xs y ys)
  then have "e x @ (concat (map e xs) @ r) = e y @ (concat (map e ys) @ s)" by simp
  then have x: "x = y" using Cons.prems(1,2) by (intro assms) auto
  then have "concat (map e xs) @ r = concat (map e ys) @ s" using Cons.prems(3) by simp
  then show ?case using Cons.IH Cons.prems(1,2) x by auto
qed simp

lemma concat_delimited_all:
  assumes "\<And>x y r s. P x \<Longrightarrow> P y \<Longrightarrow> e x @ r = e y @ s \<Longrightarrow> x = y" "\<And>x. e x \<noteq> []"
  shows "\<forall>x \<in> set xs. P x \<Longrightarrow> \<forall>y \<in> set ys. P y \<Longrightarrow> concat (map e xs) = concat (map e ys) \<Longrightarrow> xs = ys"
proof (induction xs arbitrary: ys)
  case Nil
  then show ?case using assms(2) by (cases ys) auto
next
  case (Cons x xs)
  have "ys \<noteq> []" using Cons.prems(3) assms(2)[of x] by (metis append_is_Nil_conv concat.simps list.simps(8,9))
  then obtain y ys' where ys: "ys = y # ys'" by (cases ys) auto
  then have "e x @ concat (map e xs) = e y @ concat (map e ys')" using Cons.prems(3) by simp
  then have x: "x = y" using Cons.prems(1,2) ys by (intro assms(1)) auto
  then have "concat (map e xs) = concat (map e ys')" using Cons.prems(3) ys by simp
  then show ?case using Cons.IH[of ys'] Cons.prems(1,2) x ys by auto
qed

lemma of_nat8_inj: "m \<le> 255 \<Longrightarrow> n \<le> 255 \<Longrightarrow> (of_nat m :: byte) = of_nat n \<Longrightarrow> m = n"
  by (metis unat_of_nat8)

lemma component_delimited: "sized_component c \<Longrightarrow> sized_component d \<Longrightarrow> emit_component c @ r = emit_component d @ s \<Longrightarrow> c = d"
  by (cases c; cases d) (auto simp: emit_component_def sized_component_def)

lemma components_delimited:
  "\<forall>c \<in> set cs. sized_component c \<Longrightarrow> \<forall>c \<in> set ds. sized_component c \<Longrightarrow> emit_components cs = emit_components ds \<Longrightarrow> cs = ds"
  unfolding emit_components_def
  by (rule concat_delimited_all[where P = sized_component]) (auto intro: component_delimited simp: emit_component_def)

lemma filter_delimited: "sized_filter f \<Longrightarrow> sized_filter g \<Longrightarrow> emit_filter f @ r = emit_filter g @ s \<Longrightarrow> f = g"
proof -
  assume f: "sized_filter f" and g: "sized_filter g" and eq: "emit_filter f @ r = emit_filter g @ s"
  let ?cf = "emit_components (pf_Components f)" and ?cg = "emit_components (pf_Components g)"
  have octets: "push_bit 4 (pf_Direction f) OR pf_ID f = push_bit 4 (pf_Direction g) OR pf_ID g" "pf_Precedence f = pf_Precedence g"
    "(of_nat (length ?cf) :: byte) = of_nat (length ?cg)" "?cf @ r = ?cg @ s" using eq by (simp_all add: emit_filter_def)
  have "length ?cf = length ?cg"
    using f g by (intro of_nat8_inj[OF _ _ octets(3)]) (simp_all add: sized_filter_def)
  then have "?cf = ?cg" using octets(4) by (metis append_eq_append_conv)
  then have "pf_Components f = pf_Components g" using components_delimited f g by (simp add: sized_filter_def)
  moreover have "pf_Direction f = pf_Direction g" "pf_ID f = pf_ID g"
    using octets(1) identity_octet(2,3)[of "pf_Direction f" "pf_ID f"] identity_octet(2,3)[of "pf_Direction g" "pf_ID g"] f g
    by (simp_all add: sized_filter_def)
  ultimately show "f = g" using octets(2) by simp
qed

lemma parameter_delimited:
  assumes "length (tp_Value p) \<le> 255" "length (tp_Value q) \<le> 255" "emit_parameter p @ r = emit_parameter q @ s"
  shows "p = q"
proof -
  have "length (tp_Value p) = length (tp_Value q)"
    using assms(3) by (intro of_nat8_inj[OF assms(1,2)]) (simp add: emit_parameter_def)
  moreover have "tp_Value p @ r = tp_Value q @ s" "tp_ID p = tp_ID q" using assms(3) by (simp_all add: emit_parameter_def)
  ultimately have "tp_Value p = tp_Value q" by (metis append_eq_append_conv)
  then show ?thesis using \<open>tp_ID p = tp_ID q\<close> by simp
qed

lemma marshal_count_shape:
  assumes "tf_Operation t \<le> TFTOperationNoOperation" "tf_ParametersIncluded t = (tf_Parameters t \<noteq> [])"
  shows "marshal_count t = Ok n \<longleftrightarrow> tft_shape t \<and> n = tft_count t"
proof -
  have "tf_Operation t \<le> 6" using assms(1) by (simp add: tft_operations)
  then consider "tf_Operation t = TFTOperationIgnore" | "tf_Operation t = TFTOperationDelete"
    | "tf_Operation t = TFTOperationDeleteFilters" | "tf_Operation t = TFTOperationNoOperation" | "has_filters (tf_Operation t)"
    using operation_cases by auto
  then show ?thesis
    by cases (use assms in \<open>auto simp: marshal_count_def tft_shape_def tft_count_def has_filters_def tft_operations Let_def\<close>)
qed

text \<open>The octets of a template determine it, whether or not its filters are consistent.\<close>

lemma emit_tft_inj:
  assumes t: "tft_shape t" "tft_count t \<le> 15" "\<forall>f \<in> set (tf_Filters t). sized_filter f"
      "\<forall>p \<in> set (tf_Parameters t). length (tp_Value p) \<le> 255"
    and u: "wf_tft u" "emit_tft t = emit_tft u"
  shows "t = u"
proof -
  have us: "tft_shape u" "tft_count u \<le> 15" "\<forall>f \<in> set (tf_Filters u). sized_filter f"
    "\<forall>p \<in> set (tf_Parameters u). length (tp_Value p) \<le> 255" using u(1) good_sized(2) by (auto simp: wf_tft_def)
  have ops: "tf_Operation t \<le> 6" "tf_Operation u \<le> 6" using t(1) us(1) by (simp_all add: tft_shape_def tft_operations)
  have "control_octet (tf_Operation t) (tft_count t) (tf_ParametersIncluded t) =
      control_octet (tf_Operation u) (tft_count u) (tf_ParametersIncluded u)" using u(2) by (simp add: emit_tft_def)
  then have c: "tf_Operation t = tf_Operation u" "tft_count t = tft_count u" "tf_ParametersIncluded t = tf_ParametersIncluded u"
    using control_octet_fields[OF ops(1) t(2)] control_octet_fields[OF ops(2) us(2)] by metis+
  have excl: "\<not> (has_filters (tf_Operation t) \<and> tf_Operation t = TFTOperationDeleteFilters)"
    by (auto simp: has_filters_def tft_operations)
  have len: "length (tf_DeleteFilterIDs t) = length (tf_DeleteFilterIDs u)" "length (tf_Filters t) = length (tf_Filters u)"
    using c t(1) us(1) excl by (auto simp: tft_shape_def tft_count_def)
  have "tf_DeleteFilterIDs t @ concat (map emit_filter (tf_Filters t)) @ concat (map emit_parameter (tf_Parameters t)) =
      tf_DeleteFilterIDs u @ concat (map emit_filter (tf_Filters u)) @ concat (map emit_parameter (tf_Parameters u))"
    using u(2) by (simp add: emit_tft_def)
  then have ids: "tf_DeleteFilterIDs t = tf_DeleteFilterIDs u"
    "concat (map emit_filter (tf_Filters t)) @ concat (map emit_parameter (tf_Parameters t)) =
      concat (map emit_filter (tf_Filters u)) @ concat (map emit_parameter (tf_Parameters u))"
    using len(1) by (metis append_eq_append_conv)+
  have fs: "tf_Filters t = tf_Filters u" "concat (map emit_parameter (tf_Parameters t)) = concat (map emit_parameter (tf_Parameters u))"
    using concat_delimited[where P = sized_filter and e = emit_filter, OF filter_delimited len(2) t(3) us(3) ids(2)] by auto
  have "tf_Parameters t = tf_Parameters u"
    by (rule concat_delimited_all[where P = "\<lambda>p. length (tp_Value p) \<le> 255" and e = emit_parameter, OF parameter_delimited _ t(4) us(4) fs(2)])
      (auto simp: emit_parameter_def)
  then show ?thesis using c ids fs by simp
qed

lemma MarshalBearerTFT_iff: "MarshalBearerTFT t = Ok v \<longleftrightarrow> v = emit_tft t \<and> wf_tft t"
proof
  assume m: "MarshalBearerTFT t = Ok v"
  have g: "tf_Operation t \<le> TFTOperationNoOperation" "tf_ParametersIncluded t = (tf_Parameters t \<noteq> [])"
    "length (tf_Filters t) \<le> 15" "length (tf_DeleteFilterIDs t) \<le> 15"
    using m by (auto simp: MarshalBearerTFT_def not_less split: if_splits)
  obtain n out u where n: "marshal_count t = Ok n"
    and out: "marshal_body t [control_octet (tf_Operation t) n (tf_ParametersIncluded t)] = Ok out"
      "marshal_parameters (tf_Parameters t) out = Ok v" "ParseBearerTFT v = Ok u"
    using m by (auto simp: MarshalBearerTFT_def Let_def split: if_splits)
  have shape: "tft_shape t" "n = tft_count t" using n marshal_count_shape[OF g(1,2)] by auto
  have "tft_count t \<le> 15" using shape(1) g(3,4) by (auto simp: tft_count_def tft_shape_def has_filters_def tft_operations)
  moreover have "\<forall>f \<in> set (tf_Filters t). sized_filter f" using out(1) shape(1)
    by (auto simp: tft_shape_def marshal_body_def marshal_filters_iff split: if_splits)
  moreover have v: "v = emit_tft t" "\<forall>p \<in> set (tf_Parameters t). length (tp_Value p) \<le> 255"
    using out(1,2) shape
    by (auto simp: marshal_body_def marshal_parameters_iff marshal_filters_iff marshal_ids_iff emit_tft_def tft_shape_def has_filters_def
      tft_operations split: if_splits)
  ultimately have "t = u" using emit_tft_inj[OF shape(1)] out(3) unfolding ParseBearerTFT_iff by blast
  then show "v = emit_tft t \<and> wf_tft t" using out(3) unfolding ParseBearerTFT_iff by blast
next
  assume v: "v = emit_tft t \<and> wf_tft t"
  then have w: "tft_shape t" "tft_count t \<le> 15" "\<forall>f \<in> set (tf_Filters t). sized_filter f"
    "\<forall>p \<in> set (tf_Parameters t). length (tp_Value p) \<le> 255" "\<forall>i \<in> set (tf_DeleteFilterIDs t). i \<le> 15" "length v \<le> 255"
    using good_sized(2) by (auto simp: wf_tft_def)
  have n: "marshal_count t = Ok (tft_count t)" using marshal_count_shape[of t] w(1) by (simp add: tft_shape_def)
  have part: "marshal_body t [control_octet (tf_Operation t) (tft_count t) (tf_ParametersIncluded t)] =
      Ok (control_octet (tf_Operation t) (tft_count t) (tf_ParametersIncluded t) # tf_DeleteFilterIDs t @ concat (map emit_filter (tf_Filters t)))"
    using w(1,3,5) by (auto simp: marshal_body_def tft_shape_def marshal_filters_iff marshal_ids_iff has_filters_def tft_operations)
  have ps: "marshal_parameters (tf_Parameters t) (control_octet (tf_Operation t) (tft_count t) (tf_ParametersIncluded t) #
      tf_DeleteFilterIDs t @ concat (map emit_filter (tf_Filters t))) = Ok v"
    using v w(4) by (simp add: marshal_parameters_iff emit_tft_def)
  have "ParseBearerTFT v = Ok t" using v by (simp add: ParseBearerTFT_iff)
  then show "MarshalBearerTFT t = Ok v"
    using w n part ps by (simp add: MarshalBearerTFT_def Let_def tft_shape_def tft_count_def not_less)
qed

section \<open>No input makes the parser or the classifier panic\<close>

lemma component_lengths:
  "tftComponentLength ty = Some n \<Longrightarrow> ty \<in> {TFTComponentIPv4LocalAddress, TFTComponentIPv4RemoteAddress} \<Longrightarrow> n = 8"
  "tftComponentLength ty = Some n \<Longrightarrow> ty \<in> {TFTComponentIPv6RemotePrefix, TFTComponentIPv6LocalPrefix} \<Longrightarrow> n = 17"
  "tftComponentLength ty = Some n \<Longrightarrow> ty \<in> {TFTComponentLocalPortRange, TFTComponentRemotePortRange} \<Longrightarrow> n = 4"
  "tftComponentLength ty = Some n \<Longrightarrow> ty \<in> {TFTComponentCustomerVLANID, TFTComponentServiceVLANID, TFTComponentEtherType,
     TFTComponentSingleLocalPort, TFTComponentSingleRemotePort, TFTComponentTypeOfService} \<Longrightarrow> n = 2"
  "tftComponentLength ty = Some n \<Longrightarrow> ty \<in> {TFTComponentCustomerVLANPriority, TFTComponentServiceVLANPriority,
     TFTComponentProtocol} \<Longrightarrow> n = 1"
  "tftComponentLength ty = Some n \<Longrightarrow> ty = TFTComponentFlowLabel \<Longrightarrow> n = 3"
  by (auto simp: tftComponentLength_def tft_components)

lemma validate_value_total:
  assumes "tftComponentLength ty = Some (length v)"
  shows "validateTFTComponentValue ty v \<noteq> Panic"
  unfolding validateTFTComponentValue_def using component_lengths[OF assms]
  by (auto simp: malformed_when_def byte_at_def read16_def)

lemma parse_components_total: "parse_components rest acc \<noteq> Panic"
proof (induction "length rest" arbitrary: rest acc rule: less_induct)
  case less
  show ?case
  proof (cases rest)
    case (Cons ty bs)
    show ?thesis
    proof (cases "tftComponentLength ty")
      case (Some n)
      have "validateTFTComponentValue ty (take n bs) \<noteq> Panic" if "n \<le> length bs"
        using validate_value_total[of ty "take n bs"] Some that by simp
      moreover have "parse_components (drop n bs) acc' \<noteq> Panic" for acc' using less[of "drop n bs"] Cons by simp
      ultimately show ?thesis using Cons Some
        by (subst parse_components.simps) (auto simp: byte_at_def slice_def)
    qed (use Cons in \<open>simp add: parse_components.simps byte_at_def\<close>)
  qed (simp add: parse_components.simps)
qed

lemma ether_type_total: "\<forall>c \<in> set cs. sized_component c \<Longrightarrow> ether_type cs w \<noteq> Panic"
proof (induction cs arbitrary: w)
  case (Cons c cs)
  have "length (pc_Value c) = 2" if "pc_Type c = TFTComponentEtherType"
    using Cons.prems that component_lengths(4)[of "pc_Type c" "length (pc_Value c)"] by (simp add: sized_component_def)
  then show ?case using Cons by (auto simp: read16_def)
qed simp

lemma parseTFTComponents_total: "parseTFTComponents contents \<noteq> Panic"
proof (cases "parse_components contents []")
  case (Ok cs)
  then have "\<forall>c \<in> set cs. sized_component c" using parse_components_Ok[OF Ok] good_sized(1) by auto
  then have "validateTFTComponentCombinations (pc_Type ` set cs) cs \<noteq> Panic"
    using ether_type_total[of cs 0] by (simp add: validateTFTComponentCombinations_def malformed_when_def)
  then show ?thesis using Ok by (auto simp: parseTFTComponents_def)
qed (use parse_components_total in \<open>auto simp: parseTFTComponents_def\<close>)

lemma parse_delete_ids_total: "parse_delete_ids n rest acc \<noteq> Panic"
  by (induction n arbitrary: rest acc) (auto simp: byte_at_def Let_def)

lemma parse_filters_total: "parse_filters n rest acc \<noteq> Panic"
  by (induction n arbitrary: rest acc) (auto simp: byte_at_def slice_def Let_def parseTFTComponents_total not_less)

lemma parse_parameters_total: "parse_parameters rest acc \<noteq> Panic"
proof (induction "length rest" arbitrary: rest acc rule: less_induct)
  case less
  have "parse_parameters (drop n (drop 2 rest)) acc' \<noteq> Panic" if "rest \<noteq> []" for n acc'
    using less[of "drop n (drop 2 rest)"] that by simp
  then show ?case by (subst parse_parameters.simps) (auto simp: byte_at_def slice_def Let_def)
qed

lemma ParseBearerTFT_total: "ParseBearerTFT v \<noteq> Panic"
  by (auto simp: ParseBearerTFT_def byte_at_def Let_def parse_delete_ids_total parse_filters_total parse_parameters_total
    split: if_splits)

lemma component_IPv4_total:
  assumes "sized_component c"
  shows "component_IPv4 c out \<noteq> Panic"
  unfolding component_IPv4_def Let_def using component_lengths[OF assms[unfolded sized_component_def]]
  by (auto simp: slice_def byte_at_def read16_def)

lemma components_IPv4_total: "\<forall>c \<in> set cs. sized_component c \<Longrightarrow> components_IPv4 cs out \<noteq> Panic"
  by (induction cs arbitrary: out) (auto simp: component_IPv4_total)

lemma match_ports_Ok: "20 \<le> length packet \<Longrightarrow> \<exists>b. match_ports f direction packet headerLength protocol = Ok b"
  by (auto simp: match_ports_def read16_def Let_def)

lemma match_header_Ok: "20 \<le> length packet \<Longrightarrow> \<exists>b. match_header f direction packet headerLength = Ok b"
  by (auto simp: match_header_def byte_at_def slice_def match_ports_Ok)

lemma Matches_filter_Ok: "\<exists>b. Matches_filter f packet direction = Ok b"
  by (auto simp: Matches_filter_def byte_at_def slice_def read16_def Let_def match_header_Ok)

section \<open>Classification\<close>

text \<open>A filter that decides for a packet, and one that leaves it to the later filters.\<close>

definition applicable :: "PacketFilter \<Rightarrow> TFTDirection \<Rightarrow> bool" where
  "applicable f direction \<longleftrightarrow> pf_Direction f = TFTDirectionBidirectional \<or> pf_Direction f = direction"

definition admits :: "byte list \<Rightarrow> TFTDirection \<Rightarrow> PacketFilter \<Rightarrow> bool" where
  "admits packet direction f \<longleftrightarrow> applicable f direction \<and>
     (\<exists>g. IPv4_filter f = Ok g \<and> Matches_filter g packet direction = Ok True)"

definition passes :: "byte list \<Rightarrow> TFTDirection \<Rightarrow> PacketFilter \<Rightarrow> bool" where
  "passes packet direction f \<longleftrightarrow> applicable f direction \<longrightarrow>
     (\<exists>g. IPv4_filter f = Ok g \<and> Matches_filter g packet direction = Ok False)"

lemma match_filters_Cons:
  "match_filters (c # fs) packet direction = Ok (Some f) \<longleftrightarrow>
     (admits packet direction c \<and> f = c) \<or> (passes packet direction c \<and> match_filters fs packet direction = Ok (Some f))"
  "match_filters (c # fs) packet direction = Ok None \<longleftrightarrow> passes packet direction c \<and> match_filters fs packet direction = Ok None"
  using Matches_filter_Ok[of _ packet direction]
  by (auto simp: admits_def passes_def applicable_def split: if_splits)

lemma match_filters_iff:
  "match_filters fs packet direction = Ok (Some f) \<longleftrightarrow>
     (\<exists>pre post. fs = pre @ f # post \<and> (\<forall>g \<in> set pre. passes packet direction g) \<and> admits packet direction f)"
  "match_filters fs packet direction = Ok None \<longleftrightarrow> (\<forall>g \<in> set fs. passes packet direction g)"
proof (induction fs)
  case (Cons c fs)
  {
    case 1
    show ?case unfolding match_filters_Cons(1) Cons.IH(1)
    proof
      assume "admits packet direction c \<and> f = c \<or> passes packet direction c \<and>
        (\<exists>pre post. fs = pre @ f # post \<and> (\<forall>g \<in> set pre. passes packet direction g) \<and> admits packet direction f)"
      then show "\<exists>pre post. c # fs = pre @ f # post \<and> (\<forall>g \<in> set pre. passes packet direction g) \<and> admits packet direction f"
      proof
        assume "passes packet direction c \<and>
          (\<exists>pre post. fs = pre @ f # post \<and> (\<forall>g \<in> set pre. passes packet direction g) \<and> admits packet direction f)"
        then obtain pre post where "c # fs = (c # pre) @ f # post" "\<forall>g \<in> set (c # pre). passes packet direction g"
          "admits packet direction f" by auto
        then show ?thesis by blast
      qed (intro exI[of _ "[]"] exI[of _ fs], simp)
    qed (auto simp: Cons_eq_append_conv)
  next
    case 2
    show ?case unfolding match_filters_Cons(2) Cons.IH(2) by simp
  }
qed auto

lemma match_filters_total: "\<forall>f \<in> set fs. sized_filter f \<Longrightarrow> match_filters fs packet direction \<noteq> Panic"
proof (induction fs)
  case (Cons f fs)
  have "IPv4_filter f \<noteq> Panic" using Cons.prems by (simp add: IPv4_filter_def components_IPv4_total sized_filter_def)
  moreover have "Matches_filter g packet direction \<noteq> Panic" for g using Matches_filter_Ok[of g packet direction] by auto
  ultimately show ?case using Cons by auto
qed simp

lemma sorted_split:
  assumes "distinct (map key xs)" "sort_key key xs = pre @ f # post"
  shows "set pre = {g \<in> set xs. key g < key f}" "f \<in> set xs"
proof -
  have set: "set xs = set pre \<union> {f} \<union> set post" using arg_cong[OF assms(2), of set] by auto
  have "sorted_wrt (<) (map key (sort_key key xs))" using assms(1) by (simp add: strict_sorted_iff distinct_map)
  then have s: "sorted_wrt (<) (map key pre @ key f # map key post)" unfolding assms(2) by simp
  have "\<forall>g \<in> set pre. key g < key f" "\<forall>g \<in> set post. key f < key g" using s by (simp_all add: sorted_wrt_append)
  then show "set pre = {g \<in> set xs. key g < key f}" unfolding set by (auto dest: less_asym)
  show "f \<in> set xs" using set by simp
qed

section \<open>Properties\<close>

text \<open>C30: (roundtrip) The TFT codec is exact: a value parses to a template exactly when the template is written as that value, so that
  each accepted value has one template and each accepted template one value; and no value makes the parser panic.\<close>

theorem BearerTFT_exact:
  "(ParseBearerTFT v = Ok t \<longleftrightarrow> MarshalBearerTFT t = Ok v) \<and> ParseBearerTFT v \<noteq> Panic"
  using ParseBearerTFT_iff MarshalBearerTFT_iff ParseBearerTFT_total by simp

text \<open>C31: (functional) Classification by a received template: \<^verbatim>\<open>MatchIPv4\<close> does not panic, and it returns a filter exactly when that
  filter of the template applies to the direction and matches the packet while every filter of a smaller precedence value
  either does not apply or can be evaluated and does not match; it returns none exactly when that holds of all filters.\<close>

theorem MatchIPv4_first:
  assumes "ParseBearerTFT v = Ok t"
  shows "MatchIPv4 t packet direction \<noteq> Panic \<and>
    (MatchIPv4 t packet direction = Ok (Some f) \<longleftrightarrow> f \<in> set (tf_Filters t) \<and> admits packet direction f \<and>
      (\<forall>g \<in> {g \<in> set (tf_Filters t). pf_Precedence g < pf_Precedence f}. passes packet direction g)) \<and>
    (MatchIPv4 t packet direction = Ok None \<longleftrightarrow> (\<forall>g \<in> set (tf_Filters t). passes packet direction g))"
proof (intro conjI)
  have w: "distinct (map pf_Precedence (tf_Filters t))" "\<forall>f \<in> set (tf_Filters t). sized_filter f"
    using assms good_sized(2) by (auto simp: ParseBearerTFT_iff wf_tft_def)
  show "MatchIPv4 t packet direction \<noteq> Panic" unfolding MatchIPv4_def by (rule match_filters_total) (simp add: w(2))
  show "MatchIPv4 t packet direction = Ok None \<longleftrightarrow> (\<forall>g \<in> set (tf_Filters t). passes packet direction g)"
    by (simp add: MatchIPv4_def match_filters_iff)
  show "MatchIPv4 t packet direction = Ok (Some f) \<longleftrightarrow> f \<in> set (tf_Filters t) \<and> admits packet direction f \<and>
      (\<forall>g \<in> {g \<in> set (tf_Filters t). pf_Precedence g < pf_Precedence f}. passes packet direction g)" (is "?l \<longleftrightarrow> ?r")
  proof
    assume ?l
    then obtain pre post where s: "sort_key pf_Precedence (tf_Filters t) = pre @ f # post"
      "\<forall>g \<in> set pre. passes packet direction g" "admits packet direction f" unfolding MatchIPv4_def match_filters_iff by blast
    then show ?r using sorted_split[OF w(1) s(1)] by simp
  next
    assume r: ?r
    then have "f \<in> set (sort_key pf_Precedence (tf_Filters t))" by simp
    then obtain pre post where s: "sort_key pf_Precedence (tf_Filters t) = pre @ f # post" by (meson split_list)
    then show ?l using r sorted_split[OF w(1) s] unfolding MatchIPv4_def match_filters_iff by blast
  qed
qed

text \<open>A template with one uplink filter on UDP, its value, and a packet it admits.\<close>

definition udp_filter :: PacketFilter where
  "udp_filter = \<lparr>pf_ID = 1, pf_Direction = TFTDirectionUplink, pf_Precedence = 10,
     pf_Components = [\<lparr>pc_Type = TFTComponentProtocol, pc_Value = [17]\<rparr>]\<rparr>"

definition udp_tft :: TrafficFlowTemplate where
  "udp_tft = \<lparr>tf_Operation = TFTOperationCreate, tf_ParametersIncluded = False, tf_Filters = [udp_filter],
     tf_DeleteFilterIDs = [], tf_Parameters = []\<rparr>"

definition udp_packet :: "byte list" where
  "udp_packet = [0x45, 0, 0, 28, 0, 0, 0, 0, 64, 17, 0, 0, 10, 0, 0, 1, 192, 0, 2, 7, 0x1F, 0x90, 0, 53, 0, 8, 0, 0]"

theorem MatchIPv4_first_witness:
  "ParseBearerTFT [0x21, 0x21, 10, 2, 0x30, 17] = Ok udp_tft \<and>
   MatchIPv4 udp_tft udp_packet TFTDirectionUplink = Ok (Some udp_filter) \<and> admits udp_packet TFTDirectionUplink udp_filter"
proof -
  have p: "ParseBearerTFT [0x21, 0x21, 10, 2, 0x30, 17] = Ok udp_tft" by code_simp
  have m: "MatchIPv4 udp_tft udp_packet TFTDirectionUplink = Ok (Some udp_filter)" by code_simp
  show ?thesis using p m MatchIPv4_first[OF p, of udp_packet TFTDirectionUplink udp_filter] by blast
qed

end
