(* ===== verification/Entry_Maps.thy ===== *)
theory Entry_Maps
  imports Main
begin

text \<open>
  \<open>ix\<close> holds exactly the entries of the items of table \<open>t\<close>, where an item \<open>x\<close> contributes the entries \<open>E x\<close> and an
  entry names the identifier of its item.
\<close>

definition entries_ok :: "('x \<Rightarrow> ('k \<times> 'v) set) \<Rightarrow> ('i \<rightharpoonup> 'x) \<Rightarrow> ('k \<rightharpoonup> 'v) \<Rightarrow> bool" where
  "entries_ok E t ix \<longleftrightarrow> (\<forall>k v. ix k = Some v \<longleftrightarrow> (\<exists>i x. t i = Some x \<and> (k, v) \<in> E x))"

lemma entries_ok_empty [simp]: "entries_ok E Map.empty Map.empty"
  by (simp add: entries_ok_def)

lemma entries_okD: "entries_ok E t ix \<Longrightarrow> ix k = Some v \<Longrightarrow> \<exists>i x. t i = Some x \<and> (k, v) \<in> E x"
  by (simp add: entries_ok_def)

lemma entries_okI: "entries_ok E t ix \<Longrightarrow> t i = Some x \<Longrightarrow> (k, v) \<in> E x \<Longrightarrow> ix k = Some v"
  by (auto simp: entries_ok_def)

lemma entries_ok_insert:
  assumes "entries_ok E t ix" "t i = None" "\<And>k v. ix' k = Some v \<longleftrightarrow> (k, v) \<in> E x \<or> ix k = Some v"
  shows "entries_ok E (t(i \<mapsto> x)) ix'"
  using assms unfolding entries_ok_def by (auto split: if_splits) (metis option.distinct(1))+

lemma entries_ok_delete:
  assumes "entries_ok E t ix" "t i = Some x" "\<And>j y k v. t j = Some y \<Longrightarrow> (k, v) \<in> E y \<Longrightarrow> owner v = j"
    "\<And>k v. ix' k = Some v \<longleftrightarrow> ix k = Some v \<and> (k, v) \<notin> E x"
  shows "entries_ok E (t(i := None)) ix'"
proof -
  have "(\<exists>j y. t j = Some y \<and> (k, v) \<in> E y) \<and> (k, v) \<notin> E x \<longleftrightarrow> (\<exists>j y. (t(i := None)) j = Some y \<and> (k, v) \<in> E y)" for k v
    using assms(2) assms(3)[of _ _ k v] by (auto split: if_splits) (metis option.inject)+
  then show ?thesis using assms(1,4) by (simp add: entries_ok_def)
qed

end
