(* ===== verification/Pgwu_Rules.thy ===== *)
theory Pgwu_Rules
  imports Gtpv2_Tft Index_Maps Entry_Maps
begin

unbundle bit_operations_syntax

text \<open>
  The rule store of the packet gateway user plane, \<^verbatim>\<open>internal/pgwu/rules/store.go\<close>: sessions with a default bearer and
  dedicated bearers, the index by control-plane SEID, and the indexes of compiled rules by uplink TEID and by UE address
  that the packet path reads without the lock. A compiled rule points to the generation of the session it was compiled
  from, a heap cell whose flag says whether the rule is in force. Every change goes through the data plane (\<^verbatim>\<open>Applier\<close>) and
  the log (\<^verbatim>\<open>Persister\<close>), interfaces of the code: their states are the type parameters \<open>'a\<close> and \<open>'w\<close>, their methods
  arguments of the operations, which return whether they succeeded. The observer's calls are recorded.
\<close>

section \<open>Data\<close>

datatype pgwu_error = ErrNotFound_pgwu | ErrConflict_pgwu | ErrDuplicate_pgwu | ErrCapacity_pgwu | ErrInvalidSession_pgwu
  | ErrDataplane_pgwu | ErrPersistence_pgwu | ErrPoisoned_pgwu | MutationError_pgwu

definition DefaultMaxSessions_pgwu :: int where "DefaultMaxSessions_pgwu = 1000000"
definition MaxDedicatedBearers_pgwu :: nat where "MaxDedicatedBearers_pgwu = 10"
definition MaxFiltersPerBearer_pgwu :: nat where "MaxFiltersPerBearer_pgwu = 64"

record Tunnel_pgwu =
  pt_TEID :: "32 word"
  pt_IP :: Addr

record FlowFilter =
  ff_PDRID :: "16 word"
  ff_Precedence :: "32 word"
  ff_Direction :: TFTDirection
  ff_Filter :: IPv4PacketFilter

record Bearer_pgwu =
  pb_Local :: Tunnel_pgwu
  pb_Remote :: Tunnel_pgwu
  pb_UplinkFARID :: "32 word"
  pb_DownlinkFARID :: "32 word"
  pb_UplinkGateOpen :: bool
  pb_DownlinkGateOpen :: bool
  pb_MaxUplinkBitsPerSecond :: "64 word"
  pb_MaxDownlinkBitsPerSecond :: "64 word"
  pb_QERID :: "32 word"
  pb_URRID :: "32 word"
  pb_MeasureVolume :: bool
  pb_MeasureDuration :: bool
  pb_UsageReportingThreshold :: "64 word"
  pb_QCI :: byte
  pb_ARP :: byte
  pb_Filters :: "FlowFilter list"

text \<open>The slice of dedicated bearers may be nil (\<open>None\<close>), which \<^verbatim>\<open>reflect.DeepEqual\<close> tells from an empty one. The control
  peer is an address and a port, valid when the address is.\<close>

record Session_pgwu =
  ps_CPSEID :: "64 word"
  ps_UPSEID :: "64 word"
  ps_Revision :: "64 word"
  ps_UEIPv4 :: Addr
  ps_Local :: Tunnel_pgwu
  ps_Remote :: Tunnel_pgwu
  ps_UplinkPDRID :: "16 word"
  ps_DownlinkPDRID :: "16 word"
  ps_UplinkFARID :: "32 word"
  ps_DownlinkFARID :: "32 word"
  ps_UplinkGateOpen :: bool
  ps_DownlinkGateOpen :: bool
  ps_MaxUplinkBitsPerSecond :: "64 word"
  ps_MaxDownlinkBitsPerSecond :: "64 word"
  ps_QERID :: "32 word"
  ps_URRID :: "32 word"
  ps_MeasureVolume :: bool
  ps_MeasureDuration :: bool
  ps_UsageReportingThreshold :: "64 word"
  ps_DedicatedBearers :: "Bearer_pgwu list option"
  ps_ControlPeer :: "Addr \<times> 16 word"

definition elems :: "'x list option \<Rightarrow> 'x list" where
  "elems xs0 = (case xs0 of None \<Rightarrow> [] | Some xs \<Rightarrow> xs)"

abbreviation bearers :: "Session_pgwu \<Rightarrow> Bearer_pgwu list" where
  "bearers c \<equiv> elems (ps_DedicatedBearers c)"

record PacketRule_pgwu =
  pk_UPSEID :: "64 word"
  pk_Revision :: "64 word"
  pk_UEIPv4 :: Addr
  pk_Local :: Tunnel_pgwu
  pk_Remote :: Tunnel_pgwu
  pk_UplinkGateOpen :: bool
  pk_DownlinkGateOpen :: bool
  pk_MaxUplinkBitsPerSecond :: "64 word"
  pk_MaxDownlinkBitsPerSecond :: "64 word"
  pk_QERID :: "32 word"
  pk_URRID :: "32 word"
  pk_MeasureVolume :: bool
  pk_MeasureDuration :: bool
  pk_UsageReportingThreshold :: "64 word"
  pk_QCI :: byte
  pk_ARP :: byte
  pk_Default :: bool
  pk_Filters :: "FlowFilter list"
  pk_generation :: "nat option"

record downlinkCandidate =
  dc_precedence :: "32 word"
  dc_pdrID :: "16 word"
  dc_filter :: IPv4PacketFilter
  dc_rule :: PacketRule_pgwu

record downlinkRuleSet =
  dr_generation :: "nat option"
  dr_candidates :: "downlinkCandidate list"
  dr_fallback :: PacketRule_pgwu

datatype observed = ReconcileSession Session_pgwu | DeleteSession "64 word"

record ('a, 'w) Store_pgwu =
  pu_byUP :: "64 word \<rightharpoonup> Session_pgwu"
  pu_byCP :: "64 word \<rightharpoonup> 64 word"
  pu_uplink :: "32 word \<rightharpoonup> PacketRule_pgwu"
  pu_downlink :: "Addr \<rightharpoonup> downlinkRuleSet"
  pu_generations :: "64 word \<rightharpoonup> nat"
  pu_active :: "nat \<Rightarrow> bool"
  pu_heap :: nat
  pu_max :: int
  pu_applier :: "'a option"
  pu_persister :: "'w option"
  pu_observer :: "observed list option"
  pu_poisoned :: bool
  pu_installed :: "64 word"
  pu_removed :: "64 word"

text \<open>The methods of the participants: a transition from one state of a session to the next, and their new state. Some
  data planes also implement \<^verbatim>\<open>Reconciler\<close>.\<close>

type_synonym 'x transition = "Session_pgwu option \<Rightarrow> Session_pgwu option \<Rightarrow> 'x \<Rightarrow> bool \<times> 'x"

record ('a, 'w) Participants =
  pa_Apply :: "'a transition"
  pa_Reconcile :: "(Session_pgwu list \<Rightarrow> 'a \<Rightarrow> bool \<times> 'a) option"
  pa_Commit :: "'w transition"

definition NewStoreWithParticipants_pgwu :: "int \<Rightarrow> 'a option \<Rightarrow> 'w option \<Rightarrow> ('a, 'w) Store_pgwu" where
  "NewStoreWithParticipants_pgwu maxSessions applier persister =
     \<lparr>pu_byUP = Map.empty, pu_byCP = Map.empty, pu_uplink = Map.empty, pu_downlink = Map.empty, pu_generations = Map.empty,
      pu_active = (\<lambda>_. False), pu_heap = 0, pu_max = (if maxSessions \<le> 0 then DefaultMaxSessions_pgwu else maxSessions),
      pu_applier = applier, pu_persister = persister, pu_observer = None, pu_poisoned = False, pu_installed = 0, pu_removed = 0\<rparr>"

section \<open>Canonical form\<close>

definition unmap_tunnel :: "Tunnel_pgwu \<Rightarrow> Tunnel_pgwu" where
  "unmap_tunnel t = t\<lparr>pt_IP := Unmap (pt_IP t)\<rparr>"

definition unmap_valid :: "Addr \<Rightarrow> Addr" where
  "unmap_valid a = (if IsValid a then Unmap a else a)"

definition canonical_filter :: "FlowFilter \<Rightarrow> FlowFilter" where
  "canonical_filter f = f\<lparr>ff_Filter := (ff_Filter f)\<lparr>vf_Direction := ff_Direction f,
     vf_LocalAddress := unmap_valid (vf_LocalAddress (ff_Filter f)),
     vf_LocalAddressMask := unmap_valid (vf_LocalAddressMask (ff_Filter f)),
     vf_RemoteAddress := unmap_valid (vf_RemoteAddress (ff_Filter f)),
     vf_RemoteAddressMask := unmap_valid (vf_RemoteAddressMask (ff_Filter f))\<rparr>\<rparr>"

text \<open>\<^verbatim>\<open>sort.SliceStable\<close> by precedence, direction and PDR, and by QER and TEID.\<close>

definition filter_key :: "FlowFilter \<Rightarrow> 32 word \<times> byte \<times> 16 word" where
  "filter_key f = (ff_Precedence f, ff_Direction f, ff_PDRID f)"

definition bearer_key :: "Bearer_pgwu \<Rightarrow> 32 word \<times> 32 word" where
  "bearer_key b = (pb_QERID b, pt_TEID (pb_Local b))"

definition canonical_bearer :: "Bearer_pgwu \<Rightarrow> Bearer_pgwu" where
  "canonical_bearer b = b\<lparr>pb_Local := unmap_tunnel (pb_Local b), pb_Remote := unmap_tunnel (pb_Remote b),
     pb_Filters := sort_key filter_key (map canonical_filter (pb_Filters b))\<rparr>"

definition canonicalize_pgwu :: "Session_pgwu \<Rightarrow> Session_pgwu" where
  "canonicalize_pgwu c = c\<lparr>ps_UEIPv4 := Unmap (ps_UEIPv4 c), ps_Local := unmap_tunnel (ps_Local c),
     ps_Remote := unmap_tunnel (ps_Remote c),
     ps_ControlPeer := (if IsValid (fst (ps_ControlPeer c)) then (Unmap (fst (ps_ControlPeer c)), snd (ps_ControlPeer c))
       else ps_ControlPeer c),
     ps_DedicatedBearers := map_option (\<lambda>bs. sort_key bearer_key (map canonical_bearer bs)) (ps_DedicatedBearers c)\<rparr>"

section \<open>Validation\<close>

definition invalid_when :: "bool \<Rightarrow> (pgwu_error, unit) outcome" where
  "invalid_when b = (if b then Err ErrInvalidSession_pgwu else Ok ())"

definition validateTunnel_pgwu :: "Tunnel_pgwu \<Rightarrow> (pgwu_error, unit) outcome" where
  "validateTunnel_pgwu t = invalid_when (pt_TEID t = 0 \<or> \<not> Is4 (pt_IP t) \<or> IsUnspecified (pt_IP t) \<or> IsMulticast (pt_IP t))"

definition validateUsage_pgwu :: "32 word \<Rightarrow> bool \<Rightarrow> bool \<Rightarrow> 64 word \<Rightarrow> (pgwu_error, unit) outcome" where
  "validateUsage_pgwu urrID measureVolume measureDuration threshold =
     (if urrID = 0 \<and> (measureVolume \<or> measureDuration \<or> threshold \<noteq> 0) then Err ErrInvalidSession_pgwu
      else if urrID \<noteq> 0 \<and> \<not> measureVolume \<and> \<not> measureDuration then Err ErrInvalidSession_pgwu
      else if threshold \<noteq> 0 \<and> \<not> measureVolume then Err ErrInvalidSession_pgwu else Ok ())"

definition validateFilterAddress :: "bool \<Rightarrow> Addr \<Rightarrow> Addr \<Rightarrow> (pgwu_error, unit) outcome" where
  "validateFilterAddress present address msk =
     (if \<not> present then invalid_when (IsValid address \<or> IsValid msk)
      else invalid_when (\<not> Is4 address \<or> IsUnspecified address \<or> IsMulticast address \<or> \<not> Is4 msk \<or> IsUnspecified msk))"

definition validateFilterPort :: "bool \<Rightarrow> 16 word \<Rightarrow> 16 word \<Rightarrow> (pgwu_error, unit) outcome" where
  "validateFilterPort present low high =
     (if \<not> present then invalid_when (low \<noteq> 0 \<or> high \<noteq> 0) else invalid_when (low > high))"

definition validatePacketFilter :: "IPv4PacketFilter \<Rightarrow> (pgwu_error, unit) outcome" where
  "validatePacketFilter f =
     (if vf_Direction f \<noteq> TFTDirectionDownlink \<and> vf_Direction f \<noteq> TFTDirectionUplink \<and> vf_Direction f \<noteq> TFTDirectionBidirectional
      then Err ErrInvalidSession_pgwu
      else andThen (validateFilterAddress (vf_HasLocalAddress f) (vf_LocalAddress f) (vf_LocalAddressMask f)) (\<lambda>_.
      andThen (validateFilterAddress (vf_HasRemoteAddress f) (vf_RemoteAddress f) (vf_RemoteAddressMask f)) (\<lambda>_.
      if \<not> vf_HasProtocol f \<and> vf_Protocol f \<noteq> 0 then Err ErrInvalidSession_pgwu
      else andThen (validateFilterPort (vf_HasLocalPort f) (vf_LocalPortLow f) (vf_LocalPortHigh f)) (\<lambda>_.
      andThen (validateFilterPort (vf_HasRemotePort f) (vf_RemotePortLow f) (vf_RemotePortHigh f)) (\<lambda>_.
      if (vf_HasLocalPort f \<or> vf_HasRemotePort f) \<and> vf_HasProtocol f \<and>
         vf_Protocol f \<noteq> 6 \<and> vf_Protocol f \<noteq> 17 \<and> vf_Protocol f \<noteq> 132 then Err ErrInvalidSession_pgwu
      else invalid_when (\<not> vf_HasTypeOfService f \<and> (vf_TypeOfService f \<noteq> 0 \<or> vf_TypeOfServiceMask f \<noteq> 0)))))))"

text \<open>The loop over the filters of a bearer: the PDR identifiers seen so far, and the directions covered.\<close>

fun validate_filters :: "FlowFilter list \<Rightarrow> 16 word set \<Rightarrow> bool \<Rightarrow> bool \<Rightarrow> (pgwu_error, 16 word set \<times> bool \<times> bool) outcome" where
  "validate_filters [] seenPDR uplink downlink = Ok (seenPDR, uplink, downlink)"
| "validate_filters (f # fs) seenPDR uplink downlink =
     (if ff_PDRID f = 0 then Err ErrInvalidSession_pgwu
      else if ff_PDRID f \<in> seenPDR then Err ErrInvalidSession_pgwu
      else if ff_Direction f \<noteq> TFTDirectionUplink \<and> ff_Direction f \<noteq> TFTDirectionDownlink \<and>
        ff_Direction f \<noteq> TFTDirectionBidirectional then Err ErrInvalidSession_pgwu
      else andThen (validatePacketFilter (ff_Filter f)) (\<lambda>_.
        validate_filters fs (insert (ff_PDRID f) seenPDR)
          (uplink \<or> ff_Direction f \<noteq> TFTDirectionDownlink) (downlink \<or> ff_Direction f \<noteq> TFTDirectionUplink)))"

text \<open>The loop over the dedicated bearers, with the identifiers seen so far.\<close>

record seen_pgwu =
  sn_TEID :: "32 word set"
  sn_QER :: "32 word set"
  sn_URR :: "32 word set"
  sn_FAR :: "32 word set"
  sn_PDR :: "16 word set"

definition validate_bearer :: "Bearer_pgwu \<Rightarrow> seen_pgwu \<Rightarrow> (pgwu_error, seen_pgwu) outcome" where
  "validate_bearer b seen =
     andThen (validateTunnel_pgwu (pb_Local b)) (\<lambda>_. andThen (validateTunnel_pgwu (pb_Remote b)) (\<lambda>_.
     if pt_TEID (pb_Local b) \<in> sn_TEID seen then Err ErrInvalidSession_pgwu
     else if pb_QERID b = 0 \<or> pb_URRID b = 0 \<or> pb_UplinkFARID b = 0 \<or> pb_DownlinkFARID b = 0 \<or>
       pb_UplinkFARID b = pb_DownlinkFARID b then Err ErrInvalidSession_pgwu
     else if pb_UplinkFARID b \<in> sn_FAR seen \<or> pb_DownlinkFARID b \<in> sn_FAR seen then Err ErrInvalidSession_pgwu
     else if pb_QERID b \<in> sn_QER seen then Err ErrInvalidSession_pgwu
     else if pb_URRID b \<in> sn_URR seen then Err ErrInvalidSession_pgwu
     else if pb_QCI b = 0 \<and> pb_ARP b \<noteq> 0 \<or> pb_QCI b = 255 \<or> pb_ARP b > 15 then Err ErrInvalidSession_pgwu
     else andThen (validateUsage_pgwu (pb_URRID b) (pb_MeasureVolume b) (pb_MeasureDuration b) (pb_UsageReportingThreshold b)) (\<lambda>_.
     if length (pb_Filters b) = 0 \<or> length (pb_Filters b) > MaxFiltersPerBearer_pgwu then Err ErrInvalidSession_pgwu
     else andThen (validate_filters (pb_Filters b) (sn_PDR seen) False False) (\<lambda>(seenPDR, uplink, downlink).
     if \<not> uplink \<or> \<not> downlink then Err ErrInvalidSession_pgwu
     else Ok \<lparr>sn_TEID = insert (pt_TEID (pb_Local b)) (sn_TEID seen), sn_QER = insert (pb_QERID b) (sn_QER seen),
       sn_URR = insert (pb_URRID b) (sn_URR seen), sn_FAR = {pb_UplinkFARID b, pb_DownlinkFARID b} \<union> sn_FAR seen,
       sn_PDR = seenPDR\<rparr>))))"

fun validate_bearers :: "Bearer_pgwu list \<Rightarrow> seen_pgwu \<Rightarrow> (pgwu_error, unit) outcome" where
  "validate_bearers [] seen = Ok ()"
| "validate_bearers (b # bs) seen = andThen (validate_bearer b seen) (validate_bearers bs)"

definition legacyRuleIDs :: "Session_pgwu \<Rightarrow> bool" where
  "legacyRuleIDs c \<longleftrightarrow> ps_UplinkPDRID c = 0 \<and> ps_DownlinkPDRID c = 0 \<and> ps_UplinkFARID c = 0 \<and> ps_DownlinkFARID c = 0"

definition seen_default :: "Session_pgwu \<Rightarrow> seen_pgwu" where
  "seen_default c = \<lparr>sn_TEID = {pt_TEID (ps_Local c)}, sn_QER = (if ps_QERID c \<noteq> 0 then {ps_QERID c} else {}),
     sn_URR = (if ps_URRID c \<noteq> 0 then {ps_URRID c} else {}),
     sn_FAR = (if legacyRuleIDs c then {} else {ps_UplinkFARID c, ps_DownlinkFARID c}),
     sn_PDR = (if legacyRuleIDs c then {} else {ps_UplinkPDRID c, ps_DownlinkPDRID c})\<rparr>"

definition validate_pgwu :: "Session_pgwu \<Rightarrow> (pgwu_error, unit) outcome" where
  "validate_pgwu c =
     (if ps_CPSEID c = 0 \<or> ps_UPSEID c = 0 then Err ErrInvalidSession_pgwu
      else if \<not> Is4 (ps_UEIPv4 c) \<or> IsUnspecified (ps_UEIPv4 c) \<or> IsMulticast (ps_UEIPv4 c) then Err ErrInvalidSession_pgwu
      else andThen (validateTunnel_pgwu (ps_Local c)) (\<lambda>_. andThen (validateTunnel_pgwu (ps_Remote c)) (\<lambda>_.
      if \<not> legacyRuleIDs c \<and> (ps_UplinkPDRID c = 0 \<or> ps_DownlinkPDRID c = 0 \<or> ps_UplinkPDRID c = ps_DownlinkPDRID c \<or>
        ps_UplinkFARID c = 0 \<or> ps_DownlinkFARID c = 0 \<or> ps_UplinkFARID c = ps_DownlinkFARID c) then Err ErrInvalidSession_pgwu
      else if IsValid (fst (ps_ControlPeer c)) \<and> (\<not> Is4 (fst (ps_ControlPeer c)) \<or> snd (ps_ControlPeer c) = 0)
      then Err ErrInvalidSession_pgwu
      else andThen (validateUsage_pgwu (ps_URRID c) (ps_MeasureVolume c) (ps_MeasureDuration c) (ps_UsageReportingThreshold c)) (\<lambda>_.
      if length (bearers c) > MaxDedicatedBearers_pgwu then Err ErrInvalidSession_pgwu
      else validate_bearers (bearers c) (seen_default c)))))"

section \<open>Compiling and indexing\<close>

definition compileDefaultRule :: "Session_pgwu \<Rightarrow> nat \<Rightarrow> PacketRule_pgwu" where
  "compileDefaultRule c generation =
     \<lparr>pk_UPSEID = ps_UPSEID c, pk_Revision = ps_Revision c, pk_UEIPv4 = ps_UEIPv4 c, pk_Local = ps_Local c, pk_Remote = ps_Remote c,
      pk_UplinkGateOpen = ps_UplinkGateOpen c, pk_DownlinkGateOpen = ps_DownlinkGateOpen c,
      pk_MaxUplinkBitsPerSecond = ps_MaxUplinkBitsPerSecond c, pk_MaxDownlinkBitsPerSecond = ps_MaxDownlinkBitsPerSecond c,
      pk_QERID = ps_QERID c, pk_URRID = ps_URRID c, pk_MeasureVolume = ps_MeasureVolume c,
      pk_MeasureDuration = ps_MeasureDuration c, pk_UsageReportingThreshold = ps_UsageReportingThreshold c,
      pk_QCI = 0, pk_ARP = 0, pk_Default = True, pk_Filters = [], pk_generation = Some generation\<rparr>"

definition compileDedicatedRule :: "Session_pgwu \<Rightarrow> Bearer_pgwu \<Rightarrow> nat \<Rightarrow> PacketRule_pgwu" where
  "compileDedicatedRule c b generation =
     \<lparr>pk_UPSEID = ps_UPSEID c, pk_Revision = ps_Revision c, pk_UEIPv4 = ps_UEIPv4 c, pk_Local = pb_Local b, pk_Remote = pb_Remote b,
      pk_UplinkGateOpen = pb_UplinkGateOpen b, pk_DownlinkGateOpen = pb_DownlinkGateOpen b,
      pk_MaxUplinkBitsPerSecond = pb_MaxUplinkBitsPerSecond b, pk_MaxDownlinkBitsPerSecond = pb_MaxDownlinkBitsPerSecond b,
      pk_QERID = pb_QERID b, pk_URRID = pb_URRID b, pk_MeasureVolume = pb_MeasureVolume b,
      pk_MeasureDuration = pb_MeasureDuration b, pk_UsageReportingThreshold = pb_UsageReportingThreshold b,
      pk_QCI = pb_QCI b, pk_ARP = pb_ARP b, pk_Default = False, pk_Filters = pb_Filters b, pk_generation = Some generation\<rparr>"

definition sessionLocalTunnels :: "Session_pgwu \<Rightarrow> Tunnel_pgwu list" where
  "sessionLocalTunnels c = ps_Local c # map pb_Local (bearers c)"

fun rule_candidates :: "PacketRule_pgwu \<Rightarrow> FlowFilter list \<Rightarrow> downlinkCandidate list" where
  "rule_candidates rule [] = []"
| "rule_candidates rule (f # fs) =
     (if \<not> AppliesTo (ff_Filter f) TFTDirectionDownlink then rule_candidates rule fs
      else \<lparr>dc_precedence = ff_Precedence f, dc_pdrID = ff_PDRID f, dc_filter = ff_Filter f, dc_rule = rule\<rparr> # rule_candidates rule fs)"

text \<open>The loop of \<^verbatim>\<open>indexSession\<close> over the dedicated bearers: it stores their uplink rules and collects the candidates.\<close>

fun index_bearers :: "Session_pgwu \<Rightarrow> nat \<Rightarrow> Bearer_pgwu list \<Rightarrow> (32 word \<rightharpoonup> PacketRule_pgwu) \<Rightarrow> downlinkCandidate list \<Rightarrow>
    (32 word \<rightharpoonup> PacketRule_pgwu) \<times> downlinkCandidate list" where
  "index_bearers c g [] uplink cs = (uplink, cs)"
| "index_bearers c g (b # bs) uplink cs =
     (let rule = compileDedicatedRule c b g in
      index_bearers c g bs (uplink(pt_TEID (pk_Local rule) \<mapsto> rule)) (cs @ rule_candidates rule (pk_Filters rule)))"

definition candidate_key :: "downlinkCandidate \<Rightarrow> 32 word \<times> 16 word" where
  "candidate_key d = (dc_precedence d, dc_pdrID d)"

definition indexSession_pgwu :: "Session_pgwu \<Rightarrow> nat \<Rightarrow> ('a, 'w) Store_pgwu \<Rightarrow> ('a, 'w) Store_pgwu" where
  "indexSession_pgwu c g s =
     (let fallback = compileDefaultRule c g in
      case index_bearers c g (bearers c) ((pu_uplink s)(pt_TEID (pk_Local fallback) \<mapsto> fallback)) [] of (uplink, cs) \<Rightarrow>
      s\<lparr>pu_uplink := uplink, pu_downlink := (pu_downlink s)(ps_UEIPv4 c \<mapsto>
          \<lparr>dr_generation = Some g, dr_candidates = sort_key candidate_key cs, dr_fallback = fallback\<rparr>)\<rparr>)"

text \<open>Removal compares the generation pointers; \<open>None\<close> is the nil pointer.\<close>

fun unindex_tunnels :: "Tunnel_pgwu list \<Rightarrow> nat option \<Rightarrow> (32 word \<rightharpoonup> PacketRule_pgwu) \<Rightarrow> (32 word \<rightharpoonup> PacketRule_pgwu)" where
  "unindex_tunnels [] g uplink = uplink"
| "unindex_tunnels (t # ts) g uplink = unindex_tunnels ts g
     (case uplink (pt_TEID t) of None \<Rightarrow> uplink
      | Some r \<Rightarrow> if pk_generation r = g then uplink(pt_TEID t := None) else uplink)"

definition unindexSession_pgwu :: "Session_pgwu \<Rightarrow> nat option \<Rightarrow> ('a, 'w) Store_pgwu \<Rightarrow> ('a, 'w) Store_pgwu" where
  "unindexSession_pgwu c g s =
     s\<lparr>pu_uplink := unindex_tunnels (sessionLocalTunnels c) g (pu_uplink s),
       pu_downlink := (case pu_downlink s (ps_UEIPv4 c) of None \<Rightarrow> pu_downlink s
         | Some d \<Rightarrow> if dr_generation d = g then (pu_downlink s)(ps_UEIPv4 c := None) else pu_downlink s)\<rparr>"

definition checkTunnelConflicts_pgwu :: "Session_pgwu \<Rightarrow> 64 word \<Rightarrow> ('a, 'w) Store_pgwu \<Rightarrow> (pgwu_error, unit) outcome" where
  "checkTunnelConflicts_pgwu c replacingUPSEID s =
     (if \<exists>t \<in> set (sessionLocalTunnels c). (case pu_uplink s (pt_TEID t) of None \<Rightarrow> False
         | Some r \<Rightarrow> pk_UPSEID r \<noteq> replacingUPSEID)
      then Err ErrDuplicate_pgwu else Ok ())"

section \<open>Participants\<close>

definition apply_pgwu :: "('a, 'w) Participants \<Rightarrow> Session_pgwu option \<Rightarrow> Session_pgwu option \<Rightarrow> ('a, 'w) Store_pgwu \<Rightarrow>
    (pgwu_error, unit) outcome \<times> ('a, 'w) Store_pgwu" where
  "apply_pgwu P previous nxt s = (case pu_applier s of None \<Rightarrow> (Ok (), s)
     | Some a \<Rightarrow> (case pa_Apply P previous nxt a of
         (True, a') \<Rightarrow> (Ok (), s\<lparr>pu_applier := Some a'\<rparr>)
       | (False, a') \<Rightarrow> (Err ErrDataplane_pgwu, s\<lparr>pu_applier := Some a'\<rparr>)))"

definition commit_pgwu :: "('a, 'w) Participants \<Rightarrow> Session_pgwu option \<Rightarrow> Session_pgwu option \<Rightarrow> ('a, 'w) Store_pgwu \<Rightarrow>
    (pgwu_error, unit) outcome \<times> ('a, 'w) Store_pgwu" where
  "commit_pgwu P previous nxt s =
     (case apply_pgwu P previous nxt s of
        (Err e, s1) \<Rightarrow> (Err e, s1) | (Panic, s1) \<Rightarrow> (Panic, s1)
      | (Ok _, s1) \<Rightarrow>
        (case pu_persister s1 of None \<Rightarrow> (Ok (), s1)
         | Some w \<Rightarrow> (case pa_Commit P previous nxt w of
             (True, w') \<Rightarrow> (Ok (), s1\<lparr>pu_persister := Some w'\<rparr>)
           | (False, w') \<Rightarrow>
             (Err ErrPersistence_pgwu,
              s1\<lparr>pu_persister := Some w', pu_applier := map_option (\<lambda>a. snd (pa_Apply P nxt previous a)) (pu_applier s1),
                pu_poisoned := True\<rparr>))))"

definition notify_pgwu :: "observed \<Rightarrow> ('a, 'w) Store_pgwu \<Rightarrow> ('a, 'w) Store_pgwu" where
  "notify_pgwu e s = s\<lparr>pu_observer := map_option (\<lambda>es. es @ [e]) (pu_observer s)\<rparr>"

section \<open>Operations\<close>

text \<open>The tail shared by the operations that install a revision: store the session, index it under a new generation, tell
  the observer, and only then activate the generation.\<close>

definition install_pgwu :: "Session_pgwu \<Rightarrow> ('a, 'w) Store_pgwu \<Rightarrow> ('a, 'w) Store_pgwu" where
  "install_pgwu c s =
     (let g = pu_heap s;
          s = s\<lparr>pu_byUP := (pu_byUP s)(ps_UPSEID c \<mapsto> c), pu_heap := Suc g, pu_active := (pu_active s)(g := False)\<rparr>;
          s = indexSession_pgwu c g s;
          s = s\<lparr>pu_generations := (pu_generations s)(ps_UPSEID c \<mapsto> g)\<rparr>;
          s = notify_pgwu (ReconcileSession c) s in
      s\<lparr>pu_active := (pu_active s)(g := True)\<rparr>)"

definition retire_pgwu :: "64 word \<Rightarrow> Session_pgwu \<Rightarrow> ('a, 'w) Store_pgwu \<Rightarrow> ('a, 'w) Store_pgwu" where
  "retire_pgwu upSEID previous s =
     (let g = pu_generations s upSEID;
          s = (case g of None \<Rightarrow> s | Some i \<Rightarrow> s\<lparr>pu_active := (pu_active s)(i := False)\<rparr>) in
      unindexSession_pgwu previous g s)"

definition Create_pgwu :: "('a, 'w) Participants \<Rightarrow> Session_pgwu \<Rightarrow> ('a, 'w) Store_pgwu \<Rightarrow>
    (pgwu_error, Session_pgwu) outcome \<times> ('a, 'w) Store_pgwu" where
  "Create_pgwu P candidate s =
     (let candidate = canonicalize_pgwu candidate in
      case validate_pgwu candidate of Err e \<Rightarrow> (Err e, s) | Panic \<Rightarrow> (Panic, s)
      | Ok _ \<Rightarrow>
      if pu_poisoned s then (Err ErrPoisoned_pgwu, s)
      else if pu_byUP s (ps_UPSEID candidate) \<noteq> None then (Err ErrDuplicate_pgwu, s)
      else if pu_byCP s (ps_CPSEID candidate) \<noteq> None then (Err ErrDuplicate_pgwu, s)
      else if pu_downlink s (ps_UEIPv4 candidate) \<noteq> None then (Err ErrDuplicate_pgwu, s)
      else case checkTunnelConflicts_pgwu candidate 0 s of Err e \<Rightarrow> (Err e, s) | Panic \<Rightarrow> (Panic, s)
      | Ok _ \<Rightarrow>
      if int (card (dom (pu_byUP s))) \<ge> pu_max s then (Err ErrCapacity_pgwu, s)
      else let candidate = candidate\<lparr>ps_Revision := 1\<rparr> in
      (case commit_pgwu P None (Some candidate) s of
         (Err e, s1) \<Rightarrow> (Err e, s1) | (Panic, s1) \<Rightarrow> (Panic, s1)
       | (Ok _, s1) \<Rightarrow>
         let s2 = install_pgwu candidate (s1\<lparr>pu_byCP := (pu_byCP s1)(ps_CPSEID candidate \<mapsto> ps_UPSEID candidate)\<rparr>) in
         (Ok candidate, s2\<lparr>pu_installed := pu_installed s2 + 1\<rparr>)))"

definition Update_pgwu :: "('a, 'w) Participants \<Rightarrow> 64 word \<Rightarrow> 64 word \<Rightarrow>
    (Session_pgwu \<Rightarrow> (pgwu_error, Session_pgwu) outcome) option \<Rightarrow> ('a, 'w) Store_pgwu \<Rightarrow>
    (pgwu_error, Session_pgwu) outcome \<times> ('a, 'w) Store_pgwu" where
  "Update_pgwu P upSEID expectedRevision mutate s =
     (case mutate of None \<Rightarrow> (Err ErrInvalidSession_pgwu, s)
      | Some mutate \<Rightarrow>
      if pu_poisoned s then (Err ErrPoisoned_pgwu, s)
      else case pu_byUP s upSEID of None \<Rightarrow> (Err ErrNotFound_pgwu, s)
      | Some current \<Rightarrow>
      if ps_Revision current \<noteq> expectedRevision then (Err ErrConflict_pgwu, s)
      else case mutate current of Err e \<Rightarrow> (Err e, s) | Panic \<Rightarrow> (Panic, s)
      | Ok nxt \<Rightarrow>
      let nxt = canonicalize_pgwu nxt in
      if ps_CPSEID nxt \<noteq> ps_CPSEID current \<or> ps_UPSEID nxt \<noteq> ps_UPSEID current \<or> ps_UEIPv4 nxt \<noteq> ps_UEIPv4 current \<or>
         ps_Local nxt \<noteq> ps_Local current \<or> ps_ControlPeer nxt \<noteq> ps_ControlPeer current
      then (Err ErrInvalidSession_pgwu, s)
      else case validate_pgwu nxt of Err e \<Rightarrow> (Err e, s) | Panic \<Rightarrow> (Panic, s)
      | Ok _ \<Rightarrow>
      case checkTunnelConflicts_pgwu nxt upSEID s of Err e \<Rightarrow> (Err e, s) | Panic \<Rightarrow> (Panic, s)
      | Ok _ \<Rightarrow>
      let nxt = nxt\<lparr>ps_Revision := ps_Revision nxt + 1\<rparr> in
      (case commit_pgwu P (Some current) (Some nxt) s of
         (Err e, s1) \<Rightarrow> (Err e, s1) | (Panic, s1) \<Rightarrow> (Panic, s1)
       | (Ok _, s1) \<Rightarrow> (Ok nxt, install_pgwu nxt (retire_pgwu upSEID current s1))))"

definition Reconcile_pgwu :: "('a, 'w) Participants \<Rightarrow> 64 word \<Rightarrow> Session_pgwu \<Rightarrow> ('a, 'w) Store_pgwu \<Rightarrow>
    (pgwu_error, Session_pgwu) outcome \<times> ('a, 'w) Store_pgwu" where
  "Reconcile_pgwu P cpSEID candidate s =
     (if cpSEID = 0 \<or> ps_CPSEID candidate \<noteq> cpSEID then (Err ErrInvalidSession_pgwu, s)
      else let candidate = canonicalize_pgwu candidate in
      if pu_poisoned s then (Err ErrPoisoned_pgwu, s)
      else case pu_byCP s cpSEID of None \<Rightarrow> (Err ErrNotFound_pgwu, s)
      | Some upSEID \<Rightarrow>
      case pu_byUP s upSEID of None \<Rightarrow> (Panic, s)
      | Some current \<Rightarrow>
      let candidate = candidate\<lparr>ps_UPSEID := upSEID\<rparr> in
      case validate_pgwu candidate of Err e \<Rightarrow> (Err e, s) | Panic \<Rightarrow> (Panic, s)
      | Ok _ \<Rightarrow>
      if ps_UEIPv4 candidate \<noteq> ps_UEIPv4 current \<or> ps_Local candidate \<noteq> ps_Local current \<or>
         ps_ControlPeer candidate \<noteq> ps_ControlPeer current then (Err ErrInvalidSession_pgwu, s)
      else case checkTunnelConflicts_pgwu candidate upSEID s of Err e \<Rightarrow> (Err e, s) | Panic \<Rightarrow> (Panic, s)
      | Ok _ \<Rightarrow>
      if candidate\<lparr>ps_Revision := ps_Revision current\<rparr> = current then (Ok current, s)
      else let candidate = candidate\<lparr>ps_Revision := ps_Revision current + 1\<rparr> in
      (case commit_pgwu P (Some current) (Some candidate) s of
         (Err e, s1) \<Rightarrow> (Err e, s1) | (Panic, s1) \<Rightarrow> (Panic, s1)
       | (Ok _, s1) \<Rightarrow> (Ok candidate, install_pgwu candidate (retire_pgwu upSEID current s1))))"

definition Delete_pgwu :: "('a, 'w) Participants \<Rightarrow> 64 word \<Rightarrow> 64 word \<Rightarrow> ('a, 'w) Store_pgwu \<Rightarrow>
    (pgwu_error, unit) outcome \<times> ('a, 'w) Store_pgwu" where
  "Delete_pgwu P upSEID expectedRevision s =
     (if pu_poisoned s then (Err ErrPoisoned_pgwu, s)
      else case pu_byUP s upSEID of None \<Rightarrow> (Err ErrNotFound_pgwu, s)
      | Some current \<Rightarrow>
      if ps_Revision current \<noteq> expectedRevision then (Err ErrConflict_pgwu, s)
      else (case commit_pgwu P (Some current) None s of
         (Err e, s1) \<Rightarrow> (Err e, s1) | (Panic, s1) \<Rightarrow> (Panic, s1)
       | (Ok _, s1) \<Rightarrow>
         let s2 = retire_pgwu upSEID current s1;
             s2 = s2\<lparr>pu_byUP := (pu_byUP s2)(upSEID := None), pu_byCP := (pu_byCP s2)(ps_CPSEID current := None),
               pu_generations := (pu_generations s2)(upSEID := None)\<rparr>;
             s2 = notify_pgwu (DeleteSession upSEID) s2 in
         (Ok (), s2\<lparr>pu_removed := pu_removed s2 + 1\<rparr>)))"

section \<open>Lookups\<close>

definition findLocked_pgwu :: "('a, 'w) Store_pgwu \<Rightarrow> 64 word \<Rightarrow> Session_pgwu option" where
  "findLocked_pgwu s upSEID = (if upSEID = 0 then None else pu_byUP s upSEID)"

definition FindByUPSEID_pgwu :: "('a, 'w) Store_pgwu \<Rightarrow> 64 word \<Rightarrow> Session_pgwu option" where
  "FindByUPSEID_pgwu s seid = findLocked_pgwu s seid"

text \<open>Reading a missing key of a Go map gives zero.\<close>

definition FindByCPSEID_pgwu :: "('a, 'w) Store_pgwu \<Rightarrow> 64 word \<Rightarrow> Session_pgwu option" where
  "FindByCPSEID_pgwu s seid = findLocked_pgwu s (case pu_byCP s seid of None \<Rightarrow> 0 | Some u \<Rightarrow> u)"

definition DeleteByCPPeerSession_pgwu :: "('a, 'w) Participants \<Rightarrow> 64 word \<Rightarrow> ('a, 'w) Store_pgwu \<Rightarrow> bool \<times> ('a, 'w) Store_pgwu" where
  "DeleteByCPPeerSession_pgwu P cpSEID s = (case FindByCPSEID_pgwu s cpSEID of None \<Rightarrow> (False, s)
     | Some current \<Rightarrow> (case Delete_pgwu P (ps_UPSEID current) (ps_Revision current) s of (r, s1) \<Rightarrow> (is_Ok r, s1)))"

definition live_generation :: "('a, 'w) Store_pgwu \<Rightarrow> nat option \<Rightarrow> bool" where
  "live_generation s g = (case g of None \<Rightarrow> False | Some i \<Rightarrow> pu_active s i)"

definition LookupUplink_pgwu :: "('a, 'w) Store_pgwu \<Rightarrow> 32 word \<Rightarrow> Session_pgwu option" where
  "LookupUplink_pgwu s teid = (case pu_uplink s teid of None \<Rightarrow> None
     | Some rule \<Rightarrow> if \<not> live_generation s (pk_generation rule) then None else FindByUPSEID_pgwu s (pk_UPSEID rule))"

definition LookupDownlink_pgwu :: "('a, 'w) Store_pgwu \<Rightarrow> Addr \<Rightarrow> Session_pgwu option" where
  "LookupDownlink_pgwu s ueIPv4 = (case pu_downlink s (Unmap ueIPv4) of None \<Rightarrow> None
     | Some rules \<Rightarrow> if \<not> live_generation s (dr_generation rules) then None
         else FindByUPSEID_pgwu s (pk_UPSEID (dr_fallback rules)))"

fun first_filter :: "FlowFilter list \<Rightarrow> byte list \<Rightarrow> (tft_error, bool) outcome" where
  "first_filter [] packet = Ok False"
| "first_filter (f # fs) packet = andThen (Matches_filter (ff_Filter f) packet TFTDirectionUplink) (\<lambda>matched.
     if matched then Ok True else first_filter fs packet)"

definition LookupUplinkPacket_pgwu :: "('a, 'w) Store_pgwu \<Rightarrow> 32 word \<Rightarrow> byte list \<Rightarrow> (tft_error, PacketRule_pgwu option) outcome" where
  "LookupUplinkPacket_pgwu s teid packet = (case pu_uplink s teid of None \<Rightarrow> Ok None
     | Some rule \<Rightarrow>
       if \<not> live_generation s (pk_generation rule) then Ok None
       else if pk_Default rule then Ok (Some rule)
       else andThen (first_filter (pk_Filters rule) packet) (\<lambda>matched. Ok (if matched then Some rule else None)))"

fun first_candidate :: "downlinkCandidate list \<Rightarrow> byte list \<Rightarrow> PacketRule_pgwu \<Rightarrow> (tft_error, PacketRule_pgwu option) outcome" where
  "first_candidate [] packet fallback = Ok (Some fallback)"
| "first_candidate (d # ds) packet fallback = andThen (Matches_filter (dc_filter d) packet TFTDirectionDownlink) (\<lambda>matched.
     if matched then Ok (Some (dc_rule d)) else first_candidate ds packet fallback)"

definition LookupDownlinkPacket_pgwu :: "('a, 'w) Store_pgwu \<Rightarrow> Addr \<Rightarrow> byte list \<Rightarrow> (tft_error, PacketRule_pgwu option) outcome" where
  "LookupDownlinkPacket_pgwu s ueIPv4 packet = (case pu_downlink s (Unmap ueIPv4) of None \<Rightarrow> Ok None
     | Some rules \<Rightarrow>
       if \<not> live_generation s (dr_generation rules) then Ok None
       else first_candidate (dr_candidates rules) packet (dr_fallback rules))"

definition Snapshot_pgwu :: "('a, 'w) Store_pgwu \<Rightarrow> Session_pgwu list" where
  "Snapshot_pgwu s = map (\<lambda>u. the (pu_byUP s u)) (sorted_list_of_set (dom (pu_byUP s)))"

definition Count_pgwu :: "('a, 'w) Store_pgwu \<Rightarrow> nat" where "Count_pgwu s = card (dom (pu_byUP s))"
definition Capacity_pgwu :: "('a, 'w) Store_pgwu \<Rightarrow> int" where "Capacity_pgwu s = pu_max s"

definition LifecycleCounters_pgwu :: "('a, 'w) Store_pgwu \<Rightarrow> 64 word \<times> 64 word" where
  "LifecycleCounters_pgwu s = (pu_installed s, pu_removed s)"

text \<open>A new observer is told all sessions, in the iteration order \<open>order\<close> of the table.\<close>

definition SetObserver_pgwu :: "64 word list \<Rightarrow> bool \<Rightarrow> ('a, 'w) Store_pgwu \<Rightarrow> ('a, 'w) Store_pgwu" where
  "SetObserver_pgwu order present s =
     s\<lparr>pu_observer := (if \<not> present then None else Some (map ReconcileSession (List.map_filter (pu_byUP s) order)))\<rparr>"

section \<open>Restore\<close>

fun claim_tunnels :: "Tunnel_pgwu list \<Rightarrow> 32 word set \<Rightarrow> (pgwu_error, 32 word set) outcome" where
  "claim_tunnels [] seen = Ok seen"
| "claim_tunnels (t # ts) seen = (if pt_TEID t \<in> seen then Err ErrDuplicate_pgwu else claim_tunnels ts (insert (pt_TEID t) seen))"

text \<open>The loop over the recovered sessions with the local tables of the function; \<open>canonical\<close> is the slice of the canonical sessions so far.\<close>

fun restore_sessions :: "Session_pgwu list \<Rightarrow> (64 word \<rightharpoonup> Session_pgwu) \<Rightarrow> (64 word \<rightharpoonup> 64 word) \<Rightarrow> 32 word set \<Rightarrow> Addr set \<Rightarrow>
    Session_pgwu list \<Rightarrow> (pgwu_error, (64 word \<rightharpoonup> Session_pgwu) \<times> (64 word \<rightharpoonup> 64 word) \<times> Session_pgwu list) outcome" where
  "restore_sessions [] byUP byCP seenTunnel seenUE canonical = Ok (byUP, byCP, canonical)"
| "restore_sessions (recovered # rest) byUP byCP seenTunnel seenUE canonical =
     (let current = canonicalize_pgwu recovered in
      if ps_Revision current = 0 then Err ErrInvalidSession_pgwu
      else andThen (validate_pgwu current) (\<lambda>_.
      if byUP (ps_UPSEID current) \<noteq> None then Err ErrDuplicate_pgwu
      else if byCP (ps_CPSEID current) \<noteq> None then Err ErrDuplicate_pgwu
      else if ps_UEIPv4 current \<in> seenUE then Err ErrDuplicate_pgwu
      else andThen (claim_tunnels (sessionLocalTunnels current) seenTunnel) (\<lambda>seenTunnel.
        restore_sessions rest (byUP(ps_UPSEID current \<mapsto> current)) (byCP(ps_CPSEID current \<mapsto> ps_UPSEID current))
          seenTunnel (insert (ps_UEIPv4 current) seenUE) (canonical @ [current]))))"

text \<open>Handing the recovered sessions to a data plane one by one; after a failure the applied ones are taken back, last one
  first, and the second component says whether taking back failed.\<close>

fun roll_back :: "'a transition \<Rightarrow> Session_pgwu list \<Rightarrow> 'a \<Rightarrow> bool \<times> 'a" where
  "roll_back apply [] a = (False, a)"
| "roll_back apply (c # cs) a = (case apply (Some c) None a of (ok, a) \<Rightarrow>
     case roll_back apply cs a of (failed, a) \<Rightarrow> (\<not> ok \<or> failed, a))"

fun apply_all :: "'a transition \<Rightarrow> Session_pgwu list \<Rightarrow> Session_pgwu list \<Rightarrow> 'a \<Rightarrow> bool \<times> bool \<times> 'a" where
  "apply_all apply [] applied a = (True, False, a)"
| "apply_all apply (c # cs) applied a = (case apply None (Some c) a of
     (True, a) \<Rightarrow> apply_all apply cs (c # applied) a
   | (False, a) \<Rightarrow> (False, roll_back apply applied a))"

definition restore_dataplane :: "('a, 'w) Participants \<Rightarrow> Session_pgwu list \<Rightarrow> ('a, 'w) Store_pgwu \<Rightarrow>
    (pgwu_error, unit) outcome \<times> ('a, 'w) Store_pgwu" where
  "restore_dataplane P canonical s = (case pu_applier s of None \<Rightarrow> (Ok (), s)
     | Some a \<Rightarrow> (case pa_Reconcile P of
         Some reconcile \<Rightarrow> (case reconcile canonical a of (ok, a) \<Rightarrow>
           (if ok then Ok () else Err ErrDataplane_pgwu, s\<lparr>pu_applier := Some a\<rparr>))
       | None \<Rightarrow> (case apply_all (pa_Apply P) canonical [] a of (ok, stuck, a) \<Rightarrow>
           (if ok then Ok () else Err ErrDataplane_pgwu,
            s\<lparr>pu_applier := Some a, pu_poisoned := (pu_poisoned s \<or> \<not> ok \<and> stuck)\<rparr>))))"

text \<open>Indexing a recovered session under a new generation.\<close>

definition activate_pgwu :: "Session_pgwu \<Rightarrow> ('a, 'w) Store_pgwu \<Rightarrow> ('a, 'w) Store_pgwu" where
  "activate_pgwu c s =
     (let g = pu_heap s;
          s = indexSession_pgwu c g (s\<lparr>pu_heap := Suc g, pu_active := (pu_active s)(g := False)\<rparr>) in
      s\<lparr>pu_generations := (pu_generations s)(ps_UPSEID c \<mapsto> g), pu_active := (pu_active s)(g := True)\<rparr>)"

definition Restore_pgwu :: "('a, 'w) Participants \<Rightarrow> Session_pgwu list \<Rightarrow> ('a, 'w) Store_pgwu \<Rightarrow>
    (pgwu_error, unit) outcome \<times> ('a, 'w) Store_pgwu" where
  "Restore_pgwu P recovered s =
     (if pu_poisoned s then (Err ErrPoisoned_pgwu, s)
      else if card (dom (pu_byUP s)) \<noteq> 0 then (Err ErrConflict_pgwu, s)
      else if int (length recovered) > pu_max s then (Err ErrCapacity_pgwu, s)
      else case restore_sessions recovered Map.empty Map.empty {} {} [] of Err e \<Rightarrow> (Err e, s) | Panic \<Rightarrow> (Panic, s)
      | Ok (byUP, byCP, canonical) \<Rightarrow>
      (case restore_dataplane P canonical s of
         (Err e, s1) \<Rightarrow> (Err e, s1) | (Panic, s1) \<Rightarrow> (Panic, s1)
       | (Ok _, s1) \<Rightarrow>
         let s2 = fold activate_pgwu canonical (s1\<lparr>pu_byUP := byUP, pu_byCP := byCP\<rparr>);
             s2 = s2\<lparr>pu_installed := pu_installed s2 + of_nat (length recovered)\<rparr> in
         (Ok (), fold (\<lambda>c. notify_pgwu (ReconcileSession c)) canonical s2)))"

section \<open>What validation guarantees\<close>

definition valid_pgwu :: "Session_pgwu \<Rightarrow> bool" where
  "valid_pgwu c \<longleftrightarrow> validate_pgwu c = Ok ()"

text \<open>A check that accepts or refuses the session as invalid.\<close>

definition refuses :: "(pgwu_error, 'x) outcome \<Rightarrow> bool" where
  "refuses m \<longleftrightarrow> (\<exists>x. m = Ok x) \<or> m = Err ErrInvalidSession_pgwu"

lemma refuses_rules:
  "refuses (Ok x)" "refuses (Err ErrInvalidSession_pgwu)" "refuses (invalid_when b)"
  "(b \<Longrightarrow> refuses m) \<Longrightarrow> (\<not> b \<Longrightarrow> refuses n) \<Longrightarrow> refuses (if b then m else n)"
  "refuses k \<Longrightarrow> (\<And>x. refuses (f x)) \<Longrightarrow> refuses (andThen k f)"
  "(\<And>a b. refuses (h a b)) \<Longrightarrow> refuses (case_prod h p)"
  by (auto simp: refuses_def invalid_when_def split: prod.split)

lemma check_refuses [simp]:
  "refuses (validateTunnel_pgwu t)" "refuses (validateUsage_pgwu u mv md th)" "refuses (validatePacketFilter f)"
  unfolding validateTunnel_pgwu_def validateUsage_pgwu_def validatePacketFilter_def validateFilterAddress_def validateFilterPort_def
  by (intro refuses_rules)+

lemma validate_filters_refuses [simp]: "refuses (validate_filters fs P u d)"
proof (induction fs arbitrary: P u d)
  case (Cons f fs)
  show ?case unfolding validate_filters.simps by (intro refuses_rules check_refuses Cons.IH)
qed (simp add: refuses_rules)

lemma validate_bearer_refuses [simp]: "refuses (validate_bearer b seen)"
  unfolding validate_bearer_def by (intro refuses_rules check_refuses validate_filters_refuses)

lemma validate_bearers_refuses [simp]: "refuses (validate_bearers bs seen)"
proof (induction bs arbitrary: seen)
  case (Cons b bs)
  show ?case unfolding validate_bearers.simps by (intro refuses_rules validate_bearer_refuses Cons.IH)
qed (simp add: refuses_rules)

lemma validate_pgwu_cases: "validate_pgwu c = Ok () \<or> validate_pgwu c = Err ErrInvalidSession_pgwu"
proof -
  have "refuses (validate_pgwu c)"
    unfolding validate_pgwu_def by (intro refuses_rules check_refuses validate_bearers_refuses)
  then show ?thesis by (simp add: refuses_def)
qed

lemma validate_bearer_TEID:
  "validate_bearer b seen = Ok seen' \<Longrightarrow> pt_TEID (pb_Local b) \<notin> sn_TEID seen \<and> sn_TEID seen' = insert (pt_TEID (pb_Local b)) (sn_TEID seen)"
  by (auto simp: validate_bearer_def split: if_splits)

lemma validate_bearers_TEIDs:
  "validate_bearers bs seen = Ok () \<Longrightarrow>
     distinct (map (\<lambda>b. pt_TEID (pb_Local b)) bs) \<and> (\<forall>b \<in> set bs. pt_TEID (pb_Local b) \<notin> sn_TEID seen)"
proof (induction bs arbitrary: seen)
  case (Cons b bs)
  then obtain seen' where "validate_bearer b seen = Ok seen'" "validate_bearers bs seen' = Ok ()" by auto
  then show ?case using Cons.IH[of seen'] validate_bearer_TEID[of b seen seen'] by auto
qed simp

lemma valid_SEIDs_pgwu: "valid_pgwu c \<Longrightarrow> ps_CPSEID c \<noteq> 0 \<and> ps_UPSEID c \<noteq> 0 \<and> Is4 (ps_UEIPv4 c)"
  by (auto simp: valid_pgwu_def validate_pgwu_def split: if_splits)

lemma valid_TEIDs:
  assumes "valid_pgwu c"
  shows "distinct (map pt_TEID (sessionLocalTunnels c))"
proof -
  have "validate_bearers (bearers c) (seen_default c) = Ok ()"
    using assms by (auto simp: valid_pgwu_def validate_pgwu_def split: if_splits)
  from validate_bearers_TEIDs[OF this] show ?thesis by (auto simp: sessionLocalTunnels_def seen_default_def comp_def)
qed

lemma valid_Revision_pgwu [simp]: "valid_pgwu (c\<lparr>ps_Revision := n\<rparr>) = valid_pgwu c"
proof -
  have legacy: "legacyRuleIDs (c\<lparr>ps_Revision := n\<rparr>) = legacyRuleIDs c" by (simp add: legacyRuleIDs_def)
  then have seen: "seen_default (c\<lparr>ps_Revision := n\<rparr>) = seen_default c" by (simp add: seen_default_def)
  have "validate_pgwu (c\<lparr>ps_Revision := n\<rparr>) = validate_pgwu c" unfolding validate_pgwu_def legacy seen by (simp split del: if_split cong: if_cong)
  then show ?thesis by (simp add: valid_pgwu_def)
qed

section \<open>The entries of a session\<close>

abbreviation teid_of :: "Bearer_pgwu \<Rightarrow> 32 word" where
  "teid_of b \<equiv> pt_TEID (pb_Local b)"

definition uplink_entries :: "Session_pgwu \<times> nat \<Rightarrow> (32 word \<times> PacketRule_pgwu) set" where
  "uplink_entries x = (case x of (c, g) \<Rightarrow> insert (pt_TEID (ps_Local c), compileDefaultRule c g)
     ((\<lambda>b. (teid_of b, compileDedicatedRule c b g)) ` set (bearers c)))"

definition all_candidates :: "Session_pgwu \<Rightarrow> nat \<Rightarrow> downlinkCandidate list" where
  "all_candidates c g = concat (map (\<lambda>b. rule_candidates (compileDedicatedRule c b g) (pb_Filters b)) (bearers c))"

definition ruleset_of :: "Session_pgwu \<Rightarrow> nat \<Rightarrow> downlinkRuleSet" where
  "ruleset_of c g = \<lparr>dr_generation = Some g, dr_candidates = sort_key candidate_key (all_candidates c g),
     dr_fallback = compileDefaultRule c g\<rparr>"

definition downlink_entries :: "Session_pgwu \<times> nat \<Rightarrow> (Addr \<times> downlinkRuleSet) set" where
  "downlink_entries x = (case x of (c, g) \<Rightarrow> {(ps_UEIPv4 c, ruleset_of c g)})"

lemma compiled_fields [simp]:
  "pk_UPSEID (compileDefaultRule c g) = ps_UPSEID c" "pk_generation (compileDefaultRule c g) = Some g"
  "pk_Local (compileDefaultRule c g) = ps_Local c" "pk_Default (compileDefaultRule c g)"
  "pk_UPSEID (compileDedicatedRule c b g) = ps_UPSEID c" "pk_generation (compileDedicatedRule c b g) = Some g"
  "pk_Local (compileDedicatedRule c b g) = pb_Local b" "\<not> pk_Default (compileDedicatedRule c b g)"
  "pk_Filters (compileDedicatedRule c b g) = pb_Filters b"
  by (simp_all add: compileDefaultRule_def compileDedicatedRule_def)

lemma uplink_entries_fields:
  "(k, r) \<in> uplink_entries (c, g) \<Longrightarrow> pk_UPSEID r = ps_UPSEID c \<and> pk_generation r = Some g \<and> k \<in> pt_TEID ` set (sessionLocalTunnels c)"
  by (auto simp: uplink_entries_def sessionLocalTunnels_def)

lemma index_bearers_snd:
  "snd (index_bearers c g bs up cs) = cs @ concat (map (\<lambda>b. rule_candidates (compileDedicatedRule c b g) (pb_Filters b)) bs)"
  by (induction bs arbitrary: up cs) (simp_all add: Let_def)

lemma index_bearers_other: "k \<notin> teid_of ` set bs \<Longrightarrow> fst (index_bearers c g bs up cs) k = up k"
  by (induction bs arbitrary: up cs) (simp_all add: Let_def)

lemma index_bearers_here:
  "distinct (map teid_of bs) \<Longrightarrow> b \<in> set bs \<Longrightarrow> fst (index_bearers c g bs up cs) (teid_of b) = Some (compileDedicatedRule c b g)"
proof (induction bs arbitrary: up cs)
  case (Cons d bs)
  then show ?case using index_bearers_other[of "teid_of d" bs c g] by (auto simp: Let_def)
qed simp

text \<open>Indexing a session adds exactly its entries.\<close>

lemma index_uplink:
  assumes "valid_pgwu c" "\<And>k. k \<in> pt_TEID ` set (sessionLocalTunnels c) \<Longrightarrow> pu_uplink s k = None"
  shows "pu_uplink (indexSession_pgwu c g s) k = Some r \<longleftrightarrow> (k, r) \<in> uplink_entries (c, g) \<or> pu_uplink s k = Some r"
proof -
  let ?up = "(pu_uplink s)(pt_TEID (ps_Local c) \<mapsto> compileDefaultRule c g)"
  have eq: "pu_uplink (indexSession_pgwu c g s) = fst (index_bearers c g (bearers c) ?up [])"
    by (simp add: indexSession_pgwu_def Let_def split: prod.split)
  have d: "distinct (map teid_of (bearers c))" "pt_TEID (ps_Local c) \<notin> teid_of ` set (bearers c)"
    using valid_TEIDs[OF assms(1)] by (auto simp: sessionLocalTunnels_def comp_def)
  show ?thesis
  proof (cases "k \<in> teid_of ` set (bearers c)")
    case True
    then obtain b where b: "b \<in> set (bearers c)" "k = teid_of b" by blast
    have uniq: "b' = b" if "b' \<in> set (bearers c)" "k = teid_of b'" for b'
      using that b d(1) by (auto simp: distinct_map dest: inj_onD)
    have ne: "k \<noteq> pt_TEID (ps_Local c)" using True d(2) by blast
    have "(k, r) \<in> uplink_entries (c, g) \<longleftrightarrow> (\<exists>b' \<in> set (bearers c). k = teid_of b' \<and> r = compileDedicatedRule c b' g)"
      by (simp add: uplink_entries_def image_iff ne)
    also have "\<dots> \<longleftrightarrow> r = compileDedicatedRule c b g" using uniq b by blast
    finally have "(k, r) \<in> uplink_entries (c, g) \<longleftrightarrow> r = compileDedicatedRule c b g" .
    moreover have "pu_uplink s k = None" using assms(2) b by (auto simp: sessionLocalTunnels_def)
    ultimately show ?thesis unfolding eq using index_bearers_here[OF d(1) b(1), of c g ?up "[]"] b(2) by auto
  next
    case False
    then show ?thesis unfolding eq using index_bearers_other[OF False, of c g ?up "[]"] assms(2)[of k]
      by (auto simp: uplink_entries_def sessionLocalTunnels_def)
  qed
qed

lemma index_downlink: "pu_downlink (indexSession_pgwu c g s) = (pu_downlink s)(ps_UEIPv4 c \<mapsto> ruleset_of c g)"
  using index_bearers_snd[of c g "bearers c" "(pu_uplink s)(pt_TEID (ps_Local c) \<mapsto> compileDefaultRule c g)" "[]"]
  by (auto simp: indexSession_pgwu_def Let_def ruleset_of_def all_candidates_def split: prod.split)

lemma unindex_tunnels_eq:
  "unindex_tunnels ts g up k = (if k \<in> pt_TEID ` set ts \<and> (\<exists>r. up k = Some r \<and> pk_generation r = g) then None else up k)"
  by (induction ts arbitrary: up) (auto split: option.splits)

section \<open>The invariant\<close>

text \<open>The sessions with their generations.\<close>

definition table :: "('a, 'w) Store_pgwu \<Rightarrow> (64 word \<rightharpoonup> Session_pgwu \<times> nat)" where
  "table s u = (case pu_byUP s u of None \<Rightarrow> None | Some c \<Rightarrow> map_option (Pair c) (pu_generations s u))"

text \<open>The indexes hold exactly the compiled rules of the sessions, each under the session's own active generation.\<close>

definition core_ok :: "(64 word \<rightharpoonup> Session_pgwu \<times> nat) \<Rightarrow> (nat \<Rightarrow> bool) \<Rightarrow> nat \<Rightarrow> (32 word \<rightharpoonup> PacketRule_pgwu) \<Rightarrow>
    (Addr \<rightharpoonup> downlinkRuleSet) \<Rightarrow> bool" where
  "core_ok t act heap up down \<longleftrightarrow>
     (\<forall>u c g. t u = Some (c, g) \<longrightarrow> ps_UPSEID c = u \<and> valid_pgwu c \<and> act g \<and> g < heap) \<and>
     (\<forall>u v c d g. t u = Some (c, g) \<longrightarrow> t v = Some (d, g) \<longrightarrow> u = v) \<and>
     entries_ok uplink_entries t up \<and> entries_ok downlink_entries t down"

definition cp_keys :: "Session_pgwu \<Rightarrow> 64 word set" where "cp_keys c = {ps_CPSEID c}"

definition pgwu_ok :: "('a, 'w) Store_pgwu \<Rightarrow> bool" where
  "pgwu_ok s \<longleftrightarrow> dom (pu_generations s) = dom (pu_byUP s) \<and> index_ok cp_keys (pu_byUP s) (pu_byCP s) \<and>
     int (card (dom (pu_byUP s))) \<le> pu_max s \<and> core_ok (table s) (pu_active s) (pu_heap s) (pu_uplink s) (pu_downlink s)"

lemma core_okD:
  assumes "core_ok t act heap up down"
  shows "t u = Some (c, g) \<Longrightarrow> ps_UPSEID c = u \<and> valid_pgwu c \<and> act g \<and> g < heap"
    "t u = Some (c, g) \<Longrightarrow> t v = Some (d, g) \<Longrightarrow> u = v"
    "entries_ok uplink_entries t up" "entries_ok downlink_entries t down"
  using assms unfolding core_ok_def by blast+

lemma core_owner:
  assumes "core_ok t act heap up down" "t u = Some x"
  shows "(k, r) \<in> uplink_entries x \<Longrightarrow> pk_UPSEID r = u" "(a, d) \<in> downlink_entries x \<Longrightarrow> pk_UPSEID (dr_fallback d) = u"
  using core_okD(1)[OF assms(1), of u "fst x" "snd x"] assms(2) uplink_entries_fields[of k r "fst x" "snd x"]
  by (auto simp: downlink_entries_def ruleset_of_def split: prod.splits)

lemma core_insert:
  assumes core: "core_ok t (pu_active s) (pu_heap s) (pu_uplink s) (pu_downlink s)" and new: "t (ps_UPSEID c) = None"
    and c: "valid_pgwu c" and free: "\<And>k. k \<in> pt_TEID ` set (sessionLocalTunnels c) \<Longrightarrow> pu_uplink s k = None"
    "pu_downlink s (ps_UEIPv4 c) = None"
  shows "core_ok (t(ps_UPSEID c \<mapsto> (c, pu_heap s))) ((pu_active s)(pu_heap s := True)) (Suc (pu_heap s))
    (pu_uplink (indexSession_pgwu c (pu_heap s) s)) (pu_downlink (indexSession_pgwu c (pu_heap s) s))"
proof -
  note D = core_okD[OF core]
  have below: "t u = Some (d, g) \<Longrightarrow> g \<noteq> pu_heap s" for u d g using D(1)[of u d g] by auto
  have up: "entries_ok uplink_entries (t(ps_UPSEID c \<mapsto> (c, pu_heap s))) (pu_uplink (indexSession_pgwu c (pu_heap s) s))"
    by (rule entries_ok_insert[OF D(3) new]) (rule index_uplink[OF c free(1)])
  have down: "entries_ok downlink_entries (t(ps_UPSEID c \<mapsto> (c, pu_heap s))) (pu_downlink (indexSession_pgwu c (pu_heap s) s))"
    by (rule entries_ok_insert[OF D(4) new]) (auto simp: index_downlink downlink_entries_def free(2))
  show ?thesis unfolding core_ok_def using up down D(1,2) below c
    by (auto split: if_splits simp: less_Suc_eq)
qed

definition drop_ruleset :: "Session_pgwu \<Rightarrow> nat option \<Rightarrow> (Addr \<rightharpoonup> downlinkRuleSet) \<Rightarrow> (Addr \<rightharpoonup> downlinkRuleSet)" where
  "drop_ruleset c g down = (case down (ps_UEIPv4 c) of None \<Rightarrow> down
     | Some d \<Rightarrow> if dr_generation d = g then down(ps_UEIPv4 c := None) else down)"

lemma core_remove:
  assumes core: "core_ok t act heap up down" and c: "t u = Some (c, g)"
  shows "core_ok (t(u := None)) (act(g := False)) heap (unindex_tunnels (sessionLocalTunnels c) (Some g) up) (drop_ruleset c (Some g) down)"
    "k \<in> pt_TEID ` set (sessionLocalTunnels c) \<Longrightarrow> unindex_tunnels (sessionLocalTunnels c) (Some g) up k = None"
    "drop_ruleset c (Some g) down = down(ps_UEIPv4 c := None)"
proof -
  note D = core_okD[OF core]
  have mine: "k \<in> pt_TEID ` set (sessionLocalTunnels c) \<longleftrightarrow> (\<exists>r. (k, r) \<in> uplink_entries (c, g))" for k
    by (auto simp: uplink_entries_def sessionLocalTunnels_def)
  have at: "\<exists>r. up k = Some r \<and> pk_generation r = Some g \<and> (k, r) \<in> uplink_entries (c, g)"
    if k: "k \<in> pt_TEID ` set (sessionLocalTunnels c)" for k
  proof -
    obtain r where r: "(k, r) \<in> uplink_entries (c, g)" using mine k by blast
    then show ?thesis using entries_okI[OF D(3) c r] uplink_entries_fields[OF r] by blast
  qed
  then have un: "unindex_tunnels (sessionLocalTunnels c) (Some g) up k =
      (if k \<in> pt_TEID ` set (sessionLocalTunnels c) then None else up k)" for k
    unfolding unindex_tunnels_eq by auto
  then show "k \<in> pt_TEID ` set (sessionLocalTunnels c) \<Longrightarrow> unindex_tunnels (sessionLocalTunnels c) (Some g) up k = None" by simp
  have "down (ps_UEIPv4 c) = Some (ruleset_of c g)" using entries_okI[OF D(4) c] by (simp add: downlink_entries_def)
  then show dn: "drop_ruleset c (Some g) down = down(ps_UEIPv4 c := None)" by (simp add: drop_ruleset_def ruleset_of_def)
  have "unindex_tunnels (sessionLocalTunnels c) (Some g) up k = Some r \<longleftrightarrow> up k = Some r \<and> (k, r) \<notin> uplink_entries (c, g)" for k r
  proof (cases "k \<in> pt_TEID ` set (sessionLocalTunnels c)")
    case True
    then obtain r0 where "up k = Some r0" "(k, r0) \<in> uplink_entries (c, g)" using at by blast
    with True show ?thesis unfolding un by auto
  next
    case False
    then show ?thesis using mine[of k] unfolding un by simp
  qed
  then have up: "entries_ok uplink_entries (t(u := None)) (unindex_tunnels (sessionLocalTunnels c) (Some g) up)"
    by (intro entries_ok_delete[OF D(3) c, of pk_UPSEID]) (auto intro: core_owner(1)[OF core])
  have "(down(ps_UEIPv4 c := None)) a = Some d \<longleftrightarrow> down a = Some d \<and> (a, d) \<notin> downlink_entries (c, g)" for a d
    using \<open>down (ps_UEIPv4 c) = Some (ruleset_of c g)\<close> by (auto simp: downlink_entries_def)
  then have down: "entries_ok downlink_entries (t(u := None)) (down(ps_UEIPv4 c := None))"
    by (intro entries_ok_delete[OF D(4) c, of "\<lambda>d. pk_UPSEID (dr_fallback d)"]) (auto intro: core_owner(2)[OF core])
  have "h \<noteq> g" if "t v = Some (d, h)" "v \<noteq> u" for v d h using D(2)[OF c, of v d] that by auto
  then show "core_ok (t(u := None)) (act(g := False)) heap (unindex_tunnels (sessionLocalTunnels c) (Some g) up) (drop_ruleset c (Some g) down)"
    unfolding core_ok_def dn using up down D(1,2) by (auto split: if_splits)
qed

lemma table_Some:
  "dom (pu_generations s) = dom (pu_byUP s) \<Longrightarrow> pu_byUP s u = Some c \<Longrightarrow> \<exists>g. pu_generations s u = Some g \<and> table s u = Some (c, g)"
  by (auto simp: table_def dest: equalityD2[THEN subsetD, of _ _ u])

lemma commit_frame:
  obtains (saved) a w where "commit_pgwu P previous nxt s = (Ok (), s\<lparr>pu_applier := a, pu_persister := w\<rparr>)"
  | (unapplied) a where "commit_pgwu P previous nxt s = (Err ErrDataplane_pgwu, s\<lparr>pu_applier := a\<rparr>)"
  | (unlogged) a w where "commit_pgwu P previous nxt s = (Err ErrPersistence_pgwu, s\<lparr>pu_applier := a, pu_persister := w, pu_poisoned := True\<rparr>)"
proof -
  have applied: "\<exists>a. apply_pgwu P previous nxt s = (Ok (), s\<lparr>pu_applier := a\<rparr>) \<or>
      apply_pgwu P previous nxt s = (Err ErrDataplane_pgwu, s\<lparr>pu_applier := a\<rparr>)"
  proof (cases "pu_applier s")
    case None
    then show ?thesis by (intro exI[of _ None]) (simp add: apply_pgwu_def)
  qed (auto simp: apply_pgwu_def split: prod.split bool.split)
  then obtain a where "apply_pgwu P previous nxt s = (Ok (), s\<lparr>pu_applier := a\<rparr>) \<or>
      apply_pgwu P previous nxt s = (Err ErrDataplane_pgwu, s\<lparr>pu_applier := a\<rparr>)" by blast
  then show thesis
  proof
    assume ap: "apply_pgwu P previous nxt s = (Ok (), s\<lparr>pu_applier := a\<rparr>)"
    show thesis
    proof (cases "pu_persister s")
      case None
      then have "s\<lparr>pu_applier := a, pu_persister := None\<rparr> = s\<lparr>pu_applier := a\<rparr>" by (cases s) simp
      then have "commit_pgwu P previous nxt s = (Ok (), s\<lparr>pu_applier := a, pu_persister := None\<rparr>)"
        by (simp add: commit_pgwu_def ap None)
      then show thesis by (rule saved)
    next
      case (Some w)
      obtain b w' where bw: "pa_Commit P previous nxt w = (b, w')" by (cases "pa_Commit P previous nxt w")
      show thesis
      proof (cases b)
        case True
        then have "commit_pgwu P previous nxt s = (Ok (), s\<lparr>pu_applier := a, pu_persister := Some w'\<rparr>)"
          by (simp add: commit_pgwu_def ap Some bw)
        then show thesis by (rule saved)
      next
        case False
        then have "commit_pgwu P previous nxt s = (Err ErrPersistence_pgwu,
            s\<lparr>pu_applier := map_option (\<lambda>a. snd (pa_Apply P nxt previous a)) a, pu_persister := Some w', pu_poisoned := True\<rparr>)"
          by (simp add: commit_pgwu_def ap Some bw)
        then show thesis by (rule unlogged)
      qed
    qed
  next
    assume "apply_pgwu P previous nxt s = (Err ErrDataplane_pgwu, s\<lparr>pu_applier := a\<rparr>)"
    then show thesis by (intro unapplied) (simp add: commit_pgwu_def)
  qed
qed

lemma table_cong: "pu_byUP s' = pu_byUP s \<Longrightarrow> pu_generations s' = pu_generations s \<Longrightarrow> table s' = table s"
  by (rule ext) (simp add: table_def split: option.split)

lemma pgwu_ok_cong:
  assumes "pu_byUP s' = pu_byUP s" "pu_byCP s' = pu_byCP s" "pu_uplink s' = pu_uplink s" "pu_downlink s' = pu_downlink s"
    "pu_generations s' = pu_generations s" "pu_active s' = pu_active s" "pu_heap s' = pu_heap s" "pu_max s' = pu_max s"
  shows "pgwu_ok s' = pgwu_ok s"
  unfolding pgwu_ok_def table_cong[OF assms(1,5)] assms ..

lemma pgwu_ok_participants [simp]:
  "pgwu_ok (s\<lparr>pu_applier := a\<rparr>) = pgwu_ok s" "pgwu_ok (s\<lparr>pu_applier := a, pu_persister := w\<rparr>) = pgwu_ok s"
  "pgwu_ok (s\<lparr>pu_applier := a, pu_persister := w, pu_poisoned := b\<rparr>) = pgwu_ok s"
  "pgwu_ok (s\<lparr>pu_applier := a, pu_poisoned := b\<rparr>) = pgwu_ok s"
  "pgwu_ok (s\<lparr>pu_installed := n\<rparr>) = pgwu_ok s" "pgwu_ok (s\<lparr>pu_removed := n\<rparr>) = pgwu_ok s"
  "pgwu_ok (notify_pgwu e s) = pgwu_ok s"
  by (rule pgwu_ok_cong; simp add: notify_pgwu_def)+

lemma index_frame_pgwu [simp]:
  "pu_byUP (indexSession_pgwu c g s) = pu_byUP s" "pu_byCP (indexSession_pgwu c g s) = pu_byCP s"
  "pu_generations (indexSession_pgwu c g s) = pu_generations s" "pu_active (indexSession_pgwu c g s) = pu_active s"
  "pu_heap (indexSession_pgwu c g s) = pu_heap s" "pu_max (indexSession_pgwu c g s) = pu_max s"
  by (simp_all add: indexSession_pgwu_def Let_def split: prod.split)

lemma index_cong:
  "pu_uplink s' = pu_uplink s \<Longrightarrow> pu_uplink (indexSession_pgwu c g s') = pu_uplink (indexSession_pgwu c g s)"
  "pu_downlink s' = pu_downlink s \<Longrightarrow> pu_downlink (indexSession_pgwu c g s') = pu_downlink (indexSession_pgwu c g s)"
  by (simp_all add: index_downlink) (simp add: indexSession_pgwu_def Let_def split: prod.split)

lemma install_fields_pgwu:
  "pu_byUP (install_pgwu c s) = (pu_byUP s)(ps_UPSEID c \<mapsto> c)" "pu_byCP (install_pgwu c s) = pu_byCP s"
  "pu_generations (install_pgwu c s) = (pu_generations s)(ps_UPSEID c \<mapsto> pu_heap s)" "pu_max (install_pgwu c s) = pu_max s"
  "pu_active (install_pgwu c s) = (pu_active s)(pu_heap s := True)" "pu_heap (install_pgwu c s) = Suc (pu_heap s)"
  "pu_uplink (install_pgwu c s) = pu_uplink (indexSession_pgwu c (pu_heap s) s)"
  "pu_downlink (install_pgwu c s) = pu_downlink (indexSession_pgwu c (pu_heap s) s)"
  by (simp_all add: install_pgwu_def Let_def notify_pgwu_def index_downlink) (rule index_cong, simp)

lemma retire_fields_pgwu:
  assumes "pu_generations s u = Some g"
  shows "pu_byUP (retire_pgwu u c s) = pu_byUP s" "pu_byCP (retire_pgwu u c s) = pu_byCP s"
    "pu_generations (retire_pgwu u c s) = pu_generations s" "pu_max (retire_pgwu u c s) = pu_max s"
    "pu_active (retire_pgwu u c s) = (pu_active s)(g := False)" "pu_heap (retire_pgwu u c s) = pu_heap s"
    "pu_uplink (retire_pgwu u c s) = unindex_tunnels (sessionLocalTunnels c) (Some g) (pu_uplink s)"
    "pu_downlink (retire_pgwu u c s) = drop_ruleset c (Some g) (pu_downlink s)"
  using assms by (simp_all add: retire_pgwu_def Let_def unindexSession_pgwu_def drop_ruleset_def split: option.split)

section \<open>Every operation keeps the invariant\<close>

lemma pgwu_okD:
  assumes "pgwu_ok s"
  shows "dom (pu_generations s) = dom (pu_byUP s)" "index_ok cp_keys (pu_byUP s) (pu_byCP s)"
    "int (card (dom (pu_byUP s))) \<le> pu_max s" "core_ok (table s) (pu_active s) (pu_heap s) (pu_uplink s) (pu_downlink s)"
  using assms by (simp_all add: pgwu_ok_def)

lemma table_absent: "pu_byUP s u = None \<Longrightarrow> (table s)(u := None) = table s"
  by (auto simp: table_def)

lemma stored_pgwu:
  assumes "pgwu_ok s" "pu_byUP s u = Some c"
  obtains g where "pu_generations s u = Some g" "table s u = Some (c, g)" "ps_UPSEID c = u" "valid_pgwu c" "u \<noteq> 0"
  using table_Some[OF pgwu_okD(1)[OF assms(1)] assms(2)] core_okD(1)[OF pgwu_okD(4)[OF assms(1)], of u c] valid_SEIDs_pgwu by blast

lemma checked_free:
  assumes "checkTunnelConflicts_pgwu c u0 s = Ok ()" "k \<in> pt_TEID ` set (sessionLocalTunnels c)" "pu_uplink s k = Some r"
  shows "pk_UPSEID r = u0"
  using assms by (force simp: checkTunnelConflicts_pgwu_def split: if_splits)

lemma check_Ok_or_dup: "checkTunnelConflicts_pgwu c u0 s = Ok () \<or> checkTunnelConflicts_pgwu c u0 s = Err ErrDuplicate_pgwu"
  by (simp add: checkTunnelConflicts_pgwu_def)

lemma install_ok_pgwu:
  assumes core: "core_ok ((table s)(ps_UPSEID c := None)) (pu_active s) (pu_heap s) (pu_uplink s) (pu_downlink s)"
    and gens: "dom (pu_generations s) - {ps_UPSEID c} = dom (pu_byUP s) - {ps_UPSEID c}" and c: "valid_pgwu c"
    and free: "\<And>k. k \<in> pt_TEID ` set (sessionLocalTunnels c) \<Longrightarrow> pu_uplink s k = None" "pu_downlink s (ps_UEIPv4 c) = None"
    and cp: "index_ok cp_keys ((pu_byUP s)(ps_UPSEID c \<mapsto> c)) (pu_byCP s)"
    and card: "int (card (dom ((pu_byUP s)(ps_UPSEID c \<mapsto> c)))) \<le> pu_max s"
  shows "pgwu_ok (install_pgwu c s)"
proof -
  have t: "table (install_pgwu c s) = (table s)(ps_UPSEID c \<mapsto> (c, pu_heap s))"
    by (rule ext) (simp add: table_def install_fields_pgwu split: option.split)
  have "core_ok (((table s)(ps_UPSEID c := None))(ps_UPSEID c \<mapsto> (c, pu_heap s))) ((pu_active s)(pu_heap s := True)) (Suc (pu_heap s))
    (pu_uplink (indexSession_pgwu c (pu_heap s) s)) (pu_downlink (indexSession_pgwu c (pu_heap s) s))"
    by (rule core_insert[OF core _ c free]) simp_all
  then show ?thesis using gens cp card by (simp add: pgwu_ok_def t install_fields_pgwu) blast
qed

lemma Create_cases_pgwu:
  obtains (refused) e s' where "Create_pgwu P c s = (Err e, s')" "pgwu_ok s' = pgwu_ok s" "pu_byUP s' = pu_byUP s"
      "e \<noteq> ErrPersistence_pgwu \<or> pu_poisoned s'"
  | (created) a w d where "d = (canonicalize_pgwu c)\<lparr>ps_Revision := 1\<rparr>" "valid_pgwu d" "\<not> pu_poisoned s"
      "pu_byUP s (ps_UPSEID d) = None" "pu_byCP s (ps_CPSEID d) = None" "pu_downlink s (ps_UEIPv4 d) = None"
      "checkTunnelConflicts_pgwu d 0 s = Ok ()" "int (card (dom (pu_byUP s))) < pu_max s"
      "Create_pgwu P c s = (Ok d, (install_pgwu d (s\<lparr>pu_applier := a, pu_persister := w,
         pu_byCP := (pu_byCP s)(ps_CPSEID d \<mapsto> ps_UPSEID d)\<rparr>))\<lparr>pu_installed := pu_installed s + 1\<rparr>)"
proof -
  define x where "x = canonicalize_pgwu c"
  define d where "d = x\<lparr>ps_Revision := 1\<rparr>"
  have inst: "pu_installed (install_pgwu d t) = pu_installed t" for t
    by (simp add: install_pgwu_def Let_def notify_pgwu_def indexSession_pgwu_def split: prod.split)
  have chk: "checkTunnelConflicts_pgwu d 0 s = checkTunnelConflicts_pgwu x 0 s"
    by (simp add: checkTunnelConflicts_pgwu_def d_def sessionLocalTunnels_def)
  define go where "go \<longleftrightarrow> validate_pgwu x = Ok () \<and> \<not> pu_poisoned s \<and> pu_byUP s (ps_UPSEID x) = None \<and>
     pu_byCP s (ps_CPSEID x) = None \<and> pu_downlink s (ps_UEIPv4 x) = None \<and> checkTunnelConflicts_pgwu x 0 s = Ok () \<and>
     int (card (dom (pu_byUP s))) < pu_max s"
  show thesis
  proof (cases go)
    case True
    then have C: "Create_pgwu P c s = (case commit_pgwu P None (Some d) s of
         (Err e, s1) \<Rightarrow> (Err e, s1) | (Panic, s1) \<Rightarrow> (Panic, s1)
       | (Ok _, s1) \<Rightarrow>
         let s2 = install_pgwu d (s1\<lparr>pu_byCP := (pu_byCP s1)(ps_CPSEID d \<mapsto> ps_UPSEID d)\<rparr>) in
         (Ok d, s2\<lparr>pu_installed := pu_installed s2 + 1\<rparr>))"
      unfolding Create_pgwu_def x_def[symmetric] Let_def d_def[symmetric] go_def by simp
    show thesis
    proof (cases rule: commit_frame[of P None "Some d" s])
      case (saved a w)
      have f: "ps_UPSEID d = ps_UPSEID x" "ps_CPSEID d = ps_CPSEID x" "ps_UEIPv4 d = ps_UEIPv4 x" by (simp_all add: d_def)
      have v: "valid_pgwu d \<longleftrightarrow> validate_pgwu x = Ok ()" by (simp add: d_def valid_pgwu_def[symmetric])
      show thesis
      proof (rule created[where d = d and a = a and w = w])
        show "Create_pgwu P c s = (Ok d, (install_pgwu d (s\<lparr>pu_applier := a, pu_persister := w,
            pu_byCP := (pu_byCP s)(ps_CPSEID d \<mapsto> ps_UPSEID d)\<rparr>))\<lparr>pu_installed := pu_installed s + 1\<rparr>)"
          by (simp add: C saved Let_def inst)
      qed (use True in \<open>simp_all add: go_def v chk f\<close>, simp add: d_def x_def)
    qed (auto simp: C intro: refused)
  next
    case False
    have "\<exists>e. Create_pgwu P c s = (Err e, s) \<and> e \<noteq> ErrPersistence_pgwu"
      using False validate_pgwu_cases[of x] check_Ok_or_dup[of x 0 s]
      unfolding Create_pgwu_def x_def[symmetric] Let_def go_def by (elim disjE; simp add: not_less; fastforce)
    then show thesis using refused by blast
  qed
qed

lemma pgwu_ok_Create:
  assumes ok: "pgwu_ok s"
  shows "pgwu_ok (snd (Create_pgwu P c s)) \<and> fst (Create_pgwu P c s) \<noteq> Panic"
proof (cases rule: Create_cases_pgwu[of P c s])
  case (created a w d)
  let ?s = "s\<lparr>pu_applier := a, pu_persister := w, pu_byCP := (pu_byCP s)(ps_CPSEID d \<mapsto> ps_UPSEID d)\<rparr>"
  note D = pgwu_okD[OF ok]
  have tab: "table ?s = table s" by (rule table_cong) simp_all
  have free: "pu_uplink s k = None" if k: "k \<in> pt_TEID ` set (sessionLocalTunnels d)" for k
  proof (cases "pu_uplink s k")
    case (Some r)
    obtain v x where x: "table s v = Some x" "(k, r) \<in> uplink_entries x" using entries_okD[OF core_okD(3)[OF D(4)] Some] by blast
    have "pk_UPSEID r = v" using core_owner(1)[OF D(4) x] .
    moreover have "v \<noteq> 0" using core_okD(1)[OF D(4), of v "fst x" "snd x"] x(1) valid_SEIDs_pgwu by auto
    ultimately show ?thesis using checked_free[OF created(7) k Some] by simp
  qed
  have "index_ok cp_keys ((pu_byUP s)(ps_UPSEID d \<mapsto> d)) ((pu_byCP s)(ps_CPSEID d \<mapsto> ps_UPSEID d))"
    using index_ok_insert[OF D(2) created(4), of d] created(5) by (simp add: cp_keys_def index_put_singleton)
  moreover have "card (dom ((pu_byUP s)(ps_UPSEID d \<mapsto> d))) = Suc (card (dom (pu_byUP s)))"
    using created(4) by (simp add: card_insert_if domIff)
  ultimately have "pgwu_ok (install_pgwu d ?s)"
    using D(1,4) created(2,4,6,8) free by (intro install_ok_pgwu) (simp_all add: tab table_absent)
  then show ?thesis by (simp add: created(9))
qed (use ok in simp_all)

lemma replace_ok_pgwu:
  assumes ok: "pgwu_ok s" and cur: "pu_byUP s u = Some current" and n: "valid_pgwu n" "ps_UPSEID n = u"
      "ps_CPSEID n = ps_CPSEID current" "ps_UEIPv4 n = ps_UEIPv4 current"
    and chk: "checkTunnelConflicts_pgwu n u s = Ok ()"
  shows "pgwu_ok (install_pgwu n (retire_pgwu u current s))"
proof -
  note D = pgwu_okD[OF ok]
  obtain g where g: "pu_generations s u = Some g" "table s u = Some (current, g)" using stored_pgwu[OF ok cur] by metis
  note R = retire_fields_pgwu[OF g(1), where c = current] and rem = core_remove[OF D(4) g(2)]
  have tab: "table (retire_pgwu u current s) = table s" by (rule table_cong) (simp_all add: R)
  have free: "pu_uplink (retire_pgwu u current s) k = None" if k: "k \<in> pt_TEID ` set (sessionLocalTunnels n)" for k
  proof (cases "k \<in> pt_TEID ` set (sessionLocalTunnels current)")
    case False
    have "pu_uplink s k = None"
    proof (cases "pu_uplink s k")
      case (Some r)
      obtain v x where x: "table s v = Some x" "(k, r) \<in> uplink_entries x" using entries_okD[OF core_okD(3)[OF D(4)] Some] by blast
      have "v = u" using core_owner(1)[OF D(4) x] checked_free[OF chk k Some] by simp
      then show ?thesis using x g(2) uplink_entries_fields[of k r current g] False by simp
    qed
    then show ?thesis using False by (simp add: R unindex_tunnels_eq)
  qed (simp add: R rem(2))
  have cp: "index_ok cp_keys ((pu_byUP s)(u \<mapsto> n)) (pu_byCP s)"
    by (rule index_ok_update_same[OF D(2) cur]) (simp add: cp_keys_def n(3))
  have "card (dom ((pu_byUP s)(u \<mapsto> n))) = card (dom (pu_byUP s))" using cur by (simp add: insert_absorb domI)
  then show ?thesis
    using D(1,3) rem(1) n(1) free cp by (intro install_ok_pgwu) (simp_all add: R tab n(2,4) rem(3))
qed

lemma Update_cases_pgwu:
  obtains (refused) r s' where "Update_pgwu P u rv mutate s = (r, s')" "\<not> is_Ok r" "pgwu_ok s' = pgwu_ok s" "pu_byUP s' = pu_byUP s"
      "r = Err ErrPersistence_pgwu \<Longrightarrow> s' = s \<or> pu_poisoned s'"
  | (updated) a w f current n where "mutate = Some f" "\<not> pu_poisoned s" "pu_byUP s u = Some current" "ps_Revision current = rv"
      "f current = Ok n" "valid_pgwu (canonicalize_pgwu n)" "ps_UPSEID (canonicalize_pgwu n) = ps_UPSEID current"
      "ps_CPSEID (canonicalize_pgwu n) = ps_CPSEID current" "ps_UEIPv4 (canonicalize_pgwu n) = ps_UEIPv4 current"
      "checkTunnelConflicts_pgwu (canonicalize_pgwu n) u s = Ok ()"
      "Update_pgwu P u rv mutate s = (Ok ((canonicalize_pgwu n)\<lparr>ps_Revision := ps_Revision (canonicalize_pgwu n) + 1\<rparr>),
         install_pgwu ((canonicalize_pgwu n)\<lparr>ps_Revision := ps_Revision (canonicalize_pgwu n) + 1\<rparr>)
           (retire_pgwu u current (s\<lparr>pu_applier := a, pu_persister := w\<rparr>)))"
proof (cases "mutate = None \<or> pu_poisoned s \<or> pu_byUP s u = None")
  case True
  then have "\<exists>e. Update_pgwu P u rv mutate s = (Err e, s)" by (auto simp: Update_pgwu_def split: option.split)
  then show thesis using refused by fastforce
next
  case False
  then obtain f current where f: "mutate = Some f" "pu_byUP s u = Some current" and np: "\<not> pu_poisoned s" by auto
  show thesis
  proof (cases "ps_Revision current = rv \<and> is_Ok (f current)")
    case False
    then have "\<exists>r. Update_pgwu P u rv mutate s = (r, s) \<and> \<not> is_Ok r"
      using np by (cases "f current") (auto simp: Update_pgwu_def f)
    then show thesis using refused by blast
  next
    case True
    then obtain n where n: "f current = Ok n" and rv: "ps_Revision current = rv" by (cases "f current") auto
    define x where "x = canonicalize_pgwu n"
    define y where "y = x\<lparr>ps_Revision := ps_Revision x + 1\<rparr>"
    define same where "same \<longleftrightarrow> \<not> (ps_CPSEID x \<noteq> ps_CPSEID current \<or> ps_UPSEID x \<noteq> ps_UPSEID current \<or> ps_UEIPv4 x \<noteq> ps_UEIPv4 current \<or>
         ps_Local x \<noteq> ps_Local current \<or> ps_ControlPeer x \<noteq> ps_ControlPeer current)"
    show thesis
    proof (cases "same \<and> validate_pgwu x = Ok () \<and> checkTunnelConflicts_pgwu x u s = Ok ()")
      case True
      then have U: "Update_pgwu P u rv mutate s = (case commit_pgwu P (Some current) (Some y) s of
         (Err e, s1) \<Rightarrow> (Err e, s1) | (Panic, s1) \<Rightarrow> (Panic, s1)
       | (Ok _, s1) \<Rightarrow> (Ok y, install_pgwu y (retire_pgwu u current s1)))"
        unfolding Update_pgwu_def f n option.case outcome.case Let_def x_def[symmetric] y_def[symmetric] same_def using np rv by simp
      show thesis
      proof (cases rule: commit_frame[of P "Some current" "Some y" s])
        case (saved a w)
        show thesis
          by (rule updated[OF f(1) np f(2) rv n]) (use True in \<open>simp_all add: U saved same_def valid_pgwu_def x_def[symmetric] y_def[symmetric]\<close>)
      next
        case (unapplied a)
        have "Update_pgwu P u rv mutate s = (Err ErrDataplane_pgwu, s\<lparr>pu_applier := a\<rparr>)" by (simp add: U unapplied)
        then show thesis by (rule refused) simp_all
      next
        case (unlogged a w)
        have "Update_pgwu P u rv mutate s = (Err ErrPersistence_pgwu, s\<lparr>pu_applier := a, pu_persister := w, pu_poisoned := True\<rparr>)"
          by (simp add: U unlogged)
        then show thesis by (rule refused) simp_all
      qed
    next
      case False
      then have "\<exists>e. Update_pgwu P u rv mutate s = (Err e, s)"
        using validate_pgwu_cases[of x] check_Ok_or_dup[of x u s] np rv
        unfolding Update_pgwu_def f n option.case outcome.case Let_def x_def[symmetric] same_def by (elim disjE; simp; fastforce)
      then show thesis using refused by fastforce
    qed
  qed
qed

lemma check_Revision_pgwu [simp]:
  "checkTunnelConflicts_pgwu (c\<lparr>ps_Revision := n\<rparr>) u s = checkTunnelConflicts_pgwu c u s"
  "checkTunnelConflicts_pgwu c u (s\<lparr>pu_applier := a, pu_persister := w\<rparr>) = checkTunnelConflicts_pgwu c u s"
  by (simp_all add: checkTunnelConflicts_pgwu_def sessionLocalTunnels_def)

lemma pgwu_ok_Update:
  assumes ok: "pgwu_ok s"
  shows "pgwu_ok (snd (Update_pgwu P u rv mutate s))"
proof (cases rule: Update_cases_pgwu[of P u rv mutate s])
  case (updated a w f current n)
  have "ps_UPSEID current = u" using stored_pgwu[OF ok updated(3)] by metis
  then have "pgwu_ok (install_pgwu ((canonicalize_pgwu n)\<lparr>ps_Revision := ps_Revision (canonicalize_pgwu n) + 1\<rparr>)
      (retire_pgwu u current (s\<lparr>pu_applier := a, pu_persister := w\<rparr>)))"
    using updated ok by (intro replace_ok_pgwu) simp_all
  then show ?thesis by (simp add: updated(11))
qed (use ok in simp_all)

lemma Reconcile_cases_pgwu:
  assumes ok: "pgwu_ok s"
  obtains (refused) r s' where "Reconcile_pgwu P cp c s = (r, s')" "r \<noteq> Panic" "pgwu_ok s' = pgwu_ok s" "pu_byUP s' = pu_byUP s"
      "r = Err ErrPersistence_pgwu \<Longrightarrow> pu_poisoned s'"
  | (replaced) a w u current n where "\<not> pu_poisoned s" "pu_byCP s cp = Some u" "pu_byUP s u = Some current" "ps_CPSEID n = cp"
      "valid_pgwu n" "ps_UPSEID n = u" "ps_UEIPv4 n = ps_UEIPv4 current" "ps_Revision n = ps_Revision current + 1"
      "checkTunnelConflicts_pgwu n u s = Ok ()"
      "Reconcile_pgwu P cp c s = (Ok n, install_pgwu n (retire_pgwu u current (s\<lparr>pu_applier := a, pu_persister := w\<rparr>)))"
proof (cases "cp \<noteq> 0 \<and> ps_CPSEID c = cp \<and> \<not> pu_poisoned s \<and> pu_byCP s cp \<noteq> None")
  case False
  then have "\<exists>e. Reconcile_pgwu P cp c s = (Err e, s) \<and> e \<noteq> ErrPersistence_pgwu" by (auto simp: Reconcile_pgwu_def Let_def)
  then obtain e where e: "Reconcile_pgwu P cp c s = (Err e, s)" "e \<noteq> ErrPersistence_pgwu" by blast
  show thesis by (rule refused[OF e(1)]) (use e(2) in simp_all)
next
  case True
  then obtain u where cp: "cp \<noteq> 0" "ps_CPSEID c = cp" "\<not> pu_poisoned s" "pu_byCP s cp = Some u" by auto
  then obtain current where cur: "pu_byUP s u = Some current"
    using index_okD[OF pgwu_okD(2)[OF ok]] by blast
  define x where "x = (canonicalize_pgwu c)\<lparr>ps_UPSEID := u\<rparr>"
  define y where "y = x\<lparr>ps_Revision := ps_Revision current + 1\<rparr>"
  define same where "same \<longleftrightarrow> \<not> (ps_UEIPv4 x \<noteq> ps_UEIPv4 current \<or> ps_Local x \<noteq> ps_Local current \<or> ps_ControlPeer x \<noteq> ps_ControlPeer current)"
  have fields: "ps_CPSEID y = cp" "ps_UPSEID y = u" "ps_UEIPv4 y = ps_UEIPv4 x" "ps_Revision y = ps_Revision current + 1"
    "valid_pgwu y = valid_pgwu x" "checkTunnelConflicts_pgwu y u s = checkTunnelConflicts_pgwu x u s"
    using cp(2) by (simp_all add: y_def) (simp_all add: x_def canonicalize_pgwu_def)
  show thesis
  proof (cases "validate_pgwu x = Ok () \<and> same \<and> checkTunnelConflicts_pgwu x u s = Ok () \<and> x\<lparr>ps_Revision := ps_Revision current\<rparr> \<noteq> current")
    case True
    then have U: "Reconcile_pgwu P cp c s = (case commit_pgwu P (Some current) (Some y) s of
         (Err e, s1) \<Rightarrow> (Err e, s1) | (Panic, s1) \<Rightarrow> (Panic, s1)
       | (Ok _, s1) \<Rightarrow> (Ok y, install_pgwu y (retire_pgwu u current s1)))"
      using cp cur unfolding Reconcile_pgwu_def Let_def cp(4) cur option.case x_def[symmetric] y_def[symmetric] same_def by simp
    show thesis
    proof (cases rule: commit_frame[of P "Some current" "Some y" s])
      case (saved a w)
      show thesis
        by (rule replaced[OF cp(3,4) cur, of y]) (use True in \<open>simp_all add: U saved same_def fields valid_pgwu_def[symmetric]\<close>)
    next
      case (unapplied a)
      have "Reconcile_pgwu P cp c s = (Err ErrDataplane_pgwu, s\<lparr>pu_applier := a\<rparr>)" by (simp add: U unapplied)
      then show thesis by (rule refused) simp_all
    next
      case (unlogged a w)
      have "Reconcile_pgwu P cp c s = (Err ErrPersistence_pgwu, s\<lparr>pu_applier := a, pu_persister := w, pu_poisoned := True\<rparr>)"
        by (simp add: U unlogged)
      then show thesis by (rule refused) simp_all
    qed
  next
    case False
    then have "\<exists>r. Reconcile_pgwu P cp c s = (r, s) \<and> r \<noteq> Panic \<and> r \<noteq> Err ErrPersistence_pgwu"
      using validate_pgwu_cases[of x] check_Ok_or_dup[of x u s] cp cur
      unfolding Reconcile_pgwu_def Let_def cp(4) cur option.case x_def[symmetric] same_def by (elim disjE; simp; fastforce)
    then obtain r where r: "Reconcile_pgwu P cp c s = (r, s)" "r \<noteq> Panic" "r \<noteq> Err ErrPersistence_pgwu" by blast
    show thesis by (rule refused[OF r(1,2)]) (use r(3) in simp_all)
  qed
qed

lemma pgwu_ok_Reconcile:
  assumes ok: "pgwu_ok s"
  shows "pgwu_ok (snd (Reconcile_pgwu P cp c s)) \<and> fst (Reconcile_pgwu P cp c s) \<noteq> Panic"
  using ok
proof (cases rule: Reconcile_cases_pgwu[of s P cp c])
  case (replaced a w u current n)
  obtain x where x: "pu_byUP s u = Some x" "cp \<in> cp_keys x" using index_okD[OF pgwu_okD(2)[OF ok] replaced(2)] by blast
  then have "ps_CPSEID current = cp" using replaced(3) by (simp add: cp_keys_def)
  then have "pgwu_ok (install_pgwu n (retire_pgwu u current (s\<lparr>pu_applier := a, pu_persister := w\<rparr>)))"
    using replaced ok by (intro replace_ok_pgwu) simp_all
  then show ?thesis by (simp add: replaced(10))
qed (use ok in simp_all)

lemma Delete_cases_pgwu:
  obtains (refused) e s' where "Delete_pgwu P u rv s = (Err e, s')" "pgwu_ok s' = pgwu_ok s" "pu_byUP s' = pu_byUP s"
      "e = ErrPersistence_pgwu \<Longrightarrow> pu_poisoned s'"
  | (deleted) a w current s' where "\<not> pu_poisoned s" "pu_byUP s u = Some current" "ps_Revision current = rv"
      "Delete_pgwu P u rv s = (Ok (), s')"
      "s' = (notify_pgwu (DeleteSession u) ((retire_pgwu u current (s\<lparr>pu_applier := a, pu_persister := w\<rparr>))
         \<lparr>pu_byUP := (pu_byUP s)(u := None), pu_byCP := (pu_byCP s)(ps_CPSEID current := None),
          pu_generations := (pu_generations s)(u := None)\<rparr>))\<lparr>pu_removed := pu_removed s + 1\<rparr>"
proof (cases "\<not> pu_poisoned s \<and> (\<exists>c. pu_byUP s u = Some c \<and> ps_Revision c = rv)")
  case False
  then have "\<exists>e. Delete_pgwu P u rv s = (Err e, s) \<and> e \<noteq> ErrPersistence_pgwu" by (auto simp: Delete_pgwu_def split: option.split)
  then obtain e where e: "Delete_pgwu P u rv s = (Err e, s)" "e \<noteq> ErrPersistence_pgwu" by blast
  show thesis by (rule refused[OF e(1)]) (use e(2) in simp_all)
next
  case True
  then obtain current where cur: "\<not> pu_poisoned s" "pu_byUP s u = Some current" "ps_Revision current = rv" by blast
  have same: "pu_byUP (retire_pgwu u current t) = pu_byUP t" "pu_byCP (retire_pgwu u current t) = pu_byCP t"
    "pu_generations (retire_pgwu u current t) = pu_generations t" "pu_removed (retire_pgwu u current t) = pu_removed t" for t
    by (simp_all add: retire_pgwu_def Let_def unindexSession_pgwu_def split: option.split)
  show thesis
  proof (cases rule: commit_frame[of P "Some current" None s])
    case (saved a w)
    show thesis by (rule deleted[OF cur]) (simp_all add: Delete_pgwu_def cur saved Let_def same notify_pgwu_def)
  next
    case (unapplied a)
    have "Delete_pgwu P u rv s = (Err ErrDataplane_pgwu, s\<lparr>pu_applier := a\<rparr>)" by (simp add: Delete_pgwu_def cur unapplied)
    then show thesis by (rule refused) simp_all
  next
    case (unlogged a w)
    have "Delete_pgwu P u rv s = (Err ErrPersistence_pgwu, s\<lparr>pu_applier := a, pu_persister := w, pu_poisoned := True\<rparr>)"
      by (simp add: Delete_pgwu_def cur unlogged)
    then show thesis by (rule refused) simp_all
  qed
qed

lemma pgwu_ok_Delete:
  assumes ok: "pgwu_ok s"
  shows "pgwu_ok (snd (Delete_pgwu P u rv s))"
proof (cases rule: Delete_cases_pgwu[of P u rv s])
  case (deleted a w current s')
  note D = pgwu_okD[OF ok]
  obtain g where g: "pu_generations s u = Some g" "table s u = Some (current, g)" using stored_pgwu[OF ok deleted(2)] by metis
  let ?s = "s\<lparr>pu_applier := a, pu_persister := w\<rparr>"
  let ?r = "(retire_pgwu u current ?s)\<lparr>pu_byUP := (pu_byUP s)(u := None), pu_byCP := (pu_byCP s)(ps_CPSEID current := None),
          pu_generations := (pu_generations s)(u := None)\<rparr>"
  have gs: "pu_generations ?s u = Some g" using g(1) by simp
  note R = retire_fields_pgwu[OF gs, where c = current] and rem = core_remove[OF D(4) g(2)]
  have tab: "table ?r = (table s)(u := None)" by (rule ext) (simp add: table_def split: option.split)
  have "index_ok cp_keys ((pu_byUP s)(u := None)) ((pu_byCP s)(ps_CPSEID current := None))"
    using index_ok_delete[OF D(2) deleted(2)] by (simp add: cp_keys_def index_drop_singleton)
  moreover have "card (dom ((pu_byUP s)(u := None))) \<le> card (dom (pu_byUP s))" by (intro card_mono) auto
  ultimately have "pgwu_ok ?r" using D(1,3) rem(1) unfolding pgwu_ok_def tab by (simp add: R rem(3))
  then show ?thesis unfolding deleted(4,5) by simp
qed (use ok in simp_all)

section \<open>Restoring keeps it\<close>

definition teids :: "Session_pgwu \<Rightarrow> 32 word list" where
  "teids c = map pt_TEID (sessionLocalTunnels c)"

lemma set_teids: "pt_TEID ` set (sessionLocalTunnels c) = set (teids c)"
  by (simp add: teids_def)

lemma claim_tunnels_Ok:
  "claim_tunnels ts seen = Ok seen' \<longleftrightarrow> distinct (map pt_TEID ts) \<and> pt_TEID ` set ts \<inter> seen = {} \<and> seen' = seen \<union> pt_TEID ` set ts"
  by (induction ts arbitrary: seen) auto

text \<open>What the loop has collected: the canonical sessions, which share no identifier, and the tables of them.\<close>

definition collected :: "(64 word \<rightharpoonup> Session_pgwu) \<Rightarrow> (64 word \<rightharpoonup> 64 word) \<Rightarrow> 32 word set \<Rightarrow> Addr set \<Rightarrow> Session_pgwu list \<Rightarrow> bool" where
  "collected byUP byCP seenT seenUE cs \<longleftrightarrow>
     (\<forall>u c. byUP u = Some c \<longleftrightarrow> c \<in> set cs \<and> ps_UPSEID c = u) \<and> index_ok cp_keys byUP byCP \<and>
     distinct (map ps_UPSEID cs) \<and> (\<forall>c \<in> set cs. valid_pgwu c) \<and> distinct (map ps_UEIPv4 cs) \<and> seenUE = ps_UEIPv4 ` set cs \<and>
     distinct (concat (map teids cs)) \<and> seenT = set (concat (map teids cs))"

lemma restore_sessions_collected:
  "restore_sessions rs byUP byCP seenT seenUE cs = Ok (byUP', byCP', cs') \<Longrightarrow> collected byUP byCP seenT seenUE cs \<Longrightarrow>
     (\<exists>seenT' seenUE'. collected byUP' byCP' seenT' seenUE' cs') \<and> length cs' = length cs + length rs"
proof (induction rs arbitrary: byUP byCP seenT seenUE cs)
  case (Cons r rs)
  define c where "c = canonicalize_pgwu r"
  from Cons.prems(1) obtain seenT1 where c: "valid_pgwu c" "byUP (ps_UPSEID c) = None" "byCP (ps_CPSEID c) = None"
    "ps_UEIPv4 c \<notin> seenUE" "claim_tunnels (sessionLocalTunnels c) seenT = Ok seenT1"
    and rest: "restore_sessions rs (byUP(ps_UPSEID c \<mapsto> c)) (byCP(ps_CPSEID c \<mapsto> ps_UPSEID c)) seenT1 (insert (ps_UEIPv4 c) seenUE)
      (cs @ [c]) = Ok (byUP', byCP', cs')"
    by (auto simp: Let_def valid_pgwu_def simp flip: c_def split: if_splits)
  note K = Cons.prems(2)[unfolded collected_def]
  have new: "\<forall>d \<in> set cs. ps_UPSEID d \<noteq> ps_UPSEID c" using K c(2) by force
  have up: "\<forall>u d. (byUP(ps_UPSEID c \<mapsto> c)) u = Some d \<longleftrightarrow> d \<in> set (cs @ [c]) \<and> ps_UPSEID d = u" using K new by auto
  have cp: "index_ok cp_keys (byUP(ps_UPSEID c \<mapsto> c)) (byCP(ps_CPSEID c \<mapsto> ps_UPSEID c))"
    using index_ok_insert[of cp_keys byUP byCP "ps_UPSEID c" c] K c(2,3) by (simp add: cp_keys_def index_put_singleton)
  have t: "distinct (teids c)" "set (teids c) \<inter> seenT = {}" "seenT1 = seenT \<union> set (teids c)"
    using c(5) unfolding claim_tunnels_Ok set_teids by (simp_all add: teids_def)
  have "collected (byUP(ps_UPSEID c \<mapsto> c)) (byCP(ps_CPSEID c \<mapsto> ps_UPSEID c)) seenT1 (insert (ps_UEIPv4 c) seenUE) (cs @ [c])"
    unfolding collected_def using up cp K new c(1,4) t by auto
  from Cons.IH[OF rest this] show ?case by simp
qed auto

lemma activate_fields:
  "pu_byUP (activate_pgwu c s) = pu_byUP s" "pu_byCP (activate_pgwu c s) = pu_byCP s" "pu_max (activate_pgwu c s) = pu_max s"
  "pu_generations (activate_pgwu c s) = (pu_generations s)(ps_UPSEID c \<mapsto> pu_heap s)"
  "pu_active (activate_pgwu c s) = (pu_active s)(pu_heap s := True)" "pu_heap (activate_pgwu c s) = Suc (pu_heap s)"
  "pu_uplink (activate_pgwu c s) = pu_uplink (indexSession_pgwu c (pu_heap s) s)"
  "pu_downlink (activate_pgwu c s) = (pu_downlink s)(ps_UEIPv4 c \<mapsto> ruleset_of c (pu_heap s))"
  by (simp_all add: activate_pgwu_def Let_def index_downlink) (rule index_cong, simp)

lemma activate_all:
  assumes "core_ok (table s) (pu_active s) (pu_heap s) (pu_uplink s) (pu_downlink s)"
    "\<forall>c \<in> set cs. valid_pgwu c \<and> pu_byUP s (ps_UPSEID c) = Some c \<and> pu_generations s (ps_UPSEID c) = None \<and>
       pu_downlink s (ps_UEIPv4 c) = None \<and> (\<forall>k \<in> set (teids c). pu_uplink s k = None)"
    "distinct (map ps_UPSEID cs)" "distinct (map ps_UEIPv4 cs)" "distinct (concat (map teids cs))"
  shows "let s' = fold activate_pgwu cs s in core_ok (table s') (pu_active s') (pu_heap s') (pu_uplink s') (pu_downlink s') \<and>
    pu_byUP s' = pu_byUP s \<and> pu_byCP s' = pu_byCP s \<and> pu_max s' = pu_max s \<and>
    dom (pu_generations s') = ps_UPSEID ` set cs \<union> dom (pu_generations s)"
  using assms
proof (induction cs arbitrary: s)
  case (Cons c cs)
  let ?s = "activate_pgwu c s"
  have c: "valid_pgwu c" "pu_byUP s (ps_UPSEID c) = Some c" "pu_generations s (ps_UPSEID c) = None"
    "pu_downlink s (ps_UEIPv4 c) = None" "\<And>k. k \<in> pt_TEID ` set (sessionLocalTunnels c) \<Longrightarrow> pu_uplink s k = None"
    using Cons.prems(2) unfolding set_teids by simp_all
  have tab: "table ?s = (table s)(ps_UPSEID c \<mapsto> (c, pu_heap s))" using c(2)
    by (auto simp: table_def activate_fields fun_eq_iff split: option.split)
  have "table s (ps_UPSEID c) = None" using c(2,3) by (simp add: table_def)
  from core_insert[OF Cons.prems(1) this c(1) c(5,4)]
  have core: "core_ok (table ?s) (pu_active ?s) (pu_heap ?s) (pu_uplink ?s) (pu_downlink ?s)"
    by (simp add: tab activate_fields index_downlink)
  have up: "pu_uplink ?s k = None" if k: "k \<in> set (teids d)" "d \<in> set cs" for k d
  proof -
    have "k \<notin> set (teids c)" "pu_uplink s k = None" using k Cons.prems(2,5) by auto
    then have "\<not> (\<exists>r. (k, r) \<in> uplink_entries (c, pu_heap s) \<or> pu_uplink s k = Some r)"
      using uplink_entries_fields[of k _ c "pu_heap s"] unfolding set_teids by auto
    then show ?thesis using index_uplink[OF c(1,5), of "pu_heap s" k] by (cases "pu_uplink ?s k") (auto simp: activate_fields)
  qed
  have "valid_pgwu d \<and> pu_byUP ?s (ps_UPSEID d) = Some d \<and> pu_generations ?s (ps_UPSEID d) = None \<and>
       pu_downlink ?s (ps_UEIPv4 d) = None \<and> (\<forall>k \<in> set (teids d). pu_uplink ?s k = None)" if d: "d \<in> set cs" for d
  proof -
    have "ps_UPSEID d \<in> ps_UPSEID ` set cs" "ps_UEIPv4 d \<in> ps_UEIPv4 ` set cs" using d by simp_all
    then have "ps_UPSEID d \<noteq> ps_UPSEID c" "ps_UEIPv4 d \<noteq> ps_UEIPv4 c" using Cons.prems(3,4) by auto
    moreover have "valid_pgwu d \<and> pu_byUP s (ps_UPSEID d) = Some d \<and> pu_generations s (ps_UPSEID d) = None \<and>
      pu_downlink s (ps_UEIPv4 d) = None" using Cons.prems(2) d by simp
    ultimately show ?thesis using up d by (simp add: activate_fields(1,4,8))
  qed
  then have "\<forall>d \<in> set cs. valid_pgwu d \<and> pu_byUP ?s (ps_UPSEID d) = Some d \<and> pu_generations ?s (ps_UPSEID d) = None \<and>
       pu_downlink ?s (ps_UEIPv4 d) = None \<and> (\<forall>k \<in> set (teids d). pu_uplink ?s k = None)" by blast
  moreover have "distinct (map ps_UPSEID cs)" "distinct (map ps_UEIPv4 cs)" "distinct (concat (map teids cs))"
    using Cons.prems(3-5) by simp_all
  moreover have "dom (pu_generations ?s) = insert (ps_UPSEID c) (dom (pu_generations s))" by (simp add: activate_fields)
  ultimately show ?case using Cons.IH[OF core] by (simp add: Let_def activate_fields(1-3))
qed (simp add: Let_def)

lemma restore_dataplane_frame:
  assumes "restore_dataplane P cs s = (r, s1)"
  shows "(r = Ok () \<or> r = Err ErrDataplane_pgwu) \<and> (\<exists>a b. s1 = s\<lparr>pu_applier := a, pu_poisoned := b\<rparr>)"
proof -
  have same: "\<exists>a b. s = s\<lparr>pu_applier := a, pu_poisoned := b\<rparr>"
    by (intro exI[of _ "pu_applier s"] exI[of _ "pu_poisoned s"]) simp
  have one: "\<exists>a b. s\<lparr>pu_applier := x\<rparr> = s\<lparr>pu_applier := a, pu_poisoned := b\<rparr>" for x
    by (intro exI[of _ x] exI[of _ "pu_poisoned s"]) simp
  have two: "\<exists>a b. s\<lparr>pu_applier := x, pu_poisoned := y\<rparr> = s\<lparr>pu_applier := a, pu_poisoned := b\<rparr>" for x y by blast
  show ?thesis using assms same one two unfolding restore_dataplane_def
    by (auto split: option.splits prod.splits if_splits)
qed

lemma notify_fold_ok: "pgwu_ok (fold (\<lambda>c. notify_pgwu (e c)) cs s) = pgwu_ok s"
  by (induction cs arbitrary: s) simp_all

lemma pgwu_ok_Restore:
  assumes ok: "pgwu_ok s"
  shows "pgwu_ok (snd (Restore_pgwu P rs s)) \<and> fst (Restore_pgwu P rs s) \<noteq> Panic"
proof (cases "\<not> pu_poisoned s \<and> card (dom (pu_byUP s)) = 0 \<and> int (length rs) \<le> pu_max s")
  case False
  then show ?thesis using ok by (auto simp: Restore_pgwu_def)
next
  case True
  have no: "restore_sessions rs byUP byCP T U cs \<noteq> Panic" for byUP byCP T U cs
  proof (induction rs arbitrary: byUP byCP T U cs)
    case (Cons r rs)
    have "claim_tunnels ts seen \<noteq> Panic" for ts seen by (induction ts arbitrary: seen) auto
    then show ?case using Cons validate_pgwu_cases[of "canonicalize_pgwu r"] by (auto simp: Let_def)
  qed simp
  show ?thesis
  proof (cases "restore_sessions rs Map.empty Map.empty {} {} []")
    case (Ok x)
    obtain byUP byCP cs where x: "x = (byUP, byCP, cs)" by (cases x)
    have "collected Map.empty Map.empty {} {} []" by (simp add: collected_def)
    from restore_sessions_collected[OF Ok[unfolded x] this] obtain seenT seenUE where
      K: "collected byUP byCP seenT seenUE cs" and len: "length cs = length rs" by auto
    obtain r s1 where d: "restore_dataplane P cs s = (r, s1)" by (cases "restore_dataplane P cs s")
    obtain a b where s1: "r = Ok () \<or> r = Err ErrDataplane_pgwu" "s1 = s\<lparr>pu_applier := a, pu_poisoned := b\<rparr>"
      using restore_dataplane_frame[OF d] by blast
    show ?thesis
    proof (cases "r = Ok ()")
      case True
      note D = pgwu_okD[OF ok]
      have empty: "pu_byUP s = Map.empty" "pu_generations s = Map.empty" using \<open>\<not> pu_poisoned s \<and> _\<close> D(1) by (auto simp: card_eq_0_iff)
      then have t0: "table s = Map.empty" by (simp add: table_def fun_eq_iff)
      have ix: "pu_uplink s = Map.empty" "pu_downlink s = Map.empty"
        using core_okD(3,4)[OF D(4)] unfolding t0 entries_ok_def by (auto simp: fun_eq_iff)
      let ?s = "s1\<lparr>pu_byUP := byUP, pu_byCP := byCP\<rparr>"
      have t: "table ?s = Map.empty" using empty by (auto simp: table_def s1(2) split: option.split)
      have core: "core_ok (table ?s) (pu_active ?s) (pu_heap ?s) (pu_uplink ?s) (pu_downlink ?s)"
        unfolding t core_ok_def by (simp add: s1(2) ix)
      have all: "\<forall>c \<in> set cs. valid_pgwu c \<and> pu_byUP ?s (ps_UPSEID c) = Some c \<and> pu_generations ?s (ps_UPSEID c) = None \<and>
       pu_downlink ?s (ps_UEIPv4 c) = None \<and> (\<forall>k \<in> set (teids c). pu_uplink ?s k = None)"
        using K by (simp add: s1(2) ix empty collected_def)
      have dom: "dom byUP = ps_UPSEID ` set cs" "card (dom byUP) = length rs"
      proof -
        show "dom byUP = ps_UPSEID ` set cs" using K by (force simp: collected_def dom_def)
        then show "card (dom byUP) = length rs"
          using K len by (simp add: collected_def distinct_card[of "map ps_UPSEID cs", unfolded set_map length_map])
      qed
      from activate_all[OF core all] K
      have "pgwu_ok (fold activate_pgwu cs ?s)"
        using dom \<open>\<not> pu_poisoned s \<and> _\<close> unfolding pgwu_ok_def Let_def by (simp add: collected_def s1(2) empty)
      then show ?thesis using \<open>\<not> pu_poisoned s \<and> _\<close> True
        by (simp add: Restore_pgwu_def Ok x d Let_def notify_fold_ok)
    next
      case False
      then show ?thesis using s1 \<open>\<not> pu_poisoned s \<and> _\<close> ok by (simp add: Restore_pgwu_def Ok x d)
    qed
  qed (use True ok no in \<open>auto simp: Restore_pgwu_def\<close>)
qed

end
