(* ===== verification/Pgwu_Packet_Path.thy ===== *)
theory Pgwu_Packet_Path
  imports Pgwu_Rules
begin

text \<open>
  The packet path of the packet gateway user plane over the rule store of \<^verbatim>\<open>internal/pgwu/rules/store.go\<close>: the stores that
  the operations reach, and what the two packet lookups return in them.
\<close>

section \<open>Reachable stores\<close>

inductive pgwu_reach :: "('a, 'w) Participants \<Rightarrow> ('a, 'w) Store_pgwu \<Rightarrow> bool" for P where
  reach_new: "pgwu_reach P (NewStoreWithParticipants_pgwu maxSessions applier persister)"
| reach_create: "pgwu_reach P s \<Longrightarrow> pgwu_reach P (snd (Create_pgwu P candidate s))"
| reach_update: "pgwu_reach P s \<Longrightarrow> pgwu_reach P (snd (Update_pgwu P upSEID expectedRevision mutate s))"
| reach_reconcile: "pgwu_reach P s \<Longrightarrow> pgwu_reach P (snd (Reconcile_pgwu P cpSEID candidate s))"
| reach_delete: "pgwu_reach P s \<Longrightarrow> pgwu_reach P (snd (Delete_pgwu P upSEID expectedRevision s))"
| reach_deleteByCP: "pgwu_reach P s \<Longrightarrow> pgwu_reach P (snd (DeleteByCPPeerSession_pgwu P cpSEID s))"
| reach_restore: "pgwu_reach P s \<Longrightarrow> pgwu_reach P (snd (Restore_pgwu P recovered s))"
| reach_observer: "pgwu_reach P s \<Longrightarrow> pgwu_reach P (SetObserver_pgwu order present s)"

lemma pgwu_ok_new: "pgwu_ok (NewStoreWithParticipants_pgwu n a w)"
proof -
  let ?s = "NewStoreWithParticipants_pgwu n a w"
  have "table ?s = Map.empty" by (simp add: table_def NewStoreWithParticipants_pgwu_def fun_eq_iff)
  then show ?thesis
    by (simp add: pgwu_ok_def core_ok_def) (simp add: NewStoreWithParticipants_pgwu_def DefaultMaxSessions_pgwu_def)
qed

lemma pgwu_reach_ok: "pgwu_reach P s \<Longrightarrow> pgwu_ok s"
proof (induction rule: pgwu_reach.induct)
  case (reach_deleteByCP s cpSEID)
  then show ?case using pgwu_ok_Delete[of s P]
    by (auto simp: DeleteByCPPeerSession_pgwu_def split: option.split prod.split) (metis snd_conv)
next
  case (reach_observer s order present)
  have "pgwu_ok (SetObserver_pgwu order present s) = pgwu_ok s" by (rule pgwu_ok_cong) (simp_all add: SetObserver_pgwu_def)
  then show ?case using reach_observer.IH by simp
qed (simp_all add: pgwu_ok_new pgwu_ok_Create pgwu_ok_Update pgwu_ok_Reconcile pgwu_ok_Delete pgwu_ok_Restore)

section \<open>Uplink\<close>

definition hits :: "byte list \<Rightarrow> TFTDirection \<Rightarrow> IPv4PacketFilter \<Rightarrow> bool" where
  "hits packet direction f \<longleftrightarrow> Matches_filter f packet direction = Ok True"

lemma Matches_hits: "Matches_filter f packet direction = Ok (hits packet direction f)"
  using Matches_filter_Ok[of f packet direction] by (auto simp: hits_def)

lemma first_filter_eq: "first_filter fs packet = Ok (\<exists>f \<in> set fs. hits packet TFTDirectionUplink (ff_Filter f))"
  by (induction fs) (auto simp: Matches_hits)

text \<open>The session, generation and bearer a tunnel belongs to.\<close>

definition serves_uplink :: "('a, 'w) Store_pgwu \<Rightarrow> 32 word \<Rightarrow> byte list \<Rightarrow> PacketRule_pgwu \<Rightarrow> bool" where
  "serves_uplink s teid packet r \<longleftrightarrow> (\<exists>u c g. pu_byUP s u = Some c \<and> pu_generations s u = Some g \<and>
     (teid = pt_TEID (ps_Local c) \<and> r = compileDefaultRule c g \<or>
      (\<exists>b \<in> set (bearers c). teid = teid_of b \<and> r = compileDedicatedRule c b g \<and>
         (\<exists>f \<in> set (pb_Filters b). hits packet TFTDirectionUplink (ff_Filter f)))))"

lemma table_iff: "table s u = Some (c, g) \<longleftrightarrow> pu_byUP s u = Some c \<and> pu_generations s u = Some g"
  by (auto simp: table_def split: option.split)

lemma uplink_iff:
  assumes "pgwu_ok s"
  shows "pu_uplink s teid = Some r \<longleftrightarrow> (\<exists>u c g. pu_byUP s u = Some c \<and> pu_generations s u = Some g \<and> (teid, r) \<in> uplink_entries (c, g))"
    "pu_downlink s a = Some d \<longleftrightarrow> (\<exists>u c g. pu_byUP s u = Some c \<and> pu_generations s u = Some g \<and> a = ps_UEIPv4 c \<and> d = ruleset_of c g)"
proof -
  note D = core_okD(3,4)[OF pgwu_okD(4)[OF assms]]
  show "pu_uplink s teid = Some r \<longleftrightarrow> (\<exists>u c g. pu_byUP s u = Some c \<and> pu_generations s u = Some g \<and> (teid, r) \<in> uplink_entries (c, g))"
    using D(1) unfolding entries_ok_def by (simp add: table_iff)
  show "pu_downlink s a = Some d \<longleftrightarrow> (\<exists>u c g. pu_byUP s u = Some c \<and> pu_generations s u = Some g \<and> a = ps_UEIPv4 c \<and> d = ruleset_of c g)"
    using D(2) unfolding entries_ok_def by (simp add: table_iff downlink_entries_def)
qed

lemma live_pgwu: "pgwu_ok s \<Longrightarrow> pu_byUP s u = Some c \<Longrightarrow> pu_generations s u = Some g \<Longrightarrow> live_generation s (Some g)"
  using core_okD(1)[OF pgwu_okD(4), of s u c g] by (simp add: table_iff live_generation_def)

lemma LookupUplinkPacket_iff:
  assumes ok: "pgwu_ok s"
  shows "LookupUplinkPacket_pgwu s teid packet = Ok (Some r) \<longleftrightarrow> serves_uplink s teid packet r"
    "LookupUplinkPacket_pgwu s teid packet \<noteq> Panic"
proof -
  show "LookupUplinkPacket_pgwu s teid packet \<noteq> Panic" by (simp add: LookupUplinkPacket_pgwu_def first_filter_eq split: option.split)
  have live: "live_generation s (pk_generation q)" if "pu_uplink s teid = Some q" for q
    using that live_pgwu[OF ok] uplink_entries_fields unfolding uplink_iff(1)[OF ok] by fastforce
  have "LookupUplinkPacket_pgwu s teid packet = Ok (Some r) \<longleftrightarrow>
      pu_uplink s teid = Some r \<and> (pk_Default r \<or> (\<exists>f \<in> set (pk_Filters r). hits packet TFTDirectionUplink (ff_Filter f)))"
    using live by (auto simp: LookupUplinkPacket_pgwu_def first_filter_eq split: option.split)
  also have "\<dots> \<longleftrightarrow> serves_uplink s teid packet r"
    unfolding uplink_iff(1)[OF ok] serves_uplink_def uplink_entries_def by fastforce
  finally show "LookupUplinkPacket_pgwu s teid packet = Ok (Some r) \<longleftrightarrow> serves_uplink s teid packet r" .
qed

section \<open>Downlink\<close>

text \<open>Of the filters of all dedicated bearers that match the packet the first in the order of precedence and PDR decides;
  without one the default bearer serves the packet.\<close>

definition filters_of :: "Session_pgwu \<Rightarrow> (Bearer_pgwu \<times> FlowFilter) set" where
  "filters_of c = {(b, f). b \<in> set (bearers c) \<and> f \<in> set (pb_Filters b)}"

definition hit_filters :: "Session_pgwu \<Rightarrow> byte list \<Rightarrow> (Bearer_pgwu \<times> FlowFilter) set" where
  "hit_filters c packet = {(b, f) \<in> filters_of c. hits packet TFTDirectionDownlink (ff_Filter f)}"

definition flow_key :: "FlowFilter \<Rightarrow> 32 word \<times> 16 word" where
  "flow_key f = (ff_Precedence f, ff_PDRID f)"

definition chooses :: "Session_pgwu \<Rightarrow> nat \<Rightarrow> byte list \<Rightarrow> PacketRule_pgwu \<Rightarrow> bool" where
  "chooses c g packet r \<longleftrightarrow>
     (hit_filters c packet = {} \<and> r = compileDefaultRule c g) \<or>
     (\<exists>(b, f) \<in> hit_filters c packet. r = compileDedicatedRule c b g \<and>
        (\<forall>(b', f') \<in> hit_filters c packet. flow_key f \<le> flow_key f'))"

definition serves_downlink :: "('a, 'w) Store_pgwu \<Rightarrow> Addr \<Rightarrow> byte list \<Rightarrow> PacketRule_pgwu \<Rightarrow> bool" where
  "serves_downlink s a packet r \<longleftrightarrow>
     (\<exists>u c g. pu_byUP s u = Some c \<and> pu_generations s u = Some g \<and> ps_UEIPv4 c = Unmap a \<and> chooses c g packet r)"

lemma find_sorted:
  "sorted (map k ds) \<Longrightarrow> find Q ds = Some d \<Longrightarrow> d \<in> set ds \<and> Q d \<and> (\<forall>e \<in> set ds. Q e \<longrightarrow> k d \<le> k e)"
  by (induction ds) (auto split: if_splits)

lemma first_candidate_eq:
  "first_candidate ds packet fb = Ok (Some (case find (\<lambda>d. hits packet TFTDirectionDownlink (dc_filter d)) ds of
     None \<Rightarrow> fb | Some d \<Rightarrow> dc_rule d))"
  by (induction ds) (auto simp: Matches_hits)

definition candidate_of :: "Session_pgwu \<Rightarrow> nat \<Rightarrow> Bearer_pgwu \<times> FlowFilter \<Rightarrow> downlinkCandidate" where
  "candidate_of c g x = \<lparr>dc_precedence = ff_Precedence (snd x), dc_pdrID = ff_PDRID (snd x), dc_filter = ff_Filter (snd x),
     dc_rule = compileDedicatedRule c (fst x) g\<rparr>"

lemma set_rule_candidates:
  "set (rule_candidates (compileDedicatedRule c b g) fs) = (\<lambda>f. candidate_of c g (b, f)) ` {f \<in> set fs. AppliesTo (ff_Filter f) TFTDirectionDownlink}"
  by (induction fs) (auto simp: candidate_of_def)

lemma set_all_candidates:
  "set (all_candidates c g) = candidate_of c g ` {(b, f) \<in> filters_of c. AppliesTo (ff_Filter f) TFTDirectionDownlink}"
  unfolding all_candidates_def filters_of_def by (auto simp: set_rule_candidates image_iff)

lemma hits_applies: "hits packet direction f \<Longrightarrow> AppliesTo f direction"
  by (auto simp: hits_def Matches_filter_def split: if_splits)

text \<open>The PDR identifiers of a valid session are distinct, so at most one rule is chosen.\<close>

lemma validate_filters_PDRs:
  "validate_filters fs seen u d = Ok (seen', u', d') \<Longrightarrow>
     distinct (map ff_PDRID fs) \<and> set (map ff_PDRID fs) \<inter> seen = {} \<and> seen' = seen \<union> set (map ff_PDRID fs)"
proof (induction fs arbitrary: seen u d)
  case (Cons f fs)
  then have f: "ff_PDRID f \<notin> seen" by (auto split: if_splits)
  from Cons.prems obtain u1 d1 where "validate_filters fs (insert (ff_PDRID f) seen) u1 d1 = Ok (seen', u', d')"
    by (auto split: if_splits)
  from Cons.IH[OF this] f show ?case by auto
qed simp

lemma validate_bearer_PDRs:
  "validate_bearer b seen = Ok seen' \<Longrightarrow> distinct (map ff_PDRID (pb_Filters b)) \<and>
     set (map ff_PDRID (pb_Filters b)) \<inter> sn_PDR seen = {} \<and> sn_PDR seen' = sn_PDR seen \<union> set (map ff_PDRID (pb_Filters b))"
proof -
  assume "validate_bearer b seen = Ok seen'"
  then obtain u d where "validate_filters (pb_Filters b) (sn_PDR seen) False False = Ok (sn_PDR seen', u, d)"
    by (auto simp: validate_bearer_def split: if_splits)
  then show ?thesis using validate_filters_PDRs by blast
qed

lemma validate_bearers_PDRs:
  "validate_bearers bs seen = Ok () \<Longrightarrow> distinct (concat (map (\<lambda>b. map ff_PDRID (pb_Filters b)) bs)) \<and>
     set (concat (map (\<lambda>b. map ff_PDRID (pb_Filters b)) bs)) \<inter> sn_PDR seen = {}"
proof (induction bs arbitrary: seen)
  case (Cons b bs)
  then obtain seen' where b: "validate_bearer b seen = Ok seen'" "validate_bearers bs seen' = Ok ()" by auto
  from Cons.IH[OF b(2)] validate_bearer_PDRs[OF b(1)] show ?case by auto
qed simp

lemma valid_PDRs:
  assumes "valid_pgwu c" "(b, f) \<in> filters_of c" "(b', f') \<in> filters_of c" "ff_PDRID f = ff_PDRID f'"
  shows "b = b'" "f = f'"
proof -
  have "validate_bearers (bearers c) (seen_default c) = Ok ()"
    using assms(1) by (auto simp: valid_pgwu_def validate_pgwu_def split: if_splits)
  from validate_bearers_PDRs[OF this] have d: "distinct (concat (map (\<lambda>b. map ff_PDRID (pb_Filters b)) (bearers c)))" by simp
  have m: "b \<in> set (bearers c)" "b' \<in> set (bearers c)" "f \<in> set (pb_Filters b)" "f' \<in> set (pb_Filters b')"
    using assms(2,3) by (simp_all add: filters_of_def)
  have n: "ff_PDRID f \<in> set (map ff_PDRID (pb_Filters b))" "ff_PDRID f \<in> set (map ff_PDRID (pb_Filters b'))"
    using imageI[OF m(3), of ff_PDRID] imageI[OF m(4), of ff_PDRID] assms(4) by simp_all
  have "distinct (concat (map h bs)) \<Longrightarrow> b \<in> set bs \<Longrightarrow> b' \<in> set bs \<Longrightarrow> x \<in> set (h b) \<Longrightarrow> x \<in> set (h b') \<Longrightarrow> b = b' \<and> distinct (h b)"
    for h :: "Bearer_pgwu \<Rightarrow> 16 word list" and bs x
    by (induction bs) auto
  from this[OF d m(1,2) n] have b: "b = b'" "distinct (map ff_PDRID (pb_Filters b))" by auto
  then show "b = b'" by simp
  show "f = f'" using b m(3,4) assms(4) by (auto simp: distinct_map dest: inj_onD)
qed

lemma chooses_unique:
  assumes "valid_pgwu c" "chooses c g packet r" "chooses c g packet r'"
  shows "r = r'"
proof (cases "hit_filters c packet = {}")
  case True
  then show ?thesis using assms(2,3) by (auto simp: chooses_def)
next
  case False
  with assms(2,3) obtain b f b' f' where h: "(b, f) \<in> hit_filters c packet" "r = compileDedicatedRule c b g"
      "\<forall>(x, y) \<in> hit_filters c packet. flow_key f \<le> flow_key y" "(b', f') \<in> hit_filters c packet" "r' = compileDedicatedRule c b' g"
      "\<forall>(x, y) \<in> hit_filters c packet. flow_key f' \<le> flow_key y"
    unfolding chooses_def by blast
  have "flow_key f = flow_key f'" using h(1,3,4,6) by (intro order_antisym) auto
  then have "b = b'" using valid_PDRs(1)[OF assms(1), of b f b' f'] h(1,4) by (simp add: flow_key_def hit_filters_def)
  then show ?thesis using h(2,5) by simp
qed

text \<open>The sorted candidates of a session choose the rule.\<close>

lemma first_candidate_chooses:
  "\<exists>r. first_candidate (sort_key candidate_key (all_candidates c g)) packet (compileDefaultRule c g) = Ok (Some r) \<and> chooses c g packet r"
proof -
  let ?Q = "\<lambda>d. hits packet TFTDirectionDownlink (dc_filter d)" and ?ds = "sort_key candidate_key (all_candidates c g)"
  have hit: "{d \<in> set ?ds. ?Q d} = candidate_of c g ` hit_filters c packet"
    unfolding set_sort set_all_candidates hit_filters_def by (auto simp: candidate_of_def dest: hits_applies)
  have key: "candidate_key (candidate_of c g x) = flow_key (snd x)" for x by (simp add: candidate_key_def candidate_of_def flow_key_def)
  show ?thesis
  proof (cases "find ?Q ?ds")
    case None
    then have "hit_filters c packet = {}" using hit unfolding find_None_iff by auto
    then show ?thesis unfolding first_candidate_eq None by (simp add: chooses_def)
  next
    case (Some d)
    have d: "d \<in> set ?ds" "?Q d" "\<forall>e \<in> set ?ds. ?Q e \<longrightarrow> candidate_key d \<le> candidate_key e"
      using find_sorted[OF sorted_sort_key Some] by auto
    then obtain x where x: "x \<in> hit_filters c packet" "d = candidate_of c g x" using hit by blast
    have "flow_key (snd x) \<le> flow_key (snd y)" if y: "y \<in> hit_filters c packet" for y
    proof -
      have "candidate_of c g y \<in> {d \<in> set ?ds. ?Q d}" unfolding hit using y by blast
      then have "candidate_key d \<le> candidate_key (candidate_of c g y)" using d(3) by blast
      then show ?thesis using x(2) key by simp
    qed
    then have "chooses c g packet (dc_rule d)"
      using x unfolding chooses_def by (intro disjI2 bexI[of _ x]) (auto simp: candidate_of_def split: prod.split)
    then show ?thesis unfolding first_candidate_eq Some by simp
  qed
qed

lemma LookupDownlinkPacket_iff:
  assumes ok: "pgwu_ok s"
  shows "LookupDownlinkPacket_pgwu s a packet = Ok (Some r) \<longleftrightarrow> serves_downlink s a packet r"
    "LookupDownlinkPacket_pgwu s a packet \<noteq> Panic"
proof -
  show "LookupDownlinkPacket_pgwu s a packet \<noteq> Panic"
    by (simp add: LookupDownlinkPacket_pgwu_def first_candidate_eq split: option.split)
  show "LookupDownlinkPacket_pgwu s a packet = Ok (Some r) \<longleftrightarrow> serves_downlink s a packet r"
  proof (cases "pu_downlink s (Unmap a)")
    case None
    then have "\<not> serves_downlink s a packet r"
      using uplink_iff(2)[OF ok, of "Unmap a"] unfolding serves_downlink_def by (metis option.distinct(1))
    then show ?thesis using None by (simp add: LookupDownlinkPacket_pgwu_def)
  next
    case (Some d)
    then obtain u c g where c: "pu_byUP s u = Some c" "pu_generations s u = Some g" "Unmap a = ps_UEIPv4 c" "d = ruleset_of c g"
      unfolding uplink_iff(2)[OF ok] by blast
    obtain q where q: "first_candidate (sort_key candidate_key (all_candidates c g)) packet (compileDefaultRule c g) = Ok (Some q)"
      "chooses c g packet q" using first_candidate_chooses by blast
    have L: "LookupDownlinkPacket_pgwu s a packet = Ok (Some q)"
      using Some c(4) live_pgwu[OF ok c(1,2)] q(1) by (simp add: LookupDownlinkPacket_pgwu_def ruleset_of_def)
    have v: "valid_pgwu c" using core_okD(1)[OF pgwu_okD(4)[OF ok], of u c g] c(1,2) by (simp add: table_iff)
    have "c' = c \<and> g' = g" if h: "pu_byUP s u' = Some c'" "pu_generations s u' = Some g'" "ps_UEIPv4 c' = Unmap a" for u' c' g'
    proof -
      have "pu_downlink s (Unmap a) = Some (ruleset_of c' g')" using h uplink_iff(2)[OF ok] by metis
      then have e: "compileDefaultRule c' g' = compileDefaultRule c g" using Some c(4) by (auto simp: ruleset_of_def)
      have "ps_UPSEID c' = u'" "ps_UPSEID c = u" using core_okD(1)[OF pgwu_okD(4)[OF ok]] h c table_iff by metis+
      moreover have "ps_UPSEID c' = ps_UPSEID c" using arg_cong[OF e, of pk_UPSEID] by simp
      ultimately show ?thesis using h c by simp
    qed
    then have "serves_downlink s a packet r \<longleftrightarrow> chooses c g packet r" unfolding serves_downlink_def using c by metis
    also have "\<dots> \<longleftrightarrow> q = r" using q(2) chooses_unique[OF v] by blast
    finally show ?thesis by (simp add: L)
  qed
qed

section \<open>Properties\<close>

text \<open>C17: (refinement) The packet lookups implement the stored sessions, in every reachable store: an uplink packet is served
  by the rule of the bearer that owns its tunnel, a dedicated bearer only when one of its filters matches; a downlink packet by
  the dedicated bearer whose matching filter comes first in precedence and PDR order, or by the default bearer when no filter
  of the session matches; all rules are those of the session's current revision, and no packet makes a lookup panic.\<close>

theorem pgwu_lookup_exact:
  assumes "pgwu_reach P s"
  shows "(LookupUplinkPacket_pgwu s teid packet = Ok (Some r) \<longleftrightarrow> serves_uplink s teid packet r) \<and>
    (LookupDownlinkPacket_pgwu s a packet = Ok (Some r) \<longleftrightarrow> serves_downlink s a packet r) \<and>
    LookupUplinkPacket_pgwu s teid packet \<noteq> Panic \<and> LookupDownlinkPacket_pgwu s a packet \<noteq> Panic"
  using pgwu_reach_ok[OF assms] LookupUplinkPacket_iff LookupDownlinkPacket_iff by blast

text \<open>C19: (invariant) In every reachable store the sessions are valid and within the capacity, each is found by its control-plane
  SEID, the indexes hold exactly their compiled rules under active generations, and no request to create, reconcile or restore
  panics.\<close>

theorem pgwu_rules_invariant:
  assumes "pgwu_reach P s"
  shows "pgwu_ok s \<and> (FindByCPSEID_pgwu s cp = Some c \<longleftrightarrow> (\<exists>u. pu_byUP s u = Some c \<and> ps_CPSEID c = cp)) \<and>
    fst (Create_pgwu P candidate s) \<noteq> Panic \<and> fst (Reconcile_pgwu P cp candidate s) \<noteq> Panic \<and> fst (Restore_pgwu P recovered s) \<noteq> Panic"
proof -
  note ok = pgwu_reach_ok[OF assms]
  have "FindByCPSEID_pgwu s cp = Some c \<longleftrightarrow> (\<exists>u. pu_byUP s u = Some c \<and> ps_CPSEID c = cp)"
  proof (cases "pu_byCP s cp")
    case None
    then show ?thesis using index_okI[OF pgwu_okD(2)[OF ok]] by (force simp: FindByCPSEID_pgwu_def findLocked_pgwu_def cp_keys_def)
  next
    case (Some u)
    obtain x where x: "pu_byUP s u = Some x" "ps_CPSEID x = cp" using index_okD[OF pgwu_okD(2)[OF ok] Some] by (auto simp: cp_keys_def)
    moreover have "u \<noteq> 0" using stored_pgwu[OF ok x(1)] by metis
    ultimately show ?thesis using Some index_okI[OF pgwu_okD(2)[OF ok], of _ c cp]
      by (auto simp: FindByCPSEID_pgwu_def findLocked_pgwu_def cp_keys_def)
  qed
  then show ?thesis using ok pgwu_ok_Create pgwu_ok_Reconcile pgwu_ok_Restore by blast
qed

text \<open>
  The operations that change the store through its participants, as data: the result of a successful one is the session
  as it is now stored, nothing for a deletion, which is what the persister was asked to commit as the successor of
  \<open>previous_pgwu\<close>; \<open>check_pgwu\<close> is the check of the arguments before the lock is taken.
\<close>

datatype pgwu_op =
  CreateOp Session_pgwu
| UpdateOp "64 word" "64 word" "(Session_pgwu \<Rightarrow> (pgwu_error, Session_pgwu) outcome) option"
| ReconcileOp "64 word" Session_pgwu
| DeleteOp "64 word" "64 word"

definition stored_pgwu_result :: "(pgwu_error, Session_pgwu) outcome \<times> 's \<Rightarrow> (pgwu_error, Session_pgwu option) outcome \<times> 's" where
  "stored_pgwu_result r = (map_outcome id Some (fst r), snd r)"

definition deleted_pgwu_result :: "(pgwu_error, unit) outcome \<times> 's \<Rightarrow> (pgwu_error, Session_pgwu option) outcome \<times> 's" where
  "deleted_pgwu_result r = (map_outcome id (\<lambda>u. None) (fst r), snd r)"

fun run_pgwu :: "('a, 'w) Participants \<Rightarrow> pgwu_op \<Rightarrow> ('a, 'w) Store_pgwu \<Rightarrow>
    (pgwu_error, Session_pgwu option) outcome \<times> ('a, 'w) Store_pgwu" where
  "run_pgwu P (CreateOp c) s = stored_pgwu_result (Create_pgwu P c s)"
| "run_pgwu P (UpdateOp u rv mutate) s = stored_pgwu_result (Update_pgwu P u rv mutate s)"
| "run_pgwu P (ReconcileOp cp c) s = stored_pgwu_result (Reconcile_pgwu P cp c s)"
| "run_pgwu P (DeleteOp u rv) s = deleted_pgwu_result (Delete_pgwu P u rv s)"

fun previous_pgwu :: "pgwu_op \<Rightarrow> ('a, 'w) Store_pgwu \<Rightarrow> Session_pgwu option" where
  "previous_pgwu (CreateOp c) s = None"
| "previous_pgwu (UpdateOp u rv mutate) s = pu_byUP s u"
| "previous_pgwu (ReconcileOp cp c) s = FindByCPSEID_pgwu s cp"
| "previous_pgwu (DeleteOp u rv) s = pu_byUP s u"

fun check_pgwu :: "pgwu_op \<Rightarrow> (pgwu_error, unit) outcome" where
  "check_pgwu (CreateOp c) = validate_pgwu (canonicalize_pgwu c)"
| "check_pgwu (UpdateOp u rv mutate) = (if mutate = None then Err ErrInvalidSession_pgwu else Ok ())"
| "check_pgwu (ReconcileOp cp c) = (if cp = 0 \<or> ps_CPSEID c \<noteq> cp then Err ErrInvalidSession_pgwu else Ok ())"
| "check_pgwu (DeleteOp u rv) = Ok ()"

definition commits_pgwu :: "pgwu_op \<Rightarrow> ('a, 'w) Store_pgwu \<Rightarrow> bool" where
  "commits_pgwu op s \<longleftrightarrow> (\<exists>nxt next_store. \<forall>P. run_pgwu P op s =
     (case commit_pgwu P (previous_pgwu op s) nxt s of
        (Ok u, s1) \<Rightarrow> (Ok nxt, next_store s1) | (Err e, s1) \<Rightarrow> (Err e, s1) | (Panic, s1) \<Rightarrow> (Panic, s1)))"

lemma commits_pgwuI:
  "(\<And>P. run_pgwu P op s = (case commit_pgwu P (previous_pgwu op s) nxt s of
     (Ok u, s1) \<Rightarrow> (Ok nxt, next_store s1) | (Err e, s1) \<Rightarrow> (Err e, s1) | (Panic, s1) \<Rightarrow> (Panic, s1))) \<Longrightarrow> commits_pgwu op s"
  unfolding commits_pgwu_def by blast

definition leaves_pgwu :: "pgwu_op \<Rightarrow> ('a, 'w) Store_pgwu \<Rightarrow> bool" where
  "leaves_pgwu op s \<longleftrightarrow> (\<forall>P. \<exists>r. run_pgwu P op s = (r, s))"

lemma Create_split_pgwu: "leaves_pgwu (CreateOp c) s \<or> commits_pgwu (CreateOp c) s"
proof (cases "validate_pgwu (canonicalize_pgwu c) = Ok () \<and> \<not> pu_poisoned s \<and> pu_byUP s (ps_UPSEID (canonicalize_pgwu c)) = None \<and>
    pu_byCP s (ps_CPSEID (canonicalize_pgwu c)) = None \<and> pu_downlink s (ps_UEIPv4 (canonicalize_pgwu c)) = None \<and>
    checkTunnelConflicts_pgwu (canonicalize_pgwu c) 0 s = Ok () \<and> int (card (dom (pu_byUP s))) < pu_max s")
  case True
  let ?c = "(canonicalize_pgwu c)\<lparr>ps_Revision := 1\<rparr>"
  let ?next = "\<lambda>s1. let s2 = install_pgwu ?c (s1\<lparr>pu_byCP := (pu_byCP s1)(ps_CPSEID ?c \<mapsto> ps_UPSEID ?c)\<rparr>)
    in s2\<lparr>pu_installed := pu_installed s2 + 1\<rparr>"
  have "run_pgwu P (CreateOp c) s = (case commit_pgwu P (previous_pgwu (CreateOp c) s) (Some ?c) s of
      (Ok u, s1) \<Rightarrow> (Ok (Some ?c), ?next s1) | (Err e, s1) \<Rightarrow> (Err e, s1) | (Panic, s1) \<Rightarrow> (Panic, s1))" for P
    using True by (simp add: Create_pgwu_def stored_pgwu_result_def Let_def split: prod.split outcome.split)
  then show ?thesis by (intro disjI2 commits_pgwuI)
next
  case False
  then have "\<exists>r. Create_pgwu P c s = (r, s)" for P
    by (cases "validate_pgwu (canonicalize_pgwu c)"; cases "checkTunnelConflicts_pgwu (canonicalize_pgwu c) 0 s")
      (auto simp: Create_pgwu_def Let_def)
  then have "snd (Create_pgwu P c s) = s" for P by (metis snd_conv)
  then show ?thesis by (simp add: leaves_pgwu_def stored_pgwu_result_def)
qed

lemma Update_split_pgwu: "leaves_pgwu (UpdateOp u rv mutate) s \<or> commits_pgwu (UpdateOp u rv mutate) s"
proof (cases "\<exists>f current nxt. mutate = Some f \<and> \<not> pu_poisoned s \<and> pu_byUP s u = Some current \<and> ps_Revision current = rv \<and> f current = Ok nxt \<and>
    (let n = canonicalize_pgwu nxt in ps_CPSEID n = ps_CPSEID current \<and> ps_UPSEID n = ps_UPSEID current \<and> ps_UEIPv4 n = ps_UEIPv4 current \<and>
      ps_Local n = ps_Local current \<and> ps_ControlPeer n = ps_ControlPeer current \<and> validate_pgwu n = Ok () \<and> checkTunnelConflicts_pgwu n u s = Ok ())")
  case True
  then obtain f current nxt where f: "mutate = Some f" "\<not> pu_poisoned s" "pu_byUP s u = Some current" "ps_Revision current = rv" "f current = Ok nxt"
    and n: "ps_CPSEID (canonicalize_pgwu nxt) = ps_CPSEID current" "ps_UPSEID (canonicalize_pgwu nxt) = ps_UPSEID current"
      "ps_UEIPv4 (canonicalize_pgwu nxt) = ps_UEIPv4 current" "ps_Local (canonicalize_pgwu nxt) = ps_Local current"
      "ps_ControlPeer (canonicalize_pgwu nxt) = ps_ControlPeer current" "validate_pgwu (canonicalize_pgwu nxt) = Ok ()"
      "checkTunnelConflicts_pgwu (canonicalize_pgwu nxt) u s = Ok ()"
    by (auto simp: Let_def)
  let ?c = "(canonicalize_pgwu nxt)\<lparr>ps_Revision := ps_Revision (canonicalize_pgwu nxt) + 1\<rparr>"
  have "run_pgwu P (UpdateOp u rv mutate) s = (case commit_pgwu P (previous_pgwu (UpdateOp u rv mutate) s) (Some ?c) s of
      (Ok v, s1) \<Rightarrow> (Ok (Some ?c), install_pgwu ?c (retire_pgwu u current s1)) | (Err e, s1) \<Rightarrow> (Err e, s1) | (Panic, s1) \<Rightarrow> (Panic, s1))" for P
    using f n by (simp add: Update_pgwu_def stored_pgwu_result_def Let_def split: prod.split outcome.split)
  then show ?thesis by (intro disjI2 commits_pgwuI)
next
  case False
  have "snd (Update_pgwu P u rv mutate s) = s" for P
  proof (cases "\<exists>f current nxt. mutate = Some f \<and> \<not> pu_poisoned s \<and> pu_byUP s u = Some current \<and> ps_Revision current = rv \<and> f current = Ok nxt")
    case True
    then obtain f current nxt where f: "mutate = Some f" "\<not> pu_poisoned s" "pu_byUP s u = Some current" "ps_Revision current = rv" "f current = Ok nxt"
      by blast
    with False show ?thesis
      using validate_pgwu_cases[of "canonicalize_pgwu nxt"]
      by (cases "checkTunnelConflicts_pgwu (canonicalize_pgwu nxt) u s") (auto simp: Update_pgwu_def Let_def)
  next
    case False
    then show ?thesis
      by (cases mutate; cases "pu_byUP s u"; cases "the mutate (the (pu_byUP s u))") (auto simp: Update_pgwu_def)
  qed
  then show ?thesis by (simp add: leaves_pgwu_def stored_pgwu_result_def)
qed

lemma Reconcile_split_pgwu:
  assumes ok: "pgwu_ok s"
  shows "leaves_pgwu (ReconcileOp cp c) s \<or> commits_pgwu (ReconcileOp cp c) s"
proof (cases "cp \<noteq> 0 \<and> ps_CPSEID c = cp \<and> \<not> pu_poisoned s \<and> (\<exists>u current. pu_byCP s cp = Some u \<and> pu_byUP s u = Some current)")
  case True
  then obtain u current where g: "cp \<noteq> 0" "ps_CPSEID c = cp" "\<not> pu_poisoned s" "pu_byCP s cp = Some u" "pu_byUP s u = Some current" by blast
  have "u \<noteq> 0" using stored_pgwu[OF ok g(5)] by metis
  then have prev: "previous_pgwu (ReconcileOp cp c) s = Some current"
    using g by (simp add: FindByCPSEID_pgwu_def findLocked_pgwu_def)
  define n where "n = (canonicalize_pgwu c)\<lparr>ps_UPSEID := u\<rparr>"
  define go where "go \<longleftrightarrow> ps_UEIPv4 n = ps_UEIPv4 current \<and> ps_Local n = ps_Local current \<and> ps_ControlPeer n = ps_ControlPeer current \<and>
    validate_pgwu n = Ok () \<and> checkTunnelConflicts_pgwu n u s = Ok () \<and> n\<lparr>ps_Revision := ps_Revision current\<rparr> \<noteq> current"
  let ?c = "n\<lparr>ps_Revision := ps_Revision current + 1\<rparr>"
  show ?thesis
  proof (cases go)
    case True
    then have "run_pgwu P (ReconcileOp cp c) s = (case commit_pgwu P (previous_pgwu (ReconcileOp cp c) s) (Some ?c) s of
        (Ok v, s1) \<Rightarrow> (Ok (Some ?c), install_pgwu ?c (retire_pgwu u current s1)) | (Err e, s1) \<Rightarrow> (Err e, s1) | (Panic, s1) \<Rightarrow> (Panic, s1))" for P
      using g unfolding prev by (simp add: Reconcile_pgwu_def stored_pgwu_result_def go_def Let_def flip: n_def split: prod.split outcome.split)
    then show ?thesis by (intro disjI2 commits_pgwuI)
  next
    case False
    then have "snd (Reconcile_pgwu P cp c s) = s" for P
      using g validate_pgwu_cases[of n]
      by (cases "checkTunnelConflicts_pgwu n u s") (auto simp: Reconcile_pgwu_def go_def Let_def simp flip: n_def)
    then show ?thesis by (simp add: leaves_pgwu_def stored_pgwu_result_def)
  qed
next
  case False
  then have "snd (Reconcile_pgwu P cp c s) = s" for P
    by (cases "pu_byCP s cp"; cases "pu_byUP s (the (pu_byCP s cp))") (auto simp: Reconcile_pgwu_def Let_def)
  then show ?thesis by (simp add: leaves_pgwu_def stored_pgwu_result_def)
qed

lemma Delete_split_pgwu: "leaves_pgwu (DeleteOp u rv) s \<or> commits_pgwu (DeleteOp u rv) s"
proof (cases "\<not> pu_poisoned s \<and> (\<exists>current. pu_byUP s u = Some current \<and> ps_Revision current = rv)")
  case True
  then obtain current where c: "\<not> pu_poisoned s" "pu_byUP s u = Some current" "ps_Revision current = rv" by blast
  let ?next = "\<lambda>s1. let s2 = retire_pgwu u current s1;
      s2 = s2\<lparr>pu_byUP := (pu_byUP s2)(u := None), pu_byCP := (pu_byCP s2)(ps_CPSEID current := None),
        pu_generations := (pu_generations s2)(u := None)\<rparr>;
      s2 = notify_pgwu (DeleteSession u) s2 in s2\<lparr>pu_removed := pu_removed s2 + 1\<rparr>"
  have "run_pgwu P (DeleteOp u rv) s = (case commit_pgwu P (previous_pgwu (DeleteOp u rv) s) None s of
      (Ok v, s1) \<Rightarrow> (Ok None, ?next s1) | (Err e, s1) \<Rightarrow> (Err e, s1) | (Panic, s1) \<Rightarrow> (Panic, s1))" for P
    using c by (simp add: Delete_pgwu_def deleted_pgwu_result_def Let_def split: prod.split outcome.split)
  then show ?thesis by (intro disjI2 commits_pgwuI)
next
  case False
  then have "snd (Delete_pgwu P u rv s) = s" for P by (auto simp: Delete_pgwu_def split: option.split)
  then show ?thesis by (simp add: leaves_pgwu_def deleted_pgwu_result_def)
qed

lemma run_pgwu_split: "pgwu_ok s \<Longrightarrow> leaves_pgwu op s \<or> commits_pgwu op s"
  using Create_split_pgwu Update_split_pgwu Reconcile_split_pgwu Delete_split_pgwu by (cases op) blast+

text \<open>The outcomes of \<^verbatim>\<open>commit\<close>: a refusal changes the participants and the poison flag only.\<close>

lemma commit_pgwu_refused:
  assumes "fst (commit_pgwu P previous nxt s) \<noteq> Ok ()"
  shows "\<exists>a w b. snd (commit_pgwu P previous nxt s) = s\<lparr>pu_applier := a, pu_persister := w, pu_poisoned := b\<rparr>"
proof (cases "apply_pgwu P previous nxt s")
  case (Pair r s1)
  define a where "a = pu_applier s1"
  have s1: "s1 = s\<lparr>pu_applier := a\<rparr>"
    using Pair by (auto simp: a_def apply_pgwu_def split: option.splits prod.splits bool.splits)
  have same: "s1 = s\<lparr>pu_applier := a, pu_persister := pu_persister s, pu_poisoned := pu_poisoned s\<rparr>" by (simp add: s1)
  show ?thesis
  proof (cases "r = Ok () \<and> pu_persister s1 \<noteq> None")
    case True
    then obtain w where w: "pu_persister s1 = Some w" by blast
    obtain b w' where c: "pa_Commit P previous nxt w = (b, w')" by fastforce
    have p: "apply_pgwu P previous nxt s = (Ok (), s1)" using True Pair by simp
    have "\<not> b" using assms unfolding commit_pgwu_def p by (simp add: w c split: bool.splits)
    then have "snd (commit_pgwu P previous nxt s) =
        s1\<lparr>pu_applier := map_option (\<lambda>a. snd (pa_Apply P nxt previous a)) (pu_applier s1), pu_persister := Some w', pu_poisoned := True\<rparr>"
      unfolding commit_pgwu_def p by (simp add: w c)
    then have "snd (commit_pgwu P previous nxt s) =
        s\<lparr>pu_applier := map_option (\<lambda>a. snd (pa_Apply P nxt previous a)) a, pu_persister := Some w', pu_poisoned := True\<rparr>"
      unfolding s1 by simp
    then show ?thesis by blast
  next
    case False
    then have "snd (commit_pgwu P previous nxt s) = s1"
      using Pair by (cases r) (auto simp: commit_pgwu_def)
    with same show ?thesis by metis
  qed
qed

text \<open>C20: (error) A failed durable commit is final, for each of Create, Update, Reconcile and Delete: when the operation would
  succeed with a persister that works, would change the sessions, and its persister refuses to commit that change, the
  operation returns the persistence error, the data plane is asked to undo what it had applied, the store is poisoned, and
  nothing else of it changes, neither the sessions nor the rules the packets meet; more generally an operation that does not
  succeed changes only the participants and the poison flag. A poisoned store refuses every such operation with the error
  \<^verbatim>\<open>ErrPoisoned\<close> (or, where the arguments are refused before the store is looked at, with their error), refuses to be restored
  with \<^verbatim>\<open>ErrPoisoned\<close>, and stays exactly as it is.\<close>

theorem pgwu_poisoned_is_final:
  assumes "pgwu_reach P s" and "W = P\<lparr>pa_Commit := (\<lambda>_ _ w. (True, w))\<rparr>"
  shows "(fst (run_pgwu W op s) = Ok nxt \<and> pu_byUP (snd (run_pgwu W op s)) \<noteq> pu_byUP s \<and> pu_persister s = Some w \<and>
      \<not> fst (pa_Commit P (previous_pgwu op s) nxt w) \<longrightarrow>
      run_pgwu P op s = (Err ErrPersistence_pgwu, s\<lparr>pu_persister := Some (snd (pa_Commit P (previous_pgwu op s) nxt w)),
        pu_applier := map_option (\<lambda>a. snd (pa_Apply P nxt (previous_pgwu op s) (snd (pa_Apply P (previous_pgwu op s) nxt a)))) (pu_applier s),
        pu_poisoned := True\<rparr>)) \<and>
    (\<not> is_Ok (fst (run_pgwu P op s)) \<longrightarrow>
      (\<exists>a w b. snd (run_pgwu P op s) = s\<lparr>pu_applier := a, pu_persister := w, pu_poisoned := b\<rparr>)) \<and>
    (pu_poisoned s \<longrightarrow> run_pgwu P op s =
        (case check_pgwu op of Ok u \<Rightarrow> Err ErrPoisoned_pgwu | Err e \<Rightarrow> Err e | Panic \<Rightarrow> Panic, s) \<and>
      Restore_pgwu P recovered s = (Err ErrPoisoned_pgwu, s))"
proof (intro conjI impI)
  have ok: "pgwu_ok s" by (rule pgwu_reach_ok[OF assms(1)])
  note split = run_pgwu_split[OF ok, of op]
  have id: "s = s\<lparr>pu_applier := pu_applier s, pu_persister := pu_persister s, pu_poisoned := pu_poisoned s\<rparr>" by simp
  show "\<exists>a w b. snd (run_pgwu P op s) = s\<lparr>pu_applier := a, pu_persister := w, pu_poisoned := b\<rparr>"
    if "\<not> is_Ok (fst (run_pgwu P op s))"
    using split
  proof
    assume "leaves_pgwu op s"
    then have "snd (run_pgwu P op s) = s" unfolding leaves_pgwu_def by (metis snd_conv)
    then show ?thesis using id by metis
  next
    assume "commits_pgwu op s"
    then obtain n k where eq: "run_pgwu P op s = (case commit_pgwu P (previous_pgwu op s) n s of
        (Ok u, s1) \<Rightarrow> (Ok n, k s1) | (Err e, s1) \<Rightarrow> (Err e, s1) | (Panic, s1) \<Rightarrow> (Panic, s1))"
      unfolding commits_pgwu_def by blast
    then have "fst (commit_pgwu P (previous_pgwu op s) n s) \<noteq> Ok ()"
        "snd (run_pgwu P op s) = snd (commit_pgwu P (previous_pgwu op s) n s)"
      using that by (auto split: prod.splits outcome.splits)
    then show ?thesis using commit_pgwu_refused by metis
  qed
  show "run_pgwu P op s = (Err ErrPersistence_pgwu, s\<lparr>pu_persister := Some (snd (pa_Commit P (previous_pgwu op s) nxt w)),
        pu_applier := map_option (\<lambda>a. snd (pa_Apply P nxt (previous_pgwu op s) (snd (pa_Apply P (previous_pgwu op s) nxt a)))) (pu_applier s),
        pu_poisoned := True\<rparr>)"
    if h: "fst (run_pgwu W op s) = Ok nxt \<and> pu_byUP (snd (run_pgwu W op s)) \<noteq> pu_byUP s \<and> pu_persister s = Some w \<and>
      \<not> fst (pa_Commit P (previous_pgwu op s) nxt w)"
  proof -
    have "\<not> leaves_pgwu op s" using h unfolding leaves_pgwu_def by (metis snd_conv)
    with split obtain n k where eq: "\<forall>P. run_pgwu P op s = (case commit_pgwu P (previous_pgwu op s) n s of
        (Ok u, s1) \<Rightarrow> (Ok n, k s1) | (Err e, s1) \<Rightarrow> (Err e, s1) | (Panic, s1) \<Rightarrow> (Panic, s1))"
      unfolding commits_pgwu_def by blast
    then have W: "fst (commit_pgwu W (previous_pgwu op s) n s) = Ok ()" "n = nxt"
      using h by (auto split: prod.splits outcome.splits)
    have a: "\<exists>a'. pa_Apply P (previous_pgwu op s) nxt a = (True, a')" if "pu_applier s = Some a" for a
      using W that by (auto simp: commit_pgwu_def apply_pgwu_def assms(2) split: prod.splits bool.splits)
    show ?thesis
      using h a W(2) by (cases "pu_applier s"; cases "pa_Commit P (previous_pgwu op s) nxt w")
        (auto simp: eq commit_pgwu_def apply_pgwu_def split: bool.splits)
  qed
  show "run_pgwu P op s = (case check_pgwu op of Ok u \<Rightarrow> Err ErrPoisoned_pgwu | Err e \<Rightarrow> Err e | Panic \<Rightarrow> Panic, s)" if "pu_poisoned s"
  proof (cases op)
    case (CreateOp c)
    then show ?thesis using that validate_pgwu_cases[of "canonicalize_pgwu c"]
      by (auto simp: Create_pgwu_def stored_pgwu_result_def Let_def)
  next
    case (UpdateOp u rv mutate)
    then show ?thesis using that by (cases mutate) (simp_all add: Update_pgwu_def stored_pgwu_result_def)
  qed (use that in \<open>simp_all add: Reconcile_pgwu_def Delete_pgwu_def stored_pgwu_result_def deleted_pgwu_result_def Let_def\<close>)
  show "Restore_pgwu P recovered s = (Err ErrPoisoned_pgwu, s)" if "pu_poisoned s" using that by (simp add: Restore_pgwu_def)
qed

text \<open>A store without participants, a session with a default bearer and one for UDP, and a store whose log refuses.\<close>

definition quiet_pgwu :: "(unit, unit) Participants" where
  "quiet_pgwu = \<lparr>pa_Apply = (\<lambda>_ _ a. (True, a)), pa_Reconcile = None, pa_Commit = (\<lambda>_ _ w. (False, w))\<rparr>"

definition udp_flow :: FlowFilter where
  "udp_flow = \<lparr>ff_PDRID = 3, ff_Precedence = 10, ff_Direction = TFTDirectionBidirectional,
     ff_Filter = (unfiltered udp_filter)\<lparr>vf_Direction := TFTDirectionBidirectional, vf_HasProtocol := True, vf_Protocol := 17\<rparr>\<rparr>"

definition udp_bearer :: Bearer_pgwu where
  "udp_bearer = \<lparr>pb_Local = \<lparr>pt_TEID = 11, pt_IP = Addr4 0x0a000001\<rparr>, pb_Remote = \<lparr>pt_TEID = 12, pt_IP = Addr4 0x0a000002\<rparr>,
     pb_UplinkFARID = 3, pb_DownlinkFARID = 4, pb_UplinkGateOpen = True, pb_DownlinkGateOpen = True,
     pb_MaxUplinkBitsPerSecond = 0, pb_MaxDownlinkBitsPerSecond = 0, pb_QERID = 2, pb_URRID = 2, pb_MeasureVolume = True,
     pb_MeasureDuration = False, pb_UsageReportingThreshold = 0, pb_QCI = 1, pb_ARP = 2, pb_Filters = [udp_flow]\<rparr>"

definition udp_session :: Session_pgwu where
  "udp_session = \<lparr>ps_CPSEID = 5, ps_UPSEID = 7, ps_Revision = 1, ps_UEIPv4 = Addr4 0x0a000001,
     ps_Local = \<lparr>pt_TEID = 1, pt_IP = Addr4 0x0a000001\<rparr>, ps_Remote = \<lparr>pt_TEID = 2, pt_IP = Addr4 0x0a000002\<rparr>,
     ps_UplinkPDRID = 1, ps_DownlinkPDRID = 2, ps_UplinkFARID = 1, ps_DownlinkFARID = 2, ps_UplinkGateOpen = True,
     ps_DownlinkGateOpen = True, ps_MaxUplinkBitsPerSecond = 0, ps_MaxDownlinkBitsPerSecond = 0, ps_QERID = 1, ps_URRID = 1,
     ps_MeasureVolume = True, ps_MeasureDuration = False, ps_UsageReportingThreshold = 0,
     ps_DedicatedBearers = Some [udp_bearer], ps_ControlPeer = (AddrZero, 0)\<rparr>"

lemma udp_session_canonical: "canonicalize_pgwu udp_session = udp_session"
  by code_simp

lemma udp_session_valid: "validate_pgwu udp_session = Ok ()"
  by code_simp

abbreviation udp_store :: "(unit, unit) Store_pgwu" where
  "udp_store \<equiv> snd (Create_pgwu quiet_pgwu udp_session (NewStoreWithParticipants_pgwu 0 None None))"

lemma udp_store_create:
  fixes P :: "('a, 'b) Participants"
  shows "Create_pgwu P udp_session (NewStoreWithParticipants_pgwu 0 None persister) =
   (case commit_pgwu P None (Some udp_session) (NewStoreWithParticipants_pgwu 0 None persister) of
     (Err e, s1) \<Rightarrow> (Err e, s1) | (Panic, s1) \<Rightarrow> (Panic, s1)
   | (Ok _, s1) \<Rightarrow> let s2 = install_pgwu udp_session (s1\<lparr>pu_byCP := (pu_byCP s1)(5 \<mapsto> 7)\<rparr>) in
       (Ok udp_session, s2\<lparr>pu_installed := pu_installed s2 + 1\<rparr>))"
proof -
  define s0 :: "('a, 'b) Store_pgwu" where "s0 = NewStoreWithParticipants_pgwu 0 None persister"
  have f: "\<not> pu_poisoned s0" "pu_byUP s0 = Map.empty" "pu_byCP s0 = Map.empty" "pu_downlink s0 = Map.empty" "pu_max s0 = 1000000"
    by (simp_all add: s0_def NewStoreWithParticipants_pgwu_def DefaultMaxSessions_pgwu_def)
  have chk: "checkTunnelConflicts_pgwu udp_session 0 s0 = Ok ()"
    by (simp add: checkTunnelConflicts_pgwu_def s0_def NewStoreWithParticipants_pgwu_def)
  have rev: "udp_session\<lparr>ps_Revision := 1\<rparr> = udp_session" "ps_CPSEID udp_session = 5" "ps_UPSEID udp_session = 7"
    by (simp_all add: udp_session_def)
  show ?thesis
    unfolding Create_pgwu_def udp_session_canonical udp_session_valid Let_def s0_def[symmetric] chk rev outcome.case by (simp add: f)
qed

lemma udp_store_eq: "udp_store = (let s2 = install_pgwu udp_session ((NewStoreWithParticipants_pgwu 0 None None)\<lparr>pu_byCP := [5 \<mapsto> 7]\<rparr>) in
    s2\<lparr>pu_installed := pu_installed s2 + 1\<rparr>)"
proof -
  have "commit_pgwu quiet_pgwu None (Some udp_session) (NewStoreWithParticipants_pgwu 0 None None) = (Ok (), NewStoreWithParticipants_pgwu 0 None None)"
    by (simp add: commit_pgwu_def apply_pgwu_def NewStoreWithParticipants_pgwu_def)
  then show ?thesis unfolding udp_store_create by (simp add: Let_def) (simp add: NewStoreWithParticipants_pgwu_def)
qed

lemma udp_store_reach: "pgwu_reach quiet_pgwu udp_store"
  by (intro reach_create reach_new)

theorem pgwu_lookup_exact_witness:
  "LookupUplinkPacket_pgwu udp_store 11 udp_packet = Ok (Some (compileDedicatedRule udp_session udp_bearer 0)) \<and>
   serves_uplink udp_store 11 udp_packet (compileDedicatedRule udp_session udp_bearer 0)"
proof -
  have "LookupUplinkPacket_pgwu udp_store 11 udp_packet = Ok (Some (compileDedicatedRule udp_session udp_bearer 0))"
    unfolding udp_store_eq by code_simp
  then show ?thesis using pgwu_lookup_exact[OF udp_store_reach, of 11 udp_packet] by blast
qed

theorem pgwu_rules_invariant_witness:
  "pgwu_ok udp_store \<and> fst (Reconcile_pgwu quiet_pgwu 5 udp_session udp_store) \<noteq> Panic"
  using pgwu_rules_invariant[OF udp_store_reach, of 5] by blast

theorem pgwu_poisoned_is_final_witness:
  "fst (Create_pgwu quiet_pgwu udp_session (NewStoreWithParticipants_pgwu 0 None (Some ()))) = Err ErrPersistence_pgwu \<and>
   pu_poisoned (snd (Create_pgwu quiet_pgwu udp_session (NewStoreWithParticipants_pgwu 0 None (Some ()))))"
proof -
  let ?s = "NewStoreWithParticipants_pgwu 0 None (Some ()) :: (unit, unit) Store_pgwu" and ?op = "CreateOp udp_session"
  let ?W = "quiet_pgwu\<lparr>pa_Commit := (\<lambda>_ _ w. (True, w))\<rparr>"
  have c: "commit_pgwu ?W None (Some udp_session) ?s = (Ok (), ?s)"
    by (simp add: commit_pgwu_def apply_pgwu_def quiet_pgwu_def NewStoreWithParticipants_pgwu_def)
  have W: "fst (run_pgwu ?W ?op ?s) = Ok (Some udp_session)" "pu_byUP (snd (run_pgwu ?W ?op ?s)) \<noteq> pu_byUP ?s"
    unfolding run_pgwu.simps udp_store_create c
    by (simp_all add: stored_pgwu_result_def Let_def install_fields_pgwu NewStoreWithParticipants_pgwu_def udp_session_def)
  have "pu_persister ?s = Some ()" "\<not> fst (pa_Commit quiet_pgwu (previous_pgwu ?op ?s) (Some udp_session) ())"
    by (simp_all add: NewStoreWithParticipants_pgwu_def quiet_pgwu_def)
  with W pgwu_poisoned_is_final[OF reach_new[of quiet_pgwu 0 None "Some ()"] refl, of ?op "Some udp_session" "()"]
  have r: "fst (run_pgwu quiet_pgwu ?op ?s) = Err ErrPersistence_pgwu" "pu_poisoned (snd (run_pgwu quiet_pgwu ?op ?s))" by auto
  then show ?thesis by (cases "fst (Create_pgwu quiet_pgwu udp_session ?s)") (auto simp: stored_pgwu_result_def)
qed

end
