(* ===== verification/Control_Journal.thy ===== *)
theory Control_Journal
  imports Sha256
begin

unbundle bit_operations_syntax

text \<open>
  The durable journal of the control planes, \<^verbatim>\<open>internal/controlstate/journal.go\<close>: a header that names component and
  configuration, then frames with a length and a CRC-32C checksum; appending with fsync before acknowledgement, recovery
  of a torn tail, startup epochs with a recovery counter, and compaction by an atomic rename.

  A file is the list of its octets. The journal's state distinguishes what an fsync has made durable from what was
  written since, so that the files a crash may leave can be stated. What the operating system answers (octets taken by a
  \<^verbatim>\<open>write\<close>, the result of \<^verbatim>\<open>fsync\<close>, \<^verbatim>\<open>ftruncate\<close> and of the steps of a compaction) is an argument of the operations. The
  ownership checks and locks of the files and directories, and their paths, are not modelled; reads of the open file
  succeed.
\<close>

section \<open>The checksum\<close>

text \<open>\<^verbatim>\<open>hash/crc32\<close> with the Castagnoli polynomial, reflected: the table entry of an octet, and the update per octet.\<close>

fun crc_shift :: "nat \<Rightarrow> 32 word \<Rightarrow> 32 word" where
  "crc_shift 0 crc = crc"
| "crc_shift (Suc n) crc = crc_shift n (if crc AND 1 = 1 then drop_bit 1 crc XOR 0x82f63b78 else drop_bit 1 crc)"

definition crc_step :: "32 word \<Rightarrow> byte \<Rightarrow> 32 word" where
  "crc_step crc b = crc_shift 8 (ucast ((ucast crc :: byte) XOR b)) XOR drop_bit 8 crc"

definition crc32c :: "byte list \<Rightarrow> 32 word" where
  "crc32c p = NOT (foldl crc_step (NOT 0) p)"

section \<open>Configuration and state\<close>

definition headerBytes :: nat where "headerBytes = 48"
definition recordHeaderBytes :: nat where "recordHeaderBytes = 8"
definition journalFormatVersion :: byte where "journalFormatVersion = 1"
definition recordFormatVersion :: byte where "recordFormatVersion = 1"
definition recordTypeBoot :: byte where "recordTypeBoot = 1"
definition recordTypeData :: byte where "recordTypeData = 2"
definition DefaultMaxBytes :: int where "DefaultMaxBytes = 1073741824"
definition DefaultMaxRecord :: int where "DefaultMaxRecord = 1048576"

lemmas journal_constants = headerBytes_def recordHeaderBytes_def journalFormatVersion_def recordFormatVersion_def
  recordTypeBoot_def recordTypeData_def

text \<open>The errors of the journal; \<open>Refused e\<close> wraps an error of the replay callback.\<close>

datatype 'e journal_error = ErrCorrupt_journal | ErrCapacity_journal | InvalidConfig | ClosedJournal | FailedJournal
  | NotStarted | RecordLength | FileError | ShortWrite | Refused 'e

record Config_journal =
  jc_Magic :: gostring
  jc_Identity :: "byte list"
  jc_MaxBytes :: int
  jc_MaxRecordBytes :: int
  jc_RecoverySeed :: byte

record Stats_journal =
  js_Bytes :: int
  js_Records :: "64 word"
  js_DataRecords :: "64 word"
  js_Starts :: "64 word"
  js_Compactions :: "64 word"
  js_RecoveryCounter :: byte
  js_RecoveredTail :: bool

text \<open>
  The open file is \<open>jn_synced @ jn_unsynced\<close>; \<open>jn_replaced\<close> is the file that a compaction has renamed away when the
  rename is not known to be durable.
\<close>

record Journal =
  jn_synced :: "byte list"
  jn_unsynced :: "byte list"
  jn_replaced :: "byte list option"
  jn_header :: "byte list"
  jn_maxBytes :: int
  jn_maxRecord :: int
  jn_stats :: Stats_journal
  jn_failed :: bool
  jn_started :: bool
  jn_closed :: bool

definition normalizeConfig :: "Config_journal \<Rightarrow> ('e journal_error, Config_journal) outcome" where
  "normalizeConfig config =
     (if length (jc_Magic config) \<noteq> 8 then Err InvalidConfig
      else if length (jc_Identity config) = 0 then Err InvalidConfig
      else
        let config = (if jc_MaxBytes config = 0 then config\<lparr>jc_MaxBytes := DefaultMaxBytes\<rparr> else config);
            config = (if jc_MaxRecordBytes config = 0 then config\<lparr>jc_MaxRecordBytes := DefaultMaxRecord\<rparr> else config) in
        if jc_MaxRecordBytes config < 64 \<or> jc_MaxRecordBytes config > 67108864 then Err InvalidConfig
        else if jc_MaxBytes config < int (headerBytes + recordHeaderBytes + 3) then Err InvalidConfig
        else Ok config)"

section \<open>Header and frames\<close>

definition makeHeader :: "gostring \<Rightarrow> byte list \<Rightarrow> byte list" where
  "makeHeader magic identity =
     (let body = take 8 (magic @ replicate 8 0) @ [journalFormatVersion, 0, 0, 0] @ Sum256 identity in
      body @ put32 (crc32c body))"

definition makeFrame :: "byte list \<Rightarrow> byte list" where
  "makeFrame payload = put32 (of_nat (length payload)) @ put32 (crc32c payload) @ payload"

definition DataFrameBytes :: "int \<Rightarrow> int" where
  "DataFrameBytes dataLength = (if dataLength < 0 then 0 else int (recordHeaderBytes + 2) + dataLength)"

definition equalBytes :: "byte list \<Rightarrow> byte list \<Rightarrow> bool" where
  "equalBytes left right \<longleftrightarrow> length left = length right \<and>
     foldl (\<lambda>difference (l, r). difference OR (l XOR r)) 0 (zip left right) = 0"

section \<open>Writing\<close>

text \<open>
  \<^verbatim>\<open>writeFull\<close>: the calls of \<^verbatim>\<open>write\<close> take the given numbers of octets and report the given errors; a call beyond the
  list takes everything. The second component is what has reached the file.
\<close>

fun writeFull :: "(nat \<times> bool) list \<Rightarrow> byte list \<Rightarrow> ('e journal_error, unit) outcome \<times> byte list" where
  "writeFull writes [] = (Ok (), [])"
| "writeFull [] (b # bs) = (Ok (), b # bs)"
| "writeFull ((written, err) # writes) (b # bs) =
     (if err then (Err FileError, take written (b # bs))
      else if written = 0 then (Err ShortWrite, [])
      else case writeFull writes (drop written (b # bs)) of
        (r, tl_written) \<Rightarrow> (r, take written (b # bs) @ tl_written))"

text \<open>What the system answers to an append: the writes, and whether fsync succeeds.\<close>

record append_io =
  ai_writes :: "(nat \<times> bool) list"
  ai_sync :: bool

definition appendFrame :: "append_io \<Rightarrow> byte list \<Rightarrow> Journal \<Rightarrow> ('e journal_error, unit) outcome \<times> Journal" where
  "appendFrame io payload j =
     (let record = makeFrame payload in
      if js_Bytes (jn_stats j) + int (length record) > jn_maxBytes j then (Err ErrCapacity_journal, j)
      else case writeFull (ai_writes io) record of
        (Ok _, written) \<Rightarrow>
          if \<not> ai_sync io then (Err FileError, j\<lparr>jn_unsynced := jn_unsynced j @ written\<rparr>)
          else (Ok (), j\<lparr>jn_synced := jn_synced j @ jn_unsynced j @ written, jn_unsynced := [],
              jn_stats := (jn_stats j)\<lparr>js_Bytes := js_Bytes (jn_stats j) + int (length record),
                js_Records := js_Records (jn_stats j) + 1\<rparr>\<rparr>)
      | (Err e, written) \<Rightarrow> (Err e, j\<lparr>jn_unsynced := jn_unsynced j @ written\<rparr>)
      | (Panic, written) \<Rightarrow> (Panic, j\<lparr>jn_unsynced := jn_unsynced j @ written\<rparr>))"

definition Append_journal :: "append_io \<Rightarrow> byte list \<Rightarrow> Journal \<Rightarrow> ('e journal_error, unit) outcome \<times> Journal" where
  "Append_journal io data j =
     (if jn_closed j then (Err ClosedJournal, j)
      else if jn_failed j then (Err FailedJournal, j)
      else if \<not> jn_started j then (Err NotStarted, j)
      else if length data = 0 \<or> int (length data) > jn_maxRecord j then (Err RecordLength, j)
      else case appendFrame io (recordTypeData # recordFormatVersion # data) j of
        (Ok _, j1) \<Rightarrow> (Ok (), j1\<lparr>jn_stats := (jn_stats j1)\<lparr>js_DataRecords := js_DataRecords (jn_stats j1) + 1\<rparr>\<rparr>)
      | (Err e, j1) \<Rightarrow> (Err e, j1\<lparr>jn_failed := True\<rparr>)
      | (Panic, j1) \<Rightarrow> (Panic, j1))"

definition Start_journal :: "append_io \<Rightarrow> Journal \<Rightarrow> ('e journal_error, unit) outcome \<times> Journal" where
  "Start_journal io j =
     (if jn_closed j then (Err ClosedJournal, j)
      else if jn_failed j then (Err FailedJournal, j)
      else if jn_started j then (Ok (), j)
      else case appendFrame io [recordTypeBoot, recordFormatVersion, js_RecoveryCounter (jn_stats j)] j of
        (Ok _, j1) \<Rightarrow> (Ok (), j1\<lparr>jn_stats := (jn_stats j1)\<lparr>js_Starts := js_Starts (jn_stats j1) + 1\<rparr>, jn_started := True\<rparr>)
      | (Err e, j1) \<Rightarrow> (Err e, j1\<lparr>jn_failed := True\<rparr>)
      | (Panic, j1) \<Rightarrow> (Panic, j1))"

definition Close_journal :: "Journal \<Rightarrow> Journal" where
  "Close_journal j = j\<lparr>jn_closed := True\<rparr>"

section \<open>Compaction\<close>

definition NeedsCompaction :: "int \<Rightarrow> int \<Rightarrow> Journal \<Rightarrow> bool" where
  "NeedsCompaction snapshotFrameBytes nextDataLength j \<longleftrightarrow>
     \<not> (jn_closed j \<or> jn_failed j \<or> \<not> jn_started j \<or> snapshotFrameBytes < 0 \<or> nextDataLength < 1) \<and>
     (let compactBytes = int headerBytes + int (recordHeaderBytes + 3) + snapshotFrameBytes;
          bytes = js_Bytes (jn_stats j);
          projected = bytes + DataFrameBytes nextDataLength in
      if projected > jn_maxBytes j then compactBytes + DataFrameBytes nextDataLength \<le> jn_maxBytes j
      else bytes \<ge> jn_maxBytes j div 2 \<and> bytes - compactBytes \<ge> jn_maxBytes j div 4)"

text \<open>
  The system's answers to a compaction: a failure up to and including the rename (the replacement is removed and nothing
  else changes), a failed fsync of the directory after the rename, a failure to release the old file, or success.
\<close>

datatype compact_io = PrepareFails | DirectorySyncFails | ReleaseFails | Compacts

fun snapshot_bytes :: "int \<Rightarrow> int \<Rightarrow> byte list list \<Rightarrow> int \<Rightarrow> ('e journal_error, int) outcome" where
  "snapshot_bytes maxRecord maxBytes [] totalBytes = Ok totalBytes"
| "snapshot_bytes maxRecord maxBytes (record # records) totalBytes =
     (if length record = 0 \<or> int (length record) > maxRecord then Err RecordLength
      else let totalBytes = totalBytes + DataFrameBytes (int (length record)) in
        if totalBytes > maxBytes then Err ErrCapacity_journal else snapshot_bytes maxRecord maxBytes records totalBytes)"

definition snapshot_file :: "byte list \<Rightarrow> byte \<Rightarrow> byte list list \<Rightarrow> byte list" where
  "snapshot_file header counter records =
     header @ makeFrame [recordTypeBoot, recordFormatVersion, counter] @
     concat (map (\<lambda>record. makeFrame (recordTypeData # recordFormatVersion # record)) records)"

definition Compact :: "compact_io \<Rightarrow> byte list list \<Rightarrow> Journal \<Rightarrow> ('e journal_error, unit) outcome \<times> Journal" where
  "Compact io records j =
     (if jn_closed j then (Err ClosedJournal, j)
      else if jn_failed j then (Err FailedJournal, j)
      else if \<not> jn_started j then (Err NotStarted, j)
      else case snapshot_bytes (jn_maxRecord j) (jn_maxBytes j) records (int (headerBytes + recordHeaderBytes + 3)) of
        Err e \<Rightarrow> (Err e, j) | Panic \<Rightarrow> (Panic, j)
      | Ok totalBytes \<Rightarrow>
          if io = PrepareFails then (Err FileError, j)
          else
            let stats = jn_stats j;
                n = of_nat (length records);
                j1 = j\<lparr>jn_synced := snapshot_file (jn_header j) (js_RecoveryCounter stats) records, jn_unsynced := [],
                  jn_replaced := Some (jn_synced j @ jn_unsynced j),
                  jn_stats := stats\<lparr>js_Bytes := totalBytes, js_Records := js_Records stats + (n + 1),
                    js_DataRecords := js_DataRecords stats + n, js_Compactions := js_Compactions stats + 1\<rparr>\<rparr> in
            if io = DirectorySyncFails then (Err FileError, j1\<lparr>jn_failed := True\<rparr>)
            else if io = ReleaseFails then (Err FileError, j1\<lparr>jn_replaced := None, jn_failed := True\<rparr>)
            else (Ok (), j1\<lparr>jn_replaced := None\<rparr>))"

section \<open>Replay\<close>

text \<open>The variables of the replay loop, with the state \<open>'s\<close> of the callback.\<close>

record 's replay_state =
  rp_records :: "byte list list"
  rp_lastCounter :: byte
  rp_haveCounter :: bool
  rp_user :: 's
  rp_Starts :: "64 word"
  rp_DataRecords :: "64 word"
  rp_Records :: "64 word"

type_synonym ('s, 'e) consume = "64 word \<Rightarrow> byte list \<Rightarrow> 's \<Rightarrow> ('e, 's) outcome"

text \<open>A record whose frame has been verified: the version, the startup records and the data records.\<close>

definition replay_payload ::
  "('s, 'e) consume option \<Rightarrow> byte list \<Rightarrow> 's replay_state \<Rightarrow> ('e journal_error, 's replay_state) outcome" where
  "replay_payload consume payload st =
     (if payload ! 1 \<noteq> recordFormatVersion then Err ErrCorrupt_journal
      else andThen
        (if payload ! 0 = recordTypeBoot then
           if length payload \<noteq> 3 then Err ErrCorrupt_journal
           else if rp_haveCounter st \<and> payload ! 2 \<noteq> rp_lastCounter st + 1 then Err ErrCorrupt_journal
           else Ok (st\<lparr>rp_lastCounter := payload ! 2, rp_haveCounter := True, rp_Starts := rp_Starts st + 1\<rparr>)
         else if payload ! 0 = recordTypeData then
           if \<not> rp_haveCounter st then Err ErrCorrupt_journal
           else
             andThen
               (case consume of
                  Some f \<Rightarrow> (case f (rp_DataRecords st) (drop 2 payload) (rp_user st) of
                      Ok u \<Rightarrow> Ok (st\<lparr>rp_user := u\<rparr>) | Err e \<Rightarrow> Err (Refused e) | Panic \<Rightarrow> Panic)
                | None \<Rightarrow> Ok (st\<lparr>rp_records := rp_records st @ [drop 2 payload]\<rparr>))
               (\<lambda>st. Ok (st\<lparr>rp_DataRecords := rp_DataRecords st + 1\<rparr>))
         else Err ErrCorrupt_journal)
        (\<lambda>st. Ok (st\<lparr>rp_Records := rp_Records st + 1\<rparr>)))"

text \<open>
  The loop over the frames from the offset on; \<open>rest\<close> is the file from the offset. The second result is the partial
  frame at the end, which the code truncates.
\<close>

function replay_frames ::
  "int \<Rightarrow> ('s, 'e) consume option \<Rightarrow> byte list \<Rightarrow> 's replay_state \<Rightarrow>
   ('e journal_error, 's replay_state \<times> byte list) outcome" where
  "replay_frames maxRecord consume rest st =
     (if rest = [] then Ok (st, [])
      else if length rest < recordHeaderBytes then Ok (st, rest)
      else
        let len = unat (be32 (rest ! 0) (rest ! 1) (rest ! 2) (rest ! 3)) in
        if len < 3 \<or> int len > maxRecord + 2 then Err ErrCorrupt_journal
        else if length rest - recordHeaderBytes < len then Ok (st, rest)
        else
          let payload = take len (drop recordHeaderBytes rest) in
          if crc32c payload \<noteq> be32 (rest ! 4) (rest ! 5) (rest ! 6) (rest ! 7) then Err ErrCorrupt_journal
          else andThen (replay_payload consume payload st)
            (replay_frames maxRecord consume (drop (recordHeaderBytes + len) rest)))"
  by pat_completeness auto
termination
  by (relation "measure (\<lambda>(m, c, rest, st). length rest)") (auto simp: recordHeaderBytes_def)

declare replay_frames.simps [simp del]

lemma replay_frames_Nil [simp]: "replay_frames m consume [] st = Ok (st, [])"
  by (simp add: replay_frames.simps)

text \<open>The system's answers while opening: the write and fsync of a new header, the truncation of a partial tail and its fsync.\<close>

record open_io =
  oi_header :: append_io
  oi_truncate :: bool
  oi_sync :: bool

definition replay_journal ::
  "open_io \<Rightarrow> Config_journal \<Rightarrow> ('s, 'e) consume option \<Rightarrow> 's \<Rightarrow> Journal \<Rightarrow>
   ('e journal_error, 's replay_state) outcome \<times> Journal" where
  "replay_journal io config consume user j =
     (let size = length (jn_synced j); expected = makeHeader (jc_Magic config) (jc_Identity config) in
      if int size > jn_maxBytes j then (Err ErrCapacity_journal, j)
      else
        (case (if size = 0 then
                 case writeFull (ai_writes (oi_header io)) expected of
                   (Ok _, written) \<Rightarrow>
                     if ai_sync (oi_header io) then (Ok (), j\<lparr>jn_synced := written\<rparr>)
                     else (Err FileError, j\<lparr>jn_unsynced := written\<rparr>)
                 | (Err e, written) \<Rightarrow> (Err e, j\<lparr>jn_unsynced := written\<rparr>)
                 | (Panic, written) \<Rightarrow> (Panic, j\<lparr>jn_unsynced := written\<rparr>)
               else (Ok (), j)) of
           (Err e, j) \<Rightarrow> (Err e, j) | (Panic, j) \<Rightarrow> (Panic, j)
         | (Ok _, j) \<Rightarrow>
             let file = jn_synced j in
             if length file < headerBytes then (Err ErrCorrupt_journal, j)
             else if \<not> equalBytes (take headerBytes file) expected then (Err ErrCorrupt_journal, j)
             else
               case replay_frames (jn_maxRecord j) consume (drop headerBytes file)
                 \<lparr>rp_records = [], rp_lastCounter = 0, rp_haveCounter = False, rp_user = user,
                  rp_Starts = js_Starts (jn_stats j), rp_DataRecords = js_DataRecords (jn_stats j),
                  rp_Records = js_Records (jn_stats j)\<rparr> of
                 Err e \<Rightarrow> (Err e, j) | Panic \<Rightarrow> (Panic, j)
               | Ok (st, tail) \<Rightarrow>
                   if tail \<noteq> [] \<and> \<not> oi_truncate io then (Err FileError, j)
                   else
                     let whole = take (length file - length tail) file in
                     if tail \<noteq> [] \<and> \<not> oi_sync io then (Err FileError, j\<lparr>jn_synced := whole, jn_unsynced := tail\<rparr>)
                     else (Ok st, j\<lparr>jn_synced := whole,
                       jn_stats := (jn_stats j)\<lparr>js_Bytes := int (length whole), js_Starts := rp_Starts st,
                         js_DataRecords := rp_DataRecords st, js_Records := rp_Records st,
                         js_RecoveredTail := js_RecoveredTail (jn_stats j) \<or> tail \<noteq> []\<rparr>\<rparr>)))"

text \<open>
  The part of \<^verbatim>\<open>open\<close> after the file has been opened and locked: \<open>file\<close> is its contents. The result is the journal and
  what the replay has collected.
\<close>

definition open_journal ::
  "open_io \<Rightarrow> Config_journal \<Rightarrow> ('s, 'e) consume option \<Rightarrow> 's \<Rightarrow> byte list \<Rightarrow>
   ('e journal_error, Journal \<times> 's replay_state) outcome" where
  "open_journal io raw consume user file =
     andThen (normalizeConfig raw) (\<lambda>config.
       case replay_journal io config consume user
         \<lparr>jn_synced = file, jn_unsynced = [], jn_replaced = None,
          jn_header = makeHeader (jc_Magic config) (jc_Identity config),
          jn_maxBytes = jc_MaxBytes config, jn_maxRecord = jc_MaxRecordBytes config,
          jn_stats = \<lparr>js_Bytes = 0, js_Records = 0, js_DataRecords = 0, js_Starts = 0, js_Compactions = 0,
            js_RecoveryCounter = 0, js_RecoveredTail = False\<rparr>,
          jn_failed = False, jn_started = False, jn_closed = False\<rparr> of
         (Err e, _) \<Rightarrow> Err e | (Panic, _) \<Rightarrow> Panic
       | (Ok st, j) \<Rightarrow>
           let counter = (if rp_haveCounter st then rp_lastCounter st + 1 else jc_RecoverySeed config) in
           Ok (j\<lparr>jn_stats := (jn_stats j)\<lparr>js_RecoveryCounter := counter\<rparr>\<rparr>, st))"

section \<open>Frames and logs\<close>

text \<open>The records of a journal: startup epochs and data.\<close>

datatype entry = Boot byte | Data "byte list"

fun payload_of :: "entry \<Rightarrow> byte list" where
  "payload_of (Boot counter) = [recordTypeBoot, recordFormatVersion, counter]"
| "payload_of (Data data) = recordTypeData # recordFormatVersion # data"

fun entry_ok :: "int \<Rightarrow> entry \<Rightarrow> bool" where
  "entry_ok maxRecord (Boot counter) = True"
| "entry_ok maxRecord (Data data) = (data \<noteq> [] \<and> int (length data) \<le> maxRecord)"

definition frame :: "entry \<Rightarrow> byte list" where "frame e = makeFrame (payload_of e)"

definition frames :: "entry list \<Rightarrow> byte list" where "frames es = concat (map frame es)"

fun data_of :: "entry list \<Rightarrow> byte list list" where
  "data_of [] = []"
| "data_of (Boot counter # es) = data_of es"
| "data_of (Data data # es) = data # data_of es"

text \<open>A log is well formed after an epoch: data only within an epoch, and each epoch counts one up.\<close>

fun log_ok :: "byte option \<Rightarrow> entry list \<Rightarrow> bool" where
  "log_ok epoch [] = True"
| "log_ok epoch (Boot counter # es) =
     ((case epoch of None \<Rightarrow> True | Some previous \<Rightarrow> counter = previous + 1) \<and> log_ok (Some counter) es)"
| "log_ok epoch (Data data # es) = (epoch \<noteq> None \<and> log_ok epoch es)"

fun epoch_after :: "byte option \<Rightarrow> entry list \<Rightarrow> byte option" where
  "epoch_after epoch [] = epoch"
| "epoch_after epoch (Boot counter # es) = epoch_after (Some counter) es"
| "epoch_after epoch (Data data # es) = epoch_after epoch es"

lemma frames_simps [simp]: "frames [] = []" "frames (e # es) = frame e @ frames es" "frames (es @ es') = frames es @ frames es'"
  by (simp_all add: frames_def)

lemma data_of_append [simp]: "data_of (es @ es') = data_of es @ data_of es'"
  by (induction es rule: data_of.induct) simp_all

lemma epoch_after_append [simp]: "epoch_after c (es @ es') = epoch_after (epoch_after c es) es'"
  by (induction c es rule: epoch_after.induct) simp_all

lemma log_ok_append [simp]: "log_ok c (es @ es') \<longleftrightarrow> log_ok c es \<and> log_ok (epoch_after c es) es'"
  by (induction c es rule: log_ok.induct) simp_all

lemma length_makeFrame [simp]: "length (makeFrame p) = 8 + length p"
  by (simp add: makeFrame_def)

lemma length_payload_of: "entry_ok m e \<Longrightarrow> 3 \<le> length (payload_of e) \<and> (0 < m \<longrightarrow> int (length (payload_of e)) \<le> m + 2)"
  by (cases e) (auto simp: Suc_le_eq neq_Nil_conv)

lemma frame_octets:
  assumes "length p < 2 ^ 32"
  shows "unat (be32 (makeFrame p ! 0) (makeFrame p ! Suc 0) (makeFrame p ! 2) (makeFrame p ! 3)) = length p"
    "be32 (makeFrame p ! 4) (makeFrame p ! 5) (makeFrame p ! 6) (makeFrame p ! 7) = crc32c p"
    "drop 8 (makeFrame p) = p"
proof -
  define n c where "n = (of_nat (length p) :: 32 word)" and "c = crc32c p"
  then have f: "makeFrame p = put32 n @ put32 c @ p" by (simp add: makeFrame_def)
  have "unat n = length p" using assms by (simp add: n_def unsigned_of_nat take_bit_nat_eq_self)
  then show "unat (be32 (makeFrame p ! 0) (makeFrame p ! Suc 0) (makeFrame p ! 2) (makeFrame p ! 3)) = length p"
    "be32 (makeFrame p ! 4) (makeFrame p ! 5) (makeFrame p ! 6) (makeFrame p ! 7) = crc32c p" "drop 8 (makeFrame p) = p"
    unfolding f by (simp_all add: put32_def be32_put32 c_def)
qed

text \<open>The callback-independent form of the replay: one step per record.\<close>

fun replay_entries ::
  "('s, 'e) consume option \<Rightarrow> entry list \<Rightarrow> 's replay_state \<Rightarrow> ('e journal_error, 's replay_state) outcome" where
  "replay_entries consume [] st = Ok st"
| "replay_entries consume (e # es) st = andThen (replay_payload consume (payload_of e) st) (replay_entries consume es)"

text \<open>A proper prefix of a frame is what a torn write leaves.\<close>

definition torn :: "int \<Rightarrow> byte list \<Rightarrow> bool" where
  "torn maxRecord tail \<longleftrightarrow> (\<exists>e k. entry_ok maxRecord e \<and> k < length (frame e) \<and> tail = take k (frame e))"

lemma torn_Nil [simp]: "torn m []"
  unfolding torn_def by (rule exI[of _ "Boot 0"], rule exI[of _ 0]) (simp add: frame_def)

lemma nth_append_left: "i < length xs \<Longrightarrow> (xs @ ys) ! i = xs ! i"
  by (simp add: nth_append)

lemma replay_frames_frame:
  assumes e: "entry_ok m e" and m: "0 < m" "m \<le> 67108864"
  shows "replay_frames m consume (frame e @ rest) st =
    andThen (replay_payload consume (payload_of e) st) (replay_frames m consume rest)"
proof -
  let ?p = "payload_of e" and ?f = "makeFrame (payload_of e)"
  have len: "3 \<le> length ?p" "int (length ?p) \<le> m + 2" using length_payload_of[OF e] m by simp_all
  then have p: "length ?p < 2 ^ 32" using m by simp
  have nth: "(?f @ rest) ! i = ?f ! i" if "i < 8" for i using that by (intro nth_append_left) simp
  have "?f \<noteq> []" by (simp flip: length_0_conv)
  then show ?thesis
    unfolding frame_def
    by (subst replay_frames.simps)
      (use len in \<open>simp add: nth frame_octets[OF p] recordHeaderBytes_def Let_def\<close>)
qed

lemma replay_frames_torn:
  assumes t: "torn m tail" and m: "0 < m" "m \<le> 67108864"
  shows "replay_frames m consume tail st = Ok (st, tail)"
proof -
  from t obtain e k where e: "entry_ok m e" and k: "k < length (frame e)" and tail: "tail = take k (frame e)"
    by (auto simp: torn_def)
  let ?p = "payload_of e" and ?f = "makeFrame (payload_of e)"
  have len: "3 \<le> length ?p" "int (length ?p) \<le> m + 2" using length_payload_of[OF e] m by simp_all
  then have p: "length ?p < 2 ^ 32" using m by simp
  have nth: "take k ?f ! i = ?f ! i" if "i < 8" "8 \<le> k" for i using that by simp
  show ?thesis
    unfolding tail frame_def
    by (subst replay_frames.simps)
      (use len k in \<open>auto simp: nth frame_octets[OF p] recordHeaderBytes_def Let_def frame_def\<close>)
qed

lemma frame_of_octets:
  assumes "8 \<le> length rest" "len = unat (be32 (rest ! 0) (rest ! 1) (rest ! 2) (rest ! 3))" "len \<le> length rest - 8"
    "p = take len (drop 8 rest)" "crc32c p = be32 (rest ! 4) (rest ! 5) (rest ! 6) (rest ! 7)"
  shows "rest = makeFrame p @ drop (8 + len) rest"
proof -
  have p: "length p = len" using assms by simp
  have "makeFrame p = take 8 rest @ p"
    unfolding makeFrame_def p assms(5) unfolding assms(2) take_octets(1)[OF assms(1)] by (simp add: put_be)
  moreover have "rest = take 8 rest @ take len (drop 8 rest) @ drop len (drop 8 rest)" by (simp only: append_take_drop_id)
  ultimately show ?thesis using assms(4) by (simp add: add.commute)
qed

text \<open>Octets that do not begin with a whole frame whose checksum is right add nothing to a replay.\<close>

definition no_frame :: "byte list \<Rightarrow> bool" where
  "no_frame tail \<longleftrightarrow> (\<forall>p rest. tail \<noteq> makeFrame p @ rest)"

lemma replay_frames_no_frame:
  assumes "no_frame tail"
  shows "replay_frames m consume tail st = Ok (st, tail) \<or> replay_frames m consume tail st = Err ErrCorrupt_journal"
proof -
  define len p where "len = unat (be32 (tail ! 0) (tail ! 1) (tail ! 2) (tail ! 3))" and "p = take len (drop 8 tail)"
  have "crc32c p \<noteq> be32 (tail ! 4) (tail ! 5) (tail ! 6) (tail ! 7)" if "8 \<le> length tail" "len \<le> length tail - 8"
    using frame_of_octets[OF that(1) len_def that(2) p_def] assms by (metis no_frame_def)
  then show ?thesis
    by (subst (1 2) replay_frames.simps)
      (auto simp: recordHeaderBytes_def Let_def not_less simp flip: len_def p_def One_nat_def)
qed

lemma replay_frames_prefix:
  assumes "\<forall>e \<in> set es. entry_ok m e" "0 < m" "m \<le> 67108864"
  shows "replay_frames m consume (frames es @ rest) st = andThen (replay_entries consume es st) (replay_frames m consume rest)"
  using assms(1)
proof (induction es arbitrary: st)
  case (Cons e es)
  then have "replay_frames m consume (frames (e # es) @ rest) st =
      andThen (replay_payload consume (payload_of e) st) (replay_frames m consume (frames es @ rest))"
    using replay_frames_frame[OF _ assms(2,3), of e consume "frames es @ rest" st] by simp
  also have "\<dots> = andThen (replay_payload consume (payload_of e) st)
      (\<lambda>st. andThen (replay_entries consume es st) (replay_frames m consume rest))"
    using Cons by (intro andThen_cong) simp_all
  finally show ?case by (simp add: andThen_assoc)
qed simp

section \<open>What the replay of a well-formed log yields\<close>

definition epoch_of :: "'s replay_state \<Rightarrow> byte option" where
  "epoch_of st = (if rp_haveCounter st then Some (rp_lastCounter st) else None)"

fun consume_all :: "('s, 'e) consume \<Rightarrow> 64 word \<Rightarrow> byte list list \<Rightarrow> 's \<Rightarrow> ('e, 's) outcome" where
  "consume_all f n [] u = Ok u"
| "consume_all f n (d # ds) u = andThen (f n d u) (consume_all f (n + 1) ds)"

lemma replay_entries_collect:
  fixes c :: "('s, 'e) consume option" and st :: "'s replay_state"
  assumes "c = None" "log_ok (epoch_of st) es"
  shows "\<exists>st'. replay_entries c es st = Ok st' \<and> rp_records st' = rp_records st @ data_of es \<and>
    epoch_of st' = epoch_after (epoch_of st) es"
  using assms
proof (induction es arbitrary: st)
  case (Cons e es)
  obtain st1 where "replay_payload c (payload_of e) st = Ok st1" "epoch_of st1 = epoch_after (epoch_of st) [e]"
    "rp_records st1 = rp_records st @ data_of [e]"
    using Cons.prems by (cases e) (auto simp: replay_payload_def journal_constants epoch_of_def split: if_splits)
  note st1 = this
  have "log_ok (epoch_of st1) es" using Cons.prems st1(2) by (cases e) auto
  from Cons.IH[OF assms(1) this] obtain st' where "replay_entries c es st1 = Ok st'"
    "rp_records st' = rp_records st1 @ data_of es" "epoch_of st' = epoch_after (epoch_of st1) es" by blast
  then show ?case using st1 data_of_append[of "[e]" es] epoch_after_append[of "epoch_of st" "[e]" es] by simp
qed simp

lemma replay_entries_consume:
  assumes "log_ok (epoch_of st) es" "consume_all f (rp_DataRecords st) (data_of es) (rp_user st) = Ok u"
  shows "\<exists>st'. replay_entries (Some f) es st = Ok st' \<and> rp_user st' = u \<and> epoch_of st' = epoch_after (epoch_of st) es"
  using assms
proof (induction es arbitrary: st)
  case (Cons e es)
  obtain st1 where st1: "replay_payload (Some f) (payload_of e) st = Ok st1" "epoch_of st1 = epoch_after (epoch_of st) [e]"
    "consume_all f (rp_DataRecords st1) (data_of es) (rp_user st1) = Ok u"
    using Cons.prems by (cases e) (auto simp: replay_payload_def journal_constants epoch_of_def split: if_splits)
  moreover have "log_ok (epoch_of st1) es" using Cons.prems st1(2) by (cases e) auto
  ultimately show ?case using Cons.IH[of st1] epoch_after_append[of "epoch_of st" "[e]" es] by fastforce
qed simp

section \<open>The invariant of an open journal\<close>

definition log_fits :: "Config_journal \<Rightarrow> entry list \<Rightarrow> bool" where
  "log_fits cfg es \<longleftrightarrow> log_ok None es \<and> (\<forall>e \<in> set es. entry_ok (jc_MaxRecordBytes cfg) e) \<and>
     int (headerBytes + length (frames es)) \<le> jc_MaxBytes cfg"

definition journal_header :: "Config_journal \<Rightarrow> byte list" where
  "journal_header cfg = makeHeader (jc_Magic cfg) (jc_Identity cfg)"

definition limits_ok :: "Config_journal \<Rightarrow> bool" where
  "limits_ok cfg \<longleftrightarrow> length (jc_Magic cfg) = 8 \<and> jc_Identity cfg \<noteq> [] \<and> 64 \<le> jc_MaxRecordBytes cfg \<and>
     jc_MaxRecordBytes cfg \<le> 67108864 \<and> 59 \<le> jc_MaxBytes cfg"

text \<open>The recovery counter of a journal is that of its own epoch once started, and before it the one to start next.\<close>

definition epoch_ok :: "bool \<Rightarrow> byte \<Rightarrow> byte option \<Rightarrow> bool" where
  "epoch_ok started counter epoch \<longleftrightarrow>
     (if started then epoch = Some counter else case epoch of None \<Rightarrow> True | Some c \<Rightarrow> counter = c + 1)"

lemma epoch_ok_started [simp]: "epoch_ok True counter epoch \<longleftrightarrow> epoch = Some counter"
  by (simp add: epoch_ok_def)

text \<open>
  The file holds the records \<open>es\<close>; \<open>pending\<close> is a record of which a prefix was written without a successful fsync, \<open>old\<close>
  the records of a file that a compaction replaced without a successful fsync of the directory. Both occur only in a
  journal that refuses every further write.
\<close>

definition journal_inv :: "Config_journal \<Rightarrow> entry list \<Rightarrow> entry option \<Rightarrow> entry list option \<Rightarrow> Journal \<Rightarrow> bool" where
  "journal_inv cfg es pending old j \<longleftrightarrow>
     limits_ok cfg \<and> log_fits cfg es \<and> jn_header j = journal_header cfg \<and> jn_maxBytes j = jc_MaxBytes cfg \<and>
     jn_maxRecord j = jc_MaxRecordBytes cfg \<and> jn_synced j = journal_header cfg @ frames es \<and>
     js_Bytes (jn_stats j) = int (length (jn_synced j)) \<and>
     (case pending of None \<Rightarrow> jn_unsynced j = []
      | Some e \<Rightarrow> jn_failed j \<and> log_fits cfg (es @ [e]) \<and> (\<exists>k. jn_unsynced j = take k (frame e))) \<and>
     (case old of None \<Rightarrow> jn_replaced j = None
      | Some es' \<Rightarrow> jn_failed j \<and> log_fits cfg es' \<and> jn_replaced j = Some (journal_header cfg @ frames es')) \<and>
     epoch_ok (jn_started j) (js_RecoveryCounter (jn_stats j)) (epoch_after None es)"

text \<open>
  The files that a crash leaves when octets reach the disk in the order in which they were written: what was synced and
  any prefix of what was written after it, and either of two files around a rename that is not known to be durable. A
  file system that promises less may leave other octets behind what was synced; the statements about \<open>jn_synced j @ tail\<close>
  with an arbitrary \<open>tail\<close> are about those.
\<close>

definition crash_images :: "Journal \<Rightarrow> byte list set" where
  "crash_images j = range (\<lambda>k. jn_synced j @ take k (jn_unsynced j)) \<union> set_option (jn_replaced j)"

lemma normalizeConfig_limits: "normalizeConfig raw = Ok cfg \<Longrightarrow> limits_ok cfg"
  by (auto simp: normalizeConfig_def limits_ok_def journal_constants Let_def DefaultMaxBytes_def DefaultMaxRecord_def split: if_splits)

lemma length_makeHeader: "length magic = 8 \<Longrightarrow> length (makeHeader magic identity) = 48"
  by (simp add: makeHeader_def Let_def length_Sum256)

lemma length_journal_header: "limits_ok cfg \<Longrightarrow> length (journal_header cfg) = 48"
  by (simp add: journal_header_def limits_ok_def length_makeHeader)

lemma foldl_or_zero:
  "foldl (\<lambda>d (l, r). d OR (l XOR r)) (d :: byte) (zip xs ys) = 0 \<longleftrightarrow> d = 0 \<and> (\<forall>(l, r) \<in> set (zip xs ys). l = r)"
proof (induction xs ys arbitrary: d rule: list_induct2')
  case (4 x xs y ys)
  have "x XOR y = 0 \<longleftrightarrow> x = y" by (metis xor.assoc xor.left_neutral xor.right_neutral xor_self_eq)
  then have "d OR (x XOR y) = 0 \<longleftrightarrow> d = 0 \<and> x = y" by (simp add: or_eq_0_iff)
  then show ?case using 4[of "d OR (x XOR y)"] by simp
qed auto

lemma equalBytes_iff: "equalBytes left right \<longleftrightarrow> left = right"
proof -
  have "equalBytes left right \<longleftrightarrow> list_all2 (=) left right"
    unfolding equalBytes_def foldl_or_zero list_all2_iff by simp
  then show ?thesis by (simp add: list.rel_eq)
qed

lemma writeFull_cases:
  "(fst (writeFull ws data) = (Ok () :: ('e journal_error, unit) outcome) \<and> snd (writeFull ws data :: ('e journal_error, unit) outcome \<times> byte list) = data) \<or>
   (\<exists>e k. (writeFull ws data :: ('e journal_error, unit) outcome \<times> byte list) = (Err e, take k data) \<and> e \<in> {FileError, ShortWrite})"
proof (induction ws data rule: writeFull.induct)
  case (3 written err writes b bs)
  show ?case
  proof (cases "err \<or> written = 0")
    case True
    then show ?thesis by (auto intro: exI[of _ 0])
  next
    case False
    with 3 consider (all) "writeFull writes (drop written (b # bs)) = (Ok () :: ('e journal_error, unit) outcome, drop written (b # bs))"
      | (part) e k where "writeFull writes (drop written (b # bs)) = (Err e :: ('e journal_error, unit) outcome, take k (drop written (b # bs)))"
        "e \<in> {FileError, ShortWrite}"
      by (metis prod.collapse)
    then show ?thesis
    proof cases
      case all
      then show ?thesis using False by (simp del: drop_Cons' take_Cons')
    next
      case part
      have "take written (b # bs) @ take k (drop written (b # bs)) = take (written + k) (b # bs)" by (simp add: take_add)
      then show ?thesis using False part by auto
    qed
  qed
qed simp_all

lemma frame_length_pos: "0 < length (frame e)"
  by (simp add: frame_def)

lemma log_fits_snoc:
  "log_fits cfg (es @ [e]) \<longleftrightarrow> log_fits cfg es \<and> log_ok (epoch_after None es) [e] \<and> entry_ok (jc_MaxRecordBytes cfg) e \<and>
     int (headerBytes + length (frames es) + length (frame e)) \<le> jc_MaxBytes cfg"
  by (auto simp: log_fits_def)

text \<open>An append of a record that continues the log: it takes place, or the journal must not be used any more.\<close>

lemma appendFrame_cases:
  assumes inv: "journal_inv cfg es None None j"
    and e: "log_ok (epoch_after None es) [e]" "entry_ok (jc_MaxRecordBytes cfg) e"
  obtains (synced) j' where "appendFrame io (payload_of e) j = (Ok () :: ('e journal_error, unit) outcome, j')" "log_fits cfg (es @ [e])"
      "j' = j\<lparr>jn_synced := journal_header cfg @ frames (es @ [e]), jn_stats := (jn_stats j)\<lparr>js_Bytes := int (length (journal_header cfg @ frames (es @ [e]))),
          js_Records := js_Records (jn_stats j) + 1\<rparr>\<rparr>"
  | (partial) k x where "appendFrame io (payload_of e) j = (Err x :: ('e journal_error, unit) outcome, j\<lparr>jn_unsynced := take k (frame e)\<rparr>)" "log_fits cfg (es @ [e])"
      "x \<in> {FileError, ShortWrite}"
  | (full) "appendFrame io (payload_of e) j = (Err ErrCapacity_journal :: ('e journal_error, unit) outcome, j)"
proof -
  note I = inv[unfolded journal_inv_def, simplified]
  have len: "length (journal_header cfg) = 48" using I by (simp add: length_journal_header)
  consider (full) "js_Bytes (jn_stats j) + int (length (frame e)) > jn_maxBytes j"
    | (fits) "js_Bytes (jn_stats j) + int (length (frame e)) \<le> jn_maxBytes j" by linarith
  then show thesis
  proof cases
    case full
    then show thesis using that(3) by (simp add: appendFrame_def frame_def)
  next
    case fits
    then have fit: "log_fits cfg (es @ [e])" using I e len by (simp add: log_fits_snoc headerBytes_def)
    define w where "w = (writeFull (ai_writes io) (frame e) :: ('e journal_error, unit) outcome \<times> byte list)"
    have app: "appendFrame io (payload_of e) j = (case w of
        (Ok _, written) \<Rightarrow>
          if \<not> ai_sync io then (Err FileError, j\<lparr>jn_unsynced := jn_unsynced j @ written\<rparr>)
          else (Ok (), j\<lparr>jn_synced := jn_synced j @ jn_unsynced j @ written, jn_unsynced := [],
              jn_stats := (jn_stats j)\<lparr>js_Bytes := js_Bytes (jn_stats j) + int (length (frame e)),
                js_Records := js_Records (jn_stats j) + 1\<rparr>\<rparr>)
      | (Err x, written) \<Rightarrow> (Err x, j\<lparr>jn_unsynced := jn_unsynced j @ written\<rparr>)
      | (Panic, written) \<Rightarrow> (Panic, j\<lparr>jn_unsynced := jn_unsynced j @ written\<rparr>))"
      using fits unfolding appendFrame_def frame_def w_def Let_def by simp
    from writeFull_cases[of "ai_writes io" "frame e", where 'e = 'e] consider (all) "w = (Ok (), frame e)"
      | (part) x k where "w = (Err x, take k (frame e))" "x \<in> {FileError, ShortWrite}"
      by (metis w_def prod.collapse)
    then show thesis
    proof cases
      case all
      show thesis
      proof (cases "ai_sync io")
        case True
        have "jn_unsynced j = []" using I by simp
        then have "j\<lparr>jn_unsynced := []\<rparr> = j" by simp
        then show thesis using that(1) fit True I by (simp add: app all)
      next
        case False
        then show thesis using that(2)[of FileError "length (frame e)"] fit I by (simp add: app all)
      qed
    next
      case part
      then show thesis using that(2)[of x k] fit I by (simp add: app part)
    qed
  qed
qed

lemma Append_journal_cases:
  assumes inv: "journal_inv cfg es pending old j"
  shows "(\<exists>j'. Append_journal io d j = (Ok () :: ('e journal_error, unit) outcome, j') \<and> pending = None \<and> old = None \<and> \<not> jn_failed j' \<and>
      jn_started j' \<and> \<not> jn_closed j' \<and> journal_inv cfg (es @ [Data d]) None None j') \<or>
    (\<exists>j' x. Append_journal io d j = (Err x :: ('e journal_error, unit) outcome, j') \<and> x \<in> {FileError, ShortWrite} \<and> pending = None \<and> old = None \<and> jn_failed j' \<and>
      journal_inv cfg es (Some (Data d)) None j') \<or>
    (\<exists>j' x. Append_journal io d j = (Err x :: ('e journal_error, unit) outcome, j') \<and> x \<notin> {FileError, ShortWrite} \<and>
      journal_inv cfg es pending old j' \<and> (jn_failed j \<longrightarrow> jn_failed j'))"
proof (cases "jn_closed j \<or> jn_failed j \<or> \<not> jn_started j \<or> d = [] \<or> int (length d) > jn_maxRecord j")
  case True
  then show ?thesis using inv by (auto simp: Append_journal_def)
next
  case False
  then have p: "pending = None" "old = None" using inv by (auto simp: journal_inv_def split: option.splits)
  note inv = inv[unfolded p]
  note I = inv[unfolded journal_inv_def, simplified]
  have e: "log_ok (epoch_after None es) [Data d]" "entry_ok (jc_MaxRecordBytes cfg) (Data d)" using I False by auto
  have app: "Append_journal io d j = (case appendFrame io (payload_of (Data d)) j of
        (Ok _, j1) \<Rightarrow> (Ok () :: ('e journal_error, unit) outcome, j1\<lparr>jn_stats := (jn_stats j1)\<lparr>js_DataRecords := js_DataRecords (jn_stats j1) + 1\<rparr>\<rparr>)
      | (Err e, j1) \<Rightarrow> (Err e, j1\<lparr>jn_failed := True\<rparr>)
      | (Panic, j1) \<Rightarrow> (Panic, j1))"
    using False by (simp add: Append_journal_def)
  show ?thesis
    using inv e
  proof (cases rule: appendFrame_cases[where io = io and 'e = 'e])
    case (synced j')
    then show ?thesis using I False p by (simp add: app journal_inv_def)
  next
    case (partial k x)
    then have "journal_inv cfg es (Some (Data d)) None (j\<lparr>jn_unsynced := take k (frame (Data d)), jn_failed := True\<rparr>)"
      using I by (auto simp: journal_inv_def)
    then show ?thesis using partial p by (simp add: app)
  next
    case full
    then show ?thesis using I p by (simp add: app journal_inv_def)
  qed
qed

lemma Start_journal_cases:
  assumes inv: "journal_inv cfg es pending old j"
  shows "(\<exists>j' b. Start_journal io j = (Ok () :: ('e journal_error, unit) outcome, j') \<and> jn_started j' \<and> \<not> jn_failed j' \<and> \<not> jn_closed j' \<and>
      pending = None \<and> old = None \<and> journal_inv cfg (es @ b) None None j' \<and> data_of b = []) \<or>
    (\<exists>j' x pending'. Start_journal io j = (Err x :: ('e journal_error, unit) outcome, j') \<and> journal_inv cfg es pending' old j' \<and> (jn_failed j \<longrightarrow> jn_failed j') \<and>
      (pending' = pending \<or> pending = None \<and> (\<exists>c. pending' = Some (Boot c))))"
proof (cases "jn_closed j \<or> jn_failed j \<or> jn_started j")
  case True
  then show ?thesis
  proof (cases "jn_closed j \<or> jn_failed j")
    case False
    then have "pending = None" "old = None" using inv by (auto simp: journal_inv_def split: option.splits)
    then have "Start_journal io j = (Ok () :: ('e journal_error, unit) outcome, j) \<and> jn_started j \<and> \<not> jn_failed j \<and> \<not> jn_closed j \<and>
        pending = None \<and> old = None \<and> journal_inv cfg (es @ []) None None j \<and> data_of [] = []"
      using False True inv by (simp add: Start_journal_def)
    then show ?thesis by blast
  qed (use inv in \<open>auto simp: Start_journal_def\<close>)
next
  case False
  then have p: "pending = None" "old = None" using inv by (auto simp: journal_inv_def split: option.splits)
  note inv = inv[unfolded p]
  note I = inv[unfolded journal_inv_def, simplified]
  let ?e = "Boot (js_RecoveryCounter (jn_stats j))"
  have e: "log_ok (epoch_after None es) [?e]" "entry_ok (jc_MaxRecordBytes cfg) ?e"
    using I False by (auto simp: epoch_ok_def split: option.splits)
  have st: "Start_journal io j = (case appendFrame io (payload_of ?e) j of
        (Ok _, j1) \<Rightarrow> (Ok () :: ('e journal_error, unit) outcome, j1\<lparr>jn_stats := (jn_stats j1)\<lparr>js_Starts := js_Starts (jn_stats j1) + 1\<rparr>, jn_started := True\<rparr>)
      | (Err e, j1) \<Rightarrow> (Err e, j1\<lparr>jn_failed := True\<rparr>) | (Panic, j1) \<Rightarrow> (Panic, j1))"
    using False by (simp add: Start_journal_def)
  show ?thesis
    using inv e
  proof (cases rule: appendFrame_cases[where io = io and 'e = 'e])
    case (synced j')
    then have "\<exists>j'. Start_journal io j = (Ok () :: ('e journal_error, unit) outcome, j') \<and> jn_started j' \<and> \<not> jn_failed j' \<and> \<not> jn_closed j' \<and>
        journal_inv cfg (es @ [?e]) None None j'"
      using I False p by (simp add: st journal_inv_def)
    moreover have "data_of [?e] = []" by simp
    ultimately show ?thesis using p by blast
  next
    case (partial k x)
    then have "journal_inv cfg es (Some ?e) None (j\<lparr>jn_unsynced := take k (frame ?e), jn_failed := True\<rparr>)"
      using I by (auto simp: journal_inv_def)
    then show ?thesis using partial p by (simp add: st) blast
  next
    case full
    have "journal_inv cfg es None None (j\<lparr>jn_failed := True\<rparr>)" using I by (simp add: journal_inv_def)
    then show ?thesis using full p by (simp add: st) blast
  qed
qed

lemma snapshot_bytes_Ok:
  "(snapshot_bytes m b records sum0 :: ('e journal_error, int) outcome) = Ok sum1 \<Longrightarrow>
     (\<forall>d \<in> set records. entry_ok m (Data d)) \<and> sum1 = sum0 + int (length (frames (map Data records))) \<and>
     (sum0 \<le> b \<longrightarrow> sum1 \<le> b)"
proof (induction m b records sum0 rule: snapshot_bytes.induct)
  case (2 m b d ds sum0)
  then have d: "d \<noteq> []" "int (length d) \<le> m" "snapshot_bytes m b ds (sum0 + DataFrameBytes (int (length d))) = (Ok sum1 :: ('e journal_error, int) outcome)"
    "sum0 + DataFrameBytes (int (length d)) \<le> b"
    by (auto simp: Let_def split: if_splits)
  have "DataFrameBytes (int (length d)) = int (length (frame (Data d)))"
    by (simp add: DataFrameBytes_def recordHeaderBytes_def frame_def)
  with 2 d show ?case by (auto simp: Let_def split: if_splits)
qed simp

lemma snapshot_file_frames:
  "snapshot_file header counter records = header @ frames (Boot counter # map Data records)"
  by (simp add: snapshot_file_def frames_def frame_def comp_def)

lemma snapshot_log [simp]: "log_ok (Some c) (map Data ds)" "epoch_after (Some c) (map Data ds) = Some c" "data_of (map Data ds) = ds"
  by (induction ds) simp_all

lemma Compact_cases:
  assumes inv: "journal_inv cfg es pending old j"
  shows "(\<exists>j' c. Compact io records j = (Ok () :: ('e journal_error, unit) outcome, j') \<and> pending = None \<and> old = None \<and> \<not> jn_failed j' \<and>
      jn_started j' \<and> \<not> jn_closed j' \<and> journal_inv cfg (Boot c # map Data records) None None j') \<or>
    (\<exists>j' c old'. Compact io records j = (Err FileError :: ('e journal_error, unit) outcome, j') \<and> pending = None \<and> old = None \<and>
      jn_failed j' \<and> journal_inv cfg (Boot c # map Data records) None old' j' \<and> (old' = None \<or> old' = Some es)) \<or>
    (\<exists>x. Compact io records j = (Err x :: ('e journal_error, unit) outcome, j))"
proof (cases "jn_closed j \<or> jn_failed j \<or> \<not> jn_started j \<or>
    \<not> is_Ok (snapshot_bytes (jn_maxRecord j) (jn_maxBytes j) records 59 :: ('e journal_error, int) outcome) \<or> io = PrepareFails")
  case True
  have np: "snapshot_bytes m b rs t \<noteq> (Panic :: ('e journal_error, int) outcome)" for m b rs t
    by (induction m b rs t rule: snapshot_bytes.induct) (auto simp: Let_def)
  show ?thesis
  proof (cases "snapshot_bytes (jn_maxRecord j) (jn_maxBytes j) records 59 :: ('e journal_error, int) outcome")
    case (Ok t)
    then show ?thesis using True by (auto simp: Compact_def journal_constants)
  next
    case (Err x)
    then show ?thesis by (simp add: Compact_def journal_constants)
  qed (simp add: np)
next
  case False
  then have p: "pending = None" "old = None" using inv by (auto simp: journal_inv_def split: option.splits)
  note I = inv[unfolded p journal_inv_def, simplified]
  let ?c = "js_RecoveryCounter (jn_stats j)"
  let ?es = "Boot ?c # map Data records"
  have len: "length (journal_header cfg) = 48" "length (frame (Boot ?c)) = 11" using I by (simp_all add: length_journal_header frame_def)
  obtain sum0 where sum0: "snapshot_bytes (jn_maxRecord j) (jn_maxBytes j) records 59 = (Ok sum0 :: ('e journal_error, int) outcome)"
    using False by (auto simp: is_Ok_def split: outcome.splits)
  note snap = snapshot_bytes_Ok[OF sum0]
  have fits: "log_fits cfg ?es" "sum0 = int (length (journal_header cfg @ frames ?es))"
    using snap I by (auto simp: log_fits_def len headerBytes_def limits_ok_def)
  define stats where "stats = (jn_stats j)\<lparr>js_Bytes := sum0, js_Records := js_Records (jn_stats j) + (of_nat (length records) + 1),
     js_DataRecords := js_DataRecords (jn_stats j) + of_nat (length records), js_Compactions := js_Compactions (jn_stats j) + 1\<rparr>"
  define j1 where "j1 = j\<lparr>jn_synced := journal_header cfg @ frames ?es, jn_unsynced := [],
     jn_replaced := Some (jn_synced j @ jn_unsynced j), jn_stats := stats\<rparr>"
  have eq: "Compact io records j = (if io = DirectorySyncFails then (Err FileError :: ('e journal_error, unit) outcome, j1\<lparr>jn_failed := True\<rparr>)
      else if io = ReleaseFails then (Err FileError, j1\<lparr>jn_replaced := None, jn_failed := True\<rparr>)
      else (Ok (), j1\<lparr>jn_replaced := None\<rparr>))"
    using False I sum0 unfolding Compact_def j1_def stats_def snapshot_file_frames by (simp add: journal_constants Let_def)
  have base: "journal_inv cfg ?es None None (j1\<lparr>jn_replaced := None, jn_failed := b\<rparr>)"
    "journal_inv cfg ?es None None (j1\<lparr>jn_replaced := None\<rparr>)"
    "journal_inv cfg ?es None (Some es) (j1\<lparr>jn_failed := True\<rparr>)" for b
    using I fits False by (simp_all add: journal_inv_def j1_def stats_def)
  show ?thesis
  proof (cases io)
    case DirectorySyncFails
    then show ?thesis using base(3) p eq by fastforce
  next
    case ReleaseFails
    then show ?thesis using base(1)[of True] p eq by fastforce
  next
    case Compacts
    have "\<not> jn_failed j1" "jn_started j1" "\<not> jn_closed j1" using False by (simp_all add: j1_def)
    then show ?thesis using Compacts base(2) p eq by fastforce
  qed (use False in simp)
qed

section \<open>Opening what a crash has left\<close>

definition recoverable :: "entry list \<Rightarrow> entry option \<Rightarrow> entry list option \<Rightarrow> entry list set" where
  "recoverable es pending old = {es} \<union> (\<lambda>e. es @ [e]) ` set_option pending \<union> set_option old"

lemma crash_image_log:
  assumes inv: "journal_inv cfg es pending old j" and img: "img \<in> crash_images j"
  obtains es' tail where "img = journal_header cfg @ frames es' @ tail" "es' \<in> recoverable es pending old" "log_fits cfg es'"
    "torn (jc_MaxRecordBytes cfg) tail" "int (48 + length (frames es') + length tail) \<le> jc_MaxBytes cfg"
proof -
  note I = inv[unfolded journal_inv_def]
  from img consider (cur) k where "img = jn_synced j @ take k (jn_unsynced j)" | (old) "jn_replaced j = Some img"
    by (auto simp: crash_images_def)
  then show thesis
  proof cases
    case cur
    show thesis
    proof (cases pending)
      case None
      then show thesis using that[of es "[]"] cur I by (auto simp: recoverable_def log_fits_def headerBytes_def)
    next
      case (Some e)
      then obtain k' where k': "jn_unsynced j = take k' (frame e)" and fit: "log_fits cfg (es @ [e])" "log_fits cfg es"
        using I by auto
      have img: "img = journal_header cfg @ frames es @ take (min k k') (frame e)" using cur I k' by simp
      show thesis
      proof (cases "min k k' < length (frame e)")
        case True
        then have "torn (jc_MaxRecordBytes cfg) (take (min k k') (frame e))"
          using fit(1) by (auto simp: torn_def log_fits_snoc)
        moreover have "int (48 + length (frames es) + length (take (min k k') (frame e))) \<le> jc_MaxBytes cfg"
          using fit(1) by (auto simp: log_fits_snoc headerBytes_def min_def)
        ultimately show thesis using that[of es] img fit(2) by (auto simp: recoverable_def)
      next
        case False
        then have "img = journal_header cfg @ frames (es @ [e]) @ []" using img by (simp add: not_less)
        then show thesis using that[of "es @ [e]" "[]"] fit(1) Some by (auto simp: recoverable_def log_fits_def headerBytes_def)
      qed
    qed
  next
    case old
    then obtain es' where "old = Some es'" "log_fits cfg es'" "img = journal_header cfg @ frames es'"
      using I by (cases old) auto
    then show thesis using that[of es' "[]"] by (auto simp: recoverable_def log_fits_def headerBytes_def)
  qed
qed

definition start_replay :: "'s \<Rightarrow> 's replay_state" where
  "start_replay u = \<lparr>rp_records = [], rp_lastCounter = 0, rp_haveCounter = False, rp_user = u, rp_Starts = 0,
     rp_DataRecords = 0, rp_Records = 0\<rparr>"

lemma start_replay_epoch [simp]: "epoch_of (start_replay u) = None"
  by (simp add: epoch_of_def start_replay_def)

definition truncates :: "open_io \<Rightarrow> bool" where "truncates io \<longleftrightarrow> oi_truncate io \<and> oi_sync io"

lemma torn_replays:
  assumes "normalizeConfig raw = (Ok cfg :: ('e journal_error, Config_journal) outcome)" "torn (jc_MaxRecordBytes cfg) tail"
  shows "replay_frames (jc_MaxRecordBytes cfg) consume tail st = Ok (st, tail)"
  using replay_frames_torn[OF assms(2)] normalizeConfig_limits[OF assms(1)] by (simp add: limits_ok_def)

text \<open>The journal that opening returns: the frames that were replayed are the file.\<close>

definition opened :: "Config_journal \<Rightarrow> byte list \<Rightarrow> bool \<Rightarrow> 's replay_state \<Rightarrow> Journal" where
  "opened cfg file recovered st = \<lparr>jn_synced = file, jn_unsynced = [], jn_replaced = None,
     jn_header = journal_header cfg, jn_maxBytes = jc_MaxBytes cfg, jn_maxRecord = jc_MaxRecordBytes cfg,
     jn_stats = \<lparr>js_Bytes = int (length file), js_Records = rp_Records st,
       js_DataRecords = rp_DataRecords st, js_Starts = rp_Starts st, js_Compactions = 0,
       js_RecoveryCounter = (if rp_haveCounter st then rp_lastCounter st + 1 else jc_RecoverySeed cfg),
       js_RecoveredTail = recovered\<rparr>,
     jn_failed = False, jn_started = False, jn_closed = False\<rparr>"

lemma opened_inv:
  assumes "limits_ok cfg" "log_fits cfg es" "epoch_of st = epoch_after None es"
  shows "journal_inv cfg es None None (opened cfg (journal_header cfg @ frames es) b st)"
proof -
  have "epoch_ok False (if rp_haveCounter st then rp_lastCounter st + 1 else jc_RecoverySeed cfg) (epoch_after None es)"
    using assms(3) by (auto simp: epoch_ok_def epoch_of_def split: if_splits option.splits)
  then show ?thesis using assms(1,2) by (simp add: journal_inv_def opened_def)
qed

lemma open_eq:
  fixes consume :: "('s, 'e) consume option"
  assumes cfg: "normalizeConfig raw = (Ok cfg :: ('e journal_error, Config_journal) outcome)" and img: "img = journal_header cfg @ rest"
  shows "open_journal io raw consume u img =
    (if int (length img) > jc_MaxBytes cfg then Err ErrCapacity_journal
     else case replay_frames (jc_MaxRecordBytes cfg) consume rest (start_replay u) of Err e \<Rightarrow> Err e | Panic \<Rightarrow> Panic
     | Ok (st, tail) \<Rightarrow> if tail \<noteq> [] \<and> \<not> truncates io then Err FileError
         else Ok (opened cfg (take (length img - length tail) img) (tail \<noteq> []) st, st))"
proof -
  have len: "length (journal_header cfg) = 48" using normalizeConfig_limits[OF cfg] by (rule length_journal_header)
  then have "journal_header cfg \<noteq> []" by auto
  then show ?thesis
    using len
    by (simp add: img open_journal_def cfg replay_journal_def Let_def equalBytes_iff headerBytes_def truncates_def opened_def
        flip: journal_header_def start_replay_def split: outcome.split prod.split)
qed

text \<open>Opening a log with something behind it, by what the replay makes of that.\<close>

lemma open_image:
  fixes consume :: "('s, 'e) consume option"
  assumes cfg: "normalizeConfig raw = (Ok cfg :: ('e journal_error, Config_journal) outcome)" and fits: "log_fits cfg es"
    and replay: "replay_entries consume es (start_replay u) = Ok st" "epoch_of st = epoch_after None es"
    and tail: "replay_frames (jc_MaxRecordBytes cfg) consume tail st = Ok (st, tail)"
      "int (48 + length (frames es) + length tail) \<le> jc_MaxBytes cfg"
  shows "(\<exists>j. open_journal io raw consume u (journal_header cfg @ frames es @ tail) = Ok (j, st) \<and>
    journal_inv cfg es None None j \<and> \<not> jn_started j \<and> \<not> jn_failed j \<and> \<not> jn_closed j) \<or>
    \<not> truncates io \<and> open_journal io raw consume u (journal_header cfg @ frames es @ tail) = Err FileError"
proof -
  note L = normalizeConfig_limits[OF cfg]
  have len: "length (journal_header cfg) = 48" using L by (rule length_journal_header)
  have "0 < jc_MaxRecordBytes cfg" "jc_MaxRecordBytes cfg \<le> 67108864" using L by (simp_all add: limits_ok_def)
  then have loop: "replay_frames (jc_MaxRecordBytes cfg) consume (frames es @ tail) (start_replay u) = Ok (st, tail)"
    using replay_frames_prefix[of es _ consume tail "start_replay u"] fits tail(1) replay(1) by (simp add: log_fits_def)
  have "open_journal io raw consume u (journal_header cfg @ frames es @ tail) =
      (if tail \<noteq> [] \<and> \<not> truncates io then Err FileError
       else Ok (opened cfg (journal_header cfg @ frames es) (tail \<noteq> []) st, st))"
    using tail(2) len by (simp add: open_eq[OF cfg refl] loop)
  then show ?thesis using opened_inv[OF L fits replay(2), of "tail \<noteq> []"] by (auto simp: opened_def)
qed

text \<open>Opening a log with arbitrary octets behind it that are not a frame.\<close>

lemma open_no_frame:
  fixes consume :: "('s, 'e) consume option"
  assumes cfg: "normalizeConfig raw = (Ok cfg :: ('e journal_error, Config_journal) outcome)" and fits: "log_fits cfg es"
    and replay: "replay_entries consume es (start_replay u) = Ok st" "epoch_of st = epoch_after None es"
    and tail: "no_frame tail"
  shows "(\<exists>j. open_journal io raw consume u (journal_header cfg @ frames es @ tail) = Ok (j, st) \<and> journal_inv cfg es None None j) \<or>
    (\<exists>e \<in> {ErrCorrupt_journal, ErrCapacity_journal, FileError}.
       open_journal io raw consume u (journal_header cfg @ frames es @ tail) = Err e)"
proof (cases "int (48 + length (frames es) + length tail) \<le> jc_MaxBytes cfg")
  case True
  note L = normalizeConfig_limits[OF cfg]
  have len: "length (journal_header cfg) = 48" using L by (rule length_journal_header)
  have m: "0 < jc_MaxRecordBytes cfg" "jc_MaxRecordBytes cfg \<le> 67108864" using L by (simp_all add: limits_ok_def)
  from replay_frames_no_frame[OF tail, of "jc_MaxRecordBytes cfg" consume st] show ?thesis
  proof
    assume t: "replay_frames (jc_MaxRecordBytes cfg) consume tail st = Ok (st, tail)"
    from open_image[OF cfg fits replay t True, of io] show ?thesis by blast
  next
    assume "replay_frames (jc_MaxRecordBytes cfg) consume tail st = Err ErrCorrupt_journal"
    then have "open_journal io raw consume u (journal_header cfg @ frames es @ tail) = Err ErrCorrupt_journal"
      using True fits replay(1) len replay_frames_prefix[OF _ m, of es consume tail "start_replay u"]
      by (simp add: open_eq[OF cfg refl] log_fits_def)
    then show ?thesis by blast
  qed
next
  case False
  have "length (journal_header cfg) = 48" using normalizeConfig_limits[OF cfg] by (rule length_journal_header)
  then have "open_journal io raw consume u (journal_header cfg @ frames es @ tail) = Err ErrCapacity_journal"
    using False by (simp add: open_eq[OF cfg refl] not_le)
  then show ?thesis by blast
qed

lemma open_new:
  fixes consume :: "('s, 'e) consume option"
  assumes cfg: "normalizeConfig raw = (Ok cfg :: ('e journal_error, Config_journal) outcome)"
    and "open_journal io raw consume u [] = Ok (j, st)"
  shows "st = start_replay u \<and> journal_inv cfg [] None None j \<and> \<not> jn_started j \<and> \<not> jn_failed j \<and> \<not> jn_closed j"
proof -
  note L = normalizeConfig_limits[OF cfg]
  have len: "length (journal_header cfg) = 48" using L by (rule length_journal_header)
  define w where "w = (writeFull (ai_writes (oi_header io)) (journal_header cfg) :: ('e journal_error, unit) outcome \<times> byte list)"
  from writeFull_cases[of "ai_writes (oi_header io)" "journal_header cfg", where 'e = 'e]
  consider "w = (Ok (), journal_header cfg)" | e k where "w = (Err e, take k (journal_header cfg))"
    by (metis w_def prod.collapse)
  then show ?thesis
    using assms(2) L len
    by cases (auto simp: open_journal_def cfg replay_journal_def Let_def equalBytes_iff headerBytes_def limits_ok_def
        epoch_ok_def journal_inv_def log_fits_def start_replay_def simp flip: journal_header_def w_def split: if_splits)
qed

section \<open>What opening accepts\<close>

lemma replay_payload_sound:
  fixes consume :: "('s, 'e) consume option"
  assumes "consume = None" "replay_payload consume p st = Ok st'" "3 \<le> length p" "int (length p) \<le> m + 2"
  shows "\<exists>e. p = payload_of e \<and> entry_ok m e \<and> log_ok (epoch_of st) [e] \<and> rp_records st' = rp_records st @ data_of [e] \<and>
    epoch_of st' = epoch_after (epoch_of st) [e]"
proof -
  from assms(3) obtain a b c q where p: "p = a # b # c # q" by (metis Suc_le_length_iff numeral_3_eq_3)
  show ?thesis
  proof (cases "a = recordTypeBoot")
    case True
    then have "p = payload_of (Boot c)" using assms(1,2) p by (auto simp: replay_payload_def split: if_splits)
    moreover have "log_ok (epoch_of st) [Boot c]" "rp_records st' = rp_records st" "epoch_of st' = Some c"
      using assms(1,2) True p by (auto simp: replay_payload_def epoch_of_def journal_constants split: if_splits)
    ultimately show ?thesis by (intro exI[of _ "Boot c"]) simp
  next
    case False
    then have "p = payload_of (Data (c # q))" using assms(1,2) p by (auto simp: replay_payload_def split: if_splits)
    moreover have "log_ok (epoch_of st) [Data (c # q)]" "rp_records st' = rp_records st @ [c # q]" "epoch_of st' = epoch_of st"
      using assms(1,2) False p by (auto simp: replay_payload_def epoch_of_def split: if_splits)
    ultimately show ?thesis using assms(4) p by (intro exI[of _ "Data (c # q)"]) simp
  qed
qed

lemma replay_frames_Ok:
  assumes "replay_frames m consume rest st = Ok (st', tail)"
    and "len = unat (be32 (rest ! 0) (rest ! 1) (rest ! 2) (rest ! 3))" "p = take len (drop 8 rest)"
  shows "st' = st \<and> tail = rest \<or>
    8 \<le> length rest \<and> 3 \<le> len \<and> int len \<le> m + 2 \<and> len \<le> length rest - 8 \<and>
    crc32c p = be32 (rest ! 4) (rest ! 5) (rest ! 6) (rest ! 7) \<and>
    (\<exists>st1. replay_payload consume p st = Ok st1 \<and> replay_frames m consume (drop (8 + len) rest) st1 = Ok (st', tail))"
  using assms(1) unfolding assms(2,3)
  by (subst (asm) replay_frames.simps) (auto simp: recordHeaderBytes_def Let_def not_less split: if_splits)

lemma replay_frames_sound:
  fixes consume :: "('s, 'e) consume option"
  assumes "consume = None" "replay_frames m consume rest st = Ok (st', tail)"
  shows "\<exists>es. rest = frames es @ tail \<and> (\<forall>e \<in> set es. entry_ok m e) \<and> log_ok (epoch_of st) es \<and>
    rp_records st' = rp_records st @ data_of es \<and> epoch_of st' = epoch_after (epoch_of st) es"
  using assms(2)
proof (induction "length rest" arbitrary: rest st rule: less_induct)
  case less
  define len p where "len = unat (be32 (rest ! 0) (rest ! 1) (rest ! 2) (rest ! 3))" and "p = take len (drop 8 rest)"
  from replay_frames_Ok[OF less.prems len_def p_def] show ?case
  proof (elim disjE conjE exE)
    assume "st' = st" "tail = rest"
    then show ?thesis by (intro exI[of _ "[]"]) simp
  next
    fix st1
    assume h: "8 \<le> length rest" "3 \<le> len" "int len \<le> m + 2" "len \<le> length rest - 8"
      "crc32c p = be32 (rest ! 4) (rest ! 5) (rest ! 6) (rest ! 7)"
      "replay_payload consume p st = Ok st1" "replay_frames m consume (drop (8 + len) rest) st1 = Ok (st', tail)"
    have "length p = len" using h by (simp add: p_def)
    with replay_payload_sound[OF assms(1) h(6)] h(2,3) obtain e where e: "p = payload_of e" "entry_ok m e" "log_ok (epoch_of st) [e]"
      "rp_records st1 = rp_records st @ data_of [e]" "epoch_of st1 = epoch_after (epoch_of st) [e]" by metis
    have "length (drop (8 + len) rest) < length rest" using h(1) by simp
    from less.hyps[OF this h(7)] obtain es where es: "drop (8 + len) rest = frames es @ tail" "\<forall>e \<in> set es. entry_ok m e"
      "log_ok (epoch_of st1) es" "rp_records st' = rp_records st1 @ data_of es" "epoch_of st' = epoch_after (epoch_of st1) es" by auto
    have "rest = frames (e # es) @ tail"
      using frame_of_octets[OF h(1) len_def h(4) p_def h(5)] es(1) by (simp add: frame_def e(1))
    moreover have "log_ok (epoch_of st) (e # es)" using e(3,5) es(3) log_ok_append[of "epoch_of st" "[e]" es] by simp
    moreover have "rp_records st' = rp_records st @ data_of (e # es)" using e(4) es(4) data_of_append[of "[e]" es] by simp
    moreover have "epoch_of st' = epoch_after (epoch_of st) (e # es)"
      using e(5) es(5) epoch_after_append[of "epoch_of st" "[e]" es] by simp
    ultimately show ?thesis using e(2) es(2) by (intro exI[of _ "e # es"]) simp
  qed
qed

lemma replay_payload_no_panic: "replay_payload (None :: ('s, 'e) consume option) p st \<noteq> Panic"
  by (simp add: replay_payload_def)

lemma replay_frames_no_panic: "replay_frames m (None :: ('s, 'e) consume option) rest st \<noteq> Panic"
proof (induction "length rest" arbitrary: rest st rule: less_induct)
  case less
  let ?len = "unat (be32 (rest ! 0) (rest ! 1) (rest ! 2) (rest ! 3))"
  have IH: "replay_frames m (None :: ('s, 'e) consume option) (drop (8 + ?len) rest) st' \<noteq> Panic" if "rest \<noteq> []" for st'
    using less[of "drop (8 + ?len) rest" st'] that by simp
  show ?case
    using IH replay_payload_no_panic[of "take ?len (drop 8 rest)" st]
    by (subst replay_frames.simps)
      (auto simp: recordHeaderBytes_def Let_def)
qed

text \<open>
  Whatever file is opened successfully is a header of this component and configuration, whole frames with correct
  checksums that form a log, and at most a partial frame: nothing damaged is skipped.
\<close>

theorem open_journal_sound:
  assumes "open_journal io raw None () img = (Ok (j, st) :: (unit journal_error, Journal \<times> unit replay_state) outcome)" "img \<noteq> []"
  shows "\<exists>cfg es tail. normalizeConfig raw = (Ok cfg :: (unit journal_error, Config_journal) outcome) \<and>
    img = journal_header cfg @ frames es @ tail \<and> rp_records st = data_of es \<and> journal_inv cfg es None None j"
proof -
  from assms(1) obtain cfg where cfg: "normalizeConfig raw = (Ok cfg :: (unit journal_error, Config_journal) outcome)"
    by (auto simp: open_journal_def)
  note L = normalizeConfig_limits[OF cfg]
  have len: "length (journal_header cfg) = 48" using L by (rule length_journal_header)
  from assms cfg have h: "48 \<le> length img" "take 48 img = journal_header cfg"
    by (auto simp: open_journal_def replay_journal_def Let_def equalBytes_iff headerBytes_def not_less
        simp flip: journal_header_def split: if_splits outcome.splits prod.splits)
  then have img: "img = journal_header cfg @ drop 48 img" using append_take_drop_id[of 48 img] by simp
  from assms(1) obtain tail where t: "int (length img) \<le> jc_MaxBytes cfg"
    "replay_frames (jc_MaxRecordBytes cfg) None (drop 48 img) (start_replay ()) =
       (Ok (st, tail) :: (unit journal_error, unit replay_state \<times> byte list) outcome)"
    "j = opened cfg (take (length img - length tail) img) (tail \<noteq> []) st"
    unfolding open_eq[OF cfg img] by (auto split: if_splits outcome.splits)
  from replay_frames_sound[OF refl t(2)] obtain es where es: "drop 48 img = frames es @ tail"
    "\<forall>e \<in> set es. entry_ok (jc_MaxRecordBytes cfg) e" "log_ok None es" "rp_records st = data_of es"
    "epoch_of st = epoch_after None es"
    by (auto simp: start_replay_def epoch_of_def)
  have i: "img = journal_header cfg @ frames es @ tail" using img es(1) by simp
  then have "log_fits cfg es" using es(2,3) t(1) len by (simp add: log_fits_def headerBytes_def)
  moreover have "take (length img - length tail) img = journal_header cfg @ frames es" using i by simp
  ultimately have "journal_inv cfg es None None j" using opened_inv[OF L _ es(5)] t(3) by simp
  then show ?thesis using cfg es(4) i by blast
qed

text \<open>
  Behind a log, arbitrary octets are refused, cut off, or taken for further records where they are whole frames with
  correct checksums; the records of the log itself are never lost.
\<close>

lemma open_any_tail:
  assumes cfg: "normalizeConfig raw = (Ok cfg :: (unit journal_error, Config_journal) outcome)" and fits: "log_fits cfg es"
  shows "(\<exists>e. open_journal io raw None () (journal_header cfg @ frames es @ tail) =
      (Err e :: (unit journal_error, Journal \<times> unit replay_state) outcome)) \<or>
    (\<exists>j st es' rest. open_journal io raw None () (journal_header cfg @ frames es @ tail) =
        (Ok (j, st) :: (unit journal_error, Journal \<times> unit replay_state) outcome) \<and>
      tail = frames es' @ rest \<and> rp_records st = data_of es @ data_of es')"
proof -
  note L = normalizeConfig_limits[OF cfg]
  let ?open = "open_journal io raw None () (journal_header cfg @ frames es @ tail) ::
    (unit journal_error, Journal \<times> unit replay_state) outcome"
  let ?c = "None :: (unit, unit) consume option"
  have m: "0 < jc_MaxRecordBytes cfg" "jc_MaxRecordBytes cfg \<le> 67108864" using L by (simp_all add: limits_ok_def)
  have "log_ok (epoch_of (start_replay ())) es" using fits by (simp add: log_fits_def)
  then obtain st0 where st0: "replay_entries ?c es (start_replay ()) = Ok st0" "rp_records st0 = data_of es"
    using replay_entries_collect[of ?c "start_replay ()" es] by (auto simp: start_replay_def)
  then have loop: "replay_frames (jc_MaxRecordBytes cfg) ?c (frames es @ tail) (start_replay ()) =
      replay_frames (jc_MaxRecordBytes cfg) ?c tail st0"
    using replay_frames_prefix[OF _ m, of es ?c tail "start_replay ()"] fits by (simp add: log_fits_def)
  show ?thesis
  proof (cases ?open)
    case (Ok r)
    obtain j st where r: "r = (j, st)" by (cases r)
    with Ok obtain rest where "replay_frames (jc_MaxRecordBytes cfg) ?c tail st0 = Ok (st, rest)"
      unfolding open_eq[OF cfg refl] loop by (auto split: if_splits outcome.splits)
    from replay_frames_sound[OF refl this] obtain es' where "tail = frames es' @ rest" "rp_records st = data_of es @ data_of es'"
      using st0(2) by auto
    then show ?thesis using Ok r by blast
  next
    case Panic
    then show ?thesis using replay_frames_no_panic[of "jc_MaxRecordBytes cfg" tail st0]
      unfolding open_eq[OF cfg refl] loop by (auto split: if_splits outcome.splits)
  qed blast
qed

text \<open>A crash during the very first write of the header is not repaired: the journal then refuses to open.\<close>

lemma partial_header_refused:
  fixes consume :: "('s, 'e) consume option"
  assumes "normalizeConfig raw = (Ok cfg :: ('e journal_error, Config_journal) outcome)" "0 < n" "n < 48"
  shows "open_journal io raw consume u (take n (journal_header cfg)) = Err ErrCorrupt_journal"
  using assms(2,3) length_journal_header[OF normalizeConfig_limits[OF assms(1)]] normalizeConfig_limits[OF assms(1)]
  by (auto simp: open_journal_def assms(1) replay_journal_def Let_def headerBytes_def limits_ok_def)

section \<open>The life of a journal\<close>

text \<open>
  A journal from a successful opening of any file, new or left by an earlier run, over any sequence of operations and
  answers of the system. The second argument is the list of data records that the opening has returned and the operations
  have acknowledged, the third the lists that a crash may yield instead: after a write or fsync that failed the record may
  or may not be in the file, and after a compaction that failed behind its rename either of the two files may be found.
\<close>

inductive journal_run :: "Config_journal \<Rightarrow> byte list list \<Rightarrow> byte list list set \<Rightarrow> Journal \<Rightarrow> bool" for raw where
  run_open: "open_journal io raw None () img = (Ok (j, st) :: (unit journal_error, Journal \<times> unit replay_state) outcome) \<Longrightarrow>
    journal_run raw (rp_records st) {} j"
| run_start: "journal_run raw ds doubt j \<Longrightarrow> journal_run raw ds doubt (snd (Start_journal io j :: (unit journal_error, unit) outcome \<times> Journal))"
| run_append: "journal_run raw ds doubt j \<Longrightarrow> Append_journal io d j = (Ok () :: (unit journal_error, unit) outcome, j') \<Longrightarrow>
    journal_run raw (ds @ [d]) {} j'"
| run_append_failed: "journal_run raw ds doubt j \<Longrightarrow> Append_journal io d j = (Err e :: (unit journal_error, unit) outcome, j') \<Longrightarrow>
    journal_run raw ds (if e \<in> {FileError, ShortWrite} then insert (ds @ [d]) doubt else doubt) j'"
| run_compact: "journal_run raw ds doubt j \<Longrightarrow> Compact cio rs j = (Ok () :: (unit journal_error, unit) outcome, j') \<Longrightarrow>
    journal_run raw rs {} j'"
| run_compact_failed: "journal_run raw ds doubt j \<Longrightarrow> Compact cio rs j = (Err e :: (unit journal_error, unit) outcome, j') \<Longrightarrow>
    journal_run raw ds (if e = FileError then insert rs doubt else doubt) j'"
| run_close: "journal_run raw ds doubt j \<Longrightarrow> journal_run raw ds doubt (Close_journal j)"

lemma open_recovers:
  assumes cfg: "normalizeConfig raw = (Ok cfg :: ('e journal_error, Config_journal) outcome)"
    and inv: "journal_inv cfg es pending old j" and img: "img \<in> crash_images j"
  shows "(\<exists>j' st es'. open_journal io raw (None :: (unit, 'e) consume option) () img = Ok (j', st) \<and>
    es' \<in> recoverable es pending old \<and> rp_records st = data_of es' \<and> journal_inv cfg es' None None j') \<or>
    \<not> truncates io \<and> open_journal io raw (None :: (unit, 'e) consume option) () img = Err FileError"
proof -
  obtain es' tail where i: "img = journal_header cfg @ frames es' @ tail" and es': "es' \<in> recoverable es pending old"
    and fit: "log_fits cfg es'" and tail: "torn (jc_MaxRecordBytes cfg) tail"
      "int (48 + length (frames es') + length tail) \<le> jc_MaxBytes cfg"
    using crash_image_log[OF inv img] .
  let ?c = "None :: (unit, 'e) consume option"
  have "log_ok (epoch_of (start_replay ())) es'" using fit by (simp add: log_fits_def)
  then obtain st where st: "replay_entries ?c es' (start_replay ()) = Ok st" "rp_records st = data_of es'"
    "epoch_of st = epoch_after None es'"
    using replay_entries_collect[of ?c "start_replay ()" es'] by (auto simp: start_replay_def epoch_of_def)
  then show ?thesis using open_image[OF cfg fit st(1,3) torn_replays[OF cfg tail(1)] tail(2), of io] es' i by blast
qed

definition doubtful :: "entry list \<Rightarrow> entry option \<Rightarrow> entry list option \<Rightarrow> byte list list set" where
  "doubtful es pending old = data_of ` recoverable es pending old"

lemma doubtful_simps:
  "doubtful es pending old = {data_of es} \<union> (\<lambda>e. data_of es @ data_of [e]) ` set_option pending \<union> data_of ` set_option old"
  by (auto simp: doubtful_def recoverable_def image_Un image_image)

definition tracks :: "Config_journal \<Rightarrow> byte list list \<Rightarrow> byte list list set \<Rightarrow> Journal \<Rightarrow> bool" where
  "tracks raw ds doubt j \<longleftrightarrow> (\<exists>cfg es pending old. normalizeConfig raw = (Ok cfg :: (unit journal_error, Config_journal) outcome) \<and>
     journal_inv cfg es pending old j \<and> doubtful es pending old \<subseteq> insert ds doubt \<and> (jn_failed j \<or> data_of es = ds))"

lemma tracksI:
  "normalizeConfig raw = (Ok cfg :: (unit journal_error, Config_journal) outcome) \<Longrightarrow> journal_inv cfg es pending old j \<Longrightarrow>
   doubtful es pending old \<subseteq> insert ds doubt \<Longrightarrow> jn_failed j \<or> data_of es = ds \<Longrightarrow> tracks raw ds doubt j"
  unfolding tracks_def by blast

lemma tracksE:
  assumes "tracks raw ds doubt j"
  obtains cfg es pending old where "normalizeConfig raw = (Ok cfg :: (unit journal_error, Config_journal) outcome)"
    "journal_inv cfg es pending old j" "doubtful es pending old \<subseteq> insert ds doubt" "jn_failed j \<or> data_of es = ds"
  using assms unfolding tracks_def by blast

lemma tracks_Start:
  assumes "tracks raw ds doubt j"
  shows "tracks raw ds doubt (snd (Start_journal io j :: (unit journal_error, unit) outcome \<times> Journal))"
proof -
  obtain cfg es pending old where cfg: "normalizeConfig raw = (Ok cfg :: (unit journal_error, Config_journal) outcome)"
    and inv: "journal_inv cfg es pending old j" and sub: "doubtful es pending old \<subseteq> insert ds doubt" "jn_failed j \<or> data_of es = ds"
    using assms by (rule tracksE)
  from Start_journal_cases[OF inv, of io, where 'e = unit] show ?thesis
  proof (elim disjE exE conjE)
    fix j' b
    assume s: "Start_journal io j = (Ok () :: (unit journal_error, unit) outcome, j')" "journal_inv cfg (es @ b) None None j'" "data_of b = []"
    then have "\<not> jn_failed j" by (auto simp: Start_journal_def split: if_splits)
    with s sub have "tracks raw ds doubt j'" by (intro tracksI[OF cfg s(2)]) (auto simp: doubtful_simps)
    with s show ?thesis by simp
  qed (use tracksI[OF cfg] sub in \<open>auto simp: doubtful_simps\<close>)
qed

lemma tracks_Append:
  assumes "tracks raw ds doubt j"
  shows "Append_journal io d j = (Ok () :: (unit journal_error, unit) outcome, j') \<Longrightarrow> tracks raw (ds @ [d]) {} j'"
    "Append_journal io d j = (Err e :: (unit journal_error, unit) outcome, j') \<Longrightarrow>
       tracks raw ds (if e \<in> {FileError, ShortWrite} then insert (ds @ [d]) doubt else doubt) j'"
proof -
  obtain cfg es pending old where cfg: "normalizeConfig raw = (Ok cfg :: (unit journal_error, Config_journal) outcome)"
    and inv: "journal_inv cfg es pending old j" and sub: "doubtful es pending old \<subseteq> insert ds doubt" "jn_failed j \<or> data_of es = ds"
    using assms by (rule tracksE)
  note A = Append_journal_cases[OF inv, of io d, where 'e = unit]
  have fresh: "\<not> jn_failed j \<or> Append_journal io d j = (Err ClosedJournal :: (unit journal_error, unit) outcome, j) \<or>
      Append_journal io d j = (Err FailedJournal :: (unit journal_error, unit) outcome, j)" by (simp add: Append_journal_def)
  show "tracks raw (ds @ [d]) {} j'" if "Append_journal io d j = (Ok () :: (unit journal_error, unit) outcome, j')"
  proof -
    have "journal_inv cfg (es @ [Data d]) None None j'" "data_of es = ds" using A that fresh sub(2) by auto
    then show ?thesis by (intro tracksI[OF cfg]) (auto simp: doubtful_simps)
  qed
  show "tracks raw ds (if e \<in> {FileError, ShortWrite} then insert (ds @ [d]) doubt else doubt) j'"
    if e: "Append_journal io d j = (Err e :: (unit journal_error, unit) outcome, j')"
  proof (cases "e \<in> {FileError, ShortWrite}")
    case True
    then have "journal_inv cfg es (Some (Data d)) None j'" "data_of es = ds" using A e fresh sub(2) by auto
    then show ?thesis using True by (intro tracksI[OF cfg]) (auto simp: doubtful_simps)
  next
    case False
    then have "journal_inv cfg es pending old j'" "jn_failed j \<longrightarrow> jn_failed j'" using A e by auto
    then show ?thesis using False sub by (intro tracksI[OF cfg]) auto
  qed
qed

lemma tracks_Compact:
  assumes "tracks raw ds doubt j"
  shows "Compact io rs j = (Ok () :: (unit journal_error, unit) outcome, j') \<Longrightarrow> tracks raw rs {} j'"
    "Compact io rs j = (Err e :: (unit journal_error, unit) outcome, j') \<Longrightarrow>
       tracks raw ds (if e = FileError then insert rs doubt else doubt) j'"
proof -
  obtain cfg es pending old where cfg: "normalizeConfig raw = (Ok cfg :: (unit journal_error, Config_journal) outcome)"
    and inv: "journal_inv cfg es pending old j" and sub: "doubtful es pending old \<subseteq> insert ds doubt" "jn_failed j \<or> data_of es = ds"
    using assms by (rule tracksE)
  note C = Compact_cases[OF inv, of io rs, where 'e = unit]
  have fresh: "\<not> jn_failed j \<or> Compact io rs j = (Err ClosedJournal :: (unit journal_error, unit) outcome, j) \<or>
      Compact io rs j = (Err FailedJournal :: (unit journal_error, unit) outcome, j)" by (simp add: Compact_def)
  show "tracks raw rs {} j'" if k: "Compact io rs j = (Ok () :: (unit journal_error, unit) outcome, j')"
  proof -
    obtain c where "journal_inv cfg (Boot c # map Data rs) None None j'" using C k by auto
    then show ?thesis by (rule tracksI[OF cfg]) (auto simp: doubtful_simps)
  qed
  show "tracks raw ds (if e = FileError then insert rs doubt else doubt) j'"
    if e: "Compact io rs j = (Err e :: (unit journal_error, unit) outcome, j')"
  proof (cases "j' = j")
    case True
    then show ?thesis using inv sub by (intro tracksI[OF cfg]) auto
  next
    case False
    then obtain c old' where c: "journal_inv cfg (Boot c # map Data rs) None old' j'" "old' = None \<or> old' = Some es"
      "jn_failed j'" "e = FileError" "data_of es = ds"
      using C e fresh sub(2) by auto
    then have "doubtful (Boot c # map Data rs) None old' \<subseteq> {rs, ds}" by (auto simp: doubtful_simps)
    then show ?thesis using c by (intro tracksI[OF cfg c(1)]) auto
  qed
qed

lemma journal_run_tracks: "journal_run raw ds doubt j \<Longrightarrow> tracks raw ds doubt j"
proof (induction rule: journal_run.induct)
  case (run_open io img j st)
  then obtain cfg where cfg: "normalizeConfig raw = (Ok cfg :: (unit journal_error, Config_journal) outcome)"
    by (auto simp: open_journal_def)
  obtain es where "rp_records st = data_of es" "journal_inv cfg es None None j"
  proof (cases "img = []")
    case True
    with run_open have "open_journal io raw None () [] = (Ok (j, st) :: (unit journal_error, Journal \<times> unit replay_state) outcome)"
      by simp
    from open_new[OF cfg this] show thesis by (intro that[of "[]"]) (simp_all add: start_replay_def)
  next
    case False
    from open_journal_sound[OF run_open False] cfg that show thesis by auto
  qed
  then show ?case by (intro tracksI[OF cfg]) (auto simp: doubtful_simps)
next
  case (run_close ds doubt j)
  from run_close.IH obtain cfg es pending old where cfg: "normalizeConfig raw = (Ok cfg :: (unit journal_error, Config_journal) outcome)"
    and inv: "journal_inv cfg es pending old j" and sub: "doubtful es pending old \<subseteq> insert ds doubt" "jn_failed j \<or> data_of es = ds"
    by (rule tracksE)
  have "journal_inv cfg es pending old (Close_journal j)" "jn_failed (Close_journal j) = jn_failed j"
    using inv by (simp_all add: journal_inv_def Close_journal_def cong: option.case_cong)
  then show ?case using sub by (intro tracksI[OF cfg]) auto
next
  case (run_start ds doubt j io)
  then show ?case by (intro tracks_Start)
next
  case (run_append ds doubt j io d j')
  show ?case using run_append.IH run_append.hyps(2) by (rule tracks_Append(1))
next
  case (run_append_failed ds doubt j io d e j')
  show ?case using run_append_failed.IH run_append_failed.hyps(2) by (rule tracks_Append(2))
next
  case (run_compact ds doubt j cio rs j')
  show ?case using run_compact.IH run_compact.hyps(2) by (rule tracks_Compact(1))
next
  case (run_compact_failed ds doubt j cio rs e j')
  show ?case using run_compact_failed.IH run_compact_failed.hyps(2) by (rule tracks_Compact(2))
qed

text \<open>C18: (safety) Crash recovery of the control-state journal, from any successful opening on, over any sequence of starts,
  appends, compactions and failures of the file system. Where octets reach the disk in order, so that a crash leaves what
  was synced and a prefix of what was written after it, opening what is left returns exactly the acknowledged records, or,
  where the last operation reported a file error, possibly what that operation was about to write, and a partial frame at
  the end is cut off; the one error is the file error of a system that fails to truncate or sync that cut. Where a crash
  may leave any other octets behind what was synced (zeroes, stale or reordered blocks), opening fails with an error or
  returns the acknowledged records (or those the last, failed operation was about to leave), followed only by records read
  from whole frames with correct checksums in those octets: nothing acknowledged is lost without an error. (A crash before
  the first opening has returned may leave part of the header, which is refused, \<^verbatim>\<open>partial_header_refused\<close>.)\<close>

theorem journal_crash_recovery:
  assumes "journal_run raw ds doubt j"
  shows "(\<forall>img \<in> crash_images j.
      (\<exists>j' st. open_journal io raw None () img = (Ok (j', st) :: (unit journal_error, Journal \<times> unit replay_state) outcome) \<and>
         rp_records st \<in> insert ds doubt) \<or>
      \<not> truncates io \<and> open_journal io raw None () img = (Err FileError :: (unit journal_error, Journal \<times> unit replay_state) outcome)) \<and>
    (\<exists>acknowledged. (acknowledged = ds \<or> jn_failed j \<and> acknowledged \<in> doubt) \<and> (\<forall>tail.
      (\<exists>e. open_journal io raw None () (jn_synced j @ tail) = (Err e :: (unit journal_error, Journal \<times> unit replay_state) outcome)) \<or>
      (\<exists>j' st es rest. open_journal io raw None () (jn_synced j @ tail) =
          (Ok (j', st) :: (unit journal_error, Journal \<times> unit replay_state) outcome) \<and>
         tail = frames es @ rest \<and> rp_records st = acknowledged @ data_of es)))"
proof -
  obtain cfg es pending old where cfg: "normalizeConfig raw = (Ok cfg :: (unit journal_error, Config_journal) outcome)"
    and inv: "journal_inv cfg es pending old j" and sub: "doubtful es pending old \<subseteq> insert ds doubt" "jn_failed j \<or> data_of es = ds"
    using journal_run_tracks[OF assms] by (rule tracksE)
  have images: "(\<exists>j' st. open_journal io raw None () img = (Ok (j', st) :: (unit journal_error, Journal \<times> unit replay_state) outcome) \<and>
       rp_records st \<in> insert ds doubt) \<or>
      \<not> truncates io \<and> open_journal io raw None () img = (Err FileError :: (unit journal_error, Journal \<times> unit replay_state) outcome)"
    if "img \<in> crash_images j" for img
    using open_recovers[OF cfg inv that, of io] sub(1) by (auto simp: doubtful_def)
  have "jn_synced j = journal_header cfg @ frames es" "log_fits cfg es" using inv by (simp_all add: journal_inv_def)
  then have tails: "(\<exists>e. open_journal io raw None () (jn_synced j @ tail) = (Err e :: (unit journal_error, Journal \<times> unit replay_state) outcome)) \<or>
      (\<exists>j' st es' rest. open_journal io raw None () (jn_synced j @ tail) =
          (Ok (j', st) :: (unit journal_error, Journal \<times> unit replay_state) outcome) \<and>
         tail = frames es' @ rest \<and> rp_records st = data_of es @ data_of es')" for tail
    using open_any_tail[OF cfg, of es io tail] by simp
  have "data_of es \<in> insert ds doubt" using sub(1) by (auto simp: doubtful_simps)
  then have "data_of es = ds \<or> jn_failed j \<and> data_of es \<in> doubt" using sub(2) by blast
  with images tails show ?thesis by blast
qed

text \<open>A journal that has acknowledged one record and whose next append fails after five octets.\<close>

definition sample_config :: Config_journal where
  "sample_config = \<lparr>jc_Magic = str ''LSNSGWC1'', jc_Identity = [1], jc_MaxBytes = 4096, jc_MaxRecordBytes = DefaultMaxRecord, jc_RecoverySeed = 7\<rparr>"

definition calm :: append_io where "calm = \<lparr>ai_writes = [], ai_sync = True\<rparr>"

definition calm_open :: open_io where "calm_open = \<lparr>oi_header = calm, oi_truncate = True, oi_sync = True\<rparr>"

definition sample_journal :: "byte list \<Rightarrow> byte list \<Rightarrow> 64 word \<Rightarrow> 64 word \<Rightarrow> 64 word \<Rightarrow> bool \<Rightarrow> bool \<Rightarrow> Journal" where
  "sample_journal synced unsynced records datas starts started failed =
     \<lparr>jn_synced = synced, jn_unsynced = unsynced, jn_replaced = None, jn_header = journal_header sample_config, jn_maxBytes = 4096,
      jn_maxRecord = DefaultMaxRecord, jn_stats = \<lparr>js_Bytes = int (length synced), js_Records = records, js_DataRecords = datas, js_Starts = starts,
        js_Compactions = 0, js_RecoveryCounter = 7, js_RecoveredTail = False\<rparr>,
      jn_failed = failed, jn_started = started, jn_closed = False\<rparr>"

definition torn_journal :: Journal where
  "torn_journal = sample_journal (journal_header sample_config @ frames [Boot 7, Data [1, 2, 3]]) (take 5 (frame (Data [9]))) 2 1 1 True True"

lemma writeFull_calm [simp]: "writeFull [] d = (Ok (), d)"
  by (cases d) simp_all

lemma sample_config_ok: "normalizeConfig sample_config = Ok sample_config"
  by (simp add: normalizeConfig_def sample_config_def str_def journal_constants DefaultMaxRecord_def)

lemma sample_header_length [simp]: "length (journal_header sample_config) = 48"
  using normalizeConfig_limits[OF sample_config_ok] by (rule length_journal_header)

lemma sample_open: "open_journal calm_open sample_config consume u [] =
    Ok (sample_journal (journal_header sample_config) [] 0 0 0 False False, start_replay u)"
proof -
  have "jc_MaxBytes sample_config = 4096" "jc_MaxRecordBytes sample_config = DefaultMaxRecord" "jc_RecoverySeed sample_config = 7"
    by (simp_all add: sample_config_def)
  then show ?thesis
    by (simp add: open_journal_def sample_config_ok replay_journal_def calm_open_def calm_def equalBytes_iff headerBytes_def
        start_replay_def sample_journal_def Let_def flip: journal_header_def)
qed

lemma sample_run: "journal_run sample_config [[1, 2, 3]] {[[1, 2, 3], [9]]} torn_journal"
proof -
  let ?h = "journal_header sample_config"
  have 0: "journal_run sample_config [] {} (sample_journal ?h [] 0 0 0 False False)" using run_open[OF sample_open] by (simp add: start_replay_def)
  have "Start_journal calm (sample_journal ?h [] 0 0 0 False False) =
      (Ok () :: (unit journal_error, unit) outcome, sample_journal (?h @ frames [Boot 7]) [] 1 0 1 True False)"
    by (simp add: Start_journal_def appendFrame_def sample_journal_def calm_def frame_def Let_def)
  with run_start[OF 0, of calm] have 1: "journal_run sample_config [] {} (sample_journal (?h @ frames [Boot 7]) [] 1 0 1 True False)"
    by simp
  have "Append_journal calm [1, 2, 3] (sample_journal (?h @ frames [Boot 7]) [] 1 0 1 True False) =
      (Ok () :: (unit journal_error, unit) outcome, sample_journal (?h @ frames [Boot 7, Data [1, 2, 3]]) [] 2 1 1 True False)"
    by (simp add: Append_journal_def appendFrame_def sample_journal_def calm_def frame_def Let_def DefaultMaxRecord_def)
  from run_append[OF 1 this] have 2: "journal_run sample_config [[1, 2, 3]] {}
      (sample_journal (?h @ frames [Boot 7, Data [1, 2, 3]]) [] 2 1 1 True False)" by simp
  have "writeFull [(5, True)] (makeFrame [2, 1, 9]) = (Err FileError :: (unit journal_error, unit) outcome, take 5 (makeFrame [2, 1, 9]))"
    by (cases "makeFrame [2, 1, 9]") (simp_all flip: length_0_conv)
  then have "Append_journal \<lparr>ai_writes = [(5, True)], ai_sync = True\<rparr> [9]
      (sample_journal (?h @ frames [Boot 7, Data [1, 2, 3]]) [] 2 1 1 True False) = (Err FileError :: (unit journal_error, unit) outcome, torn_journal)"
    by (simp add: Append_journal_def appendFrame_def sample_journal_def torn_journal_def frame_def Let_def journal_constants
        DefaultMaxRecord_def)
  from run_append_failed[OF 2 this] show ?thesis by simp
qed

theorem journal_crash_recovery_witness:
  "journal_run sample_config [[1, 2, 3]] {[[1, 2, 3], [9]]} torn_journal \<and>
   journal_header sample_config @ frames [Boot 7, Data [1, 2, 3]] @ take 2 (frame (Data [9])) \<in> crash_images torn_journal \<and>
   (\<exists>j' st. open_journal calm_open sample_config None ()
        (journal_header sample_config @ frames [Boot 7, Data [1, 2, 3]] @ take 2 (frame (Data [9]))) =
      (Ok (j', st) :: (unit journal_error, Journal \<times> unit replay_state) outcome) \<and>
     rp_records st \<in> {[[1, 2, 3]], [[1, 2, 3], [9]]})"
proof -
  let ?img = "journal_header sample_config @ frames [Boot 7, Data [1, 2, 3]] @ take 2 (frame (Data [9]))"
  have img: "?img \<in> crash_images torn_journal"
    unfolding crash_images_def torn_journal_def sample_journal_def by (auto intro!: image_eqI[of _ _ 2] simp: min_def)
  have "truncates calm_open" by (simp add: truncates_def calm_open_def)
  with journal_crash_recovery[OF sample_run, of calm_open, THEN conjunct1, rule_format, OF img] sample_run img show ?thesis
    by simp
qed

end
