(* ===== verification/Sgwc_Wal.thy ===== *)
theory Sgwc_Wal
  imports Sgwc_Session Control_Journal
begin

unbundle bit_operations_syntax

text \<open>
  The durable persister of the SGW-C session store, \<^verbatim>\<open>internal/sgwc/session/wal.go\<close>: every accepted change of the store is
  appended to the control-state journal before the store changes, a copy of each live session is kept for compaction, and
  opening replays the journal into the list of sessions from which the store is restored. The theory connects the store
  of \<^verbatim>\<open>Sgwc_Session\<close> with the journal of \<^verbatim>\<open>Control_Journal\<close>: what is found after a crash is what the store held.

  \<^verbatim>\<open>encoding/json\<close> is an argument: the encoding of a record, which may fail, and the strict decoding of one value. The
  property relied on is that a record whose strings are ASCII and whose addresses have no IPv6 zone is decoded back from
  its encoding: Go replaces octets that are not UTF-8, and a zone may hold any octets.
\<close>

section \<open>Records and codec\<close>

definition walOperationUpsert :: gostring where "walOperationUpsert = str ''upsert''"
definition walOperationDelete :: gostring where "walOperationDelete = str ''delete''"
definition walOperationSnapshot :: gostring where "walOperationSnapshot = str ''snapshot''"


record walRecord =
  wr_Operation :: gostring
  wr_Session :: Session_sgwc

record wal_json =
  wj_Marshal :: "walRecord \<Rightarrow> byte list option"
  wj_Decode :: "byte list \<Rightarrow> walRecord option"

datatype wal_corrupt = ErrCorrupt_wal

datatype wal_error = EmptyTransition | InvalidTransition sgwc_error | StateMismatch | NotEncodable
  | CorruptIndexes | JournalError "wal_corrupt journal_error"

record WAL =
  wal_journal :: Journal
  wal_snapshots :: "64 word \<rightharpoonup> byte list"
  wal_snapshotBytes :: int

definition encodeWALRecord :: "wal_json \<Rightarrow> gostring \<Rightarrow> Session_sgwc \<Rightarrow> byte list option" where
  "encodeWALRecord json operation candidate = wj_Marshal json \<lparr>wr_Operation = operation, wr_Session = candidate\<rparr>"

definition decodeWALRecord :: "wal_json \<Rightarrow> byte list \<Rightarrow> walRecord option" where
  "decodeWALRecord json raw =
     (case wj_Decode json raw of None \<Rightarrow> None
      | Some record \<Rightarrow> (case validateWALSession_sgwc (wr_Session record) of Ok _ \<Rightarrow> Some record | _ \<Rightarrow> None))"

definition validWALUpdate :: "Session_sgwc \<Rightarrow> Session_sgwc \<Rightarrow> bool" where
  "validWALUpdate previous nxt \<longleftrightarrow> ss_ID nxt = ss_ID previous \<and> ss_Revision nxt = ss_Revision previous + 1 \<and>
     ss_SubscriberKey nxt = ss_SubscriberKey previous \<and> EqualFold (ss_APN nxt) (ss_APN previous) \<and>
     ss_S11Control nxt = ss_S11Control previous \<and> ss_MMEControl nxt = ss_MMEControl previous \<and>
     ss_PFCPControlSEID nxt = ss_PFCPControlSEID previous \<and> ss_CreatedAt nxt = ss_CreatedAt previous"

section \<open>Opening\<close>

text \<open>The replay callback on the table of sessions and the flag of the snapshot phase.\<close>

definition wal_consume :: "wal_json \<Rightarrow> ((64 word \<rightharpoonup> Session_sgwc) \<times> bool, wal_corrupt) consume" where
  "wal_consume json index raw = (\<lambda>(byID, snapshotPhase).
     case decodeWALRecord json raw of None \<Rightarrow> Err ErrCorrupt_wal
     | Some record \<Rightarrow>
         let candidate = wr_Session record; sid = ss_ID candidate; current = byID sid in
         if wr_Operation record = walOperationSnapshot then
           if \<not> snapshotPhase \<or> current \<noteq> None then Err ErrCorrupt_wal
           else Ok (byID(sid \<mapsto> candidate), snapshotPhase)
         else if wr_Operation record = walOperationUpsert then
           case current of
             None \<Rightarrow> if ss_Revision candidate \<noteq> 1 then Err ErrCorrupt_wal else Ok (byID(sid \<mapsto> candidate), False)
           | Some stored \<Rightarrow>
               if \<not> validWALUpdate stored candidate then Err ErrCorrupt_wal else Ok (byID(sid \<mapsto> candidate), False)
         else if wr_Operation record = walOperationDelete then
           if current \<noteq> Some candidate then Err ErrCorrupt_wal else Ok (byID(sid := None), False)
         else Err ErrCorrupt_wal)"











text \<open>\<^verbatim>\<open>OpenWAL\<close> on the contents of the file; the sessions are sorted by identifier.\<close>

definition table_list :: "(64 word \<rightharpoonup> Session_sgwc) \<Rightarrow> Session_sgwc list" where
  "table_list byID = map (\<lambda>sid. the (byID sid)) (sorted_list_of_set (dom byID))"


section \<open>Start, commit and compaction\<close>


definition compactLocked :: "compact_io \<Rightarrow> WAL \<Rightarrow> (wal_corrupt journal_error, unit) outcome \<times> Journal" where
  "compactLocked io w =
     Compact io (map (\<lambda>sid. the (wal_snapshots w sid)) (sorted_list_of_set (dom (wal_snapshots w)))) (wal_journal w)"

record commit_io =
  ci_append :: append_io
  ci_compact :: compact_io

text \<open>The record of a transition: what is next, or that the previous session is deleted.\<close>

definition transition_record :: "Session_sgwc option \<Rightarrow> Session_sgwc option \<Rightarrow> walRecord option" where
  "transition_record previous nxt =
     (case nxt of Some n \<Rightarrow> Some \<lparr>wr_Operation = walOperationUpsert, wr_Session = n\<rparr>
      | None \<Rightarrow> (case previous of Some p \<Rightarrow> Some \<lparr>wr_Operation = walOperationDelete, wr_Session = p\<rparr> | None \<Rightarrow> None))"

text \<open>The checks against the state that the journal has.\<close>

definition transition_check ::
  "wal_json \<Rightarrow> WAL \<Rightarrow> 64 word \<Rightarrow> Session_sgwc option \<Rightarrow> Session_sgwc option \<Rightarrow> (wal_error, unit) outcome" where
  "transition_check json w sid previous nxt =
     (case previous of
        None \<Rightarrow> if wal_snapshots w sid \<noteq> None \<or> (case nxt of None \<Rightarrow> True | Some n \<Rightarrow> ss_Revision n \<noteq> 1)
          then Err StateMismatch else Ok ()
      | Some p \<Rightarrow>
          (case encodeWALRecord json walOperationSnapshot p of None \<Rightarrow> Err NotEncodable
           | Some expected \<Rightarrow>
               if wal_snapshots w sid \<noteq> Some expected then Err StateMismatch
               else case nxt of None \<Rightarrow> Ok () | Some n \<Rightarrow> if \<not> validWALUpdate p n then Err StateMismatch else Ok ()))"

text \<open>The bookkeeping after a successful append.\<close>

definition record_snapshot :: "64 word \<Rightarrow> byte list option \<Rightarrow> WAL \<Rightarrow> WAL" where
  "record_snapshot sid nextSnapshot w =
     (let bytes = wal_snapshotBytes w -
            (case wal_snapshots w sid of None \<Rightarrow> 0 | Some prior \<Rightarrow> DataFrameBytes (int (length prior))) in
      case nextSnapshot of
        None \<Rightarrow> w\<lparr>wal_snapshots := (wal_snapshots w)(sid := None), wal_snapshotBytes := bytes\<rparr>
      | Some snapshot \<Rightarrow> w\<lparr>wal_snapshots := (wal_snapshots w)(sid \<mapsto> snapshot),
          wal_snapshotBytes := bytes + DataFrameBytes (int (length snapshot))\<rparr>)"

definition Commit_wal ::
  "wal_json \<Rightarrow> commit_io \<Rightarrow> Session_sgwc option \<Rightarrow> Session_sgwc option \<Rightarrow> WAL \<Rightarrow> (wal_error, unit) outcome \<times> WAL" where
  "Commit_wal json io previous nxt w =
     (case transition_record previous nxt of None \<Rightarrow> (Err EmptyTransition, w)
      | Some record \<Rightarrow>
      case validateWALSession_sgwc (wr_Session record) of Err e \<Rightarrow> (Err (InvalidTransition e), w) | Panic \<Rightarrow> (Panic, w)
      | Ok _ \<Rightarrow>
      case transition_check json w (ss_ID (wr_Session record)) previous nxt of Err e \<Rightarrow> (Err e, w) | Panic \<Rightarrow> (Panic, w)
      | Ok _ \<Rightarrow>
      case wj_Marshal json record of None \<Rightarrow> (Err NotEncodable, w)
      | Some encoded \<Rightarrow>
      case (case nxt of None \<Rightarrow> Some None
            | Some n \<Rightarrow> map_option Some (encodeWALRecord json walOperationSnapshot n)) of None \<Rightarrow> (Err NotEncodable, w)
      | Some nextSnapshot \<Rightarrow>
      case (if NeedsCompaction (wal_snapshotBytes w) (int (length encoded)) (wal_journal w)
            then compactLocked (ci_compact io) w else (Ok (), wal_journal w)) of
        (Err e, j) \<Rightarrow> (Err (JournalError e), w\<lparr>wal_journal := j\<rparr>)
      | (Panic, j) \<Rightarrow> (Panic, w\<lparr>wal_journal := j\<rparr>)
      | (Ok _, j) \<Rightarrow>
      case Append_journal (ci_append io) encoded j of
        (Err e, j) \<Rightarrow> (Err (JournalError e), w\<lparr>wal_journal := j\<rparr>)
      | (Panic, j) \<Rightarrow> (Panic, w\<lparr>wal_journal := j\<rparr>)
      | (Ok _, j) \<Rightarrow>
          (Ok (), record_snapshot (ss_ID (wr_Session record)) nextSnapshot (w\<lparr>wal_journal := j\<rparr>)))"

text \<open>
  The persister of the store: a log and the system's answers to its commits to come; a commit beyond the list meets
  no error.
\<close>

definition calm_commit :: commit_io where
  "calm_commit = \<lparr>ci_append = \<lparr>ai_writes = [], ai_sync = True\<rparr>, ci_compact = Compacts\<rparr>"

type_synonym wal_world = "WAL \<times> commit_io list"

definition wal_commit :: "wal_json \<Rightarrow> wal_world commit_sgwc" where
  "wal_commit json previous nxt = (\<lambda>(w, ios).
     case Commit_wal json (case ios of [] \<Rightarrow> calm_commit | io # _ \<Rightarrow> io) previous nxt w of
       (r, w) \<Rightarrow> (is_Ok r, (w, tl ios)))"

section \<open>Replaying the records of transitions\<close>





definition replays :: "wal_json \<Rightarrow> byte list list \<Rightarrow> (64 word \<rightharpoonup> Session_sgwc) \<Rightarrow> bool" where
  "replays json ds t \<longleftrightarrow> (\<exists>phase. consume_all (wal_consume json) 0 ds (Map.empty, True) = Ok (t, phase))"







section \<open>Snapshots\<close>



lemma finite_ids [simp]: "finite (A :: 64 word set)"
  by (rule finite_subset[OF subset_UNIV]) simp


section \<open>The log follows the table\<close>

text \<open>Whatever file a crash leaves, its records replay to a table in \<open>T\<close>.\<close>

definition holds :: "wal_json \<Rightarrow> Config_journal \<Rightarrow> (64 word \<rightharpoonup> Session_sgwc) set \<Rightarrow> Journal \<Rightarrow> bool" where
  "holds json cfg T j \<longleftrightarrow> (\<exists>es pending old. journal_inv cfg es pending old j \<and>
     (\<forall>es' \<in> recoverable es pending old. \<exists>t \<in> T. replays json (data_of es') t))"


lemma holds_mono: "holds json cfg T j \<Longrightarrow> T \<subseteq> T' \<Longrightarrow> holds json cfg T' j"
  unfolding holds_def by blast






section \<open>A consistent table passes the checks of opening\<close>








section \<open>Opening recovers the table\<close>


lemma set_table_list: "set (table_list t) = ran t"
  by (force simp: table_list_def ran_def)

lemma length_table_list: "length (table_list t) = card (dom t)"
  by (simp add: table_list_def)









section \<open>Restoring a recovered table\<close>




section \<open>A store with a log\<close>



















section \<open>Crash recovery of the store\<close>











text \<open>
  A clock that is set back behind the creation of a session stops the store: the next change of the session carries a
  reversed pair of timestamps, which the log refuses, and the refusal counts as a failed commit.
\<close>

lemma clock_step_poisons:
  assumes "st_byID s sid = Some x" "up \<noteq> 0" "ss_PFCPUserSEID x \<noteq> up" "\<not> st_poisoned s" "st_persister s = Some (w, ios)"
    and "now < ss_CreatedAt x"
  shows "ReconcilePFCPUserSEID_sgwc (wal_commit json) now sid (ss_Revision x) up s =
    (Err ErrPersistence_sgwc, s\<lparr>st_persister := Some (w, tl ios), st_poisoned := True\<rparr>)"
proof -
  let ?y = "x\<lparr>ss_PFCPUserSEID := up, ss_Revision := ss_Revision x + 1, ss_UpdatedAt := now\<rparr>"
  have "Commit_wal json io (Some x) (Some ?y) w = (Err (InvalidTransition ErrInvalidSession_sgwc), w)" for io
    using assms(6) by (simp add: Commit_wal_def transition_record_def validateWALSession_sgwc_def)
  then have "wal_commit json (Some x) (Some ?y) (w, ios) = (False, (w, tl ios))" by (simp add: wal_commit_def)
  then show ?thesis using assms(1-5) by (simp add: ReconcilePFCPUserSEID_sgwc_def persist_sgwc_def Let_def)
qed












end
