(* ===== verification/Spec2Isabelle.thy ===== *)
theory Spec2Isabelle
  imports Gtpu_Header Gtpv2_Message Gtpv2_Values Gtpv2_Strings Ipam Sgwc_Session Pfcp_Message Pfcp_Addresses
    Sgwu_Packet_Path Pfcp_Association Response_Cache Sgw_Procedures Sgwu_Reports Userplane_Selector
    Pgwu_Packet_Path Sgwc_Wal
begin

text \<open>
  \<^bold>\<open>A verification library of Lodestar CUPS\<close>, an LTE gateway split into control planes (SGW-C, PGW-C) and user
  planes (SGW-U, PGW-U) that talk GTPv2-C (S11, S5), PFCP (Sx) and GTP-U.

  \<^bold>\<open>Parts of the program and how they interact.\<close>
  Datagrams enter through the codecs of \<^verbatim>\<open>pkg/gtpu\<close>, \<^verbatim>\<open>pkg/gtpv2\<close> and \<^verbatim>\<open>pkg/pfcp\<close>: a header, then
  information elements framed as type, length, value, then typed accessors of single elements. A control plane keeps
  its sessions in a store with several indexes (\<^verbatim>\<open>internal/sgwc/session\<close>), allocates user addresses from a pool
  (\<^verbatim>\<open>internal/pgwc/ipam\<close>) and installs forwarding rules in a user plane by PFCP. A user plane guards PFCP requests by
  the association state of the sending control plane (\<^verbatim>\<open>internal/pfcp/association\<close>), keeps the rules in a store whose
  indexes the packet path reads without locks (\<^verbatim>\<open>internal/sgwu/rules\<close>) and answers repeated requests from a bounded
  cache (\<^verbatim>\<open>internal/responsecache\<close>).

  \<^bold>\<open>Theories and the code they model.\<close>
  \<^item> \<^verbatim>\<open>Cups_Prelude\<close>: results of Go functions (value, error, panic), slices with their bounds checks, big-endian reads
    and writes; \<^verbatim>\<open>Go_Strings\<close>, \<^verbatim>\<open>Netip\<close>, \<^verbatim>\<open>Index_Maps\<close>: the used parts of \<^verbatim>\<open>strings\<close> and \<^verbatim>\<open>net/netip\<close>, and lemmas on
    tables with index maps.
  \<^item> \<^verbatim>\<open>Gtpu_Header\<close>: \<^verbatim>\<open>pkg/gtpu/header.go\<close>. The buffer-writing \<^verbatim>\<open>MarshalTo\<close> is modelled on the caller's buffer.
  \<^item> \<^verbatim>\<open>Tlv_Framing\<close>: locales for a framing of elements: a reader, a writer and, extending both, a codec; its lemmas
    (the reader inverts the writer, errors, no panic) are proved once and interpreted for GTPv2-C in \<^verbatim>\<open>Gtpv2_IE\<close> and for
    PFCP in \<^verbatim>\<open>Pfcp_IE\<close>.
  \<^item> \<^verbatim>\<open>Gtpv2_Header\<close>, \<^verbatim>\<open>Gtpv2_IE\<close>, \<^verbatim>\<open>Gtpv2_Message\<close>, \<^verbatim>\<open>Gtpv2_Values\<close>, \<^verbatim>\<open>Gtpv2_Strings\<close>: \<^verbatim>\<open>pkg/gtpv2\<close>
    (\<^verbatim>\<open>header.go\<close>, \<^verbatim>\<open>ie.go\<close>, \<^verbatim>\<open>message.go\<close>).
  \<^item> \<^verbatim>\<open>Pfcp_Header\<close>, \<^verbatim>\<open>Pfcp_IE\<close>, \<^verbatim>\<open>Pfcp_Message\<close>, \<^verbatim>\<open>Pfcp_Values\<close>, \<^verbatim>\<open>Pfcp_Addresses\<close>: \<^verbatim>\<open>pkg/pfcp\<close>. The locale
    \<^verbatim>\<open>ie_codec\<close> states what a constructor and an accessor of one element promise each other and is interpreted for every
    typed element.
  \<^item> \<^verbatim>\<open>Ipam\<close>: \<^verbatim>\<open>internal/pgwc/ipam/pool.go\<close>, a bitmap allocator with a cursor.
  \<^item> \<^verbatim>\<open>Sgwc_Session\<close>: \<^verbatim>\<open>internal/sgwc/session/store.go\<close>, with the write-ahead persister as an argument.
  \<^item> \<^verbatim>\<open>Sgwu_Rules\<close>, \<^verbatim>\<open>Sgwu_Packet_Path\<close>: \<^verbatim>\<open>internal/sgwu/rules/store.go\<close>; the first the operations and their invariant,
    the second the lock-free lookups, in a store at rest and against the elementary writes of an update.
  \<^item> \<^verbatim>\<open>Pfcp_Association\<close>: \<^verbatim>\<open>internal/pfcp/association/manager.go\<close>, a timed state machine.
  \<^item> \<^verbatim>\<open>Response_Cache\<close>: \<^verbatim>\<open>internal/responsecache/cache.go\<close>, a bounded cache of answers, over a doubly linked list.
  \<^item> \<^verbatim>\<open>Sgwc_Rule_Requests\<close>: the plans and the rule-bearing requests of \<^verbatim>\<open>internal/sgwc/pfcpclient\<close>; \<^verbatim>\<open>Sgwu_Decode\<close>: how
    \<^verbatim>\<open>internal/sgwu/pfcpserver\<close> decodes them; \<^verbatim>\<open>Sgw_Rule_Exchange\<close>: that the two fit.
  \<^item> \<^verbatim>\<open>Sgwu_Server\<close>: the request handlers, reconciliation, the sweep and the allocation of SEIDs of
    \<^verbatim>\<open>internal/sgwu/pfcpserver/server.go\<close>, over the rule store and the association manager; its step relation
    \<^verbatim>\<open>server_reach\<close> takes arbitrary requests and sweeps. \<^verbatim>\<open>Sgw_Procedures\<close>: what holds of every reachable server, and
    the establishment of a planned session from the request to the packet.
  \<^item> \<^verbatim>\<open>Go_Heap\<close>: \<^verbatim>\<open>container/heap\<close> of Go's standard library, with a locale for the order it needs; \<^verbatim>\<open>Sgwu_Reports\<close>: the
    downlink reports of the same server, from the packet loop's \<^verbatim>\<open>QueueDownlinkReport\<close> to the workers that send them.
  \<^item> \<^verbatim>\<open>Gtpv2_Tft\<close>: \<^verbatim>\<open>pkg/gtpv2/tft.go\<close>, the traffic flow templates of dedicated bearers: the codec, the read-only validation
    and the classification of IPv4 packets.
  \<^item> \<^verbatim>\<open>Sha256\<close>: the digest of Go's \<^verbatim>\<open>crypto/sha256\<close>; \<^verbatim>\<open>Userplane_Selector\<close>: \<^verbatim>\<open>internal/userplane/selector.go\<close>, the placement
    of sessions on user-plane nodes by load, with ties broken by a digest.
  \<^item> \<^verbatim>\<open>Entry_Maps\<close>, \<^verbatim>\<open>Pgwu_Rules\<close>, \<^verbatim>\<open>Pgwu_Packet_Path\<close>: \<^verbatim>\<open>internal/pgwu/rules/store.go\<close>, the packet gateway's rule store:
    first the lemmas on an index filled from the entries of a table, then the operations and their invariant, last the
    packet lookups with their flow filters and what holds in every reachable store. The data plane and the persister are
    arguments.
  \<^item> \<^verbatim>\<open>Control_Journal\<close>: \<^verbatim>\<open>internal/controlstate/journal.go\<close>, the journal of the control planes on file contents: framing with
    CRC-32C, appends, replay with recovery of a torn tail, compaction; the possible results of writes, fsyncs and renames
    are arguments, and the files a crash may leave are stated explicitly. \<^verbatim>\<open>Sgwc_Wal\<close>: \<^verbatim>\<open>internal/sgwc/session/wal.go\<close>,
    the write-ahead log that is the persister of the session store, and the recovery of the store from it; the JSON codec
    is an argument.

  \<^bold>\<open>What the lemmas show.\<close>
  Codecs: no input makes a parser panic; what is marshalled is parsed back to the same value; what is parsed and
  accepted is marshalled back to the same octets, up to the normalisations that the code does (spare bits, extension
  padding, kilobit rates); errors are classified. Stores: an inductive reachability predicate over the operations,
  an invariant that ties every index to the table, and from it the exactness of each lookup with respect to the
  abstract table; failed operations change nothing; a failed commit makes the store refuse every later write. The
  address pool: no address is leased twice, allocation succeeds as long as an address is free. The packet path: a
  lookup returns the rule of least precedence value of the session that owns the tunnel, and a lookup that
  an update overtakes finds the old rules, nothing, or a rule of the new revision, never an old rule after the first
  write. Associations: a silent peer expires, and a peer that was lost is readmitted only by
  reconciliation.
  The response cache behaves as a list in order of use. The PFCP server: no request panics, the sessions in
  the store are exactly those with an owner whose association is not lost, a peer that is not reconciling cannot change
  another's sessions, a sweep removes exactly the sessions of the peers it gives up, and a session planned by the control
  plane is established and served as planned.
  Downlink reports are bounded by the configured queue, accepted exactly when there is room and reason, and leave in the
  order of their due time and priority.
  A traffic flow template is parsed exactly from the octets that marshal to it, and a packet is matched by the first
  filter in order of evaluation. The selector counts every assignment on exactly one node and places a new one on a
  least loaded node that is ready. The packet gateway's lookups find exactly the session and bearer that the table
  gives, filters included, and a store whose commit failed half-way refuses every later write.
  Durability, from the first successful opening on: where octets reach the disk in order, opening what a crash leaves
  yields exactly the acknowledged records, up to what an operation that reported a failure was about to write; whatever
  other octets it leaves behind the synced ones, opening fails or keeps all acknowledged records. The session store of
  SGW-C is recovered from its log in the same sense, for sessions with ASCII strings.

  \<^bold>\<open>Modelling decisions.\<close>
  Go integers are words of their width; lengths and indexes into slices are natural numbers (no slice reaches
  \<^verbatim>\<open>2^63\<close>). A Go error is a constructor of the component's error type; the text of error messages is left out. An
  index or slice out of range, and \<^verbatim>\<open>netip.Addr.As4\<close> of a wrong address, is the result \<open>Panic\<close>. Names are octet
  strings; the case and space functions of \<^verbatim>\<open>strings\<close> are modelled on ASCII, and the statements that depend on it
  assume ASCII names: those on the owner index of the session store (\<open>sgwc_ascii_reach\<close>) and on its recovery (the
  operations of \<open>durable\<close>); in the selector's model a key of other white space counts as a key. A method that holds its lock from entry to return is one atomic step. The writers of the
  SGW-U rule store are defined by their sequences of elementary writes and a lookup by two loads; \<open>LookupPacket_sgwu\<close> is
  the lookup in a store at rest, and \<open>LookupPacket_loads\<close> the one that an update may overtake. The lookups of the PGW-U
  store are modelled in a store at rest only. The order in which Go ranges
  over a map is an argument of the model, quantified in the theorems. Pointers to rule generations are natural numbers
  into a heap of activity flags. Instants are integers (nanoseconds); clocks and the persister are arguments. The wall
  clock may be set back: the expiry of silent peers is stated for such clocks too, while the runs of the PFCP server have
  instants that do not decrease. A
  session or generation counter of 64 bits is kept as a word and the statements about fresh identifiers say where
  wrap-around would matter. No model function needs fuel: the parser loops terminate by the length of the rest.

  \<^bold>\<open>Not modelled.\<close>
  Sockets, timers, goroutines and retransmission (\<^verbatim>\<open>internal/*/transport\<close>), the gateways' procedures that wait for the
  network (\<^verbatim>\<open>internal/sgwc/gateway\<close>, \<^verbatim>\<open>internal/pgwc/gateway\<close>), the paths, ownership checks and locks of the journal's files, kernel
  and eBPF data planes, configuration, telemetry, HTTP servers and the commands, all of which are input and output
  around the modelled state. The handlers of the PFCP server are atomic steps here; the source takes its
  locks for parts of a handler only. Its usage reports are not modelled. The session store of PGW-C, the PFCP server of
  PGW-U, the PFCP filter descriptions and the protocol configuration options follow the patterns of the modelled
  components and are not modelled yet.
\<close>

end
